(* ===== verification/Prelude.thy ===== *)
theory Prelude
  imports Main "HOL-Library.Sublist" "HOL-Library.AList" "HOL-Library.Char_ord"
    "HOL-Library.List_Lexorder" "HOL-Library.Multiset" "HOL-Library.Code_Target_Nat" "HOL-Library.Code_Target_Int"
begin

text \<open>
  Shared vocabulary of the development: the byte-string functions of Go's standard library that
  the modelled packages call (\<^verbatim>\<open>strings\<close>, \<^verbatim>\<open>bytes\<close>, \<^verbatim>\<open>strconv\<close>, \<^verbatim>\<open>sort\<close>), sequencing of
  fallible calls, and the generic lemmas on lists the component theories share.

  Go strings are byte sequences and are modelled as \<^typ>\<open>string\<close>, a list of 8-bit characters.
  Case mapping and white space are those of ASCII: bytes outside ASCII are left alone, so the
  Unicode case and space tables are not part of the model. A slice or map access that Go checks at
  run time is written out where the code relies on the check.
\<close>

section \<open>Collections of facts\<close>

named_theorems go_string_simps \<open>evaluation rules of the string functions\<close>
named_theorems res_simps \<open>sequencing of fallible calls\<close>

section \<open>Fallible calls\<close>

text \<open>
  A Go function that returns \<^verbatim>\<open>(T, error)\<close> is modelled by a value of \<open>'e + 'a\<close>: \<open>Inl\<close> the error,
  \<open>Inr\<close> the value. \<open>and_then\<close> is the idiom \<^verbatim>\<open>if err != nil { return err }\<close>.
\<close>

definition and_then :: "'e + 'a \<Rightarrow> ('a \<Rightarrow> 'e + 'b) \<Rightarrow> 'e + 'b" where
  "and_then r f = (case r of Inl e \<Rightarrow> Inl e | Inr v \<Rightarrow> f v)"

definition guard :: "bool \<Rightarrow> 'e \<Rightarrow> 'e + unit" where
  "guard b e = (if b then Inr () else Inl e)"

primrec map_res :: "('a \<Rightarrow> 'e + 'b) \<Rightarrow> 'a list \<Rightarrow> 'e + 'b list" where
  "map_res f [] = Inr []"
| "map_res f (x # xs) = and_then (f x) (\<lambda>y. and_then (map_res f xs) (\<lambda>ys. Inr (y # ys)))"

primrec first_err :: "('a \<Rightarrow> 'e option) \<Rightarrow> 'a list \<Rightarrow> 'e option" where
  "first_err f [] = None"
| "first_err f (x # xs) = (case f x of Some e \<Rightarrow> Some e | None \<Rightarrow> first_err f xs)"

section \<open>Byte strings\<close>

definition byte :: "char \<Rightarrow> nat" where
  "byte c = (of_char c :: nat)"

definition ascii_upper :: "char \<Rightarrow> bool" where
  "ascii_upper c \<longleftrightarrow> 65 \<le> byte c \<and> byte c \<le> 90"

definition ascii_lower :: "char \<Rightarrow> bool" where
  "ascii_lower c \<longleftrightarrow> 97 \<le> byte c \<and> byte c \<le> 122"

definition ascii_digit :: "char \<Rightarrow> bool" where
  "ascii_digit c \<longleftrightarrow> 48 \<le> byte c \<and> byte c \<le> 57"

definition lower_char :: "char \<Rightarrow> char" where
  "lower_char c = (if ascii_upper c then char_of (byte c + 32) else c)"

definition to_lower :: "string \<Rightarrow> string" where
  "to_lower s = map lower_char s"

definition upper_char :: "char \<Rightarrow> char" where
  "upper_char c = (if ascii_lower c then char_of (byte c - 32) else c)"

definition to_upper :: "string \<Rightarrow> string" where
  "to_upper s = map upper_char s"

definition equal_fold :: "string \<Rightarrow> string \<Rightarrow> bool" where
  "equal_fold s t \<longleftrightarrow> to_lower s = to_lower t"

definition is_space :: "char \<Rightarrow> bool" where
  "is_space c \<longleftrightarrow> byte c = 32 \<or> 9 \<le> byte c \<and> byte c \<le> 13"

definition trim_left_func :: "(char \<Rightarrow> bool) \<Rightarrow> string \<Rightarrow> string" where
  "trim_left_func p s = dropWhile p s"

definition trim_right_func :: "(char \<Rightarrow> bool) \<Rightarrow> string \<Rightarrow> string" where
  "trim_right_func p s = rev (dropWhile p (rev s))"

definition trim_func :: "(char \<Rightarrow> bool) \<Rightarrow> string \<Rightarrow> string" where
  "trim_func p s = trim_right_func p (trim_left_func p s)"

definition trim_space :: "string \<Rightarrow> string" where
  "trim_space s = trim_func is_space s"

definition has_prefix :: "'a list \<Rightarrow> 'a list \<Rightarrow> bool" where
  "has_prefix s p \<longleftrightarrow> prefix p s"

definition has_suffix :: "'a list \<Rightarrow> 'a list \<Rightarrow> bool" where
  "has_suffix s p \<longleftrightarrow> suffix p s"

definition trim_prefix :: "'a list \<Rightarrow> 'a list \<Rightarrow> 'a list" where
  "trim_prefix s p = (if prefix p s then drop (length p) s else s)"

definition trim_suffix :: "'a list \<Rightarrow> 'a list \<Rightarrow> 'a list" where
  "trim_suffix s p = (if suffix p s then take (length s - length p) s else s)"

text \<open>\<^verbatim>\<open>strings.Index\<close>: the least position at which \<open>sub\<close> occurs.\<close>

fun str_index :: "'a list \<Rightarrow> 'a list \<Rightarrow> nat option" where
  "str_index [] sub = (if sub = [] then Some 0 else None)"
| "str_index (c # cs) sub =
     (if prefix sub (c # cs) then Some 0 else map_option Suc (str_index cs sub))"

definition str_contains :: "'a list \<Rightarrow> 'a list \<Rightarrow> bool" where
  "str_contains s sub \<longleftrightarrow> str_index s sub \<noteq> None"

definition last_index :: "'a \<Rightarrow> 'a list \<Rightarrow> nat option" where
  "last_index c s = map_option (\<lambda>i. length s - 1 - i) (str_index (rev s) [c])"

text \<open>\<^verbatim>\<open>strings.Cut\<close>\<close>

definition cut :: "'a list \<Rightarrow> 'a list \<Rightarrow> 'a list \<times> 'a list \<times> bool" where
  "cut s sep = (case str_index s sep of
      None \<Rightarrow> (s, [], False)
    | Some i \<Rightarrow> (take i s, drop (i + length sep) s, True))"

lemma str_index_bound: "str_index s sub = Some i \<Longrightarrow> i + length sub \<le> length s"
proof (induction s arbitrary: i)
  case Nil
  then show ?case by (auto split: if_splits)
next
  case (Cons c cs)
  then show ?case by (auto split: if_splits dest: prefix_length_le)
qed

text \<open>\<^verbatim>\<open>strings.Split\<close> (an empty separator splits after every byte).\<close>

function str_split :: "'a list \<Rightarrow> 'a list \<Rightarrow> 'a list list" where
  "str_split s sep =
     (if sep = [] then map (\<lambda>c. [c]) s
      else case str_index s sep of
        None \<Rightarrow> [s]
      | Some i \<Rightarrow> take i s # str_split (drop (i + length sep) s) sep)"
  by pat_completeness auto
termination
proof (relation "measure (\<lambda>(s, sep). length s)")
  fix s sep :: "'a list" and i
  assume "sep \<noteq> []" "str_index s sep = Some i"
  then have "0 < length sep" "i + length sep \<le> length s"
    by (auto dest: str_index_bound)
  then show "((drop (i + length sep) s, sep), s, sep) \<in> measure (\<lambda>(s, sep). length s)"
    by (simp del: length_greater_0_conv)
qed simp

text \<open>\<^verbatim>\<open>strings.Join\<close>\<close>

fun str_join :: "'a list list \<Rightarrow> 'a list \<Rightarrow> 'a list" where
  "str_join [] sep = []"
| "str_join [x] sep = x"
| "str_join (x # y # ys) sep = x @ sep @ str_join (y # ys) sep"

text \<open>\<^verbatim>\<open>strings.ReplaceAll\<close>: leftmost, non-overlapping occurrences.\<close>

function replace_all :: "'a list \<Rightarrow> 'a list \<Rightarrow> 'a list \<Rightarrow> 'a list" where
  "replace_all s old new =
     (if old = [] then concat (map (\<lambda>c. new @ [c]) s) @ new
      else case s of
        [] \<Rightarrow> []
      | c # cs \<Rightarrow>
          if prefix old (c # cs) then new @ replace_all (drop (length old) (c # cs)) old new
          else c # replace_all cs old new)"
  by pat_completeness auto
termination
  by (relation "measure (\<lambda>(s, old, new). length s)") (auto simp: diff_less_Suc)

declare str_split.simps [simp del] replace_all.simps [simp del]

text \<open>\<^verbatim>\<open>strings.FieldsFunc\<close>: the maximal runs of bytes outside \<open>p\<close>.\<close>

function fields_func :: "(char \<Rightarrow> bool) \<Rightarrow> string \<Rightarrow> string list" where
  "fields_func p [] = []"
| "fields_func p (c # cs) =
     (if p c then fields_func p cs
      else (c # takeWhile (\<lambda>d. \<not> p d) cs) # fields_func p (dropWhile (\<lambda>d. \<not> p d) cs))"
  by pat_completeness auto
termination
  by (relation "measure (\<lambda>(p, s). length s)") (auto simp: less_Suc_eq_le length_dropWhile_le)

text \<open>\<^verbatim>\<open>strconv.Itoa\<close> and \<^verbatim>\<open>strconv.Atoi\<close>\<close>

fun nat_str :: "nat \<Rightarrow> string" where
  "nat_str n = (if n < 10 then [char_of (48 + n)] else nat_str (n div 10) @ [char_of (48 + n mod 10)])"

declare nat_str.simps [simp del]

definition int_str :: "int \<Rightarrow> string" where
  "int_str i = (if i < 0 then CHR ''-'' # nat_str (nat (- i)) else nat_str (nat i))"

fun digits_val :: "nat \<Rightarrow> string \<Rightarrow> nat" where
  "digits_val acc [] = acc"
| "digits_val acc (c # cs) = digits_val (10 * acc + (byte c - 48)) cs"

definition parse_digits :: "string \<Rightarrow> nat option" where
  "parse_digits s = (if s \<noteq> [] \<and> list_all ascii_digit s then Some (digits_val 0 s) else None)"

definition atoi :: "string \<Rightarrow> int option" where
  "atoi s =
     (let neg = has_prefix s ''-'';
          body = (if has_prefix s ''-'' \<or> has_prefix s ''+'' then drop 1 s else s)
      in case parse_digits body of
           None \<Rightarrow> None
         | Some n \<Rightarrow>
             (let v = (if neg then - int n else int n)
              in if - (2 ^ 63) \<le> v \<and> v < 2 ^ 63 then Some v else None))"

text \<open>\<^verbatim>\<open>filepath.Clean\<close>, \<^verbatim>\<open>filepath.Join\<close> and \<^verbatim>\<open>filepath.IsAbs\<close> on a Unix system\<close>

definition path_step :: "bool \<Rightarrow> string list \<Rightarrow> string \<Rightarrow> string list" where
  "path_step rooted out segment =
     (if segment = [] \<or> segment = ''.'' then out
      else if segment = ''..'' then
        (if out \<noteq> [] \<and> last out \<noteq> ''..'' then butlast out
         else if rooted then out else out @ [segment])
      else out @ [segment])"

definition path_clean :: "string \<Rightarrow> string" where
  "path_clean path =
     (let rooted = has_prefix path ''/'';
          cleaned = str_join (foldl (path_step rooted) [] (str_split path ''/'')) ''/''
      in if rooted then CHR ''/'' # cleaned else if cleaned = [] then ''.'' else cleaned)"

definition path_join :: "string list \<Rightarrow> string" where
  "path_join parts =
     (let present = filter (\<lambda>p. p \<noteq> []) parts
      in if present = [] then [] else path_clean (str_join present ''/''))"

definition path_is_abs :: "string \<Rightarrow> bool" where
  "path_is_abs path \<longleftrightarrow> has_prefix path ''/''"

section \<open>Lemmas on fallible calls\<close>

lemma and_then_Inr [simp, res_simps]: "and_then (Inr v) f = f v"
  by (simp add: and_then_def)

lemma and_then_Inl [simp, res_simps]: "and_then (Inl e) f = Inl e"
  by (simp add: and_then_def)

lemma and_then_eq_Inr [res_simps]: "and_then r f = Inr y \<longleftrightarrow> (\<exists>v. r = Inr v \<and> f v = Inr y)"
  by (cases r) auto

lemma and_then_eq_Inl: "and_then r f = Inl e \<longleftrightarrow> r = Inl e \<or> (\<exists>v. r = Inr v \<and> f v = Inl e)"
  by (cases r) auto

lemma and_then_cong [fundef_cong]:
  "r = r' \<Longrightarrow> (\<And>v. r' = Inr v \<Longrightarrow> f v = g v) \<Longrightarrow> and_then r f = and_then r' g"
  by (cases r') auto

lemma guard_eq [simp, res_simps]: "guard b e = Inr u \<longleftrightarrow> b" "guard b e = Inl e' \<longleftrightarrow> \<not> b \<and> e' = e"
  by (auto simp: guard_def)

lemma map_res_length: "map_res f xs = Inr ys \<Longrightarrow> length ys = length xs"
  by (induction xs arbitrary: ys) (auto simp: and_then_eq_Inr)

lemma map_res_Inr_iff: "map_res f xs = Inr ys \<longleftrightarrow> map f xs = map Inr ys"
  by (induction xs arbitrary: ys) (auto simp: and_then_eq_Inr Cons_eq_map_conv)

lemma first_err_None: "first_err f xs = None \<longleftrightarrow> (\<forall>x \<in> set xs. f x = None)"
  by (induction xs) (auto split: option.splits)

section \<open>Lemmas on byte strings\<close>

lemma str_index_Some:
  "str_index s sub = Some i \<Longrightarrow>
     s = take i s @ sub @ drop (i + length sub) s \<and> (\<forall>j < i. \<not> prefix sub (drop j s))"
proof (induction s arbitrary: i)
  case Nil
  then show ?case by (auto split: if_splits)
next
  case (Cons c cs)
  show ?case
  proof (cases "prefix sub (c # cs)")
    case True
    with Cons.prems show ?thesis by (auto simp: prefix_def)
  next
    case False
    with Cons.prems obtain k where k: "str_index cs sub = Some k" "i = Suc k" by auto
    with Cons.IH [of k] False show ?thesis
      by (auto simp: less_Suc_eq_0_disj)
  qed
qed

lemma str_index_None: "str_index s sub = None \<longleftrightarrow> (\<forall>j < Suc (length s). \<not> prefix sub (drop j s))"
proof (induction s)
  case (Cons c cs)
  then show ?case by (auto simp: All_less_Suc2 simp del: All_less_Suc)
qed simp

lemma str_contains_iff: "str_contains s sub \<longleftrightarrow> sublist sub s"
proof
  assume "str_contains s sub"
  then obtain i where "str_index s sub = Some i" by (auto simp: str_contains_def)
  then have "s = take i s @ sub @ drop (i + length sub) s" by (blast dest: str_index_Some)
  then show "sublist sub s" by (metis sublist_appendI)
next
  assume "sublist sub s"
  then obtain u v where "s = u @ sub @ v" by (auto simp: sublist_def)
  then have "length u < Suc (length s)" "prefix sub (drop (length u) s)" by auto
  then have "str_index s sub \<noteq> None" by (auto simp: str_index_None simp del: All_less_Suc)
  then show "str_contains s sub" by (simp add: str_contains_def)
qed

lemma cut_found: "cut s sep = (a, b, True) \<Longrightarrow> s = a @ sep @ b"
  by (auto simp: cut_def split: option.splits dest: str_index_Some)

lemma cut_not_found: "cut s sep = (a, b, False) \<Longrightarrow> a = s \<and> b = [] \<and> \<not> str_contains s sep"
  by (auto simp: cut_def str_contains_def split: option.splits)

lemma str_index_single: "str_index s [c] = Some i \<Longrightarrow> c \<notin> set (take i s) \<and> i < length s \<and> s ! i = c"
proof (induction s arbitrary: i)
  case Nil
  then show ?case by simp
next
  case (Cons d ds)
  then show ?case by (cases i) (auto split: if_splits)
qed

lemma str_index_single_None: "str_index s [c] = None \<longleftrightarrow> c \<notin> set s"
  by (induction s) auto

lemma str_index_single_append: "c \<notin> set u \<Longrightarrow> str_index (u @ c # v) [c] = Some (length u)"
  by (induction u) auto

lemma str_split_nonempty [simp]: "sep \<noteq> [] \<Longrightarrow> str_split s sep \<noteq> []"
  by (subst str_split.simps) (auto split: option.splits)

lemma str_join_Cons: "xs \<noteq> [] \<Longrightarrow> str_join (x # xs) sep = x @ sep @ str_join xs sep"
  by (cases xs) auto

lemma str_join_split: "sep \<noteq> [] \<Longrightarrow> str_join (str_split s sep) sep = s"
proof (induction s sep rule: str_split.induct)
  case (1 s sep)
  show ?case
  proof (cases "str_index s sep")
    case None
    with 1 show ?thesis by (subst str_split.simps) simp
  next
    case (Some i)
    then have "s = take i s @ sep @ drop (i + length sep) s" by (blast dest: str_index_Some)
    with 1 Some show ?thesis
      by (subst str_split.simps) (simp add: str_join_Cons)
  qed
qed

lemma str_split_no_sep: "c \<notin> set s \<Longrightarrow> str_split s [c] = [s]"
  by (subst str_split.simps) (simp add: str_index_single_None split: option.splits)

lemma str_split_single_append: "c \<notin> set u \<Longrightarrow> str_split (u @ c # v) [c] = u # str_split v [c]"
  by (subst str_split.simps) (simp add: str_index_single_append)

lemma str_split_pieces: "x \<in> set (str_split s [c]) \<Longrightarrow> c \<notin> set x"
proof (induction s "[c]" rule: str_split.induct)
  case (1 s)
  show ?case
  proof (cases "str_index s [c]")
    case None
    with 1(2) show ?thesis by (subst (asm) str_split.simps) (simp add: str_index_single_None)
  next
    case (Some i)
    with 1 show ?thesis
      by (subst (asm) (2) str_split.simps) (auto dest: str_index_single)
  qed
qed

lemma str_split_join: "xs \<noteq> [] \<Longrightarrow> (\<forall>x \<in> set xs. c \<notin> set x) \<Longrightarrow> str_split (str_join xs [c]) [c] = xs"
proof (induction xs)
  case (Cons x xs)
  then show ?case
    by (cases xs) (auto simp: str_split_no_sep str_split_single_append)
qed simp

subsection \<open>Replacement\<close>

lemma replace_all_Nil [simp]: "old \<noteq> [] \<Longrightarrow> replace_all [] old new = []"
  by (subst replace_all.simps) simp

lemma replace_all_hit: "old \<noteq> [] \<Longrightarrow> replace_all (old @ s) old new = new @ replace_all s old new"
proof -
  assume "old \<noteq> []"
  then obtain a as where "old = a # as" by (cases old) auto
  then show ?thesis by (subst replace_all.simps) simp
qed

text \<open>\<open>no_start old c\<close>: no occurrence of \<open>old\<close> begins inside \<open>c\<close>, whatever follows \<open>c\<close>.\<close>

definition no_start :: "'a list \<Rightarrow> 'a list \<Rightarrow> bool" where
  "no_start old c \<longleftrightarrow> (\<forall>ys. \<forall>j < length c. \<not> prefix old (drop j (c @ ys)))"

lemma no_start_Cons: "no_start old (x # xs) \<Longrightarrow> no_start old xs"
  by (fastforce simp: no_start_def)

lemma no_start_head: "old = a # as \<Longrightarrow> a \<notin> set c \<Longrightarrow> no_start old c"
  by (auto simp: no_start_def prefix_def drop_append)
    (metis Cons_nth_drop_Suc append_Cons list.inject nth_mem)

lemma replace_all_skip:
  "old \<noteq> [] \<Longrightarrow> no_start old c \<Longrightarrow> replace_all (c @ s) old new = c @ replace_all s old new"
proof (induction c)
  case (Cons x xs)
  have "\<not> prefix old (drop 0 ((x # xs) @ s))"
    using Cons.prems(2) unfolding no_start_def by blast
  with Cons show ?case
    by (subst replace_all.simps) (auto dest: no_start_Cons)
qed simp

text \<open>Replacement over a string that is a sequence of chunks, each the old text or free of it.\<close>

lemma replace_all_chunks:
  assumes "old \<noteq> []" and "\<And>x. x \<in> set xs \<Longrightarrow> f x = old \<or> no_start old (f x)"
  shows "replace_all (concat (map f xs)) old new =
    concat (map (\<lambda>x. if f x = old then new else f x) xs)"
  using assms(2)
proof (induction xs)
  case Nil
  with assms(1) show ?case by simp
next
  case (Cons x xs)
  then have "replace_all (concat (map f xs)) old new =
      concat (map (\<lambda>x. if f x = old then new else f x) xs)" by simp
  moreover have "f x = old \<or> no_start old (f x)" using Cons.prems by simp
  ultimately show ?case
    using assms(1) replace_all_hit [OF assms(1)] replace_all_skip [OF assms(1), of "f x"] by auto
qed

lemma replace_all_single:
  "replace_all s [c] new = concat (map (\<lambda>d. if d = c then new else [d]) s)"
proof -
  have "replace_all (concat (map (\<lambda>d. [d]) s)) [c] new =
      concat (map (\<lambda>d. if [d] = [c] then new else [d]) s)"
    by (rule replace_all_chunks) (auto intro: no_start_head)
  moreover have "concat (map (\<lambda>d. [d]) s) = s" by (induction s) auto
  ultimately show ?thesis by (simp cong: if_cong)
qed

lemma replace_all_absent: "old = a # as \<Longrightarrow> a \<notin> set s \<Longrightarrow> replace_all s old new = s"
  using replace_all_skip [of old s "[]" new] no_start_head [of old a as s] by simp

section \<open>32-bit integers\<close>

definition int32 :: "int \<Rightarrow> int" where
  "int32 v = (v + 2 ^ 31) mod 2 ^ 32 - 2 ^ 31"

lemma int32_small [simp]: "- (2 ^ 31) \<le> v \<Longrightarrow> v < 2 ^ 31 \<Longrightarrow> int32 v = v"
  by (simp add: int32_def)

section \<open>Status of a job's dependencies\<close>

text \<open>
  The struct \<^verbatim>\<open>Status\<close> of \<^verbatim>\<open>src/internal/expression/expression.go\<close>, which the run controller fills and the status functions read.
\<close>

record expression_status =
  status_success :: bool
  status_failure :: bool
  status_cancelled :: bool

section \<open>Runes\<close>

text \<open>
  \<^verbatim>\<open>utf8.RuneCountInString\<close>: the number of UTF-8 sequences, where each byte that does not start a valid sequence counts
  as one.
\<close>

definition continuation :: "nat \<Rightarrow> nat \<Rightarrow> string \<Rightarrow> nat \<Rightarrow> bool" where
  "continuation lo hi s i \<longleftrightarrow> i < length s \<and> lo \<le> byte (s ! i) \<and> byte (s ! i) \<le> hi"

definition rune_size :: "string \<Rightarrow> nat" where
  "rune_size s =
     (let b = byte (hd s);
          two = (\<lambda>lo hi. continuation lo hi s 1);
          tail = (\<lambda>i. continuation 128 191 s i)
      in if b \<le> 127 then 1
         else if 194 \<le> b \<and> b \<le> 223 then (if tail 1 then 2 else 1)
         else if b = 224 then (if two 160 191 \<and> tail 2 then 3 else 1)
         else if b = 237 then (if two 128 159 \<and> tail 2 then 3 else 1)
         else if 225 \<le> b \<and> b \<le> 239 then (if tail 1 \<and> tail 2 then 3 else 1)
         else if b = 240 then (if two 144 191 \<and> tail 2 \<and> tail 3 then 4 else 1)
         else if 241 \<le> b \<and> b \<le> 243 then (if tail 1 \<and> tail 2 \<and> tail 3 then 4 else 1)
         else if b = 244 then (if two 128 143 \<and> tail 2 \<and> tail 3 then 4 else 1)
         else 1)"

lemma rune_size_pos: "0 < rune_size s"
  by (simp add: rune_size_def Let_def)

function rune_count :: "string \<Rightarrow> nat" where
  "rune_count s = (if s = [] then 0 else Suc (rune_count (drop (rune_size s) s)))"
  by pat_completeness auto
termination
  by (relation "measure length") (auto simp: rune_size_pos)

declare rune_count.simps [simp del]

lemma rune_count_le: "rune_count s \<le> length s"
proof (induction s rule: rune_count.induct)
  case (1 s)
  then show ?case using rune_size_pos [of s] by (subst rune_count.simps) (cases s, auto)
qed

end
