(* ===== verification/Masking.thy ===== *)
theory Masking
  imports Prelude
begin

text \<open>
  Secret masking of a step's output, \<^verbatim>\<open>src/internal/runner/output.go\<close>: the mask set
  (\<^verbatim>\<open>outputMasker\<close>), the one-pass rewriting of a byte sequence (\<^verbatim>\<open>maskPrefix\<close>), and the streaming
  writer (\<^verbatim>\<open>maskingWriter\<close>) that holds back the bytes a later chunk could complete to a secret.

  The writer's target is any \<^verbatim>\<open>io.Writer\<close>, so its \<^verbatim>\<open>Write\<close> method is an argument of the definitions;
  the locales \<open>accepting_writer\<close> and \<open>recording_writer\<close> state the \<^verbatim>\<open>io.Writer\<close> contract the
  lemmas rely on. The mutexes only serialise the calls, which the model runs one at a time.
\<close>

section \<open>The mask set\<close>

definition maxMaskValueBytes :: nat where
  "maxMaskValueBytes = 393216"

definition maxOutputBufferBytes :: nat where
  "maxOutputBufferBytes = 524288"

record outputMasker =
  masks :: "string list"

definition masker_add :: "outputMasker \<Rightarrow> string \<Rightarrow> outputMasker" where
  "masker_add m v =
     (if v = [] \<or> length v > maxMaskValueBytes then m
      else if v \<in> set (masks m) then m
      else m\<lparr>masks := sort_key (\<lambda>x. - int (length x)) (masks m @ [v])\<rparr>)"

definition newOutputMasker :: "string list \<Rightarrow> outputMasker" where
  "newOutputMasker vs = foldl masker_add \<lparr>masks = []\<rparr> vs"

section \<open>Rewriting a byte sequence\<close>

text \<open>The loop of \<^verbatim>\<open>maskPrefix\<close>: at each position the first matching secret of the list, if any.\<close>

function mask_loop :: "string list \<Rightarrow> string \<Rightarrow> nat \<Rightarrow> nat \<Rightarrow> string \<Rightarrow> string \<times> nat" where
  "mask_loop ms data limit position masked =
     (if position < limit then
        (case find (\<lambda>secret. prefix secret (drop position data)) ms of
           Some secret \<Rightarrow>
             (if 0 < length secret
              then mask_loop ms data limit (position + length secret) (masked @ ''***'')
              else mask_loop ms data limit (position + 1) (masked @ [data ! position]))
         | None \<Rightarrow> mask_loop ms data limit (position + 1) (masked @ [data ! position]))
      else (masked, position))"
  by pat_completeness auto
termination
  by (relation "measure (\<lambda>(ms, data, limit, position, masked). limit - position)")
    (auto simp: diff_less_mono2)

declare mask_loop.simps [simp del]

definition maskPrefix :: "outputMasker \<Rightarrow> string \<Rightarrow> bool \<Rightarrow> string \<times> nat" where
  "maskPrefix m data final =
     (if \<not> final \<and> masks m \<noteq> [] then
        (let limit = int (length data) - int (length (hd (masks m))) + 1
         in if limit < 1 then ([], 0) else mask_loop (masks m) data (nat limit) 0 [])
      else mask_loop (masks m) data (length data) 0 [])"

definition mask_text :: "outputMasker \<Rightarrow> string \<Rightarrow> string" where
  "mask_text m v = foldl (\<lambda>acc secret. replace_all acc secret ''***'') v (masks m)"

definition masker_contains :: "outputMasker \<Rightarrow> string \<Rightarrow> bool" where
  "masker_contains m v \<longleftrightarrow> list_ex (\<lambda>secret. str_contains v secret) (masks m)"

section \<open>The streaming writer\<close>

datatype io_error = ErrShortWrite | OutputBufferFull | WriterError string

type_synonym 's write_fun = "'s \<Rightarrow> string \<Rightarrow> 's \<times> nat \<times> io_error option"

function writeAll :: "'s write_fun \<Rightarrow> 's \<Rightarrow> string \<Rightarrow> 's \<times> io_error option" where
  "writeAll wr s data =
     (if data = [] then (s, None)
      else case wr s data of
        (s', written, Some e) \<Rightarrow> (s', Some e)
      | (s', written, None) \<Rightarrow>
          if written = 0 then (s', Some ErrShortWrite)
          else writeAll wr s' (drop written data))"
  by pat_completeness auto
termination
  by (relation "measure (\<lambda>(wr, s, data). length data)") auto

declare writeAll.simps [simp del]

record 's maskingWriter =
  masker :: outputMasker
  target :: 's
  buffer :: string

definition mw_process :: "'s write_fun \<Rightarrow> 's maskingWriter \<Rightarrow> bool \<Rightarrow> 's maskingWriter \<times> io_error option" where
  "mw_process wr w final =
     (case maskPrefix (masker w) (buffer w) final of
        (masked, consumed) \<Rightarrow>
          if consumed = 0 then (w, None)
          else case writeAll wr (target w) masked of
            (t, Some e) \<Rightarrow> (w\<lparr>target := t\<rparr>, Some e)
          | (t, None) \<Rightarrow> (w\<lparr>target := t, buffer := drop consumed (buffer w)\<rparr>, None))"

text \<open>
  \<^verbatim>\<open>Write\<close>. The first component of the loop body is the optional drain when the buffer is full.
\<close>

definition mw_drain :: "'s write_fun \<Rightarrow> 's maskingWriter \<Rightarrow> 's maskingWriter \<times> io_error option" where
  "mw_drain wr w =
     (if maxOutputBufferBytes - length (buffer w) = 0 then
        (case mw_process wr w False of
           (w', Some e) \<Rightarrow> (w', Some e)
         | (w', None) \<Rightarrow>
             if maxOutputBufferBytes - length (buffer w') = 0 then (w', Some OutputBufferFull)
             else (w', None))
      else (w, None))"

lemma mw_drain_room: "mw_drain wr w = (w1, None) \<Longrightarrow> length (buffer w1) < maxOutputBufferBytes"
  by (auto simp: mw_drain_def split: if_splits prod.splits option.splits)

function mw_write_loop ::
  "'s write_fun \<Rightarrow> 's maskingWriter \<Rightarrow> string \<Rightarrow> nat \<Rightarrow> 's maskingWriter \<times> nat \<times> io_error option" where
  "mw_write_loop wr w data written =
     (if data = [] then (w, written, None)
      else case mw_drain wr w of
        (w1, Some e) \<Rightarrow> (w1, written, Some e)
      | (w1, None) \<Rightarrow>
          (let space = min (maxOutputBufferBytes - length (buffer w1)) (length data);
               w2 = w1\<lparr>buffer := buffer w1 @ take space data\<rparr>
           in case mw_process wr w2 False of
                (w3, Some e) \<Rightarrow> (w3, written + space, Some e)
              | (w3, None) \<Rightarrow> mw_write_loop wr w3 (drop space data) (written + space)))"
  by pat_completeness auto
termination
  by (relation "measure (\<lambda>(wr, w, data, written). length data)") (auto dest!: mw_drain_room [OF sym] simp: min_def)

declare mw_write_loop.simps [simp del]

definition mw_write :: "'s write_fun \<Rightarrow> 's maskingWriter write_fun" where
  "mw_write wr w data = mw_write_loop wr w data 0"

definition mw_flush :: "'s write_fun \<Rightarrow> 's maskingWriter \<Rightarrow> 's maskingWriter \<times> io_error option" where
  "mw_flush wr w = mw_process wr w True"

section \<open>Well-formed mask sets\<close>

definition wf_masker :: "outputMasker \<Rightarrow> bool" where
  "wf_masker m \<longleftrightarrow>
     sorted_wrt (\<lambda>a b. length b \<le> length a) (masks m) \<and> distinct (masks m) \<and>
     (\<forall>v \<in> set (masks m). v \<noteq> [] \<and> length v \<le> maxMaskValueBytes)"

lemma sorted_wrt_by_length:
  "sorted (map (\<lambda>x. - int (length x)) xs) \<Longrightarrow> sorted_wrt (\<lambda>a b. length b \<le> length a) xs"
  by (induction xs) auto

lemma wf_masker_empty: "wf_masker \<lparr>masks = []\<rparr>"
  by (simp add: wf_masker_def)

lemma wf_masker_add: "wf_masker m \<Longrightarrow> wf_masker (masker_add m v)"
  by (auto simp: masker_add_def wf_masker_def intro!: sorted_wrt_by_length)

lemma wf_newOutputMasker: "wf_masker (newOutputMasker vs)"
proof -
  have "wf_masker m \<Longrightarrow> wf_masker (foldl masker_add m vs)" for m
    by (induction vs arbitrary: m) (auto simp: wf_masker_add)
  then show ?thesis by (simp add: newOutputMasker_def wf_masker_empty)
qed

lemma wf_masker_hd: "wf_masker m \<Longrightarrow> v \<in> set (masks m) \<Longrightarrow> length v \<le> length (hd (masks m))"
  by (cases "masks m") (auto simp: wf_masker_def)

section \<open>What masking means: kept bytes and redacted secrets\<close>

datatype seg = Kept char | Redacted string

fun seg_plain :: "seg \<Rightarrow> string" where
  "seg_plain (Kept c) = [c]"
| "seg_plain (Redacted r) = r"

fun seg_shown :: "seg \<Rightarrow> string" where
  "seg_shown (Kept c) = [c]"
| "seg_shown (Redacted r) = ''***''"

abbreviation plain :: "seg list \<Rightarrow> string" where
  "plain gs \<equiv> concat (map seg_plain gs)"

abbreviation shown :: "seg list \<Rightarrow> string" where
  "shown gs \<equiv> concat (map seg_shown gs)"

function segs :: "string list \<Rightarrow> string \<Rightarrow> seg list" where
  "segs ms s =
     (case s of
        [] \<Rightarrow> []
      | c # cs \<Rightarrow>
          (case find (\<lambda>m. prefix m s) ms of
             Some m \<Rightarrow>
               if 0 < length m then Redacted m # segs ms (drop (length m) s) else Kept c # segs ms cs
           | None \<Rightarrow> Kept c # segs ms cs))"
  by pat_completeness auto
termination
  by (relation "measure (\<lambda>(ms, s). length s)") auto

declare segs.simps [simp del]

lemma segs_Nil [simp]: "segs ms [] = []"
  by (simp add: segs.simps)

lemma find_Some_prefix: "find (\<lambda>m. prefix m s) ms = Some m \<Longrightarrow> m \<in> set ms \<and> prefix m s"
  by (auto simp: find_Some_iff)

lemma segs_hit:
  "find (\<lambda>m. prefix m s) ms = Some m \<Longrightarrow> 0 < length m \<Longrightarrow>
     segs ms s = Redacted m # segs ms (drop (length m) s)"
  by (subst segs.simps) (auto split: list.splits dest: find_Some_prefix)

lemma segs_miss:
  "(\<And>m. find (\<lambda>m. prefix m (c # cs)) ms = Some m \<Longrightarrow> \<not> 0 < length m) \<Longrightarrow>
     segs ms (c # cs) = Kept c # segs ms cs"
  by (subst segs.simps) (auto split: option.splits)

text \<open>Case analysis and induction along the rewriting: end of text, a secret, or a kept byte.\<close>

lemma segs_induct [case_names Nil Hit Miss]:
  assumes "P []"
    and "\<And>s m. find (\<lambda>m. prefix m s) ms = Some m \<Longrightarrow> 0 < length m \<Longrightarrow> m \<in> set ms \<Longrightarrow>
      s = m @ drop (length m) s \<Longrightarrow> P (drop (length m) s) \<Longrightarrow> P s"
    and "\<And>c cs. (\<And>m. find (\<lambda>m. prefix m (c # cs)) ms = Some m \<Longrightarrow> \<not> 0 < length m) \<Longrightarrow> P cs \<Longrightarrow> P (c # cs)"
  shows "P s"
proof (induction s rule: length_induct)
  case (1 s)
  show ?case
  proof (cases "\<exists>m. find (\<lambda>m. prefix m s) ms = Some m \<and> 0 < length m")
    case True
    then obtain m where m: "find (\<lambda>m. prefix m s) ms = Some m" "0 < length m" by blast
    then have "m \<in> set ms" "prefix m s" by (auto dest: find_Some_prefix)
    moreover from this have "s = m @ drop (length m) s" by (auto simp: prefix_def)
    moreover from \<open>prefix m s\<close> m(2) have "length (drop (length m) s) < length s"
      by (auto simp: prefix_def)
    ultimately show ?thesis using m 1 assms(2) by blast
  next
    case False
    then show ?thesis using 1 assms(1,3) by (cases s) auto
  qed
qed

lemma plain_segs: "plain (segs ms s) = s"
proof (induction s rule: segs_induct [where ms = ms])
  case (Hit s m)
  then show ?case by (simp add: segs_hit)
qed (simp_all add: segs_miss)

lemma redacted_is_mask: "Redacted r \<in> set (segs ms s) \<Longrightarrow> r \<in> set ms"
proof (induction s rule: segs_induct [where ms = ms])
  case (Hit s m)
  then show ?case by (auto simp: segs_hit)
qed (simp_all add: segs_miss)

lemma kept_not_secret:
  assumes "segs ms s = us @ Kept c # vs" "\<forall>m \<in> set ms. m \<noteq> []" "m \<in> set ms"
  shows "\<not> prefix m (plain (Kept c # vs))"
  using assms(1)
proof (induction s arbitrary: us rule: segs_induct [where ms = ms])
  case (Hit s m')
  then obtain us' where "us = Redacted m' # us'" by (cases us) (auto simp: segs_hit)
  with Hit show ?case by (simp add: segs_hit)
next
  case (Miss d ds)
  show ?case
  proof (cases us)
    case Nil
    with Miss have eq: "plain (Kept c # vs) = d # ds"
      using plain_segs [of ms ds] by (simp add: segs_miss)
    have "\<exists>m'. find (\<lambda>m. prefix m (d # ds)) ms = Some m'" if "prefix m (d # ds)"
      using that assms(3) by (metis find_None_iff option.exhaust)
    with Miss(1) assms(2) eq show ?thesis by (auto dest: find_Some_prefix)
  next
    case (Cons u us')
    with Miss show ?thesis by (simp add: segs_miss)
  qed
qed simp

section \<open>The loop computes the segments\<close>

lemma mask_loop_segs:
  assumes "mask_loop ms data limit pos acc = (out, pos')"
    and "\<And>m p. m \<in> set ms \<Longrightarrow> p < limit \<Longrightarrow> prefix m (drop p (data @ rest)) = prefix m (drop p data)"
    and "limit \<le> length data" and "pos \<le> length data"
  shows "\<exists>us. out = acc @ shown us \<and> pos \<le> pos' \<and> limit \<le> pos' \<and> pos' \<le> length data \<and>
     segs ms (drop pos (data @ rest)) = us @ segs ms (drop pos' (data @ rest))"
  using assms
proof (induction ms data limit pos acc rule: mask_loop.induct)
  case (1 ms data limit pos acc)
  show ?case
  proof (cases "pos < limit")
    case False
    with 1(4) have "out = acc" "pos' = pos" by (auto simp: mask_loop.simps)
    with False 1(7) show ?thesis by (intro exI [of _ "[]"]) auto
  next
    case True
    let ?d = "drop pos (data @ rest)"
    have lt: "pos < length data" using True 1(6) by simp
    then have d: "?d = data ! pos # drop (Suc pos) (data @ rest)"
      by (simp add: Cons_nth_drop_Suc drop_append)
    have feq: "find (\<lambda>m. prefix m ?d) ms = find (\<lambda>m. prefix m (drop pos data)) ms"
      by (rule find_cong) (simp_all add: 1(5) True del: drop_append)
    show ?thesis
    proof (cases "\<exists>m. find (\<lambda>m. prefix m (drop pos data)) ms = Some m \<and> 0 < length m")
      case True
      then obtain m where m: "find (\<lambda>m. prefix m (drop pos data)) ms = Some m" "0 < length m" by blast
      then have len: "pos + length m \<le> length data"
        using lt by (auto dest!: find_Some_prefix prefix_length_le)
      have "segs ms ?d = Redacted m # segs ms (drop (length m) ?d)"
        using m feq by (intro segs_hit) (simp_all del: drop_append)
      then have sg: "segs ms ?d = Redacted m # segs ms (drop (pos + length m) (data @ rest))"
        by (simp add: add.commute drop_drop del: drop_append)
      have "mask_loop ms data limit (pos + length m) (acc @ ''***'') = (out, pos')"
        using 1(4) m \<open>pos < limit\<close> by (subst (asm) mask_loop.simps) simp
      from 1(2) [OF \<open>pos < limit\<close> m this 1(5,6) len] obtain us
        where "out = (acc @ ''***'') @ shown us" "pos + length m \<le> pos'" "limit \<le> pos'"
          "pos' \<le> length data"
          "segs ms (drop (pos + length m) (data @ rest)) = us @ segs ms (drop pos' (data @ rest))"
        by blast
      with sg show ?thesis by (intro exI [of _ "Redacted m # us"]) auto
    next
      case False
      then have sg: "segs ms ?d = Kept (data ! pos) # segs ms (drop (Suc pos) (data @ rest))"
        using feq d by (metis segs_miss)
      have st: "mask_loop ms data limit (pos + 1) (acc @ [data ! pos]) = (out, pos')"
        using 1(4) False \<open>pos < limit\<close> by (subst (asm) mask_loop.simps) (auto split: option.splits)
      have "\<exists>us. out = (acc @ [data ! pos]) @ shown us \<and> pos + 1 \<le> pos' \<and> limit \<le> pos' \<and>
          pos' \<le> length data \<and> segs ms (drop (pos + 1) (data @ rest)) = us @ segs ms (drop pos' (data @ rest))"
      proof (cases "find (\<lambda>m. prefix m (drop pos data)) ms")
        case None
        from 1(1) [OF \<open>pos < limit\<close> None st 1(5,6)] lt show ?thesis by simp
      next
        case (Some m)
        with False have "\<not> 0 < length m" by simp
        from 1(3) [OF \<open>pos < limit\<close> Some this st 1(5,6)] lt show ?thesis by simp
      qed
      then obtain us where "out = (acc @ [data ! pos]) @ shown us" "pos + 1 \<le> pos'" "limit \<le> pos'"
          "pos' \<le> length data"
          "segs ms (drop (pos + 1) (data @ rest)) = us @ segs ms (drop pos' (data @ rest))"
        by blast
      with sg show ?thesis by (intro exI [of _ "Kept (data ! pos) # us"]) auto
    qed
  qed
qed

text \<open>A whole text is rewritten to its shown segments.\<close>

lemma maskPrefix_final: "maskPrefix m data True = (shown (segs (masks m) data), length data)"
proof -
  obtain out pos where e: "mask_loop (masks m) data (length data) 0 [] = (out, pos)" by fastforce
  from mask_loop_segs [OF e, of "[]"] obtain us
    where "out = shown us" "pos = length data" "segs (masks m) data = us @ segs (masks m) (drop pos data)"
    by auto
  with e show ?thesis by (simp add: maskPrefix_def)
qed

text \<open>
  A prefix is rewritten only as far as no later byte can change the decision: the rewritten part
  is an initial part of the segments of every continuation.
\<close>

lemma maskPrefix_partial:
  assumes "wf_masker m" "maskPrefix m data False = (out, k)"
  shows "\<exists>us. out = shown us \<and> k \<le> length data \<and>
     segs (masks m) (data @ rest) = us @ segs (masks m) (drop k data @ rest)"
proof (cases "masks m = []")
  case True
  then have e: "mask_loop (masks m) data (length data) 0 [] = (out, k)"
    using assms(2) by (simp add: maskPrefix_def)
  from mask_loop_segs [OF e, of rest] True show ?thesis by fastforce
next
  case False
  let ?limit = "int (length data) - int (length (hd (masks m))) + 1"
  show ?thesis
  proof (cases "?limit < 1")
    case True
    with False assms(2) show ?thesis by (auto simp: maskPrefix_def)
  next
    case big: False
    have e: "mask_loop (masks m) data (nat ?limit) 0 [] = (out, k)"
      using False big assms(2) by (simp add: maskPrefix_def Let_def)
    have "v \<noteq> []" if "v \<in> set (masks m)" for v
      using that assms(1) by (auto simp: wf_masker_def)
    then have "0 < length (hd (masks m))" using False by (metis hd_in_set length_greater_0_conv)
    then have "nat ?limit \<le> length data" by linarith
    moreover have "prefix v (drop p (data @ rest)) = prefix v (drop p data)"
      if "v \<in> set (masks m)" "p < nat ?limit" for v p
    proof -
      have "p + length v \<le> length data"
        using that wf_masker_hd [OF assms(1) that(1)] by linarith
      then have "length v \<le> length (drop p data)" "p \<le> length data" by auto
      then show ?thesis by (auto simp: prefix_def append_eq_append_conv2 simp flip: length_0_conv)
    qed
    ultimately obtain us where "out = shown us" "k \<le> length data"
      "segs (masks m) (data @ rest) = us @ segs (masks m) (drop k (data @ rest))"
      using mask_loop_segs [OF e, of rest] by force
    then show ?thesis by auto
  qed
qed

lemma maskPrefix_rest:
  assumes "wf_masker m" "maskPrefix m data False = (out, k)"
  shows "length data - k < maxMaskValueBytes"
proof (cases "masks m = []")
  case True
  then have e: "mask_loop (masks m) data (length data) 0 [] = (out, k)"
    using assms(2) by (simp add: maskPrefix_def)
  from mask_loop_segs [OF e, of "[]"] have "length data \<le> k" by auto
  then show ?thesis by (simp add: maxMaskValueBytes_def)
next
  case False
  let ?limit = "int (length data) - int (length (hd (masks m))) + 1"
  have hd: "0 < length (hd (masks m))" "length (hd (masks m)) \<le> maxMaskValueBytes"
    using False assms(1) hd_in_set [OF False] by (auto simp: wf_masker_def)
  show ?thesis
  proof (cases "?limit < 1")
    case True
    with False assms(2) hd show ?thesis by (auto simp: maskPrefix_def)
  next
    case big: False
    have e: "mask_loop (masks m) data (nat ?limit) 0 [] = (out, k)"
      using False big assms(2) by (simp add: maskPrefix_def Let_def)
    have "nat ?limit \<le> length data" using hd(1) by linarith
    then have "nat ?limit \<le> k" using mask_loop_segs [OF e, of "[]"] by auto
    with hd show ?thesis by linarith
  qed
qed

section \<open>Writers\<close>

text \<open>
  The part of the \<^verbatim>\<open>io.Writer\<close> contract the code relies on: in a state \<open>ok\<close> allows, writing a
  non-empty block takes at least one byte, no more than it was given, and reports no error.
\<close>

locale accepting_writer =
  fixes wr :: "'s write_fun"
    and ok :: "'s \<Rightarrow> bool"
  assumes accepts: "ok s \<Longrightarrow> d \<noteq> [] \<Longrightarrow> wr s d = (s', n, err) \<Longrightarrow> err = None \<and> 0 < n \<and> n \<le> length d \<and> ok s'"
begin

lemma writeAll_step:
  assumes "ok s" "d \<noteq> []"
  shows "\<exists>s' n. wr s d = (s', n, None) \<and> 0 < n \<and> ok s' \<and> length (drop n d) < length d \<and>
    writeAll wr s d = writeAll wr s' (drop n d)"
proof -
  obtain s' n err where w: "wr s d = (s', n, err)" by (cases "wr s d") auto
  with accepts [OF assms w] assms(2) show ?thesis
    by (subst writeAll.simps) auto
qed

lemma writeAll_ok: "ok s \<Longrightarrow> \<exists>s'. writeAll wr s d = (s', None) \<and> ok s'"
proof (induction d arbitrary: s rule: length_induct)
  case (1 d)
  then show ?case
    using writeAll_step [of s d] by (cases "d = []") (auto simp: writeAll.simps [of wr s "[]"])
qed

end

text \<open>A recording writer keeps what it took: \<open>content\<close> is the byte sequence written so far.\<close>

locale recording_writer = accepting_writer +
  fixes content :: "'s \<Rightarrow> string"
  assumes records: "ok s \<Longrightarrow> d \<noteq> [] \<Longrightarrow> wr s d = (s', n, err) \<Longrightarrow> content s' = content s @ take n d"
begin

lemma writeAll_content: "ok s \<Longrightarrow> writeAll wr s d = (s', None) \<Longrightarrow> content s' = content s @ d"
proof (induction d arbitrary: s rule: length_induct)
  case (1 d)
  show ?case
  proof (cases "d = []")
    case True
    with 1 show ?thesis by (simp add: writeAll.simps)
  next
    case False
    from writeAll_step [OF 1(2) False] obtain s1 n
      where w: "wr s d = (s1, n, None)" "ok s1" "length (drop n d) < length d"
        "writeAll wr s d = writeAll wr s1 (drop n d)" by blast
    from 1(1) w 1(3) have "content s' = content s1 @ drop n d" by auto
    with records [OF 1(2) False w(1)] show ?thesis by simp
  qed
qed

end

text \<open>\<^verbatim>\<open>bytes.Buffer\<close>, the writer that keeps everything.\<close>

definition buffer_write :: "string write_fun" where
  "buffer_write s d = (s @ d, length d, None)"

interpretation bufw: recording_writer buffer_write "\<lambda>_. True" "\<lambda>s. s"
  by unfold_locales (auto simp: buffer_write_def)

section \<open>The streaming writer\<close>

definition mw_ok :: "('s \<Rightarrow> bool) \<Rightarrow> 's maskingWriter \<Rightarrow> bool" where
  "mw_ok ok w \<longleftrightarrow> ok (target w) \<and> wf_masker (masker w) \<and> length (buffer w) < maxMaskValueBytes"

lemma mask_buffer_room: "n < maxMaskValueBytes \<Longrightarrow> 0 < maxOutputBufferBytes - n"
  by (simp add: maxMaskValueBytes_def maxOutputBufferBytes_def)

lemma mw_drain_idle: "length (buffer w) < maxMaskValueBytes \<Longrightarrow> mw_drain wr w = (w, None)"
  using mask_buffer_room [of "length (buffer w)"] by (simp add: mw_drain_def)

context accepting_writer
begin

lemma mw_process_ok:
  assumes "ok (target w)" "wf_masker (masker w)"
  shows "\<exists>w'. mw_process wr w False = (w', None) \<and> mw_ok ok w' \<and> masker w' = masker w"
proof -
  obtain out k where m: "maskPrefix (masker w) (buffer w) False = (out, k)" by fastforce
  obtain t where t: "writeAll wr (target w) out = (t, None)" "ok t"
    using writeAll_ok [OF assms(1)] by blast
  with m assms maskPrefix_rest [OF assms(2) m] show ?thesis
    by (auto simp: mw_process_def mw_ok_def)
qed

lemma mw_flush_ok: "ok (target w) \<Longrightarrow> \<exists>w'. mw_flush wr w = (w', None) \<and> ok (target w')"
  using writeAll_ok [of "target w" "fst (maskPrefix (masker w) (buffer w) True)"]
  by (auto simp: mw_flush_def mw_process_def split: prod.splits)

lemma mw_write_loop_ok:
  "mw_ok ok w \<Longrightarrow> \<exists>w'. mw_write_loop wr w data n = (w', n + length data, None) \<and> mw_ok ok w' \<and> masker w' = masker w"
proof (induction data arbitrary: w n rule: length_induct)
  case (1 data)
  show ?case
  proof (cases "data = []")
    case True
    with 1 show ?thesis by (simp add: mw_write_loop.simps)
  next
    case False
    let ?space = "min (maxOutputBufferBytes - length (buffer w)) (length data)"
    let ?w2 = "w\<lparr>buffer := buffer w @ take ?space data\<rparr>"
    have lt: "length (buffer w) < maxMaskValueBytes" using 1(2) by (simp add: mw_ok_def)
    then have sp: "0 < ?space" "?space \<le> length data"
      using False mask_buffer_room [OF lt] by auto
    obtain w3 where w3: "mw_process wr ?w2 False = (w3, None)" "mw_ok ok w3" "masker w3 = masker w"
      using mw_process_ok [of ?w2] 1(2) by (auto simp: mw_ok_def)
    have "mw_write_loop wr w data n = mw_write_loop wr w3 (drop ?space data) (n + ?space)"
      using False w3(1) mw_drain_idle [OF lt] by (subst mw_write_loop.simps) (simp add: Let_def)
    moreover have "length (drop ?space data) < length data" using sp False by simp
    ultimately show ?thesis using 1(1) [rule_format, of "drop ?space data" w3 "n + ?space"] w3 sp by simp
  qed
qed

lemma mw_accepting: "accepting_writer (mw_write wr) (mw_ok ok)"
proof
  fix s d s' n err
  assume "mw_ok ok s" "d \<noteq> []" "mw_write wr s d = (s', n, err)"
  then show "err = None \<and> 0 < n \<and> n \<le> length d \<and> mw_ok ok s'"
    using mw_write_loop_ok [of s d 0] by (auto simp: mw_write_def)
qed

end

context recording_writer
begin

text \<open>What the target will hold if \<open>rest\<close> is still to come and the writer is then flushed.\<close>

definition final_view :: "'s maskingWriter \<Rightarrow> string \<Rightarrow> string" where
  "final_view w rest = content (target w) @ shown (segs (masks (masker w)) (buffer w @ rest))"

lemma mw_process_view:
  assumes "ok (target w)" "wf_masker (masker w)" "mw_process wr w False = (w', None)"
  shows "final_view w' rest = final_view w rest"
proof -
  obtain out k where m: "maskPrefix (masker w) (buffer w) False = (out, k)" by fastforce
  obtain t where t: "writeAll wr (target w) out = (t, None)"
    using writeAll_ok [OF assms(1)] by blast
  from maskPrefix_partial [OF assms(2) m, of rest] writeAll_content [OF assms(1) t] assms(3) m t
  show ?thesis by (auto simp: mw_process_def final_view_def split: if_splits)
qed

lemma mw_write_loop_view:
  "mw_ok ok w \<Longrightarrow> mw_write_loop wr w data n = (w', k, None) \<Longrightarrow> final_view w' rest = final_view w (data @ rest)"
proof (induction data arbitrary: w n rule: length_induct)
  case (1 data)
  show ?case
  proof (cases "data = []")
    case True
    with 1 show ?thesis by (simp add: mw_write_loop.simps)
  next
    case False
    let ?space = "min (maxOutputBufferBytes - length (buffer w)) (length data)"
    let ?w2 = "w\<lparr>buffer := buffer w @ take ?space data\<rparr>"
    have lt: "length (buffer w) < maxMaskValueBytes" using 1(2) by (simp add: mw_ok_def)
    then have sp: "0 < ?space" using False mask_buffer_room [OF lt] by auto
    obtain w3 where w3: "mw_process wr ?w2 False = (w3, None)" "mw_ok ok w3"
      using mw_process_ok [of ?w2] 1(2) by (auto simp: mw_ok_def)
    have "mw_write_loop wr w data n = mw_write_loop wr w3 (drop ?space data) (n + ?space)"
      using False w3(1) mw_drain_idle [OF lt] by (subst mw_write_loop.simps) (simp add: Let_def)
    moreover have "length (drop ?space data) < length data" using sp False by simp
    ultimately have "final_view w' rest = final_view w3 (drop ?space data @ rest)"
      using 1(1,3) w3(2) by metis
    also have "\<dots> = final_view ?w2 (drop ?space data @ rest)"
      using mw_process_view [OF _ _ w3(1)] 1(2) by (simp add: mw_ok_def)
    also have "\<dots> = final_view w (data @ rest)"
      by (simp add: final_view_def flip: append_assoc [of "take _ _"])
    finally show ?thesis .
  qed
qed

lemma mw_flush_view:
  assumes "ok (target w)" "mw_flush wr w = (w', None)"
  shows "content (target w') = final_view w []"
proof -
  obtain t where t: "writeAll wr (target w) (shown (segs (masks (masker w)) (buffer w))) = (t, None)"
    using writeAll_ok [OF assms(1)] by blast
  from assms(2) t writeAll_content [OF assms(1) t] show ?thesis
    by (auto simp: mw_flush_def mw_process_def maskPrefix_final final_view_def split: if_splits)
qed

end

section \<open>Runs of the writer\<close>

text \<open>A run: blocks written one after the other, stopping at an error, then a flush.\<close>

primrec mw_run :: "'s write_fun \<Rightarrow> 's maskingWriter \<Rightarrow> string list \<Rightarrow> 's maskingWriter \<times> io_error option" where
  "mw_run wr w [] = mw_flush wr w"
| "mw_run wr w (d # ds) = (case mw_write wr w d of
     (w', n, Some e) \<Rightarrow> (w', Some e)
   | (w', n, None) \<Rightarrow> mw_run wr w' ds)"

context recording_writer
begin

lemma mw_run_view:
  "mw_ok ok w \<Longrightarrow> \<exists>w'. mw_run wr w ds = (w', None) \<and> content (target w') = final_view w (concat ds)"
proof (induction ds arbitrary: w)
  case Nil
  then have "ok (target w)" by (simp add: mw_ok_def)
  with mw_flush_ok mw_flush_view show ?case by fastforce
next
  case (Cons d ds)
  obtain w1 where w1: "mw_write wr w d = (w1, length d, None)" "mw_ok ok w1"
    using mw_write_loop_ok [OF Cons.prems, of d 0] by (auto simp: mw_write_def)
  from mw_write_loop_view [OF Cons.prems] w1(1) have "final_view w1 (concat ds) = final_view w (d @ concat ds)"
    by (simp add: mw_write_def)
  with Cons.IH [OF w1(2)] w1(1) show ?case by auto
qed

end

section \<open>Properties\<close>

text \<open>
  C24. Streaming does not change what is masked: for every mask set built by \<^verbatim>\<open>newOutputMasker\<close>,
  every sequence of blocks and every target that keeps what it is given, writing the blocks and
  flushing succeeds and leaves in the target exactly what rewriting the concatenation in one pass
  gives. A secret split over block boundaries is redacted like any other.
\<close>

theorem streaming_equals_one_pass:
  assumes "recording_writer wr ok content" and "ok t"
  shows "\<exists>w'. mw_run wr \<lparr>masker = newOutputMasker vs, target = t, buffer = []\<rparr> ds = (w', None) \<and>
    content (target w') = content t @ fst (maskPrefix (newOutputMasker vs) (concat ds) True)"
proof -
  let ?w = "\<lparr>masker = newOutputMasker vs, target = t, buffer = []\<rparr> :: 'a maskingWriter"
  have "mw_ok ok ?w"
    using assms(2) by (simp add: mw_ok_def wf_newOutputMasker maxMaskValueBytes_def)
  from recording_writer.mw_run_view [OF assms(1) this, of ds] show ?thesis
    by (simp add: recording_writer.final_view_def [OF assms(1)] maskPrefix_final)
qed

theorem streaming_equals_one_pass_witness:
  "\<exists>w'. mw_run buffer_write
      \<lparr>masker = newOutputMasker [''secret'', ''token-token''], target = ''> '', buffer = []\<rparr>
      [''my sec'', ''ret and to'', ''ken-token'', ''.''] = (w', None) \<and>
    target w' = ''> '' @ fst (maskPrefix (newOutputMasker [''secret'', ''token-token''])
      (concat [''my sec'', ''ret and to'', ''ken-token'', ''.'']) True)"
  by (rule streaming_equals_one_pass [OF bufw.recording_writer_axioms TrueI])

text \<open>
  C3. No byte at which a registered secret starts is ever shown: the rewritten text is the text
  with whole secrets replaced by three stars, and no secret of the mask set begins at a byte that
  was kept.
\<close>

theorem masked_output_keeps_no_secret_start:
  "\<exists>gs. data = plain gs \<and> maskPrefix (newOutputMasker vs) data True = (shown gs, length data) \<and>
     (\<forall>r. Redacted r \<in> set gs \<longrightarrow> r \<in> set (masks (newOutputMasker vs))) \<and>
     (\<forall>us c ws. gs = us @ Kept c # ws \<longrightarrow>
        (\<forall>m \<in> set (masks (newOutputMasker vs)). \<not> prefix m (plain (Kept c # ws))))"
proof -
  let ?ms = "masks (newOutputMasker vs)"
  have "\<forall>m \<in> set ?ms. m \<noteq> []" using wf_newOutputMasker [of vs] by (simp add: wf_masker_def)
  then have kept: "\<forall>us c ws. segs ?ms data = us @ Kept c # ws \<longrightarrow>
      (\<forall>m \<in> set ?ms. \<not> prefix m (plain (Kept c # ws)))"
    using kept_not_secret [of ?ms data] by simp
  have "data = plain (segs ?ms data)"
    and "maskPrefix (newOutputMasker vs) data True = (shown (segs ?ms data), length data)"
    and "\<forall>r. Redacted r \<in> set (segs ?ms data) \<longrightarrow> r \<in> set ?ms"
    by (simp_all add: plain_segs maskPrefix_final redacted_is_mask)
  with kept show ?thesis by (intro exI [of _ "segs ?ms data"] conjI)
qed

theorem masked_output_keeps_no_secret_start_witness:
  "(\<exists>gs. ''a secret b'' = plain gs \<and>
     maskPrefix (newOutputMasker [''secret'']) ''a secret b'' True = (shown gs, length ''a secret b'') \<and>
     (\<forall>r. Redacted r \<in> set gs \<longrightarrow> r \<in> set (masks (newOutputMasker [''secret''])))) \<and>
   maskPrefix (newOutputMasker [''secret'']) ''a secret b'' True = (''a *** b'', 10)"
proof
  show "maskPrefix (newOutputMasker [''secret'']) ''a secret b'' True = (''a *** b'', 10)"
    by code_simp
qed (use masked_output_keeps_no_secret_start [of "''a secret b''" "[''secret'']"] in blast)

text \<open>
  The held-back buffer stays below the longest mask a masker accepts, so a write over an
  accepting target takes every byte and never reports a full buffer, whatever masks were added.
\<close>

theorem masking_write_takes_everything:
  assumes "accepting_writer wr ok" and "ok (target w)" and "masker w = newOutputMasker vs"
    and "length (buffer w) < maxMaskValueBytes"
  shows "\<exists>w'. mw_write wr w d = (w', length d, None) \<and> ok (target w') \<and>
    masker w' = masker w \<and> length (buffer w') < maxMaskValueBytes"
proof -
  have "mw_ok ok w" using assms(2-4) by (simp add: mw_ok_def wf_newOutputMasker)
  from accepting_writer.mw_write_loop_ok [OF assms(1) this, of d 0] show ?thesis
    by (auto simp: mw_write_def mw_ok_def)
qed

theorem masking_write_takes_everything_witness:
  "\<exists>w'. mw_write buffer_write \<lparr>masker = newOutputMasker [''secret''], target = [], buffer = ''sec''\<rparr> ''ret!'' =
      (w', length ''ret!'', None) \<and> True \<and>
    masker w' = masker \<lparr>masker = newOutputMasker [''secret''], target = [], buffer = ''sec''\<rparr> \<and>
    length (buffer w') < maxMaskValueBytes"
  using masking_write_takes_everything [OF bufw.accepting_writer_axioms, of
      "\<lparr>masker = newOutputMasker [''secret''], target = [], buffer = ''sec''\<rparr>" "[''secret'']" "''ret!''"]
  by (simp add: maxMaskValueBytes_def)

end
