(* ===== verification/WorkflowCommand.thy ===== *)
theory WorkflowCommand
  imports Prelude
begin

text \<open>
  Workflow commands on a step's output, \<^verbatim>\<open>src/internal/workflowcommand/parser.go\<close>: the
  double-colon form \<^verbatim>\<open>::name key=value,...::data\<close> and the bracket form \<^verbatim>\<open>##[name key=value;...]data\<close>,
  with the escapes of \<^verbatim>\<open>src/internal/runner/workflow_commands.go\<close> that write the first form. The
  properties of a command are a Go map, modelled as an association list with distinct keys.
\<close>

section \<open>Decoding\<close>

record Command =
  Name :: string
  Properties :: "(string \<times> string) list"
  Value :: string

abbreviation CR :: char where "CR \<equiv> CHR 0x0D"
abbreviation LF :: char where "LF \<equiv> CHR 0x0A"

definition replaceEscape :: "string \<Rightarrow> string \<Rightarrow> string \<Rightarrow> string" where
  "replaceEscape v encoded decoded =
     (let v = replace_all v encoded decoded in replace_all v (to_lower encoded) decoded)"

definition unescapeDoubleColonData :: "string \<Rightarrow> string" where
  "unescapeDoubleColonData v =
     (let v = replaceEscape v ''%0D'' [CR];
          v = replaceEscape v ''%0A'' [LF]
      in replaceEscape v ''%25'' ''%'')"

definition unescapeDoubleColonProperty :: "string \<Rightarrow> string" where
  "unescapeDoubleColonProperty v =
     (let v = replaceEscape v ''%3A'' '':'';
          v = replaceEscape v ''%2C'' '',''
      in unescapeDoubleColonData v)"

definition unescapeBracketValue :: "string \<Rightarrow> string" where
  "unescapeBracketValue v =
     (let v = replaceEscape v ''%3B'' '';'';
          v = replaceEscape v ''%0D'' [CR];
          v = replaceEscape v ''%0A'' [LF];
          v = replaceEscape v ''%5D'' '']''
      in replaceEscape v ''%25'' ''%'')"

definition add_property :: "(string \<Rightarrow> string) \<Rightarrow> (string \<times> string) list \<Rightarrow> string \<Rightarrow> (string \<times> string) list" where
  "add_property unescape props property =
     (case cut property ''='' of
        (key, v, found) \<Rightarrow>
          if found \<and> key \<noteq> [] then AList.update (to_lower key) (unescape v) props else props)"

definition parseHeader :: "string \<Rightarrow> string \<Rightarrow> (string \<Rightarrow> string) \<Rightarrow> string \<times> (string \<times> string) list" where
  "parseHeader header delimiter unescape =
     (case cut header '' '' of
        (name, propertyList, _) \<Rightarrow>
          (to_lower name, foldl (add_property unescape) [] (str_split propertyList delimiter)))"

definition parseDoubleColon :: "string \<Rightarrow> Command option" where
  "parseDoubleColon line =
     (if \<not> has_prefix line ''::'' then None
      else case str_index (drop 2 line) ''::'' of
        None \<Rightarrow> None
      | Some i \<Rightarrow>
          (let separator = i + 2;
               (name, properties) =
                 parseHeader (take (separator - 2) (drop 2 line)) '','' unescapeDoubleColonProperty
           in if name = [] then None
              else Some \<lparr>Name = name, Properties = properties,
                Value = unescapeDoubleColonData (drop (separator + 2) line)\<rparr>))"

definition parseBracket :: "string \<Rightarrow> Command option" where
  "parseBracket line =
     (case str_index (drop 3 line) '']'' of
        None \<Rightarrow> None
      | Some i \<Rightarrow>
          (let close = i + 3;
               (name, properties) =
                 parseHeader (take (close - 3) (drop 3 line)) '';'' unescapeBracketValue
           in if name = [] then None
              else Some \<lparr>Name = name, Properties = properties,
                Value = unescapeBracketValue (drop (close + 1) line)\<rparr>))"

definition parseCommand :: "string \<Rightarrow> Command option" where
  "parseCommand line =
     (case parseDoubleColon (trim_left_func is_space line) of
        Some command \<Rightarrow> Some command
      | None \<Rightarrow>
          (case str_index line ''##['' of
             None \<Rightarrow> None
           | Some marker \<Rightarrow> parseBracket (drop marker line)))"

definition isResume :: "string \<Rightarrow> string \<Rightarrow> bool" where
  "isResume line token =
     (case parseCommand line of
        None \<Rightarrow> False
      | Some command \<Rightarrow>
          Name command = to_lower token \<and> length (Properties command) = 0 \<and> Value command = [])"

section \<open>Encoding\<close>

definition escapeCommandData :: "string \<Rightarrow> string" where
  "escapeCommandData v =
     (let v = replace_all v ''%'' ''%25'';
          v = replace_all v [CR] ''%0D''
      in replace_all v [LF] ''%0A'')"

definition escapeCommandProperty :: "string \<Rightarrow> string" where
  "escapeCommandProperty v =
     (let v = escapeCommandData v;
          v = replace_all v '':'' ''%3A''
      in replace_all v '','' ''%2C'')"

text \<open>
  The line \<^verbatim>\<open>writeRenderedCommand\<close> prints; \<open>msk\<close> is the masker's rewriting of a value.
\<close>

definition renderedLine :: "(string \<Rightarrow> string) \<Rightarrow> Command \<Rightarrow> string" where
  "renderedLine msk command =
     (let properties = sort
            (map (\<lambda>(name, v). name @ ''='' @ escapeCommandProperty (msk v)) (Properties command));
          header = (if 0 < length properties then Name command @ '' '' @ str_join properties '',''
                    else Name command)
      in ''::'' @ header @ ''::'' @ escapeCommandData (msk (Value command)))"

section \<open>Encoded text as a sequence of chunks\<close>

text \<open>What the two encoders make of one byte.\<close>

definition data_enc :: "char \<Rightarrow> string" where
  "data_enc c = (if c = CHR ''%'' then ''%25'' else if c = CR then ''%0D''
     else if c = LF then ''%0A'' else [c])"

definition prop_enc :: "char \<Rightarrow> string" where
  "prop_enc c = (if c = CHR '':'' then ''%3A'' else if c = CHR '','' then ''%2C'' else data_enc c)"

lemma concat_map_concat:
  "concat (map g (concat (map f xs))) = concat (map (\<lambda>x. concat (map g (f x))) xs)"
  by (induction xs) auto

lemma escapeCommandData_chunks: "escapeCommandData v = concat (map data_enc v)"
  unfolding escapeCommandData_def Let_def replace_all_single concat_map_concat
  by (rule arg_cong [where f = concat], rule map_cong) (auto simp: data_enc_def)

lemma escapeCommandProperty_chunks: "escapeCommandProperty v = concat (map prop_enc v)"
  unfolding escapeCommandProperty_def Let_def escapeCommandData_chunks replace_all_single
    concat_map_concat
  by (rule arg_cong [where f = concat], rule map_cong) (auto simp: data_enc_def prop_enc_def)

lemma escapeCommandProperty_clean:
  "c \<in> set (escapeCommandProperty v) \<Longrightarrow> c \<noteq> CHR '':'' \<and> c \<noteq> CHR '','' \<and> c \<noteq> CR \<and> c \<noteq> LF"
  by (auto simp: escapeCommandProperty_chunks prop_enc_def data_enc_def split: if_splits)

lemma escapeCommandData_clean: "c \<in> set (escapeCommandData v) \<Longrightarrow> c \<noteq> CR \<and> c \<noteq> LF"
  by (auto simp: escapeCommandData_chunks data_enc_def split: if_splits)

lemma no_start_other: "a \<noteq> c \<Longrightarrow> no_start (a # as) [c]"
  by (rule no_start_head) auto

lemma no_start_percent:
  "[u, v] \<noteq> [x, y] \<Longrightarrow> x \<noteq> p \<Longrightarrow> y \<noteq> p \<Longrightarrow> no_start [p, u, v] [p, x, y]"
  by (auto simp: no_start_def less_Suc_eq numeral_3_eq_3 numeral_2_eq_2)

lemmas no_start_rules = no_start_other no_start_percent

text \<open>
  One decoding step over chunks: every chunk that is the encoded text, in either case, is decoded.
\<close>

lemma replaceEscape_chunks:
  assumes "e = CHR ''%'' # es" "to_lower e = CHR ''%'' # ls"
    and "\<And>x. x \<in> set xs \<Longrightarrow> f x = e \<or> (no_start e (f x) \<and> no_start (to_lower e) (f x))"
    and "no_start (to_lower e) d"
  shows "replaceEscape (concat (map f xs)) e d = concat (map (\<lambda>x. if f x = e then d else f x) xs)"
proof -
  have 1: "replace_all (concat (map f xs)) e d = concat (map (\<lambda>x. if f x = e then d else f x) xs)"
    by (rule replace_all_chunks) (use assms in auto)
  have "replace_all (concat (map (\<lambda>x. if f x = e then d else f x) xs)) (to_lower e) d =
      concat (map (\<lambda>x. if (if f x = e then d else f x) = to_lower e then d
        else if f x = e then d else f x) xs)"
    by (rule replace_all_chunks) (use assms in auto)
  also have "\<dots> = concat (map (\<lambda>x. if f x = e then d else f x) xs)"
  proof (rule arg_cong [where f = concat], rule map_cong)
    fix x assume "x \<in> set xs"
    have "f x \<noteq> to_lower e" if "f x \<noteq> e"
      using assms(3) [OF \<open>x \<in> set xs\<close>] that assms(2)
      by (force simp: no_start_def)
    then show "(if (if f x = e then d else f x) = to_lower e then d else if f x = e then d else f x) =
        (if f x = e then d else f x)" by auto
  qed simp
  finally show ?thesis using 1 by (simp add: replaceEscape_def Let_def)
qed

lemma lower_escapes [simp]:
  "to_lower ''%0D'' = ''%0d''" "to_lower ''%0A'' = ''%0a''" "to_lower ''%25'' = ''%25''"
  "to_lower ''%3A'' = ''%3a''" "to_lower ''%2C'' = ''%2c''"
  by code_simp+

text \<open>The chunks the encoders produce, and what is left of them while they are decoded.\<close>

definition chunk_ok :: "string \<Rightarrow> bool" where
  "chunk_ok s \<longleftrightarrow> s \<in> {''%25'', ''%0D'', ''%0A'', ''%3A'', ''%2C''} \<or> (\<exists>c. s = [c] \<and> c \<noteq> CHR ''%'')"

lemma chunk_no_start:
  assumes "chunk_ok s" "x \<noteq> CHR ''%''" "y \<noteq> CHR ''%''" "s \<noteq> [CHR ''%'', x, y]"
  shows "no_start [CHR ''%'', x, y] s"
  using assms unfolding chunk_ok_def
  by (elim disjE exE insertE) (auto intro!: no_start_percent no_start_other)

lemma decode_step:
  assumes "\<And>x. chunk_ok (f x)" "d \<noteq> CHR ''%''"
    and "e \<in> {''%0D'', ''%0A'', ''%3A'', ''%2C''}"
  shows "replaceEscape (concat (map f xs)) e [d] = concat (map (\<lambda>x. if f x = e then [d] else f x) xs)"
proof -
  obtain x y x' y' where e: "e = [CHR ''%'', x, y]" "to_lower e = [CHR ''%'', x', y']"
      and ne: "x \<noteq> CHR ''%''" "y \<noteq> CHR ''%''" "x' \<noteq> CHR ''%''" "y' \<noteq> CHR ''%''"
      and low: "\<not> chunk_ok (to_lower e)"
    using assms(3) by (elim insertE) (auto simp: chunk_ok_def)
  show ?thesis
  proof (rule replaceEscape_chunks [OF e])
    fix z
    have "f z \<noteq> to_lower e" using assms(1) [of z] low by auto
    then show "f z = e \<or> no_start e (f z) \<and> no_start (to_lower e) (f z)"
      using chunk_no_start [OF assms(1) [of z] ne(1,2)] chunk_no_start [OF assms(1) [of z] ne(3,4)] e
      by auto
    show "no_start (to_lower e) [d]" unfolding e(2) using assms(2) by (intro no_start_other) auto
  qed
qed

lemma decode_step_ok:
  "chunk_ok s \<Longrightarrow> d \<noteq> CHR ''%'' \<Longrightarrow> chunk_ok (if s = e then [d] else s)"
  by (simp add: chunk_ok_def)

text \<open>
  The last step, \<^verbatim>\<open>replaceEscape(value, "%25", "%")\<close>, runs the same replacement twice, since the
  lower-case form of the escape is the escape itself.
\<close>

lemma decode_percent:
  assumes "\<And>c. f c = (if c = CHR ''%'' then ''%25'' else [c])"
  shows "replaceEscape (concat (map f v)) ''%25'' ''%'' = replace_all v ''%25'' ''%''"
proof -
  have "replace_all (concat (map f v)) ''%25'' ''%'' =
      concat (map (\<lambda>c. if f c = ''%25'' then ''%'' else f c) v)"
    by (rule replace_all_chunks) (auto simp: assms intro: no_start_other)
  also have "\<dots> = concat (map (\<lambda>c. [c]) v)"
    by (rule arg_cong [where f = concat], rule map_cong) (auto simp: assms)
  also have "\<dots> = v" by (induction v) auto
  finally show ?thesis by (simp add: replaceEscape_def Let_def)
qed

lemma prop_enc_ok: "chunk_ok (prop_enc c)" and data_enc_ok: "chunk_ok (data_enc c)"
  by (auto simp: prop_enc_def data_enc_def chunk_ok_def)

lemma unescapeData_chunks:
  assumes "\<And>c. chunk_ok (f c)"
    and "\<And>c. (if (if f c = ''%0D'' then [CR] else f c) = ''%0A'' then [LF]
          else if f c = ''%0D'' then [CR] else f c) = (if c = CHR ''%'' then ''%25'' else [c])"
  shows "unescapeDoubleColonData (concat (map f v)) = replace_all v ''%25'' ''%''"
proof -
  have 1: "replaceEscape (concat (map f v)) ''%0D'' [CR] =
      concat (map (\<lambda>c. if f c = ''%0D'' then [CR] else f c) v)"
    by (rule decode_step [OF assms(1)]) simp_all
  show ?thesis
    unfolding unescapeDoubleColonData_def Let_def 1
    by (subst decode_step [OF decode_step_ok [OF assms(1)]], simp, simp, simp)
      (rule decode_percent [OF assms(2)])
qed

lemma unescape_escapeData:
  "unescapeDoubleColonData (escapeCommandData v) = replace_all v ''%25'' ''%''"
  unfolding escapeCommandData_chunks
  by (rule unescapeData_chunks [OF data_enc_ok]) (simp add: data_enc_def)

lemma unescape_escapeProperty:
  "unescapeDoubleColonProperty (escapeCommandProperty v) = replace_all v ''%25'' ''%''"
proof -
  let ?f = "\<lambda>c. if prop_enc c = ''%3A'' then '':'' else prop_enc c"
  let ?g = "\<lambda>c. if ?f c = ''%2C'' then '','' else ?f c"
  have ok: "chunk_ok (?f c)" for c by (rule decode_step_ok [OF prop_enc_ok]) simp
  have 1: "replaceEscape (concat (map prop_enc v)) ''%3A'' '':'' = concat (map ?f v)"
    by (rule decode_step [OF prop_enc_ok]) simp_all
  have 2: "replaceEscape (concat (map ?f v)) ''%2C'' '','' = concat (map ?g v)"
    by (rule decode_step [OF ok]) simp_all
  show ?thesis
    unfolding unescapeDoubleColonProperty_def escapeCommandProperty_chunks Let_def 1 2
    by (rule unescapeData_chunks [OF decode_step_ok [OF ok]]) (simp_all add: prop_enc_def data_enc_def)
qed

section \<open>Printing and parsing\<close>

lemma replace_all_length:
  "length new \<le> length old \<Longrightarrow> old \<noteq> [] \<Longrightarrow> length (replace_all s old new) \<le> length s"
proof (induction s old new rule: replace_all.induct)
  case (1 s old new)
  show ?case
  proof (cases s)
    case (Cons c cs)
    show ?thesis
    proof (cases "prefix old s")
      case True
      then have "length old \<le> length s" by (rule prefix_length_le)
      moreover have "length (replace_all (drop (length old) s) old new) \<le> length s - length old"
        using 1 Cons True by simp
      ultimately show ?thesis
        using True Cons 1(3,4) by (subst replace_all.simps) simp
    qed (use 1 Cons in \<open>subst replace_all.simps, simp\<close>)
  qed (use 1 in simp)
qed

lemma replace_all_fixed:
  assumes "length new < length old"
  shows "replace_all s old new = s \<longleftrightarrow> \<not> str_contains s old"
proof -
  have ne: "old \<noteq> []" using assms by auto
  have hit: "replace_all s old new = s" if "\<not> str_contains s old" for s
    using that
  proof (induction s)
    case (Cons c cs)
    then have "\<not> prefix old (c # cs)" "\<not> str_contains cs old" by (auto simp: str_contains_def split: if_splits)
    with Cons.IH ne show ?case by (subst replace_all.simps) simp
  qed (use ne in simp)
  have short: "length (replace_all s old new) < length s" if "str_contains s old" for s
    using that
  proof (induction s)
    case (Cons c cs)
    show ?case
    proof (cases "prefix old (c # cs)")
      case True
      then have "length old \<le> length (c # cs)" by (rule prefix_length_le)
      moreover have "length (replace_all (drop (length old) (c # cs)) old new) \<le> length (c # cs) - length old"
        using replace_all_length [of new old "drop (length old) (c # cs)"] assms ne by simp
      ultimately show ?thesis using True assms ne by (subst replace_all.simps) simp
    next
      case False
      with Cons have "str_contains cs old" by (auto simp: str_contains_def)
      with Cons.IH False ne show ?thesis by (subst replace_all.simps) simp
    qed
  qed (use ne in \<open>simp add: str_contains_def\<close>)
  show ?thesis using hit [of s] short [of s] by auto
qed

definition plain_name :: "string \<Rightarrow> bool" where
  "plain_name s \<longleftrightarrow> s \<noteq> [] \<and> to_lower s = s \<and> set s \<inter> set '' =,:'' = {}"

definition plain_command :: "Command \<Rightarrow> bool" where
  "plain_command c \<longleftrightarrow> plain_name (Name c) \<and> distinct (map fst (Properties c)) \<and>
     (\<forall>k \<in> fst ` set (Properties c). plain_name k)"

lemma str_index_double:
  "a \<notin> set u \<Longrightarrow> str_index (u @ a # b # w) [a, b] = Some (length u)"
  by (induction u) auto

lemma cut_single: "c \<notin> set u \<Longrightarrow> cut (u @ c # v) [c] = (u, v, True)"
  by (simp add: cut_def str_index_single_append)

lemma cut_single_absent: "c \<notin> set u \<Longrightarrow> cut u [c] = (u, [], False)"
  by (simp add: cut_def str_index_single_None [THEN iffD2])

lemma parseDoubleColon_header:
  assumes "CHR '':'' \<notin> set header" "parseHeader header '','' unescapeDoubleColonProperty = (name, props)"
    "name \<noteq> []"
  shows "parseDoubleColon (''::'' @ header @ ''::'' @ data) =
    Some \<lparr>Name = name, Properties = props, Value = unescapeDoubleColonData data\<rparr>"
  using assms str_index_double [of "CHR '':''" header "CHR '':''" data]
  by (simp add: parseDoubleColon_def has_prefix_def)

lemma parseCommand_double_colon:
  "parseDoubleColon (''::'' @ rest) = Some c \<Longrightarrow> parseCommand (''::'' @ rest) = Some c"
  by (simp add: parseCommand_def trim_left_func_def is_space_def byte_def)

lemma add_property_render:
  assumes "plain_name k"
  shows "add_property unescapeDoubleColonProperty acc (k @ ''='' @ escapeCommandProperty v) =
    AList.update k (replace_all v ''%25'' ''%'') acc"
proof -
  have "cut (k @ CHR ''='' # escapeCommandProperty v) ''='' = (k, escapeCommandProperty v, True)"
    by (rule cut_single) (use assms in \<open>auto simp: plain_name_def\<close>)
  with assms show ?thesis
    by (simp add: add_property_def plain_name_def unescape_escapeProperty)
qed

lemma foldl_update_map_of:
  "distinct (map fst qs) \<Longrightarrow>
     map_of (foldl (\<lambda>acc (k, v). AList.update k (h v) acc) acc qs) =
     (\<lambda>k. case map_of qs k of None \<Rightarrow> map_of acc k | Some v \<Rightarrow> Some (h v))"
proof (induction qs arbitrary: acc)
  case (Cons q qs)
  obtain k v where [simp]: "q = (k, v)" by force
  from Cons.prems have "map_of qs k = None" by (simp add: map_of_eq_None_iff)
  with Cons show ?case by (auto simp: fun_eq_iff update_conv' split: option.splits)
qed simp

lemma sort_map: "sort (map f xs) = map f (sort_key f xs)"
  by (rule properties_for_sort) simp_all

lemma sort_key_Nil_iff [simp]: "sort_key f xs = [] \<longleftrightarrow> xs = []"
  by (metis length_0_conv length_sort)

lemma map_of_sort_key:
  "distinct (map fst xs) \<Longrightarrow> map_of (sort_key f xs) = map_of xs"
  by (rule map_of_inject_set [THEN iffD2])
    (auto simp: distinct_map sort_key_inj_key_eq)

lemma foldl_add_property:
  "(\<forall>q \<in> set qs. plain_name (fst q)) \<Longrightarrow>
   foldl (add_property unescapeDoubleColonProperty) acc
     (map (\<lambda>(k, v). k @ ''='' @ escapeCommandProperty (msk v)) qs) =
   foldl (\<lambda>acc (k, v). AList.update k (replace_all (msk v) ''%25'' ''%'') acc) acc qs"
  by (induction qs arbitrary: acc) (auto simp: add_property_render [simplified])

definition rendered_property :: "(string \<Rightarrow> string) \<Rightarrow> string \<times> string \<Rightarrow> string" where
  "rendered_property msk p = fst p @ ''='' @ escapeCommandProperty (msk (snd p))"

lemma rendered_property_pair:
  "rendered_property msk = (\<lambda>(k, v). k @ ''='' @ escapeCommandProperty (msk v))"
  by (auto simp: rendered_property_def fun_eq_iff)

lemma rendered_property_clean:
  "plain_name (fst p) \<Longrightarrow> CHR '':'' \<notin> set (rendered_property msk p) \<and> CHR '','' \<notin> set (rendered_property msk p)"
  by (auto simp: rendered_property_def plain_name_def dest: escapeCommandProperty_clean)

lemma set_str_join: "set (str_join xs sep) \<subseteq> \<Union> (set ` set xs) \<union> set sep"
  by (induction xs sep rule: str_join.induct) auto

lemma foldl_rendered_property:
  "(\<forall>q \<in> set qs. plain_name (fst q)) \<Longrightarrow>
   foldl (add_property unescapeDoubleColonProperty) [] (map (rendered_property msk) qs) =
   foldl (\<lambda>acc (k, v). AList.update k (replace_all (msk v) ''%25'' ''%'') acc) [] qs"
  unfolding rendered_property_pair by (rule foldl_add_property)

lemma renderedLine_sorted:
  "renderedLine msk c =
     (let qs = sort_key (rendered_property msk) (Properties c)
      in ''::'' @ (if qs = [] then Name c
           else Name c @ '' '' @ str_join (map (rendered_property msk) qs) '','') @
         ''::'' @ escapeCommandData (msk (Value c)))"
  unfolding renderedLine_def Let_def rendered_property_pair [symmetric] sort_map by simp

lemma parseHeader_rendered:
  assumes "plain_name name" "\<forall>q \<in> set qs. plain_name (fst q)"
  shows "parseHeader (if qs = [] then name
      else name @ '' '' @ str_join (map (rendered_property msk) qs) '','') '',''
      unescapeDoubleColonProperty =
    (name, foldl (\<lambda>acc (k, v). AList.update k (replace_all (msk v) ''%25'' ''%'') acc) [] qs)"
proof (cases "qs = []")
  case True
  have "cut name '' '' = (name, [], False)"
    using assms(1) by (auto intro!: cut_single_absent simp: plain_name_def)
  with True assms(1) show ?thesis
    by (simp add: parseHeader_def plain_name_def str_split_no_sep add_property_def cut_single_absent)
next
  case False
  let ?ps = "map (rendered_property msk) qs"
  have "str_split (str_join ?ps '','') '','' = ?ps"
    using assms(2) False by (intro str_split_join) (auto dest: rendered_property_clean)
  moreover have "cut (name @ '' '' @ str_join ?ps '','') '' '' = (name, str_join ?ps '','', True)"
    using cut_single [of "CHR '' ''" name "str_join ?ps '',''"] assms(1) by (simp add: plain_name_def)
  ultimately show ?thesis
    using False assms foldl_rendered_property [of qs msk]
    by (simp add: parseHeader_def plain_name_def)
qed

lemma header_no_colon:
  assumes "plain_name name" "\<forall>q \<in> set qs. plain_name (fst q)"
  shows "CHR '':'' \<notin> set (if qs = [] then name
      else name @ '' '' @ str_join (map (rendered_property msk) qs) '','')"
proof -
  have "CHR '':'' \<notin> set (str_join (map (rendered_property msk) qs) '','')"
    using set_str_join [of "map (rendered_property msk) qs" "'',''"] assms(2)
    by (auto dest: rendered_property_clean)
  with assms(1) show ?thesis by (auto simp: plain_name_def)
qed

text \<open>
  C34. A rendered command is read back, whatever the masker makes of its values. Its name and the names of its properties are not empty, in lower
  case and without space, \<^verbatim>\<open>=\<close>, comma and colon, and no property occurs twice. What is read has that name and those
  properties; the values are the masked ones in which every \<^verbatim>\<open>%25\<close> became \<^verbatim>\<open>%\<close>, so the value is exactly the
  masked one if and only if there is no \<^verbatim>\<open>%25\<close> in it.
\<close>

theorem render_parse:
  assumes "plain_command c"
  shows "\<exists>d. parseCommand (renderedLine msk c) = Some d \<and> Name d = Name c \<and>
    Value d = replace_all (msk (Value c)) ''%25'' ''%'' \<and>
    (Value d = msk (Value c) \<longleftrightarrow> \<not> str_contains (msk (Value c)) ''%25'') \<and>
    map_of (Properties d) = (\<lambda>k. map_option (\<lambda>v. replace_all (msk v) ''%25'' ''%'') (map_of (Properties c) k))"
proof -
  define qs where "qs = sort_key (rendered_property msk) (Properties c)"
  let ?h = "\<lambda>v. replace_all (msk v) ''%25'' ''%''"
  let ?props = "foldl (\<lambda>acc (k, v). AList.update k (?h v) acc) [] qs"
  have plain: "plain_name (Name c)" "\<forall>q \<in> set qs. plain_name (fst q)"
    and dist: "distinct (map fst (Properties c))"
    using assms by (auto simp: plain_command_def qs_def)
  have "parseCommand (renderedLine msk c) =
      Some \<lparr>Name = Name c, Properties = ?props, Value = ?h (Value c)\<rparr>"
    unfolding renderedLine_sorted Let_def qs_def [symmetric]
    using plain parseDoubleColon_header [OF header_no_colon parseHeader_rendered, OF plain plain]
    by (intro parseCommand_double_colon) (simp add: plain_name_def unescape_escapeData)
  moreover have "distinct (map fst qs)"
    by (rule mset_eq_imp_distinct_iff [THEN iffD1, OF _ dist]) (simp add: qs_def)
  then have "map_of ?props = (\<lambda>k. map_option ?h (map_of (Properties c) k))"
    unfolding foldl_update_map_of [OF \<open>distinct (map fst qs)\<close>]
    using map_of_sort_key [OF dist, of "rendered_property msk"]
    by (auto simp: qs_def fun_eq_iff split: option.splits)
  ultimately show ?thesis by (auto simp: replace_all_fixed)
qed

theorem render_parse_witness:
  "plain_command \<lparr>Name = ''error'', Properties = [(''file'', ''a,b:c''), (''line'', ''7'')], Value = ''x%y''\<rparr> \<and>
   (\<exists>d. parseCommand (renderedLine id \<lparr>Name = ''error'', Properties = [(''file'', ''a,b:c''), (''line'', ''7'')],
       Value = ''x%y''\<rparr>) = Some d \<and> Value d = ''x%y'')"
proof -
  let ?c = "\<lparr>Name = ''error'', Properties = [(''file'', ''a,b:c''), (''line'', ''7'')], Value = ''x%y''\<rparr>"
  have plain: "plain_command ?c" by code_simp
  moreover have "replace_all (id ''x%y'') ''%25'' ''%'' = ''x%y''" by code_simp
  ultimately show ?thesis using render_parse [OF plain, of id] by auto
qed

text \<open>
  C38. The decoder does not undo the encoder: a value that contains the text \<^verbatim>\<open>%25\<close> comes back
  without the two digits, while a value with no \<^verbatim>\<open>%25\<close> in it comes back unchanged.
\<close>

theorem command_data_roundtrip:
  "unescapeDoubleColonData (escapeCommandData v) = replace_all v ''%25'' ''%'' \<and>
   unescapeDoubleColonProperty (escapeCommandProperty v) = replace_all v ''%25'' ''%'' \<and>
   (unescapeDoubleColonData (escapeCommandData v) = v \<longleftrightarrow> \<not> str_contains v ''%25'')"
  using unescape_escapeData [of v] unescape_escapeProperty [of v] by (simp add: replace_all_fixed)

end
