(* ===== verification/CommandFiles.thy ===== *)
theory CommandFiles
  imports WorkflowCommand
begin

text \<open>
  The command files of a step, \<^verbatim>\<open>src/internal/runner/file_commands.go\<close>, and the functions of
  \<^verbatim>\<open>src/internal/runner/workflow_commands.go\<close> that append to them. The file system is a map from
  paths to contents with a predicate for the paths at which the operating system refuses to work.
\<close>

section \<open>Files\<close>

datatype command_error =
    IoError string
  | InvalidName string
  | InvalidMultiline string
  | NotTerminated string
  | InvalidCommand string
  | TokenTooLong
  | OutputFileTooLarge

record filesystem =
  contents :: "string \<rightharpoonup> string"
  refused :: "string \<Rightarrow> bool"

definition read_file :: "filesystem \<Rightarrow> string \<Rightarrow> command_error + string" where
  "read_file fs path =
     (if refused fs path then Inl (IoError path)
      else case contents fs path of None \<Rightarrow> Inl (IoError path) | Some data \<Rightarrow> Inr data)"

definition write_file :: "filesystem \<Rightarrow> string \<Rightarrow> string \<Rightarrow> command_error + filesystem" where
  "write_file fs path data =
     (if refused fs path then Inl (IoError path)
      else Inr (fs\<lparr>contents := (contents fs)(path \<mapsto> data)\<rparr>))"

definition mkdir_all :: "filesystem \<Rightarrow> string \<Rightarrow> command_error + filesystem" where
  "mkdir_all fs path = (if refused fs path then Inl (IoError path) else Inr fs)"

section \<open>Appending a value\<close>

definition appendCommandValue :: "filesystem \<Rightarrow> string \<Rightarrow> string \<Rightarrow> command_error + filesystem" where
  "appendCommandValue fs path v =
     and_then (read_file fs path) (\<lambda>old. write_file fs path (old @ v @ [LF]))"

definition line_of_value :: "string \<Rightarrow> string \<Rightarrow> bool" where
  "line_of_value v delimiter \<longleftrightarrow> str_contains ([LF] @ v @ [LF]) ([LF] @ delimiter @ [LF])"

function choose_delimiter :: "string \<Rightarrow> string \<Rightarrow> string" where
  "choose_delimiter v delimiter =
     (if line_of_value v delimiter then choose_delimiter v (delimiter @ ''_'') else delimiter)"
  by pat_completeness auto
termination
proof (relation "measure (\<lambda>(v, d). Suc (length v) - length d)")
  fix v d assume "line_of_value v d"
  then have "sublist ([LF] @ d @ [LF]) ([LF] @ v @ [LF])"
    by (simp only: line_of_value_def str_contains_iff)
  from sublist_length_le [OF this] have "length d \<le> length v" by simp
  then show "((v, d @ ''_''), v, d) \<in> measure (\<lambda>(v, d). Suc (length v) - length d)" by simp
qed simp

declare choose_delimiter.simps [simp del]

definition command_entry :: "string \<Rightarrow> string \<Rightarrow> string" where
  "command_entry name v =
     (if list_ex (\<lambda>c. c = CR \<or> c = LF) v then
        (let delimiter = choose_delimiter v ''OPEN_ACTIONS_EOF''
         in name @ ''<<'' @ delimiter @ [LF] @ v @ [LF] @ delimiter)
      else name @ ''='' @ v)"

definition appendCommandKeyValue :: "filesystem \<Rightarrow> string \<Rightarrow> string \<Rightarrow> string \<Rightarrow> command_error + filesystem" where
  "appendCommandKeyValue fs path name v =
     (if name = [] \<or> list_ex (\<lambda>c. c = CR \<or> c = LF \<or> c = CHR ''='') name then Inl (InvalidName name)
      else appendCommandValue fs path (command_entry name v))"

section \<open>Reading a file\<close>

text \<open>
  \<^verbatim>\<open>bufio.Scanner\<close> with its line splitter and the buffer limit of \<^verbatim>\<open>readKeyValueFile\<close>: the lines
  of the data, each without one trailing carriage return, up to the first line that does not fit,
  and whether there was one.
\<close>

definition maxScanTokenBytes :: nat where
  "maxScanTokenBytes = 1048576"

definition raw_lines :: "string \<Rightarrow> string list" where
  "raw_lines data =
     (let pieces = str_split data [LF]
      in if last pieces = [] then butlast pieces else pieces)"

definition line_fits :: "string \<Rightarrow> bool" where
  "line_fits line \<longleftrightarrow> length line < maxScanTokenBytes"

definition scan_lines :: "string \<Rightarrow> string list \<times> bool" where
  "scan_lines data =
     (map (\<lambda>line. trim_suffix line [CR]) (takeWhile line_fits (raw_lines data)),
      \<not> list_all line_fits (raw_lines data))"

fun read_heredoc :: "string \<Rightarrow> string list \<Rightarrow> (string list \<times> string list) option" where
  "read_heredoc delimiter [] = None"
| "read_heredoc delimiter (token # tokens) =
     (let v = trim_suffix token [CR]
      in if v = delimiter then Some ([], tokens)
         else map_option (\<lambda>(vs, rest). (v # vs, rest)) (read_heredoc delimiter tokens))"

lemma read_heredoc_rest:
  "read_heredoc d ts = Some (vs, rest) \<Longrightarrow> length rest < length ts"
  by (induction ts arbitrary: vs) (auto simp: Let_def split: if_splits)

function kv_loop :: "string list \<Rightarrow> (string \<rightharpoonup> string) \<Rightarrow> command_error + (string \<rightharpoonup> string)" where
  "kv_loop [] result = Inr result"
| "kv_loop (token # tokens) result =
     (let line = trim_suffix token [CR];
          assignment = str_index line ''='';
          heredoc = str_index line ''<<''
      in if line = [] then kv_loop tokens result
         else if heredoc \<noteq> None \<and> (assignment = None \<or> the heredoc < the assignment) then
           (let name = take (the heredoc) line;
                delimiter = drop (the heredoc + 2) line
            in if name = [] \<or> delimiter = [] then Inl (InvalidMultiline line)
               else case read_heredoc delimiter tokens of
                 None \<Rightarrow> Inl (NotTerminated name)
               | Some (values, rest) \<Rightarrow> kv_loop rest (result(name \<mapsto> str_join values [LF])))
         else case assignment of
           None \<Rightarrow> Inl (InvalidCommand line)
         | Some a \<Rightarrow>
             if a < 1 then Inl (InvalidCommand line)
             else kv_loop tokens (result(take a line \<mapsto> drop (a + 1) line)))"
  by pat_completeness auto
termination
  by (relation "measure (\<lambda>(ts, r). length ts)") (auto dest: read_heredoc_rest)

definition parseKeyValues :: "string \<Rightarrow> command_error + (string \<rightharpoonup> string)" where
  "parseKeyValues data =
     (let (tokens, too_long) = scan_lines data
      in and_then (kv_loop tokens Map.empty)
           (\<lambda>result. if too_long then Inl TokenTooLong else Inr result))"

definition readKeyValueFile :: "filesystem \<Rightarrow> string \<Rightarrow> command_error + (string \<rightharpoonup> string)" where
  "readKeyValueFile fs path = and_then (read_file fs path) parseKeyValues"

section \<open>The five files of a step\<close>

definition maxOutputCommandFileBytes :: nat where
  "maxOutputCommandFileBytes = 1048576"

record commandFiles =
  environment :: string
  output_file :: string
  path_file :: string
  state_file :: string
  summary :: string

record commandUpdates =
  environment_updates :: "string \<rightharpoonup> string"
  outputs :: "string \<rightharpoonup> string"
  paths :: "string list"
  state_updates :: "string \<rightharpoonup> string"

primrec write_empty :: "filesystem \<Rightarrow> string list \<Rightarrow> command_error + filesystem" where
  "write_empty fs [] = Inr fs"
| "write_empty fs (path # ps) = and_then (write_file fs path []) (\<lambda>fs'. write_empty fs' ps)"

definition newCommandFiles :: "filesystem \<Rightarrow> string \<Rightarrow> string \<Rightarrow> command_error + filesystem \<times> commandFiles" where
  "newCommandFiles fs directory pre =
     and_then (mkdir_all fs directory) (\<lambda>fs.
       let files = \<lparr>environment = path_join [directory, pre @ ''-environment''],
             output_file = path_join [directory, pre @ ''-output''],
             path_file = path_join [directory, pre @ ''-path''],
             state_file = path_join [directory, pre @ ''-state''],
             summary = path_join [directory, pre @ ''-summary'']\<rparr>
       in and_then (write_empty fs [environment files, output_file files, path_file files,
            state_file files, summary files]) (\<lambda>fs. Inr (fs, files)))"

definition commandFiles_read :: "filesystem \<Rightarrow> commandFiles \<Rightarrow> command_error + commandUpdates" where
  "commandFiles_read fs f =
     and_then (readKeyValueFile fs (environment f)) (\<lambda>env.
     and_then (readKeyValueFile fs (state_file f)) (\<lambda>st.
     and_then (read_file fs (output_file f)) (\<lambda>out.
       if length out > maxOutputCommandFileBytes then Inl OutputFileTooLarge
       else and_then (readKeyValueFile fs (output_file f)) (\<lambda>outs.
         and_then (read_file fs (path_file f)) (\<lambda>pathData.
           Inr \<lparr>environment_updates = env, outputs = outs,
             paths = filter (\<lambda>v. v \<noteq> []) (str_split (replace_all pathData [CR, LF] [LF]) [LF]),
             state_updates = st\<rparr>)))))"

definition setEnvironment :: "string list \<Rightarrow> string \<Rightarrow> string \<Rightarrow> string list" where
  "setEnvironment env name v =
     filter (\<lambda>entry. \<not> has_prefix entry (name @ ''='')) env @ [name @ ''='' @ v]"

definition unsetEnvironment :: "string list \<Rightarrow> string \<Rightarrow> string list" where
  "unsetEnvironment env name = filter (\<lambda>entry. \<not> has_prefix entry (name @ ''='')) env"

definition environmentValue :: "string list \<Rightarrow> string \<Rightarrow> string" where
  "environmentValue env name =
     (case find (\<lambda>entry. has_prefix entry (name @ ''='')) (rev env) of
        None \<Rightarrow> [] | Some entry \<Rightarrow> trim_prefix entry (name @ ''=''))"

definition environmentVariables :: "commandFiles \<Rightarrow> string list \<Rightarrow> string list" where
  "environmentVariables f env =
     (let env = setEnvironment env ''GITHUB_ENV'' (environment f);
          env = setEnvironment env ''GITHUB_OUTPUT'' (output_file f);
          env = setEnvironment env ''GITHUB_PATH'' (path_file f);
          env = setEnvironment env ''GITHUB_STATE'' (state_file f)
      in setEnvironment env ''GITHUB_STEP_SUMMARY'' (summary f))"

section \<open>Lines of a file that is appended to\<close>

lemma str_join_append:
  "xs \<noteq> [] \<Longrightarrow> ys \<noteq> [] \<Longrightarrow> str_join (xs @ ys) sep = str_join xs sep @ sep @ str_join ys sep"
proof (induction xs)
  case (Cons x xs)
  then show ?case by (cases "xs = []") (auto simp: str_join_Cons)
qed simp

lemma str_split_append: "str_split (u @ c # v) [c] = str_split u [c] @ str_split v [c]"
proof -
  have "u @ c # v = str_join (str_split u [c] @ str_split v [c]) [c]"
    by (simp add: str_join_append str_join_split)
  moreover have "str_split (str_join (str_split u [c] @ str_split v [c]) [c]) [c] =
      str_split u [c] @ str_split v [c]"
    by (rule str_split_join) (auto dest: str_split_pieces)
  ultimately show ?thesis by simp
qed

lemma str_split_Nil: "str_split [] [c] = [[]]"
  by (rule str_split_no_sep) simp

lemma raw_lines_append: "raw_lines (u @ LF # v) = str_split u [LF] @ raw_lines v"
  by (simp add: raw_lines_def str_split_append Let_def butlast_append)

lemma raw_lines_Nil [simp]: "raw_lines [] = []"
  by (simp add: raw_lines_def str_split_Nil)

text \<open>Contents made of complete lines: what every append leaves behind.\<close>

definition whole_lines :: "string \<Rightarrow> bool" where
  "whole_lines data \<longleftrightarrow> data = [] \<or> last data = LF"

lemma raw_lines_whole: "whole_lines u \<Longrightarrow> raw_lines (u @ v) = raw_lines u @ raw_lines v"
proof (cases u rule: rev_cases)
  case (snoc w c)
  assume "whole_lines u"
  with snoc show ?thesis
    using raw_lines_append [of w v] raw_lines_append [of w "[]"] by (simp add: whole_lines_def)
qed simp

lemma scan_lines_whole:
  assumes "whole_lines u" "list_all line_fits (raw_lines u)"
  shows "scan_lines (u @ v) = (fst (scan_lines u) @ fst (scan_lines v), snd (scan_lines v))"
proof -
  have t: "takeWhile line_fits (raw_lines u) = raw_lines u" using assms(2) by (simp add: takeWhile_eq_all_conv list_all_iff)
  with assms show ?thesis by (auto simp: scan_lines_def raw_lines_whole takeWhile_append list_all_iff t)
qed

lemma read_heredoc_append:
  "read_heredoc d ts = Some (vs, rest) \<Longrightarrow> read_heredoc d (ts @ us) = Some (vs, rest @ us)"
  by (induction ts arbitrary: vs) (auto simp: Let_def split: if_splits)

lemma kv_loop_append: "kv_loop ts r = Inr r' \<Longrightarrow> kv_loop (ts @ us) r = kv_loop us r'"
  by (induction ts r rule: kv_loop.induct)
    (auto simp: Let_def read_heredoc_append split: if_splits option.splits)

section \<open>The delimiter\<close>






section \<open>Entries read back\<close>

text \<open>The names an entry can carry: the reader looks for the first \<^verbatim>\<open><<\<close> of a line.\<close>

definition kv_name :: "string \<Rightarrow> bool" where
  "kv_name name \<longleftrightarrow> name \<noteq> [] \<and> set name \<inter> {CR, LF, CHR ''=''} = {} \<and>
     str_index (name @ ''<<'') ''<<'' = Some (length name)"


lemma trim_suffix_absent: "c \<notin> set s \<Longrightarrow> trim_suffix s [c] = s"
  by (auto simp: trim_suffix_def suffix_def)

lemma str_index_extend: "str_index s sub = Some i \<Longrightarrow> str_index (s @ t) sub = Some i"
proof (induction s arbitrary: i)
  case Nil
  then show ?case by (cases t) (auto split: if_splits)
next
  case (Cons c cs)
  then show ?case
  proof (cases "prefix sub (c # cs)")
    case True
    then have "prefix sub (c # cs @ t)" by (metis append_Cons prefix_prefix)
    with True Cons show ?thesis by simp
  next
    case False
    with Cons.prems obtain k where k: "str_index cs sub = Some k" "i = Suc k" by auto
    have "length sub \<le> length (c # cs)" using str_index_bound [OF k(1)] by simp
    then have "\<not> prefix sub ((c # cs) @ t)"
      using False prefix_length_prefix [of sub "(c # cs) @ t" "c # cs"] by auto
    with k Cons.IH [OF k(1)] show ?thesis by simp
  qed
qed

lemma str_split_piece_sublist: "x \<in> set (str_split s [c]) \<Longrightarrow> sublist x s"
proof (induction s "[c]" rule: str_split.induct)
  case (1 s)
  show ?case
  proof (cases "str_index s [c]")
    case None
    with 1(2) show ?thesis by (subst (asm) str_split.simps) simp
  next
    case (Some i)
    with 1 have "x = take i s \<or> sublist x (drop (i + 1) s)"
      by (subst (asm) (2) str_split.simps) auto
    then show ?thesis by (metis sublist_drop sublist_order.order.trans sublist_take)
  qed
qed

lemma str_split_piece_set: "x \<in> set (str_split s [c]) \<Longrightarrow> set x \<subseteq> set s"
  by (rule set_mono_sublist) (rule str_split_piece_sublist)

lemma str_index_past_name:
  "str_index (name @ ''<<'') ''<<'' = Some (length name) \<Longrightarrow>
   str_index (name @ ''='' @ t) ''<<'' = Some h \<Longrightarrow> length name < h"
proof (induction name arbitrary: h)
  case (Cons c cs)
  from Cons.prems(1) have "\<not> prefix ''<<'' (c # cs @ ''<<'')" "str_index (cs @ ''<<'') ''<<'' = Some (length cs)"
    by (auto split: if_splits)
  moreover from this(1) have "\<not> prefix ''<<'' (c # cs @ ''='' @ t)" by (cases cs) auto
  ultimately show ?case using Cons by (auto split: if_splits)
qed auto

lemma kv_name_index:
  assumes "kv_name name"
  shows "str_index (name @ ''<<'' @ t) ''<<'' = Some (length name)"
    and "str_index (name @ ''='' @ t) ''='' = Some (length name)"
    and "str_index (name @ ''='' @ t) ''<<'' = Some h \<Longrightarrow> length name < h"
proof -
  show "str_index (name @ ''<<'' @ t) ''<<'' = Some (length name)"
    using assms str_index_extend [of "name @ ''<<''" "''<<''" "length name" t] by (simp add: kv_name_def)
  show "str_index (name @ ''='' @ t) ''='' = Some (length name)"
    using assms str_index_single_append [of "CHR ''=''" name t] by (simp add: kv_name_def)
  show "length name < h" if "str_index (name @ ''='' @ t) ''<<'' = Some h"
    using assms that by (intro str_index_past_name) (auto simp: kv_name_def)
qed


lemma read_heredoc_lines:
  "d \<notin> set ls \<Longrightarrow> (\<forall>l \<in> set (d # ls). CR \<notin> set l) \<Longrightarrow> read_heredoc d (ls @ [d]) = Some (ls, [])"
  by (induction ls) (auto simp: trim_suffix_absent)

lemma kv_loop_heredoc:
  assumes "kv_name name" "CR \<notin> set v" "d \<noteq> []" "d \<notin> set (str_split v [LF])"
    "set d \<inter> {CR, LF, CHR ''=''} = {}"
  shows "kv_loop ((name @ ''<<'' @ d) # str_split v [LF] @ [d]) r = Inr (r(name \<mapsto> v))"
proof -
  have 1: "trim_suffix (name @ ''<<'' @ d) [CR] = name @ ''<<'' @ d"
    using assms by (intro trim_suffix_absent) (auto simp: kv_name_def)
  have "CHR ''='' \<notin> set (name @ ''<<'' @ d)" using assms by (auto simp: kv_name_def)
  then have 2: "str_index (name @ ''<<'' @ d) ''='' = None" by (rule str_index_single_None [THEN iffD2])
  have "set l \<subseteq> set v" if "l \<in> set (str_split v [LF])" for l
    using str_split_piece_set [OF that] .
  then have 3: "read_heredoc d (str_split v [LF] @ [d]) = Some (str_split v [LF], [])"
    using assms by (intro read_heredoc_lines) auto
  have 4: "str_join (str_split v [LF]) [LF] = v" by (simp add: str_join_split)
  show ?thesis
    using 1 2 3 4 kv_name_index(1) [OF assms(1), of d] assms by (simp add: Let_def kv_name_def)
qed

lemma map_trim_absent: "(\<forall>l \<in> set ls. c \<notin> set l) \<Longrightarrow> map (\<lambda>l. trim_suffix l [c]) ls = ls"
  by (simp add: map_idI trim_suffix_absent)












section \<open>What the format cannot carry\<close>

text \<open>
  The writer does not look for \<^verbatim>\<open><<\<close> in a name. The reader takes the first one for the start of a multi-line value, whose end is
  not there: after any such name with a value of one line the whole file cannot be read.
\<close>

lemma marked_name_unreadable:
  assumes "\<not> refused fs path" "contents fs path = Some data" "whole_lines data" "readKeyValueFile fs path = Inr m"
    and name: "set name \<inter> {CR, LF, CHR ''=''} = {}" "str_index name ''<<'' = Some i"
    and v: "set v \<inter> {CR, LF} = {}" "length name + length v + 1 < maxScanTokenBytes"
  shows "\<exists>fs'. appendCommandKeyValue fs path name v = Inr fs' \<and>
    readKeyValueFile fs' path = Inl (if i = 0 then InvalidMultiline (name @ ''='' @ v) else NotTerminated (take i name))"
proof -
  let ?line = "name @ ''='' @ v"
  from assms(1,2,4) have old: "parseKeyValues data = Inr m" by (simp add: readKeyValueFile_def read_file_def)
  then have fit: "list_all line_fits (raw_lines data)" and loop: "kv_loop (fst (scan_lines data)) Map.empty = Inr m"
    by (auto simp: parseKeyValues_def scan_lines_def and_then_eq_Inr split: if_splits)
  have plain: "CR \<notin> set ?line" "LF \<notin> set ?line" using name(1) v(1) by auto
  have entry: "command_entry name v = ?line" using v(1) by (auto simp: command_entry_def list_ex_iff)
  have "raw_lines (?line @ [LF]) = [?line]"
    using raw_lines_append [of ?line "[]"] str_split_no_sep [OF plain(2)] by simp
  then have scan: "scan_lines (?line @ [LF]) = ([?line], False)"
    using v(2) trim_suffix_absent [OF plain(1)] by (simp add: scan_lines_def line_fits_def)
  have i: "i + 2 \<le> length name" using str_index_bound [OF name(2)] by simp
  have marks: "str_index ?line ''<<'' = Some i" "str_index ?line ''='' = Some (length name)"
    using str_index_extend [OF name(2), of "''='' @ v"] str_index_single_append [of "CHR ''=''" name v] name(1) by auto
  have "kv_loop [?line] m = Inl (if i = 0 then InvalidMultiline ?line else NotTerminated (take i name))"
    using i marks trim_suffix_absent [OF plain(1)] by (auto simp: Let_def)
  then have "parseKeyValues (data @ ?line @ [LF]) = Inl (if i = 0 then InvalidMultiline ?line else NotTerminated (take i name))"
    unfolding parseKeyValues_def scan_lines_whole [OF assms(3) fit] scan
    using kv_loop_append [OF loop, of "[?line]"] by simp
  moreover have "name \<noteq> []" "\<not> list_ex (\<lambda>c. c = CR \<or> c = LF \<or> c = CHR ''='') name" using name i by (auto simp: list_ex_iff)
  ultimately show ?thesis
    using assms(1,2) entry
    by (simp add: appendCommandKeyValue_def appendCommandValue_def readKeyValueFile_def read_file_def write_file_def)
qed

lemma delimiter_line:
  assumes "line_of_value v d" and "LF \<notin> set d" and "d \<noteq> []"
  shows "d \<in> set (str_split v [LF])"
proof -
  from assms(1) obtain p q where eq: "[LF] @ v @ [LF] = p @ ([LF] @ d @ [LF]) @ q"
    unfolding line_of_value_def str_contains_iff by (auto simp: sublist_def)
  have "str_split ([LF] @ v @ [LF]) [LF] = [[]] @ str_split v [LF] @ [[]]"
    using str_split_append [of "[]" LF "v @ [LF]"] str_split_append [of v LF "[]"] by (simp add: str_split_Nil)
  moreover have "str_split (p @ ([LF] @ d @ [LF]) @ q) [LF] = str_split p [LF] @ [d] @ str_split q [LF]"
    using str_split_append [of p LF "d @ LF # q"] str_split_append [of d LF q] str_split_no_sep [OF assms(2)] by simp
  ultimately have "d \<in> set ([[]] @ str_split v [LF] @ [[]])" unfolding eq by simp
  with assms(3) show ?thesis by simp
qed

definition smuggled :: "string \<Rightarrow> string \<Rightarrow> string \<Rightarrow> string" where
  "smuggled u other w =
     u @ [LF] @ ''OPEN_ACTIONS_EOF'' @ [CR, LF] @ other @ ''<<OPEN_ACTIONS_EOF'' @ [LF] @ w"

lemma smuggled_lines:
  assumes "kv_name other"
  shows "str_split (smuggled u other w) [LF] =
    str_split u [LF] @ [''OPEN_ACTIONS_EOF'' @ [CR], other @ ''<<OPEN_ACTIONS_EOF''] @ str_split w [LF]"
proof -
  have no: "LF \<notin> set (''OPEN_ACTIONS_EOF'' @ [CR])" "LF \<notin> set (other @ ''<<OPEN_ACTIONS_EOF'')"
    using assms by (auto simp: kv_name_def)
  show ?thesis
    using str_split_append [of u LF "''OPEN_ACTIONS_EOF'' @ [CR, LF] @ other @ ''<<OPEN_ACTIONS_EOF'' @ [LF] @ w"]
      str_split_append [of "''OPEN_ACTIONS_EOF'' @ [CR]" LF "other @ ''<<OPEN_ACTIONS_EOF'' @ [LF] @ w"]
      str_split_append [of "other @ ''<<OPEN_ACTIONS_EOF''" LF w] str_split_no_sep [OF no(1)] str_split_no_sep [OF no(2)]
    by (simp add: smuggled_def)
qed

lemma smuggled_entry:
  assumes "kv_name other" and "''OPEN_ACTIONS_EOF'' \<notin> set (str_split u [LF])" and "''OPEN_ACTIONS_EOF'' \<notin> set (str_split w [LF])"
  shows "command_entry name (smuggled u other w) = name @ ''<<OPEN_ACTIONS_EOF'' @ [LF] @ smuggled u other w @ [LF] @ ''OPEN_ACTIONS_EOF''"
proof -
  have "other \<noteq> []" using assms(1) by (simp add: kv_name_def)
  then have "''OPEN_ACTIONS_EOF'' \<notin> set (str_split (smuggled u other w) [LF])"
    using assms(2,3) unfolding smuggled_lines [OF assms(1)] by (auto dest: arg_cong [where f = length])
  then have "\<not> line_of_value (smuggled u other w) ''OPEN_ACTIONS_EOF''" using delimiter_line by auto
  then have "choose_delimiter (smuggled u other w) ''OPEN_ACTIONS_EOF'' = ''OPEN_ACTIONS_EOF''"
    by (subst choose_delimiter.simps) simp
  moreover have "list_ex (\<lambda>c. c = CR \<or> c = LF) (smuggled u other w)" by (simp add: smuggled_def)
  ultimately show ?thesis by (simp add: command_entry_def Let_def)
qed

lemma smuggled_scan:
  assumes "kv_name name" "kv_name other" "CR \<notin> set u" "CR \<notin> set w"
    "''OPEN_ACTIONS_EOF'' \<notin> set (str_split u [LF])" "''OPEN_ACTIONS_EOF'' \<notin> set (str_split w [LF])"
    "length (command_entry name (smuggled u other w)) < maxScanTokenBytes"
  shows "scan_lines (command_entry name (smuggled u other w) @ [LF]) =
    (((name @ ''<<OPEN_ACTIONS_EOF'') # str_split u [LF] @ [''OPEN_ACTIONS_EOF'']) @
     ((other @ ''<<OPEN_ACTIONS_EOF'') # str_split w [LF] @ [''OPEN_ACTIONS_EOF'']), False)"
proof -
  let ?d = "''OPEN_ACTIONS_EOF''" and ?e = "command_entry name (smuggled u other w)"
  let ?first = "(name @ ''<<OPEN_ACTIONS_EOF'') # str_split u [LF]"
  let ?second = "(other @ ''<<OPEN_ACTIONS_EOF'') # str_split w [LF] @ [?d]"
  have "LF \<notin> set (name @ ''<<OPEN_ACTIONS_EOF'')" using assms(1) by (auto simp: kv_name_def)
  then have "str_split ?e [LF] = ?first @ [?d @ [CR]] @ ?second"
    unfolding smuggled_entry [OF assms(2,5,6)]
    using str_split_append [of "name @ ''<<OPEN_ACTIONS_EOF''" LF "smuggled u other w @ [LF] @ ?d"]
      str_split_append [of "smuggled u other w" LF ?d] smuggled_lines [OF assms(2), of u w]
    by (simp add: str_split_no_sep)
  then have raw: "raw_lines (?e @ [LF]) = ?first @ [?d @ [CR]] @ ?second" using raw_lines_append [of ?e "[]"] by simp
  have fits: "\<forall>l \<in> set (raw_lines (?e @ [LF])). line_fits l"
    using sublist_length_le [OF str_split_piece_sublist [of _ ?e LF]] assms(7) raw_lines_append [of ?e "[]"]
    by (fastforce simp: line_fits_def)
  have "\<forall>l \<in> set (?first @ ?second). CR \<notin> set l"
    using assms(1-4) str_split_piece_set [of _ u LF] str_split_piece_set [of _ w LF] by (auto simp: kv_name_def)
  then have trims: "map (\<lambda>l. trim_suffix l [CR]) ?first = ?first" "map (\<lambda>l. trim_suffix l [CR]) ?second = ?second"
    by (intro map_trim_absent; simp)+
  have "trim_suffix (?d @ [CR]) [CR] = ?d" by code_simp
  then have "map (\<lambda>l. trim_suffix l [CR]) (?first @ [?d @ [CR]] @ ?second) = ?first @ [?d] @ ?second"
    unfolding map_append trims by simp
  then show ?thesis
    using fits unfolding scan_lines_def takeWhile_eq_all_conv [THEN iffD2, OF fits] raw by (simp add: list_all_iff)
qed

text \<open>
  C39. A value can set another name. The writer checks that its delimiter is no line of the value, but not for a line that is the
  delimiter followed by a carriage return, which the reader drops. So a value with such a line ends there, and what
  follows in it is read as an entry of its own: for any two names, and any two values without carriage returns and without the
  delimiter as a line, one call that sets the first name sets both.
\<close>

theorem value_sets_other_name:
  assumes "\<not> refused fs path" "contents fs path = Some data" "whole_lines data" "readKeyValueFile fs path = Inr m"
    and names: "kv_name name" "kv_name other" and plain: "CR \<notin> set u" "CR \<notin> set w"
    and lines: "''OPEN_ACTIONS_EOF'' \<notin> set (str_split u [LF])" "''OPEN_ACTIONS_EOF'' \<notin> set (str_split w [LF])"
    and short: "length (command_entry name (smuggled u other w)) < maxScanTokenBytes"
  shows "\<exists>fs'. appendCommandKeyValue fs path name (smuggled u other w) = Inr fs' \<and>
    readKeyValueFile fs' path = Inr (m(name \<mapsto> u, other \<mapsto> w))"
proof -
  let ?d = "''OPEN_ACTIONS_EOF''" and ?e = "command_entry name (smuggled u other w)"
  from assms(1,2,4) have "parseKeyValues data = Inr m" by (simp add: readKeyValueFile_def read_file_def)
  then have fit: "list_all line_fits (raw_lines data)" and loop: "kv_loop (fst (scan_lines data)) Map.empty = Inr m"
    by (auto simp: parseKeyValues_def scan_lines_def and_then_eq_Inr split: if_splits)
  have d: "set ?d \<inter> {CR, LF, CHR ''=''} = {}" "?d \<noteq> []" by simp_all
  have "kv_loop ((name @ ''<<'' @ ?d) # str_split u [LF] @ [?d]) m = Inr (m(name \<mapsto> u))"
    and "kv_loop ((other @ ''<<'' @ ?d) # str_split w [LF] @ [?d]) (m(name \<mapsto> u)) = Inr (m(name \<mapsto> u, other \<mapsto> w))"
    by (rule kv_loop_heredoc [OF names(1) plain(1) d(2) lines(1) d(1)] kv_loop_heredoc [OF names(2) plain(2) d(2) lines(2) d(1)])+
  then have "kv_loop (fst (scan_lines data) @ fst (scan_lines (?e @ [LF]))) Map.empty = Inr (m(name \<mapsto> u, other \<mapsto> w))"
    unfolding kv_loop_append [OF loop] smuggled_scan [OF names plain lines short] fst_conv
    using kv_loop_append [of "(name @ ''<<'' @ ?d) # str_split u [LF] @ [?d]" m] by (simp only: append.simps append_assoc)
  then have "parseKeyValues (data @ ?e @ [LF]) = Inr (m(name \<mapsto> u, other \<mapsto> w))"
    using smuggled_scan [OF names plain lines short]
    unfolding parseKeyValues_def scan_lines_whole [OF assms(3) fit] by (simp only: Let_def prod.case fst_conv snd_conv and_then_Inr if_False)
  moreover have "name \<noteq> []" "\<not> list_ex (\<lambda>c. c = CR \<or> c = LF \<or> c = CHR ''='') name" using names(1) by (auto simp: kv_name_def list_ex_iff)
  ultimately show ?thesis
    using assms(1,2)
    by (simp add: appendCommandKeyValue_def appendCommandValue_def readKeyValueFile_def read_file_def write_file_def)
qed

theorem value_sets_other_name_witness:
  "\<exists>fs'. appendCommandKeyValue \<lparr>contents = [''out'' \<mapsto> []], refused = (\<lambda>_. False)\<rparr> ''out'' ''a'' (smuggled ''x'' ''foo'' ''evil'') = Inr fs' \<and>
    readKeyValueFile fs' ''out'' = Inr [''a'' \<mapsto> ''x'', ''foo'' \<mapsto> ''evil'']"
proof -
  let ?fs = "\<lparr>contents = [''out'' \<mapsto> []], refused = (\<lambda>_. False)\<rparr>"
  have "readKeyValueFile ?fs ''out'' = Inr Map.empty"
    by (simp add: readKeyValueFile_def read_file_def parseKeyValues_def scan_lines_def)
  moreover have "kv_name ''a''" "kv_name ''foo''" "''OPEN_ACTIONS_EOF'' \<notin> set (str_split ''x'' [LF])"
    "''OPEN_ACTIONS_EOF'' \<notin> set (str_split ''evil'' [LF])"
    "length (command_entry ''a'' (smuggled ''x'' ''foo'' ''evil'')) < maxScanTokenBytes" by code_simp+
  ultimately show ?thesis
    using value_sets_other_name [of ?fs "''out''" "[]" Map.empty "''a''" "''foo''" "''x''" "''evil''"] by (simp add: whole_lines_def)
qed

end
