(* ===== verification/ProblemMatcher.thy ===== *)
theory ProblemMatcher
  imports CommandFiles
begin

text \<open>
  Problem matchers, \<^verbatim>\<open>src/internal/runner/workflow_commands.go\<close>: registration with its limits, the
  multi-line matching automaton and the annotation it prints. Regular expressions (the package
  regexp2), JSON decoding, RFC 3339 time stamps and Go's quoting are fields of a record \<open>host\<close> that
  the definitions take as an argument.
\<close>

section \<open>Data\<close>

definition maxProblemMatcherBytes :: nat where "maxProblemMatcherBytes = 1048576"
definition maxProblemMatchers :: nat where "maxProblemMatchers = 100"
definition maxProblemPatterns :: nat where "maxProblemPatterns = 10"

record problemPattern =
  Regexp :: string
  File :: int
  Line :: int
  Column :: int
  EndLine :: int
  EndColumn :: int
  Message :: int
  Code :: int
  Severity_group :: int
  Loop :: bool

record problemMatcher =
  Owner :: string
  Severity :: string
  Patterns :: "problemPattern list"

record problemMatch =
  match_file :: string
  line :: string
  column :: string
  endLine :: string
  endColumn :: string
  message :: string
  code :: string
  severity :: string

definition no_match :: problemMatch where
  "no_match = \<lparr>match_file = [], line = [], column = [], endLine = [], endColumn = [], message = [],
     code = [], severity = []\<rparr>"

record 'r compiledProblemMatcher =
  definition_of :: problemMatcher
  patterns :: "'r list"
  next_index :: nat
  values_of :: problemMatch

text \<open>
  What the code takes from outside: \<open>findMatch\<close> is a failed search (a time-out), no match, or the
  text of each capture group, empty where the grp took no part.
\<close>

record 'r host =
  compile :: "string \<Rightarrow> 'r option"
  groupNumbers :: "'r \<Rightarrow> nat list"
  findMatch :: "'r \<Rightarrow> string \<Rightarrow> string + (nat \<Rightarrow> string) option"
  decodeMatchers :: "string \<Rightarrow> problemMatcher list option"
  parsesTime :: "string \<Rightarrow> bool"
  runnerRecord :: "string \<Rightarrow> bool"
  quote :: "string \<Rightarrow> string"

datatype matcher_error =
    MatcherIo command_error
  | MatcherTooLarge
  | MatcherDecode
  | MatcherCount
  | OwnerRequired
  | PatternCount string
  | PatternCompile string
  | InvalidGroup string int
  | UndefinedGroup string int
  | TooManyOwners

section \<open>Compiling and registering\<close>

definition pattern_groups :: "problemPattern \<Rightarrow> int list" where
  "pattern_groups p = [File p, Line p, Column p, EndLine p, EndColumn p, Message p, Code p, Severity_group p]"

definition check_group :: "string \<Rightarrow> nat list \<Rightarrow> int \<Rightarrow> matcher_error option" where
  "check_group owner groups grp =
     (if grp < 0 then Some (InvalidGroup owner grp)
      else if grp > 0 \<and> nat grp \<notin> set groups then Some (UndefinedGroup owner grp)
      else None)"

definition compile_pattern :: "'r host \<Rightarrow> string \<Rightarrow> problemPattern \<Rightarrow> matcher_error + 'r" where
  "compile_pattern h owner p =
     (case compile h (Regexp p) of
        None \<Rightarrow> Inl (PatternCompile owner)
      | Some r \<Rightarrow>
          (case first_err (check_group owner (groupNumbers h r)) (pattern_groups p) of
             Some e \<Rightarrow> Inl e
           | None \<Rightarrow> Inr r))"

definition compileProblemMatcher :: "'r host \<Rightarrow> problemMatcher \<Rightarrow> matcher_error + 'r compiledProblemMatcher" where
  "compileProblemMatcher h d =
     (if Owner d = [] then Inl OwnerRequired
      else if length (Patterns d) = 0 \<or> length (Patterns d) > maxProblemPatterns then Inl (PatternCount (Owner d))
      else and_then (map_res (compile_pattern h (Owner d)) (Patterns d)) (\<lambda>rs.
        Inr \<lparr>definition_of = d, patterns = rs, next_index = 0, values_of = no_match\<rparr>))"

type_synonym 'r matchers = "(string \<times> 'r compiledProblemMatcher) list"

definition register :: "'r matchers \<Rightarrow> 'r compiledProblemMatcher list \<Rightarrow> matcher_error + 'r matchers" where
  "register ms compiled =
     (let owners = remdups (map fst ms @ map (\<lambda>m. Owner (definition_of m)) compiled)
      in if length owners > maxProblemMatchers then Inl TooManyOwners
         else Inr (foldl (\<lambda>acc m. AList.update (Owner (definition_of m)) m acc) ms compiled))"

definition addMatchers :: "'r host \<Rightarrow> filesystem \<Rightarrow> 'r matchers \<Rightarrow> string \<Rightarrow> matcher_error + 'r matchers" where
  "addMatchers h fs ms path =
     (case read_file fs path of
        Inl e \<Rightarrow> Inl (MatcherIo e)
      | Inr data \<Rightarrow>
          if length data > maxProblemMatcherBytes then Inl MatcherTooLarge
          else (case decodeMatchers h data of
             None \<Rightarrow> Inl MatcherDecode
           | Some ds \<Rightarrow>
               if length ds = 0 \<or> length ds > maxProblemMatchers then Inl MatcherCount
               else and_then (map_res (compileProblemMatcher h) ds) (register ms)))"

definition removeMatcher :: "'r matchers \<Rightarrow> string \<Rightarrow> 'r matchers" where
  "removeMatcher ms owner = AList.delete owner ms"

section \<open>Matching\<close>

definition problemMatcherCaptures :: "'r host \<Rightarrow> 'r \<Rightarrow> string \<Rightarrow> string + string list option" where
  "problemMatcherCaptures h r text =
     (case findMatch h r text of
        Inl e \<Rightarrow> Inl e
      | Inr None \<Rightarrow> Inr None
      | Inr (Some group_text) \<Rightarrow>
          (let maxGroup = foldl max 0 (groupNumbers h r)
           in Inr (Some (map (\<lambda>i. if i \<in> set (groupNumbers h r) then group_text i else [])
                [0..<maxGroup + 1]))))"

definition assignCapture :: "string \<Rightarrow> int \<Rightarrow> string list \<Rightarrow> string" where
  "assignCapture old grp captures =
     (if 0 < grp \<and> grp < int (length captures) \<and> captures ! nat grp \<noteq> []
      then captures ! nat grp else old)"

definition match_apply :: "problemMatch \<Rightarrow> problemPattern \<Rightarrow> string list \<Rightarrow> problemMatch" where
  "match_apply m p cs =
     \<lparr>match_file = assignCapture (match_file m) (File p) cs, line = assignCapture (line m) (Line p) cs,
      column = assignCapture (column m) (Column p) cs, endLine = assignCapture (endLine m) (EndLine p) cs,
      endColumn = assignCapture (endColumn m) (EndColumn p) cs,
      message = assignCapture (message m) (Message p) cs, code = assignCapture (code m) (Code p) cs,
      severity = assignCapture (severity m) (Severity_group p) cs\<rparr>"

definition match_result :: "'r compiledProblemMatcher \<Rightarrow> problemMatch" where
  "match_result m =
     (let result = values_of m;
          result = (if severity result = [] then result\<lparr>severity := Severity (definition_of m)\<rparr> else result)
      in if severity result = [] then result\<lparr>severity := ''error''\<rparr> else result)"

definition match_reset :: "'r compiledProblemMatcher \<Rightarrow> 'r compiledProblemMatcher" where
  "match_reset m = m\<lparr>next_index := 0, values_of := no_match\<rparr>"

definition match_finish :: "'r compiledProblemMatcher \<Rightarrow> 'r compiledProblemMatcher \<times> problemMatch" where
  "match_finish m = (match_reset m, match_result m)"

definition match_first :: "'r host \<Rightarrow> 'r compiledProblemMatcher \<Rightarrow> string \<Rightarrow>
    'r compiledProblemMatcher \<times> (string + problemMatch option)" where
  "match_first h m text =
     (case problemMatcherCaptures h (patterns m ! 0) text of
        Inl e \<Rightarrow> (m, Inl e)
      | Inr None \<Rightarrow> (m, Inr None)
      | Inr (Some captures) \<Rightarrow>
          (let m = m\<lparr>values_of := match_apply (values_of m) (Patterns (definition_of m) ! 0) captures,
                next_index := 1\<rparr>
           in if length (patterns m) = 1 then
                (let (m, result) = match_finish m in (m, Inr (Some result)))
              else (m, Inr None)))"

definition matcher_match :: "'r host \<Rightarrow> 'r compiledProblemMatcher \<Rightarrow> string \<Rightarrow>
    'r compiledProblemMatcher \<times> (string + problemMatch option)" where
  "matcher_match h m text =
     (if next_index m > 0 then
        (case problemMatcherCaptures h (patterns m ! next_index m) text of
           Inl e \<Rightarrow> (match_reset m, Inl e)
         | Inr (Some captures) \<Rightarrow>
             (let patternIndex = next_index m;
                  base = values_of m;
                  m = m\<lparr>values_of := match_apply base (Patterns (definition_of m) ! patternIndex) captures,
                    next_index := patternIndex + 1\<rparr>
              in if next_index m = length (patterns m) then
                   if Loop (Patterns (definition_of m) ! patternIndex) \<and> patternIndex > 0 then
                     (m\<lparr>next_index := patternIndex, values_of := base\<rparr>, Inr (Some (match_result m)))
                   else (let (m, result) = match_finish m in (m, Inr (Some result)))
                 else (m, Inr None))
         | Inr None \<Rightarrow> match_first h (match_reset m) text)
      else match_first h m text)"

definition match_owner :: "'r host \<Rightarrow> string \<Rightarrow> 'r matchers \<times> problemMatch list \<times> string list \<Rightarrow> string \<Rightarrow>
    'r matchers \<times> problemMatch list \<times> string list" where
  "match_owner h text acc owner =
     (case acc of (ms, annotations, failed) \<Rightarrow>
        (case map_of ms owner of
           None \<Rightarrow> (ms, annotations, failed)
         | Some m \<Rightarrow>
             (case matcher_match h m text of
                (m', Inl e) \<Rightarrow> (AList.delete owner ms, annotations, failed @ [owner])
              | (m', Inr None) \<Rightarrow> (AList.update owner m' ms, annotations, failed)
              | (m', Inr (Some a)) \<Rightarrow> (AList.update owner m' ms, annotations @ [a], failed))))"

definition matchers_match :: "'r host \<Rightarrow> 'r matchers \<Rightarrow> string \<Rightarrow> 'r matchers \<times> problemMatch list \<times> string list" where
  "matchers_match h ms text =
     (let owners = sort (map fst ms) in foldl (match_owner h text) (ms, [], []) owners)"

section \<open>Printing\<close>

definition annotation_severity :: "string \<Rightarrow> string" where
  "annotation_severity s =
     (let s = to_lower s
      in if s \<in> {''warning'', ''warn''} then ''warning''
         else if s \<in> {''notice'', ''info'', ''information''} then ''notice''
         else ''error'')"

definition formatProblemAnnotation :: "problemMatch \<Rightarrow> string" where
  "formatProblemAnnotation m =
     (let properties = map (\<lambda>(name, v). name @ ''='' @ escapeCommandProperty v)
            (filter (\<lambda>(name, v). v \<noteq> [])
              [(''file'', match_file m), (''line'', line m), (''col'', column m), (''endLine'', endLine m),
               (''endColumn'', endColumn m), (''title'', code m)]);
          header = annotation_severity (severity m) @
            (if properties \<noteq> [] then '' '' @ str_join properties '','' else [])
      in ''::'' @ header @ ''::'' @ escapeCommandData (message m))"

definition maskProblemMatch :: "(string \<Rightarrow> string) \<Rightarrow> problemMatch \<Rightarrow> problemMatch" where
  "maskProblemMatch msk m = m\<lparr>match_file := msk (match_file m), line := msk (line m), column := msk (column m),
     endLine := msk (endLine m), endColumn := msk (endColumn m), message := msk (message m),
     code := msk (code m)\<rparr>"

section \<open>Invariant\<close>

text \<open>
  Every index the automaton uses is in range: one compiled pattern per pattern of the definition,
  and the next pattern is one of them.
\<close>

definition wf_matcher :: "'r compiledProblemMatcher \<Rightarrow> bool" where
  "wf_matcher m \<longleftrightarrow> length (patterns m) = length (Patterns (definition_of m)) \<and>
     next_index m < length (patterns m) \<and> length (patterns m) \<le> maxProblemPatterns \<and>
     Owner (definition_of m) \<noteq> [] \<and> (next_index m = 0 \<longrightarrow> values_of m = no_match)"

definition wf_matchers :: "'r matchers \<Rightarrow> bool" where
  "wf_matchers ms \<longleftrightarrow> distinct (map fst ms) \<and> length ms \<le> maxProblemMatchers \<and>
     (\<forall>(owner, m) \<in> set ms. owner = Owner (definition_of m) \<and> wf_matcher m)"

lemma wf_compileProblemMatcher: "compileProblemMatcher h d = Inr m \<Longrightarrow> wf_matcher m"
  by (auto simp: compileProblemMatcher_def and_then_eq_Inr wf_matcher_def dest: map_res_length split: if_splits)

lemma wf_match_first:
  "wf_matcher m \<Longrightarrow> next_index m = 0 \<Longrightarrow> match_first h m text = (m', r) \<Longrightarrow>
     wf_matcher m' \<and> definition_of m' = definition_of m"
  by (auto simp: match_first_def match_finish_def match_reset_def wf_matcher_def Let_def
      split: sum.splits option.splits if_splits)
    (metis Suc_lessI length_greater_0_conv)

lemma wf_match_reset: "wf_matcher m \<Longrightarrow> wf_matcher (match_reset m)"
  by (auto simp: match_reset_def wf_matcher_def)

lemma match_reset_next [simp]: "next_index (match_reset m) = 0" "definition_of (match_reset m) = definition_of m"
  by (simp_all add: match_reset_def)

lemma wf_matcher_match:
  assumes "wf_matcher m" "matcher_match h m text = (m', r)"
  shows "wf_matcher m' \<and> definition_of m' = definition_of m"
proof (cases "next_index m = 0")
  case True
  from assms show ?thesis
    using True wf_match_first [OF assms(1) True, of h "text" m' r] by (simp add: matcher_match_def)
next
  case False
  show ?thesis
  proof (cases "problemMatcherCaptures h (patterns m ! next_index m) text")
    case (Inl e)
    with assms False show ?thesis by (auto simp: matcher_match_def wf_match_reset)
  next
    case (Inr cs)
    show ?thesis
    proof (cases cs)
      case None
      with assms False Inr show ?thesis
        using wf_match_first [OF wf_match_reset [OF assms(1)], of h "text" m' r]
        by (simp add: matcher_match_def)
    next
      case (Some captures)
      with assms False Inr show ?thesis
        by (auto simp: matcher_match_def match_finish_def Let_def wf_match_reset wf_matcher_def match_reset_def
            split: if_splits)
    qed
  qed
qed

lemma set_AList_update: "set (AList.update k v al) \<subseteq> insert (k, v) (set al)"
  by (induction al) auto

lemma wf_AList_update:
  assumes "wf_matchers ms" "wf_matcher m" "length (AList.update (Owner (definition_of m)) m ms) \<le> maxProblemMatchers"
  shows "wf_matchers (AList.update (Owner (definition_of m)) m ms)"
  using assms set_AList_update [of "Owner (definition_of m)" m ms]
  by (fastforce simp: wf_matchers_def distinct_update)

lemma length_AList_update: "k \<in> fst ` set al \<Longrightarrow> length (AList.update k v al) = length al"
  by (induction al) auto

lemma length_AList_delete: "length (AList.delete k al) \<le> length al"
  by (simp add: AList.delete_eq)

lemma set_AList_delete: "set (AList.delete k al) \<subseteq> set al"
  by (auto simp: AList.delete_eq)

lemma wf_removeMatcher: "wf_matchers ms \<Longrightarrow> wf_matchers (removeMatcher ms owner)"
  using set_AList_delete [of owner ms] length_AList_delete [of owner ms]
  by (auto simp: wf_matchers_def removeMatcher_def distinct_delete)

lemma register_bound:
  assumes "distinct (map fst ms)" "register ms compiled = Inr ms'"
  shows "distinct (map fst ms') \<and> length ms' \<le> maxProblemMatchers"
proof -
  let ?new = "map (\<lambda>m. Owner (definition_of m)) compiled"
  let ?step = "\<lambda>acc m. AList.update (Owner (definition_of m)) m acc"
  have keys: "distinct (map fst (foldl ?step acc cs)) \<and>
      fst ` set (foldl ?step acc cs) = fst ` set acc \<union> (\<lambda>m. Owner (definition_of m)) ` set cs"
    if "distinct (map fst acc)" for acc cs
    using that by (induction cs arbitrary: acc) (auto simp: distinct_update dom_update)
  from assms have ms': "ms' = foldl ?step ms compiled" "length (remdups (map fst ms @ ?new)) \<le> maxProblemMatchers"
    by (auto simp: register_def Let_def split: if_splits)
  have k: "distinct (map fst ms')" "set (map fst ms') = set (map fst ms @ ?new)"
    using keys [OF assms(1), of compiled] ms'(1) by auto
  then have "length ms' = card (set (map fst ms @ ?new))"
    by (metis distinct_card length_map)
  then show ?thesis using k ms'(2) by (simp add: length_remdups_card_conv)
qed

lemma register_owners:
  assumes "\<forall>(owner, m) \<in> set ms. owner = Owner (definition_of m) \<and> wf_matcher m"
    "\<forall>m \<in> set compiled. wf_matcher m"
  shows "\<forall>(owner, m) \<in> set (foldl (\<lambda>acc m. AList.update (Owner (definition_of m)) m acc) ms compiled).
    owner = Owner (definition_of m) \<and> wf_matcher m"
  using assms
proof (induction compiled arbitrary: ms)
  case (Cons c cs)
  have "\<forall>(owner, m) \<in> set (AList.update (Owner (definition_of c)) c ms). owner = Owner (definition_of m) \<and> wf_matcher m"
    using Cons.prems set_AList_update [of "Owner (definition_of c)" c ms] by auto
  with Cons show ?case by simp
qed simp

lemma wf_addMatchers:
  assumes "wf_matchers ms" "addMatchers h fs ms path = Inr ms'"
  shows "wf_matchers ms'"
proof -
  from assms(2) obtain ds cs where cs: "map_res (compileProblemMatcher h) ds = Inr cs" "register ms cs = Inr ms'"
    by (auto simp: addMatchers_def and_then_eq_Inr split: sum.splits option.splits if_splits)
  have "\<forall>m \<in> set cs. wf_matcher m"
  proof
    fix m assume "m \<in> set cs"
    then have "Inr m \<in> set (map (compileProblemMatcher h) ds)"
      using cs(1) by (auto simp: map_res_Inr_iff)
    then show "wf_matcher m" by (auto dest!: sym [of "Inr m"] intro: wf_compileProblemMatcher)
  qed
  with assms(1) cs(2) register_bound [OF _ cs(2)] register_owners [of ms cs] show ?thesis
    by (auto simp: wf_matchers_def register_def Let_def split: if_splits)
qed

lemma wf_match_owner:
  assumes "wf_matchers ms" "match_owner h text (ms, as, fs) owner = (ms', as', fs')"
  shows "wf_matchers ms'"
proof (cases "map_of ms owner")
  case None
  with assms show ?thesis by (simp add: match_owner_def)
next
  case (Some m)
  then have m: "(owner, m) \<in> set ms" by (rule map_of_SomeD)
  with assms(1) have own: "owner = Owner (definition_of m)" "wf_matcher m" by (auto simp: wf_matchers_def)
  obtain m' r where r: "matcher_match h m text = (m', r)" by fastforce
  from wf_matcher_match [OF own(2) r] have m': "wf_matcher m'" "owner = Owner (definition_of m')"
    using own(1) by auto
  have "length (AList.update owner m' ms) = length ms"
    using m by (intro length_AList_update) force
  then have "wf_matchers (AList.update owner m' ms)"
    using wf_AList_update [OF assms(1) m'(1)] m'(2) assms(1) by (simp add: wf_matchers_def)
  then show ?thesis
    using assms Some r wf_removeMatcher [OF assms(1), of owner]
    by (auto simp: match_owner_def removeMatcher_def split: sum.splits option.splits)
qed

lemma wf_matchers_match:
  assumes "wf_matchers ms" "matchers_match h ms text = (ms', as, fs)"
  shows "wf_matchers ms'"
proof -
  have "wf_matchers (fst acc) \<Longrightarrow> wf_matchers (fst (foldl (match_owner h text) acc owners))" for acc owners
  proof (induction owners arbitrary: acc)
    case (Cons owner owners)
    obtain ms as fs where acc: "acc = (ms, as, fs)" by (cases acc)
    obtain ms1 as1 fs1 where "match_owner h text acc owner = (ms1, as1, fs1)" by (cases "match_owner h text acc owner")
    with Cons acc show ?case using wf_match_owner by fastforce
  qed simp
  from this [of "(ms, [], [])" "sort (map fst ms)"] assms show ?thesis by (simp add: matchers_match_def)
qed

end
