(* ===== verification/CommandWriter.thy ===== *)
theory CommandWriter
  imports Masking ProblemMatcher
begin

text \<open>
  The workflow command writer of a step, \<^verbatim>\<open>src/internal/runner/workflow_commands.go\<close>: it cuts the
  output of the step's process into lines, takes the workflow commands out of it, and passes the
  rest to the masking writer. The writer, its masking target and the shared
  \<^verbatim>\<open>workflowCommandState\<close> are one state record; the \<^verbatim>\<open>outputMasker\<close> that \<^verbatim>\<open>add-mask\<close> extends is
  the one the target masks with, as the runner builds the writer
  (\<^verbatim>\<open>e.commands.writer(e.masker, e.masker.writer(e.stdout), ...)\<close>).
\<close>

section \<open>State\<close>

definition maxWorkflowCommandBytes :: nat where
  "maxWorkflowCommandBytes = 65536"

record 'r workflowCommandState =
  matchers :: "'r matchers"
  stoppedCommand :: string
  stepDebug :: bool

record ('r, 's) workflowCommandWriter =
  state :: "'r workflowCommandState"
  cw_target :: "'s maskingWriter"
  cw_files :: "commandFiles option"
  workspace :: string
  cw_buffer :: string
  streamingLine :: bool
  cw_fs :: filesystem

datatype writer_error = WriteFailed io_error | CommandFailed command_error | MatcherFailed matcher_error
  | WorkflowCommandTooLong

type_synonym ('r, 's) cw_result = "('r, 's) workflowCommandWriter \<times> writer_error option"

definition newWorkflowCommandState :: "bool \<Rightarrow> 'r workflowCommandState" where
  "newWorkflowCommandState debug = \<lparr>matchers = [], stoppedCommand = [], stepDebug = debug\<rparr>"

definition newWorkflowCommandWriter ::
  "'r workflowCommandState \<Rightarrow> 's maskingWriter \<Rightarrow> commandFiles option \<Rightarrow> string \<Rightarrow> filesystem \<Rightarrow> ('r, 's) workflowCommandWriter" where
  "newWorkflowCommandWriter st tgt files ws fs =
     \<lparr>state = st, cw_target = tgt, cw_files = files, workspace = ws, cw_buffer = [],
      streamingLine = False, cw_fs = fs\<rparr>"

text \<open>\<open>cw_then\<close> is \<^verbatim>\<open>if err := ...; err != nil { return err }\<close>.\<close>

definition cw_then :: "('r, 's) cw_result \<Rightarrow> (('r, 's) workflowCommandWriter \<Rightarrow> ('r, 's) cw_result) \<Rightarrow> ('r, 's) cw_result" where
  "cw_then r f = (case r of (w, Some e) \<Rightarrow> (w, Some e) | (w, None) \<Rightarrow> f w)"

section \<open>Commands\<close>

definition renderedWorkflowCommand :: "string \<Rightarrow> bool" where
  "renderedWorkflowCommand name \<longleftrightarrow>
     name \<in> {''debug'', ''notice'', ''warning'', ''error'', ''group'', ''endgroup'', ''command'', ''section''}"

definition supportedWorkflowCommand :: "string \<Rightarrow> bool" where
  "supportedWorkflowCommand name \<longleftrightarrow>
     name \<in> {''debug'', ''notice'', ''warning'', ''error'', ''group'', ''endgroup'', ''command'', ''section'',
       ''add-mask'', ''add-matcher'', ''remove-matcher'', ''set-output'', ''save-state'', ''set-env'',
       ''add-path'', ''stop-commands''}"

definition supportedWorkflowCommandLine :: "string \<Rightarrow> bool" where
  "supportedWorkflowCommandLine text =
     (case parseCommand (trim_suffix text [CR]) of
        None \<Rightarrow> False | Some command \<Rightarrow> supportedWorkflowCommand (Name command))"

definition commandsStopped :: "'r workflowCommandState \<Rightarrow> string \<Rightarrow> 'r workflowCommandState \<times> bool" where
  "commandsStopped s text =
     (if stoppedCommand s = [] then (s, False)
      else if isResume text (stoppedCommand s) then (s\<lparr>stoppedCommand := []\<rparr>, True)
      else (s, True))"

definition stopCommands :: "'r workflowCommandState \<Rightarrow> string \<Rightarrow> 'r workflowCommandState" where
  "stopCommands s token = s\<lparr>stoppedCommand := token\<rparr>"

definition writeUnmatched :: "'s write_fun \<Rightarrow> ('r, 's) workflowCommandWriter \<Rightarrow> string \<Rightarrow> ('r, 's) cw_result" where
  "writeUnmatched wr w data =
     (case writeAll (mw_write wr) (cw_target w) data of
        (t, e) \<Rightarrow> (w\<lparr>cw_target := t\<rparr>, map_option WriteFailed e))"

definition cw_mask :: "('r, 's) workflowCommandWriter \<Rightarrow> string \<Rightarrow> string" where
  "cw_mask w = mask_text (masker (cw_target w))"

definition writeRenderedCommand ::
  "'s write_fun \<Rightarrow> ('r, 's) workflowCommandWriter \<Rightarrow> Command \<Rightarrow> bool \<Rightarrow> ('r, 's) cw_result" where
  "writeRenderedCommand wr w command newline =
     writeUnmatched wr w (renderedLine (cw_mask w) command @ (if newline then [LF] else []))"

definition appendKeyValue ::
  "('r, 's) workflowCommandWriter \<Rightarrow> (commandFiles \<Rightarrow> string) \<Rightarrow> string \<Rightarrow> string \<Rightarrow> ('r, 's) cw_result" where
  "appendKeyValue w path name v =
     (case cw_files w of
        None \<Rightarrow> (w, None)
      | Some files \<Rightarrow>
          if name = [] then (w, None)
          else (case appendCommandKeyValue (cw_fs w) (path files) name v of
             Inl e \<Rightarrow> (w, Some (CommandFailed e))
           | Inr fs \<Rightarrow> (w\<lparr>cw_fs := fs\<rparr>, None)))"

definition property_of :: "Command \<Rightarrow> string \<Rightarrow> string" where
  "property_of command name = (case map_of (Properties command) name of None \<Rightarrow> [] | Some v \<Rightarrow> v)"

definition addMasks :: "('r, 's) workflowCommandWriter \<Rightarrow> string list \<Rightarrow> ('r, 's) workflowCommandWriter" where
  "addMasks w vs = w\<lparr>cw_target := (cw_target w)\<lparr>masker := foldl masker_add (masker (cw_target w)) vs\<rparr>\<rparr>"

definition handleCommand ::
  "'r host \<Rightarrow> ('r, 's) workflowCommandWriter \<Rightarrow> Command \<Rightarrow> ('r, 's) workflowCommandWriter \<times> bool \<times> writer_error option" where
  "handleCommand h w command =
     (if Name command = ''add-mask'' then
        (addMasks w (Value command # fields_func (\<lambda>c. c = CR \<or> c = LF) (Value command)), True, None)
      else if Name command = ''add-matcher'' then
        (let path = (if path_is_abs (Value command) then Value command
                     else path_join [workspace w, Value command])
         in case addMatchers h (cw_fs w) (matchers (state w)) path of
              Inl e \<Rightarrow> (w, True, Some (MatcherFailed e))
            | Inr ms \<Rightarrow> (w\<lparr>state := (state w)\<lparr>matchers := ms\<rparr>\<rparr>, True, None))
      else if Name command = ''remove-matcher'' then
        (w\<lparr>state := (state w)\<lparr>matchers := removeMatcher (matchers (state w)) (property_of command ''owner'')\<rparr>\<rparr>,
         True, None)
      else if Name command = ''set-output'' then
        (case appendKeyValue w output_file (property_of command ''name'') (Value command) of (w, e) \<Rightarrow> (w, True, e))
      else if Name command = ''save-state'' then
        (case appendKeyValue w state_file (property_of command ''name'') (Value command) of (w, e) \<Rightarrow> (w, True, e))
      else if Name command = ''set-env'' \<or> Name command = ''add-path'' then (w, True, None)
      else if Name command = ''stop-commands'' then
        (if Value command \<noteq> [] then (w\<lparr>state := stopCommands (state w) (Value command)\<rparr>, False, None)
         else (w, False, None))
      else (w, False, None))"

section \<open>Lines\<close>

definition isRunnerLogRecord :: "'r host \<Rightarrow> string \<Rightarrow> bool" where
  "isRunnerLogRecord h text =
     (let record_text = (case cut text '' '' of (timestamp, content, found) \<Rightarrow>
            if found \<and> parsesTime h timestamp then content else text)
      in has_prefix record_text ''{'' \<and> runnerRecord h record_text)"

primrec writeAnnotations ::
  "'s write_fun \<Rightarrow> ('r, 's) workflowCommandWriter \<Rightarrow> problemMatch list \<Rightarrow> ('r, 's) cw_result" where
  "writeAnnotations wr w [] = (w, None)"
| "writeAnnotations wr w (a # as) =
     cw_then (writeUnmatched wr w (formatProblemAnnotation (maskProblemMatch (cw_mask w) a) @ [LF]))
       (\<lambda>w. writeAnnotations wr w as)"

primrec writeFailures ::
  "'r host \<Rightarrow> 's write_fun \<Rightarrow> ('r, 's) workflowCommandWriter \<Rightarrow> string list \<Rightarrow> ('r, 's) cw_result" where
  "writeFailures h wr w [] = (w, None)"
| "writeFailures h wr w (owner # owners) =
     cw_then (writeUnmatched wr w (''::warning::'' @ escapeCommandData (''Problem matcher '' @
         quote h (cw_mask w owner) @ '' was disabled after a regular expression error'') @ [LF]))
       (\<lambda>w. writeFailures h wr w owners)"

definition passLine ::
  "'r host \<Rightarrow> 's write_fun \<Rightarrow> ('r, 's) workflowCommandWriter \<Rightarrow> string \<Rightarrow> bool \<Rightarrow> ('r, 's) cw_result" where
  "passLine h wr w raw newline =
     (let text = trim_suffix raw [CR]
      in cw_then (if isRunnerLogRecord h text then writeUnmatched wr w '' '' else (w, None)) (\<lambda>w.
         cw_then (writeUnmatched wr w raw) (\<lambda>w.
         cw_then (if newline then writeUnmatched wr w [LF] else (w, None)) (\<lambda>w.
           (case matchers_match h (matchers (state w)) text of
              (ms, annotations, failed) \<Rightarrow>
                cw_then (writeAnnotations wr (w\<lparr>state := (state w)\<lparr>matchers := ms\<rparr>\<rparr>) annotations) (\<lambda>w.
                writeFailures h wr w failed))))))"

definition processLine ::
  "'r host \<Rightarrow> 's write_fun \<Rightarrow> ('r, 's) workflowCommandWriter \<Rightarrow> string \<Rightarrow> bool \<Rightarrow> ('r, 's) cw_result" where
  "processLine h wr w raw newline =
     (let text = trim_suffix raw [CR];
          (st, stopped) = commandsStopped (state w) text;
          w = w\<lparr>state := st\<rparr>
      in case parseCommand text of
           None \<Rightarrow> passLine h wr w raw newline
         | Some command \<Rightarrow>
             if stopped then passLine h wr w raw newline
             else if Name command = ''debug'' \<and> \<not> stepDebug (state w) then (w, None)
             else if renderedWorkflowCommand (Name command) then writeRenderedCommand wr w command newline
             else (case handleCommand h w command of
                 (w, handled, Some e) \<Rightarrow> (w, Some e)
               | (w, handled, None) \<Rightarrow> if handled then (w, None) else passLine h wr w raw newline))"

section \<open>Blocks of output\<close>

text \<open>The loop of \<^verbatim>\<open>Write\<close>; the counter of bytes taken is the third component.\<close>

function cw_write_loop ::
  "'r host \<Rightarrow> 's write_fun \<Rightarrow> ('r, 's) workflowCommandWriter \<Rightarrow> string \<Rightarrow> nat \<Rightarrow>
    ('r, 's) workflowCommandWriter \<times> nat \<times> writer_error option" where
  "cw_write_loop h wr w data written =
     (if data = [] then (w, written, None)
      else if streamingLine w then
        (case str_index data [LF] of
           None \<Rightarrow>
             (case writeUnmatched wr w data of
                (w, Some e) \<Rightarrow> (w, written, Some e)
              | (w, None) \<Rightarrow> (w, written + length data, None))
         | Some newline \<Rightarrow>
             (case writeUnmatched wr w (take (newline + 1) data) of
                (w, Some e) \<Rightarrow> (w, written, Some e)
              | (w, None) \<Rightarrow>
                  cw_write_loop h wr (w\<lparr>streamingLine := False\<rparr>) (drop (newline + 1) data)
                    (written + newline + 1)))
      else
        (case str_index data [LF] of
           None \<Rightarrow>
             (let w = w\<lparr>cw_buffer := cw_buffer w @ data\<rparr>;
                  written = written + length data
              in if length (cw_buffer w) > maxWorkflowCommandBytes then
                   if supportedWorkflowCommandLine (cw_buffer w) then (w, written, Some WorkflowCommandTooLong)
                   else (case writeUnmatched wr w (cw_buffer w) of
                      (w, Some e) \<Rightarrow> (w, written, Some e)
                    | (w, None) \<Rightarrow> (w\<lparr>cw_buffer := [], streamingLine := True\<rparr>, written, None))
                 else (w, written, None))
         | Some newline \<Rightarrow>
             (let w = w\<lparr>cw_buffer := cw_buffer w @ take newline data\<rparr>;
                  written = written + newline + 1
              in if length (cw_buffer w) > maxWorkflowCommandBytes then
                   if supportedWorkflowCommandLine (cw_buffer w) then (w, written, Some WorkflowCommandTooLong)
                   else (case cw_then (writeUnmatched wr w (cw_buffer w)) (\<lambda>w. writeUnmatched wr w [LF]) of
                      (w, Some e) \<Rightarrow> (w, written, Some e)
                    | (w, None) \<Rightarrow>
                        cw_write_loop h wr (w\<lparr>cw_buffer := []\<rparr>) (drop (newline + 1) data) written)
                 else (case processLine h wr w (cw_buffer w) True of
                      (w, Some e) \<Rightarrow> (w, written, Some e)
                    | (w, None) \<Rightarrow>
                        cw_write_loop h wr (w\<lparr>cw_buffer := []\<rparr>) (drop (newline + 1) data) written))))"
  by pat_completeness auto
termination
  by (relation "measure (\<lambda>(h, wr, w, data, written). length data)") (auto dest: str_index_single)

declare cw_write_loop.simps [simp del]

definition cw_write ::
  "'r host \<Rightarrow> 's write_fun \<Rightarrow> ('r, 's) workflowCommandWriter \<Rightarrow> string \<Rightarrow>
    ('r, 's) workflowCommandWriter \<times> nat \<times> writer_error option" where
  "cw_write h wr w data = cw_write_loop h wr w data 0"

definition cw_flush :: "'r host \<Rightarrow> 's write_fun \<Rightarrow> ('r, 's) workflowCommandWriter \<Rightarrow>
    ('r, 's) workflowCommandWriter \<times> writer_error list" where
  "cw_flush h wr w =
     (let (w, err) =
            (if length (cw_buffer w) > 0 then
               (case processLine h wr w (cw_buffer w) True of (w, e) \<Rightarrow> (w\<lparr>cw_buffer := []\<rparr>, e))
             else if streamingLine w then
               (case writeUnmatched wr w [LF] of (w, e) \<Rightarrow> (w\<lparr>streamingLine := False\<rparr>, e))
             else (w, None));
          (t, flush_err) = mw_flush wr (cw_target w)
      in (w\<lparr>cw_target := t\<rparr>,
          (case err of None \<Rightarrow> [] | Some e \<Rightarrow> [e]) @ (case flush_err of None \<Rightarrow> [] | Some e \<Rightarrow> [WriteFailed e])))"

section \<open>What an operation may change\<close>

lemma mw_process_masker: "masker (fst (mw_process wr w final)) = masker w"
  by (auto simp: mw_process_def split: prod.splits option.splits)

lemma mw_drain_masker: "masker (fst (mw_drain wr w)) = masker w"
  using mw_process_masker [of wr w False] by (auto simp: mw_drain_def split: prod.splits option.splits)

lemma mw_write_loop_masker: "masker (fst (mw_write_loop wr w data n)) = masker w"
proof (induction wr w data n rule: mw_write_loop.induct)
  case (1 wr w data n)
  show ?case
  proof (cases "data = []")
    case True
    then show ?thesis by (simp add: mw_write_loop.simps)
  next
    case ne: False
    obtain w1 e where d: "mw_drain wr w = (w1, e)" by fastforce
    have m1: "masker w1 = masker w" using mw_drain_masker [of wr w] d by simp
    show ?thesis
    proof (cases e)
      case (Some x)
      with ne d m1 show ?thesis by (subst mw_write_loop.simps) simp
    next
      case None
      let ?space = "min (maxOutputBufferBytes - length (buffer w1)) (length data)"
      let ?w2 = "w1\<lparr>buffer := buffer w1 @ take ?space data\<rparr>"
      obtain w3 e3 where p: "mw_process wr ?w2 False = (w3, e3)" by fastforce
      have m3: "masker w3 = masker w1" using mw_process_masker [of wr ?w2 False] p by simp
      from 1 [OF ne d [symmetric] None refl refl p [symmetric]] m1 m3 ne d None p show ?thesis
        by (subst mw_write_loop.simps) (auto simp: Let_def split: option.splits)
    qed
  qed
qed

lemma writeAll_masker: "masker (fst (writeAll (mw_write wr) t data)) = masker t"
proof (induction "mw_write wr" t data rule: writeAll.induct)
  case (1 t data)
  obtain t' n e where w: "mw_write wr t data = (t', n, e)" by (cases "mw_write wr t data")
  have "masker t' = masker t" using mw_write_loop_masker [of wr t data 0] w by (simp add: mw_write_def)
  then show ?case
    using 1 w by (subst writeAll.simps) (auto split: option.splits)
qed

text \<open>Passing text through changes the target's bytes and the progress of the problem matchers only.\<close>

definition same_controls :: "('r, 's) workflowCommandWriter \<Rightarrow> ('r, 's) workflowCommandWriter \<Rightarrow> bool" where
  "same_controls w w' \<longleftrightarrow>
     cw_fs w' = cw_fs w \<and> masker (cw_target w') = masker (cw_target w) \<and>
     stoppedCommand (state w') = stoppedCommand (state w) \<and> stepDebug (state w') = stepDebug (state w) \<and>
     cw_files w' = cw_files w \<and> workspace w' = workspace w \<and>
     (wf_matchers (matchers (state w)) \<longrightarrow> wf_matchers (matchers (state w')))"

lemma same_controls_refl [simp]: "same_controls w w"
  by (simp add: same_controls_def)

lemma same_controls_trans: "same_controls a b \<Longrightarrow> same_controls b c \<Longrightarrow> same_controls a c"
  by (simp add: same_controls_def)

lemma same_controls_buffer [simp]:
  "same_controls w (w'\<lparr>cw_buffer := b\<rparr>) = same_controls w w'"
  "same_controls w (w'\<lparr>streamingLine := l\<rparr>) = same_controls w w'"
  "same_controls (w\<lparr>cw_buffer := b\<rparr>) w' = same_controls w w'"
  "same_controls (w\<lparr>streamingLine := l\<rparr>) w' = same_controls w w'"
  by (simp_all add: same_controls_def)

lemma writeUnmatched_controls: "writeUnmatched wr w d = (w', e) \<Longrightarrow> same_controls w w'"
  using writeAll_masker [of wr "cw_target w" d]
  by (auto simp: writeUnmatched_def same_controls_def split: prod.splits)

lemma cw_then_eq:
  "cw_then r f = (w', e) \<longleftrightarrow> (\<exists>w. r = (w, e) \<and> e \<noteq> None \<and> w' = w) \<or> (\<exists>w. r = (w, None) \<and> f w = (w', e))"
  by (cases r) (auto simp: cw_then_def split: option.splits)

lemma cw_then_controls:
  assumes "cw_then r f = (w', e)" "same_controls w (fst r)" "\<And>v. r = (v, None) \<Longrightarrow> f v = (w', e) \<Longrightarrow> same_controls v w'"
  shows "same_controls w w'"
  using assms by (auto simp: cw_then_eq intro: same_controls_trans)

lemma writeAnnotations_controls: "writeAnnotations wr w as = (w', e) \<Longrightarrow> same_controls w w'"
proof (induction as arbitrary: w)
  case (Cons a as)
  show ?case
    by (rule cw_then_controls [OF Cons.prems [unfolded writeAnnotations.simps]])
      (auto intro: Cons.IH writeUnmatched_controls [OF prod.collapse [symmetric]])
qed simp

lemma writeFailures_controls: "writeFailures h wr w os = (w', e) \<Longrightarrow> same_controls w w'"
proof (induction os arbitrary: w)
  case (Cons a os)
  show ?case
    by (rule cw_then_controls [OF Cons.prems [unfolded writeFailures.simps]])
      (auto intro: Cons.IH writeUnmatched_controls [OF prod.collapse [symmetric]])
qed simp

lemma passLine_controls:
  assumes "passLine h wr w raw newline = (w', e)"
  shows "same_controls w w'"
proof -
  let ?text = "trim_suffix raw [CR]"
  have tail: "same_controls v w'"
    if "(case matchers_match h (matchers (state v)) ?text of (ms, annotations, failed) \<Rightarrow>
          cw_then (writeAnnotations wr (v\<lparr>state := (state v)\<lparr>matchers := ms\<rparr>\<rparr>) annotations)
            (\<lambda>w. writeFailures h wr w failed)) = (w', e)" for v
  proof -
    obtain ms as fs where m: "matchers_match h (matchers (state v)) ?text = (ms, as, fs)" by (cases "matchers_match h (matchers (state v)) ?text")
    let ?v = "v\<lparr>state := (state v)\<lparr>matchers := ms\<rparr>\<rparr>"
    have "same_controls v ?v" using wf_matchers_match [OF _ m] by (simp add: same_controls_def)
    moreover have "same_controls ?v w'"
      by (rule cw_then_controls [OF that [unfolded m prod.case]])
        (auto intro: writeFailures_controls writeAnnotations_controls [OF prod.collapse [symmetric]])
    ultimately show ?thesis by (rule same_controls_trans)
  qed
  have wrt: "same_controls v (fst (if b then writeUnmatched wr v d else (v, None)))" for v b d
    by (auto intro: writeUnmatched_controls [OF prod.collapse [symmetric]])
  show ?thesis
    by (rule cw_then_controls [OF assms [unfolded passLine_def Let_def] wrt])
      (erule cw_then_controls [OF _ writeUnmatched_controls [OF prod.collapse [symmetric]]],
       erule cw_then_controls [OF _ wrt], erule tail)
qed

section \<open>What the output of a step can do\<close>

text \<open>
  The bounds of every operation: commands reach the output and state files only, masks are never
  dropped, and the matcher table keeps its invariant.
\<close>

definition confined :: "('r, 's) workflowCommandWriter \<Rightarrow> ('r, 's) workflowCommandWriter \<Rightarrow> bool" where
  "confined w w' \<longleftrightarrow>
     (\<forall>p. contents (cw_fs w') p \<noteq> contents (cw_fs w) p \<longrightarrow>
        (\<exists>f. cw_files w = Some f \<and> (p = output_file f \<or> p = state_file f))) \<and>
     set (masks (masker (cw_target w))) \<subseteq> set (masks (masker (cw_target w'))) \<and>
     (wf_masker (masker (cw_target w)) \<longrightarrow> wf_masker (masker (cw_target w'))) \<and>
     (wf_matchers (matchers (state w)) \<longrightarrow> wf_matchers (matchers (state w'))) \<and>
     stepDebug (state w') = stepDebug (state w) \<and> cw_files w' = cw_files w \<and> workspace w' = workspace w"

lemma confined_refl [simp]: "confined w w"
  by (simp add: confined_def)

lemma confined_trans:
  assumes "confined a b" "confined b c" shows "confined a c"
proof -
  have "\<exists>f. cw_files a = Some f \<and> (p = output_file f \<or> p = state_file f)"
    if "contents (cw_fs c) p \<noteq> contents (cw_fs a) p" for p
    using that assms unfolding confined_def by (cases "contents (cw_fs b) p = contents (cw_fs a) p") auto
  with assms show ?thesis unfolding confined_def by (auto simp only: subset_iff)
qed

lemma confined_buffer [simp]:
  "confined w (w'\<lparr>cw_buffer := b\<rparr>) = confined w w'"
  "confined w (w'\<lparr>streamingLine := l\<rparr>) = confined w w'"
  "confined (w\<lparr>cw_buffer := b\<rparr>) w' = confined w w'"
  "confined (w\<lparr>streamingLine := l\<rparr>) w' = confined w w'"
  by (simp_all add: confined_def)

lemma same_controls_confined: "same_controls w w' \<Longrightarrow> confined w w'"
  by (simp add: same_controls_def confined_def)

lemma masker_add_grows: "set (masks m) \<subseteq> set (masks (masker_add m v))"
  by (auto simp: masker_add_def)

lemma foldl_masker_add:
  "set (masks m) \<subseteq> set (masks (foldl masker_add m vs)) \<and> (wf_masker m \<longrightarrow> wf_masker (foldl masker_add m vs))"
proof (induction vs arbitrary: m)
  case (Cons v vs)
  from Cons.IH [of "masker_add m v"] masker_add_grows [of m v] wf_masker_add [of m v] show ?case by auto
qed simp

lemma addMasks_confined: "confined w (addMasks w vs)"
  using foldl_masker_add [of "masker (cw_target w)" vs] by (simp add: addMasks_def confined_def)

lemma appendCommandKeyValue_other:
  "appendCommandKeyValue fs path name v = Inr fs' \<Longrightarrow> contents fs' p \<noteq> contents fs p \<Longrightarrow> p = path"
  by (auto simp: appendCommandKeyValue_def appendCommandValue_def and_then_eq_Inr write_file_def split: if_splits)

lemma appendKeyValue_confined:
  assumes "appendKeyValue w path name v = (w', e)" "\<And>f. path f = output_file f \<or> path f = state_file f"
  shows "confined w w'"
proof (cases "cw_files w")
  case None
  with assms show ?thesis by (simp add: appendKeyValue_def)
next
  case (Some f)
  with assms show ?thesis
    using appendCommandKeyValue_other [of "cw_fs w" "path f" name v]
    by (auto simp: appendKeyValue_def confined_def split: if_splits sum.splits) (metis assms(2))+
qed

lemma state_matchers_confined:
  "(wf_matchers (matchers (state w)) \<Longrightarrow> wf_matchers ms) \<Longrightarrow>
     confined w (w\<lparr>state := (state w)\<lparr>matchers := ms\<rparr>\<rparr>)"
  by (auto simp: confined_def)

lemma state_stopped_confined [simp]: "confined w (w\<lparr>state := (state w)\<lparr>stoppedCommand := t\<rparr>\<rparr>)"
  by (auto simp: confined_def)

lemma handleCommand_confined: "handleCommand h w c = (w', handled, e) \<Longrightarrow> confined w w'"
  unfolding handleCommand_def
  by (auto simp: Let_def addMasks_confined stopCommands_def
      intro: state_matchers_confined wf_removeMatcher wf_addMatchers appendKeyValue_confined
      split: if_splits sum.splits prod.splits)

lemma commandsStopped_confined: "commandsStopped (state w) t = (st, b) \<Longrightarrow> confined w (w\<lparr>state := st\<rparr>)"
  by (auto simp: commandsStopped_def split: if_splits)

lemma writeUnmatched_confined: "writeUnmatched wr w d = (w', e) \<Longrightarrow> confined w w'"
  by (rule same_controls_confined, rule writeUnmatched_controls)

lemma passLine_confined: "passLine h wr w raw nl = (w', e) \<Longrightarrow> confined w w'"
  by (rule same_controls_confined, rule passLine_controls)

lemma processLine_confined:
  assumes "processLine h wr w raw nl = (w', e)"
  shows "confined w w'"
proof -
  obtain st stopped where c: "commandsStopped (state w) (trim_suffix raw [CR]) = (st, stopped)" by fastforce
  let ?w = "w\<lparr>state := st\<rparr>"
  have "confined ?w w'"
  proof (cases "parseCommand (trim_suffix raw [CR])")
    case None
    with assms c show ?thesis by (simp add: processLine_def passLine_confined)
  next
    case (Some command)
    obtain v handled e2 where v: "handleCommand h ?w command = (v, handled, e2)" by (cases "handleCommand h ?w command")
    from handleCommand_confined [OF v] Some assms c v show ?thesis
      by (auto simp: processLine_def Let_def writeRenderedCommand_def split: if_splits option.splits
          intro: passLine_confined writeUnmatched_confined confined_trans)
  qed
  then show ?thesis using commandsStopped_confined [OF c] by (rule confined_trans [rotated])
qed

text \<open>
  What \<^verbatim>\<open>Write\<close> does to the state is a sequence of three effects: text passed through, a complete
  line processed, and the bookkeeping of the line buffer. A transitive relation that each of them
  keeps, for the lines \<open>ok_line\<close> admits, is kept by every block of output.
\<close>

locale writer_relation =
  fixes h :: "'r host" and wr :: "'s write_fun"
    and R :: "('r, 's) workflowCommandWriter \<Rightarrow> ('r, 's) workflowCommandWriter \<Rightarrow> bool"
    and ok_line :: "string \<Rightarrow> bool"
  assumes rel_refl: "R w w"
    and rel_trans: "R x y \<Longrightarrow> R y z \<Longrightarrow> R x z"
    and rel_buffer: "R w (w\<lparr>cw_buffer := b\<rparr>)"
    and rel_streaming: "R w (w\<lparr>streamingLine := l\<rparr>)"
    and rel_pass: "writeUnmatched wr w d = (w', e) \<Longrightarrow> R w w'"
    and rel_line: "ok_line raw \<Longrightarrow> processLine h wr w raw True = (w', e) \<Longrightarrow> R w w'"
begin

lemma rel_pass_buffer: "writeUnmatched wr (w\<lparr>cw_buffer := b\<rparr>) d = (w', e) \<Longrightarrow> R w w'"
  using rel_trans [OF rel_buffer rel_pass] .

lemma rel_pass_two:
  "cw_then (writeUnmatched wr w a) (\<lambda>w. writeUnmatched wr w b) = (w', e) \<Longrightarrow> R w w'"
  by (auto simp: cw_then_eq intro: rel_pass rel_trans)

definition ok_data :: "string \<Rightarrow> string \<Rightarrow> bool" where
  "ok_data buf data \<longleftrightarrow> (\<forall>l \<in> set (str_split data [LF]). ok_line l \<and> ok_line (buf @ l))"

lemma ok_data_split:
  assumes "str_index data [LF] = Some nl" "ok_data buf data"
  shows "ok_line (buf @ take nl data)" "ok_data buf (drop (nl + 1) data)" "ok_data [] (drop (nl + 1) data)"
  using assms by (auto simp: ok_data_def str_split.simps [of data "[LF]"])

lemma streaming_block:
  assumes "data \<noteq> []" "streamingLine w" "str_index data [LF] = None" "cw_write_loop h wr w data n = (w', m, e)"
  shows "R w w'"
  using assms by (subst (asm) cw_write_loop.simps) (auto split: prod.splits option.splits intro: rel_pass)

lemma buffered_block:
  assumes "data \<noteq> []" "\<not> streamingLine w" "str_index data [LF] = None" "cw_write_loop h wr w data n = (w', m, e)"
  shows "R w w'"
proof -
  have "R w (v\<lparr>cw_buffer := b', streamingLine := True\<rparr>)"
    if "writeUnmatched wr (w\<lparr>cw_buffer := b\<rparr>) d = (v, x)" for b b' d v x
    by (rule rel_trans [OF rel_pass_buffer [OF that]], rule rel_trans [OF rel_buffer rel_streaming])
  with assms show ?thesis
    by (subst (asm) cw_write_loop.simps)
      (auto simp: Let_def split: prod.splits option.splits if_splits intro: rel_pass_buffer rel_buffer)
qed

lemma write_loop_rel:
  "ok_data (cw_buffer w) data \<Longrightarrow> cw_write_loop h wr w data n = (w', m, e) \<Longrightarrow> R w w'"
proof (induction data arbitrary: w n rule: length_induct)
  case (1 data)
  note IH = 1(1) [rule_format] and ok = 1(2) and run = 1(3)
  show ?case
  proof (cases "data = [] \<or> str_index data [LF] = None")
    case True
    with run streaming_block [OF _ _ _ run] buffered_block [OF _ _ _ run] show ?thesis
      by (cases "data = []") (auto simp: cw_write_loop.simps [of h wr w "[]"] rel_refl)
  next
    case False
    then obtain nl where ne: "data \<noteq> []" and nl: "str_index data [LF] = Some nl" by auto
    let ?rest = "drop (nl + 1) data" and ?b = "cw_buffer w @ take nl data"
    let ?w = "w\<lparr>cw_buffer := ?b\<rparr>"
    have len: "length ?rest < length data" using ne by simp
    note oks = ok_data_split [OF nl ok]
    have go: "R w w'" if "R w v" "cw_write_loop h wr (v\<lparr>cw_buffer := []\<rparr>) ?rest k = (w', m, e)" for v k
      using rel_trans [OF that(1) rel_trans [OF rel_buffer IH [OF len _ that(2)]]] oks(3) by simp
    show ?thesis
    proof (cases "streamingLine w")
      case True
      obtain v ev where v: "writeUnmatched wr w (take (nl + 1) data) = (v, ev)" by fastforce
      have "cw_buffer v = cw_buffer w" using v by (auto simp: writeUnmatched_def split: prod.splits)
      then have "R w w'" if "cw_write_loop h wr (v\<lparr>streamingLine := False\<rparr>) ?rest k = (w', m, e)" for k
        using rel_trans [OF rel_pass [OF v] rel_trans [OF rel_streaming IH [OF len _ that]]] oks(2) by simp
      with run ne True nl v rel_pass [OF v] show ?thesis
        by (subst (asm) cw_write_loop.simps) (auto split: option.splits)
    next
      case False
      obtain v ev where v: "cw_then (writeUnmatched wr ?w ?b) (\<lambda>w. writeUnmatched wr w [LF]) = (v, ev)" by fastforce
      obtain u eu where u: "processLine h wr ?w ?b True = (u, eu)" by fastforce
      have "R w v" "R w u" "R w ?w"
        using rel_trans [OF rel_buffer rel_pass_two [OF v]] rel_trans [OF rel_buffer rel_line [OF oks(1) u]]
          rel_buffer by auto
      with run ne False nl v u show ?thesis
        by (subst (asm) cw_write_loop.simps) (auto simp: Let_def split: option.splits if_splits intro: go)
    qed
  qed
qed

lemma write_rel: "ok_data (cw_buffer w) data \<Longrightarrow> cw_write h wr w data = (w', m, e) \<Longrightarrow> R w w'"
  unfolding cw_write_def by (rule write_loop_rel)

end

interpretation confined_writes: writer_relation h wr confined "\<lambda>_. True" for h wr
  by unfold_locales
    (auto intro: confined_trans writeUnmatched_confined processLine_confined)

text \<open>
  C2. Whatever a step prints, through any number of blocks and whether a write fails or not: the only
  files that change are the step's output and state files (never the environment and path files, as
  the comment on \<^verbatim>\<open>set-env\<close> asks), no mask is ever dropped, and the table of problem matchers keeps its
  bounds and never indexes a pattern that does not exist.
\<close>

theorem step_output_confined:
  assumes "cw_write h wr w data = (w', n, e)"
  shows "(\<forall>p. contents (cw_fs w') p \<noteq> contents (cw_fs w) p \<longrightarrow>
      (\<exists>f. cw_files w = Some f \<and> (p = output_file f \<or> p = state_file f))) \<and>
    set (masks (masker (cw_target w))) \<subseteq> set (masks (masker (cw_target w'))) \<and>
    (wf_matchers (matchers (state w)) \<longrightarrow> wf_matchers (matchers (state w')))"
  using confined_writes.write_rel [of w data h wr w' n e] assms
  by (simp add: confined_writes.ok_data_def confined_def)

definition demo_host :: "unit host" where
  "demo_host = \<lparr>compile = (\<lambda>_. Some ()), groupNumbers = (\<lambda>_. [0]), findMatch = (\<lambda>_ _. Inr None),
     decodeMatchers = (\<lambda>_. None), parsesTime = (\<lambda>_. False), runnerRecord = (\<lambda>_. True), quote = id\<rparr>"

definition demo_files :: commandFiles where
  "demo_files = \<lparr>environment = ''env'', output_file = ''out'', path_file = ''path'', state_file = ''state'',
     summary = ''sum''\<rparr>"

definition demo_writer :: "(unit, string) workflowCommandWriter" where
  "demo_writer = newWorkflowCommandWriter (newWorkflowCommandState False)
     \<lparr>masker = newOutputMasker [''hunter2''], target = [], buffer = []\<rparr> (Some demo_files) ''/ws''
     \<lparr>contents = [''env'' \<mapsto> [], ''out'' \<mapsto> [], ''path'' \<mapsto> [], ''state'' \<mapsto> []], refused = (\<lambda>_. False)\<rparr>"

theorem step_output_confined_witness:
  "contents (cw_fs (fst (cw_write demo_host buffer_write demo_writer
      (''::set-env name=PATH::evil'' @ [LF] @ ''::set-output name=a::1'' @ [LF])))) ''env'' = Some [] \<and>
   contents (cw_fs (fst (cw_write demo_host buffer_write demo_writer
      (''::set-env name=PATH::evil'' @ [LF] @ ''::set-output name=a::1'' @ [LF])))) ''out'' = Some (''a=1'' @ [LF])"
proof
  let ?r = "cw_write demo_host buffer_write demo_writer
      (''::set-env name=PATH::evil'' @ [LF] @ ''::set-output name=a::1'' @ [LF])"
  have "?r = (fst ?r, fst (snd ?r), snd (snd ?r))" by (simp only: prod.collapse)
  from step_output_confined [OF this]
  have "contents (cw_fs (fst ?r)) ''env'' \<noteq> contents (cw_fs demo_writer) ''env'' \<Longrightarrow>
      \<exists>f. cw_files demo_writer = Some f \<and> (''env'' = output_file f \<or> ''env'' = state_file f)"
    by blast
  moreover have "cw_files demo_writer = Some demo_files"
    by (simp add: demo_writer_def newWorkflowCommandWriter_def)
  ultimately have "contents (cw_fs (fst ?r)) ''env'' = contents (cw_fs demo_writer) ''env''"
    by (auto simp: demo_files_def)
  then show "contents (cw_fs (fst ?r)) ''env'' = Some []"
    by (simp add: demo_writer_def newWorkflowCommandWriter_def)
  show "contents (cw_fs (fst ?r)) ''out'' = Some (''a=1'' @ [LF])" by code_simp
qed

section \<open>Stopped commands\<close>

lemma same_controls_stopped: "same_controls w w' \<Longrightarrow> stoppedCommand (state w') = stoppedCommand (state w)"
  by (simp add: same_controls_def)

lemma processLine_stopped:
  assumes "stoppedCommand (state w) = token" "token \<noteq> []" "\<not> isResume (trim_suffix raw [CR]) token"
  shows "processLine h wr w raw nl = passLine h wr w raw nl"
  using assms by (auto simp: processLine_def commandsStopped_def Let_def split: option.splits)

lemma processLine_resume:
  assumes "stoppedCommand (state w) = token" "token \<noteq> []" "isResume (trim_suffix raw [CR]) token"
  shows "stoppedCommand (state (fst (processLine h wr w raw nl))) = []"
proof -
  let ?w = "w\<lparr>state := (state w)\<lparr>stoppedCommand := []\<rparr>\<rparr>"
  have "processLine h wr w raw nl = passLine h wr ?w raw nl"
    using assms by (auto simp: processLine_def commandsStopped_def Let_def split: option.splits)
  moreover have "same_controls ?w (fst (passLine h wr ?w raw nl))"
    by (rule passLine_controls [OF prod.collapse [symmetric]])
  ultimately show ?thesis by (simp add: same_controls_def)
qed

text \<open>Only \<^verbatim>\<open>Write\<close> and \<^verbatim>\<open>flush\<close> touch the line buffer.\<close>

definition same_line :: "('r, 's) workflowCommandWriter \<Rightarrow> ('r, 's) workflowCommandWriter \<Rightarrow> bool" where
  "same_line w w' \<longleftrightarrow> cw_buffer w' = cw_buffer w \<and> streamingLine w' = streamingLine w"

lemma same_line_refl [simp]: "same_line w w" "same_line w (w\<lparr>state := st\<rparr>)" "same_line (w\<lparr>state := st\<rparr>) w' = same_line w w'"
  "same_line w (w'\<lparr>state := st\<rparr>) = same_line w w'"
  by (auto simp: same_line_def)

lemma writeUnmatched_line: "same_line w (fst (writeUnmatched wr w d))"
  by (auto simp: writeUnmatched_def same_line_def split: prod.splits)

lemma cw_then_line:
  "same_line w (fst r) \<Longrightarrow> (\<And>v. same_line w v \<Longrightarrow> same_line w (fst (f v))) \<Longrightarrow> same_line w (fst (cw_then r f))"
  by (auto simp: cw_then_def split: prod.splits option.splits)

lemma same_line_writeUnmatched: "same_line w v \<Longrightarrow> same_line w (fst (writeUnmatched wr v d))"
  using writeUnmatched_line [of v wr d] by (simp add: same_line_def)

lemma writeAnnotations_line: "same_line w v \<Longrightarrow> same_line w (fst (writeAnnotations wr v as))"
  by (induction as arbitrary: v) (auto intro: cw_then_line same_line_writeUnmatched)

lemma writeFailures_line: "same_line w v \<Longrightarrow> same_line w (fst (writeFailures h wr v os))"
  by (induction os arbitrary: v) (auto intro: cw_then_line same_line_writeUnmatched)

lemma passLine_line: "same_line w v \<Longrightarrow> same_line w (fst (passLine h wr v raw nl))"
  unfolding passLine_def Let_def
  by (intro cw_then_line) (auto intro!: cw_then_line same_line_writeUnmatched writeAnnotations_line
      writeFailures_line split: prod.splits)

lemma handleCommand_line: "same_line w (fst (handleCommand h w c))"
  by (auto simp: handleCommand_def Let_def same_line_def addMasks_def appendKeyValue_def
      split: sum.splits option.splits prod.splits if_splits)

lemma processLine_line: "same_line w (fst (processLine h wr w raw nl))"
proof -
  obtain st stopped where c: "commandsStopped (state w) (trim_suffix raw [CR]) = (st, stopped)" by fastforce
  have "same_line w (fst (handleCommand h (w\<lparr>state := st\<rparr>) command))" for command
    using handleCommand_line [of "w\<lparr>state := st\<rparr>" h command] by simp
  then show ?thesis
    unfolding processLine_def c Let_def prod.case writeRenderedCommand_def
    by (auto split: option.splits prod.splits intro: passLine_line same_line_writeUnmatched)
      (metis fst_conv passLine_line)+
qed

text \<open>What a writer does with lines that are no commands: each is printed as it is and shown to the problem matchers.\<close>

primrec passLines :: "'r host \<Rightarrow> 's write_fun \<Rightarrow> ('r, 's) workflowCommandWriter \<Rightarrow> string list \<Rightarrow> ('r, 's) cw_result" where
  "passLines h wr w [] = (w, None)"
| "passLines h wr w (l # ls) = cw_then (passLine h wr w l True) (\<lambda>w. passLines h wr w ls)"

lemma passLines_controls: "passLines h wr w ls = (w', e) \<Longrightarrow> same_controls w w'"
proof (induction ls arbitrary: w)
  case (Cons l ls)
  show ?case
    by (rule cw_then_controls [OF Cons.prems [unfolded passLines.simps]])
      (auto intro: Cons.IH passLine_controls [OF prod.collapse [symmetric]])
qed simp

text \<open>The line buffer plays no part in passing a line.\<close>

definition with_buffer :: "string \<Rightarrow> ('r, 's) cw_result \<Rightarrow> ('r, 's) cw_result" where
  "with_buffer b r = (case r of (w, e) \<Rightarrow> (w\<lparr>cw_buffer := b\<rparr>, e))"

lemma writeUnmatched_buffer: "writeUnmatched wr (w\<lparr>cw_buffer := b\<rparr>) d = with_buffer b (writeUnmatched wr w d)"
  by (simp add: writeUnmatched_def with_buffer_def split: prod.split)

lemma cw_then_buffer:
  "(\<And>w. f (w\<lparr>cw_buffer := b\<rparr>) = with_buffer b (f w)) \<Longrightarrow> cw_then (with_buffer b r) f = with_buffer b (cw_then r f)"
  by (cases r) (simp add: cw_then_def with_buffer_def split: option.split)

lemma no_write_buffer: "(w\<lparr>cw_buffer := b\<rparr>, None) = with_buffer b (w, None)"
  by (simp add: with_buffer_def)

lemma if_buffer: "(if c then with_buffer b r else with_buffer b q) = with_buffer b (if c then r else q)"
  by simp

lemma writeAnnotations_buffer: "writeAnnotations wr (w\<lparr>cw_buffer := b\<rparr>) as = with_buffer b (writeAnnotations wr w as)"
proof (induction as arbitrary: w)
  case (Cons a as)
  have "cw_mask (w\<lparr>cw_buffer := b\<rparr>) = cw_mask w" by (simp add: cw_mask_def)
  then show ?case by (simp add: writeUnmatched_buffer cw_then_buffer Cons.IH)
qed (simp add: with_buffer_def)

lemma writeFailures_buffer: "writeFailures h wr (w\<lparr>cw_buffer := b\<rparr>) os = with_buffer b (writeFailures h wr w os)"
proof (induction os arbitrary: w)
  case (Cons a as)
  have "cw_mask (w\<lparr>cw_buffer := b\<rparr>) = cw_mask w" by (simp add: cw_mask_def)
  then show ?case by (simp add: writeUnmatched_buffer cw_then_buffer Cons.IH)
qed (simp add: with_buffer_def)

lemma passLine_buffer: "passLine h wr (w\<lparr>cw_buffer := b\<rparr>) raw nl = with_buffer b (passLine h wr w raw nl)"
proof -
  have tail: "(case matchers_match h (matchers (state (v\<lparr>cw_buffer := b\<rparr>))) (trim_suffix raw [CR]) of (ms, annotations, failed) \<Rightarrow>
        cw_then (writeAnnotations wr (v\<lparr>cw_buffer := b, state := (state (v\<lparr>cw_buffer := b\<rparr>))\<lparr>matchers := ms\<rparr>\<rparr>) annotations)
          (\<lambda>w. writeFailures h wr w failed)) =
      with_buffer b (case matchers_match h (matchers (state v)) (trim_suffix raw [CR]) of (ms, annotations, failed) \<Rightarrow>
        cw_then (writeAnnotations wr (v\<lparr>state := (state v)\<lparr>matchers := ms\<rparr>\<rparr>) annotations)
          (\<lambda>w. writeFailures h wr w failed))" for v
  proof -
    have "writeAnnotations wr (v\<lparr>cw_buffer := b, state := st\<rparr>) as = with_buffer b (writeAnnotations wr (v\<lparr>state := st\<rparr>) as)" for st :: "_ workflowCommandState" and as
    proof -
      have "v\<lparr>cw_buffer := b, state := st\<rparr> = v\<lparr>state := st, cw_buffer := b\<rparr>" by simp
      then show ?thesis by (simp only: writeAnnotations_buffer)
    qed
    then show ?thesis by (simp add: writeFailures_buffer cw_then_buffer split: prod.split)
  qed
  show ?thesis
    unfolding passLine_def Let_def writeUnmatched_buffer no_write_buffer if_buffer
    by (intro cw_then_buffer) (simp only: writeUnmatched_buffer no_write_buffer if_buffer, intro cw_then_buffer,
      simp only: writeUnmatched_buffer no_write_buffer if_buffer, intro cw_then_buffer, rule tail)
qed

lemma stopped_loop:
  assumes "stoppedCommand (state w) = token" "token \<noteq> []" "cw_buffer w = []" "\<not> streamingLine w"
    and "list_all (\<lambda>l. LF \<notin> set l \<and> length l \<le> maxWorkflowCommandBytes \<and> \<not> isResume (trim_suffix l [CR]) token) ls"
    and "cw_write_loop h wr w (concat (map (\<lambda>l. l @ [LF]) ls)) n = (w', m, e)"
  shows "passLines h wr w ls = (w'\<lparr>cw_buffer := []\<rparr>, e)"
  using assms
proof (induction ls arbitrary: w n)
  case Nil
  then show ?case by (simp add: cw_write_loop.simps [of h wr w "[]"])
next
  case (Cons l ls)
  let ?rest = "concat (map (\<lambda>l. l @ [LF]) ls)"
  from Cons.prems(5) have l: "LF \<notin> set l" "length l \<le> maxWorkflowCommandBytes" "\<not> isResume (trim_suffix l [CR]) token" by simp_all
  then have index: "str_index (l @ LF # ?rest) [LF] = Some (length l)" by (rule_tac str_index_single_append)
  obtain v ev where v: "passLine h wr w l True = (v, ev)" by fastforce
  have line: "processLine h wr (w\<lparr>cw_buffer := l\<rparr>) l True = (v\<lparr>cw_buffer := l\<rparr>, ev)"
    using processLine_stopped [of "w\<lparr>cw_buffer := l\<rparr>" token l h wr True] Cons.prems(1,2) l(3) v
    by (simp add: passLine_buffer with_buffer_def)
  have run: "cw_write_loop h wr w (l @ LF # ?rest) n =
      (case ev of Some e \<Rightarrow> (v\<lparr>cw_buffer := l\<rparr>, n + length l + 1, Some e)
       | None \<Rightarrow> cw_write_loop h wr (v\<lparr>cw_buffer := []\<rparr>) ?rest (n + length l + 1))"
    using Cons.prems(3,4) l(2) index line by (subst cw_write_loop.simps) (simp add: Let_def split: option.split)
  have same: "same_controls w v" "same_line w v"
    using passLine_controls [OF v] passLine_line [of w w h wr l True] v by simp_all
  then have v': "v\<lparr>cw_buffer := []\<rparr> = v" using Cons.prems(3) by (simp add: same_line_def)
  show ?case
  proof (cases ev)
    case None
    have "passLines h wr v ls = (w'\<lparr>cw_buffer := []\<rparr>, e)"
      using Cons.IH [of v] Cons.prems same run None v' by (simp add: same_controls_def same_line_def)
    with v None show ?thesis by (simp add: cw_then_def)
  next
    case (Some x)
    with run Cons.prems(6) v v' show ?thesis by (auto simp: cw_then_def)
  qed
qed

text \<open>
  C33. After \<^verbatim>\<open>stop-commands\<close> no line acts as a command. Write complete lines of at most 64 KiB, none of which is the resume
  command with the same token: the result, errors of the output included, is the one of passing every line through as ordinary output,
  so that commands are neither carried out nor rendered nor dropped. Files, masks and the debug setting stay the same and commands
  stay stopped; whatever line then resumes with the token enables them again.
\<close>

theorem stopped_commands_do_nothing:
  assumes "stoppedCommand (state w) = token" "token \<noteq> []" "cw_buffer w = []" "\<not> streamingLine w"
    and "list_all (\<lambda>l. LF \<notin> set l \<and> length l \<le> maxWorkflowCommandBytes \<and> \<not> isResume (trim_suffix l [CR]) token) ls"
    and "cw_write h wr w (concat (map (\<lambda>l. l @ [LF]) ls)) = (w', n, e)"
  shows "passLines h wr w ls = (w'\<lparr>cw_buffer := []\<rparr>, e) \<and>
    cw_fs w' = cw_fs w \<and> masker (cw_target w') = masker (cw_target w) \<and>
    stoppedCommand (state w') = token \<and> stepDebug (state w') = stepDebug (state w) \<and>
    (\<forall>raw. isResume (trim_suffix raw [CR]) token \<longrightarrow> stoppedCommand (state (fst (processLine h wr w' raw True))) = [])"
proof -
  have pass: "passLines h wr w ls = (w'\<lparr>cw_buffer := []\<rparr>, e)"
    using stopped_loop [OF assms(1-5)] assms(6) unfolding cw_write_def .
  from passLines_controls [OF this] have same: "same_controls w w'" by simp
  then have "stoppedCommand (state w') = token" using assms(1) by (simp add: same_controls_def)
  with pass same processLine_resume [OF _ assms(2), of w' _ h wr True] show ?thesis
    by (simp add: same_controls_def)
qed

theorem stopped_commands_do_nothing_witness:
  "let w = demo_writer\<lparr>state := stopCommands (state demo_writer) ''tok''\<rparr>;
       ls = [''::add-mask::x'', ''::debug::y'', ''::set-output name=a::1''];
       r = cw_write demo_host buffer_write w (concat (map (\<lambda>l. l @ [LF]) ls))
   in passLines demo_host buffer_write w ls = ((fst r)\<lparr>cw_buffer := []\<rparr>, snd (snd r)) \<and> masker (cw_target (fst r)) = masker (cw_target w) \<and>
      stoppedCommand (state (fst (processLine demo_host buffer_write (fst r) ''::tok::'' True))) = []"
proof -
  let ?w = "demo_writer\<lparr>state := stopCommands (state demo_writer) ''tok''\<rparr>"
  let ?ls = "[''::add-mask::x'', ''::debug::y'', ''::set-output name=a::1'']"
  let ?r = "cw_write demo_host buffer_write ?w (concat (map (\<lambda>l. l @ [LF]) ?ls))"
  have 1: "stoppedCommand (state ?w) = ''tok''" "cw_buffer ?w = []" "\<not> streamingLine ?w"
    by (simp_all add: stopCommands_def demo_writer_def newWorkflowCommandWriter_def)
  have r: "?r = (fst ?r, fst (snd ?r), snd (snd ?r))" by (simp only: prod.collapse)
  have 2: "list_all (\<lambda>l. LF \<notin> set l \<and> length l \<le> maxWorkflowCommandBytes \<and> \<not> isResume (trim_suffix l [CR]) ''tok'') ?ls" by code_simp
  have 3: "isResume (trim_suffix ''::tok::'' [CR]) ''tok''" by code_simp
  show ?thesis
    using stopped_commands_do_nothing [OF 1(1) _ 1(2,3) 2 r] 3 unfolding Let_def by blast
qed

section \<open>Blocks do not matter\<close>

lemma str_index_append_left: "str_index a [c] = Some i \<Longrightarrow> str_index (a @ b) [c] = Some i"
  by (rule str_index_extend)

lemma str_index_append_right:
  "str_index a [c] = None \<Longrightarrow> str_index (a @ b) [c] = map_option (\<lambda>i. length a + i) (str_index b [c])"
  by (cases "str_index b [c]"; induction a; auto split: if_splits)

lemma cw_write_loop_append:
  assumes "\<not> streamingLine w" "\<forall>l \<in> set (str_split (a @ b) [LF]). length (cw_buffer w @ l) \<le> maxWorkflowCommandBytes"
  shows "cw_write_loop h wr w (a @ b) k =
    (case cw_write_loop h wr w a k of
       (w1, n, Some e) \<Rightarrow> (w1, n, Some e)
     | (w1, n, None) \<Rightarrow> cw_write_loop h wr w1 b n)"
  using assms
proof (induction a arbitrary: w k rule: length_induct)
  case (1 a)
  note IH = 1(1) [rule_format] and nostream = 1(2) and short = 1(3)
  consider "a = []" | "a \<noteq> []" "str_index a [LF] = None" | i where "a \<noteq> []" "str_index a [LF] = Some i"
    by (cases "str_index a [LF]") auto
  then show ?case
  proof cases
    case 1
    then show ?thesis by (simp add: cw_write_loop.simps [of h wr w "[]"])
  next
    case 2
    have "length (cw_buffer w @ a) \<le> maxWorkflowCommandBytes"
    proof (cases "str_index b [LF]")
      case None
      then have "str_split (a @ b) [LF] = [a @ b]"
        using 2 str_index_append_right [OF 2(2), of b] by (subst str_split.simps) simp
      with short show ?thesis by simp
    next
      case (Some j)
      then have "a @ take j b \<in> set (str_split (a @ b) [LF])"
        using str_index_append_right [OF 2(2), of b] by (subst str_split.simps) simp
      with short have "length (cw_buffer w @ a @ take j b) \<le> maxWorkflowCommandBytes" by blast
      then show ?thesis by simp
    qed
    then have a: "cw_write_loop h wr w a k = (w\<lparr>cw_buffer := cw_buffer w @ a\<rparr>, k + length a, None)"
      using 2 nostream by (subst cw_write_loop.simps) simp
    show ?thesis
    proof (cases "b = []")
      case True
      with a show ?thesis by (simp add: cw_write_loop.simps [of h wr _ "[]"])
    next
      case False
      with 2 nostream show ?thesis
        unfolding a by (subst (1 2) cw_write_loop.simps)
          (simp add: str_index_append_right add.assoc Let_def split: option.split)
    qed
  next
    case (3 i)
    let ?w = "w\<lparr>cw_buffer := cw_buffer w @ take i a\<rparr>"
    have i: "i < length a" using str_index_single [OF 3(2)] by simp
    have ab: "str_index (a @ b) [LF] = Some i" by (rule str_index_append_left [OF 3(2)])
    then have split: "str_split (a @ b) [LF] = take i a # str_split (drop (i + 1) a @ b) [LF]"
      using i by (subst str_split.simps) simp
    obtain u eu where u: "processLine h wr ?w (cw_buffer w @ take i a) True = (u, eu)" by fastforce
    have "\<not> streamingLine u" using processLine_line [of ?w h wr "cw_buffer w @ take i a" True] u nostream
      by (simp add: same_line_def)
    then have rest: "cw_write_loop h wr (u\<lparr>cw_buffer := []\<rparr>) (drop (i + 1) a @ b) n =
      (case cw_write_loop h wr (u\<lparr>cw_buffer := []\<rparr>) (drop (i + 1) a) n of
         (w1, n, Some e) \<Rightarrow> (w1, n, Some e)
       | (w1, n, None) \<Rightarrow> cw_write_loop h wr w1 b n)" for n
      using short 3 split by (intro IH) auto
    have fit: "length (cw_buffer w @ take i a) \<le> maxWorkflowCommandBytes" using short split by auto
    have ih: "cw_write_loop h wr w c k = (case eu of Some e \<Rightarrow> (u, k + i + 1, Some e)
        | None \<Rightarrow> cw_write_loop h wr (u\<lparr>cw_buffer := []\<rparr>) (drop (i + 1) c) (k + i + 1))"
      if "c \<noteq> []" "str_index c [LF] = Some i" "take i c = take i a" for c
      using that nostream u fit by (subst cw_write_loop.simps) (cases eu; simp add: Let_def)
    show ?thesis
      using ih [OF 3 refl] ih [of "a @ b"] 3 ab i rest by (auto split: option.splits)
  qed
qed

lemma cw_write_loop_count:
  "cw_write_loop h wr w data (k + n) = (case cw_write_loop h wr w data n of (w', m, e) \<Rightarrow> (w', k + m, e))"
proof (induction data arbitrary: w n rule: length_induct)
  case (1 data)
  show ?case
  proof (cases "str_index data [LF]")
    case None
    let ?w = "w\<lparr>cw_buffer := cw_buffer w @ data\<rparr>"
    obtain s es where s: "writeUnmatched wr w data = (s, es)" by fastforce
    obtain v ev where v: "writeUnmatched wr ?w (cw_buffer ?w) = (v, ev)" by fastforce
    have L: "cw_write_loop h wr w data n =
        (if data = [] then (w, n, None)
         else if streamingLine w then
           (case es of Some e \<Rightarrow> (s, n, Some e) | None \<Rightarrow> (s, n + length data, None))
         else if length (cw_buffer ?w) > maxWorkflowCommandBytes then
           if supportedWorkflowCommandLine (cw_buffer ?w) then (?w, n + length data, Some WorkflowCommandTooLong)
           else (case ev of Some e \<Rightarrow> (v, n + length data, Some e)
            | None \<Rightarrow> (v\<lparr>cw_buffer := [], streamingLine := True\<rparr>, n + length data, None))
         else (?w, n + length data, None))" for n
      by (subst cw_write_loop.simps) (use None s v in \<open>simp add: Let_def\<close>)
    show ?thesis unfolding L by (simp split: option.split)
  next
    case (Some i)
    then have i: "data \<noteq> []" "str_index data [LF] = Some i" by auto
    let ?w = "w\<lparr>cw_buffer := cw_buffer w @ take i data\<rparr>"
    obtain s es where s: "writeUnmatched wr w (take (i + 1) data) = (s, es)" by fastforce
    obtain v ev where v: "cw_then (writeUnmatched wr ?w (cw_buffer ?w)) (\<lambda>w. writeUnmatched wr w [LF]) = (v, ev)" by fastforce
    obtain u eu where u: "processLine h wr ?w (cw_buffer ?w) True = (u, eu)" by fastforce
    have IH: "cw_write_loop h wr x (drop (i + 1) data) (k + n + i + 1) =
        (case cw_write_loop h wr x (drop (i + 1) data) (n + i + 1) of (w', m, e) \<Rightarrow> (w', k + m, e))" for x
      using 1 [rule_format, of "drop (i + 1) data" x "n + i + 1"] i(1) by (simp add: add.assoc)
    have L: "cw_write_loop h wr w data n =
        (if streamingLine w then
           (case es of Some e \<Rightarrow> (s, n, Some e)
            | None \<Rightarrow> cw_write_loop h wr (s\<lparr>streamingLine := False\<rparr>) (drop (i + 1) data) (n + i + 1))
         else if length (cw_buffer ?w) > maxWorkflowCommandBytes then
           if supportedWorkflowCommandLine (cw_buffer ?w) then (?w, n + i + 1, Some WorkflowCommandTooLong)
           else (case ev of Some e \<Rightarrow> (v, n + i + 1, Some e)
            | None \<Rightarrow> cw_write_loop h wr (v\<lparr>cw_buffer := []\<rparr>) (drop (i + 1) data) (n + i + 1))
         else (case eu of Some e \<Rightarrow> (u, n + i + 1, Some e)
            | None \<Rightarrow> cw_write_loop h wr (u\<lparr>cw_buffer := []\<rparr>) (drop (i + 1) data) (n + i + 1)))" for n
      by (subst cw_write_loop.simps) (use i s v u in \<open>simp add: Let_def split: option.split\<close>)
    show ?thesis unfolding L using IH by (simp split: option.split)
  qed
qed

text \<open>
  How the output of a step is cut into blocks does not matter: as long as no line is longer than
  the limit, writing two blocks leaves the same state and reports the same result as writing their
  concatenation, also when a command is split over the blocks or a write fails.
\<close>

theorem blocks_do_not_matter:
  assumes "\<not> streamingLine w" "\<forall>l \<in> set (str_split (a @ b) [LF]). length (cw_buffer w @ l) \<le> maxWorkflowCommandBytes"
  shows "cw_write h wr w (a @ b) =
    (case cw_write h wr w a of
       (w1, n, Some e) \<Rightarrow> (w1, n, Some e)
     | (w1, n, None) \<Rightarrow> (case cw_write h wr w1 b of (w2, m, e) \<Rightarrow> (w2, n + m, e)))"
proof -
  obtain w1 n e where a: "cw_write_loop h wr w a 0 = (w1, n, e)" by (cases "cw_write_loop h wr w a 0")
  show ?thesis
    using cw_write_loop_append [OF assms, of h wr 0] cw_write_loop_count [of h wr w1 b n 0]
    unfolding cw_write_def a by (cases e) simp_all
qed

theorem blocks_do_not_matter_witness:
  "cw_write demo_host buffer_write demo_writer (''::set-out'' @ ''put name=a::1'' @ [LF]) =
    (case cw_write demo_host buffer_write demo_writer ''::set-out'' of
       (w1, n, Some e) \<Rightarrow> (w1, n, Some e)
     | (w1, n, None) \<Rightarrow> (case cw_write demo_host buffer_write w1 (''put name=a::1'' @ [LF]) of
         (w2, m, e) \<Rightarrow> (w2, n + m, e)))"
proof (rule blocks_do_not_matter)
  show "\<not> streamingLine demo_writer" by (simp add: demo_writer_def newWorkflowCommandWriter_def)
  have "list_all (\<lambda>l. length (cw_buffer demo_writer @ l) \<le> maxWorkflowCommandBytes)
      (str_split (''::set-out'' @ ''put name=a::1'' @ [LF]) [LF])" by code_simp
  then show "\<forall>l \<in> set (str_split (''::set-out'' @ ''put name=a::1'' @ [LF]) [LF]).
      length (cw_buffer demo_writer @ l) \<le> maxWorkflowCommandBytes" by (simp only: list_all_iff)
qed

end
