(* ===== verification/RunApi.thy ===== *)
theory RunApi
  imports Prelude
begin

text \<open>
  The part of the API objects \<^verbatim>\<open>WorkflowRun\<close> and \<^verbatim>\<open>WorkflowJob\<close>
  (\<^verbatim>\<open>src/api/v1alpha1/workflowrun_types.go\<close>, \<^verbatim>\<open>workflowjob_types.go\<close>) that the run logic reads and
  writes, and the statuses derived from it (\<^verbatim>\<open>src/internal/workflowstatus/status.go\<close>, the approval
  rules of \<^verbatim>\<open>src/internal/workflowrun/approval.go\<close> and the result functions of
  \<^verbatim>\<open>src/internal/controller/workflowrun_controller.go\<close>).

  Conditions are a list keyed by the condition type, as the markers \<^verbatim>\<open>+listType=map\<close> and
  \<^verbatim>\<open>+listMapKey=type\<close> on the fields declare, and so an association list; finding a condition is a look-up and
  setting one an update. Times are integers. Enumerations that the schema validates are datatypes.
\<close>

section \<open>Objects\<close>

datatype condition_status = ConditionTrue | ConditionFalse | ConditionUnknown

record condition =
  Status :: condition_status
  Reason :: string
  Message :: string

type_synonym conditions = "(string \<times> condition) list"

definition find_condition :: "conditions \<Rightarrow> string \<Rightarrow> condition option" where
  "find_condition cs t = map_of cs t"

definition set_condition :: "conditions \<Rightarrow> string \<Rightarrow> condition_status \<Rightarrow> string \<Rightarrow> string \<Rightarrow> conditions" where
  "set_condition cs t status reason msg = AList.update t \<lparr>Status = status, Reason = reason, Message = msg\<rparr> cs"

datatype job_result = NoResult | Success | Failure | Skipped | Cancelled

record ConcurrencyStatus =
  Group :: string
  CancelInProgress :: bool

record WorkflowJobMatrix =
  LogicalJobID :: string
  JobIndex :: int
  JobTotal :: int
  MaxParallel :: int
  FailFast :: "bool option"

record WorkflowJob =
  job_name :: string
  job_uid :: string
  job_run_label :: string
  WorkflowRunRef :: string
  JobID :: string
  Needs :: "string list"
  If :: string
  ContinueOnError :: bool
  job_concurrency_policy :: "string option"
  Matrix :: "WorkflowJobMatrix option"
  Result :: job_result
  RunnerRef :: "string option"
  job_start :: "int option"
  job_completion :: "int option"
  Outputs :: "(string \<times> string) list"
  job_concurrency :: "ConcurrencyStatus option"
  job_conditions :: conditions

record GitHubSource =
  RepositoryID :: int
  RepositoryName :: string
  EventName :: string
  Revision :: string

record RunReference =
  ref_name :: string
  ref_uid :: string

record WorkflowRunRerun =
  OriginalRunRef :: RunReference
  PreviousRunRef :: RunReference
  Attempt :: int
  JobIDs :: "string list"

record ForkPullRequest =
  RequireApproval :: bool
  fork_approved :: bool
  SendWriteTokens :: bool
  SendSecrets :: bool

record WorkflowRunSpec =
  ProjectRef :: string
  Source :: "GitHubSource option"
  WorkflowPath :: string
  fork_pull_request :: "ForkPullRequest option"
  Approval :: "bool option"
  CancelRequested :: bool
  Rerun :: "WorkflowRunRerun option"
  TTLSecondsAfterFinished :: "int option"

record WorkflowRunJobStatus =
  Total :: int
  Waiting :: int
  Queued :: int
  Active :: int
  SucceededJobs :: int
  FailedJobs :: int
  TimedOut :: int
  SkippedJobs :: int
  CancelledJobs :: int

record WorkflowRun =
  run_name :: string
  run_namespace :: string
  run_uid :: string
  run_created :: int
  run_labels :: "(string \<times> string) list"
  run_annotations :: "(string \<times> string) list"
  Spec :: WorkflowRunSpec
  run_concurrency :: "ConcurrencyStatus option"
  ConcurrencyGroup :: string
  WorkflowName :: string
  Jobs :: "WorkflowRunJobStatus option"
  run_start :: "int option"
  run_completion :: "int option"
  run_conditions :: conditions

section \<open>Results of a job\<close>

definition workflowJobResult :: "WorkflowJob \<Rightarrow> job_result" where
  "workflowJobResult job =
     (if Result job \<noteq> NoResult then Result job
      else case find_condition (job_conditions job) ''Succeeded'' of
        None \<Rightarrow> NoResult
      | Some c \<Rightarrow>
          (case Status c of
             ConditionTrue \<Rightarrow> Success
           | ConditionFalse \<Rightarrow> Failure
           | ConditionUnknown \<Rightarrow> NoResult))"

definition workflowJobTerminal :: "WorkflowJob \<Rightarrow> bool" where
  "workflowJobTerminal job \<longleftrightarrow> workflowJobResult job \<noteq> NoResult"

definition workflowJobTimedOut :: "WorkflowJob \<Rightarrow> bool" where
  "workflowJobTimedOut job =
     (case find_condition (job_conditions job) ''Succeeded'' of
        None \<Rightarrow> False | Some c \<Rightarrow> Status c = ConditionFalse \<and> Reason c = ''JobTimedOut'')"

definition workflowJobEffectiveResult :: "WorkflowJob \<Rightarrow> job_result" where
  "workflowJobEffectiveResult job =
     (let result = workflowJobResult job
      in if result = Failure \<and> ContinueOnError job \<and> \<not> workflowJobTimedOut job then Success else result)"

definition workflowJobReadyCondition :: "WorkflowJob \<Rightarrow> bool" where
  "workflowJobReadyCondition job =
     (case find_condition (job_conditions job) ''Ready'' of None \<Rightarrow> False | Some c \<Rightarrow> Status c = ConditionTrue)"

definition workflowJobReady :: "WorkflowJob \<Rightarrow> bool" where
  "workflowJobReady job \<longleftrightarrow> workflowJobReadyCondition job \<or>
     job_concurrency_policy job = None \<and> length (Needs job) = 0 \<and> trim_space (If job) = []"

definition workflowJobCancelledByMatrixFailFast :: "WorkflowJob \<Rightarrow> bool" where
  "workflowJobCancelledByMatrixFailFast job \<longleftrightarrow>
     workflowJobResult job = Cancelled \<and> list_ex (\<lambda>(t, c). Reason c = ''MatrixFailFast'') (job_conditions job)"

section \<open>Completing and marking jobs\<close>

definition setWorkflowJobCancellationRequested :: "WorkflowJob \<Rightarrow> bool \<Rightarrow> string \<Rightarrow> string \<Rightarrow> WorkflowJob" where
  "setWorkflowJobCancellationRequested job requested reason msg =
     job\<lparr>job_conditions := set_condition (job_conditions job) ''CancellationRequested''
        (if requested then ConditionTrue else ConditionFalse) reason msg\<rparr>"

definition setWorkflowJobWaiting :: "WorkflowJob \<Rightarrow> WorkflowJob" where
  "setWorkflowJobWaiting job =
     job\<lparr>job_conditions := set_condition (job_conditions job) ''Ready'' ConditionUnknown
        ''DependenciesPending'' ''Required WorkflowJobs have not reached terminal results''\<rparr>"

definition setWorkflowJobReady :: "WorkflowJob \<Rightarrow> WorkflowJob" where
  "setWorkflowJobReady job =
     job\<lparr>job_conditions := set_condition (job_conditions job) ''Ready'' ConditionTrue
        ''ConditionPassed'' ''The workflow job is ready for Runner assignment''\<rparr>"

definition persistWorkflowJobConcurrencyDecision :: "WorkflowJob \<Rightarrow> string \<Rightarrow> bool \<Rightarrow> WorkflowJob" where
  "persistWorkflowJobConcurrencyDecision job grp cancelInProgress =
     job\<lparr>job_concurrency := Some \<lparr>Group = grp, CancelInProgress = cancelInProgress\<rparr>\<rparr>"

definition setWorkflowJobConcurrencyState :: "WorkflowJob \<Rightarrow> bool \<Rightarrow> string + WorkflowJob" where
  "setWorkflowJobConcurrencyState job acquired =
     (if job_concurrency job = None then Inl ''no evaluated concurrency policy''
      else
        (let (status, reason, msg) =
               (if acquired then (ConditionTrue, ''ConcurrencyAcquired'', ''The workflow job owns the concurrency group'')
                else (ConditionUnknown, ''WaitingForConcurrency'', ''The workflow job is waiting for the concurrency group''));
             cs = set_condition (job_conditions job) ''ConcurrencyAcquired'' status reason msg
         in Inr (job\<lparr>job_conditions := set_condition cs ''Ready'' status reason msg\<rparr>)))"

definition completeUnscheduledWorkflowJob ::
  "int \<Rightarrow> WorkflowJob \<Rightarrow> job_result \<Rightarrow> string \<Rightarrow> string \<Rightarrow> WorkflowJob" where
  "completeUnscheduledWorkflowJob now job result reason msg =
     (let cs = set_condition (job_conditions job) ''Ready'' ConditionFalse reason msg;
          cs = (if reason = ''ConcurrencySuperseded''
                then set_condition cs ''ConcurrencyAcquired'' ConditionFalse reason msg else cs);
          cs = set_condition cs ''Scheduled'' ConditionFalse reason
                 ''The workflow job completed without Runner assignment'';
          cs = (if result = Failure then set_condition cs ''Succeeded'' ConditionFalse reason msg else cs)
      in job\<lparr>Result := result, job_completion := Some now, job_conditions := cs\<rparr>)"

section \<open>User-facing status\<close>

definition run_status :: "WorkflowRun \<Rightarrow> string" where
  "run_status run =
     (let cond = find_condition (run_conditions run) ''Succeeded''
      in if CancelRequested (Spec run) \<and>
            (case cond of None \<Rightarrow> True | Some c \<Rightarrow> Status c = ConditionUnknown) then ''Cancelling''
         else case cond of
           None \<Rightarrow>
             (case find_condition (run_conditions run) ''Approved'' of
                Some a \<Rightarrow> if Status a = ConditionFalse \<and> Reason a = ''ApprovalRequired''
                          then ''Awaiting approval'' else ''Queued''
              | None \<Rightarrow> ''Queued'')
         | Some c \<Rightarrow>
             (case Status c of
                ConditionTrue \<Rightarrow> ''Succeeded''
              | ConditionFalse \<Rightarrow>
                  if Reason c = ''JobCancelled'' \<or> Reason c = ''RevisionSuperseded'' then ''Cancelled''
                  else if Reason c = ''JobTimedOut'' then ''Timed out'' else ''Failed''
              | ConditionUnknown \<Rightarrow> if run_start run \<noteq> None then ''Running'' else ''Queued''))"

definition job_status :: "WorkflowJob \<Rightarrow> string" where
  "job_status job =
     (let cond = find_condition (job_conditions job) ''Succeeded''
      in if (case cond of None \<Rightarrow> False | Some c \<Rightarrow> Status c = ConditionFalse \<and> Reason c = ''JobTimedOut'')
         then ''Timed out''
         else case Result job of
           Success \<Rightarrow> ''Succeeded''
         | Failure \<Rightarrow> ''Failed''
         | Skipped \<Rightarrow> ''Skipped''
         | Cancelled \<Rightarrow> ''Cancelled''
         | NoResult \<Rightarrow>
             if (case cond of None \<Rightarrow> False | Some c \<Rightarrow> Status c = ConditionTrue) then ''Succeeded''
             else if (case cond of None \<Rightarrow> False | Some c \<Rightarrow> Status c = ConditionFalse) then ''Failed''
             else if (case find_condition (job_conditions job) ''CancellationRequested'' of
                        None \<Rightarrow> False | Some c \<Rightarrow> Status c = ConditionTrue) then ''Cancelling''
             else if job_start job \<noteq> None then ''Running''
             else if (case find_condition (job_conditions job) ''Ready'' of
                        None \<Rightarrow> False | Some c \<Rightarrow> Status c \<noteq> ConditionTrue) then ''Waiting''
             else ''Queued'')"

definition JobTerminal :: "WorkflowJob \<Rightarrow> bool" where
  "JobTerminal job =
     (if Result job \<noteq> NoResult then True
      else case find_condition (job_conditions job) ''Succeeded'' of
        None \<Rightarrow> False | Some c \<Rightarrow> Status c \<noteq> ConditionUnknown)"

definition terminalRun :: "WorkflowRun \<Rightarrow> bool" where
  "terminalRun run =
     (case find_condition (run_conditions run) ''Succeeded'' of
        None \<Rightarrow> False | Some c \<Rightarrow> Status c = ConditionTrue \<or> Status c = ConditionFalse)"

definition terminal_statuses :: "string set" where
  "terminal_statuses = {''Succeeded'', ''Failed'', ''Skipped'', ''Cancelled'', ''Timed out''}"

section \<open>Approval\<close>

definition RequiresApproval :: "WorkflowRun \<Rightarrow> bool" where
  "RequiresApproval run \<longleftrightarrow> Approval (Spec run) \<noteq> None \<or>
     (case fork_pull_request (Spec run) of None \<Rightarrow> False | Some p \<Rightarrow> RequireApproval p)"

definition AwaitingApproval :: "WorkflowRun \<Rightarrow> bool" where
  "AwaitingApproval run \<longleftrightarrow>
     (case Approval (Spec run) of None \<Rightarrow> False | Some approved \<Rightarrow> \<not> approved) \<or>
     (case fork_pull_request (Spec run) of None \<Rightarrow> False | Some p \<Rightarrow> RequireApproval p \<and> \<not> fork_approved p)"

definition Approve :: "WorkflowRun \<Rightarrow> WorkflowRun" where
  "Approve run =
     (let spec = Spec run;
          spec = (if Approval spec \<noteq> None then spec\<lparr>Approval := Some True\<rparr> else spec);
          spec = (case fork_pull_request spec of
                    Some p \<Rightarrow> if RequireApproval p
                              then spec\<lparr>fork_pull_request := Some (p\<lparr>fork_approved := True\<rparr>)\<rparr> else spec
                  | None \<Rightarrow> spec)
      in run\<lparr>Spec := spec\<rparr>)"

section \<open>Agreement of the status functions\<close>

lemma terminal_job_agree: "workflowJobTerminal job = JobTerminal job"
  by (auto simp: workflowJobTerminal_def workflowJobResult_def JobTerminal_def
      split: option.splits condition_status.splits)

text \<open>
  The three views of completion agree: a job counts as terminal for the orchestration exactly
  when it does for the console, and exactly when the status shown is one of the final ones; a run is
  terminal exactly when the status shown for it is a final one.
\<close>

theorem terminal_views_agree:
  "workflowJobTerminal job = JobTerminal job \<and>
   (JobTerminal job \<longleftrightarrow> job_status job \<in> terminal_statuses) \<and>
   (terminalRun run \<longleftrightarrow> run_status run \<in> terminal_statuses)"
proof (intro conjI)
  show "JobTerminal job \<longleftrightarrow> job_status job \<in> terminal_statuses"
    by (cases "find_condition (job_conditions job) ''Succeeded''"; cases "Result job";
        cases "Status (the (find_condition (job_conditions job) ''Succeeded''))";
        simp add: JobTerminal_def job_status_def terminal_statuses_def Let_def split: option.split)
  show "terminalRun run \<longleftrightarrow> run_status run \<in> terminal_statuses"
    by (cases "find_condition (run_conditions run) ''Succeeded''";
        cases "Status (the (find_condition (run_conditions run) ''Succeeded''))";
        simp add: terminalRun_def run_status_def terminal_statuses_def Let_def split: option.split)
qed (rule terminal_job_agree)

text \<open>
  Approving a run grants every approval it needs and nothing else: it no longer waits, it is still
  marked as one that requires approval, and a policy that does not require approval is left alone.
\<close>

theorem approve_grants_exactly:
  "\<not> AwaitingApproval (Approve run) \<and> RequiresApproval (Approve run) = RequiresApproval run \<and>
   (\<not> AwaitingApproval run \<longleftrightarrow> Approve run = run)"
proof -
  have granted: "\<not> AwaitingApproval (Approve run)"
    by (cases "Approval (Spec run)"; cases "fork_pull_request (Spec run)")
      (auto simp: AwaitingApproval_def Approve_def Let_def)
  have required: "RequiresApproval (Approve run) = RequiresApproval run"
    by (cases "Approval (Spec run)"; cases "fork_pull_request (Spec run)")
      (auto simp: Approve_def RequiresApproval_def Let_def)
  have same: "Approve run = run" if "\<not> AwaitingApproval run"
    using that by (cases "Approval (Spec run)"; cases "fork_pull_request (Spec run)")
      (auto simp: AwaitingApproval_def Approve_def Let_def)
  have "\<not> AwaitingApproval run" if "Approve run = run"
    using granted unfolding that .
  with granted required same show ?thesis by blast
qed

end
