(* ===== verification/Rerun.thy ===== *)
theory Rerun
  imports RunApi
begin

text \<open>
  Attempts of a workflow run, \<^verbatim>\<open>src/internal/workflowrun/rerun.go\<close>: the lineage of attempts, the jobs
  a rerun selects with their transitive dependents, the object of the next attempt and its name, and
  the history that decides which job of which attempt is effective. The SHA-256 digest in base 32
  that ends a name is an argument.
\<close>

section \<open>Attempts\<close>

definition lineage_member :: "WorkflowRun \<Rightarrow> WorkflowRun \<Rightarrow> bool" where
  "lineage_member root candidate =
     (case Rerun (Spec candidate) of
        None \<Rightarrow> False
      | Some rerun \<Rightarrow>
          ref_name (OriginalRunRef rerun) = run_name root \<and> ref_uid (OriginalRunRef rerun) = run_uid root \<and>
          ProjectRef (Spec candidate) = ProjectRef (Spec root) \<and>
          WorkflowPath (Spec candidate) = WorkflowPath (Spec root) \<and>
          Source (Spec candidate) = Source (Spec root) \<and>
          \<not> (case find_condition (run_conditions candidate) ''Planned'' of
               None \<Rightarrow> False | Some c \<Rightarrow> Status c = ConditionFalse \<and> Reason c = ''RerunInvalid''))"

definition attempt_of :: "WorkflowRun \<Rightarrow> int" where
  "attempt_of run = (case Rerun (Spec run) of None \<Rightarrow> 1 | Some rerun \<Rightarrow> Attempt rerun)"

primrec latest_loop :: "WorkflowRun \<Rightarrow> WorkflowRun list \<Rightarrow> WorkflowRun \<Rightarrow> int list \<Rightarrow> int + WorkflowRun" where
  "latest_loop root [] latest attempts = Inr latest"
| "latest_loop root (candidate # runs) latest attempts =
     (if \<not> lineage_member root candidate then latest_loop root runs latest attempts
      else if attempt_of candidate \<in> set attempts then Inl (attempt_of candidate)
      else latest_loop root runs
        (if Rerun (Spec latest) = None \<or> attempt_of candidate > attempt_of latest then candidate else latest)
        (attempt_of candidate # attempts))"

definition LatestAttempt :: "WorkflowRun \<Rightarrow> WorkflowRun list \<Rightarrow> int + WorkflowRun" where
  "LatestAttempt root runs = latest_loop root runs root [1]"

definition Terminal :: "WorkflowRun \<Rightarrow> bool" where
  "Terminal run =
     (case find_condition (run_conditions run) ''Succeeded'' of
        None \<Rightarrow> False | Some c \<Rightarrow> Status c = ConditionTrue \<or> Status c = ConditionFalse)"

definition Failed :: "WorkflowRun \<Rightarrow> bool" where
  "Failed run =
     (case find_condition (run_conditions run) ''Succeeded'' of
        None \<Rightarrow> False
      | Some c \<Rightarrow> Status c = ConditionFalse \<and> (Reason c = ''JobFailed'' \<or> Reason c = ''JobTimedOut''))"

section \<open>Selected jobs and their dependents\<close>

definition logicalJobID :: "WorkflowJob \<Rightarrow> string" where
  "logicalJobID job = (case Matrix job of Some m \<Rightarrow> LogicalJobID m | None \<Rightarrow> JobID job)"

definition needsSelectedJob :: "string list \<Rightarrow> string list \<Rightarrow> bool" where
  "needsSelectedJob needs selectedLogicalIDs \<longleftrightarrow> list_ex (\<lambda>d. d \<in> set selectedLogicalIDs) needs"

definition matrixFailFastCancelled :: "WorkflowJob \<Rightarrow> bool" where
  "matrixFailFastCancelled job \<longleftrightarrow> Matrix job \<noteq> None \<and> Result job = Cancelled \<and>
     list_ex (\<lambda>(t, c). Reason c = ''MatrixFailFast'') (job_conditions job)"

text \<open>One pass of the loop: the selected ids, the logical ids, and whether anything changed.\<close>

definition dependents_step ::
  "string list \<times> string list \<times> bool \<Rightarrow> WorkflowJob \<Rightarrow> string list \<times> string list \<times> bool" where
  "dependents_step acc job =
     (case acc of (selected, logical, changed) \<Rightarrow>
        if JobID job \<in> set selected \<or> \<not> needsSelectedJob (Needs job) logical then acc
        else (JobID job # selected, List.insert (logicalJobID job) logical, True))"

definition dependents_pass ::
  "WorkflowJob list \<Rightarrow> string list \<Rightarrow> string list \<Rightarrow> string list \<times> string list \<times> bool" where
  "dependents_pass jobs selected logical = foldl dependents_step (selected, logical, False) jobs"

definition unselected :: "WorkflowJob list \<Rightarrow> string list \<Rightarrow> nat" where
  "unselected jobs selected = length (filter (\<lambda>j. JobID j \<notin> set selected) jobs)"

lemma dependents_step_skip:
  "JobID j \<in> set s \<or> \<not> needsSelectedJob (Needs j) l \<Longrightarrow> dependents_step (s, l, c) j = (s, l, c)"
  by (auto simp: dependents_step_def)

lemma dependents_step_take:
  "JobID j \<notin> set s \<Longrightarrow> needsSelectedJob (Needs j) l \<Longrightarrow>
     dependents_step (s, l, c) j = (JobID j # s, List.insert (logicalJobID j) l, True)"
  by (simp add: dependents_step_def)

lemma dependents_fold_mono:
  "foldl dependents_step (s, l, c) jobs = (s', l', c') \<Longrightarrow> set s \<subseteq> set s' \<and> set l \<subseteq> set l'"
  by (induction jobs arbitrary: s l c) (fastforce simp: dependents_step_def split: if_splits)+

lemma dependents_fold_changed:
  "foldl dependents_step (s, l, c) jobs = (s', l', True) \<Longrightarrow> \<not> c \<Longrightarrow>
     \<exists>j \<in> set jobs. JobID j \<notin> set s \<and> JobID j \<in> set s'"
proof (induction jobs arbitrary: s l c)
  case (Cons j jobs)
  show ?case
  proof (cases "JobID j \<in> set s \<or> \<not> needsSelectedJob (Needs j) l")
    case True
    with Cons show ?thesis by (auto simp: dependents_step_skip)
  next
    case False
    with Cons.prems(1) have "foldl dependents_step (JobID j # s, List.insert (logicalJobID j) l, True) jobs = (s', l', True)"
      by (simp add: dependents_step_take)
    from dependents_fold_mono [OF this] False show ?thesis by auto
  qed
qed simp

lemma dependents_pass_less:
  assumes "dependents_pass jobs s l = (s', l', True)"
  shows "unselected jobs s' < unselected jobs s"
proof -
  from assms have run: "foldl dependents_step (s, l, False) jobs = (s', l', True)" by (simp add: dependents_pass_def)
  from dependents_fold_changed [OF run] obtain j where j: "j \<in> set jobs" "JobID j \<notin> set s" "JobID j \<in> set s'" by auto
  have "filter (\<lambda>j. JobID j \<notin> set s') jobs = filter (\<lambda>j. JobID j \<notin> set s') (filter (\<lambda>j. JobID j \<notin> set s) jobs)"
    using dependents_fold_mono [OF run] by (auto simp: filter_filter intro!: filter_cong)
  moreover have "length \<dots> < length (filter (\<lambda>j. JobID j \<notin> set s) jobs)"
    by (rule length_filter_less [of j]) (use j in auto)
  ultimately show ?thesis by (simp add: unselected_def)
qed

function dependents_loop :: "WorkflowJob list \<Rightarrow> string list \<Rightarrow> string list \<Rightarrow> string list" where
  "dependents_loop jobs selected logical =
     (case dependents_pass jobs selected logical of
        (selected', logical', changed) \<Rightarrow>
          if changed then dependents_loop jobs selected' logical' else selected')"
  by pat_completeness auto
termination
  by (relation "measure (\<lambda>(jobs, s, l). unselected jobs s)") (auto dest: dependents_pass_less [OF sym])

declare dependents_loop.simps [simp del]

definition jobIDsWithDependents :: "WorkflowJob list \<Rightarrow> string list \<Rightarrow> string list" where
  "jobIDsWithDependents jobs selected =
     (let logical = remdups (map logicalJobID (filter (\<lambda>j. JobID j \<in> set selected) jobs))
      in sort (remdups (dependents_loop jobs selected logical)))"

definition JobAndDependentIDs :: "WorkflowJob list \<Rightarrow> string \<Rightarrow> string list" where
  "JobAndDependentIDs jobs jobID = jobIDsWithDependents jobs [jobID]"

datatype rerun_error = IncompleteHistory string | NoFailedJobs string

definition job_failed :: "WorkflowJob \<Rightarrow> bool" where
  "job_failed job \<longleftrightarrow> Result job = Failure \<or>
     (Result job = NoResult \<and>
      (case find_condition (job_conditions job) ''Succeeded'' of
         None \<Rightarrow> False | Some c \<Rightarrow> Status c = ConditionFalse))"

definition FailedJobIDs :: "WorkflowRun \<Rightarrow> WorkflowJob list \<Rightarrow> rerun_error + string list" where
  "FailedJobIDs run jobs =
     (if \<not> Failed run then Inr []
      else if Jobs run = None \<or> int32 (int (length jobs)) \<noteq> Total (the (Jobs run)) then Inl (IncompleteHistory (run_name run))
      else
        (let selected = remdups (map JobID (filter (\<lambda>j. job_failed j \<or> matrixFailFastCancelled j) jobs))
         in if length selected = 0 then Inl (NoFailedJobs (run_name run))
            else Inr (jobIDsWithDependents jobs selected)))"

section \<open>The next attempt\<close>

definition resourceNameMaxLength :: nat where
  "resourceNameMaxLength = 63"

definition dash_trim :: "string \<Rightarrow> string" where
  "dash_trim s = trim_func (\<lambda>c. c = CHR ''-'') s"

definition name_char :: "char \<Rightarrow> bool" where
  "name_char c \<longleftrightarrow> ascii_lower c \<or> ascii_digit c"

fun sanitize_loop :: "string \<Rightarrow> bool \<Rightarrow> string" where
  "sanitize_loop [] lastDash = []"
| "sanitize_loop (c # cs) lastDash =
     (if name_char c then c # sanitize_loop cs False
      else if \<not> lastDash then CHR ''-'' # sanitize_loop cs True
      else sanitize_loop cs lastDash)"

definition sanitizeName :: "string \<Rightarrow> string" where
  "sanitizeName v = dash_trim (sanitize_loop (to_lower v) False)"

definition RerunName :: "(string \<Rightarrow> string) \<Rightarrow> WorkflowRun \<Rightarrow> int \<Rightarrow> string" where
  "RerunName digest root attempt =
     (let suff = ''-attempt-'' @ int_str attempt @ ''-'' @ take 8 (digest (run_uid root));
          base = sanitizeName (run_name root);
          base = (if length base > resourceNameMaxLength - length suff
                  then dash_trim (take (resourceNameMaxLength - length suff) base) else base)
      in base @ suff)"

definition run_reference :: "WorkflowRun \<Rightarrow> RunReference" where
  "run_reference run = \<lparr>ref_name = run_name run, ref_uid = run_uid run\<rparr>"

definition NewRerun :: "(string \<Rightarrow> string) \<Rightarrow> WorkflowRun \<Rightarrow> WorkflowRun \<Rightarrow> int \<Rightarrow> string list \<Rightarrow> WorkflowRun" where
  "NewRerun digest root previous attempt jobIDs =
     \<lparr>run_name = RerunName digest root attempt, run_namespace = run_namespace root, run_uid = [],
      run_created = 0, run_labels = [(''actions.kelos.dev/workflow-run-root-uid'', run_uid root)],
      run_annotations =
        (case map_of (run_annotations root) ''actions.kelos.dev/github-event-snapshot'' of
           None \<Rightarrow> []
         | Some n \<Rightarrow> if n \<noteq> [] then [(''actions.kelos.dev/github-event-snapshot'', n)] else []),
      Spec = (Spec previous)\<lparr>CancelRequested := False,
        Rerun := Some \<lparr>OriginalRunRef = run_reference root, PreviousRunRef = run_reference previous,
          Attempt = attempt, JobIDs = jobIDs\<rparr>\<rparr>,
      run_concurrency = None, ConcurrencyGroup = [], WorkflowName = [], Jobs = None, run_start = None, run_completion = None, run_conditions = []\<rparr>"

section \<open>Effective jobs of a lineage\<close>

record JobHistory =
  seen_job_ids :: "string list"
  seen_logical_ids :: "string list"

definition empty_history :: JobHistory where
  "empty_history = \<lparr>seen_job_ids = [], seen_logical_ids = []\<rparr>"

definition complete_group :: "WorkflowJob list \<Rightarrow> bool" where
  "complete_group group_jobs =
     (case group_jobs of
        [] \<Rightarrow> False
      | job # _ \<Rightarrow>
          (case Matrix job of None \<Rightarrow> True | Some m \<Rightarrow> int (length group_jobs) = JobTotal m))"

definition history_add :: "JobHistory \<Rightarrow> WorkflowRun \<Rightarrow> WorkflowJob list \<Rightarrow> JobHistory \<times> WorkflowJob list" where
  "history_add h run jobs =
     (let retained = filter (\<lambda>job. JobID job \<notin> set (seen_job_ids h) \<and>
            logicalJobID job \<notin> set (seen_logical_ids h) \<and> logicalJobID job \<notin> set (seen_job_ids h)) jobs;
          complete = filter (\<lambda>id. complete_group (filter (\<lambda>j. logicalJobID j = id) jobs))
            (remdups (map logicalJobID jobs));
          selected = (case Rerun (Spec run) of None \<Rightarrow> [] | Some rerun \<Rightarrow> JobIDs rerun)
      in (\<lparr>seen_job_ids = seen_job_ids h @ map JobID jobs @ selected,
           seen_logical_ids = seen_logical_ids h @ complete\<rparr>, retained))"

text \<open>The attempts of a lineage, newest first, as the callers go through them.\<close>

fun history_run :: "JobHistory \<Rightarrow> (WorkflowRun \<times> WorkflowJob list) list \<Rightarrow> WorkflowJob list list" where
  "history_run h [] = []"
| "history_run h ((run, jobs) # attempts) =
     (case history_add h run jobs of (h', retained) \<Rightarrow> retained # history_run h' attempts)"

section \<open>Dependents are the least closed set\<close>

inductive dependent :: "WorkflowJob list \<Rightarrow> string set \<Rightarrow> string \<Rightarrow> bool" for jobs S where
  selected: "x \<in> S \<Longrightarrow> dependent jobs S x"
| needs: "j \<in> set jobs \<Longrightarrow> k \<in> set jobs \<Longrightarrow> dependent jobs S (JobID k) \<Longrightarrow> logicalJobID k \<in> set (Needs j) \<Longrightarrow>
    dependent jobs S (JobID j)"

definition selection_ok :: "WorkflowJob list \<Rightarrow> string set \<Rightarrow> string list \<Rightarrow> string list \<Rightarrow> bool" where
  "selection_ok jobs S s l \<longleftrightarrow> S \<subseteq> set s \<and> (\<forall>x \<in> set s. dependent jobs S x) \<and>
     set l = logicalJobID ` {k \<in> set jobs. JobID k \<in> set s}"

lemma selection_ok_step:
  assumes "distinct (map JobID jobs)" "selection_ok jobs S s l" "j \<in> set jobs"
    "JobID j \<notin> set s" "needsSelectedJob (Needs j) l"
  shows "selection_ok jobs S (JobID j # s) (List.insert (logicalJobID j) l)"
proof -
  obtain k where "k \<in> set jobs" "JobID k \<in> set s" "logicalJobID k \<in> set (Needs j)"
    using assms(2,5) by (auto simp: selection_ok_def needsSelectedJob_def list_ex_iff)
  then have "dependent jobs S (JobID j)"
    using assms(2,3) by (auto simp: selection_ok_def intro: dependent.needs)
  moreover have "{k \<in> set jobs. JobID k \<in> set (JobID j # s)} = insert j {k \<in> set jobs. JobID k \<in> set s}"
    using assms(1,3) by (auto simp: distinct_map dest: inj_onD)
  ultimately show ?thesis using assms(2) by (auto simp: selection_ok_def)
qed

lemma dependents_fold_ok:
  "distinct (map JobID jobs) \<Longrightarrow> set js \<subseteq> set jobs \<Longrightarrow> selection_ok jobs S s l \<Longrightarrow>
     foldl dependents_step (s, l, c) js = (s', l', c') \<Longrightarrow> selection_ok jobs S s' l'"
proof (induction js arbitrary: s l c)
  case (Cons j js)
  show ?case
  proof (cases "JobID j \<in> set s \<or> \<not> needsSelectedJob (Needs j) l")
    case True
    with Cons show ?thesis by (auto simp: dependents_step_skip)
  next
    case False
    with Cons.prems selection_ok_step [OF Cons.prems(1,3), of j] show ?thesis
      by (intro Cons.IH [of "JobID j # s" "List.insert (logicalJobID j) l" True]) (auto simp: dependents_step_take)
  qed
qed simp

lemma dependents_fold_true: "foldl dependents_step (s, l, True) js = (s', l', c') \<Longrightarrow> c'"
  by (induction js arbitrary: s l) (auto simp: dependents_step_def split: if_splits)

lemma dependents_fold_unchanged:
  "foldl dependents_step (s, l, c) js = (s', l', False) \<Longrightarrow>
     s' = s \<and> l' = l \<and> (\<forall>j \<in> set js. JobID j \<in> set s \<or> \<not> needsSelectedJob (Needs j) l)"
proof (induction js)
  case (Cons j js)
  show ?case
  proof (cases "JobID j \<in> set s \<or> \<not> needsSelectedJob (Needs j) l")
    case True
    with Cons show ?thesis by (auto simp: dependents_step_skip)
  next
    case False
    with Cons.prems show ?thesis by (auto simp: dependents_step_take dest: dependents_fold_true)
  qed
qed simp

lemma dependents_loop_closed:
  "distinct (map JobID jobs) \<Longrightarrow> selection_ok jobs S s l \<Longrightarrow> set (dependents_loop jobs s l) = {x. dependent jobs S x}"
proof (induction jobs s l rule: dependents_loop.induct)
  case (1 jobs s l)
  obtain s' l' c where p: "dependents_pass jobs s l = (s', l', c)" by (cases "dependents_pass jobs s l")
  from p have ok: "selection_ok jobs S s' l'"
    unfolding dependents_pass_def by (rule dependents_fold_ok [OF 1(2) subset_refl 1(3)])
  show ?case
  proof (cases c)
    case True
    with p ok 1 show ?thesis by (subst dependents_loop.simps) auto
  next
    case False
    with p have closed: "\<forall>j \<in> set jobs. JobID j \<in> set s' \<or> \<not> needsSelectedJob (Needs j) l'"
      by (auto simp: dependents_pass_def dest: dependents_fold_unchanged)
    have "x \<in> set s'" if "dependent jobs S x" for x
      using that
    proof induction
      case (selected x)
      with ok show ?case by (auto simp: selection_ok_def)
    next
      case (needs j k)
      then have "needsSelectedJob (Needs j) l'"
        using ok by (auto simp: selection_ok_def needsSelectedJob_def list_ex_iff)
      with closed needs show ?case by auto
    qed
    with p False ok show ?thesis by (subst dependents_loop.simps) (auto simp: selection_ok_def)
  qed
qed

text \<open>
  C36. A rerun of some jobs runs exactly those jobs and their transitive dependents: the ids selected are
  the least set that contains the selection and is closed under needing a selected logical job, sorted
  and without repetition; the loop that computes them always ends.
\<close>

theorem rerun_selects_dependents:
  assumes "distinct (map JobID jobs)"
  shows "set (jobIDsWithDependents jobs sel) = {x. dependent jobs (set sel) x} \<and>
    sorted (jobIDsWithDependents jobs sel) \<and> distinct (jobIDsWithDependents jobs sel)"
proof -
  let ?l = "remdups (map logicalJobID (filter (\<lambda>j. JobID j \<in> set sel) jobs))"
  have "selection_ok jobs (set sel) sel ?l"
    by (auto simp: selection_ok_def intro: dependent.selected)
  from dependents_loop_closed [OF assms this] show ?thesis
    by (simp add: jobIDsWithDependents_def Let_def)
qed

definition plain_job :: "string \<Rightarrow> string list \<Rightarrow> WorkflowJob" where
  "plain_job jid needs = \<lparr>job_name = jid, job_uid = jid, job_run_label = [],
     WorkflowRunRef = ''ci'', JobID = jid, Needs = needs, If = [], ContinueOnError = False,
     job_concurrency_policy = None, Matrix = None, Result = NoResult, RunnerRef = None, job_start = None,
     job_completion = None, Outputs = [], job_concurrency = None, job_conditions = []\<rparr>"

theorem rerun_selects_dependents_witness:
  "distinct (map JobID [plain_job ''deploy'' [''test''], plain_job ''test'' [''build''], plain_job ''build'' [], plain_job ''lint'' []]) \<and>
   dependent [plain_job ''deploy'' [''test''], plain_job ''test'' [''build''], plain_job ''build'' [], plain_job ''lint'' []]
     {''test''} ''deploy'' \<and>
   \<not> dependent [plain_job ''deploy'' [''test''], plain_job ''test'' [''build''], plain_job ''build'' [], plain_job ''lint'' []]
     {''test''} ''build''"
proof -
  let ?jobs = "[plain_job ''deploy'' [''test''], plain_job ''test'' [''build''], plain_job ''build'' [], plain_job ''lint'' []]"
  have d: "distinct (map JobID ?jobs)" by code_simp
  have "jobIDsWithDependents ?jobs [''test''] = [''deploy'', ''test'']" by code_simp
  with rerun_selects_dependents [OF d, of "[''test'']"]
  have "{x. dependent ?jobs {''test''} x} = {''deploy'', ''test''}" by simp
  then have "dependent ?jobs {''test''} x \<longleftrightarrow> x = ''deploy'' \<or> x = ''test''" for x by auto
  with d show ?thesis by auto
qed

section \<open>The latest attempt\<close>

lemma latest_loop_spec:
  assumes "\<forall>c \<in> set runs. lineage_member root c \<longrightarrow> 2 \<le> attempt_of c"
    and "1 \<in> set seen" "\<forall>a \<in> set seen. a \<le> attempt_of latest" "Rerun (Spec latest) = None \<longrightarrow> attempt_of latest = 1"
  shows "case latest_loop root runs latest seen of
     Inl a \<Rightarrow> \<not> (distinct (map attempt_of (filter (lineage_member root) runs)) \<and>
        set (map attempt_of (filter (lineage_member root) runs)) \<inter> set seen = {})
   | Inr r \<Rightarrow> distinct (map attempt_of (filter (lineage_member root) runs)) \<and>
        set (map attempt_of (filter (lineage_member root) runs)) \<inter> set seen = {} \<and>
        (r = latest \<or> r \<in> set (filter (lineage_member root) runs)) \<and>
        attempt_of latest \<le> attempt_of r \<and>
        (\<forall>c \<in> set (filter (lineage_member root) runs). attempt_of c \<le> attempt_of r)"
  using assms
proof (induction runs arbitrary: latest seen)
  case (Cons c runs)
  consider "\<not> lineage_member root c" | "lineage_member root c" "attempt_of c \<in> set seen"
    | "lineage_member root c" "attempt_of c \<notin> set seen" by blast
  then show ?case
  proof cases
    case 1
    then have eqs: "filter (lineage_member root) (c # runs) = filter (lineage_member root) runs"
      "latest_loop root (c # runs) latest seen = latest_loop root runs latest seen" by simp_all
    have "\<forall>c \<in> set runs. lineage_member root c \<longrightarrow> 2 \<le> attempt_of c" using Cons.prems(1) by simp
    from Cons.IH [OF this Cons.prems(2-4)] show ?thesis unfolding eqs .
  next
    case 2
    then show ?thesis by auto
  next
    case 3
    define latest' where
      "latest' = (if Rerun (Spec latest) = None \<or> attempt_of c > attempt_of latest then c else latest)"
    have two: "2 \<le> attempt_of c" using Cons.prems(1) 3(1) by simp
    have l': "attempt_of latest \<le> attempt_of latest'" "attempt_of c \<le> attempt_of latest'" "latest' \<in> {c, latest}"
      using two Cons.prems(4) by (auto simp: latest'_def)
    have "Rerun (Spec c) \<noteq> None" using 3(1) by (auto simp: lineage_member_def split: option.splits)
    with l' Cons.prems have
      "case latest_loop root runs latest' (attempt_of c # seen) of
         Inl a \<Rightarrow> \<not> (distinct (map attempt_of (filter (lineage_member root) runs)) \<and>
            set (map attempt_of (filter (lineage_member root) runs)) \<inter> set (attempt_of c # seen) = {})
       | Inr r \<Rightarrow> distinct (map attempt_of (filter (lineage_member root) runs)) \<and>
            set (map attempt_of (filter (lineage_member root) runs)) \<inter> set (attempt_of c # seen) = {} \<and>
            (r = latest' \<or> r \<in> set (filter (lineage_member root) runs)) \<and> attempt_of latest' \<le> attempt_of r \<and>
            (\<forall>c \<in> set (filter (lineage_member root) runs). attempt_of c \<le> attempt_of r)"
      by (intro Cons.IH) (auto simp: latest'_def)
    moreover have "latest_loop root (c # runs) latest seen = latest_loop root runs latest' (attempt_of c # seen)"
      using 3 by (simp add: latest'_def)
    ultimately show ?thesis using 3 l' by (auto split: sum.splits)
  qed
qed simp

text \<open>
  The latest attempt of a lineage: the lookup fails exactly when two valid attempts carry the same
  number, and otherwise returns the root or a valid attempt, with the highest number of all.
\<close>

theorem latest_attempt_is_highest:
  assumes "Rerun (Spec root) = None" "\<forall>c \<in> set runs. lineage_member root c \<longrightarrow> 2 \<le> attempt_of c"
  shows "case LatestAttempt root runs of
     Inl a \<Rightarrow> \<not> distinct (map attempt_of (filter (lineage_member root) runs))
   | Inr r \<Rightarrow> distinct (map attempt_of (filter (lineage_member root) runs)) \<and>
       (r = root \<or> r \<in> set runs \<and> lineage_member root r) \<and>
       (\<forall>c \<in> set runs. lineage_member root c \<longrightarrow> attempt_of c \<le> attempt_of r)"
proof -
  have root1: "attempt_of root = 1" using assms(1) by (simp add: attempt_of_def)
  have "1 \<notin> set (map attempt_of (filter (lineage_member root) runs))" using assms(2) by fastforce
  then have "set (map attempt_of (filter (lineage_member root) runs)) \<inter> set [1] = {}" by auto
  with latest_loop_spec [OF assms(2), of "[1]" root] root1 show ?thesis
    by (auto simp: LatestAttempt_def split: sum.splits)
qed

definition plain_run :: WorkflowRun where
  "plain_run = \<lparr>run_name = ''ci'', run_namespace = ''ns'', run_uid = ''u1'', run_created = 0, run_labels = [],
     run_annotations = [], Spec = \<lparr>ProjectRef = ''p'', Source = None, WorkflowPath = ''ci.yaml'',
       fork_pull_request = None, Approval = None, CancelRequested = True, Rerun = None,
       TTLSecondsAfterFinished = None\<rparr>,
     run_concurrency = None, ConcurrencyGroup = [], WorkflowName = [], Jobs = None, run_start = None, run_completion = None, run_conditions = []\<rparr>"

theorem latest_attempt_is_highest_witness:
  "\<exists>r. LatestAttempt plain_run [NewRerun id plain_run plain_run 3 [], NewRerun id plain_run plain_run 2 []] = Inr r \<and>
     attempt_of r = 3"
proof -
  let ?runs = "[NewRerun id plain_run plain_run 3 [], NewRerun id plain_run plain_run 2 []]"
  have "Rerun (Spec plain_run) = None" by (simp add: plain_run_def)
  moreover have "\<forall>c \<in> set ?runs. lineage_member plain_run c \<longrightarrow> 2 \<le> attempt_of c"
    by (simp add: NewRerun_def attempt_of_def)
  ultimately have spec: "case LatestAttempt plain_run ?runs of
       Inl a \<Rightarrow> \<not> distinct (map attempt_of (filter (lineage_member plain_run) ?runs))
     | Inr r \<Rightarrow> distinct (map attempt_of (filter (lineage_member plain_run) ?runs)) \<and>
         (r = plain_run \<or> r \<in> set ?runs \<and> lineage_member plain_run r) \<and>
         (\<forall>c \<in> set ?runs. lineage_member plain_run c \<longrightarrow> attempt_of c \<le> attempt_of r)"
    by (rule latest_attempt_is_highest)
  have "\<not> (case LatestAttempt plain_run ?runs of Inl a \<Rightarrow> True | Inr r \<Rightarrow> attempt_of r \<noteq> 3)" by code_simp
  with spec show ?thesis by (auto split: sum.splits)
qed

section \<open>Names of attempts\<close>

lemma dropWhile_suffix_set: "c \<in> set (dropWhile p s) \<Longrightarrow> c \<in> set s"
  by (rule set_dropWhileD)

lemma dash_trim_set: "c \<in> set (dash_trim s) \<Longrightarrow> c \<in> set s"
  by (auto simp: dash_trim_def trim_func_def trim_right_func_def trim_left_func_def dest!: dropWhile_suffix_set)

lemma dash_trim_length: "length (dash_trim s) \<le> length s"
  using length_dropWhile_le [of "\<lambda>c. c = CHR ''-''" s]
    length_dropWhile_le [of "\<lambda>c. c = CHR ''-''" "rev (dropWhile (\<lambda>c. c = CHR ''-'') s)"]
  by (simp add: dash_trim_def trim_func_def trim_right_func_def trim_left_func_def)

lemma sanitize_loop_chars: "c \<in> set (sanitize_loop s b) \<Longrightarrow> name_char c \<or> c = CHR ''-''"
  by (induction s arbitrary: b) (auto split: if_splits)

lemma sanitizeName_chars: "c \<in> set (sanitizeName s) \<Longrightarrow> name_char c \<or> c = CHR ''-''"
  unfolding sanitizeName_def by (drule dash_trim_set) (rule sanitize_loop_chars)

lemma byte_char_of: "n < 256 \<Longrightarrow> byte (char_of n) = n"
  by (simp add: byte_def)

lemma nat_str_digits: "c \<in> set (nat_str n) \<Longrightarrow> ascii_digit c"
proof (induction n rule: nat_str.induct)
  case (1 n)
  show ?case
  proof (cases "n < 10")
    case True
    with 1(2) show ?thesis by (subst (asm) nat_str.simps) (simp add: ascii_digit_def byte_char_of)
  next
    case False
    then have "c \<in> set (nat_str (n div 10)) \<or> c = char_of (48 + n mod 10)"
      using 1(2) by (subst (asm) nat_str.simps) auto
    with 1(1) [OF False] show ?thesis by (auto simp: ascii_digit_def byte_char_of)
  qed
qed

lemma nat_str_length: "0 < k \<Longrightarrow> n < 10 ^ k \<Longrightarrow> length (nat_str n) \<le> k"
proof (induction k arbitrary: n)
  case (Suc k)
  show ?case
  proof (cases "n < 10")
    case True
    then show ?thesis by (subst nat_str.simps) simp
  next
    case False
    with Suc.prems have "k \<noteq> 0" by (cases k) auto
    moreover have "n div 10 < 10 ^ k" using Suc.prems by (simp add: less_mult_imp_div_less mult.commute)
    ultimately have "length (nat_str (n div 10)) \<le> k" using Suc.IH by simp
    with False show ?thesis by (subst nat_str.simps) simp
  qed
qed simp

lemma int_str_attempt:
  assumes "0 \<le> a" "a < 2 ^ 31"
  shows "length (int_str a) \<le> 10 \<and> (\<forall>c \<in> set (int_str a). name_char c)"
  using assms nat_str_length [of 10 "nat a"] nat_str_digits [of _ "nat a"]
  by (auto simp: int_str_def name_char_def)

text \<open>
  The name of an attempt is always a name the API accepts as a label: at most 63 bytes of lower-case
  letters, digits and dashes, ending in the digest, whatever the name of the first run.
\<close>

theorem rerun_name_valid:
  assumes "0 \<le> attempt" "attempt < 2 ^ 31" "list_all name_char (digest (run_uid root))"
  shows "length (RerunName digest root attempt) \<le> 63 \<and>
    list_all (\<lambda>c. name_char c \<or> c = CHR ''-'') (RerunName digest root attempt) \<and>
    (\<exists>pre. RerunName digest root attempt = pre @ take 8 (digest (run_uid root)))"
proof -
  define suff where "suff = ''-attempt-'' @ int_str attempt @ ''-'' @ take 8 (digest (run_uid root))"
  define base where "base = (if length (sanitizeName (run_name root)) > 63 - length suff
      then dash_trim (take (63 - length suff) (sanitizeName (run_name root))) else sanitizeName (run_name root))"
  have name: "RerunName digest root attempt = base @ suff"
    by (simp add: RerunName_def base_def suff_def resourceNameMaxLength_def Let_def)
  have "length suff \<le> 28"
    using int_str_attempt [OF assms(1,2)] min.cobounded2 [of "length (digest (run_uid root))" 8]
    by (simp add: suff_def del: min.cobounded2)
  moreover have "length base \<le> 63 - length suff"
    using dash_trim_length [of "take (63 - length suff) (sanitizeName (run_name root))"] by (simp add: base_def)
  moreover have "c \<in> set base \<Longrightarrow> name_char c \<or> c = CHR ''-''" for c
    by (auto simp: base_def split: if_splits dest!: dash_trim_set in_set_takeD sanitizeName_chars)
  moreover have "list_all (\<lambda>c. name_char c \<or> c = CHR ''-'') suff"
  proof -
    have "list_all (\<lambda>c. name_char c \<or> c = CHR ''-'') ''-attempt-''" "list_all (\<lambda>c. name_char c \<or> c = CHR ''-'') ''-''"
      by code_simp+
    moreover have "list_all (\<lambda>c. name_char c \<or> c = CHR ''-'') (int_str attempt)"
      "list_all (\<lambda>c. name_char c \<or> c = CHR ''-'') (take 8 (digest (run_uid root)))"
      using int_str_attempt [OF assms(1,2)] assms(3) by (auto simp: list_all_iff dest: in_set_takeD)
    ultimately show ?thesis unfolding suff_def by (simp only: list_all_append)
  qed
  ultimately have "length (base @ suff) \<le> 63" "list_all (\<lambda>c. name_char c \<or> c = CHR ''-'') (base @ suff)"
    by (auto simp: list_all_iff)
  moreover have "base @ suff = (base @ ''-attempt-'' @ int_str attempt @ ''-'') @ take 8 (digest (run_uid root))"
    by (simp add: suff_def)
  ultimately show ?thesis unfolding name by blast
qed

theorem rerun_name_valid_witness:
  "length (RerunName (\<lambda>_. ''abcdefghij'') plain_run 2) \<le> 63 \<and>
   RerunName (\<lambda>_. ''abcdefghij'') plain_run 2 = ''ci-attempt-2-abcdefgh''"
proof
  have "list_all name_char ((\<lambda>_. ''abcdefghij'') (run_uid plain_run))" by code_simp
  then show "length (RerunName (\<lambda>_. ''abcdefghij'') plain_run 2) \<le> 63"
    using rerun_name_valid [of 2 "\<lambda>_. ''abcdefghij''" plain_run] by simp
  show "RerunName (\<lambda>_. ''abcdefghij'') plain_run 2 = ''ci-attempt-2-abcdefgh''" by code_simp
qed

section \<open>The history of a lineage\<close>

lemma history_add_retained:
  assumes "history_add h run jobs = (h', retained)"
  shows "set (seen_job_ids h) \<subseteq> set (seen_job_ids h')" "JobID ` set jobs \<subseteq> set (seen_job_ids h')"
    "JobID ` set retained \<inter> set (seen_job_ids h) = {}" "set retained \<subseteq> set jobs"
    "distinct (map JobID jobs) \<Longrightarrow> distinct (map JobID retained)"
  using assms by (auto simp: history_add_def Let_def intro: distinct_map_filter)

lemma history_run_fresh:
  "\<forall>(run, jobs) \<in> set attempts. distinct (map JobID jobs) \<Longrightarrow>
     distinct (map JobID (concat (history_run h attempts))) \<and>
     JobID ` set (concat (history_run h attempts)) \<inter> set (seen_job_ids h) = {}"
proof (induction attempts arbitrary: h)
  case (Cons a attempts)
  obtain run jobs where a: "a = (run, jobs)" by force
  obtain h' retained where r: "history_add h run jobs = (h', retained)" by force
  note add = history_add_retained [OF r]
  from Cons have IH: "distinct (map JobID (concat (history_run h' attempts)))"
      "JobID ` set (concat (history_run h' attempts)) \<inter> set (seen_job_ids h') = {}" by auto
  have "JobID ` set retained \<inter> JobID ` set (concat (history_run h' attempts)) = {}"
    using IH(2) add(2,4) by blast
  moreover have "JobID ` set (concat (history_run h' attempts)) \<inter> set (seen_job_ids h) = {}"
    using IH(2) add(1) by blast
  moreover have "distinct (map JobID retained)" using add(5) Cons.prems a by auto
  ultimately show ?case using IH(1) add(3) a r by (simp add: Int_Un_distrib2 image_Un)
qed simp

text \<open>
  Going through the attempts of a lineage from the newest to the oldest, every job is effective in at
  most one attempt, and never in an attempt older than one that ran or selected it.
\<close>

theorem history_effective_once:
  assumes "\<forall>(run, jobs) \<in> set attempts. distinct (map JobID jobs)"
  shows "distinct (map JobID (concat (history_run empty_history attempts))) \<and>
    (\<forall>run jobs. JobID ` set (concat (history_run (fst (history_add empty_history run jobs)) attempts)) \<inter>
       (JobID ` set jobs \<union> (case Rerun (Spec run) of None \<Rightarrow> {} | Some r \<Rightarrow> set (JobIDs r))) = {})"
proof (intro conjI allI)
  show "distinct (map JobID (concat (history_run empty_history attempts)))"
    using history_run_fresh [OF assms] by blast
  fix run jobs
  let ?h = "fst (history_add empty_history run jobs)"
  have "JobID ` set jobs \<union> (case Rerun (Spec run) of None \<Rightarrow> {} | Some r \<Rightarrow> set (JobIDs r)) \<subseteq> set (seen_job_ids ?h)"
    by (auto simp: history_add_def Let_def split: option.splits)
  then show "JobID ` set (concat (history_run ?h attempts)) \<inter>
      (JobID ` set jobs \<union> (case Rerun (Spec run) of None \<Rightarrow> {} | Some r \<Rightarrow> set (JobIDs r))) = {}"
    using history_run_fresh [OF assms, of ?h] by blast
qed

theorem history_effective_once_witness:
  "distinct (map JobID (concat (history_run empty_history
     [(plain_run, [plain_job ''b'' []]), (plain_run, [plain_job ''a'' [], plain_job ''b'' []])])))"
  using history_effective_once [of "[(plain_run, [plain_job ''b'' []]), (plain_run, [plain_job ''a'' [], plain_job ''b'' []])]"]
  by (simp add: plain_job_def)

lemma new_rerun_fields:
  assumes "previous = root \<or> lineage_member root previous"
  shows "lineage_member root (NewRerun digest root previous attempt ids)"
    and "attempt_of (NewRerun digest root previous attempt ids) = attempt"
    and "\<not> CancelRequested (Spec (NewRerun digest root previous attempt ids))"
    and "RequiresApproval (NewRerun digest root previous attempt ids) = RequiresApproval previous"
    and "AwaitingApproval (NewRerun digest root previous attempt ids) = AwaitingApproval previous"
  using assms
  by (auto simp: lineage_member_def NewRerun_def attempt_of_def RequiresApproval_def AwaitingApproval_def
      run_reference_def find_condition_def split: option.splits)

text \<open>
  C37. A rerun becomes the latest attempt. Let the look-up among the runs find \<open>previous\<close>, in a lineage whose root is no rerun and whose other
  attempts count from two. Then the object of the next attempt, wherever it is listed, is what the look-up finds from then on: it
  belongs to the lineage of the root, has the next attempt number, is not cancelled, and needs and awaits exactly
  the approvals of the previous attempt.
\<close>

theorem new_rerun_continues_lineage:
  assumes "Rerun (Spec root) = None" and "\<forall>c \<in> set (us @ vs). lineage_member root c \<longrightarrow> 2 \<le> attempt_of c"
    and "LatestAttempt root (us @ vs) = Inr previous"
    and new: "new = NewRerun digest root previous (attempt_of previous + 1) ids"
  shows "LatestAttempt root (us @ new # vs) = Inr new \<and> lineage_member root new \<and> attempt_of new = attempt_of previous + 1 \<and>
    \<not> CancelRequested (Spec new) \<and> RequiresApproval new = RequiresApproval previous \<and> AwaitingApproval new = AwaitingApproval previous"
proof -
  from latest_attempt_is_highest [OF assms(1,2)] assms(3)
  have dist: "distinct (map attempt_of (filter (lineage_member root) (us @ vs)))"
    and previous: "previous = root \<or> lineage_member root previous"
    and highest: "\<forall>c \<in> set (us @ vs). lineage_member root c \<longrightarrow> attempt_of c \<le> attempt_of previous" by auto
  note fields = new_rerun_fields [OF previous, of digest "attempt_of previous + 1" ids, folded new]
  have "1 \<le> attempt_of previous"
    using latest_attempt_is_highest [OF assms(1,2)] assms(1-3) by (auto simp: attempt_of_def)
  then have two: "\<forall>c \<in> set (us @ new # vs). lineage_member root c \<longrightarrow> 2 \<le> attempt_of c" using assms(2) fields(2) by auto
  have "\<forall>c \<in> set (us @ vs). lineage_member root c \<longrightarrow> attempt_of c \<noteq> attempt_of new" using highest fields(2) by fastforce
  then have "distinct (map attempt_of (filter (lineage_member root) (us @ new # vs)))" using dist fields(1) by auto
  with latest_attempt_is_highest [OF assms(1) two] obtain r where r: "LatestAttempt root (us @ new # vs) = Inr r"
      "r = root \<or> r \<in> set (us @ new # vs) \<and> lineage_member root r" "attempt_of new \<le> attempt_of r"
    using fields(1) by (auto split: sum.splits)
  moreover have "attempt_of root = 1" using assms(1) by (simp add: attempt_of_def)
  ultimately have "r = new" using highest fields(2) \<open>1 \<le> attempt_of previous\<close> by fastforce
  with r(1) fields show ?thesis by simp
qed

theorem new_rerun_continues_lineage_witness:
  "LatestAttempt plain_run [NewRerun id plain_run (NewRerun id plain_run plain_run 2 []) 3 [''a''], NewRerun id plain_run plain_run 2 []] =
     Inr (NewRerun id plain_run (NewRerun id plain_run plain_run 2 []) 3 [''a''])"
proof -
  let ?second = "NewRerun id plain_run plain_run 2 []"
  have root: "Rerun (Spec plain_run) = None" by (simp add: plain_run_def)
  have two: "\<forall>c \<in> set ([] @ [?second]). lineage_member plain_run c \<longrightarrow> 2 \<le> attempt_of c"
    by (simp add: NewRerun_def attempt_of_def)
  have latest: "LatestAttempt plain_run ([] @ [?second]) = Inr ?second" by code_simp
  have "attempt_of ?second + 1 = 3" by (simp add: NewRerun_def attempt_of_def)
  then have new: "NewRerun id plain_run ?second 3 [''a''] = NewRerun id plain_run ?second (attempt_of ?second + 1) [''a'']" by simp
  show ?thesis
    using new_rerun_continues_lineage [OF root two latest new] by (simp only: append.simps)
qed

end
