(* ===== verification/Concurrency.thy ===== *)
theory Concurrency
  imports RunApi
begin

text \<open>
  Concurrency groups, \<^verbatim>\<open>src/internal/controller/concurrency.go\<close>: a Lease object per group holds the
  member that runs and the member that waits. The API server is a record of the objects of one
  namespace; a write of a Lease succeeds only on the resource version that was read, and what other
  clients do between the read and the write of an attempt is an argument (\<open>other\<close>). The JSON form
  of the waiting member is kept decoded, with a constructor for an annotation that does not decode;
  the digest in a Lease name is an argument. Simple case folding of group names is that of ASCII.
\<close>

section \<open>Members\<close>

record concurrencyScope =
  project :: string
  repositoryID :: int

record concurrencyMember =
  Kind :: string
  Name :: string
  UID :: string
  member_cancels :: bool

datatype concurrency_error =
    NoRepository string
  | InvalidIdentity string
  | InvalidKind string
  | InvalidPending
  | LeaseMismatch
  | ChangedTooFrequently
  | NotControlled string
  | ApiFailed string

datatype concurrencyGateState = GateAcquired | GateWaiting | GateSuperseded

record concurrencyGateResult =
  gate_state :: concurrencyGateState
  displaced :: "concurrencyMember option"
  cancelOwner :: "concurrencyMember option"

definition workflowRunConcurrencyScope :: "WorkflowRun \<Rightarrow> concurrency_error + concurrencyScope" where
  "workflowRunConcurrencyScope run =
     (case Source (Spec run) of
        None \<Rightarrow> Inl (NoRepository (run_name run))
      | Some g \<Rightarrow> Inr \<lparr>project = ProjectRef (Spec run), repositoryID = RepositoryID g\<rparr>)"

definition workflowRunConcurrencyDecision :: "WorkflowRun \<Rightarrow> ConcurrencyStatus option" where
  "workflowRunConcurrencyDecision run =
     (if run_concurrency run \<noteq> None then run_concurrency run
      else if ConcurrencyGroup run = [] then None
      else Some \<lparr>Group = ConcurrencyGroup run,
        CancelInProgress = (case find_condition (run_conditions run) ''Planned'' of
          None \<Rightarrow> False | Some c \<Rightarrow> Reason c = ''WaitingForConcurrencyCancellation'')\<rparr>)"

definition workflowRunConcurrencyMember :: "WorkflowRun \<Rightarrow> concurrencyMember" where
  "workflowRunConcurrencyMember run =
     \<lparr>Kind = ''WorkflowRun'', Name = run_name run, UID = run_uid run,
      member_cancels = (case workflowRunConcurrencyDecision run of
        None \<Rightarrow> False | Some d \<Rightarrow> CancelInProgress d \<and> \<not> CancelRequested (Spec run))\<rparr>"

definition workflowJobConcurrencyMember :: "WorkflowJob \<Rightarrow> concurrencyMember" where
  "workflowJobConcurrencyMember job =
     \<lparr>Kind = ''WorkflowJob'', Name = job_name job, UID = job_uid job,
      member_cancels = (case job_concurrency job of None \<Rightarrow> False | Some d \<Rightarrow> CancelInProgress d)\<rparr>"

definition foldConcurrencyGroup :: "string \<Rightarrow> string" where
  "foldConcurrencyGroup v = to_upper v"

definition concurrencyLeaseName :: "(string \<Rightarrow> string) \<Rightarrow> concurrencyScope \<Rightarrow> string \<Rightarrow> string" where
  "concurrencyLeaseName digest scope grp =
     ''oa-cg-'' @ to_lower (digest (project scope @ [CHR 0x00] @ int_str (repositoryID scope) @ [CHR 0x00] @
        foldConcurrencyGroup grp))"

definition member_identity :: "concurrencyMember \<Rightarrow> string" where
  "member_identity m = Kind m @ '':'' @ Name m @ '':'' @ UID m"

definition splitN3 :: "string \<Rightarrow> string list" where
  "splitN3 v =
     (case cut v '':'' of
        (a, rest, True) \<Rightarrow> (case cut rest '':'' of (b, c, True) \<Rightarrow> [a, b, c] | (b, _, False) \<Rightarrow> [a, b])
      | (a, _, False) \<Rightarrow> [a])"

definition parseConcurrencyIdentity :: "string \<Rightarrow> concurrency_error + concurrencyMember" where
  "parseConcurrencyIdentity v =
     (case splitN3 v of
        [kind, name, uid] \<Rightarrow>
          if kind = [] \<or> name = [] \<or> uid = [] then Inl (InvalidIdentity v)
          else if kind \<noteq> ''WorkflowRun'' \<and> kind \<noteq> ''WorkflowJob'' then Inl (InvalidKind kind)
          else Inr \<lparr>Kind = kind, Name = name, UID = uid, member_cancels = False\<rparr>
      | _ \<Rightarrow> Inl (InvalidIdentity v))"

section \<open>Leases\<close>

datatype pending_annotation = NoPending | Pending concurrencyMember | Undecodable

record Lease =
  HolderIdentity :: "string option"
  AcquireTime :: "int option"
  LeaseTransitions :: "int option"
  group_annotation :: string
  project_annotation :: string
  repository_annotation :: string
  pending_annotation_of :: pending_annotation

definition concurrencyPending :: "Lease \<Rightarrow> concurrency_error + concurrencyMember option" where
  "concurrencyPending lease =
     (case pending_annotation_of lease of
        NoPending \<Rightarrow> Inr None
      | Undecodable \<Rightarrow> Inl InvalidPending
      | Pending m \<Rightarrow>
          if Kind m \<noteq> ''WorkflowRun'' \<and> Kind m \<noteq> ''WorkflowJob'' \<or> Name m = [] \<or> UID m = []
          then Inl InvalidPending else Inr (Some m))"

definition setConcurrencyPending :: "Lease \<Rightarrow> concurrencyMember option \<Rightarrow> Lease" where
  "setConcurrencyPending lease m =
     lease\<lparr>pending_annotation_of := (case m of None \<Rightarrow> NoPending | Some m \<Rightarrow> Pending m)\<rparr>"

definition concurrencyHolder :: "Lease \<Rightarrow> concurrency_error + concurrencyMember option" where
  "concurrencyHolder lease =
     (case HolderIdentity lease of
        None \<Rightarrow> Inr None
      | Some v \<Rightarrow> if v = [] then Inr None else and_then (parseConcurrencyIdentity v) (\<lambda>m. Inr (Some m)))"

definition incrementLeaseTransitions :: "int option \<Rightarrow> int option" where
  "incrementLeaseTransitions v = Some (case v of None \<Rightarrow> 1 | Some n \<Rightarrow> int32 (n + 1))"

definition validateConcurrencyLease :: "Lease \<Rightarrow> concurrencyScope \<Rightarrow> string \<Rightarrow> bool" where
  "validateConcurrencyLease lease scope grp \<longleftrightarrow>
     project_annotation lease = project scope \<and>
     repository_annotation lease = int_str (repositoryID scope) \<and>
     equal_fold (group_annotation lease) grp"

definition take_lease :: "int \<Rightarrow> Lease \<Rightarrow> concurrencyMember \<Rightarrow> Lease" where
  "take_lease now lease m = lease\<lparr>HolderIdentity := Some (member_identity m), AcquireTime := Some now,
     LeaseTransitions := incrementLeaseTransitions (LeaseTransitions lease)\<rparr>"

section \<open>The decision of an attempt\<close>

text \<open>
  \<open>active\<close> is the answer of \<^verbatim>\<open>concurrencyMemberActive\<close>, or its error. The first part drops members
  that are no longer active and promotes the waiting one.
\<close>

type_synonym activity = "concurrencyMember \<Rightarrow> concurrency_error + bool"

definition drop_holder :: "activity \<Rightarrow> Lease \<times> concurrencyMember option \<Rightarrow>
    concurrency_error + Lease \<times> concurrencyMember option \<times> bool" where
  "drop_holder active p =
     (case p of
        (lease, None) \<Rightarrow> Inr (lease, None, False)
      | (lease, Some h) \<Rightarrow> and_then (active h) (\<lambda>a.
          if a then Inr (lease, Some h, False) else Inr (lease\<lparr>HolderIdentity := None\<rparr>, None, True)))"

definition drop_pending :: "activity \<Rightarrow> Lease \<times> concurrencyMember option \<Rightarrow>
    concurrency_error + Lease \<times> concurrencyMember option \<times> bool" where
  "drop_pending active p =
     (case p of
        (lease, None) \<Rightarrow> Inr (lease, None, False)
      | (lease, Some m) \<Rightarrow> and_then (active m) (\<lambda>a.
          if a then Inr (lease, Some m, False) else Inr (setConcurrencyPending lease None, None, True)))"

definition promote_pending :: "int \<Rightarrow> Lease \<Rightarrow> concurrencyMember option \<Rightarrow> concurrencyMember option \<Rightarrow> bool \<Rightarrow>
    Lease \<times> concurrencyMember option \<times> concurrencyMember option \<times> bool" where
  "promote_pending now lease holder pending changed =
     (case (holder, pending) of
        (None, Some m) \<Rightarrow> (setConcurrencyPending (take_lease now lease m) None, Some m, None, True)
      | _ \<Rightarrow> (lease, holder, pending, changed))"

definition acquire_refresh :: "int \<Rightarrow> activity \<Rightarrow> Lease \<Rightarrow>
    concurrency_error + Lease \<times> concurrencyMember option \<times> concurrencyMember option \<times> bool" where
  "acquire_refresh now active lease =
     and_then (concurrencyHolder lease) (\<lambda>holder.
     and_then (concurrencyPending lease) (\<lambda>pending.
     and_then (drop_holder active (lease, holder)) (\<lambda>(lease, holder, changed1).
     and_then (drop_pending active (lease, pending)) (\<lambda>(lease, pending, changed2).
       Inr (promote_pending now lease holder pending (changed1 \<or> changed2))))))"

definition same_member :: "concurrencyMember option \<Rightarrow> concurrencyMember \<Rightarrow> bool" where
  "same_member p m \<longleftrightarrow> (case p of None \<Rightarrow> False | Some q \<Rightarrow> member_identity q = member_identity m)"

definition acquire_gate :: "int \<Rightarrow> concurrencyMember \<Rightarrow> bool \<Rightarrow> Lease \<Rightarrow> concurrencyMember option \<Rightarrow>
    concurrencyMember option \<Rightarrow> bool \<Rightarrow> Lease \<times> concurrencyGateResult \<times> bool" where
  "acquire_gate now member registered lease holder pending changed =
     (if same_member holder member then
        (lease, \<lparr>gate_state = GateAcquired, displaced = None, cancelOwner = None\<rparr>, changed)
      else if same_member pending member then
        (lease, \<lparr>gate_state = GateWaiting, displaced = None,
           cancelOwner = (if member_cancels member then holder else None)\<rparr>, changed)
      else if registered \<and> holder \<noteq> None \<and> pending \<noteq> None then
        (lease, \<lparr>gate_state = GateSuperseded, displaced = None, cancelOwner = None\<rparr>, changed)
      else case holder of
        None \<Rightarrow> (take_lease now lease member,
           \<lparr>gate_state = GateAcquired, displaced = None, cancelOwner = None\<rparr>, True)
      | Some h \<Rightarrow> (setConcurrencyPending lease (Some member),
           \<lparr>gate_state = GateWaiting, displaced = pending,
            cancelOwner = (if member_cancels member then Some h else None)\<rparr>, True))"

definition acquire_decide :: "int \<Rightarrow> activity \<Rightarrow> concurrencyMember \<Rightarrow> bool \<Rightarrow> Lease \<Rightarrow>
    concurrency_error + Lease \<times> concurrencyGateResult \<times> bool" where
  "acquire_decide now active member registered lease =
     and_then (acquire_refresh now active lease) (\<lambda>(lease, holder, pending, changed).
       Inr (acquire_gate now member registered lease holder pending changed))"

text \<open>What a release does with the Lease: nothing, a write, or the deletion.\<close>

datatype release_action = KeepLease | WriteLease Lease | DeleteLease

definition release_decide :: "int \<Rightarrow> activity \<Rightarrow> concurrencyMember \<Rightarrow> Lease \<Rightarrow> concurrency_error + release_action" where
  "release_decide now active member lease =
     and_then (concurrencyHolder lease) (\<lambda>holder.
     and_then (concurrencyPending lease) (\<lambda>pending.
       let (lease, pending, changed) =
             (if same_member pending member then (setConcurrencyPending lease None, None, True)
              else (lease, pending, False))
       in if \<not> same_member holder member then
            (if changed then Inr (WriteLease lease) else Inr KeepLease)
          else case pending of
            None \<Rightarrow> Inr DeleteLease
          | Some m \<Rightarrow> and_then (active m) (\<lambda>a.
              if a then Inr (WriteLease (setConcurrencyPending (take_lease now lease m) None))
              else Inr DeleteLease)))"

section \<open>The objects of a namespace\<close>

record NativeJob =
  native_name :: string
  native_controller :: string
  native_run_uid :: string
  native_job_uid :: string
  native_conditions :: "(string \<times> bool) list"

record Pod =
  pod_run_uid :: string
  pod_job_uid :: string
  Phase :: string

record cluster =
  leases :: "string \<rightharpoonup> nat \<times> Lease"
  next_version :: nat
  runs :: "WorkflowRun list"
  jobs :: "WorkflowJob list"
  native_jobs :: "NativeJob list"
  pods :: "Pod list"
  unavailable :: "string \<Rightarrow> bool"

definition jobResult :: "NativeJob \<Rightarrow> condition_status" where
  "jobResult job =
     (case find (\<lambda>(t, st). st \<and> (t = ''Complete'' \<or> t = ''Failed'')) (native_conditions job) of
        None \<Rightarrow> ConditionUnknown
      | Some (t, _) \<Rightarrow> if t = ''Complete'' then ConditionTrue else ConditionFalse)"

definition jobTerminal :: "NativeJob \<Rightarrow> bool" where
  "jobTerminal job \<longleftrightarrow> jobResult job \<noteq> ConditionUnknown"

definition podActive :: "Pod \<Rightarrow> bool" where
  "podActive pod \<longleftrightarrow> Phase pod \<noteq> ''Succeeded'' \<and> Phase pod \<noteq> ''Failed''"

definition api_read :: "cluster \<Rightarrow> string \<Rightarrow> 'a \<Rightarrow> concurrency_error + 'a" where
  "api_read cl what v = (if unavailable cl what then Inl (ApiFailed what) else Inr v)"

definition get_run :: "cluster \<Rightarrow> string \<Rightarrow> concurrency_error + WorkflowRun option" where
  "get_run cl name = api_read cl ''runs'' (find (\<lambda>r. run_name r = name) (runs cl))"

definition get_job :: "cluster \<Rightarrow> string \<Rightarrow> concurrency_error + WorkflowJob option" where
  "get_job cl name = api_read cl ''jobs'' (find (\<lambda>j. job_name j = name) (jobs cl))"

definition workloads_active :: "cluster \<Rightarrow> (NativeJob \<Rightarrow> bool) \<Rightarrow> (Pod \<Rightarrow> bool) \<Rightarrow> concurrency_error + bool" where
  "workloads_active cl job_sel pod_sel =
     and_then (api_read cl ''native_jobs'' (list_ex (\<lambda>j. \<not> jobTerminal j) (filter job_sel (native_jobs cl)))) (\<lambda>a.
       if a then Inr True else api_read cl ''pods'' (list_ex podActive (filter pod_sel (pods cl))))"

definition activeRuntimeWorkloads :: "cluster \<Rightarrow> string \<Rightarrow> concurrency_error + bool" where
  "activeRuntimeWorkloads cl uid = workloads_active cl (\<lambda>j. native_run_uid j = uid) (\<lambda>p. pod_run_uid p = uid)"

definition workflowJobUIDExecutionActive :: "cluster \<Rightarrow> string \<Rightarrow> concurrency_error + bool" where
  "workflowJobUIDExecutionActive cl uid =
     workloads_active cl (\<lambda>j. native_job_uid j = uid) (\<lambda>p. pod_job_uid p = uid)"

definition workflowJobExecutionActive :: "cluster \<Rightarrow> WorkflowJob \<Rightarrow> concurrency_error + bool" where
  "workflowJobExecutionActive cl job =
     and_then (api_read cl ''native_jobs'' (find (\<lambda>j. native_name j = job_name job) (native_jobs cl))) (\<lambda>found.
       let pods_active = api_read cl ''pods'' (list_ex podActive (filter (\<lambda>p. pod_job_uid p = job_uid job) (pods cl)))
       in case found of
            None \<Rightarrow> pods_active
          | Some nj \<Rightarrow>
              if native_controller nj \<noteq> job_uid job then Inl (NotControlled (native_name nj))
              else if \<not> jobTerminal nj then Inr True else pods_active)"

definition concurrencyMemberActive :: "cluster \<Rightarrow> activity" where
  "concurrencyMemberActive cl member =
     (if Kind member = ''WorkflowRun'' then
        and_then (get_run cl (Name member)) (\<lambda>found.
          case found of
            None \<Rightarrow> activeRuntimeWorkloads cl (UID member)
          | Some run \<Rightarrow> if run_uid run \<noteq> UID member then activeRuntimeWorkloads cl (UID member)
                        else Inr (\<not> terminalRun run))
      else if Kind member = ''WorkflowJob'' then
        and_then (get_job cl (Name member)) (\<lambda>found.
          case found of
            None \<Rightarrow> workflowJobUIDExecutionActive cl (UID member)
          | Some job \<Rightarrow> if job_uid job \<noteq> UID member then workflowJobUIDExecutionActive cl (UID member)
                        else if \<not> workflowJobTerminal job then Inr True
                        else workflowJobExecutionActive cl job)
      else Inl (InvalidKind (Kind member)))"

section \<open>The first Lease of a group\<close>

definition workflowRunMatchesConcurrencyScope :: "WorkflowRun \<Rightarrow> concurrencyScope \<Rightarrow> bool" where
  "workflowRunMatchesConcurrencyScope run scope \<longleftrightarrow> ProjectRef (Spec run) = project scope \<and>
     (case Source (Spec run) of None \<Rightarrow> False | Some g \<Rightarrow> RepositoryID g = repositoryID scope)"

definition waitingForConcurrencyCondition :: "condition option \<Rightarrow> bool" where
  "waitingForConcurrencyCondition c =
     (case c of None \<Rightarrow> False
      | Some c \<Rightarrow> Status c = ConditionUnknown \<and>
          (Reason c = ''WaitingForConcurrency'' \<or> Reason c = ''WaitingForConcurrencyCancellation''))"

definition planned_condition :: "WorkflowRun \<Rightarrow> condition option" where
  "planned_condition run = find_condition (run_conditions run) ''Planned''"

definition sortConcurrencyCandidates :: "WorkflowRun list \<Rightarrow> WorkflowRun list" where
  "sortConcurrencyCandidates rs = sort_key run_created (sort_key run_name rs)"

definition bootstrapWorkflowRunConcurrency :: "cluster \<Rightarrow> concurrencyScope \<Rightarrow> string \<Rightarrow>
    concurrency_error + concurrencyMember option \<times> concurrencyMember option" where
  "bootstrapWorkflowRunConcurrency cl scope grp =
     and_then (api_read cl ''runs'' (runs cl)) (\<lambda>rs.
       let candidates = filter (\<lambda>run. \<not> terminalRun run \<and>
             (case workflowRunConcurrencyDecision run of None \<Rightarrow> False | Some d \<Rightarrow> equal_fold (Group d) grp) \<and>
             workflowRunMatchesConcurrencyScope run scope) rs;
           is_planned = (\<lambda>run. case planned_condition run of None \<Rightarrow> False | Some c \<Rightarrow> Status c = ConditionTrue);
           holders = sortConcurrencyCandidates (filter is_planned candidates);
           pending = sortConcurrencyCandidates
             (filter (\<lambda>run. \<not> is_planned run \<and> waitingForConcurrencyCondition (planned_condition run)) candidates);
           holder = (case holders of [] \<Rightarrow> None | r # _ \<Rightarrow> Some (workflowRunConcurrencyMember r));
           waiting = (if pending = [] then None else Some (workflowRunConcurrencyMember (last pending)))
       in if holder = None \<and> waiting \<noteq> None then Inr (waiting, None) else Inr (holder, waiting))"

section \<open>Acquiring and releasing\<close>

datatype write_result = Written | Conflicted | WriteError string

definition get_lease :: "cluster \<Rightarrow> string \<Rightarrow> concurrency_error + (nat \<times> Lease) option" where
  "get_lease cl key = api_read cl ''leases'' (leases cl key)"

definition put_lease :: "cluster \<Rightarrow> string \<Rightarrow> Lease \<Rightarrow> cluster" where
  "put_lease cl key lease = cl\<lparr>leases := (leases cl)(key \<mapsto> (next_version cl, lease)), next_version := next_version cl + 1\<rparr>"

definition create_lease :: "cluster \<Rightarrow> string \<Rightarrow> Lease \<Rightarrow> cluster \<times> write_result" where
  "create_lease cl key lease =
     (if unavailable cl ''lease-writes'' then (cl, WriteError ''create'')
      else if leases cl key \<noteq> None then (cl, Conflicted)
      else (put_lease cl key lease, Written))"

text \<open>An update of an object that has gone and one of an outdated version are handled alike.\<close>

definition update_lease :: "cluster \<Rightarrow> string \<Rightarrow> nat \<Rightarrow> Lease \<Rightarrow> cluster \<times> write_result" where
  "update_lease cl key version lease =
     (if unavailable cl ''lease-writes'' then (cl, WriteError ''update'')
      else if map_option fst (leases cl key) \<noteq> Some version then (cl, Conflicted)
      else (put_lease cl key lease, Written))"

definition delete_lease :: "cluster \<Rightarrow> string \<Rightarrow> nat \<Rightarrow> cluster \<times> write_result" where
  "delete_lease cl key version =
     (if unavailable cl ''lease-writes'' then (cl, WriteError ''delete'')
      else case leases cl key of
        None \<Rightarrow> (cl, Written)
      | Some (v, _) \<Rightarrow> if v \<noteq> version then (cl, Conflicted)
                      else (cl\<lparr>leases := (leases cl)(key := None)\<rparr>, Written))"

definition new_lease :: "int \<Rightarrow> concurrencyScope \<Rightarrow> string \<Rightarrow> concurrencyMember \<Rightarrow> concurrencyMember option \<Rightarrow> Lease" where
  "new_lease now scope grp holder pending = setConcurrencyPending
     \<lparr>HolderIdentity = Some (member_identity holder), AcquireTime = Some now, LeaseTransitions = None,
      group_annotation = grp, project_annotation = project scope,
      repository_annotation = int_str (repositoryID scope), pending_annotation_of = NoPending\<rparr> pending"

fun acquire_attempts :: "nat \<Rightarrow> (nat \<Rightarrow> cluster \<Rightarrow> cluster) \<Rightarrow> int \<Rightarrow> string \<Rightarrow> concurrencyScope \<Rightarrow> string \<Rightarrow>
    concurrencyMember \<Rightarrow> bool \<Rightarrow> cluster \<Rightarrow> cluster \<times> (concurrency_error + concurrencyGateResult)" where
  "acquire_attempts 0 other now key scope grp member registered cl = (cl, Inl ChangedTooFrequently)"
| "acquire_attempts (Suc n) other now key scope grp member registered cl =
     (case get_lease cl key of
        Inl e \<Rightarrow> (cl, Inl e)
      | Inr None \<Rightarrow>
          (case bootstrapWorkflowRunConcurrency cl scope grp of
             Inl e \<Rightarrow> (cl, Inl e)
           | Inr (holderMember, pendingMember) \<Rightarrow>
               (let holder = (case holderMember of None \<Rightarrow> member | Some m \<Rightarrow> m)
                in case create_lease (other n cl) key (new_lease now scope grp holder pendingMember) of
                     (cl, WriteError e) \<Rightarrow> (cl, Inl (ApiFailed e))
                   | (cl, _) \<Rightarrow> acquire_attempts n other now key scope grp member registered cl))
      | Inr (Some (version, lease)) \<Rightarrow>
          if \<not> validateConcurrencyLease lease scope grp then (cl, Inl LeaseMismatch)
          else case acquire_decide now (concurrencyMemberActive cl) member registered lease of
            Inl e \<Rightarrow> (cl, Inl e)
          | Inr (lease', result, changed) \<Rightarrow>
              if \<not> changed then (cl, Inr result)
              else case update_lease (other n cl) key version lease' of
                (cl, Written) \<Rightarrow> (cl, Inr result)
              | (cl, Conflicted) \<Rightarrow> acquire_attempts n other now key scope grp member registered cl
              | (cl, WriteError e) \<Rightarrow> (cl, Inl (ApiFailed e)))"

definition acquireConcurrency :: "(string \<Rightarrow> string) \<Rightarrow> (nat \<Rightarrow> cluster \<Rightarrow> cluster) \<Rightarrow> int \<Rightarrow> concurrencyScope \<Rightarrow> string \<Rightarrow>
    concurrencyMember \<Rightarrow> bool \<Rightarrow> cluster \<Rightarrow> cluster \<times> (concurrency_error + concurrencyGateResult)" where
  "acquireConcurrency digest other now scope grp member registered cl =
     acquire_attempts 5 other now (concurrencyLeaseName digest scope grp) scope grp member registered cl"

fun release_attempts :: "nat \<Rightarrow> (nat \<Rightarrow> cluster \<Rightarrow> cluster) \<Rightarrow> int \<Rightarrow> string \<Rightarrow> concurrencyScope \<Rightarrow> string \<Rightarrow>
    concurrencyMember \<Rightarrow> cluster \<Rightarrow> cluster \<times> concurrency_error option" where
  "release_attempts 0 other now key scope grp member cl = (cl, Some ChangedTooFrequently)"
| "release_attempts (Suc n) other now key scope grp member cl =
     (case get_lease cl key of
        Inl e \<Rightarrow> (cl, Some e)
      | Inr None \<Rightarrow> (cl, None)
      | Inr (Some (version, lease)) \<Rightarrow>
          if \<not> validateConcurrencyLease lease scope grp then (cl, Some LeaseMismatch)
          else case release_decide now (concurrencyMemberActive cl) member lease of
            Inl e \<Rightarrow> (cl, Some e)
          | Inr KeepLease \<Rightarrow> (cl, None)
          | Inr (WriteLease lease') \<Rightarrow>
              (case update_lease (other n cl) key version lease' of
                 (cl, Written) \<Rightarrow> (cl, None)
               | (cl, Conflicted) \<Rightarrow> release_attempts n other now key scope grp member cl
               | (cl, WriteError e) \<Rightarrow> (cl, Some (ApiFailed e)))
          | Inr DeleteLease \<Rightarrow>
              (case delete_lease (other n cl) key version of
                 (cl, Written) \<Rightarrow> (cl, None)
               | (cl, Conflicted) \<Rightarrow> release_attempts n other now key scope grp member cl
               | (cl, WriteError e) \<Rightarrow> (cl, Some (ApiFailed e))))"

definition releaseConcurrency :: "(string \<Rightarrow> string) \<Rightarrow> (nat \<Rightarrow> cluster \<Rightarrow> cluster) \<Rightarrow> int \<Rightarrow> concurrencyScope \<Rightarrow> string \<Rightarrow>
    concurrencyMember \<Rightarrow> cluster \<Rightarrow> cluster \<times> concurrency_error option" where
  "releaseConcurrency digest other now scope grp member cl =
     release_attempts 5 other now (concurrencyLeaseName digest scope grp) scope grp member cl"

section \<open>Cancellation of members\<close>

definition update_run :: "cluster \<Rightarrow> WorkflowRun \<Rightarrow> cluster \<times> concurrency_error option" where
  "update_run cl run =
     (if unavailable cl ''run-writes'' then (cl, Some (ApiFailed ''run-writes''))
      else (cl\<lparr>runs := map (\<lambda>r. if run_name r = run_name run then run else r) (runs cl)\<rparr>, None))"

definition update_job :: "cluster \<Rightarrow> WorkflowJob \<Rightarrow> cluster \<times> concurrency_error option" where
  "update_job cl job =
     (if unavailable cl ''job-writes'' then (cl, Some (ApiFailed ''job-writes''))
      else (cl\<lparr>jobs := map (\<lambda>j. if job_name j = job_name job then job else j) (jobs cl)\<rparr>, None))"

definition cancelWorkflowRun :: "cluster \<Rightarrow> WorkflowRun \<Rightarrow> cluster \<times> concurrency_error option" where
  "cancelWorkflowRun cl run =
     (if CancelRequested (Spec run) then (cl, None)
      else update_run cl (run\<lparr>Spec := (Spec run)\<lparr>CancelRequested := True\<rparr>\<rparr>))"

definition requestConcurrencyCancellation :: "int \<Rightarrow> cluster \<Rightarrow> concurrencyMember \<Rightarrow> bool \<Rightarrow>
    cluster \<times> concurrency_error option" where
  "requestConcurrencyCancellation now cl member superseded =
     (let (reason, msg) =
            (if superseded
             then (''ConcurrencySuperseded'', ''Another pending member replaced this concurrency member'')
             else (''ConcurrencyCancelled'', ''Another concurrency member requested cancellation''))
      in if Kind member = ''WorkflowRun'' then
           (case get_run cl (Name member) of
              Inl e \<Rightarrow> (cl, Some e)
            | Inr None \<Rightarrow> (cl, None)
            | Inr (Some run) \<Rightarrow>
                if run_uid run \<noteq> UID member \<or> terminalRun run then (cl, None) else cancelWorkflowRun cl run)
         else if Kind member = ''WorkflowJob'' then
           (case get_job cl (Name member) of
              Inl e \<Rightarrow> (cl, Some e)
            | Inr None \<Rightarrow> (cl, None)
            | Inr (Some job) \<Rightarrow>
                if job_uid job \<noteq> UID member \<or> workflowJobTerminal job then (cl, None)
                else if RunnerRef job = None then
                  update_job cl (completeUnscheduledWorkflowJob now job Cancelled reason msg)
                else update_job cl (setWorkflowJobCancellationRequested job True reason msg))
         else (cl, Some (InvalidKind (Kind member))))"

definition request_optional :: "int \<Rightarrow> cluster \<Rightarrow> concurrencyMember option \<Rightarrow> bool \<Rightarrow> cluster \<times> concurrency_error option" where
  "request_optional now cl m superseded =
     (case m of None \<Rightarrow> (cl, None) | Some m \<Rightarrow> requestConcurrencyCancellation now cl m superseded)"

text \<open>Whether the run has to wait.\<close>

definition handleConcurrency :: "(string \<Rightarrow> string) \<Rightarrow> (nat \<Rightarrow> cluster \<Rightarrow> cluster) \<Rightarrow> int \<Rightarrow> cluster \<Rightarrow> WorkflowRun \<Rightarrow>
    cluster \<times> (concurrency_error + bool)" where
  "handleConcurrency digest other now cl run =
     (case workflowRunConcurrencyDecision run of
        None \<Rightarrow> (cl, Inr False)
      | Some decision \<Rightarrow>
          (case workflowRunConcurrencyScope run of
             Inl e \<Rightarrow> (cl, Inl e)
           | Inr scope \<Rightarrow>
               (let planned = planned_condition run;
                    registered = (waitingForConcurrencyCondition planned \<or>
                      (case planned of None \<Rightarrow> False | Some c \<Rightarrow> Status c = ConditionTrue))
                in case acquireConcurrency digest other now scope (Group decision)
                       (workflowRunConcurrencyMember run) registered cl of
                     (cl, Inl e) \<Rightarrow> (cl, Inl e)
                   | (cl, Inr result) \<Rightarrow>
                       (case request_optional now cl (displaced result) True of
                          (cl, Some e) \<Rightarrow> (cl, Inl e)
                        | (cl, None) \<Rightarrow>
                            (case request_optional now cl (cancelOwner result) False of
                               (cl, Some e) \<Rightarrow> (cl, Inl e)
                             | (cl, None) \<Rightarrow>
                                 if gate_state result = GateSuperseded then
                                   (case cancelWorkflowRun cl run of
                                      (cl, Some e) \<Rightarrow> (cl, Inl e)
                                    | (cl, None) \<Rightarrow> (cl, Inr True))
                                 else (cl, Inr (gate_state result = GateWaiting)))))))"

section \<open>Identities\<close>

lemma parse_identity_back: "parseConcurrencyIdentity v = Inr m \<Longrightarrow> member_identity m = v"
  by (auto simp: parseConcurrencyIdentity_def splitN3_def member_identity_def
      split: list.splits if_splits prod.splits bool.splits dest!: cut_found)

lemma member_identity_nonempty [simp]: "member_identity m \<noteq> []"
  by (simp add: member_identity_def)

definition valid_member :: "concurrencyMember \<Rightarrow> bool" where
  "valid_member m \<longleftrightarrow> Kind m \<in> {''WorkflowRun'', ''WorkflowJob''} \<and> Name m \<noteq> [] \<and> CHR '':'' \<notin> set (Name m) \<and> UID m \<noteq> []"

lemma cut_char: "c \<notin> set u \<Longrightarrow> cut (u @ c # v) [c] = (u, v, True)"
  by (simp add: cut_def str_index_single_append)

text \<open>
  The holder written into a Lease is read back as the same member: kind, name and UID survive the
  identity string for every member the API can name, and two such members with the same identity are
  the same object.
\<close>

theorem identity_roundtrip:
  assumes "valid_member m"
  shows "parseConcurrencyIdentity (member_identity m) = Inr (m\<lparr>member_cancels := False\<rparr>)"
proof -
  have "CHR '':'' \<notin> set (Kind m)" using assms by (auto simp: valid_member_def)
  then have "cut (member_identity m) '':'' = (Kind m, Name m @ '':'' @ UID m, True)"
    using cut_char [of "CHR '':''" "Kind m" "Name m @ '':'' @ UID m"] by (simp add: member_identity_def)
  moreover have "cut (Name m @ '':'' @ UID m) '':'' = (Name m, UID m, True)"
    using assms cut_char [of "CHR '':''" "Name m" "UID m"] by (simp add: valid_member_def)
  ultimately show ?thesis
    using assms by (auto simp: parseConcurrencyIdentity_def splitN3_def valid_member_def)
qed

theorem identity_roundtrip_witness:
  "parseConcurrencyIdentity (member_identity \<lparr>Kind = ''WorkflowJob'', Name = ''build'', UID = ''a:b'', member_cancels = True\<rparr>) =
     Inr \<lparr>Kind = ''WorkflowJob'', Name = ''build'', UID = ''a:b'', member_cancels = False\<rparr>"
  using identity_roundtrip [of "\<lparr>Kind = ''WorkflowJob'', Name = ''build'', UID = ''a:b'', member_cancels = True\<rparr>"]
  by (simp add: valid_member_def)

section \<open>Decisions\<close>

lemma setConcurrencyPending_holder [simp]: "HolderIdentity (setConcurrencyPending l p) = HolderIdentity l"
  by (simp add: setConcurrencyPending_def)

lemma take_lease_holder [simp]: "HolderIdentity (take_lease now l m) = Some (member_identity m)"
  by (simp add: take_lease_def)

lemma concurrencyHolder_Some: "concurrencyHolder l = Inr (Some h) \<Longrightarrow> HolderIdentity l = Some (member_identity h)"
  by (auto simp: concurrencyHolder_def and_then_eq_Inr dest: parse_identity_back split: option.splits if_splits)

lemma drop_holder_facts:
  assumes "drop_holder active (l, h0) = Inr (l1, h1, c)"
  shows "h1 = Some h \<Longrightarrow> h0 = Some h \<and> l1 = l" "h0 = Some h \<Longrightarrow> active h = Inr True \<Longrightarrow> h1 = Some h \<and> l1 = l"
    "pending_annotation_of l1 = pending_annotation_of l"
  using assms by (auto simp: drop_holder_def and_then_eq_Inr split: option.splits if_splits)

lemma drop_pending_facts:
  assumes "drop_pending active (l, p0) = Inr (l1, p1, c)"
  shows "HolderIdentity l1 = HolderIdentity l" "p1 = Some m \<Longrightarrow> p0 = Some m \<and> l1 = l"
  using assms by (auto simp: drop_pending_def and_then_eq_Inr split: option.splits if_splits)

lemma refresh_cases:
  assumes "acquire_refresh now active l = Inr q"
  obtains h0 p0 l1 h1 c1 l2 p1 c2 where "concurrencyHolder l = Inr h0" "concurrencyPending l = Inr p0"
    "drop_holder active (l, h0) = Inr (l1, h1, c1)" "drop_pending active (l1, p0) = Inr (l2, p1, c2)"
    "q = promote_pending now l2 h1 p1 (c1 \<or> c2)"
  using assms by (auto simp: acquire_refresh_def and_then_eq_Inr)

lemma refresh_holder:
  assumes "acquire_refresh now active l = Inr (l', holder, pending, changed)"
  shows "holder = Some h \<Longrightarrow> HolderIdentity l' = Some (member_identity h)"
    and "holder = None \<Longrightarrow> pending = None"
    and "concurrencyHolder l = Inr (Some h) \<Longrightarrow> active h = Inr True \<Longrightarrow> HolderIdentity l' = HolderIdentity l \<and> holder = Some h"
proof -
  obtain h0 p0 l1 h1 c1 l2 p1 c2 where r: "concurrencyHolder l = Inr h0" "concurrencyPending l = Inr p0"
      "drop_holder active (l, h0) = Inr (l1, h1, c1)" "drop_pending active (l1, p0) = Inr (l2, p1, c2)"
    and fin: "(l', holder, pending, changed) = promote_pending now l2 h1 p1 (c1 \<or> c2)"
    using refresh_cases [OF assms] .
  note dh = drop_holder_facts [OF r(3)] and dp = drop_pending_facts [OF r(4)]
  show "HolderIdentity l' = Some (member_identity h)" if "holder = Some h"
    using that fin r(1) dh(1) [of h] dp(1) concurrencyHolder_Some [of l h]
    by (cases h1; cases p1) (auto simp: promote_pending_def)
  show "pending = None" if "holder = None" using that fin by (cases h1; cases p1) (auto simp: promote_pending_def)
  show "HolderIdentity l' = HolderIdentity l \<and> holder = Some h"
    if "concurrencyHolder l = Inr (Some h)" "active h = Inr True"
    using that fin r(1) dh(2) [of h] dp(1) by (auto simp: promote_pending_def)
qed

lemma decide_cases:
  assumes "acquire_decide now active m reg l = Inr q"
  obtains l1 holder pending c where "acquire_refresh now active l = Inr (l1, holder, pending, c)"
    "q = acquire_gate now m reg l1 holder pending c"
  using assms by (auto simp: acquire_decide_def and_then_eq_Inr)

lemma gate_holder:
  assumes "acquire_gate now m reg l holder pending c = (l', r, ch)"
  shows "holder \<noteq> None \<Longrightarrow> HolderIdentity l' = HolderIdentity l"
    and "gate_state r = GateAcquired \<Longrightarrow> same_member holder m \<and> l' = l \<or> l' = take_lease now l m"
  using assms by (auto simp: acquire_gate_def split: if_splits option.splits)

lemma decide_acquired:
  assumes "acquire_decide now active m reg l = Inr (l', r, ch)" "gate_state r = GateAcquired"
  shows "HolderIdentity l' = Some (member_identity m)"
proof -
  obtain l1 holder pending c where d: "acquire_refresh now active l = Inr (l1, holder, pending, c)"
    and g: "(l', r, ch) = acquire_gate now m reg l1 holder pending c"
    by (rule decide_cases [OF assms(1)])
  from gate_holder(2) [OF g [symmetric] assms(2)] refresh_holder(1) [OF d] show ?thesis
    by (auto simp: same_member_def split: option.splits)
qed

lemma decide_keeps_active_holder:
  assumes "acquire_decide now active m reg l = Inr (l', r, ch)"
    "concurrencyHolder l = Inr (Some h)" "active h = Inr True"
  shows "HolderIdentity l' = HolderIdentity l \<and>
    (gate_state r = GateAcquired \<longrightarrow> member_identity h = member_identity m)"
proof -
  obtain l1 holder pending c where d: "acquire_refresh now active l = Inr (l1, holder, pending, c)"
    and g: "(l', r, ch) = acquire_gate now m reg l1 holder pending c"
    by (rule decide_cases [OF assms(1)])
  from refresh_holder(3) [OF d assms(2,3)] gate_holder(1) [OF g [symmetric]]
  have "HolderIdentity l' = HolderIdentity l" by simp
  with decide_acquired [OF assms(1)] concurrencyHolder_Some [OF assms(2)] show ?thesis by auto
qed

section \<open>Mutual exclusion\<close>

text \<open>
  The life of one group as a state machine. A successful write of a Lease happens on the version that
  was read, so each successful call is one atomic step on the Lease; failed attempts change nothing.
  \<open>granted\<close> holds the members that were told that they own the group and have not released it,
  \<open>active\<close> the members that are not finished. A finished member stays finished: a new object has a
  new UID and so a new identity.
\<close>

record gate =
  g_lease :: "Lease option"
  granted :: "string set"
  active_members :: "string set"

definition active_in :: "string set \<Rightarrow> activity" where
  "active_in A m = Inr (member_identity m \<in> A)"

definition apply_release :: "release_action \<Rightarrow> Lease \<Rightarrow> Lease option" where
  "apply_release act l = (case act of KeepLease \<Rightarrow> Some l | WriteLease l' \<Rightarrow> Some l' | DeleteLease \<Rightarrow> None)"

inductive gate_step :: "gate \<Rightarrow> gate \<Rightarrow> bool" where
  create: "g_lease s = None \<Longrightarrow> gate_step s (s\<lparr>g_lease := Some (new_lease now scope grp h p)\<rparr>)"
| acquire: "g_lease s = Some l \<Longrightarrow> acquire_decide now (active_in (active_members s)) m reg l = Inr (l', r, ch) \<Longrightarrow>
    gate_step s (s\<lparr>g_lease := Some l',
      granted := (if gate_state r = GateAcquired then insert (member_identity m) (granted s) else granted s)\<rparr>)"
| release: "g_lease s = Some l \<Longrightarrow> release_decide now (active_in (active_members s)) m l = Inr act \<Longrightarrow>
    gate_step s (s\<lparr>g_lease := apply_release act l, granted := granted s - {member_identity m}\<rparr>)"
| finish: "gate_step s (s\<lparr>active_members := active_members s - {x}\<rparr>)"
| start: "x \<notin> granted s \<Longrightarrow> gate_step s (s\<lparr>active_members := insert x (active_members s)\<rparr>)"

inductive_cases gate_stepE: "gate_step s s'"

definition gate_start :: "gate \<Rightarrow> bool" where
  "gate_start s \<longleftrightarrow> g_lease s = None \<and> granted s = {}"

definition gate_inv :: "gate \<Rightarrow> bool" where
  "gate_inv s \<longleftrightarrow> (\<forall>x \<in> granted s. x \<noteq> []) \<and>
     (\<forall>x \<in> granted s \<inter> active_members s. \<exists>l. g_lease s = Some l \<and> HolderIdentity l = Some x)"

lemma holder_of_identity:
  assumes "HolderIdentity l = Some x" "x \<noteq> []" "concurrencyHolder l = Inr p"
  shows "\<exists>h. p = Some h \<and> member_identity h = x"
  using assms by (auto simp: concurrencyHolder_def and_then_eq_Inr dest: parse_identity_back)

lemma acquire_inv:
  assumes inv: "gate_inv s" and l: "g_lease s = Some l"
    and d: "acquire_decide now (active_in (active_members s)) m reg l = Inr (l', r, ch)"
  shows "gate_inv (s\<lparr>g_lease := Some l',
      granted := (if gate_state r = GateAcquired then insert (member_identity m) (granted s) else granted s)\<rparr>)"
proof -
  obtain p where p: "concurrencyHolder l = Inr p"
    using d by (auto simp: acquire_decide_def acquire_refresh_def and_then_eq_Inr)
  have keep: "HolderIdentity l' = Some x" if "x \<in> granted s" "x \<in> active_members s" for x
  proof -
    from inv l that have h: "HolderIdentity l = Some x" "x \<noteq> []" by (auto simp: gate_inv_def)
    from holder_of_identity [OF h p] obtain h where h': "p = Some h" "member_identity h = x" by blast
    with that have "active_in (active_members s) h = Inr True" by (simp add: active_in_def)
    from decide_keeps_active_holder [OF d _ this] h' p h show ?thesis by simp
  qed
  show ?thesis
    using inv keep decide_acquired [OF d] by (auto simp: gate_inv_def)
qed

lemma release_holder:
  assumes "release_decide now act m l = Inr a" "concurrencyHolder l = Inr p" "\<not> same_member p m"
  shows "\<exists>l'. apply_release a l = Some l' \<and> HolderIdentity l' = HolderIdentity l"
  using assms by (auto simp: release_decide_def and_then_eq_Inr apply_release_def Let_def split: if_splits prod.splits)

lemma release_inv:
  assumes inv: "gate_inv s" and l: "g_lease s = Some l"
    and d: "release_decide now (active_in (active_members s)) m l = Inr a"
  shows "gate_inv (s\<lparr>g_lease := apply_release a l, granted := granted s - {member_identity m}\<rparr>)"
proof -
  obtain p where p: "concurrencyHolder l = Inr p" using d by (auto simp: release_decide_def and_then_eq_Inr)
  have "\<exists>l'. apply_release a l = Some l' \<and> HolderIdentity l' = Some x"
    if x: "x \<in> granted s" "x \<in> active_members s" "x \<noteq> member_identity m" for x
  proof -
    from inv l x have h: "HolderIdentity l = Some x" "x \<noteq> []" by (auto simp: gate_inv_def)
    from holder_of_identity [OF h p] x(3) have "\<not> same_member p m" by (auto simp: same_member_def)
    from release_holder [OF d p this] h show ?thesis by simp
  qed
  with inv show ?thesis by (auto simp: gate_inv_def)
qed

lemma gate_step_inv: "gate_step s s' \<Longrightarrow> gate_inv s \<Longrightarrow> gate_inv s'"
proof (induction rule: gate_step.induct)
  case (acquire s l now m reg l' r ch)
  then show ?case by (rule acquire_inv [rotated])
next
  case (release s l now m act)
  then show ?case by (rule release_inv [rotated])
qed (auto simp: gate_inv_def)

lemma gate_reachable_inv: "gate_step\<^sup>*\<^sup>* s s' \<Longrightarrow> gate_start s \<Longrightarrow> gate_inv s'"
proof (induction rule: rtranclp_induct)
  case base
  then show ?case by (simp add: gate_start_def gate_inv_def)
qed (rule gate_step_inv)

text \<open>
  C4. A concurrency group never has two owners: whatever the order of acquisitions, releases, new and
  finished members and re-created Leases, at most one unfinished member holds a grant, and the Lease
  names it.
\<close>

theorem one_owner_per_group:
  assumes "gate_start s" "gate_step\<^sup>*\<^sup>* s s'"
    and "x \<in> granted s' \<inter> active_members s'" "y \<in> granted s' \<inter> active_members s'"
  shows "x = y \<and> (\<exists>l. g_lease s' = Some l \<and> HolderIdentity l = Some x)"
  using gate_reachable_inv [OF assms(2,1)] assms(3,4) unfolding gate_inv_def
  by (metis option.inject)

definition demo_member :: "string \<Rightarrow> concurrencyMember" where
  "demo_member n = \<lparr>Kind = ''WorkflowRun'', Name = n, UID = n, member_cancels = False\<rparr>"

definition demo_scope :: concurrencyScope where
  "demo_scope = \<lparr>project = ''p'', repositoryID = 1\<rparr>"

definition demo_gate :: "Lease option \<Rightarrow> string set \<Rightarrow> gate" where
  "demo_gate l G = \<lparr>g_lease = l, granted = G, active_members = {member_identity (demo_member ''a'')}\<rparr>"

theorem one_owner_per_group_witness:
  "\<exists>s. gate_step\<^sup>*\<^sup>* (demo_gate None {}) s \<and> member_identity (demo_member ''a'') \<in> granted s \<inter> active_members s \<and>
     (\<exists>l. g_lease s = Some l \<and> HolderIdentity l = Some (member_identity (demo_member ''a'')))"
proof -
  let ?a = "member_identity (demo_member ''a'')"
  let ?l = "new_lease 0 demo_scope ''g'' (demo_member ''a'') None"
  have 1: "gate_step (demo_gate None {}) (demo_gate (Some ?l) {})"
    using gate_step.create [of "demo_gate None {}" 0 demo_scope "''g''" "demo_member ''a''" None] by (simp add: demo_gate_def)
  have "concurrencyHolder ?l = Inr (Some (demo_member ''a''))" "concurrencyPending ?l = Inr None" by code_simp+
  then have "acquire_decide 0 (active_in (active_members (demo_gate (Some ?l) {}))) (demo_member ''a'') False ?l =
      Inr (?l, \<lparr>gate_state = GateAcquired, displaced = None, cancelOwner = None\<rparr>, False)"
    by (simp add: acquire_decide_def acquire_refresh_def drop_holder_def drop_pending_def active_in_def
        promote_pending_def acquire_gate_def same_member_def demo_gate_def)
  from gate_step.acquire [of "demo_gate (Some ?l) {}" ?l, OF _ this]
  have 2: "gate_step (demo_gate (Some ?l) {}) (demo_gate (Some ?l) {?a})" by (simp add: demo_gate_def)
  have run: "gate_step\<^sup>*\<^sup>* (demo_gate None {}) (demo_gate (Some ?l) {?a})"
    by (rule rtranclp.rtrancl_into_rtrancl [of gate_step], rule rtranclp.rtrancl_into_rtrancl [of gate_step],
        rule rtranclp.rtrancl_refl, rule 1, rule 2)
  have "?a \<in> granted (demo_gate (Some ?l) {?a}) \<inter> active_members (demo_gate (Some ?l) {?a})" by (simp add: demo_gate_def)
  moreover have "gate_start (demo_gate None {})" by (simp add: gate_start_def demo_gate_def)
  ultimately show ?thesis using one_owner_per_group [OF _ run] run by blast
qed

section \<open>The result of an acquisition\<close>

definition lease_pending :: "Lease \<Rightarrow> string option" where
  "lease_pending l = (case pending_annotation_of l of Pending m \<Rightarrow> Some (member_identity m) | _ \<Rightarrow> None)"

lemma concurrencyPending_eq: "concurrencyPending l = Inr p \<Longrightarrow> lease_pending l = map_option member_identity p"
  by (auto simp: concurrencyPending_def lease_pending_def split: pending_annotation.splits if_splits)

lemma lease_pending_set [simp]: "lease_pending (setConcurrencyPending l p) = map_option member_identity p"
  by (auto simp: lease_pending_def setConcurrencyPending_def split: option.splits)

lemma lease_pending_take [simp]: "lease_pending (take_lease now l m) = lease_pending l"
  by (simp add: lease_pending_def take_lease_def)

lemma refresh_pending:
  assumes "acquire_refresh now active l = Inr (l', holder, pending, changed)"
  shows "lease_pending l' = map_option member_identity pending"
proof -
  obtain h0 p0 l1 h1 c1 l2 p1 c2 where r: "concurrencyPending l = Inr p0"
      "drop_holder active (l, h0) = Inr (l1, h1, c1)" "drop_pending active (l1, p0) = Inr (l2, p1, c2)"
    and fin: "(l', holder, pending, changed) = promote_pending now l2 h1 p1 (c1 \<or> c2)"
    using refresh_cases [OF assms] by metis
  have "lease_pending l1 = map_option member_identity p0"
    using concurrencyPending_eq [OF r(1)] drop_holder_facts(3) [OF r(2)] by (simp add: lease_pending_def)
  then have "lease_pending l2 = map_option member_identity p1"
    using r(3) by (auto simp: drop_pending_def and_then_eq_Inr split: option.splits if_splits)
  with fin show ?thesis by (auto simp: promote_pending_def split: option.splits)
qed

text \<open>What the Lease says about a member, by the answer it got.\<close>

definition gate_answer :: "Lease \<Rightarrow> string \<Rightarrow> concurrencyGateState \<Rightarrow> bool" where
  "gate_answer l x answer =
     (case answer of
        GateAcquired \<Rightarrow> HolderIdentity l = Some x
      | GateWaiting \<Rightarrow> HolderIdentity l \<noteq> Some x \<and> HolderIdentity l \<noteq> None \<and> lease_pending l = Some x
      | GateSuperseded \<Rightarrow> HolderIdentity l \<notin> {None, Some x} \<and> lease_pending l \<notin> {None, Some x})"

lemma refresh_unchanged: "acquire_refresh now active l = Inr (l', holder, pending, False) \<Longrightarrow> l' = l"
proof -
  assume "acquire_refresh now active l = Inr (l', holder, pending, False)"
  then obtain h0 p0 l1 h1 c1 l2 p1 c2 where r:
      "drop_holder active (l, h0) = Inr (l1, h1, c1)" "drop_pending active (l1, p0) = Inr (l2, p1, c2)"
    and fin: "(l', holder, pending, False) = promote_pending now l2 h1 p1 (c1 \<or> c2)"
    using refresh_cases by metis
  from fin have "l' = l2" "\<not> c1" "\<not> c2" by (auto simp: promote_pending_def split: option.splits)
  with r show ?thesis
    by (auto simp: drop_holder_def drop_pending_def and_then_eq_Inr split: option.splits if_splits)
qed

lemma gate_answer_sound:
  assumes "acquire_gate now m reg l holder pending c = (l', r, ch)"
    and "\<And>h. holder = Some h \<Longrightarrow> HolderIdentity l = Some (member_identity h)"
    and "holder = None \<Longrightarrow> pending = None" "lease_pending l = map_option member_identity pending"
  shows "gate_answer l' (member_identity m) (gate_state r) \<and> (\<not> ch \<longrightarrow> l' = l \<and> \<not> c)"
  using assms by (cases holder; cases pending)
    (auto simp: acquire_gate_def same_member_def gate_answer_def split: if_splits)

lemma decide_answer:
  assumes "acquire_decide now active m reg l = Inr (l', r, ch)"
  shows "gate_answer l' (member_identity m) (gate_state r) \<and> (\<not> ch \<longrightarrow> l' = l)"
proof -
  obtain l1 holder pending c where d: "acquire_refresh now active l = Inr (l1, holder, pending, c)"
    and g: "(l', r, ch) = acquire_gate now m reg l1 holder pending c"
    by (rule decide_cases [OF assms])
  have "gate_answer l' (member_identity m) (gate_state r) \<and> (\<not> ch \<longrightarrow> l' = l1 \<and> \<not> c)"
    by (rule gate_answer_sound [OF g [symmetric] refresh_holder(1) [OF d] refresh_holder(2) [OF d] refresh_pending [OF d]])
  with refresh_unchanged [of now active l l1 holder pending] d show ?thesis by (cases c) auto
qed

lemma update_lease_written: "update_lease cl key v l = (cl', Written) \<Longrightarrow> \<exists>v'. leases cl' key = Some (v', l)"
  by (auto simp: update_lease_def put_lease_def split: if_splits)

lemma get_lease_Some: "get_lease cl key = Inr (Some vl) \<Longrightarrow> leases cl key = Some vl"
  by (simp add: get_lease_def api_read_def split: if_splits)

lemma acquire_attempts_answer:
  "acquire_attempts n other now key scope grp m reg cl = (cl', Inr r) \<Longrightarrow>
     \<exists>v l. leases cl' key = Some (v, l) \<and> gate_answer l (member_identity m) (gate_state r)"
proof (induction n arbitrary: cl)
  case (Suc n)
  show ?case
  proof (cases "get_lease cl key")
    case (Inr found)
    show ?thesis
    proof (cases found)
      case None
      with Suc Inr show ?thesis
        by (auto simp: Let_def split: sum.splits prod.splits write_result.splits)
    next
      case (Some vl)
      obtain v l where vl: "vl = (v, l)" by force
      with Suc.prems Inr Some obtain l' r' ch where
        d: "acquire_decide now (concurrencyMemberActive cl) m reg l = Inr (l', r', ch)"
        by (auto split: if_splits sum.splits)
      obtain cl2 w where u: "update_lease (other n cl) key v l' = (cl2, w)" by force
      from Suc.prems Inr Some vl d u Suc.IH [of cl2] decide_answer [OF d] get_lease_Some [of cl key "(v, l)"]
        update_lease_written [of "other n cl" key v l' cl2]
      show ?thesis by (cases w) (auto split: if_splits)
    qed
  qed (use Suc.prems in simp)
qed simp

text \<open>
  C25. The answer of an acquisition is what the Lease says at that moment, whatever other clients did
  between the reads and the writes of the five attempts: acquired means that the Lease names the
  member as its holder, waiting that another member holds it and this one is next, superseded that
  neither place is this member's.
\<close>

theorem acquisition_matches_lease:
  assumes "acquireConcurrency digest other now scope grp m reg cl = (cl', Inr r)"
  shows "\<exists>v l. leases cl' (concurrencyLeaseName digest scope grp) = Some (v, l) \<and>
    gate_answer l (member_identity m) (gate_state r)"
  using assms unfolding acquireConcurrency_def by (rule acquire_attempts_answer)

definition demo_cluster :: cluster where
  "demo_cluster = \<lparr>leases = Map.empty, next_version = 0, runs = [], jobs = [], native_jobs = [],
     pods = [\<lparr>pod_run_uid = ''a'', pod_job_uid = [], Phase = ''Running''\<rparr>], unavailable = (\<lambda>_. False)\<rparr>"

theorem acquisition_matches_lease_witness:
  "\<exists>v l. leases (fst (acquireConcurrency id (\<lambda>_ c. c) 0 demo_scope ''g'' (demo_member ''a'') False demo_cluster))
       (concurrencyLeaseName id demo_scope ''g'') = Some (v, l) \<and>
     HolderIdentity l = Some (member_identity (demo_member ''a''))"
proof -
  let ?r = "acquireConcurrency id (\<lambda>_ c. c) 0 demo_scope ''g'' (demo_member ''a'') False demo_cluster"
  have "case snd ?r of Inl _ \<Rightarrow> False | Inr a \<Rightarrow> gate_state a = GateAcquired" by code_simp
  then obtain a where a: "snd ?r = Inr a" "gate_state a = GateAcquired" by (auto split: sum.splits)
  then have "?r = (fst ?r, Inr a)" by (metis prod.collapse)
  from acquisition_matches_lease [OF this] a(2) show ?thesis by (simp add: gate_answer_def)
qed

end
