(* ===== verification/JobGraph.thy ===== *)
theory JobGraph
  imports Rerun Concurrency
begin

text \<open>
  The jobs of a run as a graph, \<^verbatim>\<open>src/internal/controller/workflowrun_controller.go\<close>: the combined
  result of a matrix, the status a condition sees of a job's ancestors, matrix fail-fast, the pass
  that makes jobs ready, skips them or sends them through the concurrency gate, and the tally that
  decides the outcome of the run. The evaluation of conditions and concurrency expressions, the
  creation of the needs ConfigMap and the verb \<^verbatim>\<open>%q\<close> of \<^verbatim>\<open>fmt\<close> are arguments.
\<close>

section \<open>Results of dependencies\<close>

fun group_result :: "job_result \<Rightarrow> WorkflowJob list \<Rightarrow> job_result" where
  "group_result result [] = result"
| "group_result result (job # js) =
     (case workflowJobEffectiveResult job of
        Failure \<Rightarrow> Failure
      | Cancelled \<Rightarrow> group_result Cancelled js
      | Skipped \<Rightarrow> group_result (if result = Success then Skipped else result) js
      | Success \<Rightarrow> group_result result js
      | NoResult \<Rightarrow> NoResult)"

definition workflowJobGroupResult :: "WorkflowJob list \<Rightarrow> job_result" where
  "workflowJobGroupResult js = group_result Success js"

record Need =
  need_result :: job_result
  need_outputs :: "(string \<times> string) list"

definition merge_outputs :: "(string \<times> string) list \<Rightarrow> WorkflowJob \<Rightarrow> (string \<times> string) list" where
  "merge_outputs outs job = foldl (\<lambda>acc (k, v). AList.update k v acc) outs (Outputs job)"

definition workflowNeedsContext :: "WorkflowJob \<Rightarrow> (string \<Rightarrow> WorkflowJob list) \<Rightarrow> (string \<times> Need) list" where
  "workflowNeedsContext job by_logical =
     foldl (\<lambda>acc dependency.
        let js = sort_key JobID (by_logical dependency)
        in AList.update dependency
             \<lparr>need_result = workflowJobGroupResult js, need_outputs = foldl merge_outputs [] js\<rparr> acc)
       [] (Needs job)"

text \<open>
  The closure \<^verbatim>\<open>visit\<close> of \<^verbatim>\<open>workflowJobAncestorStatus\<close> with its call stack made explicit: the agenda
  holds what is still to be done, in the order in which the recursion does it.
\<close>

datatype task = Visit string | Observe WorkflowJob

definition observe_result :: "expression_status \<Rightarrow> WorkflowJob \<Rightarrow> expression_status" where
  "observe_result st job =
     (case workflowJobEffectiveResult job of
        Failure \<Rightarrow> st\<lparr>status_success := False, status_failure := True\<rparr>
      | Cancelled \<Rightarrow> st\<lparr>status_success := False, status_cancelled := True\<rparr>
      | Skipped \<Rightarrow> st\<lparr>status_success := False\<rparr>
      | _ \<Rightarrow> st)"

definition visit_tasks :: "WorkflowJob list \<Rightarrow> task list" where
  "visit_tasks deps = concat (map (\<lambda>d. Observe d # map Visit (Needs d)) deps)"

type_synonym job_map = "(string \<times> WorkflowJob list) list"

definition jobs_at :: "job_map \<Rightarrow> string \<Rightarrow> WorkflowJob list" where
  "jobs_at m i = (case map_of m i of None \<Rightarrow> [] | Some js \<Rightarrow> js)"

definition unvisited :: "job_map \<Rightarrow> string list \<Rightarrow> nat" where
  "unvisited m visited = card (set (map fst m) - set visited)"

lemma visit_decreases:
  assumes "i \<notin> set visited"
  shows "unvisited m (i # visited) < unvisited m visited \<or>
    unvisited m (i # visited) = unvisited m visited \<and> visit_tasks (jobs_at m i) = []"
proof (cases "i \<in> set (map fst m)")
  case True
  with assms have "unvisited m (i # visited) < unvisited m visited"
    unfolding unvisited_def by (intro psubset_card_mono) auto
  then show ?thesis by simp
next
  case False
  then have "map_of m i = None" by (simp add: map_of_eq_None_iff)
  moreover have "set (map fst m) - set (i # visited) = set (map fst m) - set visited" using False by auto
  ultimately show ?thesis by (simp add: jobs_at_def visit_tasks_def unvisited_def)
qed

function ancestor_loop :: "job_map \<Rightarrow> string list \<Rightarrow> expression_status \<Rightarrow> task list \<Rightarrow> expression_status" where
  "ancestor_loop m visited st [] = st"
| "ancestor_loop m visited st (Observe job # ts) = ancestor_loop m visited (observe_result st job) ts"
| "ancestor_loop m visited st (Visit i # ts) =
     (if i \<in> set visited then ancestor_loop m visited st ts
      else ancestor_loop m (i # visited) st (visit_tasks (jobs_at m i) @ ts))"
  by pat_completeness auto
termination
proof (relation "measures [\<lambda>(m, visited, st, ts). unvisited m visited, \<lambda>(m, visited, st, ts). length ts]")
  fix m :: job_map and visited :: "string list" and i st ts
  assume "i \<notin> set visited"
  show "((m, i # visited, st, visit_tasks (jobs_at m i) @ ts), m, visited, st, Visit i # ts)
      \<in> measures [\<lambda>(m, visited, st, ts). unvisited m visited, \<lambda>(m, visited, st, ts). length ts]"
    using visit_decreases [OF \<open>i \<notin> set visited\<close>, of m] by auto
qed simp_all

definition workflowJobAncestorStatus :: "WorkflowJob \<Rightarrow> job_map \<Rightarrow> bool \<Rightarrow> expression_status" where
  "workflowJobAncestorStatus job m cancellationRequested =
     ancestor_loop m [] \<lparr>status_success = \<not> cancellationRequested, status_failure = False,
       status_cancelled = cancellationRequested\<rparr> (map Visit (Needs job))"

section \<open>What a condition sees of the ancestors\<close>

inductive ancestor :: "job_map \<Rightarrow> string set \<Rightarrow> WorkflowJob \<Rightarrow> bool" for m S where
  direct: "i \<in> S \<Longrightarrow> d \<in> set (jobs_at m i) \<Longrightarrow> ancestor m S d"
| deeper: "ancestor m S d \<Longrightarrow> i \<in> set (Needs d) \<Longrightarrow> d' \<in> set (jobs_at m i) \<Longrightarrow> ancestor m S d'"

text \<open>The jobs the loop looks at, in order.\<close>

function observed :: "job_map \<Rightarrow> string list \<Rightarrow> task list \<Rightarrow> WorkflowJob list" where
  "observed m visited [] = []"
| "observed m visited (Observe job # ts) = job # observed m visited ts"
| "observed m visited (Visit i # ts) =
     (if i \<in> set visited then observed m visited ts
      else observed m (i # visited) (visit_tasks (jobs_at m i) @ ts))"
  by pat_completeness auto
termination
proof (relation "measures [\<lambda>(m, visited, ts). unvisited m visited, \<lambda>(m, visited, ts). length ts]")
  fix m :: job_map and visited :: "string list" and i ts
  assume "i \<notin> set visited"
  show "((m, i # visited, visit_tasks (jobs_at m i) @ ts), m, visited, Visit i # ts)
      \<in> measures [\<lambda>(m, visited, ts). unvisited m visited, \<lambda>(m, visited, ts). length ts]"
    using visit_decreases [OF \<open>i \<notin> set visited\<close>, of m] by auto
qed simp_all

lemma ancestor_loop_observed: "ancestor_loop m visited st ts = foldl observe_result st (observed m visited ts)"
  by (induction m visited st ts rule: ancestor_loop.induct) auto

lemma visit_tasks_set:
  "Observe d \<in> set (visit_tasks ds) \<longleftrightarrow> d \<in> set ds"
  "Visit i \<in> set (visit_tasks ds) \<longleftrightarrow> (\<exists>d \<in> set ds. i \<in> set (Needs d))"
  by (auto simp: visit_tasks_def)

lemma ancestor_mono: "ancestor m S d \<Longrightarrow> S \<subseteq> T \<Longrightarrow> ancestor m T d"
  by (induction rule: ancestor.induct) (auto intro: ancestor.intros)

lemma ancestor_through:
  "ancestor m S d \<Longrightarrow> (\<And>i. i \<in> S \<Longrightarrow> i \<in> T \<or> (\<exists>e. ancestor m T e \<and> i \<in> set (Needs e))) \<Longrightarrow> ancestor m T d"
  by (induction rule: ancestor.induct) (blast intro: ancestor.intros)+

lemma observed_sound:
  "d \<in> set (observed m visited ts) \<Longrightarrow> Observe d \<in> set ts \<or> ancestor m {i. Visit i \<in> set ts} d"
proof (induction m visited ts rule: observed.induct)
  case (2 m visited job ts)
  then show ?case by (auto elim: ancestor_mono)
next
  case (3 m visited i ts)
  show ?case
  proof (cases "i \<in> set visited")
    case True
    have "{j. Visit j \<in> set ts} \<subseteq> {j. Visit j \<in> set (Visit i # ts)}" by auto
    from 3(1) [OF True] 3(3) True ancestor_mono [OF _ this, of m d] show ?thesis by auto
  next
    case False
    let ?T = "{j. Visit j \<in> set (Visit i # ts)}"
    have at: "ancestor m ?T e" if "e \<in> set (jobs_at m i)" for e
      using that by (auto intro: ancestor.direct)
    from False 3 consider "Observe d \<in> set (visit_tasks (jobs_at m i) @ ts)"
      | "ancestor m {j. Visit j \<in> set (visit_tasks (jobs_at m i) @ ts)} d" by auto
    then show ?thesis
    proof cases
      case 1
      with at [of d] show ?thesis by (auto simp: visit_tasks_set)
    next
      case 2
      then have "ancestor m ?T d"
        by (rule ancestor_through) (auto simp: visit_tasks_set dest: at)
      then show ?thesis ..
    qed
  qed
qed simp

definition agenda_inv :: "job_map \<Rightarrow> WorkflowJob set \<Rightarrow> string list \<Rightarrow> task list \<Rightarrow> bool" where
  "agenda_inv m O' visited ts \<longleftrightarrow> (\<forall>v \<in> set visited. \<forall>d \<in> set (jobs_at m v).
     (d \<in> O' \<or> Observe d \<in> set ts) \<and> (\<forall>i \<in> set (Needs d). i \<in> set visited \<or> Visit i \<in> set ts))"

lemma observed_complete:
  "agenda_inv m O' visited ts \<Longrightarrow> \<exists>V. set visited \<subseteq> V \<and> {i. Visit i \<in> set ts} \<subseteq> V \<and>
     (\<forall>v \<in> V. \<forall>d \<in> set (jobs_at m v). d \<in> O' \<union> set (observed m visited ts) \<and> set (Needs d) \<subseteq> V)"
proof (induction m visited ts arbitrary: O' rule: observed.induct)
  case (1 m visited)
  then show ?case by (intro exI [of _ "set visited"]) (auto simp: agenda_inv_def)
next
  case (2 m visited job ts)
  from 2(2) have "agenda_inv m (insert job O') visited ts" by (auto simp: agenda_inv_def)
  from 2(1) [OF this] show ?case by auto
next
  case (3 m visited i ts)
  show ?case
  proof (cases "i \<in> set visited")
    case True
    with 3(3) have "agenda_inv m O' visited ts" by (auto simp: agenda_inv_def)
    from 3(1) [OF True this] True show ?thesis by auto
  next
    case False
    have "agenda_inv m O' (i # visited) (visit_tasks (jobs_at m i) @ ts)"
      using 3(3) by (auto simp: agenda_inv_def visit_tasks_set)
    from 3(2) [OF False this] False show ?thesis by auto
  qed
qed

lemma observed_ancestors: "set (observed m [] (map Visit needs)) = {d. ancestor m (set needs) d}"
proof
  show "set (observed m [] (map Visit needs)) \<subseteq> {d. ancestor m (set needs) d}"
  proof
    fix d assume "d \<in> set (observed m [] (map Visit needs))"
    from observed_sound [OF this] have "ancestor m {i. Visit i \<in> set (map Visit needs)} d" by auto
    moreover have "{i. Visit i \<in> set (map Visit needs)} = set needs" by auto
    ultimately show "d \<in> {d. ancestor m (set needs) d}" by simp
  qed
  obtain V where V: "set needs \<subseteq> V"
      "\<forall>v \<in> V. \<forall>d \<in> set (jobs_at m v). d \<in> set (observed m [] (map Visit needs)) \<and> set (Needs d) \<subseteq> V"
    using observed_complete [of m "{}" "[]" "map Visit needs"] by (auto simp: agenda_inv_def)
  have "d \<in> set (observed m [] (map Visit needs)) \<and> set (Needs d) \<subseteq> V" if "ancestor m (set needs) d" for d
    using that by (induction) (use V in blast)+
  then show "{d. ancestor m (set needs) d} \<subseteq> set (observed m [] (map Visit needs))" by blast
qed

lemma foldl_observe:
  "status_failure (foldl observe_result st ds) \<longleftrightarrow> status_failure st \<or> (\<exists>d \<in> set ds. workflowJobEffectiveResult d = Failure)"
  "status_cancelled (foldl observe_result st ds) \<longleftrightarrow> status_cancelled st \<or> (\<exists>d \<in> set ds. workflowJobEffectiveResult d = Cancelled)"
  "status_success (foldl observe_result st ds) \<longleftrightarrow>
     status_success st \<and> (\<forall>d \<in> set ds. workflowJobEffectiveResult d \<in> {Success, NoResult})"
proof (induction ds arbitrary: st)
  case (Cons d ds)
  { case 1 then show ?case using Cons.IH(1) [of "observe_result st d"]
      by (cases "workflowJobEffectiveResult d") (auto simp: observe_result_def) }
  { case 2 then show ?case using Cons.IH(2) [of "observe_result st d"]
      by (cases "workflowJobEffectiveResult d") (auto simp: observe_result_def) }
  { case 3 then show ?case using Cons.IH(3) [of "observe_result st d"]
      by (cases "workflowJobEffectiveResult d") (auto simp: observe_result_def) }
qed simp_all

text \<open>
  C26. The status functions of a job's condition range over all its ancestors, direct and transitive, and
  nothing else, also when the graph has cycles: failure() is seen exactly when some ancestor failed
  without being tolerated, cancelled() when cancellation was requested or an ancestor was cancelled, and
  success() when none failed, was cancelled or skipped. The walk over the graph always ends.
\<close>

theorem condition_sees_all_ancestors:
  "let st = workflowJobAncestorStatus job m cancelling in
   (status_failure st \<longleftrightarrow> (\<exists>d. ancestor m (set (Needs job)) d \<and> workflowJobEffectiveResult d = Failure)) \<and>
   (status_cancelled st \<longleftrightarrow> cancelling \<or> (\<exists>d. ancestor m (set (Needs job)) d \<and> workflowJobEffectiveResult d = Cancelled)) \<and>
   (status_success st \<longleftrightarrow> \<not> cancelling \<and>
      (\<nexists>d. ancestor m (set (Needs job)) d \<and> workflowJobEffectiveResult d \<notin> {Success, NoResult}))"
  unfolding workflowJobAncestorStatus_def ancestor_loop_observed Let_def foldl_observe observed_ancestors
  by auto

section \<open>Stored jobs\<close>

text \<open>
  The jobs of the pass in memory and the API server. A job is written only when its status changed.
\<close>

record job_store =
  st_cluster :: cluster
  st_jobs :: "WorkflowJob list"

definition replace_job :: "WorkflowJob list \<Rightarrow> WorkflowJob \<Rightarrow> WorkflowJob list" where
  "replace_job js job = map (\<lambda>j. if job_name j = job_name job then job else j) js"

definition store_job :: "job_store \<Rightarrow> WorkflowJob \<Rightarrow> WorkflowJob \<Rightarrow> job_store \<times> concurrency_error option" where
  "store_job st before job =
     (if job = before then (st, None)
      else case update_job (st_cluster st) job of
        (cl, Some e) \<Rightarrow> (st, Some e)
      | (cl, None) \<Rightarrow> (\<lparr>st_cluster = cl, st_jobs = replace_job (st_jobs st) job\<rparr>, None))"

section \<open>Matrix fail-fast\<close>

definition matrixFailFastEnabled :: "WorkflowJobMatrix option \<Rightarrow> bool" where
  "matrixFailFastEnabled m = (case m of None \<Rightarrow> False
     | Some m \<Rightarrow> (case FailFast m of None \<Rightarrow> True | Some b \<Rightarrow> b))"

definition workflowJobFailureTriggersMatrixFailFast :: "WorkflowJob \<Rightarrow> bool" where
  "workflowJobFailureTriggersMatrixFailFast job \<longleftrightarrow>
     matrixFailFastEnabled (Matrix job) \<and> workflowJobEffectiveResult job = Failure \<and>
     (case find_condition (job_conditions job) ''Succeeded'' of
        None \<Rightarrow> True
      | Some c \<Rightarrow> Reason c \<noteq> ''MatrixFailFast'' \<and> Reason c \<noteq> ''CancellationRequested'')"

definition matrixJobGroup :: "WorkflowJob \<Rightarrow> string" where
  "matrixJobGroup job =
     (if job_run_label job = [] then WorkflowRunRef job else job_run_label job) @ [CHR 0x00] @
     (case Matrix job of None \<Rightarrow> [] | Some m \<Rightarrow> LogicalJobID m)"

definition matrixFailFastMessage :: string where
  "matrixFailFastMessage = ''Another matrix combination failed''"

definition fail_fast_job :: "int \<Rightarrow> WorkflowJob \<Rightarrow> WorkflowJob" where
  "fail_fast_job now job =
     (if RunnerRef job = None
      then completeUnscheduledWorkflowJob now job Cancelled ''MatrixFailFast'' matrixFailFastMessage
      else setWorkflowJobCancellationRequested job True ''MatrixFailFast'' matrixFailFastMessage)"

fun fail_fast_loop :: "int \<Rightarrow> string list \<Rightarrow> job_store \<Rightarrow> WorkflowJob list \<Rightarrow> bool \<Rightarrow> job_store \<times> (concurrency_error + bool)" where
  "fail_fast_loop now failed st [] pending = (st, Inr pending)"
| "fail_fast_loop now failed st (job # js) pending =
     (if Matrix job = None \<or> workflowJobTerminal job \<or> matrixJobGroup job \<notin> set failed
      then fail_fast_loop now failed st js pending
      else case store_job st job (fail_fast_job now job) of
        (st, Some e) \<Rightarrow> (st, Inl e)
      | (st, None) \<Rightarrow> fail_fast_loop now failed st js True)"

definition reconcileMatrixFailFast :: "int \<Rightarrow> job_store \<Rightarrow> job_store \<times> (concurrency_error + bool)" where
  "reconcileMatrixFailFast now st =
     (let failed = map matrixJobGroup (filter workflowJobFailureTriggersMatrixFailFast (st_jobs st))
      in if failed = [] then (st, Inr False) else fail_fast_loop now failed st (st_jobs st) False)"

section \<open>The pass over the graph\<close>

datatype evaluation_error = ValuesUnavailable string | EvaluationFailed string

datatype graph_error =
    DuplicateJob string
  | MissingNeed string string
  | GraphUnavailable string
  | GraphApi concurrency_error

type_synonym needs_context = "(string \<times> Need) list"

record graph_env =
  ge_digest :: "string \<Rightarrow> string"
  quoted :: "string \<Rightarrow> string"
  ge_other :: "nat \<Rightarrow> cluster \<Rightarrow> cluster"
  ge_now :: int
  evaluateCondition :: "WorkflowJob \<Rightarrow> expression_status \<Rightarrow> needs_context \<Rightarrow> evaluation_error + bool"
  evaluateConcurrency :: "WorkflowJob \<Rightarrow> needs_context \<Rightarrow> evaluation_error + string \<times> bool"
  ensureNeedsContext :: "WorkflowJob \<Rightarrow> needs_context \<Rightarrow> evaluation_error + unit"

type_synonym graph_result = "job_store \<times> graph_error option"

definition write_job :: "job_store \<Rightarrow> WorkflowJob \<Rightarrow> WorkflowJob \<Rightarrow> graph_result" where
  "write_job st before job = (case store_job st before job of (st, e) \<Rightarrow> (st, map_option GraphApi e))"

definition merged_jobs :: "WorkflowJob list \<Rightarrow> WorkflowJob list \<Rightarrow> WorkflowJob list" where
  "merged_jobs deps current = filter (\<lambda>d. JobID d \<notin> set (map JobID current)) deps @ current"

definition by_logical :: "WorkflowJob list \<Rightarrow> job_map" where
  "by_logical js = map (\<lambda>i. (i, filter (\<lambda>j. logicalJobID j = i) js)) (remdups (map logicalJobID js))"

definition graph_map :: "WorkflowJob list \<Rightarrow> job_store \<Rightarrow> job_map" where
  "graph_map deps st = by_logical (merged_jobs deps (st_jobs st))"

fun dependencies_ready :: "string list \<Rightarrow> job_map \<Rightarrow> string list \<Rightarrow> bool \<Rightarrow> string + bool" where
  "dependencies_ready pending m [] ready = Inr ready"
| "dependencies_ready pending m (d # ds) ready =
     (if d \<in> set pending then dependencies_ready pending m ds False
      else if jobs_at m d = [] then Inl d
      else dependencies_ready pending m ds (ready \<and> list_all workflowJobTerminal (jobs_at m d)))"

definition workflowJobConcurrencyRegistered :: "WorkflowJob \<Rightarrow> bool" where
  "workflowJobConcurrencyRegistered job \<longleftrightarrow> find_condition (job_conditions job) ''ConcurrencyAcquired'' \<noteq> None"

definition complete_job :: "graph_env \<Rightarrow> job_store \<Rightarrow> WorkflowJob \<Rightarrow> job_result \<Rightarrow> string \<Rightarrow> string \<Rightarrow> graph_result" where
  "complete_job env st job result reason msg =
     write_job st job (completeUnscheduledWorkflowJob (ge_now env) job result reason msg)"

definition graph_enter_gate :: "graph_env \<Rightarrow> WorkflowRun \<Rightarrow> job_store \<Rightarrow> WorkflowJob \<Rightarrow> ConcurrencyStatus \<Rightarrow> graph_result" where
  "graph_enter_gate env run st job c =
     (if (case workflowRunConcurrencyDecision run of None \<Rightarrow> False | Some d \<Rightarrow> equal_fold (Group c) (Group d))
      then complete_job env st job Failure ''ConcurrencyEvaluationFailed''
        (''WorkflowJob '' @ quoted env (job_name job) @ '' concurrency group '' @ quoted env (Group c) @
         '' conflicts with its WorkflowRun '' @ quoted env (run_name run) @ '' concurrency group'')
      else case workflowRunConcurrencyScope run of
        Inl e \<Rightarrow> (st, Some (GraphApi e))
      | Inr scope \<Rightarrow>
          (case acquireConcurrency (ge_digest env) (ge_other env) (ge_now env) scope (Group c)
                 (workflowJobConcurrencyMember job) (workflowJobConcurrencyRegistered job) (st_cluster st) of
             (cl, Inl e) \<Rightarrow> (st\<lparr>st_cluster := cl\<rparr>, Some (GraphApi e))
           | (cl, Inr gate) \<Rightarrow>
               (case request_optional (ge_now env) cl (displaced gate) True of
                  (cl, Some e) \<Rightarrow> (st\<lparr>st_cluster := cl\<rparr>, Some (GraphApi e))
                | (cl, None) \<Rightarrow>
                    (case request_optional (ge_now env) cl (cancelOwner gate) False of
                       (cl, Some e) \<Rightarrow> (st\<lparr>st_cluster := cl\<rparr>, Some (GraphApi e))
                     | (cl, None) \<Rightarrow>
                         (let st = st\<lparr>st_cluster := cl\<rparr>
                          in case gate_state gate of
                               GateSuperseded \<Rightarrow> complete_job env st job Cancelled ''ConcurrencySuperseded''
                                  ''Another pending member replaced this workflow job''
                             | state \<Rightarrow>
                                 (case setWorkflowJobConcurrencyState job (state = GateAcquired) of
                                    Inl e \<Rightarrow> (st, Some (GraphUnavailable e))
                                  | Inr job' \<Rightarrow> write_job st job job'))))))"

definition graph_concurrency :: "graph_env \<Rightarrow> WorkflowRun \<Rightarrow> job_store \<Rightarrow> WorkflowJob \<Rightarrow> needs_context \<Rightarrow> graph_result" where
  "graph_concurrency env run st job needs =
     (case job_concurrency job of
        Some c \<Rightarrow> graph_enter_gate env run st job c
      | None \<Rightarrow>
          (case evaluateConcurrency env job needs of
             Inl (ValuesUnavailable e) \<Rightarrow> (st, Some (GraphUnavailable e))
           | Inl (EvaluationFailed msg) \<Rightarrow> complete_job env st job Failure ''ConcurrencyEvaluationFailed'' msg
           | Inr (grp, cancels) \<Rightarrow>
               (let job' = persistWorkflowJobConcurrencyDecision job grp cancels
                in case write_job st job job' of
                     (st, Some e) \<Rightarrow> (st, Some e)
                   | (st, None) \<Rightarrow> graph_enter_gate env run st job' \<lparr>Group = grp, CancelInProgress = cancels\<rparr>)))"

definition graph_admit :: "graph_env \<Rightarrow> WorkflowRun \<Rightarrow> job_store \<Rightarrow> WorkflowJob \<Rightarrow> needs_context \<Rightarrow> graph_result" where
  "graph_admit env run st job needs =
     (case (if Needs job \<noteq> [] then ensureNeedsContext env job needs else Inr ()) of
        Inl (ValuesUnavailable e) \<Rightarrow> (st, Some (GraphUnavailable e))
      | Inl (EvaluationFailed msg) \<Rightarrow> complete_job env st job Failure ''PlanUnavailable'' msg
      | Inr _ \<Rightarrow>
          if job_concurrency_policy job \<noteq> None then graph_concurrency env run st job needs
          else write_job st job (setWorkflowJobReady job))"

definition graph_evaluate :: "graph_env \<Rightarrow> WorkflowRun \<Rightarrow> job_map \<Rightarrow> job_store \<Rightarrow> WorkflowJob \<Rightarrow> graph_result" where
  "graph_evaluate env run m st job =
     (let needs = workflowNeedsContext job (jobs_at m);
          cancelling = CancelRequested (Spec run);
          runnable = (if \<not> workflowJobConcurrencyRegistered job \<or> cancelling
            then evaluateCondition env job (workflowJobAncestorStatus job m cancelling) needs else Inr True)
      in case runnable of
           Inl (ValuesUnavailable e) \<Rightarrow> (st, Some (GraphUnavailable e))
         | Inl (EvaluationFailed msg) \<Rightarrow> complete_job env st job Failure ''ConditionEvaluationFailed'' msg
         | Inr False \<Rightarrow>
             if cancelling then complete_job env st job Cancelled ''CancellationRequested''
               ''The workflow job was cancelled before Runner assignment''
             else complete_job env st job Skipped ''ConditionFalse'' ''The workflow job condition evaluated to false''
         | Inr True \<Rightarrow> graph_admit env run st job needs)"

definition reconcileAssignedWorkflowJobCancellation ::
  "graph_env \<Rightarrow> job_map \<Rightarrow> job_store \<Rightarrow> WorkflowJob \<Rightarrow> graph_result" where
  "reconcileAssignedWorkflowJobCancellation env m st job =
     (case evaluateCondition env job (workflowJobAncestorStatus job m True) (workflowNeedsContext job (jobs_at m)) of
        Inl (ValuesUnavailable e) \<Rightarrow> (st, Some (GraphUnavailable e))
      | Inl (EvaluationFailed msg) \<Rightarrow>
          write_job st job (setWorkflowJobCancellationRequested job True ''ConditionEvaluationFailed'' msg)
      | Inr True \<Rightarrow> write_job st job (setWorkflowJobCancellationRequested job False ''ConditionPassed''
          ''The workflow job condition permits execution during cancellation'')
      | Inr False \<Rightarrow> write_job st job (setWorkflowJobCancellationRequested job True ''CancellationRequested''
          ''The workflow job condition does not permit execution during cancellation''))"

definition graph_job :: "graph_env \<Rightarrow> WorkflowRun \<Rightarrow> string list \<Rightarrow> WorkflowJob list \<Rightarrow> job_store \<Rightarrow> WorkflowJob \<Rightarrow> graph_result" where
  "graph_job env run pending deps st job =
     (if workflowJobTerminal job then (st, None)
      else if RunnerRef job \<noteq> None then
        (if CancelRequested (Spec run)
         then reconcileAssignedWorkflowJobCancellation env (graph_map deps st) st job else (st, None))
      else if workflowJobReadyCondition job \<and> \<not> CancelRequested (Spec run) then (st, None)
      else case dependencies_ready pending (graph_map deps st) (Needs job) True of
        Inl d \<Rightarrow> (st, Some (MissingNeed (job_name job) d))
      | Inr False \<Rightarrow> write_job st job (setWorkflowJobWaiting job)
      | Inr True \<Rightarrow> graph_evaluate env run (graph_map deps st) st job)"

fun graph_loop :: "graph_env \<Rightarrow> WorkflowRun \<Rightarrow> string list \<Rightarrow> WorkflowJob list \<Rightarrow> string list \<Rightarrow> job_store \<Rightarrow> graph_result" where
  "graph_loop env run pending deps [] st = (st, None)"
| "graph_loop env run pending deps (name # names) st =
     (case find (\<lambda>j. job_name j = name) (st_jobs st) of
        None \<Rightarrow> graph_loop env run pending deps names st
      | Some job \<Rightarrow>
          (case graph_job env run pending deps st job of
             (st, Some e) \<Rightarrow> (st, Some e)
           | (st, None) \<Rightarrow> graph_loop env run pending deps names st))"

fun first_duplicate :: "string list \<Rightarrow> string list \<Rightarrow> string option" where
  "first_duplicate seen [] = None"
| "first_duplicate seen (i # is) = (if i \<in> set seen then Some i else first_duplicate (i # seen) is)"

definition reconcileWorkflowJobGraphWithDependencies ::
  "graph_env \<Rightarrow> WorkflowRun \<Rightarrow> string list \<Rightarrow> WorkflowJob list \<Rightarrow> job_store \<Rightarrow> graph_result" where
  "reconcileWorkflowJobGraphWithDependencies env run pending deps st =
     (case first_duplicate [] (map JobID deps) of
        Some i \<Rightarrow> (st, Some (DuplicateJob i))
      | None \<Rightarrow>
          (case first_duplicate [] (map JobID (st_jobs st)) of
             Some i \<Rightarrow> (st, Some (DuplicateJob i))
           | None \<Rightarrow> graph_loop env run pending deps (map job_name (st_jobs st)) st))"

section \<open>What a pass may change\<close>

definition same_spec :: "WorkflowJob \<Rightarrow> WorkflowJob \<Rightarrow> bool" where
  "same_spec j j' \<longleftrightarrow> job_name j' = job_name j \<and> JobID j' = JobID j \<and> Needs j' = Needs j \<and> Matrix j' = Matrix j \<and>
     If j' = If j"

definition evolves :: "WorkflowJob \<Rightarrow> WorkflowJob \<Rightarrow> bool" where
  "evolves j j' \<longleftrightarrow> same_spec j j' \<and> (workflowJobTerminal j \<longrightarrow> j' = j)"

lemma same_spec_refl [simp]: "same_spec j j" by (simp add: same_spec_def)

lemma evolves_refl [simp]: "evolves j j" by (simp add: evolves_def)

lemma evolves_trans: "evolves i j \<Longrightarrow> evolves j k \<Longrightarrow> evolves i k"
  by (auto simp: evolves_def same_spec_def)

lemma same_spec_trans: "same_spec i j \<Longrightarrow> same_spec j k \<Longrightarrow> same_spec i k"
  by (simp add: same_spec_def)

named_theorems job_marks \<open>operations that change only the status of a job\<close>

lemma same_spec_marks [job_marks]:
  "same_spec job (completeUnscheduledWorkflowJob now job result reason msg)"
  "same_spec job (setWorkflowJobWaiting job)"
  "same_spec job (setWorkflowJobReady job)"
  "same_spec job (setWorkflowJobCancellationRequested job b reason msg)"
  "same_spec job (persistWorkflowJobConcurrencyDecision job grp b)"
  by (simp_all add: same_spec_def completeUnscheduledWorkflowJob_def setWorkflowJobWaiting_def
      setWorkflowJobReady_def setWorkflowJobCancellationRequested_def persistWorkflowJobConcurrencyDecision_def Let_def)

lemma same_spec_concurrency [job_marks]: "setWorkflowJobConcurrencyState job b = Inr job' \<Longrightarrow> same_spec job job'"
  by (auto simp: setWorkflowJobConcurrencyState_def same_spec_def Let_def split: if_splits)

text \<open>One job of the pass: nothing in memory changes but the job that is looked at.\<close>

definition one_job :: "(WorkflowJob \<Rightarrow> bool) \<Rightarrow> WorkflowJob \<Rightarrow> WorkflowJob list \<Rightarrow> WorkflowJob list \<Rightarrow> bool" where
  "one_job P job js js' \<longleftrightarrow> js' = js \<or> (\<exists>job'. same_spec job job' \<and> P job' \<and> js' = replace_job js job')"

lemma one_job_refl [simp]: "one_job P job js js" by (simp add: one_job_def)

lemma one_job_mono: "one_job P job js js' \<Longrightarrow> (\<And>j. P j \<Longrightarrow> Q j) \<Longrightarrow> one_job Q job js js'"
  unfolding one_job_def by blast

lemma replace_twice: "job_name a = job_name b \<Longrightarrow> replace_job (replace_job js a) b = replace_job js b"
  by (simp add: replace_job_def)

lemma one_job_again:
  assumes "one_job P job js js1" "one_job P job1 js1 js2" "same_spec job job1"
  shows "one_job P job js js2"
proof -
  from assms(2) consider "js2 = js1" | job2 where "same_spec job1 job2" "P job2" "js2 = replace_job js1 job2"
    unfolding one_job_def by blast
  then show ?thesis
  proof cases
    case 2
    from 2(1) assms(3) have ss: "same_spec job job2" by (blast intro: same_spec_trans)
    from assms(1) have "replace_job js1 job2 = replace_job js job2"
      using ss by (auto simp: one_job_def same_spec_def intro: replace_twice)
    with ss 2 show ?thesis unfolding one_job_def by blast
  qed (use assms(1) in simp)
qed

lemma write_job_one:
  "write_job st job job' = (st', e) \<Longrightarrow> same_spec job job' \<Longrightarrow> P job' \<Longrightarrow> one_job P job (st_jobs st) (st_jobs st')"
  by (auto simp: write_job_def store_job_def one_job_def split: if_splits prod.splits option.splits)

lemma complete_job_one: "complete_job env st job r reason msg = (st', e) \<Longrightarrow> one_job (\<lambda>_. True) job (st_jobs st) (st_jobs st')"
  unfolding complete_job_def by (erule write_job_one) (simp_all add: job_marks)

lemma enter_gate_one:
  "graph_enter_gate env run st job c = (st', e) \<Longrightarrow> one_job (\<lambda>_. True) job (st_jobs st) (st_jobs st')"
  unfolding graph_enter_gate_def
  by (auto split: if_splits sum.splits prod.splits option.splits concurrencyGateState.splits
      dest!: complete_job_one write_job_one [where P = "\<lambda>_. True"] dest: same_spec_concurrency simp: Let_def)

lemma graph_concurrency_one:
  assumes "graph_concurrency env run st job needs = (st', e)"
  shows "one_job (\<lambda>_. True) job (st_jobs st) (st_jobs st')"
proof (cases "job_concurrency job")
  case (Some c)
  with assms show ?thesis by (auto simp: graph_concurrency_def intro: enter_gate_one)
next
  case None
  show ?thesis
  proof (cases "evaluateConcurrency env job needs")
    case (Inl err)
    with assms None show ?thesis
      by (auto simp: graph_concurrency_def intro: complete_job_one split: evaluation_error.splits)
  next
    case (Inr d)
    obtain grp cancels where d: "d = (grp, cancels)" by force
    let ?job' = "persistWorkflowJobConcurrencyDecision job grp cancels"
    obtain st1 e1 where w: "write_job st job ?job' = (st1, e1)" by force
    have one: "one_job (\<lambda>_. True) job (st_jobs st) (st_jobs st1)"
      by (rule write_job_one [OF w]) (simp_all add: job_marks)
    show ?thesis
    proof (cases e1)
      case None
      with assms \<open>job_concurrency job = None\<close> Inr d w
      have "graph_enter_gate env run st1 ?job' \<lparr>Group = grp, CancelInProgress = cancels\<rparr> = (st', e)"
        by (simp add: graph_concurrency_def)
      from one_job_again [OF one enter_gate_one [OF this]] show ?thesis by (simp add: job_marks)
    qed (use assms None Inr d w one in \<open>simp add: graph_concurrency_def\<close>)
  qed
qed

lemma graph_admit_one:
  "graph_admit env run st job needs = (st', e) \<Longrightarrow> one_job (\<lambda>_. True) job (st_jobs st) (st_jobs st')"
  unfolding graph_admit_def
  by (auto split: if_splits sum.splits evaluation_error.splits
      intro: complete_job_one graph_concurrency_one write_job_one simp: job_marks)

lemma graph_evaluate_one:
  "graph_evaluate env run m st job = (st', e) \<Longrightarrow> one_job (\<lambda>_. True) job (st_jobs st) (st_jobs st')"
  unfolding graph_evaluate_def Let_def
  by (auto split: if_splits sum.splits evaluation_error.splits bool.splits intro: complete_job_one graph_admit_one)

section \<open>Ready jobs have finished needs\<close>

definition needs_met :: "string list \<Rightarrow> job_map \<Rightarrow> WorkflowJob \<Rightarrow> bool" where
  "needs_met pending m job \<longleftrightarrow> (\<forall>n \<in> set (Needs job). n \<notin> set pending \<and> jobs_at m n \<noteq> [] \<and>
     (\<forall>d \<in> set (jobs_at m n). workflowJobTerminal d))"

lemma dependencies_ready_false: "dependencies_ready pending m ds False \<noteq> Inr True"
  by (induction ds) auto

lemma dependencies_ready_met:
  "dependencies_ready pending m ds True = Inr True \<Longrightarrow> n \<in> set ds \<Longrightarrow>
     n \<notin> set pending \<and> jobs_at m n \<noteq> [] \<and> (\<forall>d \<in> set (jobs_at m n). workflowJobTerminal d)"
proof (induction ds)
  case (Cons d ds)
  from Cons.prems(1) have d: "d \<notin> set pending" "jobs_at m d \<noteq> []" "list_all workflowJobTerminal (jobs_at m d)"
      "dependencies_ready pending m ds True = Inr True"
    by (simp_all add: dependencies_ready_false split: if_splits)
      (metis dependencies_ready_false, metis dependencies_ready_false)
  show ?case
  proof (cases "n = d")
    case True
    with d show ?thesis by (simp add: list_all_iff)
  next
    case False
    with Cons.IH [OF d(4)] Cons.prems(2) show ?thesis by simp
  qed
qed simp

lemma needs_met_same: "same_spec job job' \<Longrightarrow> needs_met pending m job' = needs_met pending m job"
  by (simp add: needs_met_def same_spec_def)

lemma ready_condition_update:
  "workflowJobReadyCondition (setWorkflowJobCancellationRequested job b reason msg) = workflowJobReadyCondition job"
  "\<not> workflowJobReadyCondition (setWorkflowJobWaiting job)"
  by (simp_all add: workflowJobReadyCondition_def setWorkflowJobCancellationRequested_def setWorkflowJobWaiting_def
      find_condition_def set_condition_def update_conv')

definition newly_ready :: "string list \<Rightarrow> job_map \<Rightarrow> WorkflowJob \<Rightarrow> WorkflowJob \<Rightarrow> bool" where
  "newly_ready pending m job job' \<longleftrightarrow>
     (workflowJobReadyCondition job' \<longrightarrow> workflowJobReadyCondition job \<or> needs_met pending m job')"

lemma assigned_cancellation_cases:
  "reconcileAssignedWorkflowJobCancellation env m st job = (st', e) \<Longrightarrow>
     st' = st \<or> (\<exists>b reason msg. write_job st job (setWorkflowJobCancellationRequested job b reason msg) = (st', e))"
  unfolding reconcileAssignedWorkflowJobCancellation_def
  by (auto split: sum.splits evaluation_error.splits bool.splits)

lemma assigned_cancellation_one:
  assumes "reconcileAssignedWorkflowJobCancellation env m st job = (st', e)"
  shows "one_job (newly_ready pending m' job) job (st_jobs st) (st_jobs st')"
proof -
  have "newly_ready pending m' job (setWorkflowJobCancellationRequested job b reason msg)" for b reason msg
    by (simp add: newly_ready_def ready_condition_update)
  with assigned_cancellation_cases [OF assms] show ?thesis by (metis write_job_one one_job_refl same_spec_marks(4))
qed

lemma evaluate_ready_one:
  assumes "graph_evaluate env run m st job = (st', e)" "needs_met pending m' job"
  shows "one_job (newly_ready pending m' job) job (st_jobs st) (st_jobs st')"
proof -
  from graph_evaluate_one [OF assms(1)] consider "st_jobs st' = st_jobs st"
    | job' where "same_spec job job'" "st_jobs st' = replace_job (st_jobs st) job'"
    by (auto simp: one_job_def)
  then show ?thesis
  proof cases
    case 2
    with needs_met_same [OF 2(1)] assms(2) have "newly_ready pending m' job job'" by (simp add: newly_ready_def)
    with 2 show ?thesis by (auto simp: one_job_def)
  qed simp
qed

lemma graph_job_one:
  assumes "graph_job env run pending deps st job = (st', e)"
  shows "one_job (newly_ready pending (graph_map deps st) job) job (st_jobs st) (st_jobs st')"
    and "workflowJobTerminal job \<Longrightarrow> st_jobs st' = st_jobs st"
proof -
  let ?m = "graph_map deps st"
  show "workflowJobTerminal job \<Longrightarrow> st_jobs st' = st_jobs st" using assms by (simp add: graph_job_def)
  consider "st' = st" | "reconcileAssignedWorkflowJobCancellation env ?m st job = (st', e)"
    | "write_job st job (setWorkflowJobWaiting job) = (st', e)"
    | "dependencies_ready pending ?m (Needs job) True = Inr True" "graph_evaluate env run ?m st job = (st', e)"
    using assms unfolding graph_job_def by (auto split: if_splits sum.splits bool.splits)
  then show "one_job (newly_ready pending ?m job) job (st_jobs st) (st_jobs st')"
  proof cases
    case 2 then show ?thesis by (rule assigned_cancellation_one)
  next
    case 3 then show ?thesis
      by (rule write_job_one) (simp_all add: job_marks newly_ready_def ready_condition_update)
  next
    case 4
    from dependencies_ready_met [OF 4(1)] have "needs_met pending ?m job" unfolding needs_met_def by blast
    with 4(2) show ?thesis by (rule evaluate_ready_one)
  qed simp
qed

lemma jobs_at_by_logical: "jobs_at (by_logical js) i = filter (\<lambda>j. logicalJobID j = i) js"
proof (cases "i \<in> set (map logicalJobID js)")
  case True
  then show ?thesis by (simp add: jobs_at_def by_logical_def map_of_map_restrict restrict_map_def)
next
  case False
  moreover from False have "filter (\<lambda>j. logicalJobID j = i) js = []" by (auto simp: filter_empty_conv)
  ultimately show ?thesis by (simp add: jobs_at_def by_logical_def map_of_map_restrict restrict_map_def)
qed

lemma same_spec_logical: "same_spec j j' \<Longrightarrow> logicalJobID j' = logicalJobID j"
  by (simp add: same_spec_def logicalJobID_def split: option.split)

lemma list_all2_filter:
  "list_all2 R xs ys \<Longrightarrow> (\<And>x y. R x y \<Longrightarrow> P x = P y) \<Longrightarrow> list_all2 R (filter P xs) (filter P ys)"
  by (induction rule: list_all2_induct) auto

lemma evolves_at:
  assumes "list_all2 evolves (st_jobs st) (st_jobs st')"
  shows "list_all2 evolves (jobs_at (graph_map deps st) i) (jobs_at (graph_map deps st') i)"
proof -
  have "map JobID (st_jobs st') = map JobID (st_jobs st)"
    using assms by (induction rule: list_all2_induct) (auto simp: evolves_def same_spec_def)
  then have "list_all2 evolves (merged_jobs deps (st_jobs st)) (merged_jobs deps (st_jobs st'))"
    using assms unfolding merged_jobs_def by (intro list_all2_appendI) (auto intro: list_all2_refl)
  then show ?thesis unfolding graph_map_def jobs_at_by_logical
    by (rule list_all2_filter) (auto simp: evolves_def dest: same_spec_logical)
qed

lemma needs_met_evolves:
  assumes "needs_met pending (graph_map deps st) job" "list_all2 evolves (st_jobs st) (st_jobs st')"
  shows "needs_met pending (graph_map deps st') job"
proof -
  have "ys \<noteq> [] \<and> (\<forall>d \<in> set ys. workflowJobTerminal d)"
    if "list_all2 evolves xs ys" "xs \<noteq> []" "\<forall>d \<in> set xs. workflowJobTerminal d" for xs ys
  proof -
    have "xs = ys" using that(1,3) by (induction rule: list_all2_induct) (auto simp: evolves_def)
    with that show ?thesis by simp
  qed
  with evolves_at [OF assms(2), of deps] assms(1) show ?thesis unfolding needs_met_def by blast
qed

lemma find_name_unique:
  assumes "find (\<lambda>j. job_name j = n) js = Some job" "distinct (map job_name js)"
  shows "job_name job = n \<and> (\<forall>j \<in> set js. job_name j = n \<longrightarrow> j = job)"
  using assms by (induction js) (auto split: if_splits simp: image_iff)

lemma replace_evolves:
  assumes "find (\<lambda>j. job_name j = n) js = Some job" "distinct (map job_name js)"
    and "one_job P job js js'" "workflowJobTerminal job \<Longrightarrow> js' = js"
    and "\<And>job'. P job' \<Longrightarrow> R job job'" "\<And>j. R j j"
  shows "list_all2 (\<lambda>j j'. evolves j j' \<and> R j j') js js'"
proof -
  from assms(3) consider "js' = js" | job' where "same_spec job job'" "P job'" "js' = replace_job js job'" "js' \<noteq> js"
    unfolding one_job_def by blast
  then show ?thesis
  proof cases
    case 1
    with assms(6) show ?thesis by (simp add: list_all2_refl)
  next
    case 2
    with assms(4) have "\<not> workflowJobTerminal job" by blast
    with 2(1) have "evolves job job'" by (simp add: evolves_def)
    with find_name_unique [OF assms(1,2)] 2 assms(5,6) have
      "evolves j (if job_name j = job_name job' then job' else j) \<and> R j (if job_name j = job_name job' then job' else j)"
      if "j \<in> set js" for j using that by (auto simp: same_spec_def)
    with 2(3) show ?thesis by (auto simp: replace_job_def list_all2_conv_all_nth)
  qed
qed

text \<open>
  What each visit of a job keeps, the whole pass keeps: a relation between a job before and after that every visit
  establishes, that composes, and that survives the changes of other jobs.
\<close>

lemma evolves_names: "list_all2 evolves js js' \<Longrightarrow> map job_name js' = map job_name js"
  by (induction rule: list_all2_induct) (auto simp: evolves_def same_spec_def)

locale pass_relation =
  fixes env :: graph_env and run :: WorkflowRun and pending :: "string list" and deps :: "WorkflowJob list"
    and Q :: "job_map \<Rightarrow> WorkflowJob \<Rightarrow> WorkflowJob \<Rightarrow> bool"
  assumes visit_establishes: "graph_job env run pending deps st job = (st', e) \<Longrightarrow>
      one_job (Q (graph_map deps st) job) job (st_jobs st) (st_jobs st')"
    and stays: "Q m j j"
    and composes: "evolves i j \<Longrightarrow> evolves j k \<Longrightarrow> Q m i j \<Longrightarrow> Q m j k \<Longrightarrow> Q m i k"
    and survives: "Q (graph_map deps st) i j \<Longrightarrow> list_all2 evolves (st_jobs st) (st_jobs st') \<Longrightarrow> Q (graph_map deps st') i j"
begin

definition pass_changes :: "job_store \<Rightarrow> job_store \<Rightarrow> bool" where
  "pass_changes st st' \<longleftrightarrow> list_all2 (\<lambda>j j'. evolves j j' \<and> Q (graph_map deps st') j j') (st_jobs st) (st_jobs st')"

lemma pass_evolves: "pass_changes st st' \<Longrightarrow> list_all2 evolves (st_jobs st) (st_jobs st')"
  unfolding pass_changes_def by (erule list_all2_mono) simp

lemma pass_changes_refl: "pass_changes st st"
  by (simp add: pass_changes_def stays list_all2_refl)

lemma pass_changes_trans:
  assumes "pass_changes st st1" "pass_changes st1 st2"
  shows "pass_changes st st2"
proof -
  have "evolves i k \<and> Q (graph_map deps st2) i k"
    if "evolves i j \<and> Q (graph_map deps st1) i j" "evolves j k \<and> Q (graph_map deps st2) j k" for i j k
    using that evolves_trans [of i j k] survives [OF _ pass_evolves [OF assms(2)]] by (blast intro: composes)
  from list_all2_trans [OF this assms [unfolded pass_changes_def]] show ?thesis unfolding pass_changes_def .
qed

lemma graph_job_changes:
  assumes "find (\<lambda>j. job_name j = n) (st_jobs st) = Some job" "distinct (map job_name (st_jobs st))"
    and "graph_job env run pending deps st job = (st', e)"
  shows "pass_changes st st'"
proof -
  have "workflowJobTerminal job \<Longrightarrow> st_jobs st' = st_jobs st" using assms(3) by (simp add: graph_job_def)
  then have step: "list_all2 (\<lambda>j j'. evolves j j' \<and> Q (graph_map deps st) j j') (st_jobs st) (st_jobs st')"
    by (intro replace_evolves [OF assms(1,2) visit_establishes [OF assms(3)]]) (simp_all add: stays)
  then have "list_all2 evolves (st_jobs st) (st_jobs st')" by (rule list_all2_mono) simp
  with step survives show ?thesis unfolding pass_changes_def by (auto elim: list_all2_mono)
qed

lemma graph_loop_changes:
  "graph_loop env run pending deps names st = (st', e) \<Longrightarrow> distinct (map job_name (st_jobs st)) \<Longrightarrow> pass_changes st st'"
proof (induction names arbitrary: st)
  case (Cons n names)
  show ?case
  proof (cases "find (\<lambda>j. job_name j = n) (st_jobs st)")
    case (Some job)
    obtain st1 e1 where g: "graph_job env run pending deps st job = (st1, e1)" by force
    from graph_job_changes [OF Some Cons.prems(2) g] have p: "pass_changes st st1" .
    with Cons.prems(2) have "distinct (map job_name (st_jobs st1))" by (simp add: evolves_names [OF pass_evolves])
    with Cons.IH [of st1] pass_changes_trans [OF p] p Cons.prems(1) Some g show ?thesis
      by (auto split: option.splits)
  qed (use Cons in simp)
qed (simp add: pass_changes_refl)

lemma pass_changes_all:
  "reconcileWorkflowJobGraphWithDependencies env run pending deps st = (st', e) \<Longrightarrow>
     distinct (map job_name (st_jobs st)) \<Longrightarrow> pass_changes st st'"
  by (auto simp: reconcileWorkflowJobGraphWithDependencies_def pass_changes_refl
      split: option.splits intro: graph_loop_changes)

lemma pass_keeps:
  assumes "reconcileWorkflowJobGraphWithDependencies env run pending deps st = (st', e)" "distinct (map job_name (st_jobs st))"
  shows "list_all2 evolves (st_jobs st) (st_jobs st')"
    and "i < length (st_jobs st) \<Longrightarrow> Q (graph_map deps st') (st_jobs st ! i) (st_jobs st' ! i)"
  using pass_changes_all [OF assms] pass_evolves by (auto simp: pass_changes_def dest: list_all2_nthD)

end

lemma newly_ready_composes:
  "evolves i j \<Longrightarrow> evolves j k \<Longrightarrow> newly_ready pending m i j \<Longrightarrow> newly_ready pending m j k \<Longrightarrow> newly_ready pending m i k"
  using needs_met_same [of j k] by (auto simp: newly_ready_def evolves_def)

interpretation ready: pass_relation env run pending deps "newly_ready pending" for env run pending deps
proof
  fix st job st' e
  assume "graph_job env run pending deps st job = (st', e)"
  then show "one_job (newly_ready pending (graph_map deps st) job) job (st_jobs st) (st_jobs st')" by (rule graph_job_one)
next
  fix st st' :: job_store and i j
  assume "newly_ready pending (graph_map deps st) i j" "list_all2 evolves (st_jobs st) (st_jobs st')"
  then show "newly_ready pending (graph_map deps st') i j" using needs_met_evolves unfolding newly_ready_def by blast
next
  fix m i j k
  assume "evolves i j" "evolves j k" "newly_ready pending m i j" "newly_ready pending m j k"
  then show "newly_ready pending m i k" by (rule newly_ready_composes)
qed (simp add: newly_ready_def)

text \<open>
  C14. A job becomes ready for a Runner only when all it needs has been planned, exists and has finished:
  whatever else the pass over the graph did before and after, every need of a job that it made ready is
  backed by at least one job, and all of them are terminal at the end of the pass.
\<close>

theorem ready_after_needs:
  assumes "reconcileWorkflowJobGraphWithDependencies env run pending deps st = (st', e)"
    and "distinct (map job_name (st_jobs st))"
    and "i < length (st_jobs st)" "\<not> workflowJobReadyCondition (st_jobs st ! i)" "workflowJobReadyCondition (st_jobs st' ! i)"
  shows "needs_met pending (graph_map deps st') (st_jobs st' ! i)"
  using ready.pass_keeps(2) [OF assms(1,2,3)] assms(4,5) by (simp add: newly_ready_def)

definition demo_env :: graph_env where
  "demo_env = \<lparr>ge_digest = id, quoted = id, ge_other = (\<lambda>_ c. c), ge_now = 0,
     evaluateCondition = (\<lambda>_ _ _. Inr True), evaluateConcurrency = (\<lambda>_ _. Inr ([], False)),
     ensureNeedsContext = (\<lambda>_ _. Inr ())\<rparr>"

definition demo_jobs :: "WorkflowJob list" where
  "demo_jobs = [(plain_job ''build'' [])\<lparr>Result := Success\<rparr>, plain_job ''test'' [''build'']]"

definition demo_store :: job_store where
  "demo_store = \<lparr>st_cluster = demo_cluster, st_jobs = demo_jobs\<rparr>"

definition demo_pass :: graph_result where
  "demo_pass = reconcileWorkflowJobGraphWithDependencies demo_env plain_run [] [] demo_store"

theorem ready_after_needs_witness:
  "workflowJobReadyCondition (st_jobs (fst demo_pass) ! 1) \<and>
   needs_met [] (graph_map [] (fst demo_pass)) (st_jobs (fst demo_pass) ! 1)"
proof -
  have ready: "workflowJobReadyCondition (st_jobs (fst demo_pass) ! 1)" by code_simp
  have "needs_met [] (graph_map [] (fst demo_pass)) (st_jobs (fst demo_pass) ! 1)"
    by (rule ready_after_needs [where i = 1 and e = "snd demo_pass", OF _ _ _ _ ready])
      (simp add: demo_pass_def, code_simp, code_simp, code_simp)
  with ready show ?thesis ..
qed

text \<open>
  A pass over the graph keeps the jobs it was given: the same jobs in the same order with the same
  identities, needs and matrix cells, and a job that had finished is exactly as it was, whatever the
  expressions, the concurrency gate and the API server answer.
\<close>

theorem finished_jobs_untouched:
  assumes "reconcileWorkflowJobGraphWithDependencies env run pending deps st = (st', e)"
    and "distinct (map job_name (st_jobs st))"
  shows "list_all2 (\<lambda>j j'. job_name j' = job_name j \<and> JobID j' = JobID j \<and> Needs j' = Needs j \<and> Matrix j' = Matrix j \<and>
    (workflowJobTerminal j \<longrightarrow> j' = j)) (st_jobs st) (st_jobs st')"
  using ready.pass_keeps(1) [OF assms] by (rule list_all2_mono) (simp add: evolves_def same_spec_def)

theorem finished_jobs_untouched_witness:
  "workflowJobTerminal (hd demo_jobs) \<and> hd (st_jobs (fst demo_pass)) = hd demo_jobs"
proof -
  have "list_all2 (\<lambda>j j'. job_name j' = job_name j \<and> JobID j' = JobID j \<and> Needs j' = Needs j \<and> Matrix j' = Matrix j \<and>
    (workflowJobTerminal j \<longrightarrow> j' = j)) demo_jobs (st_jobs (fst demo_pass))"
    using finished_jobs_untouched [of demo_env plain_run "[]" "[]" demo_store "fst demo_pass" "snd demo_pass"]
    by (simp add: demo_pass_def demo_store_def demo_jobs_def plain_job_def)
  moreover have "workflowJobTerminal (hd demo_jobs)" by code_simp
  ultimately show ?thesis by (cases "st_jobs (fst demo_pass)") (auto simp: demo_jobs_def)
qed

section \<open>The result of a matrix\<close>

lemma group_result_acc:
  "\<forall>j \<in> set js. workflowJobTerminal j \<Longrightarrow> acc \<in> {Success, Skipped, Cancelled} \<Longrightarrow>
   group_result acc js =
     (let rs = workflowJobEffectiveResult ` set js
      in if Failure \<in> rs then Failure else if acc = Cancelled \<or> Cancelled \<in> rs then Cancelled
         else if acc = Skipped \<or> Skipped \<in> rs then Skipped else Success)"
proof (induction js arbitrary: acc)
  case (Cons j js)
  have "workflowJobEffectiveResult j \<noteq> NoResult"
    using Cons.prems(1) by (auto simp: workflowJobTerminal_def workflowJobEffectiveResult_def Let_def)
  with Cons show ?case by (cases "workflowJobEffectiveResult j") (auto simp: Let_def)
qed (auto simp: Let_def)

text \<open>
  The result that \<^verbatim>\<open>needs\<close> shows for a finished matrix is its worst: failure before cancellation before
  skipping before success, where a tolerated failure counts as success. So it does not depend on the
  order of the combinations.
\<close>

theorem group_result_is_worst:
  assumes "\<forall>j \<in> set js. workflowJobTerminal j" "mset js = mset js'"
  shows "workflowJobGroupResult js' = workflowJobGroupResult js \<and> workflowJobGroupResult js =
    (let rs = workflowJobEffectiveResult ` set js
     in if Failure \<in> rs then Failure else if Cancelled \<in> rs then Cancelled
        else if Skipped \<in> rs then Skipped else Success)"
proof -
  have "set js' = set js" using assms(2) by (metis mset_eq_setD)
  with assms(1) show ?thesis unfolding workflowJobGroupResult_def by (simp add: group_result_acc Let_def)
qed

definition demo_matrix :: "WorkflowJob list" where
  "demo_matrix = [(plain_job ''a'' [])\<lparr>Result := Skipped\<rparr>, (plain_job ''b'' [])\<lparr>Result := Cancelled\<rparr>,
     (plain_job ''c'' [])\<lparr>Result := Failure, ContinueOnError := True\<rparr>]"

theorem group_result_is_worst_witness:
  "workflowJobGroupResult (rev demo_matrix) = workflowJobGroupResult demo_matrix \<and>
   workflowJobGroupResult demo_matrix = Cancelled"
proof -
  have "\<forall>j \<in> set demo_matrix. workflowJobTerminal j" by code_simp
  moreover have "workflowJobGroupResult demo_matrix = Cancelled" by code_simp
  ultimately show ?thesis using group_result_is_worst [of demo_matrix "rev demo_matrix"] by simp
qed

section \<open>Fail-fast hits the rest of a failed matrix\<close>

definition fail_fast_scope :: "string list \<Rightarrow> WorkflowJob \<Rightarrow> bool" where
  "fail_fast_scope failed job \<longleftrightarrow>
     Matrix job \<noteq> None \<and> \<not> workflowJobTerminal job \<and> matrixJobGroup job \<in> set failed"

lemma replace_middle:
  assumes "distinct (map job_name (pre @ job # js))" "job_name job' = job_name job"
  shows "replace_job (pre @ job # js) job' = pre @ job' # js"
proof -
  have "replace_job xs job' = xs" if "job_name job \<notin> job_name ` set xs" for xs
    using that assms(2) unfolding replace_job_def by (induction xs) auto
  with assms show ?thesis by (simp add: replace_job_def)
qed

lemma store_job_middle:
  assumes "st_jobs st = pre @ job # js" "distinct (map job_name (st_jobs st))" "job_name job' = job_name job"
    and "store_job st job job' = (st', None)"
  shows "st_jobs st' = pre @ job' # js"
  using assms replace_middle [of pre job js job']
  by (auto simp: store_job_def split: if_splits prod.splits option.splits)

lemma fail_fast_job_name: "job_name (fail_fast_job now job) = job_name job"
  by (simp add: fail_fast_job_def completeUnscheduledWorkflowJob_def setWorkflowJobCancellationRequested_def Let_def)

lemma fail_fast_loop_spec:
  "fail_fast_loop now failed st js pending = (st', Inr p) \<Longrightarrow> st_jobs st = pre @ js \<Longrightarrow>
   distinct (map job_name (st_jobs st)) \<Longrightarrow>
   st_jobs st' = pre @ map (\<lambda>j. if fail_fast_scope failed j then fail_fast_job now j else j) js \<and>
   p = (pending \<or> (\<exists>j \<in> set js. fail_fast_scope failed j))"
proof (induction js arbitrary: st pre pending)
  case (Cons job js)
  show ?case
  proof (cases "fail_fast_scope failed job")
    case False
    with Cons.prems(1) have "fail_fast_loop now failed st js pending = (st', Inr p)"
      by (simp add: fail_fast_scope_def split: if_splits)
    from Cons.IH [OF this, of "pre @ [job]"] Cons.prems(2,3) False show ?thesis by simp
  next
    case True
    then have run: "\<not> (Matrix job = None \<or> workflowJobTerminal job \<or> matrixJobGroup job \<notin> set failed)"
      by (simp add: fail_fast_scope_def)
    obtain st1 e where s: "store_job st job (fail_fast_job now job) = (st1, e)" by force
    with Cons.prems(1) run have e: "e = None" by (cases e) simp_all
    with Cons.prems(1) run s have loop: "fail_fast_loop now failed st1 js True = (st', Inr p)" by simp
    from store_job_middle [OF Cons.prems(2,3) fail_fast_job_name] s e
    have mem: "st_jobs st1 = pre @ fail_fast_job now job # js" by blast
    then have "distinct (map job_name (st_jobs st1))" using Cons.prems(2,3) by (simp add: fail_fast_job_name)
    from Cons.IH [OF loop _ this, of "pre @ [fail_fast_job now job]"] mem True show ?thesis by simp
  qed
qed simp

text \<open>
  C30. Matrix fail-fast stops the rest of a failed matrix and nothing else. When the pass succeeds, the
  jobs it changed are exactly the unfinished combinations of a matrix that has a failed combination
  with fail-fast enabled: one without a Runner is cancelled on the spot, one that runs is asked to
  stop. The pass reports work pending exactly when there was such a job.
\<close>

theorem fail_fast_stops_the_matrix:
  assumes "reconcileMatrixFailFast now st = (st', Inr p)" "distinct (map job_name (st_jobs st))"
  defines "failed \<equiv> map matrixJobGroup (filter workflowJobFailureTriggersMatrixFailFast (st_jobs st))"
  shows "st_jobs st' = map (\<lambda>j. if fail_fast_scope failed j then fail_fast_job now j else j) (st_jobs st) \<and>
    (p \<longleftrightarrow> (\<exists>j \<in> set (st_jobs st). fail_fast_scope failed j)) \<and>
    (\<forall>j. RunnerRef j = None \<longrightarrow> workflowJobResult (fail_fast_job now j) = Cancelled) \<and>
    (\<forall>j. RunnerRef j \<noteq> None \<longrightarrow> find_condition (job_conditions (fail_fast_job now j)) ''CancellationRequested'' =
       Some \<lparr>Status = ConditionTrue, Reason = ''MatrixFailFast'', Message = matrixFailFastMessage\<rparr>)"
proof (intro conjI)
  have "st_jobs st' = map (\<lambda>j. if fail_fast_scope failed j then fail_fast_job now j else j) (st_jobs st) \<and>
    (p \<longleftrightarrow> (\<exists>j \<in> set (st_jobs st). fail_fast_scope failed j))"
  proof (cases "failed = []")
    case True
    with assms(1) have "st' = st" "\<not> p" unfolding reconcileMatrixFailFast_def failed_def [symmetric] by auto
    then show ?thesis using True by (simp add: fail_fast_scope_def)
  next
    case False
    with assms(1) have "fail_fast_loop now failed st (st_jobs st) False = (st', Inr p)"
      unfolding reconcileMatrixFailFast_def failed_def [symmetric] by simp
    from fail_fast_loop_spec [OF this, of "[]"] assms(2) show ?thesis by simp
  qed
  then show "st_jobs st' = map (\<lambda>j. if fail_fast_scope failed j then fail_fast_job now j else j) (st_jobs st)"
    "p \<longleftrightarrow> (\<exists>j \<in> set (st_jobs st). fail_fast_scope failed j)" by auto
  show "\<forall>j. RunnerRef j = None \<longrightarrow> workflowJobResult (fail_fast_job now j) = Cancelled"
    by (simp add: fail_fast_job_def workflowJobResult_def completeUnscheduledWorkflowJob_def Let_def)
  show "\<forall>j. RunnerRef j \<noteq> None \<longrightarrow> find_condition (job_conditions (fail_fast_job now j)) ''CancellationRequested'' =
       Some \<lparr>Status = ConditionTrue, Reason = ''MatrixFailFast'', Message = matrixFailFastMessage\<rparr>"
    by (simp add: fail_fast_job_def setWorkflowJobCancellationRequested_def find_condition_def set_condition_def update_conv')
qed

definition demo_cell :: "string \<Rightarrow> job_result \<Rightarrow> WorkflowJob" where
  "demo_cell i r = (plain_job i [])\<lparr>Result := r, Matrix := Some \<lparr>LogicalJobID = ''m'', JobIndex = 0, JobTotal = 2,
     MaxParallel = 0, FailFast = None\<rparr>\<rparr>"

theorem fail_fast_stops_the_matrix_witness:
  "map workflowJobResult (st_jobs (fst (reconcileMatrixFailFast 0
     \<lparr>st_cluster = demo_cluster, st_jobs = [demo_cell ''m-1'' Failure, demo_cell ''m-2'' NoResult]\<rparr>))) = [Failure, Cancelled]"
proof -
  let ?st = "\<lparr>st_cluster = demo_cluster, st_jobs = [demo_cell ''m-1'' Failure, demo_cell ''m-2'' NoResult]\<rparr>"
  let ?failed = "map matrixJobGroup (filter workflowJobFailureTriggersMatrixFailFast (st_jobs ?st))"
  obtain st' r where run: "reconcileMatrixFailFast 0 ?st = (st', r)" by force
  have "case snd (reconcileMatrixFailFast 0 ?st) of Inl _ \<Rightarrow> False | Inr _ \<Rightarrow> True" by code_simp
  with run obtain p where r: "r = Inr p" by (auto split: sum.splits)
  have d: "distinct (map job_name (st_jobs ?st))" by code_simp
  have "map workflowJobResult (map (\<lambda>j. if fail_fast_scope ?failed j then fail_fast_job 0 j else j) (st_jobs ?st)) =
      [Failure, Cancelled]" by code_simp
  with fail_fast_stops_the_matrix [OF run [unfolded r] d] run show ?thesis by simp
qed

end
