(* ===== verification/RunOutcome.thy ===== *)
theory RunOutcome
  imports JobGraph
begin

text \<open>
  The observation of the jobs of a run, \<^verbatim>\<open>observeWorkflowJobs\<close> of
  \<^verbatim>\<open>src/internal/controller/workflowrun_controller.go\<close>: it drives fail-fast and the pass over the job
  graph, counts the jobs by their state, releases concurrency groups, notices lost execution state and
  decides when and how the run ends.

  The deferred planning of jobs (\<^verbatim>\<open>reconcileDeferredJobs\<close>), the jobs inherited by a rerun, the context of
  the expressions and the plan ConfigMaps are arguments. The key sets of the plan state are lists of keys.
\<close>

section \<open>State and parameters\<close>

record workflowPlanState =
  plan_dependencies :: "WorkflowJob list"
  plan_active :: bool
  plan_changed :: bool
  plan_pending :: "string list"
  plan_expected :: "string list"

definition no_plan :: workflowPlanState where
  "no_plan = \<lparr>plan_dependencies = [], plan_active = False, plan_changed = False, plan_pending = [], plan_expected = []\<rparr>"

datatype plan_failure = TerminalPlanning string | PlanningFailed string

datatype plan_lookup = PlanUnreadable string | PlanMissing | PlanFound string bool

record observe_env = graph_env +
  reconcileDeferredJobs :: "WorkflowRun \<Rightarrow> job_store \<Rightarrow> job_store \<times> (plan_failure + workflowPlanState)"
  rerunDependencyWorkflowJobs :: "WorkflowRun \<Rightarrow> WorkflowJob list \<Rightarrow> plan_failure + WorkflowJob list"
  loadExpressionContext :: "WorkflowRun \<Rightarrow> WorkflowJob list \<Rightarrow> string option"
  planConfigMap :: "WorkflowJob \<Rightarrow> plan_lookup"

datatype observe_error =
    ObserveApi concurrency_error
  | ObserveGraph graph_error
  | ObservePlan string

datatype requeue = Done | Requeue | RequeueAfter int

section \<open>Helpers\<close>

definition workflowRunConcurrencyWaitCondition :: "condition option \<Rightarrow> bool" where
  "workflowRunConcurrencyWaitCondition c \<longleftrightarrow> waitingForConcurrencyCondition c \<or>
     (case c of None \<Rightarrow> False
      | Some c \<Rightarrow> Status c = ConditionUnknown \<and> Reason c = ''WaitingForPriorRunPlanning'')"

definition workflowRunCancelledBeforeConcurrency :: "WorkflowRun \<Rightarrow> bool" where
  "workflowRunCancelledBeforeConcurrency run \<longleftrightarrow>
     CancelRequested (Spec run) \<and> workflowRunConcurrencyWaitCondition (planned_condition run)"

definition workflowJobRuntimeStateExists :: "cluster \<Rightarrow> WorkflowJob \<Rightarrow> concurrency_error + bool" where
  "workflowJobRuntimeStateExists cl job =
     and_then (api_read cl ''native_jobs'' (find (\<lambda>j. native_name j = job_name job) (native_jobs cl))) (\<lambda>found.
       case found of
         Some nj \<Rightarrow> if native_controller nj \<noteq> job_uid job then Inl (NotControlled (native_name nj)) else Inr True
       | None \<Rightarrow> api_read cl ''pods'' (list_ex podActive (filter (\<lambda>p. pod_job_uid p = job_uid job) (pods cl))))"

definition needs_expression_context :: "WorkflowRun \<Rightarrow> WorkflowJob \<Rightarrow> bool" where
  "needs_expression_context run job =
     (let needsCondition = (trim_space (If job) \<noteq> []);
          needsConcurrency = (job_concurrency_policy job \<noteq> None \<and> job_concurrency job = None)
      in \<not> workflowJobTerminal job \<and> (needsCondition \<or> needsConcurrency) \<and>
         \<not> (\<not> CancelRequested (Spec run) \<and> (RunnerRef job \<noteq> None \<or> workflowJobReadyCondition job) \<and> \<not> needsConcurrency))"

definition workflowJobGraphNeedsExpressionContext :: "WorkflowRun \<Rightarrow> WorkflowJob list \<Rightarrow> bool" where
  "workflowJobGraphNeedsExpressionContext run js = list_ex (needs_expression_context run) js"

fun cancel_unadmitted :: "int \<Rightarrow> job_store \<Rightarrow> WorkflowJob list \<Rightarrow> job_store \<times> concurrency_error option" where
  "cancel_unadmitted now st [] = (st, None)"
| "cancel_unadmitted now st (job # js) =
     (if workflowJobTerminal job then cancel_unadmitted now st js
      else case store_job st job (completeUnscheduledWorkflowJob now job Cancelled ''CancellationRequested''
             ''The workflow run was cancelled before concurrency admission'') of
        (st, Some e) \<Rightarrow> (st, Some e)
      | (st, None) \<Rightarrow> cancel_unadmitted now st js)"

section \<open>One job\<close>

record observation =
  tally :: WorkflowRunJobStatus
  earliest :: "int option"
  waitingForRuntimeState :: bool
  hasNonFailFastCancellation :: bool
  hasFailure :: bool
  gatePending :: bool
  lostState :: string

definition tally_job :: "WorkflowJob \<Rightarrow> WorkflowRunJobStatus \<Rightarrow> WorkflowRunJobStatus" where
  "tally_job job s =
     (if workflowJobResult job = Success then s\<lparr>SucceededJobs := int32 (SucceededJobs s + 1)\<rparr>
      else if workflowJobTimedOut job then s\<lparr>TimedOut := int32 (TimedOut s + 1)\<rparr>
      else if workflowJobResult job = Failure then s\<lparr>FailedJobs := int32 (FailedJobs s + 1)\<rparr>
      else if workflowJobResult job = Skipped then s\<lparr>SkippedJobs := int32 (SkippedJobs s + 1)\<rparr>
      else if workflowJobResult job = Cancelled then s\<lparr>CancelledJobs := int32 (CancelledJobs s + 1)\<rparr>
      else if RunnerRef job \<noteq> None then s\<lparr>Active := int32 (Active s + 1)\<rparr>
      else if workflowJobReady job then s\<lparr>Queued := int32 (Queued s + 1)\<rparr>
      else s\<lparr>Waiting := int32 (Waiting s + 1)\<rparr>)"

definition observe_gate :: "WorkflowJob \<Rightarrow> observation \<Rightarrow> observation" where
  "observe_gate job ob =
     (if \<not> workflowJobTerminal job \<and>
         (case find_condition (job_conditions job) ''ConcurrencyAcquired'' of
            None \<Rightarrow> False | Some c \<Rightarrow> Status c = ConditionUnknown)
      then ob\<lparr>gatePending := True\<rparr> else ob)"

definition plan_problem :: "observe_env \<Rightarrow> WorkflowJob \<Rightarrow> observe_error + string" where
  "plan_problem env job =
     (case planConfigMap env job of
        PlanUnreadable e \<Rightarrow> Inl (ObservePlan e)
      | PlanMissing \<Rightarrow> Inr (''WorkflowJob '' @ quoted env (job_name job) @ '' is missing its plan ConfigMap'')
      | PlanFound name controlled \<Rightarrow>
          Inr (if controlled then []
               else ''WorkflowJob '' @ quoted env (job_name job) @ '' does not control plan ConfigMap '' @ quoted env name))"

definition observe_plan :: "observe_env \<Rightarrow> cluster \<Rightarrow> WorkflowJob \<Rightarrow> observation \<Rightarrow> observe_error + observation" where
  "observe_plan env cl job ob =
     (if workflowJobTerminal job then Inr ob
      else and_then (plan_problem env job) (\<lambda>planError.
        if planError = [] then Inr ob
        else case workflowJobRuntimeStateExists cl job of
          Inl e \<Rightarrow> Inl (ObserveApi e)
        | Inr exists \<Rightarrow> Inr (if exists then ob\<lparr>waitingForRuntimeState := True\<rparr> else ob\<lparr>lostState := planError\<rparr>)))"

definition observe_start :: "WorkflowJob \<Rightarrow> observation \<Rightarrow> observation" where
  "observe_start job ob =
     (case job_start job of
        None \<Rightarrow> ob
      | Some t \<Rightarrow> (case earliest ob of
            None \<Rightarrow> ob\<lparr>earliest := Some t\<rparr>
          | Some u \<Rightarrow> if t < u then ob\<lparr>earliest := Some t\<rparr> else ob))"

definition observe_release :: "observe_env \<Rightarrow> WorkflowRun \<Rightarrow> cluster \<Rightarrow> WorkflowJob \<Rightarrow> observation \<Rightarrow>
    cluster \<times> (observe_error + observation)" where
  "observe_release env run cl job ob =
     (case (workflowJobResult job \<noteq> NoResult, job_concurrency job) of
        (True, Some c) \<Rightarrow>
          (case workflowJobExecutionActive cl job of
             Inl e \<Rightarrow> (cl, Inl (ObserveApi e))
           | Inr True \<Rightarrow> (cl, Inr (ob\<lparr>waitingForRuntimeState := True\<rparr>))
           | Inr False \<Rightarrow>
               (case workflowRunConcurrencyScope run of
                  Inl e \<Rightarrow> (cl, Inl (ObserveApi e))
                | Inr scope \<Rightarrow>
                    (case releaseConcurrency (ge_digest env) (ge_other env) (ge_now env) scope (Group c)
                            (workflowJobConcurrencyMember job) cl of
                       (cl, Some e) \<Rightarrow> (cl, Inl (ObserveApi e))
                     | (cl, None) \<Rightarrow> (cl, Inr ob))))
      | _ \<Rightarrow> (cl, Inr ob))"

definition observe_tally :: "WorkflowJob \<Rightarrow> observation \<Rightarrow> observation" where
  "observe_tally job ob =
     ob\<lparr>tally := tally_job job (tally ob),
        hasNonFailFastCancellation := hasNonFailFastCancellation ob \<or>
          (workflowJobResult job = Cancelled \<and> \<not> workflowJobTimedOut job \<and> \<not> workflowJobCancelledByMatrixFailFast job)\<rparr>"

definition observe_job :: "observe_env \<Rightarrow> WorkflowRun \<Rightarrow> cluster \<Rightarrow> WorkflowJob \<Rightarrow> observation \<Rightarrow>
    cluster \<times> (observe_error + observation)" where
  "observe_job env run cl job ob =
     (case observe_plan env cl job (observe_gate job ob) of
        Inl e \<Rightarrow> (cl, Inl e)
      | Inr ob \<Rightarrow>
          (let ob = observe_start job ob;
               ob = (if workflowJobEffectiveResult job = Failure then ob\<lparr>hasFailure := True\<rparr> else ob)
           in case observe_release env run cl job ob of
                (cl, Inl e) \<Rightarrow> (cl, Inl e)
              | (cl, Inr ob) \<Rightarrow> (cl, Inr (observe_tally job ob))))"

fun observe_jobs :: "observe_env \<Rightarrow> WorkflowRun \<Rightarrow> cluster \<Rightarrow> WorkflowJob list \<Rightarrow> observation \<Rightarrow>
    cluster \<times> (observe_error + observation)" where
  "observe_jobs env run cl [] ob = (cl, Inr ob)"
| "observe_jobs env run cl (job # js) ob =
     (case observe_job env run cl job ob of
        (cl, Inl e) \<Rightarrow> (cl, Inl e)
      | (cl, Inr ob) \<Rightarrow> observe_jobs env run cl js ob)"

section \<open>The end of a run\<close>

definition finished_total :: "WorkflowRunJobStatus \<Rightarrow> int" where
  "finished_total s = int32 (SucceededJobs s + FailedJobs s + TimedOut s + SkippedJobs s + CancelledJobs s)"

definition run_verdict :: "bool \<Rightarrow> WorkflowRun \<Rightarrow> observation \<Rightarrow> bool \<times> condition_status \<times> string \<times> string" where
  "run_verdict terminal run ob =
     (let s = tally ob
      in if terminal \<and> hasNonFailFastCancellation ob then
           (True, ConditionFalse, ''JobCancelled'', ''At least one WorkflowJob was cancelled'')
         else if terminal \<and> (FailedJobs s > 0 \<or> TimedOut s > 0) \<and> CancelRequested (Spec run) then
           (True, ConditionFalse, ''JobCancelled'', ''Workflow cancellation was requested'')
         else if terminal \<and> TimedOut s > 0 then
           (True, ConditionFalse, ''JobTimedOut'', ''At least one WorkflowJob timed out'')
         else if terminal \<and> hasFailure ob then
           (True, ConditionFalse, ''JobFailed'', ''At least one WorkflowJob failed'')
         else if terminal \<and> CancelledJobs s > 0 then
           (True, ConditionFalse, ''JobCancelled'', ''At least one WorkflowJob was cancelled'')
         else if terminal then
           (True, ConditionTrue, ''JobsSucceeded'', ''All required WorkflowJobs succeeded'')
         else if Waiting s > 0 then
           (False, ConditionUnknown, ''JobsWaiting'', ''WorkflowJobs are waiting for dependencies'')
         else if Queued s > 0 then
           (False, ConditionUnknown, ''JobsQueued'', ''WorkflowJobs are waiting for matching Runners'')
         else (False, ConditionUnknown, ''JobsRunning'', ''WorkflowJobs are still running''))"

definition write_run :: "job_store \<Rightarrow> WorkflowRun \<Rightarrow> WorkflowRun \<Rightarrow> requeue \<Rightarrow>
    (job_store \<times> WorkflowRun) \<times> (observe_error + requeue)" where
  "write_run st before run result =
     (if run = before then ((st, run), Inr result)
      else case update_run (st_cluster st) run of
        (cl, Some e) \<Rightarrow> ((st\<lparr>st_cluster := cl\<rparr>, before), Inl (ObserveApi e))
      | (cl, None) \<Rightarrow> ((st\<lparr>st_cluster := cl\<rparr>, run), Inr result))"

definition lost_run :: "int \<Rightarrow> WorkflowRun \<Rightarrow> string \<Rightarrow> WorkflowRun" where
  "lost_run now run msg =
     run\<lparr>run_completion := Some now,
         run_conditions := set_condition (set_condition (run_conditions run) ''Planned'' ConditionFalse ''ExecutionStateLost'' msg)
           ''Succeeded'' ConditionFalse ''ExecutionStateLost'' msg\<rparr>"

definition concluded_run :: "int \<Rightarrow> WorkflowRun \<Rightarrow> workflowPlanState \<Rightarrow> bool \<Rightarrow> observation \<Rightarrow> WorkflowRun" where
  "concluded_run now run planState terminal ob =
     (let plannedMessage = (if plan_active planState then ''The workflow plan is ready'' else ''All WorkflowJobs have been created'');
          cs = set_condition (run_conditions run) ''Planned'' ConditionTrue ''JobsPlanned'' plannedMessage;
          (completed, status, reason, msg) = run_verdict terminal run ob;
          run = (if completed then run\<lparr>run_completion := Some now\<rparr> else run)
      in run\<lparr>run_conditions := set_condition cs ''Succeeded'' status reason msg\<rparr>)"

definition observed_run :: "WorkflowRun \<Rightarrow> string \<Rightarrow> observation \<Rightarrow> WorkflowRun" where
  "observed_run run workflowName ob =
     run\<lparr>WorkflowName := workflowName, Jobs := Some (tally ob),
         run_start := (if run_start run = None then earliest ob else run_start run)\<rparr>"

definition all_finished :: "workflowPlanState \<Rightarrow> int \<Rightarrow> observation \<Rightarrow> job_store \<Rightarrow> bool" where
  "all_finished planState expectedObjects ob st \<longleftrightarrow> \<not> waitingForRuntimeState ob \<and> plan_pending planState = [] \<and>
     int (length (st_jobs st)) = expectedObjects \<and> finished_total (tally ob) = Total (tally ob)"

definition conclude :: "observe_env \<Rightarrow> WorkflowRun \<Rightarrow> string \<Rightarrow> workflowPlanState \<Rightarrow> int \<Rightarrow> bool \<Rightarrow> observation \<Rightarrow> job_store \<Rightarrow>
    (job_store \<times> WorkflowRun) \<times> (observe_error + requeue)" where
  "conclude env before workflowName planState expectedObjects failFastPending ob st =
     (let run = observed_run before workflowName ob;
          active = activeRuntimeWorkloads (st_cluster st) (run_uid run)
      in if lostState ob \<noteq> [] then write_run st before (lost_run (ge_now env) run (lostState ob)) Done
         else
           (let terminal = all_finished planState expectedObjects ob st;
                conclusion = (\<lambda>terminal waiting.
                  write_run st before (concluded_run (ge_now env) run planState terminal ob)
                    (if waiting \<or> failFastPending \<or> gatePending ob then RequeueAfter 2 else Done))
            in if terminal \<and> CancelledJobs (tally ob) > 0 then
                 (case active of
                    Inl e \<Rightarrow> ((st, before), Inl (ObserveApi e))
                  | Inr True \<Rightarrow> conclusion False True
                  | Inr False \<Rightarrow> conclusion True (waitingForRuntimeState ob))
               else conclusion terminal (waitingForRuntimeState ob)))"

definition settle_loss :: "WorkflowRun \<Rightarrow> cluster \<Rightarrow> observation \<Rightarrow> observe_error + observation" where
  "settle_loss run cl ob =
     (if lostState ob = [] then Inr ob
      else case activeRuntimeWorkloads cl (run_uid run) of
        Inl e \<Rightarrow> Inl (ObserveApi e)
      | Inr active \<Rightarrow> Inr (if active then ob\<lparr>lostState := [], waitingForRuntimeState := True\<rparr> else ob))"

section \<open>The whole observation\<close>

definition observe_list :: "WorkflowRun \<Rightarrow> cluster \<Rightarrow> observe_error + job_store" where
  "observe_list run cl =
     (case api_read cl ''jobs'' (filter (\<lambda>j. job_run_label j = run_uid run) (jobs cl)) of
        Inl e \<Rightarrow> Inl (ObserveApi e)
      | Inr js \<Rightarrow> Inr \<lparr>st_cluster = cl, st_jobs = js\<rparr>)"

definition observe_admission :: "observe_env \<Rightarrow> WorkflowRun \<Rightarrow> job_store \<Rightarrow> job_store \<times> (observe_error + unit)" where
  "observe_admission env run st =
     (if workflowRunCancelledBeforeConcurrency run then
        (case cancel_unadmitted (ge_now env) st (st_jobs st) of
           (st, Some e) \<Rightarrow> (st, Inl (ObserveApi e))
         | (st, None) \<Rightarrow> (st, Inr ()))
      else (st, Inr ()))"

definition observe_deferred :: "observe_env \<Rightarrow> WorkflowRun \<Rightarrow> job_store \<Rightarrow>
    job_store \<times> (observe_error + string \<times> workflowPlanState)" where
  "observe_deferred env run st =
     (case reconcileDeferredJobs env run st of
        (st, Inr planState) \<Rightarrow> (st, Inr ([], planState))
      | (st, Inl (PlanningFailed e)) \<Rightarrow> (st, Inl (ObservePlan e))
      | (st, Inl (TerminalPlanning e)) \<Rightarrow>
          if Rerun (Spec run) = None then (st, Inl (ObservePlan e)) else (st, Inr (e, no_plan)))"

definition observe_missing :: "WorkflowRun \<Rightarrow> int \<Rightarrow> string \<Rightarrow> job_store \<Rightarrow> observe_error + string \<times> bool" where
  "observe_missing run expectedObjects lost st =
     (if lost = [] \<and> int (length (st_jobs st)) \<noteq> expectedObjects then
        (case activeRuntimeWorkloads (st_cluster st) (run_uid run) of
           Inl e \<Rightarrow> Inl (ObserveApi e)
         | Inr True \<Rightarrow> Inr (lost, True)
         | Inr False \<Rightarrow> Inr (''expected '' @ int_str expectedObjects @ '' WorkflowJobs, found '' @
             int_str (int (length (st_jobs st))), False))
      else Inr (lost, False))"

definition observe_graph :: "observe_env \<Rightarrow> WorkflowRun \<Rightarrow> workflowPlanState \<Rightarrow> int \<Rightarrow> string \<Rightarrow> job_store \<Rightarrow>
    job_store \<times> (observe_error + string)" where
  "observe_graph env run planState expectedObjects lost st =
     (if lost \<noteq> [] \<or> int (length (st_jobs st)) \<noteq> expectedObjects then (st, Inr lost)
      else case (if plan_active planState then Inr (plan_dependencies planState)
                 else rerunDependencyWorkflowJobs env run (st_jobs st)) of
        Inl (PlanningFailed e) \<Rightarrow> (st, Inl (ObservePlan e))
      | Inl (TerminalPlanning e) \<Rightarrow> (st, Inr e)
      | Inr deps \<Rightarrow>
          (case (if workflowJobGraphNeedsExpressionContext run (st_jobs st)
                 then loadExpressionContext env run (st_jobs st) else None) of
             Some e \<Rightarrow> (st, Inl (ObservePlan e))
           | None \<Rightarrow>
               (case reconcileWorkflowJobGraphWithDependencies (graph_env.truncate env) run
                       (if plan_active planState then plan_pending planState else []) deps st of
                  (st, Some e) \<Rightarrow> (st, Inl (ObserveGraph e))
                | (st, None) \<Rightarrow> (st, Inr lost))))"

definition empty_tally :: "int \<Rightarrow> int \<Rightarrow> WorkflowRunJobStatus" where
  "empty_tally jobTotal waiting = \<lparr>Total = jobTotal, Waiting = waiting, Queued = 0, Active = 0, SucceededJobs = 0,
     FailedJobs = 0, TimedOut = 0, SkippedJobs = 0, CancelledJobs = 0\<rparr>"

definition expected_objects :: "int \<Rightarrow> workflowPlanState \<Rightarrow> int" where
  "expected_objects jobTotal planState = (if plan_active planState then int (length (plan_expected planState)) else jobTotal)"

definition pending_of :: "workflowPlanState \<Rightarrow> string list" where
  "pending_of planState = (if plan_active planState then plan_pending planState else [])"

definition start_tally :: "int \<Rightarrow> workflowPlanState \<Rightarrow> WorkflowRunJobStatus" where
  "start_tally jobTotal planState = empty_tally
     (if plan_active planState then int32 (int (length (plan_expected planState) + length (plan_pending planState))) else jobTotal)
     (int32 (int (length (pending_of planState))))"

definition observe_count :: "observe_env \<Rightarrow> WorkflowRun \<Rightarrow> string \<Rightarrow> int \<Rightarrow> workflowPlanState \<Rightarrow> bool \<Rightarrow> bool \<Rightarrow> string \<Rightarrow>
    job_store \<Rightarrow> (job_store \<times> WorkflowRun) \<times> (observe_error + requeue)" where
  "observe_count env run workflowName jobTotal planState failFastPending waiting lost st =
     (let ob = \<lparr>tally = start_tally jobTotal planState, earliest = None, waitingForRuntimeState = waiting,
            hasNonFailFastCancellation = False, hasFailure = False, gatePending = False, lostState = lost\<rparr>
      in case observe_jobs env run (st_cluster st) (st_jobs st) ob of
           (cl, Inl e) \<Rightarrow> ((st\<lparr>st_cluster := cl\<rparr>, run), Inl e)
         | (cl, Inr ob) \<Rightarrow>
             (case settle_loss run cl ob of
                Inl e \<Rightarrow> ((st\<lparr>st_cluster := cl\<rparr>, run), Inl e)
              | Inr ob \<Rightarrow> conclude env run workflowName (planState\<lparr>plan_pending := pending_of planState\<rparr>)
                  (expected_objects jobTotal planState) failFastPending ob (st\<lparr>st_cluster := cl\<rparr>)))"

definition observe_planned :: "observe_env \<Rightarrow> WorkflowRun \<Rightarrow> string \<Rightarrow> int \<Rightarrow> string \<Rightarrow> workflowPlanState \<Rightarrow> job_store \<Rightarrow>
    (job_store \<times> WorkflowRun) \<times> (observe_error + requeue)" where
  "observe_planned env run workflowName jobTotal lost planState st =
     (case reconcileMatrixFailFast (ge_now env) st of
        (st, Inl e) \<Rightarrow> ((st, run), Inl (ObserveApi e))
      | (st, Inr failFastPending) \<Rightarrow>
          (case observe_missing run (expected_objects jobTotal planState) lost st of
             Inl e \<Rightarrow> ((st, run), Inl e)
           | Inr (lost, waiting) \<Rightarrow>
               (case observe_graph env run planState (expected_objects jobTotal planState) lost st of
                  (st, Inl e) \<Rightarrow> ((st, run), Inl e)
                | (st, Inr lost) \<Rightarrow>
                    observe_count env run workflowName jobTotal planState failFastPending waiting lost st)))"

definition observeWorkflowJobs :: "observe_env \<Rightarrow> WorkflowRun \<Rightarrow> string \<Rightarrow> int \<Rightarrow> cluster \<Rightarrow>
    (job_store \<times> WorkflowRun) \<times> (observe_error + requeue)" where
  "observeWorkflowJobs env run workflowName jobTotal cl =
     (case observe_list run cl of
        Inl e \<Rightarrow> ((\<lparr>st_cluster = cl, st_jobs = []\<rparr>, run), Inl e)
      | Inr st \<Rightarrow>
          (case observe_admission env run st of
             (st, Inl e) \<Rightarrow> ((st, run), Inl e)
           | (st, Inr _) \<Rightarrow>
               (case observe_deferred env run st of
                  (st, Inl e) \<Rightarrow> ((st, run), Inl e)
                | (st, Inr (lost, planState)) \<Rightarrow>
                    if plan_changed planState then ((st, run), Inr Requeue)
                    else observe_planned env run workflowName jobTotal lost planState st)))"

section \<open>What the counters count\<close>

datatype job_class = InSucceeded | InTimedOut | InFailed | InSkipped | InCancelled | InActive | InQueued | InWaiting

definition class_of :: "WorkflowJob \<Rightarrow> job_class" where
  "class_of job =
     (if workflowJobResult job = Success then InSucceeded
      else if workflowJobTimedOut job then InTimedOut
      else case workflowJobResult job of
        Failure \<Rightarrow> InFailed | Skipped \<Rightarrow> InSkipped | Cancelled \<Rightarrow> InCancelled
      | _ \<Rightarrow> if RunnerRef job \<noteq> None then InActive else if workflowJobReady job then InQueued else InWaiting)"

fun counter :: "job_class \<Rightarrow> WorkflowRunJobStatus \<Rightarrow> int" where
  "counter InSucceeded s = SucceededJobs s"
| "counter InTimedOut s = TimedOut s"
| "counter InFailed s = FailedJobs s"
| "counter InSkipped s = SkippedJobs s"
| "counter InCancelled s = CancelledJobs s"
| "counter InActive s = Active s"
| "counter InQueued s = Queued s"
| "counter InWaiting s = Waiting s"

lemma counter_tally_job:
  "counter c (tally_job job s) = (if class_of job = c then int32 (counter c s + 1) else counter c s)"
  "Total (tally_job job s) = Total s"
  by (cases c; cases "workflowJobResult job"; simp add: tally_job_def class_of_def)
    (simp add: tally_job_def)

lemma counters_fold:
  assumes "\<And>c. 0 \<le> counter c s \<and> counter c s + int (length js) < 2 ^ 31"
  shows "counter c (fold tally_job js s) = counter c s + int (length (filter (\<lambda>j. class_of j = c) js)) \<and>
    Total (fold tally_job js s) = Total s"
  using assms
proof (induction js arbitrary: s)
  case (Cons j js)
  have step: "counter d (tally_job j s) = counter d s + (if class_of j = d then 1 else 0)" for d
  proof -
    have "0 \<le> counter d s" "counter d s + 1 < 2 ^ 31"
      using Cons.prems [of d] by (simp_all add: add_increasing2)
    then have "int32 (counter d s + 1) = counter d s + 1" by (intro int32_small) simp_all
    then show ?thesis by (simp add: counter_tally_job)
  qed
  have "0 \<le> counter d (tally_job j s) \<and> counter d (tally_job j s) + int (length js) < 2 ^ 31" for d
    using Cons.prems [of d] by (simp add: step)
  from Cons.IH [OF this] show ?case by (simp add: step counter_tally_job(2))
qed simp

definition unfinished_class :: "job_class \<Rightarrow> bool" where
  "unfinished_class c \<longleftrightarrow> c \<in> {InActive, InQueued, InWaiting}"

lemma timed_out_terminal: "workflowJobTimedOut job \<Longrightarrow> workflowJobTerminal job"
  by (auto simp: workflowJobTimedOut_def workflowJobTerminal_def workflowJobResult_def split: option.splits)

lemma class_terminal: "unfinished_class (class_of job) \<longleftrightarrow> \<not> workflowJobTerminal job"
  using timed_out_terminal [of job]
  by (cases "workflowJobResult job") (auto simp: unfinished_class_def class_of_def workflowJobTerminal_def)

lemma class_effective:
  "class_of job \<in> {InSucceeded, InSkipped, InFailed} \<Longrightarrow> workflowJobEffectiveResult job \<noteq> Failure \<Longrightarrow>
     workflowJobEffectiveResult job \<in> {Success, Skipped}"
  by (cases "workflowJobResult job")
    (auto simp: class_of_def workflowJobEffectiveResult_def Let_def split: if_splits)

lemma classes_partition:
  "length js = length (filter (\<lambda>j. class_of j = InSucceeded) js) + length (filter (\<lambda>j. class_of j = InTimedOut) js) +
     length (filter (\<lambda>j. class_of j = InFailed) js) + length (filter (\<lambda>j. class_of j = InSkipped) js) +
     length (filter (\<lambda>j. class_of j = InCancelled) js) + length (filter (\<lambda>j. class_of j = InActive) js) +
     length (filter (\<lambda>j. class_of j = InQueued) js) + length (filter (\<lambda>j. class_of j = InWaiting) js)"
proof (induction js)
  case (Cons j js)
  then show ?case by (cases "class_of j") simp_all
qed simp

section \<open>What the loop over the jobs collects\<close>

lemma observe_plan_keeps:
  "observe_plan env cl job ob = Inr ob' \<Longrightarrow> tally ob' = tally ob \<and> hasFailure ob' = hasFailure ob \<and>
     hasNonFailFastCancellation ob' = hasNonFailFastCancellation ob \<and> (waitingForRuntimeState ob \<longrightarrow> waitingForRuntimeState ob')"
  by (auto simp: observe_plan_def and_then_eq_Inr split: if_splits sum.splits)

lemma observe_release_keeps:
  "observe_release env run cl job ob = (cl', Inr ob') \<Longrightarrow> tally ob' = tally ob \<and> hasFailure ob' = hasFailure ob \<and>
     hasNonFailFastCancellation ob' = hasNonFailFastCancellation ob \<and> (waitingForRuntimeState ob \<longrightarrow> waitingForRuntimeState ob')"
  by (auto simp: observe_release_def split: if_splits sum.splits option.splits bool.splits prod.splits)

lemma observe_gate_keeps:
  "tally (observe_gate job ob) = tally ob \<and> hasFailure (observe_gate job ob) = hasFailure ob \<and>
     hasNonFailFastCancellation (observe_gate job ob) = hasNonFailFastCancellation ob \<and>
     waitingForRuntimeState (observe_gate job ob) = waitingForRuntimeState ob"
  by (simp add: observe_gate_def)

lemma observe_start_keeps:
  "tally (observe_start job ob) = tally ob \<and> hasFailure (observe_start job ob) = hasFailure ob \<and>
     hasNonFailFastCancellation (observe_start job ob) = hasNonFailFastCancellation ob \<and>
     waitingForRuntimeState (observe_start job ob) = waitingForRuntimeState ob"
  by (simp add: observe_start_def split: option.split)

lemma observe_job_collects:
  assumes "observe_job env run cl job ob = (cl', Inr ob')"
  shows "tally ob' = tally_job job (tally ob)"
    and "hasFailure ob' \<longleftrightarrow> hasFailure ob \<or> workflowJobEffectiveResult job = Failure"
    and "hasNonFailFastCancellation ob' \<longleftrightarrow> hasNonFailFastCancellation ob \<or>
      (class_of job = InCancelled \<and> \<not> workflowJobCancelledByMatrixFailFast job)"
proof -
  obtain ob1 where p: "observe_plan env cl job (observe_gate job ob) = Inr ob1"
    using assms by (auto simp: observe_job_def split: sum.splits)
  define ob2 where "ob2 = (if workflowJobEffectiveResult job = Failure then (observe_start job ob1)\<lparr>hasFailure := True\<rparr>
    else observe_start job ob1)"
  have "(case observe_release env run cl job ob2 of (cl, Inl e) \<Rightarrow> (cl, Inl e) | (cl, Inr ob) \<Rightarrow> (cl, Inr (observe_tally job ob)))
      = (cl', Inr ob')"
    using assms p unfolding observe_job_def ob2_def by (simp add: Let_def)
  then obtain ob3 where r: "observe_release env run cl job ob2 = (cl', Inr ob3)" and ob': "ob' = observe_tally job ob3"
    by (auto split: sum.splits prod.splits)
  note keeps = observe_plan_keeps [OF p] observe_release_keeps [OF r] observe_gate_keeps [of job ob] observe_start_keeps [of job ob1]
  have c: "class_of job = InCancelled \<longleftrightarrow> workflowJobResult job = Cancelled \<and> \<not> workflowJobTimedOut job"
    by (cases "workflowJobResult job") (auto simp: class_of_def)
  show "tally ob' = tally_job job (tally ob)"
    "hasFailure ob' \<longleftrightarrow> hasFailure ob \<or> workflowJobEffectiveResult job = Failure"
    "hasNonFailFastCancellation ob' \<longleftrightarrow> hasNonFailFastCancellation ob \<or>
      (class_of job = InCancelled \<and> \<not> workflowJobCancelledByMatrixFailFast job)"
    using keeps unfolding ob' ob2_def observe_tally_def c by (auto split: if_splits)
qed

lemma observe_jobs_collects:
  assumes "observe_jobs env run cl js ob = (cl', Inr ob')"
  shows "tally ob' = fold tally_job js (tally ob)"
    and "hasFailure ob' \<longleftrightarrow> hasFailure ob \<or> (\<exists>j \<in> set js. workflowJobEffectiveResult j = Failure)"
  using assms
proof (induction js arbitrary: cl ob)
  case (Cons j js)
  { case 1
    then obtain cl1 ob1 where j: "observe_job env run cl j ob = (cl1, Inr ob1)"
        "observe_jobs env run cl1 js ob1 = (cl', Inr ob')"
      by (auto split: prod.splits sum.splits)
    from Cons.IH(1) [OF j(2)] observe_job_collects [OF j(1)] show ?case by simp }
  { case 2
    then obtain cl1 ob1 where j: "observe_job env run cl j ob = (cl1, Inr ob1)"
        "observe_jobs env run cl1 js ob1 = (cl', Inr ob')"
      by (auto split: prod.splits sum.splits)
    from Cons.IH(2) [OF j(2)] observe_job_collects [OF j(1)] show ?case by auto }
qed simp_all

section \<open>How a run ends\<close>

definition succeeded_condition :: "WorkflowRun \<Rightarrow> condition option" where
  "succeeded_condition run = find_condition (run_conditions run) ''Succeeded''"

lemma write_run_run: "write_run st before run result = ((st', run'), Inr r) \<Longrightarrow> run' = run \<and> st_jobs st' = st_jobs st"
  by (auto simp: write_run_def split: if_splits prod.splits option.splits)

lemma succeeded_lost: "succeeded_condition (lost_run now run msg) =
    Some \<lparr>Status = ConditionFalse, Reason = ''ExecutionStateLost'', Message = msg\<rparr>"
  by (simp add: succeeded_condition_def lost_run_def find_condition_def set_condition_def update_conv')

lemma succeeded_concluded: "succeeded_condition (concluded_run now run planState terminal ob) =
    (case run_verdict terminal run ob of (_, status, reason, msg) \<Rightarrow>
       Some \<lparr>Status = status, Reason = reason, Message = msg\<rparr>)"
  by (simp add: succeeded_condition_def concluded_run_def find_condition_def set_condition_def update_conv' Let_def
      split: prod.split)

lemma conclude_cases:
  assumes "conclude env before name planState expectedObjects ffp ob st = ((st', run'), Inr r)"
  obtains (lost) "lostState ob \<noteq> []" "run' = lost_run (ge_now env) (observed_run before name ob) (lostState ob)"
      "st_jobs st' = st_jobs st"
  | (verdict) terminal where "lostState ob = []" "terminal \<longrightarrow> all_finished planState expectedObjects ob st"
      "run' = concluded_run (ge_now env) (observed_run before name ob) planState terminal ob"
      "st_jobs st' = st_jobs st"
      "all_finished planState expectedObjects ob st \<Longrightarrow> CancelledJobs (tally ob) \<le> 0 \<Longrightarrow> terminal"
proof (cases "lostState ob = []")
  case False
  with assms have "write_run st before (lost_run (ge_now env) (observed_run before name ob) (lostState ob)) Done = ((st', run'), Inr r)"
    by (simp add: conclude_def)
  from write_run_run [OF this] False lost show thesis by blast
next
  case True
  define T where "T = all_finished planState expectedObjects ob st"
  let ?out = "\<lambda>terminal. concluded_run (ge_now env) (observed_run before name ob) planState terminal ob"
  have "\<exists>terminal res. write_run st before (?out terminal) res = ((st', run'), Inr r) \<and> (terminal \<longrightarrow> T) \<and>
    (T \<and> CancelledJobs (tally ob) \<le> 0 \<longrightarrow> terminal)"
  proof (cases "T \<and> CancelledJobs (tally ob) > 0")
    case True
    with assms \<open>lostState ob = []\<close> have "case activeRuntimeWorkloads (st_cluster st) (run_uid (observed_run before name ob)) of
        Inl e \<Rightarrow> False | Inr b \<Rightarrow> \<exists>res. write_run st before (?out (\<not> b)) res = ((st', run'), Inr r)"
      unfolding conclude_def Let_def T_def [symmetric] by (simp split: sum.splits bool.splits) blast+
    then obtain b res where "write_run st before (?out (\<not> b)) res = ((st', run'), Inr r)" by (auto split: sum.splits)
    with True show ?thesis by (intro exI [of _ "\<not> b"] exI [of _ res]) simp
  next
    case False
    with assms \<open>lostState ob = []\<close> have "\<exists>res. write_run st before (?out T) res = ((st', run'), Inr r)"
      unfolding conclude_def Let_def T_def [symmetric] by (simp split: if_splits) blast+
    then show ?thesis by blast
  qed
  then obtain terminal res where w: "write_run st before (?out terminal) res = ((st', run'), Inr r)"
    and t: "terminal \<longrightarrow> T" "T \<Longrightarrow> CancelledJobs (tally ob) \<le> 0 \<Longrightarrow> terminal" by blast
  note t = t [unfolded T_def]
  from write_run_run [OF w] t True verdict show thesis by blast
qed

lemma verdict_succeeded:
  assumes "run_verdict terminal run ob = (completed, ConditionTrue, reason, msg)"
  shows "terminal \<and> \<not> hasFailure ob \<and> TimedOut (tally ob) \<le> 0 \<and> CancelledJobs (tally ob) \<le> 0"
  using assms unfolding run_verdict_def Let_def by (auto split: if_splits)

lemma settle_loss_keeps:
  "settle_loss run cl ob = Inr ob' \<Longrightarrow> tally ob' = tally ob \<and> hasFailure ob' = hasFailure ob"
  by (auto simp: settle_loss_def split: if_splits sum.splits)

lemma start_counters: "counter c (start_tally t planState) = (if c = InWaiting then int32 (int (length (pending_of planState))) else 0)"
  by (cases c) (simp_all add: start_tally_def empty_tally_def)

definition fits :: "int \<Rightarrow> workflowPlanState \<Rightarrow> job_store \<Rightarrow> bool" where
  "fits t planState st \<longleftrightarrow> - (2 ^ 31) \<le> t \<and> t < 2 ^ 31 \<and>
     int (length (pending_of planState) + length (plan_expected planState) + length (st_jobs st)) < 2 ^ 31"

lemma counters_after:
  assumes "observe_jobs env run cl (st_jobs st) ob = (cl', Inr ob')" "tally ob = start_tally t planState" "fits t planState st"
  shows "counter c (tally ob') = (if c = InWaiting then int (length (pending_of planState)) else 0) +
      int (length (filter (\<lambda>j. class_of j = c) (st_jobs st)))"
    and "Total (tally ob') = Total (start_tally t planState)"
proof -
  have b: "0 \<le> counter c (start_tally t planState) \<and> counter c (start_tally t planState) + int (length (st_jobs st)) < 2 ^ 31" for c
    using assms(3) by (simp add: start_counters fits_def)
  from counters_fold [OF b] observe_jobs_collects(1) [OF assms(1)] assms(2,3)
  show "counter c (tally ob') = (if c = InWaiting then int (length (pending_of planState)) else 0) +
      int (length (filter (\<lambda>j. class_of j = c) (st_jobs st)))"
    "Total (tally ob') = Total (start_tally t planState)" by (simp_all add: start_counters fits_def)
qed

lemma all_finished_jobs:
  assumes c: "\<And>c. counter c (tally ob) = (if c = InWaiting then int (length (pending_of planState)) else 0) +
      int (length (filter (\<lambda>j. class_of j = c) (st_jobs st)))"
    and t: "Total (tally ob) = Total (start_tally t planState)" and f: "fits t planState st"
    and all: "all_finished (planState\<lparr>plan_pending := pending_of planState\<rparr>) (expected_objects t planState) ob st"
    and j: "j \<in> set (st_jobs st)"
  shows "workflowJobTerminal j"
proof (rule ccontr)
  assume "\<not> workflowJobTerminal j"
  then have u: "unfinished_class (class_of j)" by (simp add: class_terminal)
  let ?n = "\<lambda>c. length (filter (\<lambda>j. class_of j = c) (st_jobs st))"
  have n: "int (?n InSucceeded) = SucceededJobs (tally ob)" "int (?n InTimedOut) = TimedOut (tally ob)"
    "int (?n InFailed) = FailedJobs (tally ob)" "int (?n InSkipped) = SkippedJobs (tally ob)"
    "int (?n InCancelled) = CancelledJobs (tally ob)"
    using c [of InSucceeded] c [of InTimedOut] c [of InFailed] c [of InSkipped] c [of InCancelled] by simp_all
  have "Total (tally ob) = int (length (st_jobs st))"
    using t all f by (simp add: start_tally_def empty_tally_def all_finished_def expected_objects_def pending_of_def fits_def
        split: if_splits)
  moreover have "finished_total (tally ob) = int (?n InSucceeded + ?n InFailed + ?n InTimedOut + ?n InSkipped + ?n InCancelled)"
    unfolding finished_total_def n [symmetric]
    using f classes_partition [of "st_jobs st"] by (subst int32_small) (simp_all add: fits_def)
  moreover have "finished_total (tally ob) = Total (tally ob)" using all by (simp add: all_finished_def)
  ultimately have "?n InActive + ?n InQueued + ?n InWaiting = 0" using classes_partition [of "st_jobs st"] by linarith
  with u j show False by (auto simp: unfinished_class_def filter_empty_conv)
qed

lemma observe_count_succeeded:
  assumes run: "observe_count env run name t planState ffp waiting lost st = ((st', run'), Inr r)" and f: "fits t planState st"
    and ok: "map_option Status (succeeded_condition run') = Some ConditionTrue"
  shows "st_jobs st' = st_jobs st \<and> pending_of planState = [] \<and> int (length (st_jobs st)) = expected_objects t planState \<and>
    (\<forall>j \<in> set (st_jobs st). workflowJobEffectiveResult j \<in> {Success, Skipped})"
proof -
  define ob0 where "ob0 = \<lparr>tally = start_tally t planState, earliest = None, waitingForRuntimeState = waiting,
    hasNonFailFastCancellation = False, hasFailure = False, gatePending = False, lostState = lost\<rparr>"
  from run obtain cl ob1 ob2 where o: "observe_jobs env run (st_cluster st) (st_jobs st) ob0 = (cl, Inr ob1)"
    and s: "settle_loss run cl ob1 = Inr ob2"
    and c: "conclude env run name (planState\<lparr>plan_pending := pending_of planState\<rparr>) (expected_objects t planState) ffp ob2
      (st\<lparr>st_cluster := cl\<rparr>) = ((st', run'), Inr r)"
    unfolding observe_count_def Let_def ob0_def [symmetric] by (auto split: prod.splits sum.splits)
  have t0: "tally ob0 = start_tally t planState" by (simp add: ob0_def)
  note keep = settle_loss_keeps [OF s]
  have cnt: "counter c (tally ob2) = (if c = InWaiting then int (length (pending_of planState)) else 0) +
      int (length (filter (\<lambda>j. class_of j = c) (st_jobs st)))" for c
    using counters_after(1) [OF o t0 f] keep by simp
  have tot: "Total (tally ob2) = Total (start_tally t planState)" using counters_after(2) [OF o t0 f] keep by simp
  from c show ?thesis
  proof (cases rule: conclude_cases)
    case lost
    with ok show ?thesis by (simp add: succeeded_lost)
  next
    case (verdict terminal)
    let ?run = "observed_run run name ob2"
    obtain b status reason msg where v: "run_verdict terminal ?run ob2 = (b, status, reason, msg)" by (metis prod_cases4)
    with ok verdict(3) have "status = ConditionTrue" by (simp add: succeeded_concluded)
    from verdict_succeeded [OF v [unfolded this]] have nf: "terminal" "\<not> hasFailure ob2"
      "TimedOut (tally ob2) \<le> 0" "CancelledJobs (tally ob2) \<le> 0" by auto
    with verdict(2) have all: "all_finished (planState\<lparr>plan_pending := pending_of planState\<rparr>) (expected_objects t planState) ob2 st"
      by (simp add: all_finished_def)
    have "workflowJobEffectiveResult j \<in> {Success, Skipped}" if j: "j \<in> set (st_jobs st)" for j
    proof -
      have "\<not> unfinished_class (class_of j)"
        using all_finished_jobs [OF cnt tot f all j] class_terminal by blast
      moreover have "class_of j \<noteq> InTimedOut" "class_of j \<noteq> InCancelled"
        using cnt [of InTimedOut] cnt [of InCancelled] nf(3,4) j by (auto simp: filter_empty_conv)
      ultimately have "class_of j \<in> {InSucceeded, InSkipped, InFailed}"
        by (cases "class_of j") (simp_all add: unfinished_class_def)
      moreover have "workflowJobEffectiveResult j \<noteq> Failure"
        using observe_jobs_collects(2) [OF o] keep nf(2) j by auto
      ultimately show ?thesis by (rule class_effective)
    qed
    with all verdict(4) show ?thesis by (simp add: all_finished_def)
  qed
qed

text \<open>The counters are 32-bit; the API server admits at most 100000 jobs in a run.\<close>

definition small_plans :: "observe_env \<Rightarrow> WorkflowRun \<Rightarrow> int \<Rightarrow> bool" where
  "small_plans env run t \<longleftrightarrow> 0 \<le> t \<and> t < 2 ^ 30 \<and>
     (\<forall>st st' p. reconcileDeferredJobs env run st = (st', Inr p) \<longrightarrow> length (plan_pending p) + length (plan_expected p) < 2 ^ 30)"

definition plan_origin :: "observe_env \<Rightarrow> WorkflowRun \<Rightarrow> workflowPlanState \<Rightarrow> bool" where
  "plan_origin env run p \<longleftrightarrow> p = no_plan \<or> (\<exists>st st'. reconcileDeferredJobs env run st = (st', Inr p))"

lemma small_plan_fits:
  assumes "small_plans env run t" "plan_origin env run p" "length (st_jobs st) < 2 ^ 30"
  shows "fits t p st"
proof -
  have "length (plan_pending p) + length (plan_expected p) < 2 ^ 30"
    using assms(1,2) by (auto simp: small_plans_def plan_origin_def no_plan_def)
  moreover have "length (pending_of p) \<le> length (plan_pending p)" by (simp add: pending_of_def)
  ultimately have "length (pending_of p) + length (plan_expected p) + length (st_jobs st) < 2 ^ 31" using assms(3) by simp
  then have "int (length (pending_of p) + length (plan_expected p) + length (st_jobs st)) < 2 ^ 31" by simp
  moreover have "- (2 ^ 31) \<le> t" "t < 2 ^ 31" using assms(1) by (simp_all add: small_plans_def)
  ultimately show ?thesis by (simp add: fits_def)
qed

lemma observe_cases:
  assumes "observeWorkflowJobs env run name t cl = ((st', run'), Inr r)"
  shows "(r = Requeue \<and> run' = run) \<or> (\<exists>p ffp waiting lost st. plan_origin env run p \<and>
    observe_count env run name t p ffp waiting lost st = ((st', run'), Inr r))"
proof -
  from assms obtain st0 where "observe_list run cl = Inr st0" by (auto simp: observeWorkflowJobs_def split: sum.splits)
  with assms obtain st1 where "observe_admission env run st0 = (st1, Inr ())"
    by (auto simp: observeWorkflowJobs_def split: prod.splits sum.splits)
  with assms \<open>observe_list run cl = Inr st0\<close> obtain st2 lost p where d: "observe_deferred env run st1 = (st2, Inr (lost, p))"
    and rest: "(if plan_changed p then ((st2, run), Inr Requeue) else observe_planned env run name t lost p st2) = ((st', run'), Inr r)"
    by (auto simp: observeWorkflowJobs_def split: prod.splits sum.splits)
  have o: "plan_origin env run p"
    using d unfolding observe_deferred_def plan_origin_def
    by (auto split: prod.splits sum.splits plan_failure.splits if_splits)
  show ?thesis
  proof (cases "plan_changed p")
    case True
    with rest show ?thesis by simp
  next
    case False
    with rest have pl: "observe_planned env run name t lost p st2 = ((st', run'), Inr r)" by simp
    obtain st3 ffr where ff: "reconcileMatrixFailFast (ge_now env) st2 = (st3, ffr)" by force
    with pl obtain ffp where ffr: "ffr = Inr ffp" by (cases ffr) (simp_all add: observe_planned_def)
    with pl ff obtain lost' waiting where ms: "observe_missing run (expected_objects t p) lost st3 = Inr (lost', waiting)"
      by (cases "observe_missing run (expected_objects t p) lost st3") (auto simp: observe_planned_def)
    obtain st4 g where gr: "observe_graph env run p (expected_objects t p) lost' st3 = (st4, g)" by force
    with pl ff ffr ms obtain lost'' where "g = Inr lost''" by (cases g) (simp_all add: observe_planned_def)
    with pl ff ffr ms gr have "observe_count env run name t p ffp waiting lost'' st4 = ((st', run'), Inr r)"
      by (simp add: observe_planned_def)
    with o show ?thesis by blast
  qed
qed

lemma observe_count_jobs:
  assumes "observe_count env run name t p ffp waiting lost st = ((st', run'), Inr r)"
  shows "st_jobs st' = st_jobs st"
proof -
  from assms obtain cl ob where "conclude env run name (p\<lparr>plan_pending := pending_of p\<rparr>) (expected_objects t p) ffp ob
      (st\<lparr>st_cluster := cl\<rparr>) = ((st', run'), Inr r)"
    unfolding observe_count_def Let_def by (auto split: prod.splits sum.splits)
  then show ?thesis by (cases rule: conclude_cases) simp_all
qed

text \<open>
  C12. A run succeeds only when its work is done and good. Whatever deferred planning, the expressions, the
  concurrency gate and the API server answer: when an observation gives a run that was not finished the
  condition Succeeded with status True, then as many jobs exist as the plan expects, no job is still to be planned, and
  every job has finished with success or was skipped, where only a tolerated failure that is not a
  timeout counts as success.
\<close>

theorem success_means_all_jobs_good:
  assumes "observeWorkflowJobs env run name t cl = ((st', run'), Inr r)" "\<not> terminalRun run"
    and "map_option Status (succeeded_condition run') = Some ConditionTrue"
    and "small_plans env run t" "length (st_jobs st') < 2 ^ 30"
  shows "(\<forall>j \<in> set (st_jobs st'). workflowJobEffectiveResult j \<in> {Success, Skipped}) \<and>
    (\<exists>p. plan_origin env run p \<and> pending_of p = [] \<and> int (length (st_jobs st')) = expected_objects t p)"
proof -
  have "run' \<noteq> run" using assms(2,3) by (auto simp: terminalRun_def succeeded_condition_def)
  with observe_cases [OF assms(1)] obtain p ffp waiting lost st where p: "plan_origin env run p"
    and c: "observe_count env run name t p ffp waiting lost st = ((st', run'), Inr r)" by blast
  from small_plan_fits [OF assms(4) p] assms(5) observe_count_jobs [OF c] have "fits t p st" by simp
  from observe_count_succeeded [OF c this assms(3)] p show ?thesis by auto
qed

definition demo_observe :: observe_env where
  "demo_observe = graph_env.extend demo_env
     \<lparr>reconcileDeferredJobs = (\<lambda>_ st. (st, Inr no_plan)), rerunDependencyWorkflowJobs = (\<lambda>_ _. Inr []),
      loadExpressionContext = (\<lambda>_ _. None), planConfigMap = (\<lambda>j. PlanFound (job_name j) True)\<rparr>"

definition demo_finished :: cluster where
  "demo_finished = demo_cluster\<lparr>jobs := [(plain_job ''build'' [])\<lparr>job_run_label := ''u1'', Result := Success\<rparr>,
     (plain_job ''lint'' [])\<lparr>job_run_label := ''u1'', Result := Failure, ContinueOnError := True\<rparr>],
     runs := [plain_run]\<rparr>"

definition demo_run :: WorkflowRun where
  "demo_run = plain_run\<lparr>Spec := (Spec plain_run)\<lparr>CancelRequested := False\<rparr>\<rparr>"

theorem success_means_all_jobs_good_witness:
  "let ((st', run'), r) = observeWorkflowJobs demo_observe demo_run ''ci'' 2 demo_finished
   in map_option Status (succeeded_condition run') = Some ConditionTrue \<and>
      (\<forall>j \<in> set (st_jobs st'). workflowJobEffectiveResult j \<in> {Success, Skipped})"
proof -
  obtain st' run' r where o: "observeWorkflowJobs demo_observe demo_run ''ci'' 2 demo_finished = ((st', run'), r)"
    by (metis prod.collapse)
  have "case snd (observeWorkflowJobs demo_observe demo_run ''ci'' 2 demo_finished) of Inl _ \<Rightarrow> False | Inr _ \<Rightarrow> True" by code_simp
  with o obtain q where r: "r = Inr q" by (auto split: sum.splits)
  have "map_option Status (succeeded_condition (snd (fst (observeWorkflowJobs demo_observe demo_run ''ci'' 2 demo_finished)))) =
    Some ConditionTrue" by code_simp
  with o have ok: "map_option Status (succeeded_condition run') = Some ConditionTrue" by simp
  have "length (st_jobs (fst (fst (observeWorkflowJobs demo_observe demo_run ''ci'' 2 demo_finished)))) = 2" by code_simp
  with o have len: "length (st_jobs st') < 2 ^ 30" by simp
  have open_run: "\<not> terminalRun demo_run" by code_simp
  have plans: "small_plans demo_observe demo_run 2"
    by (simp add: small_plans_def demo_observe_def no_plan_def graph_env.defs)
  from success_means_all_jobs_good [OF o [unfolded r] open_run ok plans len] o ok show ?thesis by simp
qed

section \<open>A finished run ends\<close>





subsection \<open>Releasing the groups of finished jobs\<close>


























end
