(* ===== verification/ExprParser.thy ===== *)
theory ExprParser
  imports Prelude
begin

text \<open>
  The lexer and the parser of workflow expressions, \<^verbatim>\<open>src/internal/expression/parser.go\<close>.

  The lexer keeps the rest of the input and the position instead of the input and the position. The
  recursion of the parser through \<^verbatim>\<open>parseNested\<close> is a recursion on the nesting levels that are left, so the field
  \<^verbatim>\<open>nesting\<close> of the parser is an argument; its loops carry fuel, one unit more than the node limit, which
  is never used up. Numbers are float64 values, whose operations are collected in a record that is an argument.
\<close>

section \<open>Numbers and values\<close>

text \<open>
  What the expressions use of float64 and of \<^verbatim>\<open>strconv\<close>, \<^verbatim>\<open>math\<close> and \<^verbatim>\<open>encoding/json\<close>.
\<close>

datatype 'n any = NilAny | BoolAny bool | NumAny 'n | StrAny string | SeqAny "'n any list"
  | MapAny "(string \<times> 'n any) list" | SensitiveValue "'n any" | OtherAny string

datatype json_result = JsonError string | JsonTrailing

record 'n float_ops =
  fl_zero :: 'n
  fl_one :: 'n
  fl_nan :: 'n
  fl_isnan :: "'n \<Rightarrow> bool"
  fl_eq :: "'n \<Rightarrow> 'n \<Rightarrow> bool"
  fl_less :: "'n \<Rightarrow> 'n \<Rightarrow> bool"
  fl_integral :: "'n \<Rightarrow> bool"
  fl_int :: "'n \<Rightarrow> int"
  fl_neg :: "'n \<Rightarrow> 'n"
  fl_of_nat :: "nat \<Rightarrow> 'n"
  fl_parse :: "string \<Rightarrow> 'n option"
  fl_format :: "'n \<Rightarrow> string"
  json_encode :: "'n any \<Rightarrow> string + string"
  json_decode :: "string \<Rightarrow> json_result + 'n any"

text \<open>
  An array or object is compared by its address. A node of an expression is evaluated at most once, so an
  address is the context or the node that created the value, with the path to the part of it.
\<close>

datatype step = AtIndex nat | AtKey string

datatype addr = ContextAddr string "step list" | NodeAddr "nat list" "step list"

datatype (dead 'n) val = Val (sensitive: bool) (body: "'n val_body")
and (dead 'n) val_body = NullV | BoolV bool | NumV 'n | StrV string | ArrV addr bool "'n val list"
  | ObjV addr "(string \<times> 'n val) list"

section \<open>Lexer\<close>

datatype tokenKind = endToken | identifierToken | numberToken | stringToken | leftParenToken | rightParenToken
  | leftBracketToken | rightBracketToken | dotToken | commaToken | wildcardToken | notToken | equalToken | notEqualToken
  | lessToken | lessEqualToken | greaterToken | greaterEqualToken | andToken | orToken

record token =
  kind :: tokenKind
  token_text :: string
  token_pos :: nat

record lexer =
  l_rest :: string
  l_pos :: nat

datatype parse_error =
    UnsupportedCharacter char nat
  | UnterminatedString nat
  | InvalidHexadecimal nat
  | InvalidExponent nat
  | InvalidNumber nat
  | BadHexadecimal
  | BadNumber
  | TooManyNodes
  | TooDeep
  | ExpectedProperty nat
  | ExpectedBracket nat
  | ExpectedParen nat
  | ExpectedExpression nat
  | UnexpectedToken string nat
  | OutOfFuel

definition identifierStart :: "char \<Rightarrow> bool" where
  "identifierStart c \<longleftrightarrow> c = CHR ''_'' \<or> 65 \<le> byte c \<and> byte c \<le> 90 \<or> 97 \<le> byte c \<and> byte c \<le> 122"

definition asciiDigit :: "char \<Rightarrow> bool" where
  "asciiDigit c \<longleftrightarrow> 48 \<le> byte c \<and> byte c \<le> 57"

definition asciiHex :: "char \<Rightarrow> bool" where
  "asciiHex c \<longleftrightarrow> asciiDigit c \<or> 97 \<le> byte c \<and> byte c \<le> 102 \<or> 65 \<le> byte c \<and> byte c \<le> 70"

definition identifierPart :: "char \<Rightarrow> bool" where
  "identifierPart c \<longleftrightarrow> identifierStart c \<or> asciiDigit c \<or> c = CHR ''-''"

text \<open>\<^verbatim>\<open>unicode.IsSpace\<close> of a byte taken as a code point: the two Latin-1 spaces count as well.\<close>

definition byte_space :: "char \<Rightarrow> bool" where
  "byte_space c \<longleftrightarrow> is_space c \<or> byte c = 0x85 \<or> byte c = 0xA0"

definition l_skip :: "nat \<Rightarrow> lexer \<Rightarrow> lexer" where
  "l_skip n l = \<lparr>l_rest = drop n (l_rest l), l_pos = l_pos l + n\<rparr>"

definition skip_spaces :: "lexer \<Rightarrow> lexer" where
  "skip_spaces l = l_skip (length (takeWhile byte_space (l_rest l))) l"

definition consume :: "char \<Rightarrow> lexer \<Rightarrow> bool" where
  "consume expected l \<longleftrightarrow> (case l_rest l of [] \<Rightarrow> False | c # _ \<Rightarrow> c = expected)"

fun string_loop :: "string \<Rightarrow> string \<Rightarrow> (string \<times> string) option" where
  "string_loop acc [] = None"
| "string_loop acc (c # cs) =
     (if c \<noteq> CHR 0x27 then string_loop (acc @ [c]) cs
      else case cs of
        d # ds \<Rightarrow> if d = CHR 0x27 then string_loop (acc @ [CHR 0x27]) ds else Some (acc, cs)
      | [] \<Rightarrow> Some (acc, cs))"

definition lex_string :: "lexer \<Rightarrow> parse_error + token \<times> lexer" where
  "lex_string l =
     (case string_loop [] (tl (l_rest l)) of
        None \<Rightarrow> Inl (UnterminatedString (l_pos l + 1))
      | Some (s, rest) \<Rightarrow>
          Inr (\<lparr>kind = stringToken, token_text = s, token_pos = l_pos l\<rparr>,
               \<lparr>l_rest = rest, l_pos = l_pos l + (length (l_rest l) - length rest)\<rparr>))"

definition fraction_length :: "string \<Rightarrow> nat" where
  "fraction_length s =
     (case s of c # cs \<Rightarrow> if c = CHR ''.'' then 1 + length (takeWhile asciiDigit cs) else 0 | [] \<Rightarrow> 0)"

definition exponent_length :: "string \<Rightarrow> nat \<Rightarrow> parse_error + nat" where
  "exponent_length s column =
     (case s of
        [] \<Rightarrow> Inr 0
      | c # cs \<Rightarrow>
          if c = CHR ''e'' \<or> c = CHR ''E'' then
            (let sign = (case cs of d # _ \<Rightarrow> if d = CHR ''+'' \<or> d = CHR ''-'' then 1 else 0 | [] \<Rightarrow> 0);
                 digits = length (takeWhile asciiDigit (drop sign cs))
             in if digits = 0 then Inl (InvalidExponent column) else Inr (1 + sign + digits))
          else Inr 0)"

definition hex_start :: "string \<Rightarrow> bool" where
  "hex_start s = (case s of c # d # _ \<Rightarrow> c = CHR ''0'' \<and> (d = CHR ''x'' \<or> d = CHR ''X'') | _ \<Rightarrow> False)"

definition unsigned_length :: "string \<Rightarrow> nat \<Rightarrow> parse_error + nat" where
  "unsigned_length s column =
     (if hex_start s then
        (let digits = length (takeWhile asciiHex (drop 2 s))
         in if digits = 0 then Inl (InvalidHexadecimal column) else Inr (2 + digits))
      else
        (let whole = length (takeWhile asciiDigit s);
             mantissa = whole + fraction_length (drop whole s)
         in and_then (exponent_length (drop mantissa s) column) (\<lambda>n. Inr (mantissa + n))))"

definition number_length :: "string \<Rightarrow> nat \<Rightarrow> parse_error + nat" where
  "number_length s column =
     (case s of
        c # cs \<Rightarrow> if c = CHR ''-'' then and_then (unsigned_length cs column) (\<lambda>n. Inr (Suc n)) else unsigned_length s column
      | [] \<Rightarrow> unsigned_length s column)"

definition is_hex_text :: "string \<Rightarrow> bool" where
  "is_hex_text s \<longleftrightarrow> (let u = trim_prefix s ''-'' in has_prefix u ''0x'' \<or> has_prefix u ''0X'')"

definition lex_number :: "'n float_ops \<Rightarrow> lexer \<Rightarrow> parse_error + token \<times> lexer" where
  "lex_number ops l =
     and_then (number_length (l_rest l) (l_pos l + 1)) (\<lambda>n.
       let t = take n (l_rest l)
       in if \<not> is_hex_text t \<and> fl_parse ops t = None then Inl (InvalidNumber (l_pos l + 1))
          else Inr (\<lparr>kind = numberToken, token_text = t, token_pos = l_pos l\<rparr>, l_skip n l))"

definition tok :: "tokenKind \<Rightarrow> string \<Rightarrow> lexer \<Rightarrow> parse_error + token \<times> lexer" where
  "tok k t l = Inr (\<lparr>kind = k, token_text = t, token_pos = l_pos l\<rparr>, l_skip (length t) l)"

definition lex_next :: "'n float_ops \<Rightarrow> lexer \<Rightarrow> parse_error + token \<times> lexer" where
  "lex_next ops l0 =
     (let l = skip_spaces l0
      in case l_rest l of
           [] \<Rightarrow> Inr (\<lparr>kind = endToken, token_text = [], token_pos = l_pos l\<rparr>, l)
         | c # cs \<Rightarrow>
             (let unsupported = Inl (UnsupportedCharacter c (l_pos l + 1));
                  then_is = (\<lambda>d. consume d (l_skip 1 l))
              in if c = CHR ''('' then tok leftParenToken ''('' l
                 else if c = CHR '')'' then tok rightParenToken '')'' l
                 else if c = CHR ''['' then tok leftBracketToken ''['' l
                 else if c = CHR '']'' then tok rightBracketToken '']'' l
                 else if c = CHR ''.'' then tok dotToken ''.'' l
                 else if c = CHR '','' then tok commaToken '','' l
                 else if c = CHR ''*'' then tok wildcardToken ''*'' l
                 else if c = CHR ''!'' then
                   (if then_is (CHR ''='') then tok notEqualToken ''!='' l else tok notToken ''!'' l)
                 else if c = CHR ''='' then
                   (if then_is (CHR ''='') then tok equalToken ''=='' l else unsupported)
                 else if c = CHR ''<'' then
                   (if then_is (CHR ''='') then tok lessEqualToken ''<='' l else tok lessToken ''<'' l)
                 else if c = CHR ''>'' then
                   (if then_is (CHR ''='') then tok greaterEqualToken ''>='' l else tok greaterToken ''>'' l)
                 else if c = CHR ''&'' then
                   (if then_is (CHR ''&'') then tok andToken ''&&'' l else unsupported)
                 else if c = CHR ''|'' then
                   (if then_is (CHR ''|'') then tok orToken ''||'' l else unsupported)
                 else if c = CHR 0x27 then lex_string l
                 else if identifierStart c then tok identifierToken (c # takeWhile identifierPart cs) l
                 else if asciiDigit c \<or> c = CHR ''-'' \<and> (case cs of d # _ \<Rightarrow> asciiDigit d | [] \<Rightarrow> False) then lex_number ops l
                 else unsupported))"

section \<open>Number literals\<close>

text \<open>The regular expression \<^verbatim>\<open>jsonNumberPattern\<close> of \<^verbatim>\<open>value.go\<close>.\<close>

definition json_exponent :: "string \<Rightarrow> bool" where
  "json_exponent s =
     (case s of
        [] \<Rightarrow> True
      | c # cs \<Rightarrow>
          (let ds = (case cs of d # ds \<Rightarrow> if d = CHR ''+'' \<or> d = CHR ''-'' then ds else cs | [] \<Rightarrow> cs)
           in (c = CHR ''e'' \<or> c = CHR ''E'') \<and> ds \<noteq> [] \<and> list_all asciiDigit ds))"

definition json_fraction :: "string \<Rightarrow> bool" where
  "json_fraction s =
     (case s of
        c # cs \<Rightarrow> if c = CHR ''.'' then takeWhile asciiDigit cs \<noteq> [] \<and> json_exponent (dropWhile asciiDigit cs) else json_exponent s
      | [] \<Rightarrow> True)"

definition jsonNumberPattern :: "string \<Rightarrow> bool" where
  "jsonNumberPattern s =
     (case trim_prefix s ''-'' of
        [] \<Rightarrow> False
      | c # cs \<Rightarrow> if c = CHR ''0'' then json_fraction cs else asciiDigit c \<and> json_fraction (dropWhile asciiDigit cs))"

definition hex_digit :: "char \<Rightarrow> nat" where
  "hex_digit c = (if asciiDigit c then byte c - 48 else if 97 \<le> byte c then byte c - 87 else byte c - 55)"

definition hex_value :: "string \<Rightarrow> nat" where
  "hex_value s = foldl (\<lambda>n c. 16 * n + hex_digit c) 0 s"

definition parseNumber :: "'n float_ops \<Rightarrow> string \<Rightarrow> parse_error + 'n" where
  "parseNumber ops t =
     (let negative = has_prefix t ''-'';
          unsigned = trim_prefix t ''-''
      in if has_prefix unsigned ''0x'' \<or> has_prefix unsigned ''0X'' then
           (let digits = drop 2 unsigned
            in if digits = [] \<or> \<not> list_all asciiHex digits \<or> hex_value digits \<ge> 2 ^ 64 then Inl BadHexadecimal
               else Inr (if negative then fl_neg ops (fl_of_nat ops (hex_value digits)) else fl_of_nat ops (hex_value digits)))
         else if \<not> jsonNumberPattern t then Inl BadNumber
         else case fl_parse ops t of None \<Rightarrow> Inl BadNumber | Some n \<Rightarrow> Inr n)"

section \<open>Parser\<close>

datatype (dead 'n) node = LiteralNode "'n val" | ContextNode string | WildcardNode | PropertyNode "'n node" string
  | IndexNode "'n node" "'n node" | UnaryNode "'n node" | BinaryNode tokenKind "'n node" "'n node"
  | CallNode string "'n node list"

definition maxExpressionNodes :: nat where "maxExpressionNodes = 256"
definition maxExpressionNesting :: nat where "maxExpressionNesting = 64"

record parser =
  p_lexer :: lexer
  current :: token
  nodes :: nat

type_synonym 'n parse = "parser \<Rightarrow> parse_error + 'n node \<times> parser"

definition advance :: "'n float_ops \<Rightarrow> parser \<Rightarrow> parse_error + parser" where
  "advance ops p = and_then (lex_next ops (p_lexer p)) (\<lambda>(t, l). Inr (p\<lparr>p_lexer := l, current := t\<rparr>))"

definition addNode :: "'n node \<Rightarrow> 'n parse" where
  "addNode result p =
     (if nodes p + 1 > maxExpressionNodes then Inl TooManyNodes else Inr (result, p\<lparr>nodes := nodes p + 1\<rparr>))"

definition comparison_token :: "tokenKind \<Rightarrow> bool" where
  "comparison_token k \<longleftrightarrow> k \<in> {equalToken, notEqualToken, lessToken, lessEqualToken, greaterToken, greaterEqualToken}"

text \<open>The loops of \<^verbatim>\<open>parseBinary\<close> and of \<^verbatim>\<open>parseComparison\<close>: operators of one level, grouped to the left.\<close>

primrec binary_loop :: "nat \<Rightarrow> 'n float_ops \<Rightarrow> 'n parse \<Rightarrow> (tokenKind \<Rightarrow> bool) \<Rightarrow> 'n node \<Rightarrow> 'n parse" where
  "binary_loop 0 ops operand isop left p = Inl OutOfFuel"
| "binary_loop (Suc n) ops operand isop left p =
     (if \<not> isop (kind (current p)) then Inr (left, p)
      else and_then (advance ops p) (\<lambda>p1.
        and_then (operand p1) (\<lambda>(right, p2).
        and_then (addNode (BinaryNode (kind (current p)) left right) p2) (\<lambda>(left, p3).
        binary_loop n ops operand isop left p3))))"

definition loop_fuel :: nat where "loop_fuel = Suc maxExpressionNodes"

definition parseBinary :: "'n float_ops \<Rightarrow> 'n parse \<Rightarrow> (tokenKind \<Rightarrow> bool) \<Rightarrow> 'n parse" where
  "parseBinary ops operand isop p = and_then (operand p) (\<lambda>(left, p). binary_loop loop_fuel ops operand isop left p)"

primrec args_loop :: "nat \<Rightarrow> 'n float_ops \<Rightarrow> 'n parse \<Rightarrow> 'n node list \<Rightarrow> parser \<Rightarrow> parse_error + 'n node list \<times> parser" where
  "args_loop 0 ops nested args p = Inl OutOfFuel"
| "args_loop (Suc n) ops nested args p =
     and_then (nested p) (\<lambda>(a, p).
       if kind (current p) \<noteq> commaToken then Inr (args @ [a], p)
       else and_then (advance ops p) (\<lambda>p. args_loop n ops nested (args @ [a]) p))"

definition parseCall :: "'n float_ops \<Rightarrow> 'n parse \<Rightarrow> string \<Rightarrow> 'n parse" where
  "parseCall ops nested name p =
     and_then (advance ops p) (\<lambda>p.
     and_then (if kind (current p) \<noteq> rightParenToken then args_loop loop_fuel ops nested [] p else Inr ([], p)) (\<lambda>(args, p).
       if kind (current p) \<noteq> rightParenToken then Inl (ExpectedParen (token_pos (current p) + 1))
       else and_then (advance ops p) (\<lambda>p. addNode (CallNode name args) p)))"

definition literal :: "'n val_body \<Rightarrow> 'n node" where
  "literal b = LiteralNode (Val False b)"

definition parsePrimary :: "'n float_ops \<Rightarrow> 'n parse \<Rightarrow> 'n parse" where
  "parsePrimary ops nested p =
     (let cur = current p
      in if kind cur = identifierToken then
           and_then (advance ops p) (\<lambda>p.
             let name = to_lower (token_text cur)
             in if name = ''true'' then addNode (literal (BoolV True)) p
                else if name = ''false'' then addNode (literal (BoolV False)) p
                else if name = ''null'' then addNode (literal NullV) p
                else if kind (current p) = leftParenToken then parseCall ops nested (token_text cur) p
                else addNode (ContextNode (token_text cur)) p)
         else if kind cur = numberToken then
           and_then (advance ops p) (\<lambda>p.
             and_then (parseNumber ops (token_text cur)) (\<lambda>n. addNode (literal (NumV n)) p))
         else if kind cur = stringToken then
           and_then (advance ops p) (\<lambda>p. addNode (literal (StrV (token_text cur))) p)
         else if kind cur = leftParenToken then
           and_then (advance ops p) (\<lambda>p.
             and_then (nested p) (\<lambda>(result, p).
               if kind (current p) \<noteq> rightParenToken then Inl (ExpectedParen (token_pos (current p) + 1))
               else and_then (advance ops p) (\<lambda>p. Inr (result, p))))
         else Inl (ExpectedExpression (token_pos cur + 1)))"

definition postfix_dot :: "'n float_ops \<Rightarrow> 'n node \<Rightarrow> 'n parse" where
  "postfix_dot ops result p =
     and_then (advance ops p) (\<lambda>p.
       if kind (current p) = wildcardToken then
         and_then (addNode WildcardNode p) (\<lambda>(w, p).
         and_then (advance ops p) (\<lambda>p. addNode (IndexNode result w) p))
       else if kind (current p) \<noteq> identifierToken then Inl (ExpectedProperty (token_pos (current p) + 1))
       else let name = token_text (current p)
            in and_then (advance ops p) (\<lambda>p. addNode (PropertyNode result name) p))"

definition postfix_bracket :: "'n float_ops \<Rightarrow> 'n parse \<Rightarrow> 'n node \<Rightarrow> 'n parse" where
  "postfix_bracket ops nested result p =
     and_then (advance ops p) (\<lambda>p.
     and_then (if kind (current p) = wildcardToken
               then and_then (addNode WildcardNode p) (\<lambda>(w, p). and_then (advance ops p) (\<lambda>p. Inr (w, p)))
               else nested p) (\<lambda>(index, p).
       if kind (current p) \<noteq> rightBracketToken then Inl (ExpectedBracket (token_pos (current p) + 1))
       else and_then (advance ops p) (\<lambda>p. addNode (IndexNode result index) p)))"

primrec postfix_loop :: "nat \<Rightarrow> 'n float_ops \<Rightarrow> 'n parse \<Rightarrow> 'n node \<Rightarrow> 'n parse" where
  "postfix_loop 0 ops nested result p = Inl OutOfFuel"
| "postfix_loop (Suc n) ops nested result p =
     (if kind (current p) = dotToken then
        and_then (postfix_dot ops result p) (\<lambda>(result, p). postfix_loop n ops nested result p)
      else if kind (current p) = leftBracketToken then
        and_then (postfix_bracket ops nested result p) (\<lambda>(result, p). postfix_loop n ops nested result p)
      else Inr (result, p))"

definition parsePostfix :: "'n float_ops \<Rightarrow> 'n parse \<Rightarrow> 'n parse" where
  "parsePostfix ops nested p = and_then (parsePrimary ops nested p) (\<lambda>(result, p). postfix_loop loop_fuel ops nested result p)"

definition parseUnary :: "'n float_ops \<Rightarrow> 'n parse \<Rightarrow> 'n parse \<Rightarrow> 'n parse" where
  "parseUnary ops nested nestedUnary p =
     (if kind (current p) = notToken then
        and_then (advance ops p) (\<lambda>p. and_then (nestedUnary p) (\<lambda>(operand, p). addNode (UnaryNode operand) p))
      else parsePostfix ops nested p)"

definition parseComparison :: "'n float_ops \<Rightarrow> 'n parse \<Rightarrow> 'n parse \<Rightarrow> 'n parse" where
  "parseComparison ops nested nestedUnary = parseBinary ops (parseUnary ops nested nestedUnary) comparison_token"

definition parseAnd :: "'n float_ops \<Rightarrow> 'n parse \<Rightarrow> 'n parse \<Rightarrow> 'n parse" where
  "parseAnd ops nested nestedUnary = parseBinary ops (parseComparison ops nested nestedUnary) (\<lambda>k. k = andToken)"

definition parseOr :: "'n float_ops \<Rightarrow> 'n parse \<Rightarrow> 'n parse \<Rightarrow> 'n parse" where
  "parseOr ops nested nestedUnary = parseBinary ops (parseAnd ops nested nestedUnary) (\<lambda>k. k = orToken)"

text \<open>
  \<^verbatim>\<open>parseNested(p.parseOr)\<close>, or \<^verbatim>\<open>parseNested(p.parseUnary)\<close> when the flag is set, with the given number of nesting levels left.
\<close>

primrec parseNested :: "nat \<Rightarrow> 'n float_ops \<Rightarrow> bool \<Rightarrow> 'n parse" where
  "parseNested 0 ops unary p = Inl TooDeep"
| "parseNested (Suc d) ops unary p =
     (if unary then parseUnary ops (parseNested d ops False) (parseNested d ops True) p
      else parseOr ops (parseNested d ops False) (parseNested d ops True) p)"

definition new_parser :: "string \<Rightarrow> parser" where
  "new_parser input = \<lparr>p_lexer = \<lparr>l_rest = input, l_pos = 0\<rparr>,
     current = \<lparr>kind = endToken, token_text = [], token_pos = 0\<rparr>, nodes = 0\<rparr>"

definition parseExpression :: "'n float_ops \<Rightarrow> string \<Rightarrow> parse_error + 'n node" where
  "parseExpression ops input =
     and_then (advance ops (new_parser input)) (\<lambda>p.
     and_then (parseOr ops (parseNested maxExpressionNesting ops False) (parseNested maxExpressionNesting ops True) p) (\<lambda>(result, p).
       if kind (current p) \<noteq> endToken then Inl (UnexpectedToken (token_text (current p)) (token_pos (current p) + 1))
       else Inr result))"

section \<open>The parser is total and bounded\<close>

fun node_count :: "'n node \<Rightarrow> nat" where
  "node_count (PropertyNode t n) = Suc (node_count t)"
| "node_count (IndexNode t i) = Suc (node_count t + node_count i)"
| "node_count (UnaryNode t) = Suc (node_count t)"
| "node_count (BinaryNode k l r) = Suc (node_count l + node_count r)"
| "node_count (CallNode n args) = Suc (sum_list (map node_count args))"
| "node_count _ = 1"

text \<open>
  A parse step that starts within the node limit does not run out of fuel, stays within the limit and
  counts exactly the nodes it builds on top of those it was given.
\<close>

definition extends :: "nat \<Rightarrow> parser \<Rightarrow> parse_error + 'n node \<times> parser \<Rightarrow> bool" where
  "extends given p r = (case r of Inl e \<Rightarrow> e \<noteq> OutOfFuel
     | Inr (n, p') \<Rightarrow> nodes p' + given = nodes p + node_count n \<and> nodes p \<le> nodes p' \<and> nodes p' \<le> maxExpressionNodes)"

definition good_parse :: "'n parse \<Rightarrow> bool" where
  "good_parse f \<longleftrightarrow> (\<forall>p. nodes p \<le> maxExpressionNodes \<longrightarrow> extends 0 p (f p))"

lemma node_count_pos: "0 < node_count n"
  by (cases n) simp_all

lemma number_length_fuel: "number_length s c \<noteq> Inl OutOfFuel"
proof -
  have "exponent_length s c \<noteq> Inl OutOfFuel" for s by (simp add: exponent_length_def Let_def split: list.split)
  then have "unsigned_length s c \<noteq> Inl OutOfFuel" for s by (simp add: unsigned_length_def Let_def and_then_eq_Inl)
  then show ?thesis by (simp add: number_length_def and_then_eq_Inl split: list.split)
qed

lemma lex_parts_fuel: "lex_number ops l \<noteq> Inl OutOfFuel" "lex_string l \<noteq> Inl OutOfFuel" "tok k t l \<noteq> Inl OutOfFuel"
  by (simp_all add: lex_number_def lex_string_def tok_def and_then_eq_Inl number_length_fuel Let_def split: option.split)

lemma lex_next_fuel: "lex_next ops l \<noteq> Inl OutOfFuel"
  unfolding lex_next_def Let_def by (simp add: lex_parts_fuel split: list.split)

lemma advance_nodes: "advance ops p = Inr p' \<Longrightarrow> nodes p' = nodes p" "advance ops p \<noteq> Inl OutOfFuel"
  using lex_next_fuel [of ops "p_lexer p"] by (auto simp: advance_def and_then_eq_Inr and_then_eq_Inl)

lemma addNode_extends:
  "nodes p \<le> maxExpressionNodes \<Longrightarrow> extends (node_count n - 1) p (addNode n p)"
  using node_count_pos [of n] by (simp add: addNode_def extends_def)

lemma extends_bind:
  assumes "extends a p r" "\<And>n p'. r = Inr (n, p') \<Longrightarrow> nodes p' \<le> maxExpressionNodes \<Longrightarrow> nodes p \<le> nodes p' \<Longrightarrow>
      nodes p' + a = nodes p + node_count n \<Longrightarrow> extends b p (f n p')"
  shows "extends b p (and_then r (\<lambda>(n, p'). f n p'))"
  using assms by (cases r) (auto simp: extends_def)

lemma extends_advance:
  assumes "\<And>p'. advance ops p = Inr p' \<Longrightarrow> nodes p' = nodes p \<Longrightarrow> extends b p (f p')"
  shows "extends b p (and_then (advance ops p) f)"
proof (cases "advance ops p")
  case (Inl e)
  with advance_nodes(2) [of ops p] show ?thesis by (simp add: extends_def)
next
  case (Inr p')
  with assms [OF Inr] advance_nodes(1) [OF Inr] show ?thesis by simp
qed

lemma extends_shift:
  assumes "extends a p' r" "nodes p \<le> nodes p'" "a + nodes p = b + nodes p'"
  shows "extends b p r"
  using assms by (cases r) (auto simp: extends_def)

lemma good_parseD: "good_parse f \<Longrightarrow> nodes p \<le> maxExpressionNodes \<Longrightarrow> extends 0 p (f p)"
  by (simp add: good_parse_def)

lemma binary_loop_extends:
  assumes "good_parse operand"
  shows "nodes p \<le> maxExpressionNodes \<Longrightarrow> maxExpressionNodes < n + nodes p \<Longrightarrow>
    extends (node_count left) p (binary_loop n ops operand isop left p)"
proof (induction n arbitrary: left p)
  case (Suc n)
  show ?case
  proof (cases "isop (kind (current p))")
    case True
    have "extends (node_count left) p (and_then (advance ops p) (\<lambda>p1. and_then (operand p1) (\<lambda>(right, p2).
        and_then (addNode (BinaryNode (kind (current p)) left right) p2) (\<lambda>(left, p3). binary_loop n ops operand isop left p3))))"
    proof (rule extends_advance)
      fix p1 :: parser assume p1: "nodes p1 = nodes p"
      have "extends 0 p1 (operand p1)" using assms p1 Suc.prems by (simp add: good_parse_def)
      then have "extends (node_count left) p1 (and_then (operand p1) (\<lambda>(right, p2).
        and_then (addNode (BinaryNode (kind (current p)) left right) p2) (\<lambda>(left, p3). binary_loop n ops operand isop left p3)))"
      proof (rule extends_bind)
        fix right :: "'a node" and p2 :: parser assume p2: "nodes p2 \<le> maxExpressionNodes" "nodes p1 \<le> nodes p2" "nodes p2 + 0 = nodes p1 + node_count right"
        let ?n = "BinaryNode (kind (current p)) left right"
        have "extends (node_count left + node_count right) p2
          (and_then (addNode ?n p2) (\<lambda>(left, p3). binary_loop n ops operand isop left p3))"
        proof (cases "nodes p2 + 1 > maxExpressionNodes")
          case False
          let ?p3 = "p2\<lparr>nodes := nodes p2 + 1\<rparr>"
          have "extends (node_count ?n) ?p3 (binary_loop n ops operand isop ?n ?p3)"
            using Suc.IH [of ?p3 ?n] False Suc.prems(2) p1 p2 by simp
          then have "extends (node_count left + node_count right) p2 (binary_loop n ops operand isop ?n ?p3)"
            by (rule extends_shift) simp_all
          with False show ?thesis by (simp add: addNode_def)
        qed (simp add: addNode_def extends_def)
        then show "extends (node_count left) p1
          (and_then (addNode ?n p2) (\<lambda>(left, p3). binary_loop n ops operand isop left p3))"
          by (rule extends_shift) (use p2 in simp_all)
      qed
      then show "extends (node_count left) p (and_then (operand p1) (\<lambda>(right, p2).
        and_then (addNode (BinaryNode (kind (current p)) left right) p2) (\<lambda>(left, p3). binary_loop n ops operand isop left p3)))"
        by (rule extends_shift) (use p1 in simp_all)
    qed
    with True show ?thesis by simp
  qed (use Suc.prems in \<open>simp add: extends_def\<close>)
qed simp

lemma good_binary: "good_parse operand \<Longrightarrow> good_parse (parseBinary ops operand isop)"
  unfolding good_parse_def
proof (intro allI impI)
  fix p :: parser assume good: "\<forall>p. nodes p \<le> maxExpressionNodes \<longrightarrow> extends 0 p (operand p)" and p: "nodes p \<le> maxExpressionNodes"
  have "extends 0 p (and_then (operand p) (\<lambda>(left, p). binary_loop loop_fuel ops operand isop left p))"
  proof (rule extends_bind)
    fix left :: "'a node" and p' :: parser assume p': "nodes p' \<le> maxExpressionNodes" "nodes p \<le> nodes p'" "nodes p' + 0 = nodes p + node_count left"
    have "extends (node_count left) p' (binary_loop loop_fuel ops operand isop left p')"
      by (rule binary_loop_extends) (use good p' in \<open>simp_all add: good_parse_def loop_fuel_def\<close>)
    then show "extends 0 p (binary_loop loop_fuel ops operand isop left p')"
      by (rule extends_shift) (use p' in simp_all)
  qed (use good p in simp)
  then show "extends 0 p (parseBinary ops operand isop p)" by (simp add: parseBinary_def)
qed

abbreviation args_count :: "'n node list \<Rightarrow> nat" where
  "args_count args \<equiv> sum_list (map node_count args)"

definition extends_args :: "nat \<Rightarrow> parser \<Rightarrow> parse_error + 'n node list \<times> parser \<Rightarrow> bool" where
  "extends_args given p r = (case r of Inl e \<Rightarrow> e \<noteq> OutOfFuel
     | Inr (ns, p') \<Rightarrow> nodes p' + given = nodes p + args_count ns \<and> nodes p \<le> nodes p' \<and> nodes p' \<le> maxExpressionNodes)"

lemma args_loop_extends:
  assumes "good_parse nested"
  shows "nodes p \<le> maxExpressionNodes \<Longrightarrow> maxExpressionNodes < n + nodes p \<Longrightarrow>
    extends_args (args_count args) p (args_loop n ops nested args p)"
proof (induction n arbitrary: args p)
  case (Suc n)
  from good_parseD [OF assms Suc.prems(1)] have e: "extends 0 p (nested p)" .
  show ?case
  proof (cases "nested p")
    case (Inl err)
    with e show ?thesis by (simp add: extends_def extends_args_def)
  next
    case (Inr r)
    obtain a p1 where r: "r = (a, p1)" by force
    with e Inr have p1: "nodes p1 = nodes p + node_count a" "nodes p1 \<le> maxExpressionNodes" by (simp_all add: extends_def)
    show ?thesis
    proof (cases "kind (current p1) = commaToken")
      case False
      with Inr r p1 show ?thesis by (simp add: extends_args_def)
    next
      case True
      show ?thesis
      proof (cases "advance ops p1")
        case (Inl err)
        with Inr r True advance_nodes(2) [of ops p1] show ?thesis by (auto simp: extends_args_def)
      next
        case adv: (Inr p2)
        from advance_nodes(1) [OF adv] p1 have p2: "nodes p2 = nodes p + node_count a" by simp
        have "extends_args (args_count (args @ [a])) p2 (args_loop n ops nested (args @ [a]) p2)"
          by (rule Suc.IH) (use p1 p2 Suc.prems node_count_pos [of a] in simp_all)
        with Inr r True adv p2 show ?thesis
          by (cases "args_loop n ops nested (args @ [a]) p2") (auto simp: extends_args_def)
      qed
    qed
  qed
qed simp

lemma addNode_shift:
  assumes "nodes p' \<le> maxExpressionNodes" "nodes p \<le> nodes p'" "nodes p' + 1 = nodes p + node_count n"
  shows "extends 0 p (addNode n p')"
  using assms by (simp add: addNode_def extends_def)

lemma parseCall_extends:
  assumes "good_parse nested" "nodes p \<le> maxExpressionNodes"
  shows "extends 0 p (parseCall ops nested name p)"
  unfolding parseCall_def
proof (rule extends_advance)
  fix p1 :: parser assume p1: "nodes p1 = nodes p"
  let ?args = "if kind (current p1) \<noteq> rightParenToken then args_loop loop_fuel ops nested [] p1 else Inr ([], p1)"
  have e: "extends_args 0 p1 ?args"
    using args_loop_extends [OF assms(1), of p1 loop_fuel "[]" ops] assms(2) p1
    by (auto simp: loop_fuel_def extends_args_def)
  show "extends 0 p (and_then ?args (\<lambda>(args, p). if kind (current p) \<noteq> rightParenToken
        then Inl (ExpectedParen (token_pos (current p) + 1))
        else and_then (advance ops p) (\<lambda>p. addNode (CallNode name args) p)))"
  proof (cases ?args)
    case (Inl err)
    with e show ?thesis by (simp add: extends_args_def extends_def)
  next
    case (Inr r)
    obtain args p2 where r: "r = (args, p2)" by force
    with e Inr p1 have p2: "nodes p2 = nodes p + args_count args" "nodes p2 \<le> maxExpressionNodes"
      by (simp_all add: extends_args_def)
    have "extends 0 p (and_then (advance ops p2) (\<lambda>p. addNode (CallNode name args) p))"
    proof (cases "advance ops p2")
      case (Inl err)
      with advance_nodes(2) [of ops p2] show ?thesis by (auto simp: extends_def)
    next
      case adv: (Inr p3)
      from advance_nodes(1) [OF adv] p2 have "extends 0 p (addNode (CallNode name args) p3)"
        by (intro addNode_shift) simp_all
      with adv show ?thesis by simp
    qed
    with Inr r show ?thesis by (simp add: extends_def)
  qed
qed

lemma advance_then:
  assumes "\<And>p2. nodes p2 = nodes p1 \<Longrightarrow> extends b p (f p2)"
  shows "extends b p (and_then (advance ops p1) f)"
proof (cases "advance ops p1")
  case (Inl err)
  with advance_nodes(2) [of ops p1] show ?thesis by (auto simp: extends_def)
next
  case (Inr p2)
  with assms advance_nodes(1) [OF Inr] show ?thesis by simp
qed

lemma parsePrimary_extends:
  assumes "good_parse nested" "nodes p \<le> maxExpressionNodes"
  shows "extends 0 p (parsePrimary ops nested p)"
proof -
  have add1: "extends 0 p (addNode n p1)" if "nodes p1 = nodes p" "node_count n = 1" for n :: "'a node" and p1
    using that assms(2) by (intro addNode_shift) simp_all
  have call: "extends 0 p (parseCall ops nested name p1)" if "nodes p1 = nodes p" for name p1
    by (rule extends_shift [OF parseCall_extends [OF assms(1)]]) (use that assms(2) in simp_all)
  have "extends 0 p (and_then (parseNumber ops t) (\<lambda>n. addNode (literal (NumV n)) p1))" if "nodes p1 = nodes p" for t p1
  proof (cases "parseNumber ops t")
    case (Inl e)
    then have "e \<noteq> OutOfFuel" by (auto simp: parseNumber_def Let_def split: if_splits option.splits)
    with Inl show ?thesis by (simp add: extends_def)
  qed (simp add: add1 that literal_def)
  moreover have "extends 0 p (and_then (nested p1) (\<lambda>(result, p).
      if kind (current p) \<noteq> rightParenToken then Inl (ExpectedParen (token_pos (current p) + 1))
      else and_then (advance ops p) (\<lambda>p. Inr (result, p))))" if p1: "nodes p1 = nodes p" for p1
  proof -
    have "extends 0 p (nested p1)" using extends_shift [OF good_parseD [OF assms(1), of p1]] p1 assms(2) by simp
    then show ?thesis
      by (rule extends_bind) (auto simp: extends_def intro!: advance_then [unfolded extends_def])
  qed
  ultimately show ?thesis
    using add1 call unfolding parsePrimary_def Let_def
    by (auto simp: literal_def intro!: advance_then) (simp add: extends_def)
qed

lemma wildcard_then:
  assumes "nodes p1 \<le> maxExpressionNodes" "\<And>p2. nodes p2 = Suc (nodes p1) \<Longrightarrow> nodes p2 \<le> maxExpressionNodes \<Longrightarrow> extends b p (f WildcardNode p2)"
  shows "extends b p (and_then (addNode WildcardNode p1) (\<lambda>(w, p). f w p))"
  using assms by (auto simp: addNode_def extends_def)

lemma addNode_on:
  assumes "nodes p' \<le> maxExpressionNodes" "nodes p \<le> nodes p'" "nodes p' + 1 + given = nodes p + node_count n"
  shows "extends given p (addNode n p')"
  using assms by (simp add: addNode_def extends_def)

lemma postfix_dot_extends:
  assumes "nodes p \<le> maxExpressionNodes"
  shows "extends (node_count result) p (postfix_dot ops result p)"
  using assms unfolding postfix_dot_def Let_def
  by (auto intro!: advance_then wildcard_then addNode_on) (simp add: extends_def)

lemma postfix_bracket_extends:
  assumes "good_parse nested" "nodes p \<le> maxExpressionNodes"
  shows "extends (node_count result) p (postfix_bracket ops nested result p)"
  unfolding postfix_bracket_def
proof (rule advance_then)
  fix p1 :: parser assume p1: "nodes p1 = nodes p"
  let ?index = "if kind (current p1) = wildcardToken
    then and_then (addNode WildcardNode p1) (\<lambda>(w, p). and_then (advance ops p) (\<lambda>p. Inr (w, p))) else nested p1"
  have "extends 0 p ?index"
  proof (cases "kind (current p1) = wildcardToken")
    case True
    have "extends 0 p (and_then (advance ops p2) (\<lambda>p. Inr (WildcardNode, p)))"
      if "nodes p2 = Suc (nodes p1)" "nodes p2 \<le> maxExpressionNodes" for p2
      by (rule advance_then) (use that p1 in \<open>simp add: extends_def\<close>)
    with True p1 assms(2) show ?thesis by (auto intro!: wildcard_then)
  next
    case False
    have "extends 0 p1 (nested p1)" using assms p1 by (simp add: good_parse_def)
    then have "extends 0 p (nested p1)" by (rule extends_shift) (use p1 in simp_all)
    with False show ?thesis by simp
  qed
  then show "extends (node_count result) p (and_then ?index (\<lambda>(index, p).
      if kind (current p) \<noteq> rightBracketToken then Inl (ExpectedBracket (token_pos (current p) + 1))
      else and_then (advance ops p) (\<lambda>p. addNode (IndexNode result index) p)))"
  proof (rule extends_bind)
    fix index :: "'a node" and p2 :: parser
    assume p2: "nodes p2 \<le> maxExpressionNodes" "nodes p \<le> nodes p2" "nodes p2 + 0 = nodes p + node_count index"
    have "extends (node_count result) p (and_then (advance ops p2) (\<lambda>p. addNode (IndexNode result index) p))"
      by (rule advance_then, rule addNode_on) (use p2 in simp_all)
    then show "extends (node_count result) p (if kind (current p2) \<noteq> rightBracketToken
        then Inl (ExpectedBracket (token_pos (current p2) + 1))
        else and_then (advance ops p2) (\<lambda>p. addNode (IndexNode result index) p))"
      by (simp add: extends_def)
  qed
qed

lemma postfix_loop_extends:
  assumes "good_parse nested"
  shows "nodes p \<le> maxExpressionNodes \<Longrightarrow> maxExpressionNodes < n + nodes p \<Longrightarrow>
    extends (node_count result) p (postfix_loop n ops nested result p)"
proof (induction n arbitrary: result p)
  case (Suc n)
  have more: "extends (node_count result) p (and_then r (\<lambda>(result, p). postfix_loop n ops nested result p))"
    if e: "extends (node_count result) p r" and progress: "\<And>m p'. r = Inr (m, p') \<Longrightarrow> node_count result < node_count m" for r
    using e
  proof (rule extends_bind)
    fix m :: "'a node" and p1 :: parser
    assume r: "r = Inr (m, p1)" and p1: "nodes p1 \<le> maxExpressionNodes" "nodes p \<le> nodes p1" "nodes p1 + node_count result = nodes p + node_count m"
    have "extends (node_count m) p1 (postfix_loop n ops nested m p1)"
      by (rule Suc.IH) (use p1 progress [OF r] Suc.prems in simp_all)
    then show "extends (node_count result) p (postfix_loop n ops nested m p1)"
      by (rule extends_shift) (use p1 in simp_all)
  qed
  have "node_count result < node_count m" if "postfix_dot ops result p = Inr (m, p')" for m p'
    using that by (auto simp: postfix_dot_def addNode_def and_then_eq_Inr Let_def split: if_splits)
  moreover have "node_count result < node_count m" if "postfix_bracket ops nested result p = Inr (m, p')" for m p'
    using that by (auto simp: postfix_bracket_def addNode_def and_then_eq_Inr split: if_splits)
  ultimately show ?case
    using more [OF postfix_dot_extends [OF Suc.prems(1)]] more [OF postfix_bracket_extends [OF assms Suc.prems(1)]] Suc.prems
    by (simp add: extends_def)
qed simp

lemma good_postfix:
  assumes "good_parse nested"
  shows "good_parse (parsePostfix ops nested)"
  unfolding good_parse_def parsePostfix_def
proof (intro allI impI)
  fix p :: parser assume p: "nodes p \<le> maxExpressionNodes"
  show "extends 0 p (and_then (parsePrimary ops nested p) (\<lambda>(result, p). postfix_loop loop_fuel ops nested result p))"
  proof (rule extends_bind [OF parsePrimary_extends [OF assms p]])
    fix m :: "'a node" and p1 :: parser
    assume p1: "nodes p1 \<le> maxExpressionNodes" "nodes p \<le> nodes p1" "nodes p1 + 0 = nodes p + node_count m"
    have "extends (node_count m) p1 (postfix_loop loop_fuel ops nested m p1)"
      by (rule postfix_loop_extends [OF assms]) (use p1 in \<open>simp_all add: loop_fuel_def\<close>)
    then show "extends 0 p (postfix_loop loop_fuel ops nested m p1)" by (rule extends_shift) (use p1 in simp_all)
  qed
qed

lemma good_unary:
  assumes "good_parse nested" "good_parse nestedUnary"
  shows "good_parse (parseUnary ops nested nestedUnary)"
  unfolding good_parse_def
proof (intro allI impI)
  fix p :: parser assume p: "nodes p \<le> maxExpressionNodes"
  have "extends 0 p (and_then (advance ops p) (\<lambda>p. and_then (nestedUnary p) (\<lambda>(operand, p). addNode (UnaryNode operand) p)))"
  proof (rule advance_then)
    fix p1 :: parser assume p1: "nodes p1 = nodes p"
    have "extends 0 p1 (nestedUnary p1)" using assms(2) p p1 by (simp add: good_parse_def)
    then have "extends 0 p (nestedUnary p1)" by (rule extends_shift) (use p1 in simp_all)
    then show "extends 0 p (and_then (nestedUnary p1) (\<lambda>(operand, p). addNode (UnaryNode operand) p))"
      by (rule extends_bind) (rule addNode_shift; simp)
  qed
  with good_postfix [OF assms(1), of ops] p show "extends 0 p (parseUnary ops nested nestedUnary p)"
    by (simp add: parseUnary_def good_parse_def)
qed

lemma good_or:
  assumes "good_parse nested" "good_parse nestedUnary"
  shows "good_parse (parseOr ops nested nestedUnary)"
  unfolding parseOr_def parseAnd_def parseComparison_def by (intro good_binary good_unary assms)

lemma good_nested: "good_parse (parseNested d ops unary)"
proof (induction d arbitrary: unary)
  case 0
  show ?case by (simp add: good_parse_def extends_def)
next
  case (Suc d)
  from good_or [OF Suc Suc] good_unary [OF Suc Suc] show ?case by (auto simp: good_parse_def)
qed

text \<open>
  C31. The parser of expressions is total and its limits hold: whatever the input, none of its loops runs
  out of fuel, and an expression it accepts has at most 256 nodes, every one of them counted.
\<close>

theorem parse_total_and_bounded:
  "case parseExpression ops input of
     Inl e \<Rightarrow> e \<noteq> OutOfFuel
   | Inr n \<Rightarrow> node_count n \<le> maxExpressionNodes"
proof -
  let ?or = "parseOr ops (parseNested maxExpressionNesting ops False) (parseNested maxExpressionNesting ops True)"
  show ?thesis
  proof (cases "advance ops (new_parser input)")
    case (Inl e)
    with advance_nodes(2) [of ops "new_parser input"] show ?thesis by (auto simp: parseExpression_def)
  next
    case (Inr p)
    have "nodes p = 0" using advance_nodes(1) [OF Inr] by (simp add: new_parser_def)
    moreover have "good_parse ?or" using good_nested by (blast intro: good_or)
    ultimately have "extends 0 p (?or p)" by (intro good_parseD) simp_all
    then show ?thesis using Inr \<open>nodes p = 0\<close>
      by (cases "?or p") (auto simp: parseExpression_def extends_def)
  qed
qed

end
