(* ===== verification/HashFiles.thy ===== *)
theory HashFiles
  imports Prelude
begin

text \<open>
  The patterns and the digest of the function \<^verbatim>\<open>hashFiles\<close>, \<^verbatim>\<open>src/internal/expression/hash.go\<close>: reading the patterns, the
  memoised matcher of path segments with \<^verbatim>\<open>**\<close>, and the digest over the matching files of the workspace.
  \<^verbatim>\<open>path.Match\<close> on one segment, the walk over the file system and SHA-256 are arguments. A model of the
  walk is the list of the visited entries with what the later calls on each of them return.
\<close>

section \<open>Patterns\<close>

record hashPattern =
  segments :: "string list"
  negate :: bool
  absolute :: bool

datatype hash_error = PatternNotScalar | PatternTooLong | PatternEmpty | PatternOutside | PatternInvalid | WalkFailed string

type_synonym path_match = "string \<Rightarrow> string \<Rightarrow> bool option"

function strip_bangs :: "bool \<Rightarrow> string \<Rightarrow> bool \<times> string" where
  "strip_bangs neg line =
     (if has_prefix line ''!'' then strip_bangs (\<not> neg) (trim_space (trim_prefix line ''!'')) else (neg, line))"
  by pat_completeness auto
termination
proof (relation "measure (\<lambda>(neg, line). length line)")
  fix neg :: bool and line :: string
  assume p: "has_prefix line ''!''"
  have "length (trim_space s) \<le> length s" for s
  proof -
    have "length (dropWhile is_space (rev (dropWhile is_space s))) \<le> length (dropWhile is_space s)"
      by (metis length_dropWhile_le length_rev)
    then show ?thesis
      using length_dropWhile_le [of is_space s]
      by (simp add: trim_space_def trim_func_def trim_left_func_def trim_right_func_def)
  qed
  from this [of "trim_prefix line ''!''"] p
  show "((\<not> neg, trim_space (trim_prefix line ''!'')), neg, line) \<in> measure (\<lambda>(neg, line). length line)"
    by (auto simp: has_prefix_def trim_prefix_def prefix_def)
qed simp

definition pattern_segments :: "string \<Rightarrow> string list" where
  "pattern_segments cleaned =
     (if cleaned \<noteq> ''.'' \<and> cleaned \<noteq> ''/'' then str_split (trim_prefix cleaned ''/'') ''/'' else [])"

definition pattern_of_line :: "path_match \<Rightarrow> string \<Rightarrow> hash_error + hashPattern option" where
  "pattern_of_line pm raw =
     (let line = trim_space (trim_suffix raw [CHR 0x0D])
      in if line = [] \<or> has_prefix line ''#'' then Inr None
         else
           (let (neg, line) = strip_bangs False line;
                cleaned = path_clean line;
                segs = pattern_segments cleaned
            in if line = [] then Inl PatternEmpty
               else if \<not> path_is_abs line \<and> (cleaned = ''..'' \<or> has_prefix cleaned ''../'') then Inl PatternOutside
               else if list_ex (\<lambda>s. s \<noteq> ''**'' \<and> pm s [] = None) segs then Inl PatternInvalid
               else Inr (Some \<lparr>segments = segs, negate = neg, absolute = path_is_abs line\<rparr>)))"

definition pattern_lines :: "string \<Rightarrow> string list" where
  "pattern_lines input = str_split (replace_all input [CHR 0x0D, CHR 0x0A] [CHR 0x0A]) [CHR 0x0A]"

definition maxPatternBytes :: nat where "maxPatternBytes = 100000"

fun hashFilePatterns :: "path_match \<Rightarrow> string option list \<Rightarrow> hash_error + hashPattern list" where
  "hashFilePatterns pm [] = Inr []"
| "hashFilePatterns pm (None # inputs) = Inl PatternNotScalar"
| "hashFilePatterns pm (Some input # inputs) =
     (if length input > maxPatternBytes then Inl PatternTooLong
      else and_then (map_res (pattern_of_line pm) (pattern_lines input)) (\<lambda>ps.
        and_then (hashFilePatterns pm inputs) (\<lambda>qs. Inr (List.map_filter id ps @ qs))))"

section \<open>Matching\<close>

text \<open>
  \<^verbatim>\<open>matchPathSegments\<close> with its tables: the visited positions and the results stored for them.
\<close>

type_synonym memo = "(nat \<times> nat) list \<times> ((nat \<times> nat) \<times> bool) list"

definition memo_result :: "memo \<Rightarrow> nat \<Rightarrow> nat \<Rightarrow> bool" where
  "memo_result m i j = (case map_of (snd m) (i, j) of None \<Rightarrow> False | Some b \<Rightarrow> b)"

definition memo_visit :: "memo \<Rightarrow> nat \<Rightarrow> nat \<Rightarrow> memo" where
  "memo_visit m i j = ((i, j) # fst m, snd m)"

definition memo_store :: "memo \<Rightarrow> nat \<Rightarrow> nat \<Rightarrow> bool \<Rightarrow> bool \<times> memo" where
  "memo_store m i j b = (b, fst m, ((i, j), b) # snd m)"

function match_at :: "path_match \<Rightarrow> string list \<Rightarrow> string list \<Rightarrow> nat \<Rightarrow> nat \<Rightarrow> memo \<Rightarrow> bool \<times> memo" where
  "match_at pm pat cand i j m =
     (if (i, j) \<in> set (fst m) then (memo_result m i j, m)
      else
        (let m = memo_visit m i j
         in if i \<ge> length pat then memo_store m i j (j = length cand)
            else if pat ! i = ''**'' then
              (case match_at pm pat cand (i + 1) j m of
                 (True, m) \<Rightarrow> memo_store m i j True
               | (False, m) \<Rightarrow>
                   if j < length cand
                   then (case match_at pm pat cand i (j + 1) m of (b, m) \<Rightarrow> memo_store m i j b)
                   else memo_store m i j False)
            else if j \<ge> length cand then (False, m)
            else if pm (pat ! i) (cand ! j) = Some True
              then (case match_at pm pat cand (i + 1) (j + 1) m of (b, m) \<Rightarrow> memo_store m i j b)
            else memo_store m i j False))"
  by pat_completeness auto
termination by (relation "measure (\<lambda>(pm, pat, cand, i, j, m). (length pat - i) + (length cand - j))") auto

declare match_at.simps [simp del]

definition matchPathSegments :: "path_match \<Rightarrow> string list \<Rightarrow> string list \<Rightarrow> bool" where
  "matchPathSegments pm pat cand = fst (match_at pm pat cand 0 0 ([], []))"

definition pattern_matches :: "path_match \<Rightarrow> string \<Rightarrow> string \<Rightarrow> string \<Rightarrow> hashPattern \<Rightarrow> bool" where
  "pattern_matches pm relative workspaceAbsolute resolvedAbsolute pattern =
     list_ex (\<lambda>candidate.
        let cs = str_split candidate ''/''
        in matchPathSegments pm (segments pattern) cs \<or> matchPathSegments pm (segments pattern @ [''**'']) cs)
       (if absolute pattern
        then [trim_prefix workspaceAbsolute ''/'', trim_prefix resolvedAbsolute ''/''] else [relative])"

definition matchesHashPatterns :: "path_match \<Rightarrow> string \<Rightarrow> string \<Rightarrow> string \<Rightarrow> hashPattern list \<Rightarrow> bool" where
  "matchesHashPatterns pm relative workspaceAbsolute resolvedAbsolute patterns =
     foldl (\<lambda>matched p. if pattern_matches pm relative workspaceAbsolute resolvedAbsolute p then \<not> negate p else matched)
       False patterns"

section \<open>Digest\<close>

record walk_entry =
  entry_error :: "string option"
  entry_dir :: bool
  entry_relative :: "string + string"
  entry_path :: string
  entry_inside :: "string + bool"
  entry_regular :: "string + bool"
  entry_digest :: "string + string"

fun hash_walk :: "path_match \<Rightarrow> string \<Rightarrow> hashPattern list \<Rightarrow> walk_entry list \<Rightarrow> string \<Rightarrow> bool \<Rightarrow> string + string \<times> bool" where
  "hash_walk pm workspacePath patterns [] acc matched = Inr (acc, matched)"
| "hash_walk pm workspacePath patterns (entry # es) acc matched =
     (case entry_error entry of
        Some e \<Rightarrow> Inl e
      | None \<Rightarrow>
          if entry_dir entry then hash_walk pm workspacePath patterns es acc matched
          else and_then (entry_relative entry) (\<lambda>relative.
            if \<not> matchesHashPatterns pm relative (path_join [workspacePath, relative]) (entry_path entry) patterns
            then hash_walk pm workspacePath patterns es acc matched
            else and_then (entry_inside entry) (\<lambda>inside.
              if \<not> inside then hash_walk pm workspacePath patterns es acc matched
              else and_then (entry_regular entry) (\<lambda>regular.
                if \<not> regular then hash_walk pm workspacePath patterns es acc matched
                else and_then (entry_digest entry) (\<lambda>d. hash_walk pm workspacePath patterns es (acc @ d) True)))))"

record hash_env =
  hash_match :: path_match
  hash_root :: "string \<Rightarrow> string + string \<times> walk_entry list"
  hash_sum :: "string \<Rightarrow> string"

definition hashWorkspaceFiles :: "hash_env \<Rightarrow> string \<Rightarrow> hashPattern list \<Rightarrow> hash_error + string" where
  "hashWorkspaceFiles env workspace patterns =
     (case hash_root env workspace of
        Inl e \<Rightarrow> Inl (WalkFailed e)
      | Inr (workspacePath, entries) \<Rightarrow>
          (case hash_walk (hash_match env) workspacePath patterns entries [] False of
             Inl e \<Rightarrow> Inl (WalkFailed e)
           | Inr (digests, matched) \<Rightarrow> Inr (if matched then hash_sum env digests else [])))"

section \<open>The matcher with tables is the plain recursion\<close>

fun segments_match :: "path_match \<Rightarrow> string list \<Rightarrow> string list \<Rightarrow> bool" where
  "segments_match pm [] cand \<longleftrightarrow> cand = []"
| "segments_match pm (s # pat) [] \<longleftrightarrow> s = ''**'' \<and> segments_match pm pat []"
| "segments_match pm (s # pat) (c # cand) \<longleftrightarrow>
     (if s = ''**'' then segments_match pm pat (c # cand) \<or> segments_match pm (s # pat) cand
      else pm s c = Some True \<and> segments_match pm pat cand)"

definition match_spec :: "path_match \<Rightarrow> string list \<Rightarrow> string list \<Rightarrow> nat \<Rightarrow> nat \<Rightarrow> bool" where
  "match_spec pm pat cand i j = segments_match pm (drop i pat) (drop j cand)"

lemma spec_end: "i \<ge> length pat \<Longrightarrow> match_spec pm pat cand i j = (length cand \<le> j)"
  by (simp add: match_spec_def)

lemma spec_star:
  "i < length pat \<Longrightarrow> pat ! i = ''**'' \<Longrightarrow> match_spec pm pat cand i j =
     (match_spec pm pat cand (i + 1) j \<or> j < length cand \<and> match_spec pm pat cand i (j + 1))"
  unfolding match_spec_def
  by (cases "j < length cand") (simp_all add: Cons_nth_drop_Suc [symmetric])

lemma spec_segment:
  "i < length pat \<Longrightarrow> pat ! i \<noteq> ''**'' \<Longrightarrow> match_spec pm pat cand i j =
     (j < length cand \<and> pm (pat ! i) (cand ! j) = Some True \<and> match_spec pm pat cand (i + 1) (j + 1))"
  unfolding match_spec_def
  by (cases "j < length cand") (simp_all add: Cons_nth_drop_Suc [symmetric])

definition memo_ok :: "path_match \<Rightarrow> string list \<Rightarrow> string list \<Rightarrow> nat \<Rightarrow> memo \<Rightarrow> bool" where
  "memo_ok pm pat cand k m \<longleftrightarrow> (\<forall>a b. (a, b) \<in> set (fst m) \<longrightarrow> k \<le> a + b \<longrightarrow> memo_result m a b = match_spec pm pat cand a b) \<and>
     (\<forall>a b. map_of (snd m) (a, b) \<noteq> None \<longrightarrow> (a, b) \<in> set (fst m))"

definition memo_keeps :: "nat \<Rightarrow> memo \<Rightarrow> memo \<Rightarrow> bool" where
  "memo_keeps k m m' \<longleftrightarrow> (\<forall>a b. a + b < k \<longrightarrow> ((a, b) \<in> set (fst m') \<longleftrightarrow> (a, b) \<in> set (fst m)) \<and>
     map_of (snd m') (a, b) = map_of (snd m) (a, b))"

lemma memo_keeps_refl [simp]: "memo_keeps k m m" by (simp add: memo_keeps_def)

lemma memo_keeps_trans: "memo_keeps k m m1 \<Longrightarrow> memo_keeps k m1 m2 \<Longrightarrow> memo_keeps k m m2"
  by (simp add: memo_keeps_def)

lemma memo_keeps_mono: "memo_keeps k m m' \<Longrightarrow> l \<le> k \<Longrightarrow> memo_keeps l m m'"
  by (simp add: memo_keeps_def)

lemma visit_ok:
  assumes "memo_ok pm pat cand (i + j) m"
  shows "memo_ok pm pat cand (Suc (i + j)) (memo_visit m i j)"
  using assms by (auto simp: memo_ok_def memo_visit_def memo_result_def)

lemma store_ok:
  assumes "memo_ok pm pat cand (i + j) m" "memo_ok pm pat cand (Suc (i + j)) m1"
    and "memo_keeps (Suc (i + j)) (memo_visit m i j) m1" "b = match_spec pm pat cand i j"
  shows "memo_ok pm pat cand (i + j) (snd (memo_store m1 i j b)) \<and> memo_keeps (i + j) m (snd (memo_store m1 i j b))"
proof
  have at: "((a, c) \<in> set (fst m1) \<longleftrightarrow> (a, c) = (i, j) \<or> (a, c) \<in> set (fst m)) \<and> map_of (snd m1) (a, c) = map_of (snd m) (a, c)"
    if "a + c \<le> i + j" for a c
    using assms(3) that by (auto simp: memo_keeps_def memo_visit_def)
  then show "memo_keeps (i + j) m (snd (memo_store m1 i j b))" by (auto simp: memo_keeps_def memo_store_def)
  have "memo_result (snd (memo_store m1 i j b)) a c = match_spec pm pat cand a c"
    if v: "(a, c) \<in> set (fst (snd (memo_store m1 i j b)))" "i + j \<le> a + c" for a c
  proof (cases "(a, c) = (i, j)")
    case True
    with assms(4) show ?thesis by (simp add: memo_store_def memo_result_def)
  next
    case False
    then have r: "memo_result (snd (memo_store m1 i j b)) a c = memo_result m1 a c"
      by (auto simp: memo_store_def memo_result_def)
    show ?thesis
    proof (cases "a + c = i + j")
      case True
      with at [of a c] False v have "(a, c) \<in> set (fst m)" "memo_result m1 a c = memo_result m a c"
        by (auto simp: memo_store_def memo_result_def)
      with assms(1) True r show ?thesis by (simp add: memo_ok_def)
    next
      case False
      with assms(2) v r show ?thesis by (auto simp: memo_ok_def memo_store_def)
    qed
  qed
  moreover have "(i, j) \<in> set (fst m1)" using at [of i j] by simp
  ultimately show "memo_ok pm pat cand (i + j) (snd (memo_store m1 i j b))"
    using assms(2) by (auto simp: memo_ok_def memo_store_def)
qed

lemma fst_memo_store: "fst (memo_store m i j b) = b" by (simp add: memo_store_def)

lemma match_at_spec:
  "memo_ok pm pat cand (i + j) m \<Longrightarrow> j \<le> length cand \<Longrightarrow>
   fst (match_at pm pat cand i j m) = match_spec pm pat cand i j \<and>
   memo_ok pm pat cand (i + j) (snd (match_at pm pat cand i j m)) \<and> memo_keeps (i + j) m (snd (match_at pm pat cand i j m))"
proof (induction pm pat cand i j m rule: match_at.induct)
  case (1 pm pat cand i j m)
  show ?case
  proof (cases "(i, j) \<in> set (fst m)")
    case True
    then have "match_at pm pat cand i j m = (memo_result m i j, m)" by (subst match_at.simps) simp
    with 1(4) True show ?thesis by (simp add: memo_ok_def)
  next
    case False
    define v where "v = memo_visit m i j"
    note v = visit_ok [OF 1(4), folded v_def]
    note store = store_ok [OF 1(4) _ _ refl, folded v_def]
    consider (end_pat) "i \<ge> length pat" | (star) "i < length pat" "pat ! i = ''**''" | (end_cand) "i < length pat" "pat ! i \<noteq> ''**''" "j \<ge> length cand"
      | (seg) "i < length pat" "pat ! i \<noteq> ''**''" "j < length cand" by linarith
    then show ?thesis
    proof cases
      case end_pat
      have "match_at pm pat cand i j m = memo_store v i j (j = length cand)"
        using False end_pat by (subst match_at.simps) (simp add: v_def)
      moreover have "match_spec pm pat cand i j = (j = length cand)" using end_pat 1(5) by (auto simp: spec_end)
      ultimately show ?thesis using store [OF v memo_keeps_refl] by (simp add: fst_memo_store)
    next
      case end_cand
      then have "match_at pm pat cand i j m = (False, v)" using False by (subst match_at.simps) (simp add: v_def)
      moreover have s: "\<not> match_spec pm pat cand i j" using end_cand by (simp add: spec_segment)
      moreover have "map_of (snd m) (i, j) = None" using 1(4) False unfolding memo_ok_def by blast
      then have "memo_ok pm pat cand (i + j) v" using 1(4) s by (auto simp: memo_ok_def v_def memo_visit_def memo_result_def)
      moreover have "memo_keeps (i + j) m v" by (auto simp: memo_keeps_def v_def memo_visit_def)
      ultimately show ?thesis by simp
    next
      case seg
      obtain b m1 where r: "match_at pm pat cand (i + 1) (j + 1) v = (b, m1)" by (metis prod.exhaust)
      show ?thesis
      proof (cases "pm (pat ! i) (cand ! j) = Some True")
        case True
        have ok: "memo_ok pm pat cand (i + 1 + (j + 1)) v" using v by (auto simp: memo_ok_def)
        have n: "b = match_spec pm pat cand (i + 1) (j + 1)" "memo_ok pm pat cand (i + 1 + (j + 1)) m1"
            "memo_keeps (i + 1 + (j + 1)) v m1"
          using 1(3) [OF False, of v] seg True ok r by (simp_all add: v_def)
        have m1: "memo_ok pm pat cand (Suc (i + j)) m1"
          unfolding memo_ok_def
        proof (intro conjI allI impI)
          fix a c assume ac: "(a, c) \<in> set (fst m1)" "Suc (i + j) \<le> a + c"
          show "memo_result m1 a c = match_spec pm pat cand a c"
          proof (cases "a + c = Suc (i + j)")
            case True
            with n(3) ac have "(a, c) \<in> set (fst v)" "memo_result m1 a c = memo_result v a c"
              by (auto simp: memo_keeps_def memo_result_def)
            with v True show ?thesis by (auto simp: memo_ok_def)
          next
            case False
            with ac n(2) show ?thesis by (auto simp: memo_ok_def)
          qed
        next
          fix a c assume "map_of (snd m1) (a, c) \<noteq> None"
          with n(2) show "(a, c) \<in> set (fst m1)" by (auto simp: memo_ok_def)
        qed
        have "match_at pm pat cand i j m = memo_store m1 i j b" using False seg True r by (subst match_at.simps) (simp add: v_def)
        moreover have "b = match_spec pm pat cand i j" using n(1) seg True by (simp add: spec_segment)
        ultimately show ?thesis using store [OF m1 memo_keeps_mono [OF n(3)]] by (simp add: fst_memo_store)
      next
        case no: False
        have "match_at pm pat cand i j m = memo_store v i j False" using False seg no by (subst match_at.simps) (simp add: v_def)
        moreover have "\<not> match_spec pm pat cand i j" using seg no by (simp add: spec_segment)
        ultimately show ?thesis using store [OF v memo_keeps_refl] by (simp add: fst_memo_store)
      qed
    next
      case star
      obtain b m1 where r: "match_at pm pat cand (i + 1) j v = (b, m1)" by (metis prod.exhaust)
      have n: "b = match_spec pm pat cand (i + 1) j" "memo_ok pm pat cand (Suc (i + j)) m1" "memo_keeps (Suc (i + j)) v m1"
        using 1(1) [OF False, of v] star v r 1(5) by (simp_all add: v_def)
      show ?thesis
      proof (cases "b \<or> j \<ge> length cand")
        case True
        have "match_at pm pat cand i j m = memo_store m1 i j b" using False star r True by (subst match_at.simps, cases b) (simp_all add: v_def)
        moreover have "b = match_spec pm pat cand i j" using n(1) True spec_star [OF star, of pm cand j] by auto
        ultimately show ?thesis using store [OF n(2,3)] by (simp add: fst_memo_store)
      next
        case more: False
        obtain b2 m2 where r2: "match_at pm pat cand i (j + 1) m1 = (b2, m2)" by (metis prod.exhaust)
        have n2: "b2 = match_spec pm pat cand i (j + 1)" "memo_ok pm pat cand (Suc (i + j)) m2" "memo_keeps (Suc (i + j)) m1 m2"
          using 1(2) [OF False, of v b] star more n(2) r r2 by (simp_all add: v_def)
        have "match_at pm pat cand i j m = memo_store m2 i j b2" using False star r r2 more by (subst match_at.simps) (simp add: v_def)
        moreover have "b2 = match_spec pm pat cand i j" using n(1) n2(1) more spec_star [OF star, of pm cand j] by simp
        ultimately show ?thesis using store [OF n2(2) memo_keeps_trans [OF n(3) n2(3)]] by (simp add: fst_memo_store)
      qed
    qed
  qed
qed

text \<open>
  C35. The matcher of \<^verbatim>\<open>hashFiles\<close> patterns, which remembers the positions it has visited so that patterns
  with several \<^verbatim>\<open>**\<close> stay cheap, decides the plain recursive definition: \<^verbatim>\<open>**\<close> stands for any number of
  segments, any other segment must match one segment of the path.
\<close>

theorem memo_match_equals_recursion: "matchPathSegments pm pat cand = segments_match pm pat cand"
  using match_at_spec [of pm pat cand 0 0 "([], [])"] by (simp add: matchPathSegments_def match_spec_def memo_ok_def)

end
