(* ===== verification/ExprEval.thy ===== *)
theory ExprEval
  imports ExprParser HashFiles
begin

text \<open>
  Values and evaluation of expressions, \<^verbatim>\<open>src/internal/expression/value.go\<close> and \<^verbatim>\<open>expression.go\<close>.

  The context values are given complete: the callbacks of \<^verbatim>\<open>DeferredObject\<close> and \<^verbatim>\<open>DeferredObjectMap\<close> are taken
  as already resolved. A Go map is an association list whose order stands for the order of iteration.
  An access to an argument that is not there is the error \<open>Panic\<close>.
\<close>

section \<open>Values\<close>

fun normalize :: "(step list \<Rightarrow> addr) \<Rightarrow> step list \<Rightarrow> 'n any \<Rightarrow> bool \<Rightarrow> 'n val"
  and normalize_items :: "(step list \<Rightarrow> addr) \<Rightarrow> step list \<Rightarrow> nat \<Rightarrow> 'n any list \<Rightarrow> bool \<Rightarrow> 'n val list"
  and normalize_fields :: "(step list \<Rightarrow> addr) \<Rightarrow> step list \<Rightarrow> (string \<times> 'n any) list \<Rightarrow> bool \<Rightarrow> (string \<times> 'n val) list" where
  "normalize mk path (SensitiveValue x) s = normalize mk path x True"
| "normalize mk path NilAny s = Val s NullV"
| "normalize mk path (BoolAny b) s = Val s (BoolV b)"
| "normalize mk path (StrAny t) s = Val s (StrV t)"
| "normalize mk path (NumAny n) s = Val s (NumV n)"
| "normalize mk path (MapAny m) s = Val s (ObjV (mk path) (normalize_fields mk path m s))"
| "normalize mk path (SeqAny xs) s = Val s (ArrV (mk path) False (normalize_items mk path 0 xs s))"
| "normalize mk path (OtherAny t) s = Val s (StrV t)"
| "normalize_items mk path i [] s = []"
| "normalize_items mk path i (x # xs) s = normalize mk (path @ [AtIndex i]) x s # normalize_items mk path (Suc i) xs s"
| "normalize_fields mk path [] s = []"
| "normalize_fields mk path ((k, x) # m) s = (k, normalize mk (path @ [AtKey k]) x s) # normalize_fields mk path m s"

fun interfaceValue :: "'n val \<Rightarrow> 'n any"
  and interface_fields :: "(string \<times> 'n val) list \<Rightarrow> (string \<times> 'n any) list" where
  "interfaceValue (Val s NullV) = NilAny"
| "interfaceValue (Val s (BoolV b)) = BoolAny b"
| "interfaceValue (Val s (NumV n)) = NumAny n"
| "interfaceValue (Val s (StrV t)) = StrAny t"
| "interfaceValue (Val s (ArrV a f items)) = SeqAny (map interfaceValue items)"
| "interfaceValue (Val s (ObjV a fs)) = MapAny (interface_fields fs)"
| "interface_fields [] = []"
| "interface_fields ((k, v) # fs) = (k, interfaceValue v) # interface_fields fs"

fun containsSensitive :: "'n val \<Rightarrow> bool"
  and fields_sensitive :: "(string \<times> 'n val) list \<Rightarrow> bool" where
  "containsSensitive (Val s (ArrV a f items)) \<longleftrightarrow> s \<or> list_ex containsSensitive items"
| "containsSensitive (Val s (ObjV a fs)) \<longleftrightarrow> s \<or> fields_sensitive fs"
| "containsSensitive (Val s _) \<longleftrightarrow> s"
| "fields_sensitive [] \<longleftrightarrow> False"
| "fields_sensitive ((k, v) # fs) \<longleftrightarrow> containsSensitive v \<or> fields_sensitive fs"

definition truthy :: "'n float_ops \<Rightarrow> 'n val \<Rightarrow> bool" where
  "truthy ops v =
     (case body v of
        NullV \<Rightarrow> False
      | BoolV b \<Rightarrow> b
      | NumV n \<Rightarrow> \<not> fl_eq ops n (fl_zero ops) \<and> \<not> fl_isnan ops n
      | StrV t \<Rightarrow> t \<noteq> []
      | _ \<Rightarrow> True)"

definition format_bool :: "bool \<Rightarrow> string" where
  "format_bool b = (if b then ''true'' else ''false'')"

definition stringValue :: "'n float_ops \<Rightarrow> 'n val \<Rightarrow> string option" where
  "stringValue ops v =
     (case body v of
        NullV \<Rightarrow> Some []
      | BoolV b \<Rightarrow> Some (format_bool b)
      | NumV n \<Rightarrow> Some (fl_format ops n)
      | StrV t \<Rightarrow> Some t
      | _ \<Rightarrow> None)"

definition joinStringValue :: "'n float_ops \<Rightarrow> 'n val \<Rightarrow> string" where
  "joinStringValue ops v =
     (case stringValue ops v of
        Some t \<Rightarrow> t
      | None \<Rightarrow> (case body v of ArrV _ _ _ \<Rightarrow> ''Array'' | _ \<Rightarrow> ''Object''))"

definition numberValue :: "'n float_ops \<Rightarrow> 'n val \<Rightarrow> 'n" where
  "numberValue ops v =
     (case body v of
        NullV \<Rightarrow> fl_zero ops
      | BoolV b \<Rightarrow> if b then fl_one ops else fl_zero ops
      | NumV n \<Rightarrow> n
      | StrV s \<Rightarrow>
          (let t = trim_space s
           in if t = [] then fl_zero ops
              else if \<not> jsonNumberPattern t then fl_nan ops
              else case fl_parse ops t of None \<Rightarrow> fl_nan ops | Some n \<Rightarrow> n)
      | _ \<Rightarrow> fl_nan ops)"

definition mark :: "bool \<Rightarrow> 'n val \<Rightarrow> 'n val" where
  "mark s v = Val (sensitive v \<or> s) (body v)"

definition find_field :: "(string \<times> 'n val) list \<Rightarrow> string \<Rightarrow> 'n val option" where
  "find_field fs name =
     (case map_of fs name of
        Some v \<Rightarrow> Some v
      | None \<Rightarrow> map_option snd (find (\<lambda>(k, v). equal_fold k name) fs))"

definition lookupProperty :: "'n val \<Rightarrow> string \<Rightarrow> 'n val option" where
  "lookupProperty v name =
     (case body v of ObjV _ fs \<Rightarrow> map_option (mark (sensitive v)) (find_field fs name) | _ \<Rightarrow> None)"

definition array_position :: "'n float_ops \<Rightarrow> 'n val \<Rightarrow> int option" where
  "array_position ops index =
     (case body index of NumV n \<Rightarrow> if fl_integral ops n then Some (fl_int ops n) else None | _ \<Rightarrow> None)"

definition item_at :: "'n val list \<Rightarrow> int \<Rightarrow> 'n val option" where
  "item_at items i = (if 0 \<le> i \<and> i < int (length items) then Some (items ! nat i) else None)"

definition filtered_item :: "'n float_ops \<Rightarrow> 'n val \<Rightarrow> 'n val \<Rightarrow> 'n val option" where
  "filtered_item ops index candidate =
     (case body candidate of
        ObjV _ _ \<Rightarrow> (case stringValue ops index of None \<Rightarrow> None | Some name \<Rightarrow> lookupProperty candidate name)
      | ArrV _ _ items \<Rightarrow> (case array_position ops index of None \<Rightarrow> None | Some i \<Rightarrow> item_at items i)
      | _ \<Rightarrow> None)"

definition filteredIndex :: "'n float_ops \<Rightarrow> addr \<Rightarrow> bool \<Rightarrow> 'n val list \<Rightarrow> 'n val \<Rightarrow> 'n val" where
  "filteredIndex ops a s items index = Val (s \<or> sensitive index) (ArrV a True (List.map_filter (filtered_item ops index) items))"

definition property :: "'n float_ops \<Rightarrow> addr \<Rightarrow> 'n val \<Rightarrow> string \<Rightarrow> 'n val" where
  "property ops a v name =
     (case body v of
        ArrV _ True items \<Rightarrow> filteredIndex ops a (sensitive v) items (Val False (StrV name))
      | _ \<Rightarrow> (case lookupProperty v name of Some item \<Rightarrow> item | None \<Rightarrow> Val (sensitive v) (StrV [])))"

fun wildcard_items :: "'n val \<Rightarrow> 'n val list" where
  "wildcard_items (Val s (ArrV a f items)) = (if f then concat (map wildcard_items items) else items)"
| "wildcard_items (Val s (ObjV a fs)) = map snd (sort_key fst fs)"
| "wildcard_items (Val s _) = []"

definition wildcard :: "addr \<Rightarrow> 'n val \<Rightarrow> 'n val" where
  "wildcard a v = Val (sensitive v) (ArrV a True (wildcard_items v))"

definition number_equal :: "'n float_ops \<Rightarrow> 'n \<Rightarrow> 'n \<Rightarrow> bool" where
  "number_equal ops x y \<longleftrightarrow> \<not> fl_isnan ops x \<and> \<not> fl_isnan ops y \<and> fl_eq ops x y"

definition equal_values :: "'n float_ops \<Rightarrow> 'n val \<Rightarrow> 'n val \<Rightarrow> bool" where
  "equal_values ops l r =
     (case (body l, body r) of
        (NullV, NullV) \<Rightarrow> True
      | (BoolV a, BoolV b) \<Rightarrow> a = b
      | (NumV a, NumV b) \<Rightarrow> number_equal ops a b
      | (StrV a, StrV b) \<Rightarrow> equal_fold a b
      | (ArrV a _ _, ArrV b _ _) \<Rightarrow> a = b
      | (ObjV a _, ObjV b _) \<Rightarrow> a = b
      | _ \<Rightarrow> number_equal ops (numberValue ops l) (numberValue ops r))"

definition string_compare :: "string \<Rightarrow> string \<Rightarrow> int" where
  "string_compare a b = (if a < b then -1 else if a = b then 0 else 1)"

definition compare_values :: "'n float_ops \<Rightarrow> 'n val \<Rightarrow> 'n val \<Rightarrow> int option" where
  "compare_values ops l r =
     (case (body l, body r) of
        (StrV a, StrV b) \<Rightarrow> Some (string_compare (to_lower a) (to_lower b))
      | _ \<Rightarrow>
          (let x = numberValue ops l; y = numberValue ops r
           in if fl_isnan ops x \<or> fl_isnan ops y then None
              else Some (if fl_less ops x y then -1 else if fl_less ops y x then 1 else 0)))"

section \<open>Contexts\<close>

record Availability =
  contexts :: "string list"
  statusFunctions :: bool
  hashFiles :: bool

definition NewAvailability :: "string list \<Rightarrow> Availability" where
  "NewAvailability names = \<lparr>contexts = map to_lower names, statusFunctions = False, hashFiles = False\<rparr>"

definition WithStatusFunctions :: "Availability \<Rightarrow> Availability" where
  "WithStatusFunctions a = a\<lparr>statusFunctions := True\<rparr>"

definition WithHashFiles :: "Availability \<Rightarrow> Availability" where
  "WithHashFiles a = a\<lparr>hashFiles := True\<rparr>"

definition allowsContext :: "Availability \<Rightarrow> string \<Rightarrow> bool" where
  "allowsContext a name \<longleftrightarrow> to_lower name \<in> set (contexts a)"

record 'n Context =
  availability :: Availability
  Values :: "(string \<times> 'n any) list"
  context_status :: "expression_status option"

record 'n evaluation =
  roots :: "(string \<times> 'n val) list"
  eval_status :: "expression_status option"
  eval_ops :: "'n float_ops"
  eval_hash :: hash_env

definition newEvaluation :: "'n float_ops \<Rightarrow> hash_env \<Rightarrow> 'n Context \<Rightarrow> 'n evaluation" where
  "newEvaluation ops h c =
     \<lparr>roots = rev (map (\<lambda>(name, x). (to_lower name, normalize (ContextAddr name) [] x (equal_fold name ''secrets''))) (Values c)),
      eval_status = context_status c, eval_ops = ops, eval_hash = h\<rparr>"

datatype eval_error =
    ContextUnavailable string
  | FunctionUnavailable string
  | UnsupportedFunction string
  | WrongArguments string
  | StatusUnavailable string
  | WildcardMisused
  | IndexNotScalar
  | UnsupportedOperator
  | NotScalar string
  | SizeExceeded
  | JsonFailed string
  | JsonMultiple
  | BadFormat
  | HashFailed hash_error
  | WorkspaceUnavailable
  | WorkspaceInvalid
  | Panic

definition eval_context :: "'n evaluation \<Rightarrow> string \<Rightarrow> eval_error + 'n val" where
  "eval_context ev name = (case map_of (roots ev) (to_lower name) of Some v \<Rightarrow> Inr v | None \<Rightarrow> Inl (ContextUnavailable name))"

section \<open>Functions\<close>

definition maxEvaluationStringBytes :: nat where "maxEvaluationStringBytes = 100000"

definition appendEvaluationString :: "string \<Rightarrow> string \<Rightarrow> eval_error + string" where
  "appendEvaluationString result t =
     (if length t > maxEvaluationStringBytes - length result then Inl SizeExceeded else Inr (result @ t))"

definition bool_val :: "bool \<Rightarrow> bool \<Rightarrow> 'n val" where
  "bool_val s b = Val s (BoolV b)"

fun contains_item :: "'n float_ops \<Rightarrow> bool \<Rightarrow> bool \<Rightarrow> 'n val list \<Rightarrow> 'n val \<Rightarrow> 'n val" where
  "contains_item ops s seen [] item = bool_val (s \<or> seen) False"
| "contains_item ops s seen (c # cs) item =
     (if equal_values ops c item then bool_val (s \<or> sensitive c) True
      else contains_item ops s (seen \<or> sensitive c) cs item)"

definition evaluateContains :: "'n float_ops \<Rightarrow> 'n val list \<Rightarrow> eval_error + 'n val" where
  "evaluateContains ops args =
     (case args of
        search # item # _ \<Rightarrow>
          (let s = (sensitive search \<or> sensitive item)
           in case body search of
                ArrV _ _ items \<Rightarrow> Inr (contains_item ops s False items item)
              | _ \<Rightarrow>
                  (case (stringValue ops search, stringValue ops item) of
                     (None, _) \<Rightarrow> Inl (NotScalar ''contains search value'')
                   | (_, None) \<Rightarrow> Inl (NotScalar ''contains item'')
                   | (Some a, Some b) \<Rightarrow> Inr (bool_val s (str_contains (to_lower a) (to_lower b)))))
      | _ \<Rightarrow> Inl Panic)"

definition evaluateStartsWith :: "'n float_ops \<Rightarrow> 'n val list \<Rightarrow> eval_error + 'n val" where
  "evaluateStartsWith ops args =
     (case args of
        search # p # _ \<Rightarrow>
          (case (stringValue ops search, stringValue ops p) of
             (None, _) \<Rightarrow> Inl (NotScalar ''startsWith search value'')
           | (_, None) \<Rightarrow> Inl (NotScalar ''startsWith prefix'')
           | (Some a, Some b) \<Rightarrow> Inr (bool_val (sensitive search \<or> sensitive p) (has_prefix (to_lower a) (to_lower b))))
      | _ \<Rightarrow> Inl Panic)"

definition evaluateEndsWith :: "'n float_ops \<Rightarrow> 'n val list \<Rightarrow> eval_error + 'n val" where
  "evaluateEndsWith ops args =
     (case args of
        search # p # _ \<Rightarrow>
          Inr (bool_val (sensitive search \<or> sensitive p)
            (case (stringValue ops search, stringValue ops p) of
               (Some a, Some b) \<Rightarrow> has_suffix (to_lower a) (to_lower b)
             | _ \<Rightarrow> False))
      | _ \<Rightarrow> Inl Panic)"

fun join_loop :: "'n float_ops \<Rightarrow> string \<Rightarrow> bool \<Rightarrow> 'n val list \<Rightarrow> string \<Rightarrow> bool \<Rightarrow> eval_error + 'n val" where
  "join_loop ops sep first [] acc s = Inr (Val s (StrV acc))"
| "join_loop ops sep first (item # items) acc s =
     and_then (if first then Inr acc else appendEvaluationString acc sep) (\<lambda>acc.
     and_then (appendEvaluationString acc (joinStringValue ops item)) (\<lambda>acc.
     join_loop ops sep False items acc (s \<or> sensitive item)))"

definition evaluateJoin :: "'n float_ops \<Rightarrow> 'n val list \<Rightarrow> eval_error + 'n val" where
  "evaluateJoin ops args =
     (case args of
        [] \<Rightarrow> Inl Panic
      | v # rest \<Rightarrow>
          (case body v of
             ArrV _ _ items \<Rightarrow>
               (case rest of
                  [sep] \<Rightarrow>
                    if length items > 1
                    then join_loop ops (case stringValue ops sep of None \<Rightarrow> '','' | Some t \<Rightarrow> t) True items []
                           (sensitive v \<or> sensitive sep)
                    else join_loop ops '','' True items [] (sensitive v)
                | _ \<Rightarrow> join_loop ops '','' True items [] (sensitive v))
           | _ \<Rightarrow> Inr (Val (sensitive v) (StrV (case stringValue ops v of None \<Rightarrow> [] | Some t \<Rightarrow> t)))))"

definition evaluateToJSON :: "'n float_ops \<Rightarrow> 'n val list \<Rightarrow> eval_error + 'n val" where
  "evaluateToJSON ops args =
     (case args of
        [] \<Rightarrow> Inl Panic
      | v # _ \<Rightarrow>
          (case json_encode ops (interfaceValue v) of
             Inl e \<Rightarrow> Inl (JsonFailed e)
           | Inr out \<Rightarrow>
               (let t = trim_suffix out [CHR 0x0A]
                in if length t > maxEvaluationStringBytes then Inl SizeExceeded
                   else Inr (Val (containsSensitive v) (StrV t)))))"

definition evaluateFromJSON :: "'n float_ops \<Rightarrow> nat list \<Rightarrow> 'n val list \<Rightarrow> eval_error + 'n val" where
  "evaluateFromJSON ops pos args =
     (case args of
        [] \<Rightarrow> Inl Panic
      | v # _ \<Rightarrow>
          (case stringValue ops v of
             None \<Rightarrow> Inl (NotScalar ''fromJSON value'')
           | Some t \<Rightarrow>
               if length t > maxEvaluationStringBytes then Inl SizeExceeded
               else case json_decode ops t of
                 Inl (JsonError e) \<Rightarrow> Inl (JsonFailed e)
               | Inl JsonTrailing \<Rightarrow> Inl JsonMultiple
               | Inr x \<Rightarrow> Inr (normalize (NodeAddr pos) [] x (sensitive v))))"

text \<open>One turn of the loop of \<^verbatim>\<open>evaluateFormat\<close>: what the template starts with, and its rest.\<close>

datatype format_part = FormatEnd | FormatText string string | FormatArgument int string | FormatBad

definition format_piece :: "string \<Rightarrow> format_part" where
  "format_piece fmt =
     (case fmt of
        [] \<Rightarrow> FormatEnd
      | c # cs \<Rightarrow>
          if has_prefix fmt ''{{'' then FormatText ''{'' (drop 2 fmt)
          else if has_prefix fmt ''}}'' then FormatText ''}'' (drop 2 fmt)
          else if c = CHR ''{'' then
            (case str_index cs ''}'' of
               None \<Rightarrow> FormatBad
             | Some n \<Rightarrow> (case atoi (take n cs) of None \<Rightarrow> FormatBad | Some k \<Rightarrow> FormatArgument k (drop (Suc n) cs)))
          else if c = CHR ''}'' then FormatBad
          else FormatText [c] cs)"

lemma format_piece_shorter:
  "format_piece fmt = FormatText t rest \<Longrightarrow> length rest < length fmt"
  "format_piece fmt = FormatArgument k rest \<Longrightarrow> length rest < length fmt"
  by (cases fmt; auto simp: format_piece_def split: if_splits option.splits)+

function format_loop :: "'n float_ops \<Rightarrow> 'n val list \<Rightarrow> string \<Rightarrow> string \<Rightarrow> bool \<Rightarrow> eval_error + 'n val" where
  "format_loop ops args fmt acc s =
     (case format_piece fmt of
        FormatEnd \<Rightarrow> Inr (Val s (StrV acc))
      | FormatBad \<Rightarrow> Inl BadFormat
      | FormatText t rest \<Rightarrow> and_then (appendEvaluationString acc t) (\<lambda>acc. format_loop ops args rest acc s)
      | FormatArgument k rest \<Rightarrow>
          if k < 0 \<or> k + 1 \<ge> int (length args) then Inl BadFormat
          else case stringValue ops (args ! nat (k + 1)) of
            None \<Rightarrow> Inl (NotScalar ''format replacement'')
          | Some t \<Rightarrow> and_then (appendEvaluationString acc t) (\<lambda>acc.
              format_loop ops args rest acc (s \<or> sensitive (args ! nat (k + 1)))))"
  by pat_completeness auto
termination
  by (relation "measure (\<lambda>(ops, args, fmt, acc, s). length fmt)") (auto dest: format_piece_shorter)

declare format_loop.simps [simp del]

definition evaluateFormat :: "'n float_ops \<Rightarrow> 'n val list \<Rightarrow> eval_error + 'n val" where
  "evaluateFormat ops args =
     (case args of
        [] \<Rightarrow> Inl Panic
      | v # _ \<Rightarrow>
          (case stringValue ops v of
             None \<Rightarrow> Inl (NotScalar ''format template'')
           | Some fmt \<Rightarrow> format_loop ops args fmt [] (sensitive v)))"

definition evaluateHashFiles :: "'n evaluation \<Rightarrow> 'n val list \<Rightarrow> eval_error + 'n val" where
  "evaluateHashFiles ev args =
     and_then (eval_context ev ''github'') (\<lambda>github.
       case lookupProperty github ''workspace'' of
         None \<Rightarrow> Inl WorkspaceUnavailable
       | Some w \<Rightarrow>
           (case stringValue (eval_ops ev) w of
              None \<Rightarrow> Inl WorkspaceInvalid
            | Some workspace \<Rightarrow>
                if workspace = [] then Inl WorkspaceInvalid
                else case and_then (hashFilePatterns (hash_match (eval_hash ev)) (map (stringValue (eval_ops ev)) args))
                            (hashWorkspaceFiles (eval_hash ev) workspace) of
                  Inl e \<Rightarrow> Inl (HashFailed e)
                | Inr digest \<Rightarrow> Inr (Val (list_ex sensitive args) (StrV digest))))"

section \<open>Validation and evaluation\<close>

definition status_name :: "string \<Rightarrow> bool" where
  "status_name n \<longleftrightarrow> n \<in> {''success'', ''always'', ''failure'', ''cancelled''}"

text \<open>The number of arguments a function takes: the least and, if there is one, the greatest.\<close>

definition arity :: "string \<Rightarrow> (nat \<times> nat option) option" where
  "arity n =
     (if n \<in> {''contains'', ''startswith'', ''endswith''} then Some (2, Some 2)
      else if n = ''format'' then Some (2, None)
      else if n = ''join'' then Some (1, Some 2)
      else if n \<in> {''tojson'', ''fromjson''} then Some (1, Some 1)
      else if n = ''hashfiles'' then Some (1, None)
      else if status_name n then Some (0, Some 0)
      else None)"

definition validate_call :: "Availability \<Rightarrow> string \<Rightarrow> nat \<Rightarrow> eval_error option" where
  "validate_call a name n =
     (let f = to_lower name
      in if f = ''hashfiles'' \<and> \<not> hashFiles a then Some (FunctionUnavailable name)
         else if status_name f \<and> \<not> statusFunctions a then Some (FunctionUnavailable name)
         else case arity f of
           None \<Rightarrow> Some (UnsupportedFunction name)
         | Some (least, greatest) \<Rightarrow>
             if n < least \<or> (case greatest of None \<Rightarrow> False | Some g \<Rightarrow> n > g) then Some (WrongArguments name) else None)"

fun validate :: "Availability \<Rightarrow> 'n node \<Rightarrow> eval_error option"
  and validate_args :: "Availability \<Rightarrow> 'n node list \<Rightarrow> eval_error option" where
  "validate a (LiteralNode v) = None"
| "validate a WildcardNode = None"
| "validate a (ContextNode name) = (if allowsContext a name then None else Some (ContextUnavailable name))"
| "validate a (PropertyNode t name) = validate a t"
| "validate a (IndexNode t i) = (case validate a t of Some e \<Rightarrow> Some e | None \<Rightarrow> validate a i)"
| "validate a (UnaryNode t) = validate a t"
| "validate a (BinaryNode k l r) = (case validate a l of Some e \<Rightarrow> Some e | None \<Rightarrow> validate a r)"
| "validate a (CallNode name args) =
     (case validate_call a name (length args) of Some e \<Rightarrow> Some e | None \<Rightarrow> validate_args a args)"
| "validate_args a [] = None"
| "validate_args a (n # ns) = (case validate a n of Some e \<Rightarrow> Some e | None \<Rightarrow> validate_args a ns)"

definition evaluate_index :: "'n float_ops \<Rightarrow> nat list \<Rightarrow> 'n val \<Rightarrow> 'n val \<Rightarrow> eval_error + 'n val" where
  "evaluate_index ops pos v index =
     (case (body v, array_position ops index) of
        (ArrV _ True items, _) \<Rightarrow> Inr (filteredIndex ops (NodeAddr pos []) (sensitive v) items index)
      | (ArrV _ False items, Some i) \<Rightarrow>
          Inr (case item_at items i of
                 Some item \<Rightarrow> mark (sensitive v \<or> sensitive index) item
               | None \<Rightarrow> Val (sensitive v \<or> sensitive index) (StrV []))
      | _ \<Rightarrow>
          (case stringValue ops index of
             None \<Rightarrow> Inl IndexNotScalar
           | Some name \<Rightarrow> Inr (mark (sensitive index) (property ops (NodeAddr pos []) v name))))"

definition evaluate_operator :: "'n float_ops \<Rightarrow> tokenKind \<Rightarrow> 'n val \<Rightarrow> 'n val \<Rightarrow> eval_error + 'n val" where
  "evaluate_operator ops k l r =
     (let s = (sensitive l \<or> sensitive r);
          ordered = (\<lambda>test. Inr (bool_val s (case compare_values ops l r of None \<Rightarrow> False | Some c \<Rightarrow> test c)))
      in case k of
           equalToken \<Rightarrow> Inr (bool_val s (equal_values ops l r))
         | notEqualToken \<Rightarrow> Inr (bool_val s (\<not> equal_values ops l r))
         | lessToken \<Rightarrow> ordered (\<lambda>c. c < 0)
         | lessEqualToken \<Rightarrow> ordered (\<lambda>c. c \<le> 0)
         | greaterToken \<Rightarrow> ordered (\<lambda>c. c > 0)
         | greaterEqualToken \<Rightarrow> ordered (\<lambda>c. c \<ge> 0)
         | _ \<Rightarrow> Inl UnsupportedOperator)"

definition evaluate_status :: "'n evaluation \<Rightarrow> string \<Rightarrow> eval_error + 'n val" where
  "evaluate_status ev name =
     (let f = to_lower name
      in if f = ''always'' then Inr (bool_val False True)
         else case eval_status ev of
           None \<Rightarrow> Inl (StatusUnavailable name)
         | Some st \<Rightarrow> Inr (bool_val False
             (if f = ''success'' then status_success st else if f = ''failure'' then status_failure st else status_cancelled st)))"

definition evaluate_function :: "'n evaluation \<Rightarrow> nat list \<Rightarrow> string \<Rightarrow> 'n val list \<Rightarrow> eval_error + 'n val" where
  "evaluate_function ev pos name args =
     (let f = to_lower name; ops = eval_ops ev
      in if f = ''contains'' then evaluateContains ops args
         else if f = ''startswith'' then evaluateStartsWith ops args
         else if f = ''endswith'' then evaluateEndsWith ops args
         else if f = ''format'' then evaluateFormat ops args
         else if f = ''join'' then evaluateJoin ops args
         else if f = ''tojson'' then evaluateToJSON ops args
         else if f = ''fromjson'' then evaluateFromJSON ops pos args
         else if f = ''hashfiles'' then evaluateHashFiles ev args
         else Inl (UnsupportedFunction name))"

fun is_wildcard :: "'n node \<Rightarrow> bool" where
  "is_wildcard WildcardNode = True"
| "is_wildcard _ = False"

fun evaluate :: "'n evaluation \<Rightarrow> nat list \<Rightarrow> 'n node \<Rightarrow> eval_error + 'n val"
  and evaluate_args :: "'n evaluation \<Rightarrow> nat list \<Rightarrow> nat \<Rightarrow> 'n node list \<Rightarrow> eval_error + 'n val list" where
  "evaluate ev pos (LiteralNode v) = Inr v"
| "evaluate ev pos WildcardNode = Inl WildcardMisused"
| "evaluate ev pos (ContextNode name) = eval_context ev name"
| "evaluate ev pos (PropertyNode t name) =
     and_then (evaluate ev (pos @ [0]) t) (\<lambda>v. Inr (property (eval_ops ev) (NodeAddr pos []) v name))"
| "evaluate ev pos (IndexNode t i) =
     and_then (evaluate ev (pos @ [0]) t) (\<lambda>v.
       if is_wildcard i then Inr (wildcard (NodeAddr pos []) v)
       else and_then (evaluate ev (pos @ [1]) i) (\<lambda>index. evaluate_index (eval_ops ev) pos v index))"
| "evaluate ev pos (UnaryNode t) =
     and_then (evaluate ev (pos @ [0]) t) (\<lambda>v. Inr (bool_val (sensitive v) (\<not> truthy (eval_ops ev) v)))"
| "evaluate ev pos (BinaryNode k l r) =
     and_then (evaluate ev (pos @ [0]) l) (\<lambda>left.
       if k = andToken then
         (if \<not> truthy (eval_ops ev) left then Inr left
          else and_then (evaluate ev (pos @ [1]) r) (\<lambda>right. Inr (mark (sensitive left) right)))
       else if k = orToken then
         (if truthy (eval_ops ev) left then Inr left
          else and_then (evaluate ev (pos @ [1]) r) (\<lambda>right. Inr (mark (sensitive left) right)))
       else and_then (evaluate ev (pos @ [1]) r) (\<lambda>right. evaluate_operator (eval_ops ev) k left right))"
| "evaluate ev pos (CallNode name args) =
     (if status_name (to_lower name) then evaluate_status ev name
      else and_then (evaluate_args ev pos 0 args) (\<lambda>vs. evaluate_function ev pos name vs))"
| "evaluate_args ev pos i [] = Inr []"
| "evaluate_args ev pos i (n # ns) =
     and_then (evaluate ev (pos @ [i]) n) (\<lambda>v. and_then (evaluate_args ev pos (Suc i) ns) (\<lambda>vs. Inr (v # vs)))"

section \<open>Templates and conditions\<close>

datatype (dead 'n) segment = LiteralSegment string | ExpressionSegment "'n node"

record 'n Program =
  prog_segments :: "'n segment list"
  whole :: bool

datatype template_error =
    NestedExpression nat
  | NotClosed nat
  | EmptyExpression nat
  | ExpressionError nat parse_error
  | ConditionError parse_error
  | NotOneExpression
  | ConditionEmpty

fun expressionEnd :: "nat \<Rightarrow> bool \<Rightarrow> nat \<Rightarrow> string \<Rightarrow> template_error + nat" where
  "expressionEnd column quoted i [] = Inl (NotClosed column)"
| "expressionEnd column quoted i (c # cs) =
     (if c = CHR 0x27 then
        (if quoted \<and> has_prefix cs [CHR 0x27] then
           (case cs of [] \<Rightarrow> Inl (NotClosed column) | _ # ds \<Rightarrow> expressionEnd column quoted (i + 2) ds)
         else expressionEnd column (\<not> quoted) (i + 1) cs)
      else if quoted then expressionEnd column quoted (i + 1) cs
      else if has_prefix (c # cs) ''${{'' then Inl (NestedExpression (i + 1))
      else if has_prefix (c # cs) ''}}'' then Inr i
      else expressionEnd column quoted (i + 1) cs)"

lemma expressionEnd_start: "expressionEnd column quoted i s = Inr e \<Longrightarrow> i \<le> e"
proof (induction s arbitrary: quoted i rule: length_induct)
  case (1 s)
  then have IH: "expressionEnd column q k t = Inr e \<Longrightarrow> length t < length s \<Longrightarrow> k \<le> e" for q k t by blast
  show ?case
  proof (cases s)
    case (Cons c cs)
    with 1(2) show ?thesis by (auto split: if_splits list.splits dest!: IH)
  qed (use 1(2) in simp)
qed

text \<open>The loop of \<^verbatim>\<open>Parse\<close> at an offset, with the rest of the input.\<close>

function parse_loop :: "'n float_ops \<Rightarrow> nat \<Rightarrow> string \<Rightarrow> template_error + 'n segment list" where
  "parse_loop ops offset rest =
     (if rest = [] then Inr []
      else case str_index rest ''${{'' of
        None \<Rightarrow> Inr [LiteralSegment rest]
      | Some relative \<Rightarrow>
          (let start = offset + relative;
               before = (if relative > 0 then [LiteralSegment (take relative rest)] else [])
           in and_then (expressionEnd (start + 1) False (start + 3) (drop (relative + 3) rest)) (\<lambda>e.
                let source = trim_space (take (e - (start + 3)) (drop (relative + 3) rest))
                in if source = [] then Inl (EmptyExpression (start + 1))
                   else case parseExpression ops source of
                     Inl err \<Rightarrow> Inl (ExpressionError (start + 1) err)
                   | Inr parsed \<Rightarrow>
                       and_then (parse_loop ops (e + 2) (drop (e + 2 - offset) rest)) (\<lambda>more.
                         Inr (before @ ExpressionSegment parsed # more)))))"
  by pat_completeness auto
termination
proof (relation "measure (\<lambda>(ops, offset, rest). length rest)")
  fix ops :: "'n float_ops" and offset relative start e :: nat and rest :: string and before :: "'n segment list" and source parsed
  assume r: "rest \<noteq> []" and s: "start = offset + relative"
    and e: "expressionEnd (start + 1) False (start + 3) (drop (relative + 3) rest) = Inr e"
  from expressionEnd_start [OF e] s have "e + 2 - offset > 0" by simp
  moreover obtain x xs where "rest = x # xs" using r by (cases rest) auto
  ultimately show "((ops, e + 2, drop (e + 2 - offset) rest), ops, offset, rest) \<in> measure (\<lambda>(ops, offset, rest). length rest)"
    by simp
qed simp

declare parse_loop.simps [simp del]

definition ParseTemplate :: "'n float_ops \<Rightarrow> string \<Rightarrow> template_error + 'n Program" where
  "ParseTemplate ops input =
     and_then (parse_loop ops 0 input) (\<lambda>segs.
       let segs = (if length input = 0 then segs @ [LiteralSegment []] else segs)
       in Inr \<lparr>prog_segments = segs, whole = (case segs of [ExpressionSegment _] \<Rightarrow> True | _ \<Rightarrow> False)\<rparr>)"

definition ParseCondition :: "'n float_ops \<Rightarrow> string \<Rightarrow> template_error + 'n Program" where
  "ParseCondition ops input =
     (let trimmed = trim_space input
      in if has_prefix trimmed ''${{'' then
           and_then (ParseTemplate ops trimmed) (\<lambda>p. if \<not> whole p then Inl NotOneExpression else Inr p)
         else if trimmed = [] then Inl ConditionEmpty
         else case parseExpression ops trimmed of
           Inl e \<Rightarrow> Inl (ConditionError e)
         | Inr n \<Rightarrow> Inr \<lparr>prog_segments = [ExpressionSegment n], whole = True\<rparr>)"

fun usesStatusFunction :: "'n node \<Rightarrow> bool" where
  "usesStatusFunction (PropertyNode t n) = usesStatusFunction t"
| "usesStatusFunction (IndexNode t i) = (usesStatusFunction t \<or> usesStatusFunction i)"
| "usesStatusFunction (UnaryNode t) = usesStatusFunction t"
| "usesStatusFunction (BinaryNode k l r) = (usesStatusFunction l \<or> usesStatusFunction r)"
| "usesStatusFunction (CallNode name args) = (status_name (to_lower name) \<or> list_ex usesStatusFunction args)"
| "usesStatusFunction _ = False"

fun usesContext :: "string \<Rightarrow> 'n node \<Rightarrow> bool" where
  "usesContext name (ContextNode n) = equal_fold n name"
| "usesContext name (PropertyNode t n) = usesContext name t"
| "usesContext name (IndexNode t i) = (usesContext name t \<or> usesContext name i)"
| "usesContext name (UnaryNode t) = usesContext name t"
| "usesContext name (BinaryNode k l r) = (usesContext name l \<or> usesContext name r)"
| "usesContext name (CallNode f args) = list_ex (usesContext name) args"
| "usesContext name _ = False"

definition segment_nodes :: "'n Program \<Rightarrow> 'n node list" where
  "segment_nodes p = List.map_filter (\<lambda>s. case s of ExpressionSegment n \<Rightarrow> Some n | LiteralSegment _ \<Rightarrow> None) (prog_segments p)"

definition UsesStatusFunction :: "'n Program \<Rightarrow> bool" where
  "UsesStatusFunction p = list_ex usesStatusFunction (segment_nodes p)"

definition UsesContext :: "'n Program \<Rightarrow> string \<Rightarrow> bool" where
  "UsesContext p name = list_ex (usesContext name) (segment_nodes p)"

definition Validate :: "'n Program \<Rightarrow> Availability \<Rightarrow> eval_error option" where
  "Validate p a = validate_args a (segment_nodes p)"

record 'n EvalResult =
  result_any :: "'n any"
  Secret :: bool

fun template_loop :: "'n evaluation \<Rightarrow> nat \<Rightarrow> 'n segment list \<Rightarrow> string \<Rightarrow> bool \<Rightarrow> eval_error + 'n EvalResult" where
  "template_loop ev i [] acc s = Inr \<lparr>result_any = StrAny acc, Secret = s\<rparr>"
| "template_loop ev i (LiteralSegment t # segs) acc s =
     and_then (appendEvaluationString acc t) (\<lambda>acc. template_loop ev (Suc i) segs acc s)"
| "template_loop ev i (ExpressionSegment n # segs) acc s =
     and_then (evaluate ev [i] n) (\<lambda>v.
       case stringValue (eval_ops ev) v of
         None \<Rightarrow> Inl (NotScalar ''interpolation'')
       | Some t \<Rightarrow> and_then (appendEvaluationString acc t) (\<lambda>acc. template_loop ev (Suc i) segs acc (s \<or> sensitive v)))"

definition evaluate_whole :: "'n evaluation \<Rightarrow> 'n node \<Rightarrow> eval_error + 'n EvalResult" where
  "evaluate_whole ev n =
     and_then (evaluate ev [0] n) (\<lambda>v.
       if (case body v of StrV t \<Rightarrow> length t > maxEvaluationStringBytes | _ \<Rightarrow> False) then Inl SizeExceeded
       else Inr \<lparr>result_any = interfaceValue v, Secret = containsSensitive v\<rparr>)"

definition Evaluate :: "'n float_ops \<Rightarrow> hash_env \<Rightarrow> 'n Program \<Rightarrow> 'n Context \<Rightarrow> eval_error + 'n EvalResult" where
  "Evaluate ops h p c =
     (case Validate p (availability c) of
        Some e \<Rightarrow> Inl e
      | None \<Rightarrow>
          (let ev = newEvaluation ops h c
           in case (whole p, prog_segments p) of
                (True, ExpressionSegment n # _) \<Rightarrow> evaluate_whole ev n
              | _ \<Rightarrow> template_loop ev 0 (prog_segments p) [] False))"

definition result_value :: "'n EvalResult \<Rightarrow> 'n val" where
  "result_value r = normalize (NodeAddr []) [] (result_any r) (Secret r)"

definition result_string :: "'n float_ops \<Rightarrow> 'n EvalResult \<Rightarrow> string option" where
  "result_string ops r = stringValue ops (result_value r)"

definition result_bool :: "'n float_ops \<Rightarrow> 'n EvalResult \<Rightarrow> bool" where
  "result_bool ops r = truthy ops (result_value r)"

definition Redacted :: "'n EvalResult \<Rightarrow> 'n any" where
  "Redacted r = (if Secret r then StrAny ''***'' else result_any r)"


section \<open>A concrete instance\<close>

text \<open>
  Whole numbers with a value that is not a number, for evaluating the definitions on examples. JSON is not encoded or decoded here.
\<close>

definition whole_ops :: "int option float_ops" where
  "whole_ops =
     \<lparr>fl_zero = Some 0, fl_one = Some 1, fl_nan = None, fl_isnan = Option.is_none,
      fl_eq = (\<lambda>x y. x = y \<and> \<not> Option.is_none x),
      fl_less = (\<lambda>x y. case (x, y) of (Some a, Some b) \<Rightarrow> a < b | _ \<Rightarrow> False),
      fl_integral = (\<lambda>x. \<not> Option.is_none x), fl_int = (\<lambda>x. case x of None \<Rightarrow> 0 | Some a \<Rightarrow> a),
      fl_neg = map_option uminus, fl_of_nat = (\<lambda>n. Some (int n)), fl_parse = (\<lambda>s. map_option Some (atoi s)),
      fl_format = (\<lambda>x. case x of None \<Rightarrow> ''NaN'' | Some a \<Rightarrow> int_str a),
      json_encode = (\<lambda>x. Inl ''unsupported''), json_decode = (\<lambda>s. Inl (JsonError ''unsupported''))\<rparr>"

definition no_files :: hash_env where
  "no_files = \<lparr>hash_match = (\<lambda>p s. Some (p = s)), hash_root = (\<lambda>w. Inr (w, [])), hash_sum = (\<lambda>s. s)\<rparr>"
end
