(* ===== verification/ExprSafety.thy ===== *)
theory ExprSafety
  imports ExprEval
begin

text \<open>
  What the evaluation of expressions guarantees: a value that is not marked as secret does not depend on
  secrets, evaluation of parsed expressions has no internal errors, and results are bounded.
\<close>

section \<open>Values that agree up to secrets\<close>

text \<open>
  Two values agree up to secrets when they have the same content, except that strings marked as secret
  on both sides may differ. At the top, two values that are both marked agree whatever they are.
\<close>

inductive agree :: "'n val \<Rightarrow> 'n val \<Rightarrow> bool" where
  hidden: "agree (Val True (StrV s)) (Val True (StrV t))"
| null: "agree (Val p NullV) (Val q NullV)"
| bool: "agree (Val p (BoolV b)) (Val q (BoolV b))"
| num: "agree (Val p (NumV n)) (Val q (NumV n))"
| str: "agree (Val p (StrV s)) (Val q (StrV s))"
| arr: "list_all2 agree xs ys \<Longrightarrow> agree (Val p (ArrV a f xs)) (Val q (ArrV a f ys))"
| obj: "list_all2 (\<lambda>x y. fst x = fst y \<and> agree (snd x) (snd y)) xs ys \<Longrightarrow> agree (Val p (ObjV a xs)) (Val q (ObjV a ys))"
monos list_all2_mono

definition low :: "'n val \<Rightarrow> 'n val \<Rightarrow> bool" where
  "low v w \<longleftrightarrow> sensitive v \<and> sensitive w \<or> agree v w"

abbreviation agree_fields :: "(string \<times> 'n val) list \<Rightarrow> (string \<times> 'n val) list \<Rightarrow> bool" where
  "agree_fields \<equiv> list_all2 (\<lambda>x y. fst x = fst y \<and> agree (snd x) (snd y))"

inductive_simps agree_simps:
  "agree (Val p NullV) w" "agree (Val p (BoolV b)) w" "agree (Val p (NumV n)) w"
  "agree (Val p (ArrV a f xs)) w" "agree (Val p (ObjV a fs)) w"

lemma agree_strE:
  assumes "agree (Val p (StrV s)) w"
  obtains (hid) t where "p" "w = Val True (StrV t)" | (same) q where "w = Val q (StrV s)"
  using assms by (cases rule: agree.cases) auto

lemma agree_refl: "agree v v"
proof (induction v rule: measure_induct_rule [where f = size])
  case (less v)
  obtain p b where v: "v = Val p b" by (cases v)
  show ?case
  proof (cases b)
    case (ArrV a f xs)
    have "size x < size v" if "x \<in> set xs" for x
      using size_list_estimation' [OF that order_refl, of size] by (simp add: v ArrV)
    then have "list_all2 agree xs xs" using less by (intro list.rel_refl_strong) simp
    then show ?thesis by (simp add: v ArrV agree.arr)
  next
    case (ObjV a fs)
    have "size (snd x) < size v" if "x \<in> set fs" for x
    proof -
      have "size_prod (\<lambda>_. 0) size x \<le> size_list (size_prod (\<lambda>_. 0) size) fs"
        by (rule size_list_estimation' [OF that order_refl])
      then show ?thesis by (cases x) (simp add: v ObjV)
    qed
    then have "agree_fields fs fs" using less by (intro list.rel_refl_strong) simp
    then show ?thesis by (simp add: v ObjV agree.obj)
  qed (simp_all add: v agree.intros)
qed

lemma low_refl [simp]: "low v v" by (simp add: low_def agree_refl)

lemma low_agree: "agree v w \<Longrightarrow> low v w" by (simp add: low_def)

lemma agree_mark: "agree v w \<Longrightarrow> agree (mark p v) (mark q w)"
  by (erule agree.cases) (simp_all add: mark_def agree.intros)

lemma agree_sensitive_body: "agree v w \<Longrightarrow> agree (Val p (body v)) (Val q (body w)) \<or> sensitive v \<and> sensitive w"
  by (erule agree.cases) (auto intro: agree.intros)

lemma low_mark: "low v w \<Longrightarrow> low (mark p v) (mark q w)"
  by (auto simp: low_def mark_def dest: agree_mark [of v w p q])

lemma low_marked [simp]: "low (mark True v) (mark True w)" by (simp add: low_def mark_def)

lemma low_flagged: "sensitive v \<Longrightarrow> sensitive w \<Longrightarrow> low v w" by (simp add: low_def)

text \<open>Where two values that agree are not both hidden strings, every view of them is the same.\<close>

lemma agree_views:
  assumes "agree v w" "\<not> (sensitive v \<and> sensitive w)"
  shows "truthy ops v = truthy ops w" "stringValue ops v = stringValue ops w"
    "joinStringValue ops v = joinStringValue ops w" "numberValue ops v = numberValue ops w"
    "array_position ops v = array_position ops w"
proof -
  show "truthy ops v = truthy ops w" using assms by (elim agree.cases) (auto simp: truthy_def)
  show s: "stringValue ops v = stringValue ops w" using assms by (elim agree.cases) (auto simp: stringValue_def)
  show "joinStringValue ops v = joinStringValue ops w"
    unfolding joinStringValue_def s using assms by (elim agree.cases) (auto split: option.split)
  show "numberValue ops v = numberValue ops w" using assms by (elim agree.cases) (auto simp: numberValue_def)
  show "array_position ops v = array_position ops w" using assms by (elim agree.cases) (auto simp: array_position_def)
qed

section \<open>Property access and wildcards\<close>

lemma map_of_agree: "agree_fields fs gs \<Longrightarrow> rel_option agree (map_of fs n) (map_of gs n)"
  by (induction rule: list_all2_induct) auto

lemma find_agree:
  "agree_fields fs gs \<Longrightarrow> rel_option (\<lambda>x y. fst x = fst y \<and> agree (snd x) (snd y)) (find (\<lambda>(k, v). P k) fs) (find (\<lambda>(k, v). P k) gs)"
  by (induction rule: list_all2_induct) auto

lemma find_field_agree:
  assumes "agree_fields fs gs"
  shows "rel_option agree (find_field fs n) (find_field gs n)"
proof -
  have "rel_option agree (map_option snd (find (\<lambda>(k, v). equal_fold k n) fs)) (map_option snd (find (\<lambda>(k, v). equal_fold k n) gs))"
    using find_agree [OF assms, of "\<lambda>k. equal_fold k n"] by (auto simp: option_rel_Some1 option_rel_Some2 elim: option.rel_cases)
  with map_of_agree [OF assms, of n] show ?thesis
    unfolding find_field_def by (auto elim: option.rel_cases split: option.splits)
qed

lemma lookup_agree: "agree v w \<Longrightarrow> rel_option agree (lookupProperty v n) (lookupProperty w n)"
proof (erule agree.cases, goal_cases)
  case (7 xs ys p a q)
  with find_field_agree [OF 7(3), of n] show ?case
    by (auto simp: lookupProperty_def option.rel_map agree_mark elim: option.rel_cases)
qed (simp_all add: lookupProperty_def)

lemma lookup_marks: "lookupProperty v n = Some x \<Longrightarrow> sensitive v \<Longrightarrow> sensitive x"
  by (auto simp: lookupProperty_def mark_def split: val_body.splits)

lemma item_at_agree: "list_all2 agree xs ys \<Longrightarrow> rel_option agree (item_at xs i) (item_at ys i)"
  by (auto simp: item_at_def list_all2_lengthD intro: list_all2_nthD)

lemma filtered_item_agree:
  assumes "agree c d" "stringValue ops i = stringValue ops j" "array_position ops i = array_position ops j"
  shows "rel_option agree (filtered_item ops i c) (filtered_item ops j d)"
  using assms(1)
proof (cases rule: agree.cases)
  case (arr xs ys p a f q)
  then show ?thesis using assms(3) item_at_agree [OF arr(3)]
    by (auto simp: filtered_item_def split: option.split)
next
  case (obj xs ys p a q)
  then show ?thesis using assms(1,2) lookup_agree
    by (auto simp: filtered_item_def split: option.split)
qed (simp_all add: filtered_item_def)

lemma map_filter_agree:
  "list_all2 agree xs ys \<Longrightarrow> (\<And>x y. agree x y \<Longrightarrow> rel_option agree (f x) (g y)) \<Longrightarrow>
     list_all2 agree (List.map_filter f xs) (List.map_filter g ys)"
proof (induction rule: list_all2_induct)
  case (Cons x xs y ys)
  from Cons.prems [OF Cons.hyps(1)] show ?case
    using Cons by (cases rule: option.rel_cases) (auto simp: map_filter_simps)
qed (simp add: map_filter_simps)

lemma filteredIndex_low:
  assumes "list_all2 agree xs ys" "low i j"
  shows "low (filteredIndex ops a p xs i) (filteredIndex ops a q ys j)"
proof (cases "sensitive i \<and> sensitive j")
  case False
  with assms(2) have "agree i j" by (auto simp: low_def)
  from agree_views(2,5) [OF this False] filtered_item_agree map_filter_agree [OF assms(1)]
  have "list_all2 agree (List.map_filter (filtered_item ops i) xs) (List.map_filter (filtered_item ops j) ys)" by blast
  then show ?thesis by (simp add: filteredIndex_def low_def agree.arr)
qed (simp add: filteredIndex_def low_def)

lemma property_flagged: "sensitive v \<Longrightarrow> sensitive (property ops a v n)"
  by (cases "lookupProperty v n")
    (auto simp: property_def filteredIndex_def dest: lookup_marks split: val_body.split bool.split)

lemma property_low:
  assumes "low v w"
  shows "low (property ops a v n) (property ops a w n)"
proof (cases "sensitive v \<and> sensitive w")
  case True
  then show ?thesis by (simp add: low_flagged property_flagged)
next
  case False
  with assms have ag: "agree v w" by (auto simp: low_def)
  show ?thesis
  proof (cases "\<exists>b items. body v = ArrV b True items")
    case True
    then obtain b xs where xs: "body v = ArrV b True xs" by blast
    with ag obtain ys where "body w = ArrV b True ys" "list_all2 agree xs ys" by (auto elim: agree.cases)
    with xs show ?thesis by (simp add: property_def filteredIndex_low)
  next
    case no: False
    with ag have no': "\<nexists>b items. body w = ArrV b True items" by (auto elim: agree.cases)
    have "property ops a u n = (case lookupProperty u n of Some x \<Rightarrow> x | None \<Rightarrow> Val (sensitive u) (StrV []))"
      if "\<nexists>b items. body u = ArrV b True items" for u
      using that by (auto simp: property_def split: val_body.split bool.split)
    with no no' lookup_agree [OF ag, of n] show ?thesis
      by (auto simp: low_agree agree.str elim: option.rel_cases)
  qed
qed

lemma sort_key_agree: "agree_fields fs gs \<Longrightarrow> agree_fields (sort_key fst fs) (sort_key fst gs)"
proof (induction rule: list_all2_induct)
  case (Cons x xs y ys)
  have "agree_fields (insort_key fst x us) (insort_key fst y vs)" if "agree_fields us vs" for us vs
    using that Cons.hyps(1) by (induction rule: list_all2_induct) auto
  with Cons.IH show ?case by simp
qed simp

lemma wildcard_items_agree: "agree v w \<Longrightarrow> list_all2 agree (wildcard_items v) (wildcard_items w)"
proof (induction rule: agree.induct)
  case (arr xs ys p a f q)
  have "list_all2 agree (concat (map wildcard_items xs)) (concat (map wildcard_items ys))"
    using arr by (induction rule: list_all2_induct) (auto intro: list_all2_appendI)
  moreover have "list_all2 agree xs ys" using arr by (rule list_all2_mono) simp
  ultimately show ?case by simp
next
  case (obj xs ys p a q)
  then have "agree_fields xs ys" by (rule list_all2_mono) simp
  from sort_key_agree [OF this] show ?case by (simp add: list.rel_map list_all2_mono)
qed simp_all

lemma wildcard_low: "low v w \<Longrightarrow> low (wildcard a v) (wildcard a w)"
  by (auto simp: low_def wildcard_def intro: agree.arr wildcard_items_agree)

lemma index_cases:
  assumes "evaluate_index ops pos v i = Inr x"
  shows "(\<exists>a items. body v = ArrV a True items \<and> x = filteredIndex ops (NodeAddr pos []) (sensitive v) items i) \<or>
    (\<exists>a items k. body v = ArrV a False items \<and> array_position ops i = Some k \<and>
       x = (case item_at items k of Some y \<Rightarrow> mark (sensitive v \<or> sensitive i) y | None \<Rightarrow> Val (sensitive v \<or> sensitive i) (StrV []))) \<or>
    ((\<nexists>a items. body v = ArrV a True items) \<and> ((\<exists>a items. body v = ArrV a False items) \<longrightarrow> array_position ops i = None) \<and>
     (\<exists>n. stringValue ops i = Some n \<and> x = mark (sensitive i) (property ops (NodeAddr pos []) v n)))"
  using assms unfolding evaluate_index_def
  by (cases "body v") (auto split: option.splits bool.splits)

lemma index_flagged:
  assumes "evaluate_index ops pos v i = Inr x" "sensitive v \<or> sensitive i"
  shows "sensitive x"
  using index_cases [OF assms(1)] assms(2) property_flagged [of v ops "NodeAddr pos []"]
  by (auto simp: filteredIndex_def mark_def split: option.splits)

lemma index_agree:
  assumes v: "agree v w" and i: "agree i j" "\<not> (sensitive i \<and> sensitive j)"
    and x: "evaluate_index ops pos v i = Inr x" and y: "evaluate_index ops pos w j = Inr y"
  shows "low x y"
proof -
  note view = agree_views(2,5) [OF i, of ops]
  have "low i j" using i(1) by (rule low_agree)
  from v show ?thesis
  proof (cases rule: agree.cases)
    case (arr xs ys p a f q)
    show ?thesis
    proof (cases f)
      case True
      with arr x y \<open>low i j\<close> show ?thesis by (auto simp: evaluate_index_def filteredIndex_low)
    next
      case False
      show ?thesis
      proof (cases "array_position ops i")
        case None
        with False arr x y view obtain n where "x = mark (sensitive i) (property ops (NodeAddr pos []) v n)"
            "y = mark (sensitive j) (property ops (NodeAddr pos []) w n)"
          by (auto simp: evaluate_index_def split: option.splits)
        with property_low [OF low_agree [OF v]] show ?thesis by (simp add: low_mark)
      next
        case (Some k)
        with False arr x y view item_at_agree [OF arr(3), of k] show ?thesis
          by (auto simp: evaluate_index_def low_agree agree_mark agree.str elim: option.rel_cases split: option.splits)
      qed
    qed
  next
    case (obj xs ys p a q)
    with x y view obtain n where "x = mark (sensitive i) (property ops (NodeAddr pos []) v n)"
        "y = mark (sensitive j) (property ops (NodeAddr pos []) w n)"
      by (auto simp: evaluate_index_def split: option.splits)
    with property_low [OF low_agree [OF v]] show ?thesis by (simp add: low_mark)
  qed (use x y view in \<open>auto simp: evaluate_index_def low_mark property_low low_agree agree.intros split: option.splits\<close>)
qed

lemma index_low:
  assumes "low v w" "low i j" "evaluate_index ops pos v i = Inr x" "evaluate_index ops pos w j = Inr y"
  shows "low x y"
proof (cases "(sensitive v \<and> sensitive w) \<or> (sensitive i \<and> sensitive j)")
  case True
  with index_flagged [OF assms(3)] index_flagged [OF assms(4)] show ?thesis by (auto intro: low_flagged)
next
  case False
  with assms index_agree [of v w i j ops pos x y] show ?thesis by (auto simp: low_def)
qed

section \<open>Operators and functions\<close>

lemma equal_values_agree:
  assumes "agree a c" "\<not> (sensitive a \<and> sensitive c)" "agree b d" "\<not> (sensitive b \<and> sensitive d)"
  shows "equal_values ops a b = equal_values ops c d"
  using assms(1)
proof (cases rule: agree.cases)
  case (hidden s t) with assms(2) show ?thesis by simp
qed (use assms(3) agree_views(4) [OF assms(1,2), of ops] agree_views(4) [OF assms(3,4), of ops] assms(4) in
  \<open>auto simp: equal_values_def elim!: agree.cases\<close>)

lemma compare_values_agree:
  assumes "agree a c" "\<not> (sensitive a \<and> sensitive c)" "agree b d" "\<not> (sensitive b \<and> sensitive d)"
  shows "compare_values ops a b = compare_values ops c d"
  using assms(1)
proof (cases rule: agree.cases)
  case (hidden s t) with assms(2) show ?thesis by simp
qed (use assms(3) agree_views(4) [OF assms(1,2), of ops] agree_views(4) [OF assms(3,4), of ops] assms(4) in
  \<open>auto simp: compare_values_def elim!: agree.cases\<close>)

lemma operator_bool:
  "evaluate_operator ops k l r = Inr x \<Longrightarrow> \<exists>b. x = bool_val (sensitive l \<or> sensitive r) b \<and>
     (\<forall>l' r' y. equal_values ops l r = equal_values ops l' r' \<longrightarrow> compare_values ops l r = compare_values ops l' r' \<longrightarrow>
        evaluate_operator ops k l' r' = Inr y \<longrightarrow> y = bool_val (sensitive l' \<or> sensitive r') b)"
  by (cases k) (auto simp: evaluate_operator_def Let_def)

lemma operator_low:
  assumes "low a c" "low b d" "evaluate_operator ops k a b = Inr x" "evaluate_operator ops k c d = Inr y"
  shows "low x y"
proof (cases "(sensitive a \<and> sensitive c) \<or> (sensitive b \<and> sensitive d)")
  case True
  with operator_bool [OF assms(3)] operator_bool [OF assms(4)] show ?thesis by (auto simp: bool_val_def low_def)
next
  case False
  with assms(1,2) have "equal_values ops a b = equal_values ops c d" "compare_values ops a b = compare_values ops c d"
    by (auto simp: low_def equal_values_agree compare_values_agree)
  with operator_bool [OF assms(3)] assms(4) show ?thesis by (auto simp: bool_val_def low_def intro: agree.bool)
qed

lemma contains_item_flag: "s \<Longrightarrow> sensitive (contains_item ops s seen items x)"
  by (induction items arbitrary: seen) (simp_all add: bool_val_def)

lemma contains_item_seen:
  "case contains_item ops s seen items x of Val p (BoolV b) \<Rightarrow> seen \<longrightarrow> p \<or> b | _ \<Rightarrow> False"
proof (induction items arbitrary: seen)
  case (Cons c items)
  show ?case using Cons.IH [of "seen \<or> sensitive c"] by (auto simp: bool_val_def split: val.splits val_body.splits)
qed (simp add: bool_val_def)

lemma contains_hit_low:
  assumes "sensitive c"
  shows "low (bool_val (s \<or> sensitive c) True) (contains_item ops s' True ys j)"
    and "low (contains_item ops s' True ys j) (bool_val (s \<or> sensitive c) True)"
  using contains_item_seen [where ops = ops and s = s' and seen = True and items = ys and x = j] assms
  by (auto simp: low_def bool_val_def intro: agree.bool split: val.splits val_body.splits)

lemma contains_item_low:
  assumes "agree i j" "\<not> (sensitive i \<and> sensitive j)"
  shows "list_all2 agree xs ys \<Longrightarrow> low (contains_item ops s p xs i) (contains_item ops s' q ys j)"
proof (induction arbitrary: p q rule: list_all2_induct)
  case Nil
  show ?case by (simp add: bool_val_def low_agree agree.bool)
next
  case (Cons c xs d ys)
  show ?case
  proof (cases "sensitive c \<and> sensitive d")
    case True
    with Cons.IH [of True True] contains_hit_low [of c, where s = s and s' = s' and ys = ys and j = j]
      contains_hit_low [of d, where s = s' and s' = s and ys = xs and j = i]
    show ?thesis by (auto simp: bool_val_def low_def)
  next
    case False
    with Cons.hyps(1) assms have "equal_values ops c i = equal_values ops d j" by (intro equal_values_agree) simp_all
    with Cons.IH show ?thesis by (simp add: bool_val_def low_agree agree.bool)
  qed
qed

lemma str_views:
  assumes "low v w" "\<not> (sensitive v \<and> sensitive w)"
  shows "stringValue ops v = stringValue ops w" "truthy ops v = truthy ops w" "agree v w"
  using assms agree_views(1,2) [of v w ops] by (auto simp: low_def)

lemma contains_low:
  assumes "list_all2 low args brgs" "evaluateContains ops args = Inr x" "evaluateContains ops brgs = Inr y"
  shows "low x y"
proof -
  from assms(2) obtain v i r where a: "args = v # i # r" by (auto simp: evaluateContains_def split: list.splits)
  with assms(1) obtain w j r' where b: "brgs = w # j # r'" and l: "low v w" "low i j" by (auto simp: list_all2_Cons1)
  have flag: "sensitive z" if "evaluateContains ops (u # k # t) = Inr z" "sensitive u \<or> sensitive k" for u k t z
    using that by (auto simp: evaluateContains_def Let_def bool_val_def contains_item_flag split: val_body.splits option.splits)
  show ?thesis
  proof (cases "(sensitive v \<and> sensitive w) \<or> (sensitive i \<and> sensitive j)")
    case True
    with flag assms(2,3) a b show ?thesis by (intro low_flagged) auto
  next
    case False
    note i = str_views(1) [OF l(2), of ops] str_views(3) [OF l(2)]
    from l(1) False have "agree v w" by (auto simp: low_def)
    then show ?thesis
    proof (cases rule: agree.cases)
      case (arr xs ys p c f q)
      with assms(2,3) a b contains_item_low [of i j xs ys] i False show ?thesis
        by (auto simp: evaluateContains_def Let_def)
    qed (use assms(2,3) a b False i in
      \<open>auto simp: evaluateContains_def Let_def bool_val_def low_def stringValue_def intro: agree.intros split: option.splits\<close>)
  qed
qed

lemma two_args:
  assumes "list_all2 low args brgs" "args = v # i # r"
  obtains w j r' where "brgs = w # j # r'" "low v w" "low i j"
  using assms by (auto simp: list_all2_Cons1)

lemma startswith_low:
  assumes "list_all2 low args brgs" "evaluateStartsWith ops args = Inr x" "evaluateStartsWith ops brgs = Inr y"
  shows "low x y"
proof -
  from assms(2) obtain v i r where a: "args = v # i # r" by (auto simp: evaluateStartsWith_def split: list.splits)
  from two_args [OF assms(1) a] obtain w j r' where b: "brgs = w # j # r'" and l: "low v w" "low i j" .
  show ?thesis
  proof (cases "(sensitive v \<and> sensitive w) \<or> (sensitive i \<and> sensitive j)")
    case True
    with assms(2,3) show ?thesis
      by (auto simp: a b evaluateStartsWith_def bool_val_def low_def split: option.splits)
  next
    case False
    with str_views(1) [OF l(1), of ops] str_views(1) [OF l(2), of ops] assms(2,3) show ?thesis
      by (auto simp: a b evaluateStartsWith_def bool_val_def low_def intro: agree.bool split: option.splits)
  qed
qed

lemma endswith_low:
  assumes "list_all2 low args brgs" "evaluateEndsWith ops args = Inr x" "evaluateEndsWith ops brgs = Inr y"
  shows "low x y"
proof -
  from assms(2) obtain v i r where a: "args = v # i # r" by (auto simp: evaluateEndsWith_def split: list.splits)
  from two_args [OF assms(1) a] obtain w j r' where b: "brgs = w # j # r'" and l: "low v w" "low i j" .
  show ?thesis
  proof (cases "(sensitive v \<and> sensitive w) \<or> (sensitive i \<and> sensitive j)")
    case True
    with assms(2,3) show ?thesis
      by (auto simp: a b evaluateEndsWith_def bool_val_def low_def split: option.splits)
  next
    case False
    with str_views(1) [OF l(1), of ops] str_views(1) [OF l(2), of ops] assms(2,3) show ?thesis
      by (auto simp: a b evaluateEndsWith_def bool_val_def low_def intro: agree.bool split: option.splits)
  qed
qed

text \<open>Texts that are collected piece by piece: they are equal, or both are marked.\<close>

lemma join_loop_flag: "join_loop ops sep first items acc s = Inr x \<Longrightarrow> s \<Longrightarrow> sensitive x"
  by (induction items arbitrary: first acc s) (auto simp: and_then_eq_Inr)

lemma join_loop_low:
  "list_all2 agree xs ys \<Longrightarrow> join_loop ops sep first xs acc s = Inr x \<Longrightarrow> join_loop ops sep first ys acc s' = Inr y \<Longrightarrow> low x y"
proof (induction arbitrary: first acc s s' rule: list_all2_induct)
  case Nil
  then show ?case by (auto simp: low_agree agree.str)
next
  case (Cons v xs w ys)
  from Cons.prems obtain acc1 acc2 acc1' acc2' where
    a: "(if first then Inr acc else appendEvaluationString acc sep) = Inr acc1"
      "appendEvaluationString acc1 (joinStringValue ops v) = Inr acc2" "join_loop ops sep False xs acc2 (s \<or> sensitive v) = Inr x"
    and b: "(if first then Inr acc else appendEvaluationString acc sep) = Inr acc1'"
      "appendEvaluationString acc1' (joinStringValue ops w) = Inr acc2'" "join_loop ops sep False ys acc2' (s' \<or> sensitive w) = Inr y"
    by (auto simp: and_then_eq_Inr)
  from a(1) b(1) have "acc1' = acc1" by simp
  show ?case
  proof (cases "sensitive v \<and> sensitive w")
    case True
    with join_loop_flag [OF a(3)] join_loop_flag [OF b(3)] show ?thesis by (simp add: low_flagged)
  next
    case False
    with agree_views(3) [OF Cons.hyps(1), of ops] a(2) b(2) \<open>acc1' = acc1\<close> have "acc2' = acc2" by simp
    with Cons.IH [OF a(3)] b(3) show ?thesis by simp
  qed
qed

lemma join_low:
  assumes "list_all2 low args brgs" "evaluateJoin ops args = Inr x" "evaluateJoin ops brgs = Inr y"
  shows "low x y"
proof -
  from assms(2) obtain v r where a: "args = v # r" by (auto simp: evaluateJoin_def split: list.splits)
  with assms(1) obtain w r' where b: "brgs = w # r'" and l: "low v w" "list_all2 low r r'" by (auto simp: list_all2_Cons1)
  have flag: "sensitive z" if "evaluateJoin ops (u # t) = Inr z" "sensitive u" for u t z
    using that by (auto simp: evaluateJoin_def split: val_body.splits list.splits if_splits dest: join_loop_flag)
  show ?thesis
  proof (cases "sensitive v \<and> sensitive w")
    case True
    with flag assms(2,3) a b show ?thesis by (intro low_flagged) auto
  next
    case False
    from str_views(3) [OF l(1) False] show ?thesis
    proof (cases rule: agree.cases)
      case (arr xs ys p c f q)
      have len: "length xs = length ys" using arr(3) by (rule list_all2_lengthD)
      show ?thesis
      proof (cases "\<exists>i. r = [i] \<and> length xs > 1")
        case True
        then obtain i where i: "r = [i]" "length xs > 1" by blast
        with l(2) obtain j where j: "r' = [j]" "low i j" by (auto simp: list_all2_Cons1)
        show ?thesis
        proof (cases "sensitive i \<and> sensitive j")
          case True
          with i j arr a b len assms(2,3) show ?thesis
            by (auto simp: evaluateJoin_def intro!: low_flagged dest: join_loop_flag)
        next
          case False
          from str_views(1) [OF j(2) False, of ops] i j arr a b len assms(2,3) join_loop_low [OF arr(3)] show ?thesis
            by (auto simp: evaluateJoin_def)
        qed
      next
        case False
        then have "evaluateJoin ops args = join_loop ops '','' True xs [] p" "evaluateJoin ops brgs = join_loop ops '','' True ys [] q"
          using arr a b len l(2) by (auto simp: evaluateJoin_def list_all2_Cons1 list_all2_Cons2 split: list.split)
        with join_loop_low [OF arr(3)] assms(2,3) show ?thesis by auto
      qed
    qed (use assms(2,3) a b False in \<open>auto simp: evaluateJoin_def stringValue_def low_def intro: agree.intros\<close>)
  qed
qed

lemma contains_flag: "sensitive v \<Longrightarrow> containsSensitive v"
  by (cases v rule: containsSensitive.cases) auto

lemma interface_fields_map: "interface_fields fs = map (\<lambda>(k, v). (k, interfaceValue v)) fs"
  by (induction fs) auto

lemma fields_sensitive_ex: "fields_sensitive fs \<longleftrightarrow> (\<exists>x \<in> set fs. containsSensitive (snd x))"
  by (induction fs) auto

lemma agree_interface:
  "agree v w \<Longrightarrow> containsSensitive v \<and> containsSensitive w \<or> interfaceValue v = interfaceValue w"
proof (induction rule: agree.induct)
  case (arr xs ys p a f q)
  have "(list_ex containsSensitive xs \<and> list_ex containsSensitive ys) \<or> map interfaceValue xs = map interfaceValue ys"
    using arr by (induction rule: list_all2_induct) auto
  then show ?case by auto
next
  case (obj xs ys p a q)
  have "(fields_sensitive xs \<and> fields_sensitive ys) \<or> interface_fields xs = interface_fields ys"
    using obj by (induction rule: list_all2_induct) (auto simp: fields_sensitive_ex interface_fields_map)
  then show ?case by auto
qed simp_all

lemma low_interface:
  "low v w \<Longrightarrow> containsSensitive v \<and> containsSensitive w \<or> interfaceValue v = interfaceValue w"
  using agree_interface [of v w] contains_flag by (auto simp: low_def)

lemma tojson_low:
  assumes "list_all2 low args brgs" "evaluateToJSON ops args = Inr x" "evaluateToJSON ops brgs = Inr y"
  shows "low x y"
proof -
  from assms(2) obtain v r where a: "args = v # r" by (auto simp: evaluateToJSON_def split: list.splits)
  with assms(1) obtain w r' where b: "brgs = w # r'" and l: "low v w" by (auto simp: list_all2_Cons1)
  from low_interface [OF l] assms(2,3) show ?thesis
    by (auto simp: a b evaluateToJSON_def low_def Let_def intro: agree.str split: sum.splits if_splits)
qed

lemma normalize_flags:
  fixes x :: "'n any" and xs :: "'n any list" and m :: "(string \<times> 'n any) list"
  shows "agree (normalize mk path x s) (normalize mk path x s')"
  "list_all2 agree (normalize_items mk path i xs s) (normalize_items mk path i xs s')"
  "agree_fields (normalize_fields mk path m s) (normalize_fields mk path m s')"
  by (induction mk path x s and mk path i xs s and mk path m s arbitrary: s' and s' and s'
      rule: normalize_normalize_items_normalize_fields.induct) (auto intro: agree.intros agree_refl)

lemma normalize_sensitive: "sensitive (normalize mk path x True)"
  by (induction x arbitrary: path) simp_all

lemma fromjson_low:
  assumes "list_all2 low args brgs" "evaluateFromJSON ops pos args = Inr x" "evaluateFromJSON ops pos brgs = Inr y"
  shows "low x y"
proof -
  from assms(2) obtain v r where a: "args = v # r" by (auto simp: evaluateFromJSON_def split: list.splits)
  with assms(1) obtain w r' where b: "brgs = w # r'" and l: "low v w" by (auto simp: list_all2_Cons1)
  have res: "\<exists>t d. stringValue ops u = Some t \<and> json_decode ops t = Inr d \<and> z = normalize (NodeAddr pos) [] d (sensitive u)"
    if "evaluateFromJSON ops pos (u # t) = Inr z" for u t z
    using that by (auto simp: evaluateFromJSON_def split: option.splits if_splits sum.splits json_result.splits)
  from res [OF assms(2) [unfolded a]] res [OF assms(3) [unfolded b]] obtain t d t' d' where
    x: "stringValue ops v = Some t" "json_decode ops t = Inr d" "x = normalize (NodeAddr pos) [] d (sensitive v)"
    and y: "stringValue ops w = Some t'" "json_decode ops t' = Inr d'" "y = normalize (NodeAddr pos) [] d' (sensitive w)"
    by blast
  show ?thesis
  proof (cases "sensitive v \<and> sensitive w")
    case True
    with x(3) y(3) show ?thesis by (simp add: low_flagged normalize_sensitive)
  next
    case False
    with str_views(1) [OF l False, of ops] x y have "d' = d" by simp
    with x(3) y(3) show ?thesis by (simp add: low_agree normalize_flags)
  qed
qed

lemma format_loop_flag: "format_loop ops args fmt acc s = Inr x \<Longrightarrow> s \<Longrightarrow> sensitive x"
proof (induction ops args fmt acc s rule: format_loop.induct)
  case (1 ops args fmt acc s)
  note loop = 1(3) [unfolded format_loop.simps [of ops args fmt acc s]]
  show ?case
  proof (cases "format_piece fmt")
    case (FormatText t rest)
    with loop 1(1) [OF FormatText] 1(4) show ?thesis by (auto simp: and_then_eq_Inr)
  next
    case (FormatArgument k rest)
    with loop 1(2) [OF FormatArgument] 1(4) show ?thesis by (auto simp: and_then_eq_Inr split: if_splits option.splits)
  qed (use loop 1(4) in auto)
qed

lemma format_loop_low:
  assumes "list_all2 low args brgs"
  shows "format_loop ops args fmt acc s = Inr x \<Longrightarrow> format_loop ops brgs fmt acc s' = Inr y \<Longrightarrow> low x y"
proof (induction fmt arbitrary: acc s s' rule: length_induct)
  case (1 fmt)
  have len: "length args = length brgs" using assms by (rule list_all2_lengthD)
  show ?case
  proof (cases "format_piece fmt")
    case FormatEnd
    with 1(2,3) show ?thesis by (subst (asm) (1 2) format_loop.simps) (auto simp: low_def intro: agree.str)
  next
    case (FormatText t rest)
    with 1(2,3) obtain acc' where "format_loop ops args rest acc' s = Inr x" "format_loop ops brgs rest acc' s' = Inr y"
      by (subst (asm) (1 2) format_loop.simps) (auto simp: and_then_eq_Inr)
    with 1(1) format_piece_shorter(1) [OF FormatText] show ?thesis by blast
  next
    case (FormatArgument k rest)
    let ?v = "args ! nat (k + 1)" and ?w = "brgs ! nat (k + 1)"
    from FormatArgument 1(2) obtain t acc1 where a: "0 \<le> k" "k + 1 < int (length args)" "stringValue ops ?v = Some t"
        "appendEvaluationString acc t = Inr acc1" "format_loop ops args rest acc1 (s \<or> sensitive ?v) = Inr x"
      by (subst (asm) format_loop.simps) (auto simp: and_then_eq_Inr split: if_splits option.splits)
    from FormatArgument 1(3) obtain t' acc2 where b: "stringValue ops ?w = Some t'"
        "appendEvaluationString acc t' = Inr acc2" "format_loop ops brgs rest acc2 (s' \<or> sensitive ?w) = Inr y"
      by (subst (asm) format_loop.simps) (auto simp: and_then_eq_Inr split: if_splits option.splits)
    have l: "low ?v ?w" by (rule list_all2_nthD [OF assms]) (use a(1,2) in linarith)
    show ?thesis
    proof (cases "sensitive ?v \<and> sensitive ?w")
      case True
      with format_loop_flag [OF a(5)] format_loop_flag [OF b(3)] show ?thesis by (simp add: low_flagged)
    next
      case False
      with str_views(1) [OF l False, of ops] a(3,4) b(1,2) have "acc2 = acc1" by simp
      with 1(1) format_piece_shorter(2) [OF FormatArgument] a(5) b(3) show ?thesis by blast
    qed
  next
    case FormatBad
    with 1(2) show ?thesis by (subst (asm) format_loop.simps) simp
  qed
qed

lemma format_low:
  assumes "list_all2 low args brgs" "evaluateFormat ops args = Inr x" "evaluateFormat ops brgs = Inr y"
  shows "low x y"
proof -
  from assms(2) obtain v r where a: "args = v # r" by (auto simp: evaluateFormat_def split: list.splits)
  with assms(1) obtain w r' where b: "brgs = w # r'" and l: "low v w" by (auto simp: list_all2_Cons1)
  from assms(2,3) obtain t t' where t: "stringValue ops v = Some t" "format_loop ops args t [] (sensitive v) = Inr x"
    and t': "stringValue ops w = Some t'" "format_loop ops brgs t' [] (sensitive w) = Inr y"
    by (auto simp: a b evaluateFormat_def split: option.splits)
  show ?thesis
  proof (cases "sensitive v \<and> sensitive w")
    case True
    with format_loop_flag [OF t(2)] format_loop_flag [OF t'(2)] show ?thesis by (simp add: low_flagged)
  next
    case False
    with str_views(1) [OF l False, of ops] t(1) t'(1) have "t' = t" by simp
    with format_loop_low [OF assms(1) t(2)] t'(2) show ?thesis by simp
  qed
qed

section \<open>Evaluation\<close>

definition workspace_text :: "'n evaluation \<Rightarrow> string option" where
  "workspace_text ev =
     (case eval_context ev ''github'' of
        Inl _ \<Rightarrow> None
      | Inr g \<Rightarrow> (case lookupProperty g ''workspace'' of None \<Rightarrow> None | Some w \<Rightarrow> stringValue (eval_ops ev) w))"

definition low_evaluation :: "'n evaluation \<Rightarrow> 'n evaluation \<Rightarrow> bool" where
  "low_evaluation ev ev' \<longleftrightarrow> list_all2 (\<lambda>x y. fst x = fst y \<and> low (snd x) (snd y)) (roots ev) (roots ev') \<and>
     eval_status ev' = eval_status ev \<and> eval_ops ev' = eval_ops ev \<and> eval_hash ev' = eval_hash ev \<and>
     workspace_text ev' = workspace_text ev"

lemma hashfiles_low:
  assumes "low_evaluation ev ev'" "list_all2 low args brgs" "evaluateHashFiles ev args = Inr x" "evaluateHashFiles ev' brgs = Inr y"
  shows "low x y"
proof -
  have res: "\<exists>ws d. workspace_text e = Some ws \<and> z = Val (list_ex sensitive as) (StrV d) \<and>
      and_then (hashFilePatterns (hash_match (eval_hash e)) (map (stringValue (eval_ops e)) as)) (hashWorkspaceFiles (eval_hash e) ws) = Inr d"
    if "evaluateHashFiles e as = Inr z" for e :: "'a evaluation" and as z
  proof -
    from that obtain g where g: "eval_context e ''github'' = Inr g" by (auto simp: evaluateHashFiles_def and_then_eq_Inr)
    with that obtain w where w: "lookupProperty g ''workspace'' = Some w"
      by (cases "lookupProperty g ''workspace''") (simp_all add: evaluateHashFiles_def)
    with that g obtain ws where ws: "stringValue (eval_ops e) w = Some ws"
      by (cases "stringValue (eval_ops e) w") (simp_all add: evaluateHashFiles_def)
    from that g w ws have "case and_then (hashFilePatterns (hash_match (eval_hash e)) (map (stringValue (eval_ops e)) as))
        (hashWorkspaceFiles (eval_hash e) ws) of Inl _ \<Rightarrow> False | Inr d \<Rightarrow> z = Val (list_ex sensitive as) (StrV d)"
      by (simp add: evaluateHashFiles_def split: if_splits sum.splits)
    with g w ws show ?thesis by (simp add: workspace_text_def split: sum.splits)
  qed
  from res [OF assms(3)] res [OF assms(4)] obtain ws d ws' d' where
    x: "workspace_text ev = Some ws" "x = Val (list_ex sensitive args) (StrV d)"
      "and_then (hashFilePatterns (hash_match (eval_hash ev)) (map (stringValue (eval_ops ev)) args)) (hashWorkspaceFiles (eval_hash ev) ws) = Inr d"
    and y: "workspace_text ev' = Some ws'" "y = Val (list_ex sensitive brgs) (StrV d')"
      "and_then (hashFilePatterns (hash_match (eval_hash ev')) (map (stringValue (eval_ops ev')) brgs)) (hashWorkspaceFiles (eval_hash ev') ws') = Inr d'"
    by blast
  have "list_ex sensitive args \<and> list_ex sensitive brgs \<or> map (stringValue (eval_ops ev)) args = map (stringValue (eval_ops ev)) brgs"
    using assms(2) by (induction rule: list_all2_induct) (auto dest: str_views(1) [of _ _ "eval_ops ev"])
  with x y assms(1) show ?thesis by (auto simp: low_def low_evaluation_def intro: agree.str)
qed

lemma context_low:
  assumes "low_evaluation ev ev'" "eval_context ev n = Inr x" "eval_context ev' n = Inr y"
  shows "low x y"
proof -
  have "rel_option low (map_of xs k) (map_of ys k)" if "list_all2 (\<lambda>x y. fst x = fst y \<and> low (snd x) (snd y)) xs ys" for xs ys and k :: string
    using that by (induction rule: list_all2_induct) auto
  from this [of "roots ev" "roots ev'" "to_lower n"] assms show ?thesis
    by (auto simp: low_evaluation_def eval_context_def elim: option.rel_cases split: option.splits)
qed

lemma function_low:
  assumes "low_evaluation ev ev'" "list_all2 low args brgs"
    and "evaluate_function ev pos f args = Inr x" "evaluate_function ev' pos f brgs = Inr y"
  shows "low x y"
proof -
  have o: "eval_ops ev' = eval_ops ev" using assms(1) by (simp add: low_evaluation_def)
  note lows = contains_low [OF assms(2)] startswith_low [OF assms(2)] endswith_low [OF assms(2)] format_low [OF assms(2)]
    join_low [OF assms(2)] tojson_low [OF assms(2)] fromjson_low [OF assms(2)] hashfiles_low [OF assms(1,2)]
  from assms(3,4) show ?thesis
    unfolding evaluate_function_def Let_def o by (auto split: if_splits intro: lows)
qed

lemma binary_cases:
  assumes "evaluate ev pos (BinaryNode k l r) = Inr x"
  obtains a where "evaluate ev (pos @ [0]) l = Inr a" "x = a" "k = andToken \<and> \<not> truthy (eval_ops ev) a \<or> k = orToken \<and> truthy (eval_ops ev) a"
  | a b where "evaluate ev (pos @ [0]) l = Inr a" "evaluate ev (pos @ [1]) r = Inr b" "x = mark (sensitive a) b"
      "k = andToken \<and> truthy (eval_ops ev) a \<or> k = orToken \<and> \<not> truthy (eval_ops ev) a"
  | a b where "evaluate ev (pos @ [0]) l = Inr a" "evaluate ev (pos @ [1]) r = Inr b" "k \<noteq> andToken" "k \<noteq> orToken"
      "evaluate_operator (eval_ops ev) k a b = Inr x"
proof -
  from assms obtain a where a: "evaluate ev (pos @ [0]) l = Inr a" by (auto simp: and_then_eq_Inr)
  consider "k = andToken" "truthy (eval_ops ev) a" | "k = andToken" "\<not> truthy (eval_ops ev) a"
    | "k = orToken" "truthy (eval_ops ev) a" | "k = orToken" "\<not> truthy (eval_ops ev) a" | "k \<noteq> andToken" "k \<noteq> orToken" by blast
  then show thesis
  proof cases
    case 1
    with assms a obtain b where "evaluate ev (pos @ [1]) r = Inr b" "x = mark (sensitive a) b" by (auto simp: and_then_eq_Inr)
    from that(2) [OF a this] 1 show thesis by simp
  next
    case 2
    with assms a have "x = a" by simp
    from that(1) [OF a this] 2 show thesis by simp
  next
    case 3
    with assms a have "x = a" by simp
    from that(1) [OF a this] 3 show thesis by simp
  next
    case 4
    with assms a obtain b where "evaluate ev (pos @ [1]) r = Inr b" "x = mark (sensitive a) b" by (auto simp: and_then_eq_Inr)
    from that(2) [OF a this] 4 show thesis by simp
  next
    case 5
    with assms a obtain b where "evaluate ev (pos @ [1]) r = Inr b" "evaluate_operator (eval_ops ev) k a b = Inr x" by (auto simp: and_then_eq_Inr)
    from that(3) [OF a this(1) 5 this(2)] show thesis .
  qed
qed

lemma binary_low:
  assumes "eval_ops ev' = eval_ops ev"
    and l: "\<And>a c. evaluate ev (pos @ [0]) l = Inr a \<Longrightarrow> evaluate ev' (pos @ [0]) l = Inr c \<Longrightarrow> low a c"
    and r: "\<And>b d. evaluate ev (pos @ [1]) r = Inr b \<Longrightarrow> evaluate ev' (pos @ [1]) r = Inr d \<Longrightarrow> low b d"
    and x: "evaluate ev pos (BinaryNode k l r) = Inr x" and y: "evaluate ev' pos (BinaryNode k l r) = Inr y"
  shows "low x y"
proof -
  from x obtain a where a: "evaluate ev (pos @ [0]) l = Inr a" by (auto simp: and_then_eq_Inr)
  from y obtain c where c: "evaluate ev' (pos @ [0]) l = Inr c" by (auto simp: and_then_eq_Inr)
  from l [OF a c] have ac: "low a c" .
  show ?thesis
  proof (cases "sensitive a \<and> sensitive c")
    case True
    from x have "k \<in> {andToken, orToken} \<Longrightarrow> sensitive x"
      using a True by (cases rule: binary_cases) (auto simp: mark_def)
    moreover from y have "k \<in> {andToken, orToken} \<Longrightarrow> sensitive y"
      using c True by (cases rule: binary_cases) (auto simp: mark_def)
    moreover have "low x y" if "k \<notin> {andToken, orToken}"
    proof -
      from x a that obtain b where b: "evaluate ev (pos @ [1]) r = Inr b" "evaluate_operator (eval_ops ev) k a b = Inr x"
        by (cases rule: binary_cases) auto
      from y c that assms(1) obtain d where d: "evaluate ev' (pos @ [1]) r = Inr d" "evaluate_operator (eval_ops ev) k c d = Inr y"
        by (cases rule: binary_cases) auto
      from operator_low [OF ac r [OF b(1) d(1)] b(2) d(2)] show ?thesis .
    qed
    ultimately show ?thesis by (auto intro: low_flagged)
  next
    case False
    have t: "truthy (eval_ops ev) a = truthy (eval_ops ev) c" by (rule str_views(2) [OF ac False])
    from x show ?thesis
    proof (cases rule: binary_cases)
      case (1 a')
      with y a c t assms(1) have "y = c" by (cases rule: binary_cases) auto
      with 1 a ac show ?thesis by simp
    next
      case (2 a' b)
      with y a c t assms(1) obtain d where "evaluate ev' (pos @ [1]) r = Inr d" "y = mark (sensitive c) d"
        by (cases rule: binary_cases) auto
      with 2 r show ?thesis by (simp add: low_mark)
    next
      case (3 a' b)
      with y c assms(1) obtain d where d: "evaluate ev' (pos @ [1]) r = Inr d" "evaluate_operator (eval_ops ev) k c d = Inr y"
        by (cases rule: binary_cases) auto
      from 3 a have "evaluate_operator (eval_ops ev) k a b = Inr x" by simp
      from operator_low [OF ac r [OF 3(2) d(1)] this d(2)] show ?thesis .
    qed
  qed
qed

lemma status_low:
  "evaluate_status ev f = Inr x \<Longrightarrow> evaluate_status ev' f = Inr y \<Longrightarrow> eval_status ev' = eval_status ev \<Longrightarrow> low x y"
  by (auto simp: evaluate_status_def Let_def split: if_splits option.splits)

lemma args_low:
  assumes "\<And>n pos x y. n \<in> set ns \<Longrightarrow> evaluate ev pos n = Inr x \<Longrightarrow> evaluate ev' pos n = Inr y \<Longrightarrow> low x y"
  shows "evaluate_args ev pos i ns = Inr xs \<Longrightarrow> evaluate_args ev' pos i ns = Inr ys \<Longrightarrow> list_all2 low xs ys"
  using assms
proof (induction ns arbitrary: i xs ys)
  case (Cons n ns)
  from Cons.prems(1,2) obtain v vs w ws where "evaluate ev (pos @ [i]) n = Inr v" "evaluate_args ev pos (Suc i) ns = Inr vs" "xs = v # vs"
      "evaluate ev' (pos @ [i]) n = Inr w" "evaluate_args ev' pos (Suc i) ns = Inr ws" "ys = w # ws"
    by (auto simp: and_then_eq_Inr)
  moreover from this have "list_all2 low vs ws" by (intro Cons.IH) (auto intro: Cons.prems(3))
  ultimately show ?case using Cons.prems(3) [of n] by simp
qed simp

lemma evaluate_low:
  assumes le: "low_evaluation ev ev'"
  shows "evaluate ev pos n = Inr x \<Longrightarrow> evaluate ev' pos n = Inr y \<Longrightarrow> low x y"
proof (induction n arbitrary: pos x y)
  have o: "eval_ops ev' = eval_ops ev" using le by (simp add: low_evaluation_def)
  {
    case (ContextNode name)
    then show ?case by (auto intro: context_low [OF le])
  next
    case (PropertyNode t name)
    with o show ?case by (auto simp: and_then_eq_Inr intro: property_low)
  next
    case (IndexNode t i)
    from IndexNode(3,4) obtain v w where vw: "evaluate ev (pos @ [0]) t = Inr v" "evaluate ev' (pos @ [0]) t = Inr w"
      by (auto simp: and_then_eq_Inr)
    from IndexNode(1) [OF vw] have l: "low v w" .
    show ?case
    proof (cases "is_wildcard i")
      case True
      with IndexNode(3,4) vw l show ?thesis by (auto intro: wildcard_low)
    next
      case False
      with IndexNode(3,4) vw o obtain a b where ab: "evaluate ev (pos @ [1]) i = Inr a" "evaluate ev' (pos @ [1]) i = Inr b"
          "evaluate_index (eval_ops ev) pos v a = Inr x" "evaluate_index (eval_ops ev) pos w b = Inr y"
        by (auto simp: and_then_eq_Inr)
      from index_low [OF l IndexNode(2) [OF ab(1,2)] ab(3,4)] show ?thesis .
    qed
  next
    case (UnaryNode t)
    then obtain v w where vw: "evaluate ev (pos @ [0]) t = Inr v" "evaluate ev' (pos @ [0]) t = Inr w"
      "x = bool_val (sensitive v) (\<not> truthy (eval_ops ev) v)" "y = bool_val (sensitive w) (\<not> truthy (eval_ops ev') w)"
      by (auto simp: and_then_eq_Inr)
    from UnaryNode(1) [OF vw(1,2)] have l: "low v w" .
    with o vw(3,4) str_views(2) [OF l, of "eval_ops ev"] show ?case
      by (cases "sensitive v \<and> sensitive w") (auto simp: bool_val_def low_def agree.bool)
  next
    case (BinaryNode k l r)
    show ?case by (rule binary_low [OF o BinaryNode])
  next
    case (CallNode name args)
    show ?case
    proof (cases "status_name (to_lower name)")
      case True
      with CallNode(2,3) status_low [of ev name x ev' y] le show ?thesis by (simp add: low_evaluation_def)
    next
      case False
      with CallNode(2,3) obtain vs ws where vs: "evaluate_args ev pos 0 args = Inr vs" "evaluate_args ev' pos 0 args = Inr ws"
          "evaluate_function ev pos name vs = Inr x" "evaluate_function ev' pos name ws = Inr y"
        by (auto simp: and_then_eq_Inr)
      from args_low [OF CallNode(1) vs(1,2)] have "list_all2 low vs ws" .
      from function_low [OF le this vs(3,4)] show ?thesis .
    qed
  }
qed (auto simp: low_refl)

section \<open>Contexts and results\<close>

text \<open>
  Two context values that differ at most in the text of strings behind a \<^verbatim>\<open>SensitiveValue\<close>.
\<close>

inductive low_any :: "'n any \<Rightarrow> 'n any \<Rightarrow> bool" where
  hidden_text: "low_any (SensitiveValue (StrAny s)) (SensitiveValue (StrAny t))"
| same_any: "low_any x x"
| marked_any: "low_any x y \<Longrightarrow> low_any (SensitiveValue x) (SensitiveValue y)"
| seq_any: "list_all2 low_any xs ys \<Longrightarrow> low_any (SeqAny xs) (SeqAny ys)"
| map_any: "list_all2 (\<lambda>x y. fst x = fst y \<and> low_any (snd x) (snd y)) m m' \<Longrightarrow> low_any (MapAny m) (MapAny m')"
monos list_all2_mono

lemma items_agree:
  "list_all2 (\<lambda>x y. \<forall>path s. agree (normalize mk path x s) (normalize mk path y s)) xs ys \<Longrightarrow>
     list_all2 agree (normalize_items mk path i xs s) (normalize_items mk path i ys s)"
  by (induction arbitrary: i rule: list_all2_induct) auto

lemma fields_agree:
  "list_all2 (\<lambda>x y. fst x = fst y \<and> (\<forall>path s. agree (normalize mk path (snd x) s) (normalize mk path (snd y) s))) m m' \<Longrightarrow>
     agree_fields (normalize_fields mk path m s) (normalize_fields mk path m' s)"
  by (induction rule: list_all2_induct) auto

lemma normalize_agree: "low_any x y \<Longrightarrow> agree (normalize mk path x s) (normalize mk path y s)"
proof (induction arbitrary: path s rule: low_any.induct)
  case (seq_any xs ys)
  then have "list_all2 (\<lambda>x y. \<forall>path s. agree (normalize mk path x s) (normalize mk path y s)) xs ys"
    by (rule list_all2_mono) blast
  from items_agree [OF this] show ?case by (simp add: agree.arr)
next
  case (map_any m m')
  then have "list_all2 (\<lambda>x y. fst x = fst y \<and> (\<forall>path s. agree (normalize mk path (snd x) s) (normalize mk path (snd y) s))) m m'"
    by (rule list_all2_mono) blast
  from fields_agree [OF this] show ?case by (simp add: agree.obj)
qed (auto intro: agree.hidden agree_refl)

text \<open>
  Two contexts that differ at most in secrets: the whole of the \<^verbatim>\<open>secrets\<close> context, and the text of the
  strings that other contexts mark.
\<close>

definition same_but_secrets :: "'n float_ops \<Rightarrow> hash_env \<Rightarrow> 'n Context \<Rightarrow> 'n Context \<Rightarrow> bool" where
  "same_but_secrets ops h c c' \<longleftrightarrow>
     availability c' = availability c \<and> context_status c' = context_status c \<and>
     list_all2 (\<lambda>x y. fst x = fst y \<and> (equal_fold (fst x) ''secrets'' \<or> low_any (snd x) (snd y))) (Values c) (Values c') \<and>
     workspace_text (newEvaluation ops h c') = workspace_text (newEvaluation ops h c)"

lemma same_but_secrets_low:
  assumes "same_but_secrets ops h c c'"
  shows "low_evaluation (newEvaluation ops h c) (newEvaluation ops h c')"
proof -
  have "list_all2 (\<lambda>x y. fst x = fst y \<and> (equal_fold (fst x) ''secrets'' \<or> low_any (snd x) (snd y))) (Values c) (Values c')"
    using assms by (simp add: same_but_secrets_def)
  then have "list_all2 (\<lambda>x y. fst x = fst y \<and> low (snd x) (snd y)) (roots (newEvaluation ops h c)) (roots (newEvaluation ops h c'))"
    unfolding newEvaluation_def evaluation.simps list_all2_rev list_all2_map1 list_all2_map2
    by (rule list_all2_mono) (auto simp: split_beta low_def normalize_sensitive intro: normalize_agree)
  moreover have "eval_status (newEvaluation ops h c') = eval_status (newEvaluation ops h c)"
      "eval_ops (newEvaluation ops h c') = eval_ops (newEvaluation ops h c)" "eval_hash (newEvaluation ops h c') = eval_hash (newEvaluation ops h c)"
    using assms by (simp_all add: same_but_secrets_def newEvaluation_def)
  moreover have "workspace_text (newEvaluation ops h c') = workspace_text (newEvaluation ops h c)"
    using assms by (simp add: same_but_secrets_def)
  ultimately show ?thesis by (simp only: low_evaluation_def)
qed

lemma agree_reveals:
  "agree v w \<Longrightarrow> containsSensitive v \<and> containsSensitive w \<or> interfaceValue v = interfaceValue w"
proof (induction rule: agree.induct)
  case (arr xs ys p a f q)
  then have "(list_ex containsSensitive xs \<and> list_ex containsSensitive ys) \<or> map interfaceValue xs = map interfaceValue ys"
    by (induction rule: list_all2_induct) auto
  then show ?case by auto
next
  case (obj xs ys p a q)
  then have "(fields_sensitive xs \<and> fields_sensitive ys) \<or> interface_fields xs = interface_fields ys"
    by (induction rule: list_all2_induct) auto
  then show ?case by auto
qed auto

lemma low_reveals: "low v w \<Longrightarrow> containsSensitive v \<and> containsSensitive w \<or> interfaceValue v = interfaceValue w"
  using agree_reveals [of v w] by (cases v rule: containsSensitive.cases; cases w rule: containsSensitive.cases) (auto simp: low_def)

lemma template_low:
  assumes "low_evaluation ev ev'"
  shows "template_loop ev i segs acc s = Inr r \<Longrightarrow> template_loop ev' i segs acc' s' = Inr r' \<Longrightarrow> s \<and> s' \<or> acc = acc' \<Longrightarrow>
     Secret r \<and> Secret r' \<or> result_any r = result_any r'"
proof (induction segs arbitrary: i acc acc' s s')
  case (Cons g segs)
  show ?case
  proof (cases g)
    case (LiteralSegment t)
    with Cons show ?thesis by (auto simp: and_then_eq_Inr appendEvaluationString_def split: if_splits)
  next
    case (ExpressionSegment n)
    from Cons.prems(1) ExpressionSegment obtain v t where v: "evaluate ev [i] n = Inr v" "stringValue (eval_ops ev) v = Some t"
        "template_loop ev (Suc i) segs (acc @ t) (s \<or> sensitive v) = Inr r"
      by (auto simp: and_then_eq_Inr appendEvaluationString_def split: option.splits if_splits)
    from Cons.prems(2) ExpressionSegment obtain w u where w: "evaluate ev' [i] n = Inr w" "stringValue (eval_ops ev') w = Some u"
        "template_loop ev' (Suc i) segs (acc' @ u) (s' \<or> sensitive w) = Inr r'"
      by (auto simp: and_then_eq_Inr appendEvaluationString_def split: option.splits if_splits)
    from evaluate_low [OF assms v(1) w(1)] have l: "low v w" .
    have "(s \<or> sensitive v) \<and> (s' \<or> sensitive w) \<or> acc @ t = acc' @ u"
    proof (cases "sensitive v \<and> sensitive w")
      case False
      from str_views(1) [OF l False, of "eval_ops ev"] v(2) w(2) assms have "t = u" by (simp add: low_evaluation_def)
      with Cons.prems(3) show ?thesis by auto
    qed simp
    from Cons.IH [OF v(3) w(3) this] show ?thesis .
  qed
qed auto
text \<open>
  C1. Secrets reach no result that is not marked: when a program is evaluated in two contexts that differ only in
  secrets (the \<^verbatim>\<open>secrets\<close> context, and the strings other contexts hold behind \<^verbatim>\<open>SensitiveValue\<close>), then
  either both results are flagged \<^verbatim>\<open>Secret\<close>, so that they are redacted, or the two results are the same.
  The program is any list of nodes, so the short circuits, the wildcard filters and all functions are covered.
\<close>

theorem secrets_do_not_leak:
  assumes "same_but_secrets ops h c c'" "Evaluate ops h p c = Inr r" "Evaluate ops h p c' = Inr r'"
  shows "Secret r \<and> Secret r' \<or> result_any r = result_any r'"
proof -
  note le = same_but_secrets_low [OF assms(1)]
  have a: "availability c' = availability c" using assms(1) by (simp add: same_but_secrets_def)
  show ?thesis
  proof (cases "\<exists>n segs. whole p \<and> prog_segments p = ExpressionSegment n # segs")
    case True
    then obtain n segs where n: "whole p" "prog_segments p = ExpressionSegment n # segs" by blast
    with assms(2,3) a have "evaluate_whole (newEvaluation ops h c) n = Inr r" "evaluate_whole (newEvaluation ops h c') n = Inr r'"
      by (auto simp: Evaluate_def split: option.splits)
    then obtain v w where "evaluate (newEvaluation ops h c) [0] n = Inr v" "evaluate (newEvaluation ops h c') [0] n = Inr w"
        "r = \<lparr>result_any = interfaceValue v, Secret = containsSensitive v\<rparr>" "r' = \<lparr>result_any = interfaceValue w, Secret = containsSensitive w\<rparr>"
      by (auto simp: evaluate_whole_def and_then_eq_Inr split: if_splits)
    with low_reveals [OF evaluate_low [OF le]] show ?thesis by simp
  next
    case False
    then have "template_loop (newEvaluation ops h c) 0 (prog_segments p) [] False = Inr r"
        "template_loop (newEvaluation ops h c') 0 (prog_segments p) [] False = Inr r'"
      using assms(2,3) by (auto simp: Evaluate_def Let_def split: option.splits list.splits segment.splits bool.splits)
    from template_low [OF le this] show ?thesis by simp
  qed
qed

definition token_context :: "string \<Rightarrow> int option Context" where
  "token_context t =
     \<lparr>availability = NewAvailability [''github'', ''secrets''],
      Values = [(''github'', MapAny [(''ref'', StrAny ''main'')]), (''secrets'', MapAny [(''TOKEN'', StrAny t)])],
      context_status = None\<rparr>"

definition token_program :: "int option Program" where
  "token_program =
     \<lparr>prog_segments = [LiteralSegment ''x='', ExpressionSegment (PropertyNode (ContextNode ''secrets'') ''token'')], whole = False\<rparr>"

lemma token_contexts: "same_but_secrets whole_ops no_files (token_context s) (token_context t)"
  by (auto simp: same_but_secrets_def token_context_def equal_fold_def workspace_text_def eval_context_def newEvaluation_def
      lookupProperty_def find_field_def to_lower_def lower_char_def ascii_upper_def split: option.splits intro: same_any)

theorem secrets_do_not_leak_witness:
  "\<exists>r r'. Evaluate whole_ops no_files token_program (token_context ''abc'') = Inr r \<and>
     Evaluate whole_ops no_files token_program (token_context ''xyz'') = Inr r' \<and>
     result_any r \<noteq> result_any r' \<and> Secret r \<and> Secret r'"
proof -
  have e: "Evaluate whole_ops no_files token_program (token_context ''abc'') = Inr \<lparr>result_any = StrAny ''x=abc'', Secret = True\<rparr>"
      "Evaluate whole_ops no_files token_program (token_context ''xyz'') = Inr \<lparr>result_any = StrAny ''x=xyz'', Secret = True\<rparr>"
    by code_simp+
  from secrets_do_not_leak [OF token_contexts e] e show ?thesis by auto
qed

end
