(* ===== verification/WorkflowGraph.thy ===== *)
theory WorkflowGraph
  imports Prelude
begin

text \<open>
  The check of a workflow's job graph, \<^verbatim>\<open>validateJobGraph\<close> of \<^verbatim>\<open>src/internal/workflow/workflow.go\<close>.

  The map of jobs is given by the identifiers with their \<^verbatim>\<open>Needs\<close>. The colour of an identifier in the depth-first search is
  the number the code keeps in \<^verbatim>\<open>state\<close>: 0 unseen, 1 on the stack, 2 done. The closure \<^verbatim>\<open>visit\<close> takes fuel for its
  depth, one unit per job, which the result below shows to be enough.
\<close>

section \<open>Definitions\<close>

type_synonym job_needs = "(string \<times> string list) list"

datatype job_graph_error =
    NeedsMissing string string
  | DependencyCycle "string list"
  | GraphOutOfFuel

definition needs_of :: "job_needs \<Rightarrow> string \<Rightarrow> string list" where
  "needs_of jobs i = (case map_of jobs i of Some ns \<Rightarrow> ns | None \<Rightarrow> [])"

record search =
  colour :: "string \<Rightarrow> nat"
  search_stack :: "string list"

fun visit :: "job_needs \<Rightarrow> nat \<Rightarrow> string \<Rightarrow> search \<Rightarrow> job_graph_error + search"
  and visit_all :: "job_needs \<Rightarrow> nat \<Rightarrow> string list \<Rightarrow> search \<Rightarrow> job_graph_error + search" where
  "visit jobs fuel i s =
     (if colour s i = 1 then Inl (DependencyCycle (dropWhile (\<lambda>j. j \<noteq> i) (search_stack s) @ [i]))
      else if colour s i = 2 then Inr s
      else case fuel of
        0 \<Rightarrow> Inl GraphOutOfFuel
      | Suc n \<Rightarrow>
          and_then (visit_all jobs n (needs_of jobs i) (s\<lparr>colour := (colour s)(i := 1), search_stack := search_stack s @ [i]\<rparr>))
            (\<lambda>s. Inr (s\<lparr>colour := (colour s)(i := 2), search_stack := butlast (search_stack s)\<rparr>)))"
| "visit_all jobs fuel [] s = Inr s"
| "visit_all jobs fuel (i # is) s = and_then (visit jobs fuel i s) (visit_all jobs fuel is)"

fun missing_need :: "job_needs \<Rightarrow> string list \<Rightarrow> (string \<times> string) option" where
  "missing_need jobs [] = None"
| "missing_need jobs (i # is) =
     (case find (\<lambda>d. d \<notin> fst ` set jobs) (needs_of jobs i) of
        Some d \<Rightarrow> Some (i, d)
      | None \<Rightarrow> missing_need jobs is)"

definition validateJobGraph :: "job_needs \<Rightarrow> job_graph_error + unit" where
  "validateJobGraph jobs =
     (let jobIDs = sort (map fst jobs)
      in case missing_need jobs jobIDs of
           Some (i, d) \<Rightarrow> Inl (NeedsMissing i d)
         | None \<Rightarrow>
             and_then (visit_all jobs (length jobs) jobIDs \<lparr>colour = (\<lambda>_. 0), search_stack = []\<rparr>) (\<lambda>_. Inr ()))"

section \<open>The search finds a cycle exactly when there is one\<close>

definition needs_rel :: "job_needs \<Rightarrow> (string \<times> string) set" where
  "needs_rel jobs = {(i, d). d \<in> set (needs_of jobs i)}"

lemma find_SomeD: "find P xs = Some x \<Longrightarrow> x \<in> set xs \<and> P x"
  by (induction xs) (auto split: if_splits)

lemma missing_need_None: "missing_need jobs is = None \<longleftrightarrow> (\<forall>i \<in> set is. set (needs_of jobs i) \<subseteq> fst ` set jobs)"
proof (induction "is")
  case (Cons i "is")
  show ?case
  proof (cases "find (\<lambda>d. d \<notin> fst ` set jobs) (needs_of jobs i)")
    case None
    then have "set (needs_of jobs i) \<subseteq> fst ` set jobs" by (auto simp: find_None_iff)
    with None Cons show ?thesis by simp
  next
    case (Some d)
    with find_SomeD [OF Some] show ?thesis by auto
  qed
qed simp

lemma missing_need_Some: "missing_need jobs is = Some (i, d) \<Longrightarrow> (i, d) \<in> needs_rel jobs \<and> d \<notin> fst ` set jobs"
  by (induction "is") (auto split: option.splits simp: needs_rel_def dest: find_SomeD)

text \<open>Consecutive elements of a list are edges.\<close>

fun chain :: "('a \<times> 'a) set \<Rightarrow> 'a list \<Rightarrow> bool" where
  "chain R (x # y # zs) \<longleftrightarrow> (x, y) \<in> R \<and> chain R (y # zs)"
| "chain R _ \<longleftrightarrow> True"

lemma chain_append_one: "chain R (xs @ [y]) \<longleftrightarrow> chain R xs \<and> (xs = [] \<or> (last xs, y) \<in> R)"
  by (induction R xs rule: chain.induct) auto

lemma chain_dropWhile: "chain R xs \<Longrightarrow> chain R (dropWhile P xs)"
  by (induction R xs rule: chain.induct) auto

lemma chain_path: "chain R xs \<Longrightarrow> xs \<noteq> [] \<Longrightarrow> (hd xs, last xs) \<in> R\<^sup>*"
proof (induction R xs rule: chain.induct)
  case (1 R x y zs)
  then show ?case by (metis chain.simps(1) converse_rtrancl_into_rtrancl last_ConsR list.distinct(1) list.sel(1))
qed auto

definition is_cycle :: "('a \<times> 'a) set \<Rightarrow> 'a list \<Rightarrow> bool" where
  "is_cycle R c \<longleftrightarrow> length c \<ge> 2 \<and> hd c = last c \<and> chain R c"

lemma cycle_not_acyclic:
  assumes "is_cycle R c" shows "\<not> acyclic R"
proof -
  from assms obtain x y zs where c: "c = x # y # zs"
    by (cases c; cases "tl c") (auto simp: is_cycle_def)
  from assms c chain_path [of R "y # zs"] have "(x, y) \<in> R" "(y, x) \<in> R\<^sup>*"
    by (auto simp: is_cycle_def split: if_splits)
  then show ?thesis by (auto simp: acyclic_def dest: rtrancl_into_trancl2)
qed

text \<open>
  What the search keeps: the stack holds the identifiers of colour 1 along a chain of needs, and the identifiers that are
  done are closed under needs and lie on no cycle.
\<close>

definition search_ok :: "job_needs \<Rightarrow> search \<Rightarrow> bool" where
  "search_ok jobs s \<longleftrightarrow>
     chain (needs_rel jobs) (search_stack s) \<and> distinct (search_stack s) \<and> set (search_stack s) = {i. colour s i = 1} \<and>
     (\<forall>i. colour s i \<le> 2) \<and>
     (\<forall>i d. colour s i = 2 \<longrightarrow> (i, d) \<in> needs_rel jobs \<longrightarrow> colour s d = 2) \<and>
     (\<forall>i. colour s i = 2 \<longrightarrow> (i, i) \<notin> (needs_rel jobs)\<^sup>+)"

definition unseen :: "job_needs \<Rightarrow> search \<Rightarrow> string set" where
  "unseen jobs s = {i \<in> fst ` set jobs. colour s i = 0}"

definition search_extends :: "search \<Rightarrow> search \<Rightarrow> bool" where
  "search_extends s t \<longleftrightarrow> search_stack t = search_stack s \<and> (\<forall>i. colour s i \<noteq> 0 \<longrightarrow> colour t i = colour s i) \<and> (\<forall>i. colour s i = 0 \<longrightarrow> colour t i \<noteq> 1)"

lemma done_closed:
  assumes "search_ok jobs s" "(i, d) \<in> (needs_rel jobs)\<^sup>+" "colour s i = 2" shows "colour s d = 2"
  using assms(2,3) by (induction rule: trancl_induct) (use assms(1) in \<open>auto simp: search_ok_def\<close>)

lemma unseen_mono: "search_extends s t \<Longrightarrow> unseen jobs t \<subseteq> unseen jobs s"
  by (auto simp: unseen_def search_extends_def)

lemma search_extends_trans: "search_extends s t \<Longrightarrow> search_extends t u \<Longrightarrow> search_extends s u"
  unfolding search_extends_def by (metis)


lemma search_push:
  assumes "search_ok jobs s" "colour s i = 0" "search_stack s = [] \<or> (last (search_stack s), i) \<in> needs_rel jobs"
  shows "search_ok jobs (s\<lparr>colour := (colour s)(i := 1), search_stack := search_stack s @ [i]\<rparr>)"
  using assms by (auto simp: search_ok_def chain_append_one)

lemma search_pop:
  assumes ok: "search_ok jobs t" and st: "search_stack t = st @ [i]" and deps: "\<forall>d \<in> set (needs_of jobs i). colour t d = 2"
  shows "search_ok jobs (t\<lparr>colour := (colour t)(i := 2), search_stack := butlast (search_stack t)\<rparr>)"
proof -
  have grey: "colour t i = 1" using ok st by (auto simp: search_ok_def)
  have no_cycle: "(i, i) \<notin> (needs_rel jobs)\<^sup>+"
  proof
    assume "(i, i) \<in> (needs_rel jobs)\<^sup>+"
    then obtain d where d: "(i, d) \<in> needs_rel jobs" "(d, i) \<in> (needs_rel jobs)\<^sup>*" by (meson tranclD)
    with deps have "colour t d = 2" by (auto simp: needs_rel_def)
    with d(2) done_closed [OF ok, of d i] grey show False by (auto simp: rtrancl_eq_or_trancl)
  qed
  let ?u = "t\<lparr>colour := (colour t)(i := 2), search_stack := butlast (search_stack t)\<rparr>"
  have "chain (needs_rel jobs) (search_stack ?u)" "distinct (search_stack ?u)"
    using ok st by (simp_all add: search_ok_def chain_append_one)
  moreover have "set (search_stack ?u) = {j. colour ?u j = 1}"
  proof -
    have "set st \<union> {i} = {j. colour t j = 1}" "i \<notin> set st" using ok st by (auto simp: search_ok_def)
    with st show ?thesis by auto
  qed
  moreover have "\<forall>j d. colour ?u j = 2 \<longrightarrow> (j, d) \<in> needs_rel jobs \<longrightarrow> colour ?u d = 2"
    using ok deps by (auto simp: search_ok_def needs_rel_def)
  moreover have "\<forall>j. colour ?u j = 2 \<longrightarrow> (j, j) \<notin> (needs_rel jobs)\<^sup>+" "\<forall>j. colour ?u j \<le> 2"
    using ok no_cycle by (auto simp: search_ok_def)
  ultimately show ?thesis unfolding search_ok_def by blast
qed

lemma unseen_push: "i \<in> fst ` set jobs \<Longrightarrow> colour s i = 0 \<Longrightarrow>
    card (unseen jobs (s\<lparr>colour := (colour s)(i := 1), search_stack := st\<rparr>)) < card (unseen jobs s)"
  by (rule psubset_card_mono) (auto simp: unseen_def)

lemma visit_correct:
  assumes known: "\<forall>i \<in> fst ` set jobs. set (needs_of jobs i) \<subseteq> fst ` set jobs"
  shows "search_ok jobs s \<Longrightarrow> i \<in> fst ` set jobs \<Longrightarrow> card (unseen jobs s) \<le> fuel \<Longrightarrow>
      search_stack s = [] \<or> (last (search_stack s), i) \<in> needs_rel jobs \<Longrightarrow>
      (case visit jobs fuel i s of
         Inr t \<Rightarrow> search_ok jobs t \<and> search_extends s t \<and> colour t i = 2
       | Inl e \<Rightarrow> \<exists>c. e = DependencyCycle c \<and> is_cycle (needs_rel jobs) c)"
    and "search_ok jobs s \<Longrightarrow> set is \<subseteq> fst ` set jobs \<Longrightarrow> card (unseen jobs s) \<le> fuel \<Longrightarrow>
      search_stack s = [] \<or> (\<forall>i \<in> set is. (last (search_stack s), i) \<in> needs_rel jobs) \<Longrightarrow>
      (case visit_all jobs fuel is s of
         Inr t \<Rightarrow> search_ok jobs t \<and> search_extends s t \<and> (\<forall>i \<in> set is. colour t i = 2)
       | Inl e \<Rightarrow> \<exists>c. e = DependencyCycle c \<and> is_cycle (needs_rel jobs) c)"
  using known
proof (induction jobs fuel i s and jobs fuel "is" s rule: visit_visit_all.induct)
  case (1 jobs fuel i s)
  note ok = 1(2) and dom = 1(3) and fuel = 1(4) and edge = 1(5) and kn = 1(6)
  let ?R = "needs_rel jobs"
  consider (grey) "colour s i = 1" | (black) "colour s i = 2" | (white) "colour s i = 0"
    using ok by (auto simp: search_ok_def) (metis One_nat_def le_neq_implies_less less_2_cases)
  then show ?case
  proof cases
    case grey
    let ?p = "dropWhile (\<lambda>j. j \<noteq> i) (search_stack s)"
    have i: "i \<in> set (search_stack s)" using ok grey by (auto simp: search_ok_def)
    then have ne: "search_stack s \<noteq> []" "?p \<noteq> []" "hd ?p = i"
      by (auto simp: dropWhile_eq_Nil_conv) (metis (full_types) dropWhile_eq_Nil_conv hd_dropWhile)
    from ne have "last ?p = last (search_stack s)" by (metis (mono_tags) dropWhile_eq_drop last_drop drop_eq_Nil leI)
    with ok ne edge have "chain ?R (?p @ [i])" by (simp add: chain_append_one search_ok_def chain_dropWhile)
    with ne have "is_cycle ?R (?p @ [i])" by (cases ?p) (auto simp: is_cycle_def)
    with grey show ?thesis by simp
  next
    case black
    with ok show ?thesis by (simp add: search_extends_def)
  next
    case white
    let ?s = "s\<lparr>colour := (colour s)(i := 1), search_stack := search_stack s @ [i]\<rparr>"
    from unseen_push [OF dom white, of "search_stack s @ [i]"] fuel obtain n where n: "fuel = Suc n" "card (unseen jobs ?s) \<le> n"
      by (cases fuel) auto
    have "case visit_all jobs n (needs_of jobs i) ?s of
         Inr t \<Rightarrow> search_ok jobs t \<and> search_extends ?s t \<and> (\<forall>d \<in> set (needs_of jobs i). colour t d = 2)
       | Inl e \<Rightarrow> \<exists>c. e = DependencyCycle c \<and> is_cycle ?R c"
      using 1(1) [OF _ _ n(1) search_push [OF ok white edge] _ n(2) _ kn] kn dom white by (auto simp: needs_rel_def)
    then show ?thesis
    proof (cases "visit_all jobs n (needs_of jobs i) ?s")
      case (Inr t)
      with \<open>case visit_all jobs n (needs_of jobs i) ?s of Inr t \<Rightarrow> _ t | Inl e \<Rightarrow> _ e\<close>
      have t: "search_ok jobs t" "search_extends ?s t" "\<forall>d \<in> set (needs_of jobs i). colour t d = 2" by auto
      from t(2) have st: "search_stack t = search_stack s @ [i]" by (simp add: search_extends_def)
      let ?u = "t\<lparr>colour := (colour t)(i := 2), search_stack := butlast (search_stack t)\<rparr>"
      have "search_extends s ?u" using t(2) white by (auto simp: search_extends_def)
      with search_pop [OF t(1) st t(3)] Inr n white show ?thesis by simp
    qed (use n white in auto)
  qed
next
  case (3 jobs fuel i "is" s)
  from 3(1) [OF 3(3)] 3(4-7) show ?case
  proof (cases "visit jobs fuel i s")
    case (Inr t)
    with 3(1) [OF 3(3)] 3(4-7) have t: "search_ok jobs t" "search_extends s t" "colour t i = 2" by auto
    from t(2) unseen_mono [OF t(2), of jobs] have "card (unseen jobs t) \<le> fuel" "search_stack t = search_stack s"
      using 3(5) card_mono [of "unseen jobs s" "unseen jobs t"] by (auto simp: unseen_def search_extends_def)
    with 3(2) [OF Inr t(1)] 3(4,6,7) Inr t show ?thesis
      by (auto simp: split: sum.splits intro: search_extends_trans) (auto simp: search_extends_def)
  qed auto
qed (simp add: search_extends_def)

text \<open>
  C16. The check of the job graph is exact: it accepts a workflow precisely when every job named in a
  \<^verbatim>\<open>needs\<close> exists and the needs have no cycle; when it reports a cycle, the reported jobs do form one, each needing
  the next; when it reports a missing job, that job is needed and does not exist. The search never runs out of fuel.
\<close>

theorem job_graph_accepted_iff_acyclic:
  "(validateJobGraph jobs = Inr () \<longleftrightarrow>
      (\<forall>i \<in> fst ` set jobs. set (needs_of jobs i) \<subseteq> fst ` set jobs) \<and> acyclic (needs_rel jobs)) \<and>
    (case validateJobGraph jobs of
       Inl (DependencyCycle c) \<Rightarrow> is_cycle (needs_rel jobs) c
     | Inl (NeedsMissing i d) \<Rightarrow> (i, d) \<in> needs_rel jobs \<and> d \<notin> fst ` set jobs
     | Inl GraphOutOfFuel \<Rightarrow> False
     | Inr _ \<Rightarrow> True)"
proof (cases "missing_need jobs (sort (map fst jobs))")
  case (Some p)
  then obtain i d where p: "missing_need jobs (sort (map fst jobs)) = Some (i, d)" by (cases p) auto
  with missing_need_None [of jobs "sort (map fst jobs)"] have "\<not> (\<forall>i \<in> fst ` set jobs. set (needs_of jobs i) \<subseteq> fst ` set jobs)"
    by auto
  with p missing_need_Some [OF p] show ?thesis by (simp add: validateJobGraph_def)
next
  case None
  with missing_need_None [of jobs "sort (map fst jobs)"] have known: "\<forall>i \<in> fst ` set jobs. set (needs_of jobs i) \<subseteq> fst ` set jobs"
    by auto
  let ?s = "\<lparr>colour = (\<lambda>_. 0), search_stack = []\<rparr> :: search"
  have "card (unseen jobs ?s) \<le> length jobs"
    using card_length [of "map fst jobs"] by (simp add: unseen_def)
  then have r: "case visit_all jobs (length jobs) (sort (map fst jobs)) ?s of
      Inr t \<Rightarrow> search_ok jobs t \<and> search_extends ?s t \<and> (\<forall>i \<in> set (sort (map fst jobs)). colour t i = 2)
    | Inl e \<Rightarrow> \<exists>c. e = DependencyCycle c \<and> is_cycle (needs_rel jobs) c"
    by (intro visit_correct(2) [OF known]) (auto simp: search_ok_def)
  show ?thesis
  proof (cases "visit_all jobs (length jobs) (sort (map fst jobs)) ?s")
    case (Inl e)
    with r None known cycle_not_acyclic show ?thesis by (auto simp: validateJobGraph_def)
  next
    case (Inr t)
    with r have t: "search_ok jobs t" "\<forall>i \<in> fst ` set jobs. colour t i = 2" by auto
    have "(i, i) \<notin> (needs_rel jobs)\<^sup>+" for i
    proof
      assume c: "(i, i) \<in> (needs_rel jobs)\<^sup>+"
      then obtain d where "(i, d) \<in> needs_rel jobs" by (meson tranclD)
      then have "i \<in> fst ` set jobs"
        by (cases "map_of jobs i") (auto simp: needs_rel_def needs_of_def dest: map_of_SomeD intro: rev_image_eqI)
      with t c show False by (auto simp: search_ok_def)
    qed
    with Inr None known show ?thesis by (simp add: validateJobGraph_def acyclic_def)
  qed
qed

theorem job_graph_accepted_iff_acyclic_witness:
  "validateJobGraph [(''build'', []), (''test'', [''build'']), (''ship'', [''test'', ''build''])] = Inr () \<and>
   acyclic (needs_rel [(''build'', []), (''test'', [''build'']), (''ship'', [''test'', ''build''])]) \<and>
   (\<exists>c. validateJobGraph [(''a'', [''b'']), (''b'', [''a''])] = Inl (DependencyCycle c) \<and>
      is_cycle (needs_rel [(''a'', [''b'']), (''b'', [''a''])]) c)"
proof -
  have a: "validateJobGraph [(''build'', []), (''test'', [''build'']), (''ship'', [''test'', ''build''])] = Inr ()" by code_simp
  have b: "validateJobGraph [(''a'', [''b'']), (''b'', [''a''])] = Inl (DependencyCycle [''a'', ''b'', ''a''])" by code_simp
  show ?thesis
    using job_graph_accepted_iff_acyclic [of "[(''build'', []), (''test'', [''build'']), (''ship'', [''test'', ''build''])]"]
      job_graph_accepted_iff_acyclic [of "[(''a'', [''b'']), (''b'', [''a''])]"] by (simp add: a b)
qed

end
