(* ===== verification/WorkflowExpressions.thy ===== *)
theory WorkflowExpressions
  imports ExprEval
begin

text \<open>
  Where a workflow uses expressions, \<^verbatim>\<open>src/internal/workflow/expression_context.go\<close> and the evaluation functions of
  \<^verbatim>\<open>src/internal/workflow/workflow.go\<close>: the contexts each place may read, job conditions with their implicit success gate,
  concurrency groups, timeouts, names and labels.

  The numbers of a context are those of the expression model; \<^verbatim>\<open>fmt.Sprint\<close> of a number is the field \<open>env_sprint\<close>.
\<close>

section \<open>Places and their contexts\<close>

datatype ExpressionSite = ExpressionWorkflowConcurrency | ExpressionWorkflowEnvironment | ExpressionJobCondition
  | ExpressionJobStrategy | ExpressionJobConfiguration | ExpressionJobEnvironment | ExpressionJobOutput | ExpressionStep
  | ExpressionStepCondition | ExpressionActionInputDefault | ExpressionCompositeStep | ExpressionCompositeCondition
  | ExpressionCompositeOutput | ExpressionActionPreCondition | ExpressionActionPostCondition

fun ExpressionAvailability :: "ExpressionSite \<Rightarrow> Availability" where
  "ExpressionAvailability ExpressionWorkflowConcurrency = NewAvailability [''github'', ''inputs'', ''vars'']"
| "ExpressionAvailability ExpressionWorkflowEnvironment =
     NewAvailability [''github'', ''open_actions'', ''secrets'', ''inputs'', ''vars'']"
| "ExpressionAvailability ExpressionJobCondition =
     WithStatusFunctions (NewAvailability [''github'', ''open_actions'', ''needs'', ''vars'', ''inputs''])"
| "ExpressionAvailability ExpressionJobStrategy =
     NewAvailability [''github'', ''open_actions'', ''needs'', ''vars'', ''inputs'']"
| "ExpressionAvailability ExpressionJobConfiguration =
     NewAvailability [''github'', ''open_actions'', ''needs'', ''strategy'', ''matrix'', ''vars'', ''inputs'']"
| "ExpressionAvailability ExpressionJobEnvironment =
     NewAvailability [''github'', ''open_actions'', ''needs'', ''strategy'', ''matrix'', ''vars'', ''secrets'', ''inputs'']"
| "ExpressionAvailability ExpressionJobOutput =
     NewAvailability [''github'', ''open_actions'', ''needs'', ''strategy'', ''matrix'', ''job'', ''runner'', ''env'', ''vars'',
       ''secrets'', ''steps'', ''inputs'']"
| "ExpressionAvailability ExpressionStep =
     WithHashFiles (NewAvailability [''github'', ''open_actions'', ''needs'', ''strategy'', ''matrix'', ''job'', ''runner'', ''env'',
       ''vars'', ''secrets'', ''steps'', ''inputs''])"
| "ExpressionAvailability ExpressionStepCondition =
     WithHashFiles (WithStatusFunctions (NewAvailability [''github'', ''open_actions'', ''needs'', ''strategy'', ''matrix'', ''job'',
       ''runner'', ''env'', ''vars'', ''steps'', ''inputs'']))"
| "ExpressionAvailability ExpressionActionInputDefault =
     WithHashFiles (NewAvailability [''github'', ''open_actions'', ''strategy'', ''matrix'', ''job'', ''runner''])"
| "ExpressionAvailability ExpressionCompositeStep =
     WithHashFiles (NewAvailability [''github'', ''open_actions'', ''strategy'', ''matrix'', ''job'', ''runner'', ''env'', ''inputs'',
       ''steps''])"
| "ExpressionAvailability ExpressionCompositeCondition =
     WithHashFiles (WithStatusFunctions (NewAvailability [''github'', ''open_actions'', ''strategy'', ''matrix'', ''job'', ''runner'',
       ''env'', ''inputs'', ''steps'']))"
| "ExpressionAvailability ExpressionActionPreCondition =
     WithHashFiles (WithStatusFunctions (NewAvailability [''github'', ''open_actions'', ''needs'', ''strategy'', ''matrix'', ''job'',
       ''runner'', ''env'', ''vars'', ''inputs'']))"
| "ExpressionAvailability ExpressionActionPostCondition =
     WithHashFiles (WithStatusFunctions (NewAvailability [''github'', ''open_actions'', ''needs'', ''strategy'', ''matrix'', ''job'',
       ''runner'', ''env'', ''vars'', ''steps'', ''inputs'']))"
| "ExpressionAvailability ExpressionCompositeOutput =
     NewAvailability [''github'', ''open_actions'', ''strategy'', ''matrix'', ''job'', ''runner'', ''env'', ''inputs'', ''steps'']"

section \<open>Templates, scalars and booleans\<close>

record 'n eval_env =
  env_ops :: "'n float_ops"
  env_hash :: hash_env
  env_sprint :: "'n \<Rightarrow> string"

datatype plan_error =
    TemplateInvalid string template_error
  | EvaluationInvalid string eval_error
  | ResultNotScalar string
  | ResultNotBoolean string
  | NotWholeExpression string
  | FieldEmpty string
  | FieldTooLong string
  | NotExpression string
  | BadTimeout
  | BadLabel
  | RepeatedLabel string

definition MaxConditionBytes :: nat where "MaxConditionBytes = 65536"
definition maxJobNameLength :: nat where "maxJobNameLength = 256"
definition maxConcurrencyGroupLength :: nat where "maxConcurrencyGroupLength = 256"
definition DefaultJobTimeoutMinutes :: int where "DefaultJobTimeoutMinutes = 360"

definition containsExpression :: "string \<Rightarrow> bool" where
  "containsExpression s = str_contains s ''${{''"

definition scalarString :: "'n eval_env \<Rightarrow> 'n any \<Rightarrow> string option" where
  "scalarString env v =
     (case v of
        StrAny s \<Rightarrow> Some s
      | BoolAny b \<Rightarrow> Some (format_bool b)
      | NumAny n \<Rightarrow> Some (env_sprint env n)
      | _ \<Rightarrow> None)"

definition parse_field :: "'n eval_env \<Rightarrow> string \<Rightarrow> string \<Rightarrow> plan_error + 'n Program" where
  "parse_field env field input = (case ParseTemplate (env_ops env) input of Inl e \<Rightarrow> Inl (TemplateInvalid field e) | Inr p \<Rightarrow> Inr p)"

definition evaluate_field :: "'n eval_env \<Rightarrow> string \<Rightarrow> 'n Program \<Rightarrow> 'n Context \<Rightarrow> plan_error + 'n EvalResult" where
  "evaluate_field env field p c =
     (case Evaluate (env_ops env) (env_hash env) p c of Inl e \<Rightarrow> Inl (EvaluationInvalid field e) | Inr r \<Rightarrow> Inr r)"

definition text_field :: "'n eval_env \<Rightarrow> string \<Rightarrow> string \<Rightarrow> 'n Context \<Rightarrow> plan_error + string" where
  "text_field env field input c =
     and_then (parse_field env field input) (\<lambda>p.
     and_then (evaluate_field env field p c) (\<lambda>r.
       case result_string (env_ops env) r of None \<Rightarrow> Inl (ResultNotScalar field) | Some t \<Rightarrow> Inr t))"

definition validateTemplate :: "'n eval_env \<Rightarrow> string \<Rightarrow> string \<Rightarrow> Availability \<Rightarrow> plan_error + unit" where
  "validateTemplate env field input a =
     and_then (parse_field env field input) (\<lambda>p.
       case Validate p a of Some e \<Rightarrow> Inl (EvaluationInvalid field e) | None \<Rightarrow> Inr ())"

record BooleanExpression =
  bool_Value :: bool
  bool_Expression :: string
  expressionSet :: bool

definition usesExpression :: "BooleanExpression \<Rightarrow> bool" where
  "usesExpression b \<longleftrightarrow> expressionSet b \<or> bool_Expression b \<noteq> []"

definition validateBooleanExpression :: "'n eval_env \<Rightarrow> string \<Rightarrow> BooleanExpression \<Rightarrow> Availability \<Rightarrow> plan_error + unit" where
  "validateBooleanExpression env field input a =
     (if \<not> usesExpression input then Inr ()
      else if length (bool_Expression input) > MaxConditionBytes then Inl (FieldTooLong field)
      else and_then (parse_field env field (bool_Expression input)) (\<lambda>p.
        if \<not> whole p then Inl (NotWholeExpression field)
        else case Validate p a of Some e \<Rightarrow> Inl (EvaluationInvalid field e) | None \<Rightarrow> Inr ()))"

definition evaluateBooleanExpression :: "'n eval_env \<Rightarrow> string \<Rightarrow> BooleanExpression \<Rightarrow> 'n Context \<Rightarrow> plan_error + bool" where
  "evaluateBooleanExpression env field input c =
     (if \<not> usesExpression input then Inr (bool_Value input)
      else and_then (parse_field env field (bool_Expression input)) (\<lambda>p.
        and_then (evaluate_field env field p c) (\<lambda>r.
          case result_any r of BoolAny b \<Rightarrow> Inr b | _ \<Rightarrow> Inl (ResultNotBoolean field))))"

section \<open>Conditions and concurrency groups\<close>

definition EvaluateJobCondition :: "'n eval_env \<Rightarrow> string \<Rightarrow> 'n Context \<Rightarrow> plan_error + bool" where
  "EvaluateJobCondition env input c =
     (let status = (case context_status c of
            None \<Rightarrow> \<lparr>status_success = True, status_failure = False, status_cancelled = False\<rparr>
          | Some s \<Rightarrow> s)
      in if trim_space input = [] then Inr (status_success status)
         else case ParseCondition (env_ops env) input of
           Inl e \<Rightarrow> Inl (TemplateInvalid ''if'' e)
         | Inr p \<Rightarrow>
             if \<not> UsesStatusFunction p \<and> \<not> status_success status then Inr False
             else and_then (evaluate_field env ''if'' p
                 (c\<lparr>availability := ExpressionAvailability ExpressionJobCondition, context_status := Some status\<rparr>)) (\<lambda>r.
               Inr (result_bool (env_ops env) r)))"

record job_concurrency_spec =
  conc_Group :: string
  conc_CancelInProgress :: BooleanExpression

definition evaluate_group :: "'n eval_env \<Rightarrow> job_concurrency_spec \<Rightarrow> 'n Context \<Rightarrow> plan_error + string \<times> bool" where
  "evaluate_group env spec c =
     (if conc_Group spec = [] then Inr ([], False)
      else and_then (text_field env ''concurrency group'' (conc_Group spec) c) (\<lambda>g.
        if g = [] then Inl (FieldEmpty ''concurrency group'')
        else if rune_count g > maxConcurrencyGroupLength then Inl (FieldTooLong ''concurrency group'')
        else and_then (evaluateBooleanExpression env ''cancel-in-progress'' (conc_CancelInProgress spec) c) (\<lambda>b. Inr (g, b))))"

definition EvaluateJobConcurrency :: "'n eval_env \<Rightarrow> job_concurrency_spec \<Rightarrow> 'n Context \<Rightarrow> plan_error + string \<times> bool" where
  "EvaluateJobConcurrency env spec c = evaluate_group env spec (c\<lparr>availability := ExpressionAvailability ExpressionJobConfiguration\<rparr>)"

definition EvaluateConcurrencyContext :: "'n eval_env \<Rightarrow> job_concurrency_spec \<Rightarrow> 'n Context \<Rightarrow> plan_error + string \<times> bool" where
  "EvaluateConcurrencyContext env spec c =
     evaluate_group env spec (c\<lparr>availability := ExpressionAvailability ExpressionWorkflowConcurrency\<rparr>)"

section \<open>Names, timeouts and labels\<close>

record JobTimeout =
  timeout_minutes :: int
  timeout_expression :: string
  timeout_configured :: bool

definition timeout_Minutes :: "JobTimeout \<Rightarrow> int" where
  "timeout_Minutes t = (if \<not> timeout_configured t then DefaultJobTimeoutMinutes else timeout_minutes t)"

text \<open>
  The value of an expression is never one of Go's integer types, so only the cases of float64 and string remain.
\<close>

definition positiveWholeMinutes :: "'n float_ops \<Rightarrow> 'n any \<Rightarrow> int option" where
  "positiveWholeMinutes ops v =
     (case v of
        NumAny n \<Rightarrow>
          if fl_isnan ops n \<or> fl_less ops n (fl_one ops) \<or> \<not> fl_less ops n (fl_of_nat ops (2 ^ 63)) \<or> \<not> fl_integral ops n then None
          else Some (fl_int ops n)
      | StrAny s \<Rightarrow> (case atoi s of Some k \<Rightarrow> if k > 0 then Some k else None | None \<Rightarrow> None)
      | _ \<Rightarrow> None)"

definition validate_timeout :: "'n eval_env \<Rightarrow> JobTimeout \<Rightarrow> plan_error + unit" where
  "validate_timeout env t =
     (if \<not> timeout_configured t then Inr ()
      else if timeout_expression t \<noteq> [] then
        (if length (timeout_expression t) > MaxConditionBytes then Inl (FieldTooLong ''timeout-minutes'')
         else validateTemplate env ''timeout-minutes'' (timeout_expression t) (ExpressionAvailability ExpressionJobConfiguration))
      else if timeout_minutes t < 1 then Inl BadTimeout else Inr ())"

definition evaluate_timeout :: "'n eval_env \<Rightarrow> JobTimeout \<Rightarrow> 'n Context \<Rightarrow> plan_error + JobTimeout" where
  "evaluate_timeout env t c =
     (if \<not> timeout_configured t
      then Inr \<lparr>timeout_minutes = DefaultJobTimeoutMinutes, timeout_expression = [], timeout_configured = True\<rparr>
      else if timeout_expression t = [] then Inr t
      else and_then (parse_field env ''timeout-minutes'' (timeout_expression t)) (\<lambda>p.
        and_then (evaluate_field env ''timeout-minutes'' p c) (\<lambda>r.
          case positiveWholeMinutes (env_ops env) (result_any r) of
            None \<Rightarrow> Inl BadTimeout
          | Some k \<Rightarrow> Inr \<lparr>timeout_minutes = k, timeout_expression = [], timeout_configured = True\<rparr>)))"

definition label_char :: "char \<Rightarrow> bool" where
  "label_char c \<longleftrightarrow> ascii_upper c \<or> ascii_lower c \<or> ascii_digit c"

definition runnerLabelPattern :: "string \<Rightarrow> bool" where
  "runnerLabelPattern s \<longleftrightarrow> s \<noteq> [] \<and> label_char (hd s) \<and> list_all (\<lambda>c. label_char c \<or> c \<in> set ''._-'') (tl s)"

fun labels_loop :: "'n eval_env \<Rightarrow> 'n Context \<Rightarrow> string list \<Rightarrow> string list \<Rightarrow> plan_error + string list" where
  "labels_loop env c seen [] = Inr []"
| "labels_loop env c seen (input # inputs) =
     and_then (text_field env ''runs-on label'' input c) (\<lambda>label.
       if label = [] \<or> length label > 128 \<or> \<not> runnerLabelPattern label then Inl BadLabel
       else if to_lower label \<in> set seen then Inl (RepeatedLabel (to_lower label))
       else and_then (labels_loop env c (to_lower label # seen) inputs) (\<lambda>ls. Inr (to_lower label # ls)))"

record planned_job =
  plan_Name :: string
  plan_RunsOn :: "string list"
  plan_Timeout :: JobTimeout
  plan_ContinueOnError :: BooleanExpression

definition EvaluateJob :: "'n eval_env \<Rightarrow> planned_job \<Rightarrow> 'n Context \<Rightarrow> plan_error + planned_job" where
  "EvaluateJob env job ctx =
     (let c = ctx\<lparr>availability := ExpressionAvailability ExpressionJobConfiguration\<rparr>
      in and_then (text_field env ''name'' (plan_Name job) c) (\<lambda>name.
           if rune_count name > maxJobNameLength then Inl (FieldTooLong ''name'')
           else and_then (evaluate_timeout env (plan_Timeout job) c) (\<lambda>t.
             and_then (evaluateBooleanExpression env ''continue-on-error'' (plan_ContinueOnError job) c) (\<lambda>b.
             and_then (labels_loop env c [] (plan_RunsOn job)) (\<lambda>labels.
               Inr \<lparr>plan_Name = name, plan_RunsOn = labels, plan_Timeout = t,
                 plan_ContinueOnError = \<lparr>bool_Value = b, bool_Expression = [], expressionSet = False\<rparr>\<rparr>)))))"

section \<open>What the evaluations guarantee\<close>

lemma validate_args_None: "validate_args a ns = None \<longleftrightarrow> (\<forall>n \<in> set ns. validate a n = None)"
  by (induction ns) (auto split: option.splits)

lemma unavailable_context:
  "\<not> allowsContext a name \<Longrightarrow> usesContext name n \<Longrightarrow> validate a n \<noteq> None"
proof (induction n)
  case (CallNode f args)
  then obtain x where "x \<in> set args" "validate a x \<noteq> None" by (auto simp: list_ex_iff)
  then have "validate_args a args \<noteq> None" by (auto simp: validate_args_None)
  then show ?case by (auto split: option.splits)
qed (auto simp: allowsContext_def equal_fold_def split: option.splits)

text \<open>
  C27. Secrets are only readable where the workflow format allows it: a program that mentions the
  \<^verbatim>\<open>secrets\<close> context is refused, before anything of it is evaluated, everywhere except in the environment of a workflow or job, in
  job outputs and in steps. In particular job and step conditions, matrices, names and concurrency groups cannot read it.
\<close>

theorem secrets_only_where_allowed:
  assumes "UsesContext p ''secrets''"
    and "site \<notin> {ExpressionWorkflowEnvironment, ExpressionJobEnvironment, ExpressionJobOutput, ExpressionStep}"
  shows "\<exists>e. Evaluate ops h p (c\<lparr>availability := ExpressionAvailability site\<rparr>) = Inl e"
proof -
  have "\<not> allowsContext (ExpressionAvailability site) ''secrets''"
    using assms(2)
    by (cases site) (simp_all add: allowsContext_def NewAvailability_def WithStatusFunctions_def WithHashFiles_def
        to_lower_def lower_char_def ascii_upper_def byte_def)
  moreover from assms(1) obtain n where "n \<in> set (segment_nodes p)" "usesContext ''secrets'' n"
    by (auto simp: UsesContext_def list_ex_iff)
  ultimately have "Validate p (ExpressionAvailability site) \<noteq> None"
    using unavailable_context [of "ExpressionAvailability site" "''secrets''" n] by (auto simp: Validate_def validate_args_None)
  then show ?thesis by (auto simp: Evaluate_def)
qed

definition leaking_program :: "int option Program" where
  "leaking_program =
     \<lparr>prog_segments = [ExpressionSegment (CallNode ''always'' []), ExpressionSegment (PropertyNode (ContextNode ''Secrets'') ''TOKEN'')],
      whole = False\<rparr>"

theorem secrets_only_where_allowed_witness:
  "\<exists>e. Evaluate whole_ops no_files leaking_program (\<lparr>availability = NewAvailability [], Values = [], context_status = None\<rparr>
     \<lparr>availability := ExpressionAvailability ExpressionJobCondition\<rparr>) = Inl e"
proof -
  have "UsesContext leaking_program ''secrets''" by code_simp
  then show ?thesis by (rule secrets_only_where_allowed) simp
qed

text \<open>
  C29. The success gate of job conditions: when the jobs before it did not all succeed, a condition evaluates to true
  only if it calls one of the status functions; an empty condition then is false. Whether the gate closes does not depend on the
  contexts at all.
\<close>

theorem condition_needs_success:
  assumes "EvaluateJobCondition env input c = Inr True" "context_status c = Some s" "\<not> status_success s"
  shows "trim_space input \<noteq> [] \<and> (\<exists>p. ParseCondition (env_ops env) input = Inr p \<and> UsesStatusFunction p)"
  using assms by (auto simp: EvaluateJobCondition_def split: if_splits sum.splits)

definition whole_env :: "int option eval_env" where
  "whole_env = \<lparr>env_ops = whole_ops, env_hash = no_files, env_sprint = (\<lambda>_. ''0'')\<rparr>"

theorem condition_needs_success_witness:
  "EvaluateJobCondition whole_env ''failure() || false''
     \<lparr>availability = NewAvailability [], Values = [], context_status = Some \<lparr>status_success = False, status_failure = True, status_cancelled = False\<rparr>\<rparr> = Inr True \<and>
   (\<exists>p. ParseCondition (env_ops whole_env) ''failure() || false'' = Inr p \<and> UsesStatusFunction p)"
proof -
  have "EvaluateJobCondition whole_env ''failure() || false''
     \<lparr>availability = NewAvailability [], Values = [], context_status = Some \<lparr>status_success = False, status_failure = True, status_cancelled = False\<rparr>\<rparr> = Inr True"
    by code_simp
  with condition_needs_success [OF this] show ?thesis by simp
qed

lemma to_lower_label: "runnerLabelPattern l \<Longrightarrow> runnerLabelPattern (to_lower l)"
proof -
  have low: "label_char c \<Longrightarrow> label_char (lower_char c)" for c
    by (auto simp: label_char_def lower_char_def ascii_lower_def ascii_upper_def byte_def)
  have other: "c \<in> set ''._-'' \<Longrightarrow> lower_char c \<in> set ''._-''" for c
    by (auto simp: lower_char_def ascii_upper_def byte_def)
  assume "runnerLabelPattern l"
  then obtain c cs where "l = c # cs" "label_char c" "list_all (\<lambda>c. label_char c \<or> c \<in> set ''._-'') cs"
    by (cases l) (auto simp: runnerLabelPattern_def)
  then show ?thesis using low other by (auto simp: runnerLabelPattern_def to_lower_def list_all_iff)
qed

lemma labels_ok:
  "labels_loop env c seen inputs = Inr ls \<Longrightarrow>
     length ls = length inputs \<and> distinct ls \<and> set ls \<inter> set seen = {} \<and>
     list_all (\<lambda>l. runnerLabelPattern l \<and> length l \<le> 128 \<and> to_lower l = l) ls"
proof (induction inputs arbitrary: seen ls)
  case (Cons input inputs)
  from Cons.prems obtain l rest where l: "runnerLabelPattern l" "length l \<le> 128" "to_lower l \<notin> set seen"
      "labels_loop env c (to_lower l # seen) inputs = Inr rest" "ls = to_lower l # rest"
    by (auto simp: and_then_eq_Inr split: if_splits)
  have "to_lower (to_lower l) = to_lower l"
    by (auto simp: to_lower_def lower_char_def ascii_upper_def byte_def)
  moreover have "length (to_lower l) = length l" by (simp add: to_lower_def)
  ultimately show ?case using Cons.IH [OF l(4)] l to_lower_label [OF l(1)] by auto
qed simp

lemma timeout_positive:
  assumes "evaluate_timeout env t c = Inr t'" "validate_timeout env t = Inr ()"
    and pos: "\<And>v k. positiveWholeMinutes (env_ops env) v = Some k \<Longrightarrow> 1 \<le> k"
  shows "1 \<le> timeout_Minutes t' \<and> timeout_expression t' = []"
  using assms(1,2) by (auto simp: evaluate_timeout_def validate_timeout_def timeout_Minutes_def DefaultJobTimeoutMinutes_def
      and_then_eq_Inr dest: pos split: if_splits option.splits)

text \<open>
  A planned job is well formed: after its name, timeout, labels and failure policy have been evaluated,
  the name has at most 256 characters, the timeout is at least one minute, there is one label for each \<^verbatim>\<open>runs-on\<close> entry,
  and the labels are distinct, in lower case, of at most 128 bytes and in the label alphabet. No expression is left in it.
\<close>

theorem planned_job_well_formed:
  assumes "EvaluateJob env job c = Inr j" "validate_timeout env (plan_Timeout job) = Inr ()"
    and ints: "\<And>n. \<not> fl_isnan (env_ops env) n \<Longrightarrow> fl_integral (env_ops env) n \<Longrightarrow> \<not> fl_less (env_ops env) n (fl_one (env_ops env)) \<Longrightarrow>
      fl_less (env_ops env) n (fl_of_nat (env_ops env) (2 ^ 63)) \<Longrightarrow> 1 \<le> fl_int (env_ops env) n"
  shows "rune_count (plan_Name j) \<le> 256 \<and> 1 \<le> timeout_Minutes (plan_Timeout j) \<and> length (plan_RunsOn j) = length (plan_RunsOn job) \<and>
     distinct (plan_RunsOn j) \<and> list_all (\<lambda>l. runnerLabelPattern l \<and> length l \<le> 128 \<and> to_lower l = l) (plan_RunsOn j) \<and>
     \<not> usesExpression (plan_ContinueOnError j) \<and> timeout_expression (plan_Timeout j) = []"
proof -
  let ?c = "c\<lparr>availability := ExpressionAvailability ExpressionJobConfiguration\<rparr>"
  from assms(1) have j: "rune_count (plan_Name j) \<le> maxJobNameLength" "evaluate_timeout env (plan_Timeout job) ?c = Inr (plan_Timeout j)"
      "labels_loop env ?c [] (plan_RunsOn job) = Inr (plan_RunsOn j)" "\<not> usesExpression (plan_ContinueOnError j)"
    by (auto simp: EvaluateJob_def and_then_eq_Inr Let_def usesExpression_def simp del: ExpressionAvailability.simps split: if_splits)
  have "1 \<le> k" if "positiveWholeMinutes (env_ops env) v = Some k" for v k
    using that ints by (auto simp: positiveWholeMinutes_def split: any.splits if_splits option.splits)
  from timeout_positive [OF j(2) assms(2) this]
  have "1 \<le> timeout_Minutes (plan_Timeout j) \<and> timeout_expression (plan_Timeout j) = []" .
  with j labels_ok [OF j(3)] show ?thesis by (simp add: maxJobNameLength_def)
qed

definition small_job :: planned_job where
  "small_job = \<lparr>plan_Name = ''build'', plan_RunsOn = [''Linux'', ''x64''],
     plan_Timeout = \<lparr>timeout_minutes = 0, timeout_expression = ''${{ 5 }}'', timeout_configured = True\<rparr>,
     plan_ContinueOnError = \<lparr>bool_Value = False, bool_Expression = [], expressionSet = False\<rparr>\<rparr>"

theorem planned_job_well_formed_witness:
  "\<exists>j. EvaluateJob whole_env small_job \<lparr>availability = NewAvailability [], Values = [], context_status = None\<rparr> = Inr j \<and>
     plan_RunsOn j = [''linux'', ''x64''] \<and> distinct (plan_RunsOn j) \<and> 1 \<le> timeout_Minutes (plan_Timeout j)"
proof -
  define j where "j = \<lparr>plan_Name = ''build'', plan_RunsOn = [''linux'', ''x64''],
     plan_Timeout = \<lparr>timeout_minutes = 5, timeout_expression = [], timeout_configured = True\<rparr>,
     plan_ContinueOnError = \<lparr>bool_Value = False, bool_Expression = [], expressionSet = False\<rparr>\<rparr>"
  have e: "EvaluateJob whole_env small_job \<lparr>availability = NewAvailability [], Values = [], context_status = None\<rparr> = Inr j"
    unfolding j_def by code_simp
  have v: "validate_timeout whole_env (plan_Timeout small_job) = Inr ()" by code_simp
  have ints: "1 \<le> fl_int (env_ops whole_env) n" if "fl_integral (env_ops whole_env) n" "\<not> fl_less (env_ops whole_env) n (fl_one (env_ops whole_env))" for n
    using that by (cases n) (auto simp: whole_env_def whole_ops_def)
  from planned_job_well_formed [OF e v ints] have "distinct (plan_RunsOn j) \<and> 1 \<le> timeout_Minutes (plan_Timeout j)" by blast
  with e show ?thesis by (auto simp: j_def)
qed

end
