(* ===== verification/WorkflowMatrix.thy ===== *)
theory WorkflowMatrix
  imports WorkflowExpressions
begin

text \<open>
  The matrix of a job, \<^verbatim>\<open>src/internal/workflow/workflow.go\<close>: validation of a strategy, resolution of the expressions in
  axes, includes and excludes, and the expansion into combinations, which prunes excluded combinations while
  it builds them.

  A Go map is an association list; the order of an axis map, an entry or a mapping stands for the order of iteration.
\<close>

section \<open>Definitions\<close>

type_synonym 'n entry = "(string \<times> 'n any) list"

record 'n MatrixAxis =
  axis_Expression :: string
  axis_Values :: "'n any list"

record 'n MatrixEntries =
  entries_Expression :: string
  entries_Values :: "'n entry list"

record 'n MatrixDefinition =
  matrix_Expression :: string
  Axes :: "(string \<times> 'n MatrixAxis) list"
  Include :: "'n MatrixEntries"
  Exclude :: "'n MatrixEntries"

record 'n Strategy =
  strategy_Matrix :: "'n MatrixDefinition"
  strategy_MaxParallel :: int
  strategy_FailFast :: bool
  configured :: bool
  maxParallelSet :: bool

record 'n resolvedMatrix =
  rm_axes :: "(string \<times> 'n any list) list"
  rm_include :: "'n entry list"
  rm_exclude :: "'n entry list"

datatype matrix_error =
    MatrixPlan plan_error
  | MatrixMissing
  | MatrixMixed string
  | TooManyAxes
  | TooManyFields
  | BadKey string
  | AxisEmpty string
  | TooManyValues string
  | ValueNotScalar string
  | ValueTooLong string
  | EntryEmpty string
  | EntryTooLarge string
  | NotMapping string
  | NotArray string
  | TooManyJobs
  | NoJobs
  | BadMaxParallel
  | MatrixPanic

definition maxMatrixJobs :: nat where "maxMatrixJobs = 256"
definition maxMatrixValueLength :: nat where "maxMatrixValueLength = 1024"
definition maxMapEntries :: nat where "maxMapEntries = 100"
definition maxMapKeyLength :: nat where "maxMapKeyLength = 256"
definition MaxMapValueBytes :: nat where "MaxMapValueBytes = 65536"

definition bad_key :: "string \<Rightarrow> bool" where
  "bad_key name \<longleftrightarrow> name = [] \<or> rune_count name > maxMapKeyLength"

definition plan_step :: "plan_error + 'a \<Rightarrow> matrix_error + 'a" where
  "plan_step r = (case r of Inl e \<Rightarrow> Inl (MatrixPlan e) | Inr x \<Rightarrow> Inr x)"

definition is_expression :: "'n eval_env \<Rightarrow> 'n any \<Rightarrow> bool" where
  "is_expression env v = (case scalarString env v of None \<Rightarrow> False | Some s \<Rightarrow> containsExpression s)"

definition matrixValuesContainExpressions :: "'n eval_env \<Rightarrow> 'n any list \<Rightarrow> bool" where
  "matrixValuesContainExpressions env vs = list_ex (is_expression env) vs"

definition matrixEntriesContainExpressions :: "'n eval_env \<Rightarrow> 'n entry list \<Rightarrow> bool" where
  "matrixEntriesContainExpressions env es = list_ex (\<lambda>e. list_ex (is_expression env) (map snd e)) es"

definition MatrixRequiresEvaluation :: "'n eval_env \<Rightarrow> 'n Strategy \<Rightarrow> bool" where
  "MatrixRequiresEvaluation env s =
     (let m = strategy_Matrix s
      in matrix_Expression m \<noteq> [] \<or> entries_Expression (Include m) \<noteq> [] \<or> entries_Expression (Exclude m) \<noteq> [] \<or>
         list_ex (\<lambda>(name, axis). axis_Expression axis \<noteq> [] \<or> matrixValuesContainExpressions env (axis_Values axis)) (Axes m) \<or>
         matrixEntriesContainExpressions env (entries_Values (Include m)) \<or>
         matrixEntriesContainExpressions env (entries_Values (Exclude m)))"

definition value_expressions :: "'n eval_env \<Rightarrow> 'n any list \<Rightarrow> string list" where
  "value_expressions env vs =
     List.map_filter (\<lambda>v. case scalarString env v of None \<Rightarrow> None | Some s \<Rightarrow> if containsExpression s then Some s else None) vs"

definition matrixExpressions :: "'n eval_env \<Rightarrow> 'n MatrixDefinition \<Rightarrow> string list" where
  "matrixExpressions env m =
     [matrix_Expression m, entries_Expression (Include m), entries_Expression (Exclude m)] @
     concat (map (\<lambda>(name, axis). axis_Expression axis # value_expressions env (axis_Values axis)) (Axes m)) @
     concat (map (\<lambda>e. value_expressions env (map snd e)) (entries_Values (Include m) @ entries_Values (Exclude m)))"

definition reads_needs :: "'n eval_env \<Rightarrow> string \<Rightarrow> bool" where
  "reads_needs env input = (case ParseTemplate (env_ops env) input of Inl _ \<Rightarrow> False | Inr p \<Rightarrow> UsesContext p ''needs'')"

definition MatrixUsesNeeds :: "'n eval_env \<Rightarrow> 'n Strategy \<Rightarrow> bool" where
  "MatrixUsesNeeds env s = list_ex (reads_needs env) (matrixExpressions env (strategy_Matrix s))"

definition JobPlanningUsesNeeds :: "'n eval_env \<Rightarrow> 'n Strategy \<Rightarrow> planned_job \<Rightarrow> bool" where
  "JobPlanningUsesNeeds env s job \<longleftrightarrow>
     MatrixUsesNeeds env s \<or>
     list_ex (reads_needs env) ([plan_Name job, timeout_expression (plan_Timeout job), bool_Expression (plan_ContinueOnError job)] @ plan_RunsOn job)"

section \<open>Resolution\<close>

definition evaluateMatrixExpression :: "'n eval_env \<Rightarrow> string \<Rightarrow> string \<Rightarrow> 'n Context \<Rightarrow> matrix_error + 'n any" where
  "evaluateMatrixExpression env field input c =
     plan_step (and_then (parse_field env field input) (\<lambda>p.
       and_then (evaluate_field env field p c) (\<lambda>r. Inr (result_any r))))"

definition resolveMatrixValue :: "'n eval_env \<Rightarrow> string \<Rightarrow> 'n Context \<Rightarrow> bool \<Rightarrow> 'n any \<Rightarrow> matrix_error + 'n any" where
  "resolveMatrixValue env field c evaluateExpressions v =
     and_then (case v of
         StrAny input \<Rightarrow>
           if evaluateExpressions \<and> containsExpression input then evaluateMatrixExpression env field input c else Inr v
       | _ \<Rightarrow> Inr v) (\<lambda>v.
       case scalarString env v of
         None \<Rightarrow> Inl (ValueNotScalar field)
       | Some s \<Rightarrow> if rune_count s > maxMatrixValueLength then Inl (ValueTooLong field) else Inr v)"

definition resolveMatrixValues :: "'n eval_env \<Rightarrow> string \<Rightarrow> 'n Context \<Rightarrow> bool \<Rightarrow> 'n any list \<Rightarrow> matrix_error + 'n any list" where
  "resolveMatrixValues env field c evaluateExpressions vs =
     (if vs = [] then Inl (AxisEmpty field)
      else if length vs > maxMatrixJobs then Inl (TooManyValues field)
      else map_res (resolveMatrixValue env field c evaluateExpressions) vs)"

definition resolveMatrixEntry :: "'n eval_env \<Rightarrow> string \<Rightarrow> 'n Context \<Rightarrow> bool \<Rightarrow> 'n entry \<Rightarrow> matrix_error + 'n entry" where
  "resolveMatrixEntry env field c evaluateExpressions entry =
     (if entry = [] then Inl (EntryEmpty field)
      else if length entry > maxMapEntries then Inl (EntryTooLarge field)
      else map_res (\<lambda>(name, v).
        if bad_key name then Inl (BadKey name)
        else and_then (resolveMatrixValue env field c evaluateExpressions v) (\<lambda>v. Inr (name, v))) entry)"

definition empty_context :: "'n Context" where
  "empty_context = \<lparr>availability = \<lparr>contexts = [], statusFunctions = False, hashFiles = False\<rparr>, Values = [], context_status = None\<rparr>"

definition matrixEntryList :: "'n eval_env \<Rightarrow> string \<Rightarrow> 'n any \<Rightarrow> matrix_error + 'n entry list" where
  "matrixEntryList env field v =
     (case v of
        SeqAny items \<Rightarrow>
          if length items > maxMatrixJobs then Inl (TooManyValues field)
          else map_res (\<lambda>item. case item of MapAny entry \<Rightarrow> resolveMatrixEntry env field empty_context False entry | _ \<Rightarrow> Inl (NotMapping field)) items
      | _ \<Rightarrow> Inl (NotArray field))"

definition resolveMatrixEntries :: "'n eval_env \<Rightarrow> string \<Rightarrow> 'n MatrixEntries \<Rightarrow> 'n Context \<Rightarrow> matrix_error + 'n entry list" where
  "resolveMatrixEntries env name entries c =
     (if entries_Expression entries = [] then map_res (resolveMatrixEntry env name c True) (entries_Values entries)
      else and_then (evaluateMatrixExpression env name (entries_Expression entries) c) (matrixEntryList env name))"

fun mapping_loop :: "'n eval_env \<Rightarrow> 'n entry \<Rightarrow> 'n resolvedMatrix \<Rightarrow> matrix_error + 'n resolvedMatrix" where
  "mapping_loop env [] m = Inr m"
| "mapping_loop env ((name, v) # rest) m =
     (if name = ''include'' then
        and_then (matrixEntryList env name v) (\<lambda>es. mapping_loop env rest (m\<lparr>rm_include := es\<rparr>))
      else if name = ''exclude'' then
        and_then (matrixEntryList env name v) (\<lambda>es. mapping_loop env rest (m\<lparr>rm_exclude := es\<rparr>))
      else if bad_key name then Inl (BadKey name)
      else case v of
        SeqAny vs \<Rightarrow> mapping_loop env rest (m\<lparr>rm_axes := rm_axes m @ [(name, vs)]\<rparr>)
      | _ \<Rightarrow> Inl (NotArray name))"

definition resolvedMatrixFromMapping :: "'n eval_env \<Rightarrow> 'n entry \<Rightarrow> matrix_error + 'n resolvedMatrix" where
  "resolvedMatrixFromMapping env mapping =
     (if length mapping > maxMapEntries + 2 then Inl TooManyFields
      else and_then (mapping_loop env mapping \<lparr>rm_axes = [], rm_include = [], rm_exclude = []\<rparr>) (\<lambda>m.
        if length (rm_axes m) > maxMapEntries then Inl TooManyAxes
        else and_then (map_res (\<lambda>(name, vs). resolveMatrixValues env name empty_context False vs) (rm_axes m)) (\<lambda>_. Inr m)))"

definition resolve_axis :: "'n eval_env \<Rightarrow> 'n Context \<Rightarrow> string \<times> 'n MatrixAxis \<Rightarrow> matrix_error + string \<times> 'n any list" where
  "resolve_axis env c = (\<lambda>(name, axis).
     and_then (if axis_Expression axis \<noteq> [] then
         and_then (evaluateMatrixExpression env name (axis_Expression axis) c) (\<lambda>v.
           case v of SeqAny vs \<Rightarrow> Inr (vs, False) | _ \<Rightarrow> Inl (NotArray name))
       else Inr (axis_Values axis, True)) (\<lambda>(vs, evaluateValues).
     and_then (resolveMatrixValues env name c evaluateValues vs) (\<lambda>vs. Inr (name, vs))))"

definition resolveMatrixDefinition :: "'n eval_env \<Rightarrow> 'n MatrixDefinition \<Rightarrow> 'n Context \<Rightarrow> matrix_error + 'n resolvedMatrix" where
  "resolveMatrixDefinition env d c =
     (if matrix_Expression d \<noteq> [] then
        and_then (evaluateMatrixExpression env ''matrix'' (matrix_Expression d) c) (\<lambda>v.
          case v of MapAny mapping \<Rightarrow> resolvedMatrixFromMapping env mapping | _ \<Rightarrow> Inl (NotMapping ''matrix''))
      else
        and_then (map_res (resolve_axis env c) (Axes d)) (\<lambda>as.
        and_then (resolveMatrixEntries env ''include'' (Include d) c) (\<lambda>inc.
        and_then (resolveMatrixEntries env ''exclude'' (Exclude d) c) (\<lambda>exc.
        Inr \<lparr>rm_axes = as, rm_include = inc, rm_exclude = exc\<rparr>))))"

section \<open>Expansion\<close>

definition matrixValuesEqual :: "'n eval_env \<Rightarrow> 'n any \<Rightarrow> 'n any \<Rightarrow> bool" where
  "matrixValuesEqual env l r =
     (case (scalarString env l, scalarString env r) of (Some a, Some b) \<Rightarrow> a = b | _ \<Rightarrow> False)"

definition entry_matches :: "'n eval_env \<Rightarrow> 'n entry \<Rightarrow> 'n entry \<Rightarrow> bool" where
  "entry_matches env values entry =
     list_all (\<lambda>(name, v). case map_of values name of None \<Rightarrow> False | Some actual \<Rightarrow> matrixValuesEqual env actual v) entry"

definition matrixEntryMatchesAny :: "'n eval_env \<Rightarrow> 'n entry \<Rightarrow> 'n entry list \<Rightarrow> bool" where
  "matrixEntryMatchesAny env values entries = list_ex (entry_matches env values) entries"

text \<open>\<^verbatim>\<open>values[name]\<close> of a name that is not there is \<^verbatim>\<open>nil\<close>.\<close>

definition partial_match :: "'n eval_env \<Rightarrow> 'n entry \<Rightarrow> string list \<Rightarrow> 'n entry \<Rightarrow> bool" where
  "partial_match env values assigned entry \<longleftrightarrow>
     length entry \<le> length (remdups assigned) \<and>
     list_all (\<lambda>(name, v). name \<in> set assigned \<and>
       matrixValuesEqual env (case map_of values name of None \<Rightarrow> NilAny | Some x \<Rightarrow> x) v) entry"

definition matrixPartialMatchAny :: "'n eval_env \<Rightarrow> 'n entry \<Rightarrow> string list \<Rightarrow> 'n entry list \<Rightarrow> bool" where
  "matrixPartialMatchAny env values assigned entries = list_ex (partial_match env values assigned) entries"

definition matrixEntriesCompatible :: "'n eval_env \<Rightarrow> 'n entry \<Rightarrow> 'n entry \<Rightarrow> bool" where
  "matrixEntriesCompatible env original inc =
     list_all (\<lambda>(name, v). case map_of original name of None \<Rightarrow> True | Some existing \<Rightarrow> matrixValuesEqual env existing v) inc"

fun count_combinations :: "'n any list list \<Rightarrow> nat \<Rightarrow> matrix_error + nat" where
  "count_combinations [] n = Inr n"
| "count_combinations (vs # vss) n =
     (if vs = [] then Inl MatrixPanic
      else if n > maxMatrixJobs div length vs then Inl TooManyJobs
      else count_combinations vss (n * length vs))"

text \<open>
  The closure \<^verbatim>\<open>visit\<close>: the names assigned so far, the axes that are left, the values and the combinations found.
  The second function is the loop over the values of one axis.
\<close>

fun visit_axes :: "'n eval_env \<Rightarrow> 'n entry list \<Rightarrow> string list \<Rightarrow> (string \<times> 'n any list) list \<Rightarrow> 'n entry \<Rightarrow> 'n entry list \<Rightarrow>
    matrix_error + 'n entry list"
  and visit_values :: "'n eval_env \<Rightarrow> 'n entry list \<Rightarrow> string list \<Rightarrow> string \<Rightarrow> 'n any list \<Rightarrow> (string \<times> 'n any list) list \<Rightarrow>
    'n entry \<Rightarrow> 'n entry list \<Rightarrow> matrix_error + 'n entry list" where
  "visit_axes env exc assigned [] values found =
     (if matrixEntryMatchesAny env values exc then Inr found
      else if length (found @ [values]) > maxMatrixJobs then Inl TooManyJobs
      else Inr (found @ [values]))"
| "visit_axes env exc assigned ((name, vs) # rest) values found =
     visit_values env exc (assigned @ [name]) name vs rest values found"
| "visit_values env exc assigned name [] rest values found = Inr found"
| "visit_values env exc assigned name (v # vs) rest values found =
     (let now = AList.update name v values
      in and_then (if matrixPartialMatchAny env now assigned exc then Inr found
                   else visit_axes env exc assigned rest now found)
           (visit_values env exc assigned name vs rest values))"

definition merge_entry :: "'n entry \<Rightarrow> 'n entry \<Rightarrow> 'n entry" where
  "merge_entry target inc = foldl (\<lambda>t (name, v). AList.update name v t) target inc"

fun apply_include :: "'n eval_env \<Rightarrow> 'n entry list \<Rightarrow> 'n entry list \<Rightarrow> 'n entry \<Rightarrow> matrix_error + 'n entry list \<times> bool" where
  "apply_include env [] combinations inc = Inr (combinations, False)"
| "apply_include env (o1 # originals) [] inc = Inl MatrixPanic"
| "apply_include env (o1 # originals) (c # combinations) inc =
     (if \<not> matrixEntriesCompatible env o1 inc then
        and_then (apply_include env originals combinations inc) (\<lambda>(cs, applied). Inr (c # cs, applied))
      else if length (merge_entry c inc) > maxMapEntries then Inl (EntryTooLarge ''combination'')
      else and_then (apply_include env originals combinations inc) (\<lambda>(cs, applied). Inr (merge_entry c inc # cs, True)))"

fun include_loop :: "'n eval_env \<Rightarrow> 'n entry list \<Rightarrow> 'n entry list \<Rightarrow> 'n entry list \<Rightarrow> matrix_error + 'n entry list" where
  "include_loop env originals [] combinations = Inr combinations"
| "include_loop env originals (inc # incs) combinations =
     and_then (apply_include env originals combinations inc) (\<lambda>(cs, applied).
       let cs = (if applied then cs else cs @ [inc])
       in if length cs > maxMatrixJobs then Inl TooManyJobs else include_loop env originals incs cs)"

definition expandMatrix :: "'n eval_env \<Rightarrow> 'n resolvedMatrix \<Rightarrow> matrix_error + 'n entry list" where
  "expandMatrix env m =
     (if rm_axes m = [] then
        (if rm_include m = [] then Inl MatrixMissing
         else if length (rm_include m) > maxMatrixJobs then Inl TooManyJobs
         else Inr (rm_include m))
      else
        (let axs = sort_key fst (rm_axes m)
         in and_then (count_combinations (map snd axs) 1) (\<lambda>_.
            and_then (visit_axes env (rm_exclude m) [] axs [] []) (\<lambda>combinations.
            and_then (include_loop env combinations (rm_include m) combinations) (\<lambda>combinations.
              if combinations = [] then Inl NoJobs else Inr combinations)))))"

definition EvaluateMatrix :: "'n eval_env \<Rightarrow> 'n Strategy \<Rightarrow> 'n Context \<Rightarrow> matrix_error + 'n entry list" where
  "EvaluateMatrix env s c =
     (if \<not> configured s \<and> matrix_Expression (strategy_Matrix s) = [] \<and> Axes (strategy_Matrix s) = [] \<and>
         entries_Values (Include (strategy_Matrix s)) = [] \<and> entries_Expression (Include (strategy_Matrix s)) = []
      then Inr []
      else and_then (resolveMatrixDefinition env (strategy_Matrix s) (c\<lparr>availability := ExpressionAvailability ExpressionJobStrategy\<rparr>))
             (expandMatrix env))"

definition MatrixCombinations :: "'n eval_env \<Rightarrow> 'n Strategy \<Rightarrow> 'n entry list" where
  "MatrixCombinations env s =
     (if MatrixRequiresEvaluation env s then []
      else case EvaluateMatrix env s empty_context of Inl _ \<Rightarrow> [] | Inr cs \<Rightarrow> cs)"

section \<open>Validation of a strategy\<close>

definition validateMatrixExpression :: "'n eval_env \<Rightarrow> string \<Rightarrow> string \<Rightarrow> matrix_error + unit" where
  "validateMatrixExpression env field input =
     (if length input > MaxMapValueBytes then Inl (ValueTooLong field)
      else if \<not> containsExpression input then Inl (MatrixPlan (NotExpression field))
      else plan_step (validateTemplate env field input (ExpressionAvailability ExpressionJobStrategy)))"

definition validateMatrixValue :: "'n eval_env \<Rightarrow> string \<Rightarrow> 'n any \<Rightarrow> matrix_error + unit" where
  "validateMatrixValue env field v =
     (case scalarString env v of
        None \<Rightarrow> Inl (ValueNotScalar field)
      | Some s \<Rightarrow>
          if rune_count s > maxMatrixValueLength then Inl (ValueTooLong field)
          else if containsExpression s then plan_step (validateTemplate env field s (ExpressionAvailability ExpressionJobStrategy))
          else Inr ())"

definition each :: "('a \<Rightarrow> matrix_error + unit) \<Rightarrow> 'a list \<Rightarrow> matrix_error + unit" where
  "each f xs = and_then (map_res f xs) (\<lambda>_. Inr ())"

definition validate_entry :: "'n eval_env \<Rightarrow> string \<Rightarrow> 'n entry \<Rightarrow> matrix_error + unit" where
  "validate_entry env field entry =
     (if entry = [] then Inl (EntryEmpty field)
      else if length entry > maxMapEntries then Inl (EntryTooLarge field)
      else each (\<lambda>(key, v). if bad_key key then Inl (BadKey key) else validateMatrixValue env field v) entry)"

definition validateMatrixEntries :: "'n eval_env \<Rightarrow> string \<Rightarrow> 'n MatrixEntries \<Rightarrow> matrix_error + unit" where
  "validateMatrixEntries env field es =
     (if entries_Expression es \<noteq> [] then
        (if entries_Values es \<noteq> [] then Inl (MatrixMixed field) else validateMatrixExpression env field (entries_Expression es))
      else if length (entries_Values es) > maxMatrixJobs then Inl (TooManyValues field)
      else each (validate_entry env field) (entries_Values es))"

definition validate_axis :: "'n eval_env \<Rightarrow> string \<times> 'n MatrixAxis \<Rightarrow> matrix_error + unit" where
  "validate_axis env = (\<lambda>(name, axis).
     if bad_key name then Inl (BadKey name)
     else if axis_Expression axis = [] \<and> axis_Values axis = [] then Inl (AxisEmpty name)
     else and_then (if axis_Expression axis \<noteq> [] then
            (if axis_Values axis \<noteq> [] then Inl (MatrixMixed name) else validateMatrixExpression env name (axis_Expression axis))
          else Inr ()) (\<lambda>_.
       if length (axis_Values axis) > maxMatrixJobs then Inl (TooManyValues name)
       else each (validateMatrixValue env name) (axis_Values axis)))"

definition validateStrategy :: "'n eval_env \<Rightarrow> 'n Strategy \<Rightarrow> matrix_error + unit" where
  "validateStrategy env s =
     (let m = strategy_Matrix s
      in if \<not> configured s then Inr ()
         else if matrix_Expression m = [] \<and> Axes m = [] \<and> entries_Values (Include m) = [] \<and> entries_Expression (Include m) = []
         then Inl MatrixMissing
         else and_then
           (if matrix_Expression m \<noteq> [] then
              (if Axes m \<noteq> [] \<or> entries_Values (Include m) \<noteq> [] \<or> entries_Expression (Include m) \<noteq> [] \<or>
                  entries_Values (Exclude m) \<noteq> [] \<or> entries_Expression (Exclude m) \<noteq> []
               then Inl (MatrixMixed ''matrix'') else validateMatrixExpression env ''matrix'' (matrix_Expression m))
            else if length (Axes m) > maxMapEntries then Inl TooManyAxes else Inr ()) (\<lambda>_.
         and_then (each (validate_axis env) (Axes m)) (\<lambda>_.
         and_then (validateMatrixEntries env ''include'' (Include m)) (\<lambda>_.
         and_then (validateMatrixEntries env ''exclude'' (Exclude m)) (\<lambda>_.
           if maxParallelSet s \<and> strategy_MaxParallel s < 1 then Inl BadMaxParallel
           else if \<not> MatrixRequiresEvaluation env s
           then and_then (EvaluateMatrix env s empty_context) (\<lambda>_. Inr ())
           else Inr ())))))"

section \<open>The expansion is the filtered product with its includes\<close>

text \<open>
  The reference: all combinations of the axes in the order of their names, without those an exclude
  entry matches; each is then extended by the includes compatible with it, and the includes compatible with none
  are appended.
\<close>

fun product_entries :: "(string \<times> 'n any list) list \<Rightarrow> 'n entry list" where
  "product_entries [] = [[]]"
| "product_entries ((name, vs) # rest) = concat (map (\<lambda>v. map ((#) (name, v)) (product_entries rest)) vs)"

definition matrix_originals :: "'n eval_env \<Rightarrow> 'n resolvedMatrix \<Rightarrow> 'n entry list" where
  "matrix_originals env m =
     filter (\<lambda>e. \<not> matrixEntryMatchesAny env e (rm_exclude m)) (product_entries (sort_key fst (rm_axes m)))"

definition with_includes :: "'n eval_env \<Rightarrow> 'n entry list \<Rightarrow> 'n entry \<Rightarrow> 'n entry" where
  "with_includes env incs e = foldl merge_entry e (filter (matrixEntriesCompatible env e) incs)"

definition matrix_spec :: "'n eval_env \<Rightarrow> 'n resolvedMatrix \<Rightarrow> 'n entry list" where
  "matrix_spec env m =
     map (with_includes env (rm_include m)) (matrix_originals env m) @
     filter (\<lambda>inc. \<forall>e \<in> set (matrix_originals env m). \<not> matrixEntriesCompatible env e inc) (rm_include m)"

definition axes_size :: "(string \<times> 'n any list) list \<Rightarrow> nat" where
  "axes_size axs = prod_list (map (length \<circ> snd) axs)"

lemma length_product_entries: "length (product_entries axs) = axes_size axs"
proof (induction axs)
  case (Cons a axs)
  then show ?case by (cases a) (simp add: axes_size_def length_concat comp_def sum_list_triv)
qed (simp add: axes_size_def)

lemma product_entries_keys: "e \<in> set (product_entries axs) \<Longrightarrow> map fst e = map fst axs"
proof (induction axs arbitrary: e)
  case (Cons a axs)
  then show ?case by (cases a) auto
qed simp

lemma axes_size_pos: "(\<forall>a \<in> set axs. snd a \<noteq> []) \<Longrightarrow> 0 < axes_size axs"
  by (induction axs) (auto simp: axes_size_def)

lemma count_combinations_iff:
  assumes "n \<le> maxMatrixJobs"
  shows "count_combinations (map snd axs) n = Inr k \<longleftrightarrow>
     (\<forall>a \<in> set axs. snd a \<noteq> []) \<and> k = n * axes_size axs \<and> n * axes_size axs \<le> maxMatrixJobs"
  using assms
proof (induction axs arbitrary: n)
  case (Cons a axs)
  show ?case
  proof (cases "snd a = []")
    case False
    then have pos: "0 < length (snd a)" by simp
    have le: "n > maxMatrixJobs div length (snd a) \<longleftrightarrow> n * length (snd a) > maxMatrixJobs"
      using pos by (metis div_less_iff_less_mult linorder_not_less mult.commute less_eq_div_iff_mult_less_eq)
    have "n * length (snd a) > maxMatrixJobs \<Longrightarrow> (\<forall>a \<in> set axs. snd a \<noteq> []) \<Longrightarrow> n * (length (snd a) * axes_size axs) > maxMatrixJobs"
      using axes_size_pos [of axs] by (metis (no_types, lifting) less_le_trans mult.assoc mult.right_neutral mult_le_mono2 Suc_leI One_nat_def)
    with False le Cons.IH [of "n * length (snd a)"] show ?thesis
      by (auto simp: axes_size_def mult.assoc linorder_not_less)
  qed simp
qed (auto simp: axes_size_def)

lemma update_new: "name \<notin> fst ` set vals \<Longrightarrow> AList.update name v vals = vals @ [(name, v)]"
  by (induction vals) auto

lemma pruned_extensions_match:
  assumes "partial_match env vals (map fst vals) entry"
  shows "entry_matches env (vals @ others) entry"
proof -
  have "case map_of (vals @ others) name of None \<Rightarrow> False | Some actual \<Rightarrow> matrixValuesEqual env actual v"
    if "(name, v) \<in> set entry" for name v
  proof -
    from assms that have n: "name \<in> fst ` set vals"
      "matrixValuesEqual env (case map_of vals name of None \<Rightarrow> NilAny | Some x \<Rightarrow> x) v"
      by (auto simp: partial_match_def list_all_iff)
    from n(1) obtain x where "map_of vals name = Some x" by (metis map_of_eq_None_iff option.exhaust)
    with n(2) show ?thesis by (simp add: map_add_def)
  qed
  then show ?thesis by (auto simp: entry_matches_def list_all_iff)
qed

lemma pruned_any:
  assumes "matrixPartialMatchAny env vals (map fst vals) exc"
  shows "matrixEntryMatchesAny env (vals @ others) exc"
  using assms pruned_extensions_match by (fastforce simp: matrixPartialMatchAny_def matrixEntryMatchesAny_def list_ex_iff)

definition kept :: "'n eval_env \<Rightarrow> 'n entry list \<Rightarrow> 'n entry list \<Rightarrow> 'n entry list" where
  "kept env exc es = filter (\<lambda>e. \<not> matrixEntryMatchesAny env e exc) es"

lemma kept_append [simp]: "kept env exc (xs @ ys) = kept env exc xs @ kept env exc ys"
  by (simp add: kept_def)

lemma visit_axes_product:
  fixes axs rest :: "(string \<times> 'n any list) list"
  shows "map fst vals = assigned \<Longrightarrow> distinct (assigned @ map fst axs) \<Longrightarrow> length found + axes_size axs \<le> maxMatrixJobs \<Longrightarrow>
      visit_axes env exc assigned axs vals found = Inr (found @ kept env exc (map ((@) vals) (product_entries axs)))"
    and "map fst vals @ [name] = assigned \<Longrightarrow> distinct (assigned @ map fst rest) \<Longrightarrow>
      length found + length vs * axes_size rest \<le> maxMatrixJobs \<Longrightarrow>
      visit_values env exc assigned name vs rest vals found =
        Inr (found @ kept env exc (map ((@) vals) (product_entries ((name, vs) # rest))))"
proof (induction env exc assigned axs vals found and env exc assigned name vs rest vals found rule: visit_axes_visit_values.induct)
  case (1 env exc assigned vals found)
  then show ?case by (simp add: kept_def axes_size_def)
next
  case (2 env exc assigned name vs rest vals found)
  then show ?case by (simp add: axes_size_def)
next
  case (3 env exc assigned name rest vals found)
  then show ?case by (simp add: kept_def)
next
  case (4 env exc assigned name v vs rest vals found)
  let ?now = "AList.update name v vals"
  have now: "?now = vals @ [(name, v)]" by (rule update_new) (use 4(3,4) in force)
  have keys: "map fst ?now = assigned" using now 4(3) by simp
  let ?part = "kept env exc (map ((@) ?now) (product_entries rest))"
  have part: "(if matrixPartialMatchAny env ?now assigned exc then Inr found else visit_axes env exc assigned rest ?now found) =
      (Inr (found @ ?part) :: matrix_error + 'n entry list)"
  proof (cases "matrixPartialMatchAny env ?now assigned exc")
    case True
    then have "matrixEntryMatchesAny env (?now @ others) exc" for others using pruned_any [of env ?now exc others] keys by simp
    then have "?part = []" by (simp add: kept_def filter_empty_conv)
    with True show ?thesis by simp
  next
    case False
    with 4(1) [OF refl False keys] 4(4,5) show ?thesis by simp
  qed
  have "length ?part \<le> axes_size rest"
    using length_filter_le [of _ "map ((@) ?now) (product_entries rest)"] by (simp add: kept_def length_product_entries)
  with 4(5) have "length (found @ ?part) + length vs * axes_size rest \<le> maxMatrixJobs" by simp
  with 4(2) [OF refl part 4(3,4)] have
    "visit_values env exc assigned name vs rest vals (found @ ?part) =
      Inr ((found @ ?part) @ kept env exc (map ((@) vals) (product_entries ((name, vs) # rest))))" by simp
  moreover have "visit_values env exc assigned name (v # vs) rest vals found = visit_values env exc assigned name vs rest vals (found @ ?part)"
    by (simp only: visit_values.simps Let_def part and_then_Inr)
  moreover have "map ((@) (vals @ [(name, v)])) es = map (\<lambda>x. vals @ (name, v) # x) es" for es by simp
  ultimately show ?case using now by (simp add: comp_def)
qed

text \<open>The includes: one pass over the originals for each include entry.\<close>

lemma update_length: "length e \<le> length (AList.update k v e)"
  by (induction e) auto

lemma merge_length: "length e \<le> length (merge_entry e inc)"
proof -
  have "length e \<le> length (foldl (\<lambda>t (name, v). AList.update name v t) e inc)" for inc :: "'a entry"
    by (induction inc arbitrary: e) (auto intro: order_trans [OF update_length])
  then show ?thesis by (simp add: merge_entry_def)
qed

lemma foldl_merge_length: "length e \<le> length (foldl merge_entry e incs)"
  by (induction incs arbitrary: e) (auto intro: order_trans [OF merge_length])

lemma apply_include_iff:
  "apply_include env os (map f os @ extra) inc = Inr r \<longleftrightarrow>
     (\<forall>e \<in> set os. matrixEntriesCompatible env e inc \<longrightarrow> length (merge_entry (f e) inc) \<le> maxMapEntries) \<and>
     r = (map (\<lambda>e. if matrixEntriesCompatible env e inc then merge_entry (f e) inc else f e) os @ extra,
          \<exists>e \<in> set os. matrixEntriesCompatible env e inc)"
  by (induction os arbitrary: r) (auto simp: and_then_eq_Inr linorder_not_less)

definition unmatched :: "'n eval_env \<Rightarrow> 'n entry list \<Rightarrow> 'n entry list \<Rightarrow> 'n entry list" where
  "unmatched env os incs = filter (\<lambda>inc. \<forall>e \<in> set os. \<not> matrixEntriesCompatible env e inc) incs"

definition merged :: "'n eval_env \<Rightarrow> ('n entry \<Rightarrow> 'n entry) \<Rightarrow> 'n entry list \<Rightarrow> 'n entry \<Rightarrow> 'n entry" where
  "merged env f incs e = foldl merge_entry (f e) (filter (matrixEntriesCompatible env e) incs)"

definition include_limits :: "'n eval_env \<Rightarrow> 'n entry list \<Rightarrow> ('n entry \<Rightarrow> 'n entry) \<Rightarrow> 'n entry list \<Rightarrow> nat \<Rightarrow> bool" where
  "include_limits env os f incs k \<longleftrightarrow>
     (\<forall>e \<in> set os. (\<exists>inc \<in> set incs. matrixEntriesCompatible env e inc) \<longrightarrow> length (merged env f incs e) \<le> maxMapEntries) \<and>
     (incs \<noteq> [] \<longrightarrow> length os + k + length (unmatched env os incs) \<le> maxMatrixJobs)"

lemma size_steps: "(c \<Longrightarrow> a \<le> b) \<Longrightarrow> (c \<Longrightarrow> \<not> p \<Longrightarrow> b = a) \<Longrightarrow>
    ((c \<longrightarrow> a \<le> M) \<and> (p \<longrightarrow> b \<le> M)) = (c \<or> p \<longrightarrow> b \<le> (M :: nat))"
  by auto

lemma include_loop_iff:
  "include_loop env os incs (map f os @ extra) = Inr cs \<longleftrightarrow>
     include_limits env os f incs (length extra) \<and> cs = map (merged env f incs) os @ extra @ unmatched env os incs"
proof (induction incs arbitrary: f extra)
  case Nil
  have "merged env f [] = f" by (rule ext) (simp add: merged_def)
  then show ?case by (auto simp: include_limits_def unmatched_def)
next
  case (Cons inc incs)
  let ?c = "\<lambda>e. matrixEntriesCompatible env e inc"
  let ?f = "\<lambda>e. if ?c e then merge_entry (f e) inc else f e"
  let ?x = "if \<exists>e \<in> set os. ?c e then extra else extra @ [inc]"
  have m: "merged env f (inc # incs) e = merged env ?f incs e" for e by (simp add: merged_def)
  have u: "unmatched env os (inc # incs) = (if \<exists>e \<in> set os. ?c e then unmatched env os incs else inc # unmatched env os incs)"
    by (auto simp: unmatched_def)
  have step: "include_loop env os (inc # incs) (map f os @ extra) = Inr cs \<longleftrightarrow>
      (\<forall>e \<in> set os. ?c e \<longrightarrow> length (merge_entry (f e) inc) \<le> maxMapEntries) \<and>
      length os + length ?x \<le> maxMatrixJobs \<and> include_loop env os incs (map ?f os @ ?x) = Inr cs"
    by (auto simp: and_then_eq_Inr apply_include_iff Let_def linorder_not_less)
  let ?p = "\<lambda>e. \<exists>i \<in> set incs. matrixEntriesCompatible env e i"
  have one: "((?c e \<longrightarrow> length (merge_entry (f e) inc) \<le> maxMapEntries) \<and> (?p e \<longrightarrow> length (merged env ?f incs e) \<le> maxMapEntries)) =
      (?c e \<or> ?p e \<longrightarrow> length (merged env ?f incs e) \<le> maxMapEntries)" for e
  proof (rule size_steps)
    show "?c e \<Longrightarrow> length (merge_entry (f e) inc) \<le> length (merged env ?f incs e)"
      by (simp add: merged_def foldl_merge_length)
    show "?c e \<Longrightarrow> \<not> ?p e \<Longrightarrow> length (merged env ?f incs e) = length (merge_entry (f e) inc)"
      by (simp add: merged_def filter_False)
  qed
  have size: "(\<forall>e \<in> set os. ?c e \<longrightarrow> length (merge_entry (f e) inc) \<le> maxMapEntries) \<and>
      (\<forall>e \<in> set os. ?p e \<longrightarrow> length (merged env ?f incs e) \<le> maxMapEntries) \<longleftrightarrow>
      (\<forall>e \<in> set os. (\<exists>i \<in> set (inc # incs). matrixEntriesCompatible env e i) \<longrightarrow> length (merged env f (inc # incs) e) \<le> maxMapEntries)"
    unfolding ball_conj_distrib [symmetric] one m by simp
  have funs: "map (merged env f (inc # incs)) os = map (merged env ?f incs) os" by (simp add: m)
  have tail: "?x @ unmatched env os incs = extra @ unmatched env os (inc # incs)" by (simp add: u)
  have jobs: "length os + length ?x \<le> maxMatrixJobs \<and> (incs \<noteq> [] \<longrightarrow> length os + length ?x + length (unmatched env os incs) \<le> maxMatrixJobs) \<longleftrightarrow>
      length os + length extra + length (unmatched env os (inc # incs)) \<le> maxMatrixJobs"
    by (cases "incs = []") (auto simp: u unmatched_def)
  show ?case
    unfolding step Cons.IH funs tail include_limits_def using size jobs by blast
qed

lemma axes_size_sort: "axes_size (sort_key fst axs) = axes_size axs"
  unfolding axes_size_def by (metis mset_map mset_sort prod_mset_prod_list)

text \<open>The limits on the includes: no extended combination has more than 100 values, and there are at most 256 jobs.\<close>

definition matrix_within_limits :: "'n eval_env \<Rightarrow> 'n resolvedMatrix \<Rightarrow> bool" where
  "matrix_within_limits env m \<longleftrightarrow>
     (\<forall>a \<in> set (rm_axes m). snd a \<noteq> []) \<and> axes_size (rm_axes m) \<le> maxMatrixJobs \<and>
     (\<forall>e \<in> set (matrix_originals env m). (\<exists>inc \<in> set (rm_include m). matrixEntriesCompatible env e inc) \<longrightarrow>
        length (with_includes env (rm_include m) e) \<le> maxMapEntries) \<and>
     matrix_spec env m \<noteq> [] \<and> length (matrix_spec env m) \<le> maxMatrixJobs"

text \<open>
  C15. The expansion of a matrix, which prunes excluded combinations while it builds them and applies the
  includes in place, computes exactly the reference: the product of the axes without the excluded combinations, each extended by the
  includes that fit it, followed by the includes that fit none. It succeeds exactly when no axis is empty, the
  product and the result have at most 256 jobs, the result is not empty and no extended combination exceeds 100 values.
\<close>

theorem matrix_expansion_exact:
  assumes "rm_axes m \<noteq> []" "distinct (map fst (rm_axes m))"
  shows "expandMatrix env m = Inr cs \<longleftrightarrow> matrix_within_limits env m \<and> cs = matrix_spec env m"
proof -
  let ?axs = "sort_key fst (rm_axes m)"
  have d: "distinct (map fst ?axs)" using assms(2) by (metis distinct_map distinct_sort set_sort)
  have count: "count_combinations (map snd ?axs) 1 = Inr k \<longleftrightarrow>
      (\<forall>a \<in> set (rm_axes m). snd a \<noteq> []) \<and> k = axes_size (rm_axes m) \<and> axes_size (rm_axes m) \<le> maxMatrixJobs" for k
    using count_combinations_iff [of 1 ?axs k] by (simp add: axes_size_sort maxMatrixJobs_def)
  have visit: "visit_axes env (rm_exclude m) [] ?axs [] [] = Inr (matrix_originals env m)" if "axes_size (rm_axes m) \<le> maxMatrixJobs"
  proof -
    have "visit_axes env (rm_exclude m) [] ?axs [] [] = Inr ([] @ kept env (rm_exclude m) (map ((@) []) (product_entries ?axs)))"
      by (rule visit_axes_product(1)) (use d that in \<open>simp_all add: axes_size_sort\<close>)
    then show ?thesis by (simp add: kept_def matrix_originals_def map_idI)
  qed
  have small: "length (matrix_originals env m) \<le> axes_size (rm_axes m)"
    using length_filter_le [of _ "product_entries ?axs"] by (simp add: matrix_originals_def length_product_entries axes_size_sort)
  have merged: "merged env (\<lambda>e. e) (rm_include m) = with_includes env (rm_include m)"
    by (rule ext) (simp add: merged_def with_includes_def)
  have incs: "include_loop env (matrix_originals env m) (rm_include m) (matrix_originals env m) = Inr cs \<longleftrightarrow>
      include_limits env (matrix_originals env m) (\<lambda>e. e) (rm_include m) 0 \<and> cs = matrix_spec env m" for cs
    using include_loop_iff [of env "matrix_originals env m" "rm_include m" "\<lambda>e. e" "[]" cs]
    by (simp add: merged matrix_spec_def unmatched_def)
  have len: "length (matrix_spec env m) = length (matrix_originals env m) + length (unmatched env (matrix_originals env m) (rm_include m))"
    by (simp add: matrix_spec_def unmatched_def)
  have lim: "include_limits env (matrix_originals env m) (\<lambda>e. e) (rm_include m) 0 \<longleftrightarrow>
      (\<forall>e \<in> set (matrix_originals env m). (\<exists>inc \<in> set (rm_include m). matrixEntriesCompatible env e inc) \<longrightarrow>
        length (with_includes env (rm_include m) e) \<le> maxMapEntries) \<and> length (matrix_spec env m) \<le> maxMatrixJobs"
    if "axes_size (rm_axes m) \<le> maxMatrixJobs"
    using that small by (cases "rm_include m = []") (auto simp: include_limits_def merged len unmatched_def)
  show ?thesis
  proof (cases "(\<forall>a \<in> set (rm_axes m). snd a \<noteq> []) \<and> axes_size (rm_axes m) \<le> maxMatrixJobs")
    case True
    then have "expandMatrix env m = Inr cs \<longleftrightarrow>
        (\<exists>r. include_loop env (matrix_originals env m) (rm_include m) (matrix_originals env m) = Inr r \<and> r \<noteq> [] \<and> cs = r)"
      using assms(1) count [of "axes_size (rm_axes m)"] visit by (auto simp: expandMatrix_def Let_def and_then_eq_Inr split: if_splits)
    with True incs lim show ?thesis by (auto simp: matrix_within_limits_def)
  next
    case False
    then have "count_combinations (map snd ?axs) 1 \<noteq> Inr k" for k using count by blast
    then have "expandMatrix env m \<noteq> Inr cs" using assms(1) by (simp add: expandMatrix_def Let_def and_then_eq_Inr)
    with False show ?thesis by (auto simp: matrix_within_limits_def)
  qed
qed

definition small_matrix :: "int option resolvedMatrix" where
  "small_matrix =
     \<lparr>rm_axes = [(''os'', [StrAny ''linux'', StrAny ''mac'']), (''go'', [NumAny (Some 1), NumAny (Some 2)])],
      rm_include = [[(''os'', StrAny ''linux''), (''fast'', BoolAny True)], [(''os'', StrAny ''bsd'')]],
      rm_exclude = [[(''os'', StrAny ''mac''), (''go'', StrAny ''1'')]]\<rparr>"

definition sprint_env :: "int option eval_env" where
  "sprint_env = \<lparr>env_ops = whole_ops, env_hash = no_files, env_sprint = fl_format whole_ops\<rparr>"

theorem matrix_expansion_exact_witness:
  "expandMatrix sprint_env small_matrix = Inr
     [[(''go'', NumAny (Some 1)), (''os'', StrAny ''linux''), (''fast'', BoolAny True)],
      [(''go'', NumAny (Some 2)), (''os'', StrAny ''linux''), (''fast'', BoolAny True)],
      [(''go'', NumAny (Some 2)), (''os'', StrAny ''mac'')],
      [(''os'', StrAny ''bsd'')]] \<and>
   matrix_within_limits sprint_env small_matrix"
proof -
  have e: "expandMatrix sprint_env small_matrix = Inr
     [[(''go'', NumAny (Some 1)), (''os'', StrAny ''linux''), (''fast'', BoolAny True)],
      [(''go'', NumAny (Some 2)), (''os'', StrAny ''linux''), (''fast'', BoolAny True)],
      [(''go'', NumAny (Some 2)), (''os'', StrAny ''mac'')],
      [(''os'', StrAny ''bsd'')]]" by code_simp
  have m: "rm_axes small_matrix \<noteq> []" "distinct (map fst (rm_axes small_matrix))" by (simp_all add: small_matrix_def)
  from e iffD1 [OF matrix_expansion_exact [OF m] e] show ?thesis by blast
qed

text \<open>Resolution only passes on axes with at least one value, so the count of combinations never divides by zero.\<close>

lemma map_res_members:
  assumes "map_res f xs = Inr ys"
  shows "\<forall>x \<in> set xs. \<exists>y. f x = Inr y" "\<forall>y \<in> set ys. \<exists>x \<in> set xs. f x = Inr y"
proof -
  from assms have eq: "map f xs = map Inr ys" by (simp add: map_res_Inr_iff)
  then have img: "f ` set xs = Inr ` set ys" by (metis list.set_map)
  then show "\<forall>x \<in> set xs. \<exists>y. f x = Inr y" by blast
  show "\<forall>y \<in> set ys. \<exists>x \<in> set xs. f x = Inr y"
  proof
    fix y assume "y \<in> set ys"
    then have "Inr y \<in> f ` set xs" using img by blast
    then show "\<exists>x \<in> set xs. f x = Inr y" by (metis imageE)
  qed
qed

lemma resolved_values_nonempty: "resolveMatrixValues env field c b vs = Inr ws \<Longrightarrow> ws \<noteq> []"
  by (auto simp: resolveMatrixValues_def dest: map_res_length split: if_splits)

lemma resolved_axes_nonempty:
  "resolveMatrixDefinition env d c = Inr m \<Longrightarrow> \<forall>a \<in> set (rm_axes m). snd a \<noteq> []"
proof -
  assume m: "resolveMatrixDefinition env d c = Inr m"
  show ?thesis
  proof (cases "matrix_Expression d = []")
    case True
    with m obtain axs where axs: "map_res (resolve_axis env c) (Axes d) = Inr axs" "rm_axes m = axs"
      by (auto simp: resolveMatrixDefinition_def and_then_eq_Inr)
    have "snd b \<noteq> []" if "resolve_axis env c a = Inr b" for a b
      using that by (cases a) (auto simp: resolve_axis_def and_then_eq_Inr dest: resolved_values_nonempty)
    with axs map_res_members(2) [OF axs(1)] show ?thesis by blast
  next
    case False
    with m obtain v where "(case v of MapAny mapping \<Rightarrow> resolvedMatrixFromMapping env mapping | _ \<Rightarrow> Inl (NotMapping ''matrix'')) = Inr m"
      by (auto simp: resolveMatrixDefinition_def and_then_eq_Inr)
    then obtain mapping where "resolvedMatrixFromMapping env mapping = Inr m" by (cases v) auto
    then obtain ys where "map_res (\<lambda>(name, vs). resolveMatrixValues env name empty_context False vs) (rm_axes m) = Inr ys"
      by (auto simp: resolvedMatrixFromMapping_def and_then_eq_Inr split: if_splits)
    from map_res_members(1) [OF this]
    have "\<forall>a \<in> set (rm_axes m). \<exists>ws. resolveMatrixValues env (fst a) empty_context False (snd a) = Inr ws"
      by (simp add: split_beta)
    then show ?thesis by (auto simp: resolveMatrixValues_def split: if_splits)
  qed
qed

lemma map_res_Inl: "map_res f xs = Inl e \<Longrightarrow> \<exists>x \<in> set xs. f x = Inl e"
  by (induction xs) (auto simp: and_then_eq_Inl)

lemma plan_step_no_panic: "plan_step r \<noteq> Inl MatrixPanic"
  by (cases r) (simp_all add: plan_step_def)

lemma resolve_no_panic:
  shows "resolveMatrixValue env field c b v \<noteq> Inl MatrixPanic"
    and "resolveMatrixValues env field c b vs \<noteq> Inl MatrixPanic"
    and "resolveMatrixEntry env field c b entry \<noteq> Inl MatrixPanic"
    and "matrixEntryList env field v \<noteq> Inl MatrixPanic"
    and "resolveMatrixEntries env field es c \<noteq> Inl MatrixPanic"
proof -
  have one: "resolveMatrixValue env field c b v \<noteq> Inl MatrixPanic" for field c b v
    by (auto simp: resolveMatrixValue_def and_then_eq_Inl evaluateMatrixExpression_def plan_step_no_panic split: any.splits option.splits)
  show "resolveMatrixValue env field c b v \<noteq> Inl MatrixPanic" by (rule one)
  show "resolveMatrixValues env field c b vs \<noteq> Inl MatrixPanic"
    by (auto simp: resolveMatrixValues_def one dest: map_res_Inl)
  have entry: "resolveMatrixEntry env field c b entry \<noteq> Inl MatrixPanic" for field c b entry
    by (auto simp: resolveMatrixEntry_def one and_then_eq_Inl dest!: map_res_Inl split: if_splits)
  show "resolveMatrixEntry env field c b entry \<noteq> Inl MatrixPanic" by (rule entry)
  have item: "(case item of MapAny entry \<Rightarrow> resolveMatrixEntry env field empty_context False entry | _ \<Rightarrow> Inl (NotMapping field)) \<noteq> Inl MatrixPanic"
    for field item by (simp add: entry split: any.split)
  have entries: "matrixEntryList env field v \<noteq> Inl MatrixPanic" for field v
    using item by (auto simp: matrixEntryList_def dest!: map_res_Inl split: any.split)
  show "matrixEntryList env field v \<noteq> Inl MatrixPanic" by (rule entries)
  show "resolveMatrixEntries env field es c \<noteq> Inl MatrixPanic"
    by (auto simp: resolveMatrixEntries_def entry entries and_then_eq_Inl evaluateMatrixExpression_def plan_step_no_panic dest!: map_res_Inl)
qed

lemma mapping_no_panic: "mapping_loop env entry m \<noteq> Inl MatrixPanic"
  by (induction env entry m rule: mapping_loop.induct) (auto simp: and_then_eq_Inl resolve_no_panic split: any.split)

lemma definition_no_panic: "resolveMatrixDefinition env d c \<noteq> Inl MatrixPanic"
proof -
  have axis: "resolve_axis env c a \<noteq> Inl MatrixPanic" for a
    by (cases a) (auto simp: resolve_axis_def and_then_eq_Inl evaluateMatrixExpression_def plan_step_no_panic resolve_no_panic split: any.splits if_splits)
  have mapping: "resolvedMatrixFromMapping env mapping \<noteq> Inl MatrixPanic" for mapping
    by (auto simp: resolvedMatrixFromMapping_def and_then_eq_Inl mapping_no_panic resolve_no_panic dest!: map_res_Inl split: if_splits)
  have "(case v of MapAny mapping \<Rightarrow> resolvedMatrixFromMapping env mapping | _ \<Rightarrow> Inl (NotMapping ''matrix'')) \<noteq> Inl MatrixPanic" for v
    by (simp add: mapping split: any.split)
  then show ?thesis
    using axis by (auto simp: resolveMatrixDefinition_def and_then_eq_Inl evaluateMatrixExpression_def plan_step_no_panic resolve_no_panic dest!: map_res_Inl)
qed

lemma visit_axes_bounds:
  fixes axs rest :: "(string \<times> 'n any list) list"
  shows "length found \<le> maxMatrixJobs \<Longrightarrow> (case visit_axes env exc assigned axs vals found of Inl e \<Rightarrow> e \<noteq> MatrixPanic | Inr cs \<Rightarrow> length cs \<le> maxMatrixJobs)"
    and "length found \<le> maxMatrixJobs \<Longrightarrow> (case visit_values env exc assigned name vs rest vals found of Inl e \<Rightarrow> e \<noteq> MatrixPanic | Inr cs \<Rightarrow> length cs \<le> maxMatrixJobs)"
proof (induction env exc assigned axs vals found and env exc assigned name vs rest vals found rule: visit_axes_visit_values.induct)
  case (4 env exc assigned name v vs rest vals found)
  let ?now = "AList.update name v vals"
  let ?r = "if matrixPartialMatchAny env ?now assigned exc then Inr found else visit_axes env exc assigned rest ?now found"
  have "case ?r of Inl e \<Rightarrow> e \<noteq> MatrixPanic | Inr cs \<Rightarrow> length cs \<le> maxMatrixJobs"
    using 4(1) [OF refl] 4(3) by (cases "matrixPartialMatchAny env ?now assigned exc") simp_all
  then show ?case using 4(2) [OF refl] by (cases ?r) (simp_all only: visit_values.simps Let_def and_then_Inr and_then_Inl sum.case not_False_eq_True)
qed (simp_all add: linorder_not_less)

lemma include_loop_bounds:
  "length os \<le> length cs \<Longrightarrow> length cs \<le> maxMatrixJobs \<Longrightarrow>
     (case include_loop env os incs cs of Inl e \<Rightarrow> e \<noteq> MatrixPanic | Inr ds \<Rightarrow> length ds \<le> maxMatrixJobs)"
proof (induction incs arbitrary: cs)
  case (Cons inc incs)
  have step: "length os \<le> length cs \<Longrightarrow> (case apply_include env os cs inc of Inl e \<Rightarrow> e \<noteq> MatrixPanic | Inr (ds, _) \<Rightarrow> length ds = length cs)" for os cs
  proof (induction env os cs inc rule: apply_include.induct)
    case (3 env o1 originals c combinations inc)
    then show ?case by (cases "apply_include env originals combinations inc") auto
  qed simp_all
  show ?case
  proof (cases "apply_include env os cs inc")
    case (Inl e)
    with step [OF Cons.prems(1)] show ?thesis by simp
  next
    case (Inr r)
    obtain ds applied where r: "r = (ds, applied)" by (cases r)
    with step [OF Cons.prems(1)] Inr have "length ds = length cs" by simp
    with Inr r Cons.IH [of "if applied then ds else ds @ [inc]"] Cons.prems(1) show ?thesis
      by (simp add: Let_def linorder_not_less)
  qed
qed simp

text \<open>
  C32. Planning a matrix is bounded and cannot panic: whatever the strategy and the contexts, the count of
  combinations never divides by zero and no index is out of range, and a matrix that expands gives at most 256 jobs.
\<close>

theorem matrix_bounded_and_total:
  "case EvaluateMatrix env s c of Inl e \<Rightarrow> e \<noteq> MatrixPanic | Inr cs \<Rightarrow> length cs \<le> 256"
proof -
  have counts: "(\<forall>vs \<in> set vss. vs \<noteq> []) \<Longrightarrow> count_combinations vss n \<noteq> Inl MatrixPanic" for vss :: "'a any list list" and n
    by (induction vss arbitrary: n) simp_all
  have expand: "case expandMatrix env m of Inl e \<Rightarrow> e \<noteq> MatrixPanic | Inr cs \<Rightarrow> length cs \<le> maxMatrixJobs"
    if ne: "\<forall>a \<in> set (rm_axes m). snd a \<noteq> []" for m
  proof (cases "rm_axes m = []")
    case False
    let ?axs = "sort_key fst (rm_axes m)"
    have "count_combinations (map snd ?axs) 1 \<noteq> Inl MatrixPanic" by (rule counts) (use ne in auto)
    moreover have "case visit_axes env (rm_exclude m) [] ?axs [] [] of Inl e \<Rightarrow> e \<noteq> MatrixPanic | Inr cs \<Rightarrow> length cs \<le> maxMatrixJobs"
      by (rule visit_axes_bounds) simp
    moreover have "include_loop env cs (rm_include m) cs \<noteq> Inl MatrixPanic" "include_loop env cs (rm_include m) cs = Inr ds \<Longrightarrow> length ds \<le> maxMatrixJobs"
      if "length cs \<le> maxMatrixJobs" for cs ds
      using include_loop_bounds [OF order_refl that, of env "rm_include m"] by auto
    ultimately show ?thesis using False
      by (auto simp: expandMatrix_def Let_def and_then_eq_Inl and_then_eq_Inr split: sum.splits if_splits)
  qed (simp add: expandMatrix_def)
  show ?thesis
  proof (cases "resolveMatrixDefinition env (strategy_Matrix s) (c\<lparr>availability := ExpressionAvailability ExpressionJobStrategy\<rparr>)")
    case (Inl e)
    with definition_no_panic [of env "strategy_Matrix s" "c\<lparr>availability := ExpressionAvailability ExpressionJobStrategy\<rparr>"] show ?thesis
      by (auto simp del: ExpressionAvailability.simps simp: EvaluateMatrix_def)
  next
    case (Inr m)
    with expand [OF resolved_axes_nonempty [OF Inr]] show ?thesis unfolding maxMatrixJobs_def
      by (simp del: ExpressionAvailability.simps add: EvaluateMatrix_def)
  qed
qed

end
