(* ===== verification/EventPatterns.thy ===== *)
theory EventPatterns
  imports Prelude
begin

text \<open>
  The filter patterns of event triggers, \<^verbatim>\<open>compileGitHubPattern\<close>, \<^verbatim>\<open>compilePatterns\<close> and \<^verbatim>\<open>matchesPatterns\<close> of
  \<^verbatim>\<open>src/internal/workflow/workflow.go\<close>: the reading of a pattern rune by rune, the regular expression it becomes, and the
  list of patterns in which the last match decides.

  A pattern and a value are decoded into runes, a byte outside a valid UTF-8 sequence being the replacement rune as in Go.
  The regular expression is kept as a tree instead of its text: \<open>QuoteMeta\<close> is a quoted rune, \<open>OneOf\<close> a character class,
  \<open>OptionalDirs\<close>, \<open>AnyText\<close> and \<open>SegmentText\<close> are the texts \<^verbatim>\<open>(?:.*/)?\<close>, \<^verbatim>\<open>.*\<close> and \<^verbatim>\<open>[^/]*\<close>, and \<open>Group\<close> is an expression in
  parentheses with its quantifier. \<^verbatim>\<open>regexp.Compile\<close> accepts each of these texts, so it never fails here. The flag \<^verbatim>\<open>(?s)\<close> lets a
  dot match a line feed, and the anchors make the expression match the whole value.
\<close>

section \<open>Runes\<close>

type_synonym rune = nat

definition RuneError :: rune where "RuneError = 0xFFFD"

definition rune_value :: "string \<Rightarrow> rune" where
  "rune_value s =
     (let b = (\<lambda>i. byte (s ! i)) in
      if rune_size s = 2 then (b 0 - 192) * 64 + (b 1 - 128)
      else if rune_size s = 3 then (b 0 - 224) * 4096 + (b 1 - 128) * 64 + (b 2 - 128)
      else if rune_size s = 4 then (b 0 - 240) * 262144 + (b 1 - 128) * 4096 + (b 2 - 128) * 64 + (b 3 - 128)
      else if b 0 \<le> 127 then b 0 else RuneError)"

function runes :: "string \<Rightarrow> rune list" where
  "runes s = (if s = [] then [] else rune_value s # runes (drop (rune_size s) s))"
  by pat_completeness auto
termination
  by (relation "measure length") (auto simp: rune_size_pos)

declare runes.simps [simp del]

abbreviation star :: rune where "star \<equiv> 42"
abbreviation plus_sign :: rune where "plus_sign \<equiv> 43"
abbreviation hyphen :: rune where "hyphen \<equiv> 45"
abbreviation slash :: rune where "slash \<equiv> 47"
abbreviation question :: rune where "question \<equiv> 63"
abbreviation open_bracket :: rune where "open_bracket \<equiv> 91"
abbreviation backslash :: rune where "backslash \<equiv> 92"
abbreviation close_bracket :: rune where "close_bracket \<equiv> 93"

section \<open>Regular expressions\<close>

datatype rx = QuoteMeta rune | OneOf "rune list" | OptionalDirs | AnyText | SegmentText | Group rx rune

text \<open>The reading of a character class by \<^verbatim>\<open>regexp/syntax\<close>: from the left, a hyphen between two runes makes a range.\<close>

fun class_member :: "rune list \<Rightarrow> rune \<Rightarrow> bool" where
  "class_member (lo # m # hi # rest) r =
     (if m = hyphen then lo \<le> r \<and> r \<le> hi \<or> class_member rest r
      else r = lo \<or> class_member (m # hi # rest) r)"
| "class_member (lo # rest) r = (r = lo \<or> class_member rest r)"
| "class_member [] r = False"

text \<open>One or more texts that satisfy a predicate, one after the other.\<close>

function repeated :: "(rune list \<Rightarrow> bool) \<Rightarrow> rune list \<Rightarrow> bool" where
  "repeated P s = (P s \<or> (\<exists>i \<in> set [1..<length s]. P (take i s) \<and> repeated P (drop i s)))"
  by pat_completeness auto
termination
  by (relation "measure (length \<circ> snd)") auto

declare repeated.simps [simp del]

primrec rx_match :: "rx \<Rightarrow> rune list \<Rightarrow> bool" where
  "rx_match (QuoteMeta c) s = (s = [c])"
| "rx_match (OneOf cs) s = (length s = 1 \<and> class_member cs (hd s))"
| "rx_match OptionalDirs s = (s = [] \<or> last s = slash)"
| "rx_match AnyText s = True"
| "rx_match SegmentText s = (slash \<notin> set s)"
| "rx_match (Group r q) s = (if q = question then s = [] \<or> rx_match r s else repeated (rx_match r) s)"

fun sequence_match :: "rx list \<Rightarrow> rune list \<Rightarrow> bool" where
  "sequence_match [] s = (s = [])"
| "sequence_match (r # rs) s = (\<exists>i \<in> set [0..<Suc (length s)]. rx_match r (take i s) \<and> sequence_match rs (drop i s))"

section \<open>Compilation\<close>

datatype pattern_error = TrailingEscape | NothingToRepeat rune | UnterminatedClass | EmptyClass | BadClass

record globAtom =
  atom_expression :: rx
  quantifiable :: bool

definition isASCIIAlphanumeric :: "rune \<Rightarrow> bool" where
  "isASCIIAlphanumeric c \<longleftrightarrow> 97 \<le> c \<and> c \<le> 122 \<or> 65 \<le> c \<and> c \<le> 90 \<or> 48 \<le> c \<and> c \<le> 57"

definition sameCharacterClassRange :: "rune \<Rightarrow> rune \<Rightarrow> bool" where
  "sameCharacterClassRange left right \<longleftrightarrow>
     left \<le> right \<and> (97 \<le> left \<and> right \<le> 122 \<or> 65 \<le> left \<and> right \<le> 90 \<or> 48 \<le> left \<and> right \<le> 57)"

definition githubCharacterClass :: "rune list \<Rightarrow> pattern_error + rx" where
  "githubCharacterClass characters =
     (if characters = [] then Inl EmptyClass
      else if list_all (\<lambda>index. isASCIIAlphanumeric (characters ! index) \<or>
          \<not> (characters ! index \<noteq> hyphen \<or> index = 0 \<or> index = length characters - 1 \<or>
             \<not> sameCharacterClassRange (characters ! (index - 1)) (characters ! (index + 1)))) [0..<length characters]
      then Inr (OneOf characters) else Inl BadClass)"

text \<open>The loop; the rune before the current index, if any, is its first argument.\<close>

function compile_loop :: "rune option \<Rightarrow> rune list \<Rightarrow> globAtom list \<Rightarrow> pattern_error + globAtom list" where
  "compile_loop prev [] atoms = Inr atoms"
| "compile_loop prev (c # cs) atoms =
     (if c = backslash then
        (case cs of [] \<Rightarrow> Inl TrailingEscape
         | d # ds \<Rightarrow> compile_loop (Some d) ds (atoms @ [\<lparr>atom_expression = QuoteMeta d, quantifiable = True\<rparr>]))
      else if c = star then
        (if cs \<noteq> [] \<and> hd cs = star then
           (if (prev = None \<or> prev = Some slash) \<and> tl cs \<noteq> [] \<and> hd (tl cs) = slash
            then compile_loop (Some slash) (drop 2 cs) (atoms @ [\<lparr>atom_expression = OptionalDirs, quantifiable = False\<rparr>])
            else compile_loop (Some star) (drop 1 cs) (atoms @ [\<lparr>atom_expression = AnyText, quantifiable = False\<rparr>]))
         else compile_loop (Some c) cs (atoms @ [\<lparr>atom_expression = SegmentText, quantifiable = False\<rparr>]))
      else if c = question \<or> c = plus_sign then
        (if atoms = [] \<or> \<not> quantifiable (last atoms) then Inl (NothingToRepeat c)
         else compile_loop (Some c) cs
           (butlast atoms @ [\<lparr>atom_expression = Group (atom_expression (last atoms)) c, quantifiable = False\<rparr>]))
      else if c = open_bracket then
        (let body = takeWhile (\<lambda>d. d \<noteq> close_bracket) cs in
         if length body = length cs then Inl UnterminatedClass
         else case githubCharacterClass body of
             Inl e \<Rightarrow> Inl e
           | Inr class \<Rightarrow> compile_loop (Some close_bracket) (drop (Suc (length body)) cs)
               (atoms @ [\<lparr>atom_expression = class, quantifiable = True\<rparr>]))
      else compile_loop (Some c) cs (atoms @ [\<lparr>atom_expression = QuoteMeta c, quantifiable = True\<rparr>]))"
  by pat_completeness auto
termination
  by (relation "measure (\<lambda>(_, cs, _). length cs)") (auto simp: less_Suc_eq_le)

definition compileGitHubPattern :: "string \<Rightarrow> pattern_error + rx list" where
  "compileGitHubPattern pattern =
     (case compile_loop None (runes pattern) [] of
        Inl e \<Rightarrow> Inl e
      | Inr atoms \<Rightarrow> Inr (map atom_expression atoms))"

definition matchString :: "rx list \<Rightarrow> string \<Rightarrow> bool" where
  "matchString matcher v = sequence_match matcher (runes v)"

record patternMatcher =
  matcher :: "rx list"
  negated :: bool

definition compile_step :: "patternMatcher list \<Rightarrow> string \<Rightarrow> patternMatcher list" where
  "compile_step matchers pattern =
     (case compileGitHubPattern (trim_prefix pattern ''!'') of
        Inl _ \<Rightarrow> matchers
      | Inr m \<Rightarrow> matchers @ [\<lparr>matcher = m, negated = has_prefix pattern ''!''\<rparr>])"

definition compilePatterns :: "string list \<Rightarrow> patternMatcher list" where
  "compilePatterns patterns = foldl compile_step [] patterns"

definition matches :: "patternMatcher list \<Rightarrow> string \<Rightarrow> bool" where
  "matches matchers v = foldl (\<lambda>matched pattern. if matchString (matcher pattern) v then \<not> negated pattern else matched) False matchers"

definition matchesPatterns :: "string list \<Rightarrow> string \<Rightarrow> bool" where
  "matchesPatterns patterns v = matches (compilePatterns patterns) v"

section \<open>What a pattern means\<close>

text \<open>
  The meaning of a pattern by its syntax: a rune, an escaped rune or a class stands for one rune, \<^verbatim>\<open>?\<close> after it for at most one and
  \<^verbatim>\<open>+\<close> for at least one; a star stands for a text without a slash, two stars for any text, and two stars with a slash at the
  start of the pattern or behind a slash for no or some whole directories. A pattern that cannot be read matches nothing.
\<close>

fun one_rune :: "rune list \<Rightarrow> ((rune \<Rightarrow> bool) \<times> rune \<times> rune list) option" where
  "one_rune [] = None"
| "one_rune (c # cs) =
     (if c = backslash then (case cs of [] \<Rightarrow> None | d # ds \<Rightarrow> Some ((=) d, d, ds))
      else if c = star \<or> c = question \<or> c = plus_sign then None
      else if c = open_bracket then
        (let body = takeWhile (\<lambda>d. d \<noteq> close_bracket) cs in
         if length body = length cs then None
         else case githubCharacterClass body of
             Inl _ \<Rightarrow> None
           | Inr _ \<Rightarrow> Some (class_member body, close_bracket, drop (Suc (length body)) cs))
      else Some ((=) c, c, cs))"

fun starts_with :: "rune list \<Rightarrow> rune list \<Rightarrow> bool" where
  "starts_with cs [] = False"
| "starts_with cs (d # ds) = (d \<in> set cs)"

inductive glob :: "rune option \<Rightarrow> rune list \<Rightarrow> rune list \<Rightarrow> bool" where
  end_of_pattern: "glob prev [] []"
| single: "one_rune p = Some (C, l, rest) \<Longrightarrow> \<not> starts_with [question, plus_sign] rest \<Longrightarrow> C d \<Longrightarrow> glob (Some l) rest s \<Longrightarrow>
    glob prev p (d # s)"
| at_most_one: "one_rune p = Some (C, l, question # rest) \<Longrightarrow> length u \<le> 1 \<Longrightarrow> \<forall>d \<in> set u. C d \<Longrightarrow> glob (Some question) rest s \<Longrightarrow>
    glob prev p (u @ s)"
| at_least_one: "one_rune p = Some (C, l, plus_sign # rest) \<Longrightarrow> u \<noteq> [] \<Longrightarrow> \<forall>d \<in> set u. C d \<Longrightarrow> glob (Some plus_sign) rest s \<Longrightarrow>
    glob prev p (u @ s)"
| segment: "\<not> starts_with [star] rest \<Longrightarrow> slash \<notin> set u \<Longrightarrow> glob (Some star) rest s \<Longrightarrow> glob prev (star # rest) (u @ s)"
| directories: "prev = None \<or> prev = Some slash \<Longrightarrow> u = [] \<or> last u = slash \<Longrightarrow> glob (Some slash) rest s \<Longrightarrow>
    glob prev (star # star # slash # rest) (u @ s)"
| anything: "\<not> (prev = None \<or> prev = Some slash) \<or> \<not> starts_with [slash] rest \<Longrightarrow> glob (Some star) rest s \<Longrightarrow>
    glob prev (star # star # rest) (u @ s)"

inductive_simps glob_Nil: "glob prev [] s"
inductive_simps glob_Cons: "glob prev (c # cs) s"

definition selects :: "string \<Rightarrow> string \<Rightarrow> bool" where
  "selects v pattern \<longleftrightarrow> glob None (runes (trim_prefix pattern ''!'')) (runes v)"

section \<open>The compiled pattern has this meaning\<close>

lemma sequence_match_Cons: "sequence_match (r # rs) s \<longleftrightarrow> (\<exists>u v. s = u @ v \<and> rx_match r u \<and> sequence_match rs v)"
proof
  assume "sequence_match (r # rs) s"
  then obtain i where "rx_match r (take i s)" "sequence_match rs (drop i s)" unfolding sequence_match.simps by blast
  then show "\<exists>u v. s = u @ v \<and> rx_match r u \<and> sequence_match rs v" by (metis append_take_drop_id)
next
  assume "\<exists>u v. s = u @ v \<and> rx_match r u \<and> sequence_match rs v"
  then obtain u v where "s = u @ v" "rx_match r u" "sequence_match rs v" by blast
  then show "sequence_match (r # rs) s"
    unfolding sequence_match.simps by (intro bexI [of _ "length u"]) auto
qed

declare sequence_match.simps(2) [simp del]

lemma sequence_match_append:
  "sequence_match (xs @ ys) s \<longleftrightarrow> (\<exists>u v. s = u @ v \<and> sequence_match xs u \<and> sequence_match ys v)"
proof (induction xs arbitrary: s)
  case (Cons x xs)
  show ?case by (simp add: sequence_match_Cons Cons.IH) (metis append.assoc)
qed simp

lemma repeated_single: "(\<And>s. P s \<longleftrightarrow> (\<exists>d. s = [d] \<and> C d)) \<Longrightarrow> repeated P s \<longleftrightarrow> s \<noteq> [] \<and> (\<forall>d \<in> set s. C d)"
proof (induction "length s" arbitrary: s rule: less_induct)
  case less
  show ?case
  proof (cases s)
    case Nil
    then show ?thesis by (subst repeated.simps) (simp add: less.prems)
  next
    case (Cons d t)
    have "(\<exists>i \<in> set [1..<length s]. P (take i s) \<and> repeated P (drop i s)) \<longleftrightarrow> t \<noteq> [] \<and> C d \<and> repeated P t"
    proof
      assume "\<exists>i \<in> set [1..<length s]. P (take i s) \<and> repeated P (drop i s)"
      then obtain i where i: "1 \<le> i" "i < length s" "P (take i s)" "repeated P (drop i s)" by auto
      from i(3) obtain e where e: "take i s = [e]" "C e" unfolding less.prems by blast
      with i(1,2) have "i = 1" by (metis One_nat_def length_Cons length_take list.size(3) min.absorb2 nat_less_le)
      with i e Cons show "t \<noteq> [] \<and> C d \<and> repeated P t" by auto
    next
      assume t: "t \<noteq> [] \<and> C d \<and> repeated P t"
      with Cons have "1 < length s" by simp
      then have "1 \<in> set [1..<length s]" unfolding set_upt by simp
      moreover from t Cons have "P (take 1 s) \<and> repeated P (drop 1 s)" by (simp add: less.prems)
      ultimately show "\<exists>i \<in> set [1..<length s]. P (take i s) \<and> repeated P (drop i s)" ..
    qed
    with less.hyps [of t] less.prems Cons show ?thesis by (subst repeated.simps) auto
  qed
qed

text \<open>A unit of a pattern adds one atom, which matches the single runes of the unit.\<close>

lemma one_rune_compiles:
  assumes "one_rune p = Some (C, l, rest)"
  obtains r where "\<And>s. rx_match r s \<longleftrightarrow> (\<exists>d. s = [d] \<and> C d)"
    "\<And>prev atoms. compile_loop prev p atoms = compile_loop (Some l) rest (atoms @ [\<lparr>atom_expression = r, quantifiable = True\<rparr>])"
proof (cases p)
  case (Cons c cs)
  have one: "(length s = 1 \<and> class_member b (hd s)) = (\<exists>d. s = [d] \<and> class_member b d)" for b and s :: "rune list"
    by (cases s) auto
  consider d ds where "c = backslash" "cs = d # ds" | "c = open_bracket" | "c \<notin> {backslash, star, question, plus_sign, open_bracket}"
    using assms Cons by (cases cs) (auto split: if_splits)
  then show ?thesis
  proof cases
    case 1
    with that [of "QuoteMeta l"] assms Cons show ?thesis by auto
  next
    case 2
    let ?body = "takeWhile (\<lambda>d. d \<noteq> close_bracket) cs"
    from 2 assms Cons obtain x where x: "githubCharacterClass ?body = Inr x" "length ?body \<noteq> length cs"
      "C = class_member ?body" "l = close_bracket" "rest = drop (Suc (length ?body)) cs"
      by (auto simp: Let_def split: sum.splits if_splits)
    then have "x = OneOf ?body" by (auto simp: githubCharacterClass_def split: if_splits)
    with x 2 Cons one that [of x] show ?thesis by (auto simp: Let_def)
  next
    case 3
    with that [of "QuoteMeta c"] assms Cons show ?thesis by auto
  qed
qed (use assms in simp)

lemma no_rune_fails:
  assumes "one_rune (c # cs) = None" "c \<notin> {star, question, plus_sign}"
  obtains e where "\<And>prev atoms. compile_loop prev (c # cs) atoms = Inl e"
proof -
  let ?body = "takeWhile (\<lambda>d. d \<noteq> close_bracket) cs"
  consider "c = backslash" "cs = []" | "c = open_bracket" "length ?body = length cs"
    | e where "c = open_bracket" "length ?body \<noteq> length cs" "githubCharacterClass ?body = Inl e"
    using assms by (auto simp: Let_def split: if_splits list.splits sum.splits)
  then show ?thesis
  proof cases
    case 1
    with that [of TrailingEscape] show ?thesis by simp
  next
    case 2
    with that [of UnterminatedClass] show ?thesis by simp
  next
    case (3 e)
    with that [of e] show ?thesis by (simp add: Let_def)
  qed
qed

lemma one_rune_shorter: "one_rune p = Some (C, l, rest) \<Longrightarrow> length rest < length p"
  by (cases p) (auto simp: Let_def split: if_splits list.splits sum.splits)

text \<open>One equation of the loop per kind of rune.\<close>

lemma compile_star:
  "compile_loop prev (star # star # slash # cs) atoms =
     (if prev = None \<or> prev = Some slash
      then compile_loop (Some slash) cs (atoms @ [\<lparr>atom_expression = OptionalDirs, quantifiable = False\<rparr>])
      else compile_loop (Some star) (slash # cs) (atoms @ [\<lparr>atom_expression = AnyText, quantifiable = False\<rparr>]))"
  "\<not> starts_with [slash] cs \<Longrightarrow> compile_loop prev (star # star # cs) atoms =
     compile_loop (Some star) cs (atoms @ [\<lparr>atom_expression = AnyText, quantifiable = False\<rparr>])"
  "\<not> starts_with [star] cs \<Longrightarrow> compile_loop prev (star # cs) atoms =
     compile_loop (Some star) cs (atoms @ [\<lparr>atom_expression = SegmentText, quantifiable = False\<rparr>])"
  by (cases cs; simp)+

lemma compile_quantifier:
  "c = question \<or> c = plus_sign \<Longrightarrow> compile_loop prev (c # cs) atoms =
     (if atoms = [] \<or> \<not> quantifiable (last atoms) then Inl (NothingToRepeat c)
      else compile_loop (Some c) cs
        (butlast atoms @ [\<lparr>atom_expression = Group (atom_expression (last atoms)) c, quantifiable = False\<rparr>]))"
  by auto

declare compile_loop.simps(2) [simp del]

text \<open>Every pattern starts with a unit, with stars, with a quantifier, or with what cannot be read.\<close>

lemma pattern_cases [case_names nothing unit quantifier dirs some any segments bad]:
  obtains "p = []"
  | C l rest where "one_rune p = Some (C, l, rest)"
  | c cs where "p = c # cs" "c = question \<or> c = plus_sign"
  | cs where "p = star # star # slash # cs" "prev = None \<or> prev = Some slash"
  | cs where "p = star # star # slash # cs" "\<not> (prev = None \<or> prev = Some slash)"
  | cs where "p = star # star # cs" "\<not> starts_with [slash] cs"
  | cs where "p = star # cs" "\<not> starts_with [star] cs"
  | c cs where "p = c # cs" "one_rune p = None" "c \<notin> {star, question, plus_sign}"
proof (cases p)
  case (Cons c cs)
  show ?thesis
  proof (cases "c = star")
    case True
    show ?thesis
    proof (cases "starts_with [star] cs")
      case st: True
      then obtain ds where ds: "cs = star # ds" by (cases cs) auto
      show ?thesis
      proof (cases "starts_with [slash] ds")
        case True
        then obtain es where "ds = slash # es" by (cases ds) auto
        with \<open>c = star\<close> Cons ds that(4,5) show ?thesis by blast
      qed (use \<open>c = star\<close> Cons ds that(6) in blast)
    qed (use True Cons that(7) in blast)
  next
    case False
    with Cons that(2,3,8) show ?thesis by (cases "one_rune p") auto
  qed
qed (use that(1) in blast)

lemma compile_prefix:
  "xs \<noteq> [] \<or> \<not> starts_with [question, plus_sign] cs \<Longrightarrow>
   compile_loop prev cs (as @ xs) = map_sum id ((@) as) (compile_loop prev cs xs)"
proof (induction "length cs" arbitrary: prev cs xs rule: less_induct)
  case less
  have ih: "length ds < length cs \<Longrightarrow>
      compile_loop q ds (as @ xs @ [a]) = map_sum id ((@) as) (compile_loop q ds (xs @ [a]))" for q ds xs a
    using less.hyps [of ds "xs @ [a]" q] by simp
  show ?case
  proof (cases rule: pattern_cases [where p = cs and prev = prev])
    case (unit C l rest)
    then obtain r where "\<And>q as. compile_loop q cs as = compile_loop (Some l) rest (as @ [\<lparr>atom_expression = r, quantifiable = True\<rparr>])"
      using one_rune_compiles by metis
    with ih [OF one_rune_shorter [OF unit]] show ?thesis by simp
  next
    case (quantifier c ds)
    with less.prems show ?thesis by (auto simp: compile_quantifier butlast_append ih)
  next
    case (bad c ds)
    from no_rune_fails [OF bad(2) [unfolded bad(1)] bad(3)] obtain e where "\<And>q as. compile_loop q cs as = Inl e"
      unfolding bad(1) by metis
    then show ?thesis by simp
  qed (auto simp: compile_star ih)
qed

definition compiled_match :: "rune option \<Rightarrow> rune list \<Rightarrow> globAtom list \<Rightarrow> rune list \<Rightarrow> bool" where
  "compiled_match prev cs atoms s \<longleftrightarrow>
     (case compile_loop prev cs atoms of Inl _ \<Rightarrow> False | Inr as \<Rightarrow> sequence_match (map atom_expression as) s)"

lemma compiled_match_first:
  assumes "\<not> starts_with [question, plus_sign] cs \<or> \<not> quantifiable x"
  shows "compiled_match prev cs [x] s \<longleftrightarrow> (\<exists>u v. s = u @ v \<and> rx_match (atom_expression x) u \<and> compiled_match prev cs [] v)"
proof (cases "starts_with [question, plus_sign] cs")
  case True
  with assms obtain c ds where "cs = c # ds" "c = question \<or> c = plus_sign" "\<not> quantifiable x" by (cases cs) auto
  then show ?thesis by (auto simp: compiled_match_def compile_quantifier)
next
  case False
  with compile_prefix [of "[]" cs prev "[x]"]
  show ?thesis
    by (cases "compile_loop prev cs []") (auto simp: compiled_match_def sequence_match_Cons)
qed

lemma one_rune_glob:
  assumes "one_rune p = Some (C, l, rest)"
  shows "glob prev p s \<longleftrightarrow>
    (if starts_with [question, plus_sign] rest
     then \<exists>u v. s = u @ v \<and> (\<forall>d \<in> set u. C d) \<and> (if hd rest = question then length u \<le> 1 else u \<noteq> []) \<and> glob (Some (hd rest)) (tl rest) v
     else \<exists>d v. s = d # v \<and> C d \<and> glob (Some l) rest v)"
proof -
  obtain c cs where p: "p = c # cs" "c \<noteq> star" using assms by (cases p) (auto split: if_splits)
  show ?thesis (is "_ \<longleftrightarrow> ?spec")
  proof
    assume "glob prev p s"
    then show ?spec
    proof cases
      case (single C' l' rest' d s')
      with assms show ?thesis by simp
    next
      case (at_most_one C' l' rest' u s')
      with assms have "C' = C" "rest = question # rest'" by auto
      with at_most_one show ?thesis by auto
    next
      case (at_least_one C' l' rest' u s')
      with assms have "C' = C" "rest = plus_sign # rest'" by auto
      with at_least_one show ?thesis by auto
    qed (use assms p in auto)
  next
    assume spec: ?spec
    show "glob prev p s"
    proof (cases "starts_with [question, plus_sign] rest")
      case False
      with spec single [OF assms] show ?thesis by auto
    next
      case True
      then obtain q ds where q: "rest = q # ds" "q = question \<or> q = plus_sign" by (cases rest) auto
      with spec obtain u v where uv: "s = u @ v" "\<forall>d \<in> set u. C d" "if q = question then length u \<le> 1 else u \<noteq> []" "glob (Some q) ds v"
        by auto
      show ?thesis
        using q(2) at_most_one [of p C l ds u v] at_least_one [of p C l ds u v] assms q(1) uv by auto
    qed
  qed
qed

lemma glob_stars:
  "glob prev (star # star # slash # cs) s \<longleftrightarrow>
     (if prev = None \<or> prev = Some slash
      then \<exists>u v. s = u @ v \<and> (u = [] \<or> last u = slash) \<and> glob (Some slash) cs v
      else \<exists>u v. s = u @ v \<and> glob (Some star) (slash # cs) v)"
  "\<not> starts_with [slash] cs \<Longrightarrow> glob prev (star # star # cs) s \<longleftrightarrow> (\<exists>u v. s = u @ v \<and> glob (Some star) cs v)"
  "\<not> starts_with [star] cs \<Longrightarrow> glob prev (star # cs) s \<longleftrightarrow> (\<exists>u v. s = u @ v \<and> slash \<notin> set u \<and> glob (Some star) cs v)"
proof goal_cases
  case 1
  show ?case by (subst glob.simps) auto
next
  case 2
  then show ?case by (subst glob.simps) (cases cs; auto)
next
  case 3
  then show ?case by (subst glob.simps) (cases cs; auto)
qed

lemma glob_compiled: "glob prev p s \<longleftrightarrow> compiled_match prev p [] s"
proof (induction "length p" arbitrary: p prev s rule: less_induct)
  case less
  have first: "compiled_match q ds [\<lparr>atom_expression = r, quantifiable = b\<rparr>] s \<longleftrightarrow> (\<exists>u v. s = u @ v \<and> rx_match r u \<and> glob q ds v)"
    if "length ds < length p" "\<not> starts_with [question, plus_sign] ds \<or> \<not> b" for q ds r b
    using that less.hyps [of ds] compiled_match_first [of ds "\<lparr>atom_expression = r, quantifiable = b\<rparr>"] by simp
  show ?case
  proof (cases rule: pattern_cases [where p = p and prev = prev])
    case nothing
    then show ?thesis by (simp add: glob_Nil compiled_match_def)
  next
    case (unit C l rest)
    from one_rune_compiles [OF unit] obtain r where r: "\<And>s. rx_match r s \<longleftrightarrow> (\<exists>d. s = [d] \<and> C d)"
      and cl: "\<And>q as. compile_loop q p as = compile_loop (Some l) rest (as @ [\<lparr>atom_expression = r, quantifiable = True\<rparr>])"
      by blast
    have c: "compiled_match q p [] = compiled_match (Some l) rest [\<lparr>atom_expression = r, quantifiable = True\<rparr>]" for q
      by (simp add: compiled_match_def fun_eq_iff cl)
    note len = one_rune_shorter [OF unit]
    show ?thesis
    proof (cases "starts_with [question, plus_sign] rest")
      case False
      have "(\<exists>u v. s = u @ v \<and> (\<exists>d. u = [d] \<and> C d) \<and> glob (Some l) rest v) \<longleftrightarrow> (\<exists>d v. s = d # v \<and> C d \<and> glob (Some l) rest v)"
        by (metis append_Cons append_Nil)
      with False show ?thesis by (simp add: one_rune_glob [OF unit] c first [OF len] r)
    next
      case True
      then obtain q ds where q: "rest = q # ds" "q = question \<or> q = plus_sign" by (cases rest) auto
      have "compiled_match (Some l) rest [\<lparr>atom_expression = r, quantifiable = True\<rparr>] =
          compiled_match (Some q) ds [\<lparr>atom_expression = Group r q, quantifiable = False\<rparr>]"
        using q by (simp add: compiled_match_def compile_quantifier fun_eq_iff)
      moreover have "rx_match (Group r q) u \<longleftrightarrow> (\<forall>d \<in> set u. C d) \<and> (if q = question then length u \<le> 1 else u \<noteq> [])" for u
      proof (cases "q = question")
        case True
        with r show ?thesis by (cases u) auto
      next
        case False
        have "repeated (rx_match r) u \<longleftrightarrow> u \<noteq> [] \<and> (\<forall>d \<in> set u. C d)" by (rule repeated_single) (rule r)
        with False show ?thesis by auto
      qed
      ultimately show ?thesis
        using first [of ds False] len q by (auto simp: one_rune_glob [OF unit] c)
    qed
  next
    case (quantifier c cs)
    then show ?thesis by (auto simp: glob_Cons compiled_match_def compile_quantifier)
  next
    case (bad c cs)
    from no_rune_fails [OF bad(2) [unfolded bad(1)] bad(3)] obtain e where "compile_loop prev p [] = Inl e" unfolding bad(1) by metis
    moreover have "\<not> glob prev p s" using bad by (auto simp: glob_Cons)
    ultimately show ?thesis by (simp add: compiled_match_def)
  next
    case (dirs cs)
    have "compiled_match prev p [] = compiled_match (Some slash) cs
        [\<lparr>atom_expression = OptionalDirs, quantifiable = False\<rparr>]"
      using dirs by (simp add: compiled_match_def compile_star fun_eq_iff)
    with dirs first [of cs False] show ?thesis by (simp add: glob_stars)
  next
    case (some cs)
    have "compiled_match prev p [] = compiled_match (Some star) (slash # cs)
        [\<lparr>atom_expression = AnyText, quantifiable = False\<rparr>]"
      using some by (auto simp: compiled_match_def compile_star fun_eq_iff)
    with some first [of "slash # cs" False] show ?thesis by (auto simp: glob_stars)
  next
    case (any cs)
    have "compiled_match prev p [] = compiled_match (Some star) cs
        [\<lparr>atom_expression = AnyText, quantifiable = False\<rparr>]"
      using any by (simp add: compiled_match_def compile_star fun_eq_iff)
    with any first [of cs False] show ?thesis by (simp add: glob_stars)
  next
    case (segments cs)
    have "compiled_match prev p [] = compiled_match (Some star) cs
        [\<lparr>atom_expression = SegmentText, quantifiable = False\<rparr>]"
      using segments by (simp add: compiled_match_def compile_star fun_eq_iff)
    with segments first [of cs False] show ?thesis by (simp add: glob_stars)
  qed
qed

lemma compiled_selects:
  "compileGitHubPattern (trim_prefix pattern ''!'') = Inr m \<Longrightarrow> matchString m v \<longleftrightarrow> selects v pattern"
  "compileGitHubPattern (trim_prefix pattern ''!'') = Inl e \<Longrightarrow> \<not> selects v pattern"
  by (auto simp: compileGitHubPattern_def matchString_def selects_def glob_compiled compiled_match_def split: sum.splits)

definition last_match_positive :: "string list \<Rightarrow> string \<Rightarrow> bool" where
  "last_match_positive patterns v =
     (case rev (filter (selects v) patterns) of [] \<Rightarrow> False | pattern # _ \<Rightarrow> \<not> has_prefix pattern ''!'')"

lemma matchesPatterns_last: "matchesPatterns patterns v = last_match_positive patterns v"
proof -
  have "compilePatterns (ps @ [p]) = compile_step (compilePatterns ps) p" for ps p by (simp add: compilePatterns_def)
  moreover have "matches (compile_step ms p) v = (if selects v p then \<not> has_prefix p ''!'' else matches ms v)" for ms p
    using compiled_selects [of p] by (auto simp: compile_step_def matches_def split: sum.splits)
  ultimately show ?thesis
    unfolding matchesPatterns_def last_match_positive_def
    by (induction patterns rule: rev_induct) (simp_all add: compilePatterns_def matches_def)
qed

text \<open>
  C21. Of the patterns of a trigger's filter, the last one that matches the branch, tag or path decides: the value is accepted
  exactly when some pattern matches it and the last of them is not negated. What a pattern matches is given by its syntax,
  \<open>glob\<close>; it is what the compiled regular expression finds. A pattern that does not compile decides nothing.
\<close>

theorem last_matching_pattern_decides:
  "matchesPatterns patterns v =
     (case rev (filter (\<lambda>pattern. glob None (runes (trim_prefix pattern ''!'')) (runes v)) patterns) of
        [] \<Rightarrow> False
      | pattern # _ \<Rightarrow> \<not> has_prefix pattern ''!'')"
  unfolding matchesPatterns_last last_match_positive_def selects_def ..

end
