(* ===== verification/WorkflowTrigger.thy ===== *)
theory WorkflowTrigger
  imports EventPatterns WorkflowExpressions
begin

text \<open>
  The triggers of a workflow, \<^verbatim>\<open>src/internal/workflow/workflow.go\<close> and \<^verbatim>\<open>paths.go\<close>: reading them from YAML, the validation of a
  trigger with its patterns, inputs and schedules, and \<^verbatim>\<open>Match\<close>, which decides whether an event starts the workflow and
  resolves the inputs of a dispatched or called workflow.

  A Go map is an association list, whose order stands for an order of iteration. Of an event the model has the fields that
  \<^verbatim>\<open>Match\<close> reads or sets; the others are passed on unchanged by the code. Parameters are the node decoder of \<^verbatim>\<open>yaml.v3\<close> for strings,
  lists and untyped values, the parser of cron expressions with the \<^verbatim>\<open>Next\<close> of its schedules in seconds, and float64.
\<close>

section \<open>Data\<close>

datatype ynode = YScalar string string | YSequence "ynode list" | YMapping "(ynode \<times> ynode) list" | YAlias "ynode option"

record 'n WorkflowInput =
  Description :: string
  Required :: bool
  Default :: "'n any"
  input_Type :: string
  Options :: "string list"
  defaultSet :: bool

record 'n EventFilter =
  Branches :: "string list"
  Paths :: "string list"
  PathsIgnore :: "string list"
  Tags :: "string list"
  Types :: "string list"
  Workflows :: "string list"
  filter_Inputs :: "(string \<times> 'n WorkflowInput) list"
  Schedules :: "string list"
  pathsSet :: bool
  pathsIgnoreSet :: bool
  branchesSet :: bool
  tagsSet :: bool
  typesSet :: bool
  workflowsSet :: bool
  inputsSet :: bool

type_synonym 'n Trigger = "(string \<times> 'n EventFilter) list"

record ChangedFiles =
  changed_Paths :: "string list"
  AlwaysRun :: bool

record 'n Event =
  event_Name :: string
  Action :: string
  Ref :: string
  RefName :: string
  BaseRef :: string
  event_WorkflowName :: string
  event_Inputs :: "(string \<times> string) list"
  InputValues :: "(string \<times> 'n any) list"
  event_Schedule :: string
  event_ChangedFiles :: "ChangedFiles option"

record 'n trigger_env =
  tr_eval :: "'n eval_env"
  tr_isinf :: "'n \<Rightarrow> bool"
  tr_parse_failed :: "string \<Rightarrow> 'n"
  tr_cron :: "string \<Rightarrow> (int \<Rightarrow> int) option"
  tr_string :: "ynode \<Rightarrow> string + string"
  tr_strings :: "ynode \<Rightarrow> string + string list"
  tr_bool :: "ynode \<Rightarrow> string + bool"
  tr_any :: "ynode \<Rightarrow> string + 'n any"
  tr_crons :: "ynode \<Rightarrow> string + string list"

datatype trigger_error =
    KeysNotStrings | DuplicateField string | NotMapping | BadYaml string | UnsupportedField string
  | BadPattern string | NoTrigger | UnsupportedTrigger string | TooMany string nat | EmptyFilter string | TooLong string
  | UnsupportedType string | FilterNotSupported string string | InvalidPattern string pattern_error | OnlyNegative string
  | BothPathFilters | BadInputName string | RepeatedInput string | BadInputType string | BadOptions string | BadDefault string
  | PayloadTooLong nat | BadCron string | CronTooFrequent | ChangedFilesMissing | UnknownInput string | MissingInput string
  | BadInputValue string

definition zero_filter :: "'n EventFilter" where
  "zero_filter = \<lparr>Branches = [], Paths = [], PathsIgnore = [], Tags = [], Types = [], Workflows = [], filter_Inputs = [],
     Schedules = [], pathsSet = False, pathsIgnoreSet = False, branchesSet = False, tagsSet = False, typesSet = False,
     workflowsSet = False, inputsSet = False\<rparr>"

definition zero_input :: "'n WorkflowInput" where
  "zero_input = \<lparr>Description = [], Required = False, Default = NilAny, input_Type = [], Options = [], defaultSet = False\<rparr>"

definition maxBranchPatterns :: nat where "maxBranchPatterns = 256"
definition maxBranchPatternLength :: nat where "maxBranchPatternLength = 256"
definition maxActivityTypes :: nat where "maxActivityTypes = 64"
definition maxActivityTypeLength :: nat where "maxActivityTypeLength = 64"
definition maxWorkflowFilters :: nat where "maxWorkflowFilters = 100"
definition maxWorkflowFilterLength :: nat where "maxWorkflowFilterLength = 256"
definition maxTriggerInputs :: nat where "maxTriggerInputs = 25"
definition maxInputNameLength :: nat where "maxInputNameLength = 100"
definition maxInputDescriptionLength :: nat where "maxInputDescriptionLength = 1024"
definition maxInputOptions :: nat where "maxInputOptions = 100"
definition maxInputValueLength :: nat where "maxInputValueLength = 65535"
definition maxInputPayloadLength :: nat where "maxInputPayloadLength = 65535"
definition maxSchedules :: nat where "maxSchedules = 20"
definition maxCronLength :: nat where "maxCronLength = 256"
definition maxPathPatterns :: nat where "maxPathPatterns = 256"
definition maxPathPatternLength :: nat where "maxPathPatternLength = 1024"
definition MaxChangedFiles :: nat where "MaxChangedFiles = 3000"

section \<open>Reading from YAML\<close>

text \<open>
  \<^verbatim>\<open>Decode\<close> into a type with its own \<^verbatim>\<open>UnmarshalYAML\<close> calls it on the node an alias stands for, except that a null
  leaves the zero value.
\<close>

primrec resolve_alias :: "ynode \<Rightarrow> ynode" where
  "resolve_alias (YScalar t v) = YScalar t v"
| "resolve_alias (YSequence ns) = YSequence ns"
| "resolve_alias (YMapping ps) = YMapping ps"
| "resolve_alias (YAlias n) = (case map_option resolve_alias n of None \<Rightarrow> YAlias None | Some m \<Rightarrow> m)"

fun rejectDuplicateMappingKeys :: "(ynode \<times> ynode) list \<Rightarrow> string list \<Rightarrow> trigger_error + (string \<times> ynode) list" where
  "rejectDuplicateMappingKeys [] keys = Inr []"
| "rejectDuplicateMappingKeys ((k, v) # content) keys =
     (case k of
        YScalar t name \<Rightarrow>
          if t \<noteq> ''!!str'' then Inl KeysNotStrings
          else if name \<in> set keys then Inl (DuplicateField name)
          else and_then (rejectDuplicateMappingKeys content (name # keys)) (\<lambda>fields. Inr ((name, v) # fields))
      | _ \<Rightarrow> Inl KeysNotStrings)"

definition mapping_fields :: "ynode \<Rightarrow> trigger_error + (string \<times> ynode) list" where
  "mapping_fields node = (case node of YMapping content \<Rightarrow> rejectDuplicateMappingKeys content [] | _ \<Rightarrow> Inl NotMapping)"

definition yaml :: "string + 'a \<Rightarrow> trigger_error + 'a" where
  "yaml r = (case r of Inl e \<Rightarrow> Inl (BadYaml e) | Inr v \<Rightarrow> Inr v)"

primrec fold_fields :: "('s \<Rightarrow> string \<times> ynode \<Rightarrow> trigger_error + 's) \<Rightarrow> (string \<times> ynode) list \<Rightarrow> 's \<Rightarrow> trigger_error + 's" where
  "fold_fields step [] s = Inr s"
| "fold_fields step (field # rest) s = and_then (step s field) (fold_fields step rest)"

definition decodePathPattern :: "'n trigger_env \<Rightarrow> string \<Rightarrow> ynode \<Rightarrow> trigger_error + string" where
  "decodePathPattern env name node =
     (case resolve_alias node of
        YScalar t v \<Rightarrow>
          if t = ''!!null'' then Inl (BadPattern name)
          else if t = ''!!bool'' \<or> t = ''!!int'' \<or> t = ''!!float'' then
            and_then (yaml (tr_any env (YScalar t v))) (\<lambda>x.
              case scalarString (tr_eval env) x of Some s \<Rightarrow> Inr s | None \<Rightarrow> Inl (BadPattern name))
          else Inr v
      | _ \<Rightarrow> Inl (BadPattern name))"

definition decodePaths :: "'n trigger_env \<Rightarrow> 'n EventFilter \<Rightarrow> string \<Rightarrow> ynode \<Rightarrow> trigger_error + 'n EventFilter" where
  "decodePaths env f name node =
     and_then
       (case resolve_alias node of
          YScalar t v \<Rightarrow> Inr [YScalar t v]
        | YSequence ns \<Rightarrow> Inr ns
        | _ \<Rightarrow> Inl (BadPattern name))
       (\<lambda>ns. and_then (map_res (decodePathPattern env name) ns) (\<lambda>patterns.
          Inr (if name = ''paths'' then f\<lparr>Paths := patterns, pathsSet := True\<rparr>
               else f\<lparr>PathsIgnore := patterns, pathsIgnoreSet := True\<rparr>)))"

definition input_field :: "'n trigger_env \<Rightarrow> 'n WorkflowInput \<Rightarrow> string \<times> ynode \<Rightarrow> trigger_error + 'n WorkflowInput" where
  "input_field env input field =
     (case field of (name, v) \<Rightarrow>
        if name = ''description'' then and_then (yaml (tr_string env v)) (\<lambda>s. Inr (input\<lparr>Description := s\<rparr>))
        else if name = ''required'' then and_then (yaml (tr_bool env v)) (\<lambda>b. Inr (input\<lparr>Required := b\<rparr>))
        else if name = ''default'' then and_then (yaml (tr_any env v)) (\<lambda>x. Inr (input\<lparr>defaultSet := True, Default := x\<rparr>))
        else if name = ''type'' then and_then (yaml (tr_string env v)) (\<lambda>s. Inr (input\<lparr>input_Type := s\<rparr>))
        else if name = ''options'' then and_then (yaml (tr_strings env v)) (\<lambda>s. Inr (input\<lparr>Options := s\<rparr>))
        else Inl (UnsupportedField name))"

definition decode_input :: "'n trigger_env \<Rightarrow> ynode \<Rightarrow> trigger_error + 'n WorkflowInput" where
  "decode_input env node =
     (case resolve_alias node of
        YScalar t _ \<Rightarrow> if t = ''!!null'' then Inr zero_input else Inl NotMapping
      | n \<Rightarrow> and_then (mapping_fields n) (\<lambda>fields. fold_fields (input_field env) fields zero_input))"

definition decodeWorkflowInputs :: "'n trigger_env \<Rightarrow> ynode \<Rightarrow> trigger_error + (string \<times> 'n WorkflowInput) list" where
  "decodeWorkflowInputs env node =
     and_then (mapping_fields node) (\<lambda>fields.
       map_res (\<lambda>(name, v). and_then (decode_input env v) (\<lambda>input. Inr (name, input))) fields)"

definition filter_field :: "'n trigger_env \<Rightarrow> 'n EventFilter \<Rightarrow> string \<times> ynode \<Rightarrow> trigger_error + 'n EventFilter" where
  "filter_field env f field =
     (case field of (name, v) \<Rightarrow>
        if name = ''paths'' \<or> name = ''paths-ignore'' then decodePaths env f name v
        else if name = ''branches'' then and_then (yaml (tr_strings env v)) (\<lambda>s. Inr (f\<lparr>branchesSet := True, Branches := s\<rparr>))
        else if name = ''tags'' then and_then (yaml (tr_strings env v)) (\<lambda>s. Inr (f\<lparr>tagsSet := True, Tags := s\<rparr>))
        else if name = ''types'' then and_then (yaml (tr_strings env v)) (\<lambda>s. Inr (f\<lparr>typesSet := True, Types := s\<rparr>))
        else if name = ''workflows'' then and_then (yaml (tr_strings env v)) (\<lambda>s. Inr (f\<lparr>workflowsSet := True, Workflows := s\<rparr>))
        else if name = ''inputs'' then and_then (decodeWorkflowInputs env v) (\<lambda>inputs. Inr (f\<lparr>inputsSet := True, filter_Inputs := inputs\<rparr>))
        else Inl (UnsupportedField name))"

definition decode_filter :: "'n trigger_env \<Rightarrow> ynode \<Rightarrow> trigger_error + 'n EventFilter" where
  "decode_filter env node =
     (case resolve_alias node of
        YScalar t v \<Rightarrow> if t = ''!!null'' then Inr zero_filter else Inl NotMapping
      | n \<Rightarrow> and_then (mapping_fields n) (\<lambda>fields. fold_fields (filter_field env) fields zero_filter))"

definition event_filter :: "'n trigger_env \<Rightarrow> string \<times> ynode \<Rightarrow> trigger_error + string \<times> 'n EventFilter" where
  "event_filter env field =
     (case field of (name, v) \<Rightarrow>
        and_then (if name = ''schedule'' then and_then (yaml (tr_crons env v)) (\<lambda>crons. Inr (zero_filter\<lparr>Schedules := crons\<rparr>))
                  else case v of
                      YScalar t _ \<Rightarrow> if t = ''!!null'' then Inr zero_filter else decode_filter env v
                    | _ \<Rightarrow> decode_filter env v)
          (\<lambda>f. Inr (name, f)))"

definition list_event :: "ynode \<Rightarrow> trigger_error + string \<times> 'n EventFilter" where
  "list_event child = (case child of YScalar _ v \<Rightarrow> Inr (v, zero_filter) | _ \<Rightarrow> Inl NotMapping)"

definition decode_trigger :: "'n trigger_env \<Rightarrow> ynode \<Rightarrow> trigger_error + 'n Trigger" where
  "decode_trigger env node =
     (case node of
        YScalar _ v \<Rightarrow> Inr [(v, zero_filter)]
      | YSequence ns \<Rightarrow> and_then (map_res list_event ns) (\<lambda>events. Inr (foldl (\<lambda>m (k, f). AList.update k f m) [] events))
      | YMapping content \<Rightarrow> and_then (rejectDuplicateMappingKeys content []) (map_res (event_filter env))
      | _ \<Rightarrow> Inl NotMapping)"

section \<open>Validation\<close>

definition supportedEventTypes :: "(string \<times> string list) list" where
  "supportedEventTypes =
    (let pull_request = [''assigned'', ''unassigned'', ''labeled'', ''unlabeled'', ''opened'', ''edited'', ''closed'', ''reopened'',
           ''synchronize'', ''converted_to_draft'', ''locked'', ''unlocked'', ''enqueued'', ''dequeued'', ''milestoned'',
           ''demilestoned'', ''ready_for_review'', ''review_requested'', ''review_request_removed'', ''auto_merge_enabled'',
           ''auto_merge_disabled'']
     in [(''push'', []), (''pull_request'', pull_request), (''merge_group'', [''checks_requested'']),
         (''workflow_run'', [''completed'', ''requested'', ''in_progress'']),
         (''issues'', [''opened'', ''edited'', ''deleted'', ''transferred'', ''pinned'', ''unpinned'', ''closed'', ''reopened'', ''assigned'',
           ''unassigned'', ''labeled'', ''unlabeled'', ''locked'', ''unlocked'', ''milestoned'', ''demilestoned'', ''typed'', ''untyped'',
           ''field_added'', ''field_removed'']),
         (''pull_request_target'', pull_request), (''issue_comment'', [''created'', ''edited'', ''deleted'']),
         (''pull_request_review_comment'', [''created'', ''edited'', ''deleted'']),
         (''pull_request_review'', [''submitted'', ''edited'', ''dismissed'']),
         (''release'', [''published'', ''unpublished'', ''created'', ''edited'', ''deleted'', ''prereleased'', ''released'']),
         (''workflow_dispatch'', []), (''schedule'', []), (''workflow_call'', [])])"

definition SupportsEventAction :: "string \<Rightarrow> string \<Rightarrow> bool" where
  "SupportsEventAction eventName action =
     (case map_of supportedEventTypes eventName of
        None \<Rightarrow> False
      | Some allowedTypes \<Rightarrow> if allowedTypes = [] then action = [] else action \<in> set allowedTypes)"

definition eventSupportsTypes :: "string \<Rightarrow> bool" where
  "eventSupportsTypes name \<longleftrightarrow> name \<noteq> ''push'' \<and> name \<noteq> ''workflow_dispatch'' \<and> name \<noteq> ''schedule'' \<and> name \<noteq> ''workflow_call''"

definition eventSupportsBranches :: "string \<Rightarrow> bool" where
  "eventSupportsBranches name \<longleftrightarrow>
     name = ''push'' \<or> name = ''pull_request'' \<or> name = ''pull_request_target'' \<or> name = ''merge_group'' \<or> name = ''workflow_run''"

definition check_pattern :: "nat \<Rightarrow> string \<Rightarrow> trigger_error + unit" where
  "check_pattern limit pattern =
     and_then (guard (rune_count pattern \<le> limit) (TooLong pattern)) (\<lambda>_.
     and_then (guard (trim_prefix pattern ''!'' \<noteq> []) (EmptyFilter pattern)) (\<lambda>_.
       case compileGitHubPattern (trim_prefix pattern ''!'') of Inl e \<Rightarrow> Inl (InvalidPattern pattern e) | Inr _ \<Rightarrow> Inr ()))"

definition validateRefPatterns :: "string \<Rightarrow> string \<Rightarrow> string list \<Rightarrow> bool \<Rightarrow> bool \<Rightarrow> trigger_error + unit" where
  "validateRefPatterns eventName what patterns configured supported =
     and_then (guard (length patterns \<le> maxBranchPatterns) (TooMany what (length patterns))) (\<lambda>_.
     and_then (guard (\<not> (configured \<and> patterns = [])) (EmptyFilter what)) (\<lambda>_.
     and_then (map_res (check_pattern maxBranchPatternLength) patterns) (\<lambda>_.
     and_then (guard (\<not> (patterns \<noteq> [] \<and> \<not> list_ex (\<lambda>p. \<not> has_prefix p ''!'') patterns)) (OnlyNegative what)) (\<lambda>_.
       guard (\<not> (configured \<and> \<not> supported)) (FilterNotSupported eventName what)))))"

definition path_field :: "string \<Rightarrow> string \<times> string list \<times> bool \<Rightarrow> trigger_error + unit" where
  "path_field event field =
     (case field of (name, patterns, configured) \<Rightarrow>
        if \<not> configured then Inr ()
        else
          and_then (guard (event = ''push'' \<or> event = ''pull_request'' \<or> event = ''pull_request_target'') (FilterNotSupported event name)) (\<lambda>_.
          and_then (guard (patterns \<noteq> [] \<and> length patterns \<le> maxPathPatterns) (TooMany name (length patterns))) (\<lambda>_.
          and_then (map_res (check_pattern maxPathPatternLength) patterns) (\<lambda>_.
            guard (list_ex (\<lambda>p. \<not> has_prefix p ''!'') patterns) (OnlyNegative name)))))"

definition validatePathFilters :: "string \<Rightarrow> 'n EventFilter \<Rightarrow> trigger_error + unit" where
  "validatePathFilters event f =
     and_then (guard (\<not> (pathsSet f \<and> pathsIgnoreSet f)) BothPathFilters) (\<lambda>_.
     and_then (path_field event (''paths'', Paths f, pathsSet f)) (\<lambda>_.
       path_field event (''paths-ignore'', PathsIgnore f, pathsIgnoreSet f)))"

text \<open>The regular expressions of input names and of numbers.\<close>

definition inputNamePattern :: "string \<Rightarrow> bool" where
  "inputNamePattern s = (case s of [] \<Rightarrow> False | c # cs \<Rightarrow> identifierStart c \<and> list_all identifierPart cs)"

definition some_digits :: "string \<Rightarrow> bool" where
  "some_digits s \<longleftrightarrow> s \<noteq> [] \<and> list_all ascii_digit s"

definition integer_part :: "string \<Rightarrow> string option" where
  "integer_part s =
     (case s of
        [] \<Rightarrow> None
      | c # cs \<Rightarrow> if c = CHR ''0'' then Some cs else if ascii_digit c then Some (dropWhile ascii_digit cs) else None)"

definition fraction_part :: "string \<Rightarrow> string option" where
  "fraction_part s =
     (case s of
        [] \<Rightarrow> Some []
      | c # cs \<Rightarrow>
          if c = CHR ''.'' then (if takeWhile ascii_digit cs = [] then None else Some (dropWhile ascii_digit cs))
          else Some s)"

definition exponent_part :: "string \<Rightarrow> bool" where
  "exponent_part s =
     (case s of
        [] \<Rightarrow> True
      | c # cs \<Rightarrow> c \<in> set ''eE'' \<and> some_digits (if cs \<noteq> [] \<and> hd cs \<in> set ''+-'' then tl cs else cs))"

definition numberInputPattern :: "string \<Rightarrow> bool" where
  "numberInputPattern s =
     (case Option.bind (integer_part (trim_prefix s ''-'')) fraction_part of None \<Rightarrow> False | Some rest \<Rightarrow> exponent_part rest)"

definition validInputValue :: "'n trigger_env \<Rightarrow> string \<Rightarrow> string \<Rightarrow> string list \<Rightarrow> bool" where
  "validInputValue env inputType v options =
     (if inputType = ''boolean'' then v = ''true'' \<or> v = ''false''
      else if inputType = ''number'' then
        (case fl_parse (env_ops (tr_eval env)) v of
           None \<Rightarrow> False
         | Some n \<Rightarrow> \<not> tr_isinf env n \<and> \<not> fl_isnan (env_ops (tr_eval env)) n \<and> numberInputPattern v)
      else if inputType = ''choice'' then v \<in> set options
      else True)"

definition validateInputPayloadLength :: "(string \<times> string) list \<Rightarrow> trigger_error + unit" where
  "validateInputPayloadLength inputs =
     (let characters = sum_list (map (\<lambda>(name, v). rune_count name + rune_count v) inputs)
      in guard (characters \<le> maxInputPayloadLength) (PayloadTooLong characters))"

definition validate_input :: "'n trigger_env \<Rightarrow> string \<Rightarrow> string \<times> 'n WorkflowInput \<Rightarrow> trigger_error + (string \<times> string) list" where
  "validate_input env eventName field =
     (case field of (name, input) \<Rightarrow>
        let inputType = (if input_Type input = [] \<and> eventName = ''workflow_dispatch'' then ''string'' else input_Type input) in
        and_then (guard (rune_count (Description input) \<le> maxInputDescriptionLength) (TooLong name)) (\<lambda>_.
        and_then (guard (\<not> (eventName = ''workflow_call'' \<and> inputType = [])) (BadInputType name)) (\<lambda>_.
        and_then (guard (inputType = ''string'' \<or> inputType = ''boolean'' \<or> inputType = ''number'' \<or>
            eventName = ''workflow_dispatch'' \<and> (inputType = ''choice'' \<or> inputType = ''environment'')) (BadInputType name)) (\<lambda>_.
        and_then (guard (length (Options input) \<le> maxInputOptions) (TooMany name (length (Options input)))) (\<lambda>_.
        and_then (guard (\<not> (inputType = ''choice'' \<and> Options input = [])) (BadOptions name)) (\<lambda>_.
        and_then (guard (\<not> (inputType \<noteq> ''choice'' \<and> Options input \<noteq> [])) (BadOptions name)) (\<lambda>_.
        and_then (guard (list_all (\<lambda>option. option \<noteq> [] \<and> rune_count option \<le> maxInputValueLength) (Options input)) (BadOptions name)) (\<lambda>_.
          if \<not> defaultSet input then Inr []
          else case scalarString (tr_eval env) (Default input) of
              None \<Rightarrow> Inl (BadDefault name)
            | Some v \<Rightarrow>
                if rune_count v > maxInputValueLength \<or> \<not> validInputValue env inputType v (Options input)
                then Inl (BadDefault name) else Inr [(name, v)]))))))))"

fun input_loop :: "'n trigger_env \<Rightarrow> string \<Rightarrow> (string \<times> 'n WorkflowInput) list \<Rightarrow> string list \<Rightarrow> (string \<times> string) list \<Rightarrow>
    trigger_error + (string \<times> string) list" where
  "input_loop env eventName [] inputNames defaults = Inr defaults"
| "input_loop env eventName ((name, input) # inputs) inputNames defaults =
     (if rune_count name > maxInputNameLength \<or> \<not> inputNamePattern name then Inl (BadInputName name)
      else if to_lower name \<in> set inputNames then Inl (RepeatedInput name)
      else and_then (validate_input env eventName (name, input)) (\<lambda>new.
        input_loop env eventName inputs (to_lower name # inputNames) (defaults @ new)))"

definition validateWorkflowInputs :: "'n trigger_env \<Rightarrow> string \<Rightarrow> (string \<times> 'n WorkflowInput) list \<Rightarrow> trigger_error + unit" where
  "validateWorkflowInputs env eventName inputs =
     and_then (guard (length inputs \<le> maxTriggerInputs) (TooMany ''inputs'' (length inputs))) (\<lambda>_.
     and_then (input_loop env eventName inputs [] []) validateInputPayloadLength)"

primrec interval_loop :: "(int \<Rightarrow> int) \<Rightarrow> nat \<Rightarrow> int \<Rightarrow> bool" where
  "interval_loop next_time 0 cursor = True"
| "interval_loop next_time (Suc n) cursor =
     (let next = next_time cursor; following = next_time next
      in if following - next < 5 * 60 then False else interval_loop next_time n next)"

text \<open>The cursor starts at 2000-01-01, in seconds of Unix time.\<close>

definition ParseCron :: "'n trigger_env \<Rightarrow> string \<Rightarrow> trigger_error + (int \<Rightarrow> int)" where
  "ParseCron env expression =
     (if expression = [] \<or> rune_count expression > maxCronLength then Inl (BadCron expression)
      else if length (fields_func is_space expression) \<noteq> 5 then Inl (BadCron expression)
      else case tr_cron env expression of
          None \<Rightarrow> Inl (BadCron expression)
        | Some next_time \<Rightarrow> if interval_loop next_time 128 946684800 then Inr next_time else Inl CronTooFrequent)"

definition ScheduleMatches :: "(int \<Rightarrow> int) \<Rightarrow> int \<Rightarrow> bool" where
  "ScheduleMatches next_time instant = (let minute = instant - instant mod 60 in next_time (minute - 60) = minute)"

definition validate_types :: "string \<Rightarrow> string list \<Rightarrow> 'n EventFilter \<Rightarrow> trigger_error + unit" where
  "validate_types eventName allowedTypes f =
     and_then (guard (length (Types f) \<le> maxActivityTypes) (TooMany eventName (length (Types f)))) (\<lambda>_.
     and_then (guard (\<not> (typesSet f \<and> Types f = [])) (EmptyFilter eventName)) (\<lambda>_.
     and_then (map_res (\<lambda>t. and_then (guard (rune_count t \<le> maxActivityTypeLength) (TooLong t)) (\<lambda>_.
         guard (t \<in> set allowedTypes) (UnsupportedType t))) (Types f)) (\<lambda>_.
       guard (\<not> (typesSet f \<and> \<not> eventSupportsTypes eventName)) (FilterNotSupported eventName ''types''))))"

definition validate_workflows :: "string \<Rightarrow> 'n EventFilter \<Rightarrow> trigger_error + unit" where
  "validate_workflows eventName f =
     and_then (guard (length (Workflows f) \<le> maxWorkflowFilters) (TooMany eventName (length (Workflows f)))) (\<lambda>_.
     and_then (guard (\<not> (workflowsSet f \<and> eventName \<noteq> ''workflow_run'')) (FilterNotSupported eventName ''workflows'')) (\<lambda>_.
     and_then (guard (\<not> (workflowsSet f \<and> Workflows f = [])) (EmptyFilter eventName)) (\<lambda>_.
       guard (list_all (\<lambda>name. name \<noteq> [] \<and> rune_count name \<le> maxWorkflowFilterLength) (Workflows f)) (TooLong eventName))))"

definition validate_schedules :: "'n trigger_env \<Rightarrow> string \<Rightarrow> string list \<Rightarrow> trigger_error + unit" where
  "validate_schedules env eventName schedules =
     (if eventName = ''schedule'' then
        and_then (guard (schedules \<noteq> []) (EmptyFilter eventName)) (\<lambda>_.
        and_then (guard (length schedules \<le> maxSchedules) (TooMany eventName (length schedules))) (\<lambda>_.
        and_then (map_res (ParseCron env) schedules) (\<lambda>_. Inr ())))
      else guard (schedules = []) (FilterNotSupported eventName ''schedules''))"

definition validate_event :: "'n trigger_env \<Rightarrow> string \<times> 'n EventFilter \<Rightarrow> trigger_error + unit" where
  "validate_event env event =
     (case event of (eventName, f) \<Rightarrow>
        case map_of supportedEventTypes eventName of
          None \<Rightarrow> Inl (UnsupportedTrigger eventName)
        | Some allowedTypes \<Rightarrow>
            and_then (validate_types eventName allowedTypes f) (\<lambda>_.
            and_then (validateRefPatterns eventName ''branch'' (Branches f) (branchesSet f) (eventSupportsBranches eventName)) (\<lambda>_.
            and_then (validateRefPatterns eventName ''tag'' (Tags f) (tagsSet f) (eventName = ''push'')) (\<lambda>_.
            and_then (validatePathFilters eventName f) (\<lambda>_.
            and_then (validate_workflows eventName f) (\<lambda>_.
            and_then (guard (\<not> (inputsSet f \<and> eventName \<noteq> ''workflow_dispatch'' \<and> eventName \<noteq> ''workflow_call''))
                (FilterNotSupported eventName ''inputs'')) (\<lambda>_.
            and_then (validateWorkflowInputs env eventName (filter_Inputs f)) (\<lambda>_.
              validate_schedules env eventName (Schedules f)))))))))"

definition validateTrigger :: "'n trigger_env \<Rightarrow> 'n Trigger \<Rightarrow> trigger_error + unit" where
  "validateTrigger env trigger =
     and_then (guard (trigger \<noteq> []) NoTrigger) (\<lambda>_.
     and_then (map_res (validate_event env) trigger) (\<lambda>_. Inr ()))"

section \<open>Matching an event\<close>

definition NeedsChangedFiles :: "'n EventFilter \<Rightarrow> 'n Event \<Rightarrow> bool" where
  "NeedsChangedFiles f event \<longleftrightarrow>
     (pathsSet f \<or> pathsIgnoreSet f \<or> Paths f \<noteq> [] \<or> PathsIgnore f \<noteq> []) \<and>
     \<not> (event_Name event = ''push'' \<and> has_prefix (Ref event) ''refs/tags/'')"

definition matchesPaths :: "'n EventFilter \<Rightarrow> ChangedFiles \<Rightarrow> bool" where
  "matchesPaths f files =
     (if AlwaysRun files then True
      else
        let ignore = PathsIgnore f \<noteq> [];
            matchers = compilePatterns (if ignore then PathsIgnore f else Paths f)
        in list_ex (\<lambda>path. matches matchers path \<noteq> ignore)
             (take (min (length (changed_Paths files)) MaxChangedFiles) (changed_Paths files)))"

definition inputExpressionValue :: "'n trigger_env \<Rightarrow> string \<Rightarrow> string \<Rightarrow> 'n any" where
  "inputExpressionValue env inputType v =
     (if inputType = ''boolean'' then BoolAny (v = ''true'')
      else if inputType = ''number'' then
        NumAny (case fl_parse (env_ops (tr_eval env)) v of Some n \<Rightarrow> n | None \<Rightarrow> tr_parse_failed env v)
      else StrAny v)"

definition implicitWorkflowCallInputDefault :: "string \<Rightarrow> string" where
  "implicitWorkflowCallInputDefault inputType =
     (if inputType = ''boolean'' then ''false'' else if inputType = ''number'' then ''0'' else [])"

definition input_type :: "'n WorkflowInput \<Rightarrow> string" where
  "input_type definition = (if input_Type definition = [] then ''string'' else input_Type definition)"

definition input_value :: "'n trigger_env \<Rightarrow> string \<Rightarrow> (string \<times> string) list \<Rightarrow> string \<Rightarrow> 'n WorkflowInput \<Rightarrow> trigger_error + string option" where
  "input_value env eventName provided name definition =
     (case map_of provided name of
        Some v \<Rightarrow> Inr (Some v)
      | None \<Rightarrow>
          if defaultSet definition
          then Inr (Some (case scalarString (tr_eval env) (Default definition) of Some v \<Rightarrow> v | None \<Rightarrow> []))
          else if Required definition then Inl (MissingInput name)
          else if eventName = ''workflow_call'' then Inr (Some (implicitWorkflowCallInputDefault (input_type definition)))
          else Inr None)"

definition resolve_input :: "'n trigger_env \<Rightarrow> string \<Rightarrow> (string \<times> string) list \<Rightarrow> string \<times> 'n WorkflowInput \<Rightarrow>
    trigger_error + (string \<times> string \<times> 'n any) list" where
  "resolve_input env eventName provided entry =
     (case entry of (name, definition) \<Rightarrow>
        and_then (input_value env eventName provided name definition) (\<lambda>found.
          case found of
            None \<Rightarrow> Inr []
          | Some v \<Rightarrow>
              and_then (guard (rune_count v \<le> maxInputValueLength) (TooLong name)) (\<lambda>_.
              and_then (guard (validInputValue env (input_type definition) v (Options definition)) (BadInputValue name)) (\<lambda>_.
                Inr [(name, v, inputExpressionValue env (input_type definition) v)]))))"

definition resolveInputs :: "'n trigger_env \<Rightarrow> string \<Rightarrow> (string \<times> 'n WorkflowInput) list \<Rightarrow> (string \<times> string) list \<Rightarrow>
    trigger_error + (string \<times> string) list \<times> (string \<times> 'n any) list" where
  "resolveInputs env eventName definitions provided =
     and_then (guard (length provided \<le> maxTriggerInputs) (TooMany eventName (length provided))) (\<lambda>_.
     and_then (map_res (\<lambda>(name, _). guard (map_of definitions name \<noteq> None) (UnknownInput name)) provided) (\<lambda>_.
     and_then (map_res (resolve_input env eventName provided) definitions) (\<lambda>parts.
       let resolved = map (\<lambda>(name, v, _). (name, v)) (concat parts);
           inputValues = map (\<lambda>(name, _, x). (name, x)) (concat parts)
       in and_then (validateInputPayloadLength resolved) (\<lambda>_. Inr (resolved, inputValues)))))"

definition defaultPullRequestTypes :: "string list" where
  "defaultPullRequestTypes = [''opened'', ''synchronize'', ''reopened'']"

definition defaultMergeGroupTypes :: "string list" where
  "defaultMergeGroupTypes = [''checks_requested'']"

definition event_types :: "'n EventFilter \<Rightarrow> 'n Event \<Rightarrow> string list" where
  "event_types f event =
     (if (event_Name event = ''pull_request'' \<or> event_Name event = ''pull_request_target'') \<and> \<not> typesSet f \<and> Types f = []
      then defaultPullRequestTypes
      else if event_Name event = ''merge_group'' \<and> \<not> typesSet f \<and> Types f = [] then defaultMergeGroupTypes
      else Types f)"

definition push_ref :: "'n EventFilter \<Rightarrow> 'n Event \<Rightarrow> bool" where
  "push_ref f event =
     (if has_prefix (Ref event) ''refs/heads/'' then
        \<not> ((tagsSet f \<and> \<not> branchesSet f) \<or> (branchesSet f \<and> \<not> matchesPatterns (Branches f) (RefName event)))
      else if has_prefix (Ref event) ''refs/tags/'' then
        \<not> ((branchesSet f \<and> \<not> tagsSet f) \<or> (tagsSet f \<and> \<not> matchesPatterns (Tags f) (RefName event)))
      else False)"

definition event_branch :: "'n Event \<Rightarrow> string" where
  "event_branch event =
     (if event_Name event = ''pull_request'' \<or> event_Name event = ''pull_request_target'' \<or> event_Name event = ''merge_group'' \<or>
         event_Name event = ''workflow_run''
      then BaseRef event else RefName event)"

definition match_inputs :: "'n trigger_env \<Rightarrow> 'n EventFilter \<Rightarrow> 'n Event \<Rightarrow> trigger_error + 'n Event \<times> bool" where
  "match_inputs env f event =
     (if event_Name event = ''workflow_dispatch'' \<or> event_Name event = ''workflow_call'' then
        and_then (resolveInputs env (event_Name event) (filter_Inputs f) (event_Inputs event)) (\<lambda>(inputs, inputValues).
          Inr (event\<lparr>event_Inputs := inputs, InputValues := inputValues\<rparr>, True))
      else Inr (event, True))"

definition match_files :: "'n trigger_env \<Rightarrow> 'n EventFilter \<Rightarrow> 'n Event \<Rightarrow> trigger_error + 'n Event \<times> bool" where
  "match_files env f event =
     (if NeedsChangedFiles f event then
        (case event_ChangedFiles event of
           None \<Rightarrow> Inl ChangedFilesMissing
         | Some files \<Rightarrow> if \<not> matchesPaths f files then Inr (event, False) else match_inputs env f event)
      else match_inputs env f event)"

definition Match :: "'n trigger_env \<Rightarrow> 'n Trigger \<Rightarrow> 'n Event \<Rightarrow> trigger_error + 'n Event \<times> bool" where
  "Match env trigger event =
     (case map_of trigger (event_Name event) of
        None \<Rightarrow> Inr (event, False)
      | Some f \<Rightarrow>
          let types = event_types f event in
          if types \<noteq> [] \<and> Action event \<notin> set types then Inr (event, False)
          else if event_Name event = ''workflow_run'' \<and> Workflows f \<noteq> [] \<and> event_WorkflowName event \<notin> set (Workflows f) then Inr (event, False)
          else if event_Name event = ''schedule'' then
            and_then (ParseCron env (event_Schedule event)) (\<lambda>_. Inr (event, event_Schedule event \<in> set (Schedules f)))
          else if event_Name event = ''push'' \<and> \<not> push_ref f event then Inr (event, False)
          else if event_Name event \<noteq> ''push'' \<and> Branches f \<noteq> [] \<and> \<not> matchesPatterns (Branches f) (event_branch event) then Inr (event, False)
          else match_files env f event)"

definition Matches :: "'n trigger_env \<Rightarrow> 'n Trigger \<Rightarrow> 'n Event \<Rightarrow> bool" where
  "Matches env trigger event = (case Match env trigger event of Inl _ \<Rightarrow> False | Inr (_, matched) \<Rightarrow> matched)"

section \<open>What decoding and validation establish\<close>

text \<open>A list of a filter is only there when its field was, and the names of the inputs are distinct.\<close>

definition decoded :: "'n EventFilter \<Rightarrow> bool" where
  "decoded f \<longleftrightarrow> (Paths f = [] \<or> pathsSet f) \<and> (PathsIgnore f = [] \<or> pathsIgnoreSet f) \<and> (Branches f = [] \<or> branchesSet f) \<and>
     (Tags f = [] \<or> tagsSet f) \<and> (Types f = [] \<or> typesSet f) \<and> (Workflows f = [] \<or> workflowsSet f) \<and>
     distinct (map fst (filter_Inputs f))"

lemma fold_fields_keeps:
  "fold_fields step fs s = Inr t \<Longrightarrow> I s \<Longrightarrow> (\<And>s field s'. step s field = Inr s' \<Longrightarrow> I s \<Longrightarrow> I s') \<Longrightarrow> I t"
  by (induction fs arbitrary: s) (auto simp: res_simps)

lemma distinct_fields:
  "rejectDuplicateMappingKeys content keys = Inr fs \<Longrightarrow> distinct (map fst fs) \<and> set (map fst fs) \<inter> set keys = {}"
  by (induction content keys arbitrary: fs rule: rejectDuplicateMappingKeys.induct)
    (fastforce simp: res_simps split: ynode.splits if_splits)+

lemma map_res_fst: "map_res (\<lambda>(name, v). and_then (g v) (\<lambda>x. Inr (name, x))) fs = Inr ys \<Longrightarrow> map fst ys = map fst fs"
  by (induction fs arbitrary: ys) (auto simp: res_simps)

lemma decoded_inputs: "decodeWorkflowInputs env node = Inr inputs \<Longrightarrow> distinct (map fst inputs)"
  unfolding decodeWorkflowInputs_def mapping_fields_def
  by (auto simp: res_simps dest!: map_res_fst distinct_fields split: ynode.splits)

lemma and_then_InrE: "and_then r h = Inr y \<Longrightarrow> (\<And>x. r = Inr x \<Longrightarrow> h x = Inr y \<Longrightarrow> P) \<Longrightarrow> P"
  by (auto simp: and_then_eq_Inr)

lemma decoded_updates:
  assumes "decoded f"
  shows "decoded (f\<lparr>Paths := ps, pathsSet := True\<rparr>)" "decoded (f\<lparr>PathsIgnore := ps, pathsIgnoreSet := True\<rparr>)"
    "decoded (f\<lparr>branchesSet := True, Branches := ps\<rparr>)" "decoded (f\<lparr>tagsSet := True, Tags := ps\<rparr>)"
    "decoded (f\<lparr>typesSet := True, Types := ps\<rparr>)" "decoded (f\<lparr>workflowsSet := True, Workflows := ps\<rparr>)"
    "distinct (map fst is) \<Longrightarrow> decoded (f\<lparr>inputsSet := True, filter_Inputs := is\<rparr>)"
  using assms by (simp_all add: decoded_def)

lemma paths_decoded: "decodePaths env f name v = Inr f' \<Longrightarrow> decoded f \<Longrightarrow> decoded f'"
  unfolding decodePaths_def by (elim and_then_InrE) (auto simp: decoded_updates split: if_split_asm)

lemma filter_field_decoded: "filter_field env f field = Inr f' \<Longrightarrow> decoded f \<Longrightarrow> decoded f'"
  unfolding filter_field_def case_prod_beta
  by (simp only: sum.distinct split: if_split_asm; (erule (1) paths_decoded)?; (elim and_then_InrE)?;
      (simp only: sum.inject; hypsubst; (rule decoded_updates; (assumption | erule decoded_inputs)))?)

lemma zero_decoded: "decoded zero_filter" "decoded (zero_filter\<lparr>Schedules := crons\<rparr>)"
  by (simp_all add: decoded_def zero_filter_def)

lemma decode_filter_decoded: "decode_filter env node = Inr f \<Longrightarrow> decoded f"
  unfolding decode_filter_def
  by (auto simp: res_simps zero_decoded split: ynode.splits if_splits
      elim: fold_fields_keeps [where I = decoded, OF _ zero_decoded(1) filter_field_decoded])

lemma event_filter_decoded: "event_filter env field = Inr (name, f) \<Longrightarrow> decoded f"
  by (cases field) (auto simp: event_filter_def res_simps zero_decoded split: if_splits ynode.splits dest: decode_filter_decoded)

lemma map_res_mem: "map_res g xs = Inr ys \<Longrightarrow> y \<in> set ys \<Longrightarrow> \<exists>x \<in> set xs. g x = Inr y"
  by (induction xs arbitrary: ys) (auto simp: res_simps)

lemma map_res_all: "map_res g xs = Inr ys \<Longrightarrow> x \<in> set xs \<Longrightarrow> \<exists>y \<in> set ys. g x = Inr y"
  by (induction xs arbitrary: ys) (auto simp: res_simps)

lemma update_zero: "(\<forall>x \<in> set (map snd m). decoded x) \<Longrightarrow> \<forall>x \<in> set (map snd (AList.update k zero_filter m)). decoded x"
  using zero_decoded(1) by (induction m) auto

lemma decode_trigger_decoded:
  assumes "decode_trigger env node = Inr trigger" "map_of trigger name = Some f"
  shows "decoded f"
proof -
  have list: "\<forall>x \<in> set (map snd (foldl (\<lambda>m (k, f). AList.update k f m) m events)). decoded x"
    if "\<forall>e \<in> set events. snd e = zero_filter" "\<forall>x \<in> set (map snd m). decoded x" for m events
    using that
  proof (induction events arbitrary: m)
    case (Cons e es)
    obtain k where e: "e = (k, zero_filter)" using Cons.prems(1) by (cases e) simp
    have "\<forall>x \<in> set (map snd (AList.update k zero_filter m)). decoded x" using Cons.prems(2) by (rule update_zero)
    with Cons.IH Cons.prems(1) show ?case unfolding e foldl.simps prod.case by (meson list.set_intros(2))
  qed simp
  have zero: "list_event c = Inr e \<Longrightarrow> snd e = zero_filter" for c e by (auto simp: list_event_def split: ynode.splits)
  from assms(2) have "f \<in> set (map snd trigger)" by (force dest: map_of_SomeD)
  then obtain k where mem: "(k, f) \<in> set trigger" by auto
  show ?thesis
  proof (cases node)
    case (YScalar t v)
    with assms(1) mem show ?thesis by (auto simp: decode_trigger_def zero_decoded)
  next
    case (YSequence ns)
    with assms(1) obtain events where "map_res list_event ns = Inr events" "trigger = foldl (\<lambda>m (k, f). AList.update k f m) [] events"
      by (auto simp: decode_trigger_def and_then_eq_Inr)
    moreover from this(1) zero have "\<forall>e \<in> set events. snd e = zero_filter" by (auto dest: map_res_mem)
    ultimately have "\<forall>x \<in> set (map snd trigger). decoded x" using list [of events "[]"] by simp
    with mem show ?thesis by auto
  next
    case (YMapping content)
    with assms(1) obtain fs where "map_res (event_filter env) fs = Inr trigger" by (auto simp: decode_trigger_def and_then_eq_Inr)
    from map_res_mem [OF this mem] show ?thesis by (auto dest: event_filter_decoded)
  qed (use assms(1) in \<open>simp add: decode_trigger_def\<close>)
qed

lemma validated_event: "validateTrigger env trigger = Inr () \<Longrightarrow> map_of trigger name = Some f \<Longrightarrow> validate_event env (name, f) = Inr ()"
  by (auto simp: validateTrigger_def res_simps dest!: map_of_SomeD map_res_all)

section \<open>Pushes\<close>

text \<open>
  What a push needs: the patterns of its kind of reference accept its name, where a filter on the other kind alone excludes it, and
  for a branch, when there is a path filter, one of the first 3000 changed files is wanted or not ignored.
\<close>

definition push_wanted :: "'n EventFilter \<Rightarrow> 'n Event \<Rightarrow> ChangedFiles \<Rightarrow> bool" where
  "push_wanted f event files \<longleftrightarrow>
     has_prefix (Ref event) ''refs/heads/'' \<and>
       (if branchesSet f then last_match_positive (Branches f) (RefName event) else \<not> tagsSet f) \<and>
       (AlwaysRun files \<or>
        (pathsSet f \<longrightarrow> list_ex (last_match_positive (Paths f)) (take 3000 (changed_Paths files))) \<and>
        (pathsIgnoreSet f \<longrightarrow> list_ex (\<lambda>path. \<not> last_match_positive (PathsIgnore f) path) (take 3000 (changed_Paths files)))) \<or>
     has_prefix (Ref event) ''refs/tags/'' \<and>
       (if tagsSet f then last_match_positive (Tags f) (RefName event) else \<not> branchesSet f)"

lemma validated_paths:
  assumes "validatePathFilters name f = Inr ()" "decoded f"
  shows "pathsIgnoreSet f \<longleftrightarrow> PathsIgnore f \<noteq> []" "pathsSet f \<longleftrightarrow> Paths f \<noteq> []" "\<not> (pathsSet f \<and> pathsIgnoreSet f)"
  using assms by (auto simp: validatePathFilters_def path_field_def decoded_def res_simps split: if_splits)

lemma validated_push:
  assumes "validate_event env (''push'', f) = Inr ()"
  shows "Types f = []" "validatePathFilters ''push'' f = Inr ()"
proof -
  have types: "map_of supportedEventTypes ''push'' = Some []" by (simp add: supportedEventTypes_def Let_def)
  with assms have "validate_types ''push'' [] f = Inr ()" and paths: "validatePathFilters ''push'' f = Inr ()"
    by (auto simp: validate_event_def and_then_eq_Inr)
  then show "Types f = []" by (cases "Types f") (auto simp: validate_types_def and_then_eq_Inr)
  from paths show "validatePathFilters ''push'' f = Inr ()" .
qed

lemma heads_not_tags: "has_prefix s ''refs/heads/'' \<Longrightarrow> \<not> has_prefix s ''refs/tags/''"
  by (auto simp: has_prefix_def prefix_def)

text \<open>
  C20. A push starts a workflow exactly when its filter wants it. For a trigger that was read from YAML and passed validation, a push
  whose changed files are known is decided without an error, by the last matching pattern of the branches or tags and of
  the path filter, of which validation left at most one.
\<close>

theorem push_runs_exactly_when_wanted:
  assumes "decode_trigger env node = Inr trigger" "validateTrigger env trigger = Inr ()"
    and "map_of trigger ''push'' = Some f" "event_Name event = ''push''" "event_ChangedFiles event = Some files"
  shows "Match env trigger event = Inr (event, push_wanted f event files)"
proof -
  have dec: "decoded f" by (rule decode_trigger_decoded [OF assms(1,3)])
  note valid = validated_push [OF validated_event [OF assms(2,3)]]
  note paths = validated_paths [OF valid(2) dec]
  have inputs: "match_inputs env f event = Inr (event, True)" using assms(4) by (simp add: match_inputs_def)
  have files: "matchesPaths f files \<longleftrightarrow> AlwaysRun files \<or>
      (pathsSet f \<longrightarrow> list_ex (last_match_positive (Paths f)) (take 3000 (changed_Paths files))) \<and>
      (pathsIgnoreSet f \<longrightarrow> list_ex (\<lambda>path. \<not> last_match_positive (PathsIgnore f) path) (take 3000 (changed_Paths files)))"
    if "pathsSet f \<or> pathsIgnoreSet f"
    using that paths
    by (auto simp: matchesPaths_def Let_def MaxChangedFiles_def min_def matchesPatterns_last simp flip: matchesPatterns_def)
  have matched: "match_files env f event = Inr (event, has_prefix (Ref event) ''refs/tags/'' \<or> \<not> (pathsSet f \<or> pathsIgnoreSet f) \<or> matchesPaths f files)"
    using assms(4,5) paths inputs by (auto simp: match_files_def NeedsChangedFiles_def)
  have "Match env trigger event = (if push_ref f event then match_files env f event else Inr (event, False))"
    using assms(3,4) valid(1) by (simp add: Match_def event_types_def Let_def)
  with matched files heads_not_tags [of "Ref event"] show ?thesis
    by (auto simp: push_ref_def push_wanted_def matchesPatterns_last split: if_splits)
qed

text \<open>A decoder for nodes that hold strings, and a trigger for pushes and dispatches.\<close>

definition node_string :: "ynode \<Rightarrow> string + string" where
  "node_string node = (case node of YScalar _ v \<Rightarrow> Inr v | _ \<Rightarrow> Inl ''not a scalar'')"

definition whole_triggers :: "int option trigger_env" where
  "whole_triggers = \<lparr>tr_eval = whole_env, tr_isinf = (\<lambda>_. False), tr_parse_failed = (\<lambda>_. None), tr_cron = (\<lambda>_. None),
     tr_string = node_string, tr_strings = (\<lambda>node. case node of YSequence ns \<Rightarrow> map_res node_string ns | _ \<Rightarrow> Inl ''not a list''),
     tr_bool = (\<lambda>node. case node_string node of Inr v \<Rightarrow> Inr (v = ''true'') | Inl e \<Rightarrow> Inl e),
     tr_any = (\<lambda>node. case node_string node of Inr v \<Rightarrow> Inr (StrAny v) | Inl e \<Rightarrow> Inl e),
     tr_crons = (\<lambda>_. Inr [])\<rparr>"

abbreviation text_node :: "string \<Rightarrow> ynode" where
  "text_node v \<equiv> YScalar ''!!str'' v"

definition demo_on :: ynode where
  "demo_on = YMapping
     [(text_node ''push'', YMapping [(text_node ''branches'', YSequence [text_node ''rel/**'', text_node ''!rel/x*'']),
        (text_node ''paths-ignore'', YSequence [text_node ''docs/**''])]),
      (text_node ''workflow_dispatch'', YMapping [(text_node ''inputs'', YMapping
        [(text_node ''debug'', YMapping [(text_node ''type'', text_node ''boolean''), (text_node ''default'', text_node ''false'')]),
         (text_node ''count'', YMapping [(text_node ''type'', text_node ''number''), (text_node ''required'', text_node ''true'')])])])]"

definition demo_trigger :: "int option Trigger" where
  "demo_trigger = (case decode_trigger whole_triggers demo_on of Inr t \<Rightarrow> t | Inl _ \<Rightarrow> [])"

definition demo_event :: "string \<Rightarrow> string \<Rightarrow> string list \<Rightarrow> int option Event" where
  "demo_event name branch paths = \<lparr>event_Name = name, Action = [], Ref = ''refs/heads/'' @ branch, RefName = branch, BaseRef = [],
     event_WorkflowName = [], event_Inputs = [(''count'', ''3'')], InputValues = [], event_Schedule = [],
     event_ChangedFiles = Some \<lparr>changed_Paths = paths, AlwaysRun = False\<rparr>\<rparr>"

lemma demo_trigger_valid:
  "decode_trigger whole_triggers demo_on = Inr demo_trigger" "validateTrigger whole_triggers demo_trigger = Inr ()"
  by code_simp+

theorem push_runs_exactly_when_wanted_witness:
  "Match whole_triggers demo_trigger (demo_event ''push'' ''rel/1'' [''docs/a'', ''src/b'']) =
     Inr (demo_event ''push'' ''rel/1'' [''docs/a'', ''src/b''], True)"
proof -
  let ?event = "demo_event ''push'' ''rel/1'' [''docs/a'', ''src/b'']"
  let ?files = "\<lparr>changed_Paths = [''docs/a'', ''src/b''], AlwaysRun = False\<rparr>"
  obtain f where f: "map_of demo_trigger ''push'' = Some f" "Branches f = [''rel/**'', ''!rel/x*'']" "branchesSet f" "\<not> pathsSet f"
    "pathsIgnoreSet f" "PathsIgnore f = [''docs/**'']"
  proof -
    have "(case map_of demo_trigger ''push'' of None \<Rightarrow> False
       | Some f \<Rightarrow> Branches f = [''rel/**'', ''!rel/x*''] \<and> branchesSet f \<and> \<not> pathsSet f \<and> pathsIgnoreSet f \<and> PathsIgnore f = [''docs/**''])"
      by code_simp
    with that show ?thesis by (auto split: option.splits)
  qed
  have "Match whole_triggers demo_trigger ?event = Inr (?event, push_wanted f ?event ?files)"
    by (rule push_runs_exactly_when_wanted [OF demo_trigger_valid f(1)]) (simp_all add: demo_event_def)
  moreover have "matchesPatterns [''rel/**'', ''!rel/x*''] ''rel/1''" "\<not> matchesPatterns [''docs/**''] ''src/b''" by code_simp+
  ultimately show ?thesis
    using f(2-) by (simp add: push_wanted_def demo_event_def has_prefix_def flip: matchesPatterns_last)
qed

section \<open>Inputs\<close>

text \<open>A value of an input and the value expressions see, for each type.\<close>

definition input_typed :: "'n trigger_env \<Rightarrow> 'n WorkflowInput \<Rightarrow> string \<Rightarrow> 'n any \<Rightarrow> bool" where
  "input_typed env definition v x \<longleftrightarrow>
     (if input_type definition = ''boolean'' then v = ''true'' \<and> x = BoolAny True \<or> v = ''false'' \<and> x = BoolAny False
      else if input_type definition = ''number'' then
        (case fl_parse (env_ops (tr_eval env)) v of
           None \<Rightarrow> False
         | Some n \<Rightarrow> \<not> tr_isinf env n \<and> \<not> fl_isnan (env_ops (tr_eval env)) n \<and> x = NumAny n)
      else x = StrAny v \<and> (input_type definition = ''choice'' \<longrightarrow> v \<in> set (Options definition)))"

definition declared_value :: "'n trigger_env \<Rightarrow> string \<Rightarrow> 'n WorkflowInput \<Rightarrow> string option" where
  "declared_value env eventName definition =
     (if defaultSet definition then scalarString (tr_eval env) (Default definition)
      else if eventName = ''workflow_call'' then Some (implicitWorkflowCallInputDefault (input_type definition)) else None)"

text \<open>The resolution of one name: its declaration, what the event provides, the resolved text and the value for expressions.\<close>

definition input_resolved :: "'n trigger_env \<Rightarrow> string \<Rightarrow> 'n WorkflowInput option \<Rightarrow> string option \<Rightarrow> string option \<Rightarrow> 'n any option \<Rightarrow> bool" where
  "input_resolved env eventName declaration provided resolved expression_value \<longleftrightarrow>
     (case declaration of
        None \<Rightarrow> provided = None \<and> resolved = None \<and> expression_value = None
      | Some i \<Rightarrow>
          resolved = (case provided of Some v \<Rightarrow> Some v | None \<Rightarrow> declared_value env eventName i) \<and>
          (case (resolved, expression_value) of
             (None, None) \<Rightarrow> \<not> Required i
           | (Some v, Some x) \<Rightarrow> input_typed env i v x
           | _ \<Rightarrow> False))"

lemma input_loop_valid:
  "input_loop env eventName inputs names defaults = Inr ds \<Longrightarrow> (name, i) \<in> set inputs \<Longrightarrow>
   \<exists>new. validate_input env eventName (name, i) = Inr new"
  by (induction env eventName inputs names defaults rule: input_loop.induct) (auto simp: and_then_eq_Inr split: if_splits)

lemma validated_default:
  assumes "validateWorkflowInputs env eventName inputs = Inr ()" "(name, i) \<in> set inputs" "defaultSet i"
  shows "scalarString (tr_eval env) (Default i) \<noteq> None"
  using assms input_loop_valid [of env eventName inputs "[]" "[]" _ name i]
  by (auto simp: validateWorkflowInputs_def validate_input_def Let_def and_then_eq_Inr split: option.splits)

lemma resolve_input_cases:
  assumes "resolve_input env eventName provided (name, i) = Inr part"
  obtains "part = []" "input_value env eventName provided name i = Inr None"
  | v where "part = [(name, v, inputExpressionValue env (input_type i) v)]" "input_value env eventName provided name i = Inr (Some v)"
      "validInputValue env (input_type i) v (Options i)"
  using assms by (auto simp: resolve_input_def and_then_eq_Inr split: option.splits)

lemma resolved_value:
  assumes "input_value env eventName provided name i = Inr found"
    and "defaultSet i \<Longrightarrow> scalarString (tr_eval env) (Default i) \<noteq> None"
  shows "found = (case map_of provided name of Some v \<Rightarrow> Some v | None \<Rightarrow> declared_value env eventName i)"
    "Required i \<Longrightarrow> found \<noteq> None"
  using assms
  by (cases "map_of provided name"; cases "scalarString (tr_eval env) (Default i)";
      auto simp: input_value_def declared_value_def split: if_splits)+

lemma expression_value_typed:
  "validInputValue env (input_type i) v (Options i) \<Longrightarrow> input_typed env i v (inputExpressionValue env (input_type i) v)"
  by (auto simp: validInputValue_def input_typed_def inputExpressionValue_def split: if_splits option.splits)

lemma resolved_parts:
  assumes "map_res (resolve_input env eventName provided) inputs = Inr parts" "distinct (map fst inputs)"
  shows "(name, v, x) \<in> set (concat parts) \<longleftrightarrow>
      (\<exists>i. (name, i) \<in> set inputs \<and> resolve_input env eventName provided (name, i) = Inr [(name, v, x)])" (is ?mem)
    and "distinct (map fst (concat parts))" (is ?dist)
proof -
  have "?mem \<and> ?dist \<and> set (map fst (concat parts)) \<subseteq> set (map fst inputs)"
    using assms
  proof (induction inputs arbitrary: parts)
    case (Cons field inputs)
    obtain n i where field: "field = (n, i)" by (cases field)
    from Cons.prems(1) field obtain part rest where r: "resolve_input env eventName provided (n, i) = Inr part"
      "map_res (resolve_input env eventName provided) inputs = Inr rest" "parts = part # rest"
      by (auto simp: and_then_eq_Inr)
    have "part = [] \<or> (\<exists>w y. part = [(n, w, y)])" using r(1) by (rule resolve_input_cases) auto
    moreover from Cons.IH [OF r(2)] Cons.prems(2)
    have ih: "(name, v, x) \<in> set (concat rest) \<longleftrightarrow>
        (\<exists>i. (name, i) \<in> set inputs \<and> resolve_input env eventName provided (name, i) = Inr [(name, v, x)])"
      "distinct (map fst (concat rest))" "set (map fst (concat rest)) \<subseteq> set (map fst inputs)" by (auto simp del: set_concat)
    moreover from ih(3) Cons.prems(2) field have "n \<notin> set (map fst (concat rest))" "n \<notin> set (map fst inputs)" by auto
    ultimately show ?case using r field by (auto simp del: set_concat simp: image_iff)
  qed simp
  then show ?mem ?dist by blast+
qed

lemma map_of_parts:
  "map_of (map (\<lambda>(n, v, _). (n, v)) parts) name = map_option fst (map_of parts name)"
  "map_of (map (\<lambda>(n, _, x). (n, x)) parts) name = map_option snd (map_of parts name)"
  by (induction parts) auto

lemma resolved_lookup:
  assumes "map_res (resolve_input env eventName provided) inputs = Inr parts" "distinct (map fst inputs)"
  shows "map_of (concat parts) name = Some (v, x) \<longleftrightarrow>
    (\<exists>i. map_of inputs name = Some i \<and> resolve_input env eventName provided (name, i) = Inr [(name, v, x)])"
  using resolved_parts [OF assms] assms(2) by simp

lemma matched_inputs:
  assumes "Match env trigger event = Inr (event', True)" "map_of trigger (event_Name event) = Some f"
    and "event_Name event = ''workflow_dispatch'' \<or> event_Name event = ''workflow_call''"
  obtains inputs inputValues where "resolveInputs env (event_Name event) (filter_Inputs f) (event_Inputs event) = Inr (inputs, inputValues)"
    "event' = event\<lparr>event_Inputs := inputs, InputValues := inputValues\<rparr>"
proof -
  have "match_files env f event = Inr (event', True)"
    using assms by (auto simp: Match_def Let_def split: if_splits)
  then have "match_inputs env f event = Inr (event', True)"
    by (auto simp: match_files_def split: if_splits option.splits)
  with assms(3) that show ?thesis by (auto simp: match_inputs_def and_then_eq_Inr)
qed

lemma validated_inputs:
  "validate_event env (name, f) = Inr () \<Longrightarrow> validateWorkflowInputs env name (filter_Inputs f) = Inr ()"
  by (auto simp: validate_event_def and_then_eq_Inr split: option.splits)

lemma resolved_inputs:
  assumes parts: "map_res (resolve_input env eventName given) ins = Inr parts" and dist: "distinct (map fst ins)"
    and known: "map_res (\<lambda>(name, _). guard (map_of ins name \<noteq> None) (UnknownInput name)) given = Inr us"
    and defaults: "\<And>name i. map_of ins name = Some i \<Longrightarrow> defaultSet i \<Longrightarrow> scalarString (tr_eval env) (Default i) \<noteq> None"
  shows "input_resolved env eventName (map_of ins name) (map_of given name)
      (map_of (map (\<lambda>(n, v, _). (n, v)) (concat parts)) name) (map_of (map (\<lambda>(n, _, x). (n, x)) (concat parts)) name)"
proof (cases "map_of ins name")
  case None
  have "map_of given name = None"
  proof (rule ccontr)
    assume "map_of given name \<noteq> None"
    then obtain v where "(name, v) \<in> set given" by (auto dest: map_of_SomeD)
    from map_res_all [OF known this] None show False by simp
  qed
  moreover have "map_of (concat parts) name = None"
    using resolved_lookup [OF parts dist, of name] None by (cases "map_of (concat parts) name") auto
  ultimately show ?thesis using None by (simp add: input_resolved_def map_of_parts)
next
  case (Some i)
  then have "(name, i) \<in> set ins" by (rule map_of_SomeD)
  then obtain part where part: "resolve_input env eventName given (name, i) = Inr part"
    using map_res_all [OF parts] by blast
  show ?thesis
  proof (cases rule: resolve_input_cases [OF part])
    case 1
    then have "map_of (concat parts) name = None"
      using resolved_lookup [OF parts dist, of name] Some part by (cases "map_of (concat parts) name") auto
    with resolved_value [OF 1(2) defaults [OF Some]] Some show ?thesis by (auto simp: input_resolved_def map_of_parts)
  next
    case (2 v)
    then have "map_of (concat parts) name = Some (v, inputExpressionValue env (input_type i) v)"
      using resolved_lookup [OF parts dist, of name] Some part by auto
    moreover note expression_value_typed [OF 2(3)]
    moreover note resolved_value(1) [OF 2(2) defaults [OF Some], symmetric]
    ultimately show ?thesis using Some by (simp add: input_resolved_def map_of_parts)
  qed
qed

text \<open>
  C17. The inputs of a workflow that starts are complete and well typed. When a dispatch or call matches a trigger that was read
  from YAML and passed validation, only declared inputs were provided; each declared input has the provided value, or else the declared
  default, or else for a call the default of its type; a required one has a value; every value is one of the declared type or among its
  options, a number parses to a finite float64, and expressions see exactly that value. All names and values together have at
  most 65535 characters.
\<close>

theorem accepted_inputs_well_typed:
  assumes "decode_trigger env node = Inr trigger" "validateTrigger env trigger = Inr ()"
    and "map_of trigger (event_Name event) = Some f" "event_Name event = ''workflow_dispatch'' \<or> event_Name event = ''workflow_call''"
    and "Match env trigger event = Inr (event', True)"
  shows "(\<forall>name. input_resolved env (event_Name event) (map_of (filter_Inputs f) name) (map_of (event_Inputs event) name)
       (map_of (event_Inputs event') name) (map_of (InputValues event') name)) \<and>
    sum_list (map (\<lambda>(name, v). rune_count name + rune_count v) (event_Inputs event')) \<le> 65535"
proof -
  let ?in = "filter_Inputs f" and ?given = "event_Inputs event"
  have dist: "distinct (map fst ?in)" using decode_trigger_decoded [OF assms(1,3)] by (simp add: decoded_def)
  have defaults: "scalarString (tr_eval env) (Default i) \<noteq> None" if "map_of ?in name = Some i" "defaultSet i" for name i
    by (rule validated_default [OF validated_inputs [OF validated_event [OF assms(2,3)]] map_of_SomeD [OF that(1)] that(2)])
  from matched_inputs [OF assms(5,3,4)] obtain inputs inputValues where
    res: "resolveInputs env (event_Name event) ?in ?given = Inr (inputs, inputValues)"
    and event': "event' = event\<lparr>event_Inputs := inputs, InputValues := inputValues\<rparr>" .
  from res obtain us parts where parts: "map_res (resolve_input env (event_Name event) ?given) ?in = Inr parts"
    and known: "map_res (\<lambda>(name, _). guard (map_of ?in name \<noteq> None) (UnknownInput name)) ?given = Inr us"
    and out: "inputs = map (\<lambda>(n, v, _). (n, v)) (concat parts)" "inputValues = map (\<lambda>(n, _, x). (n, x)) (concat parts)"
    and size: "validateInputPayloadLength inputs = Inr ()"
    by (auto simp: resolveInputs_def and_then_eq_Inr Let_def)
  have "event_Inputs event' = inputs" "InputValues event' = inputValues" by (simp_all add: event')
  with resolved_inputs [OF parts dist known defaults] size out show ?thesis
    by (simp add: validateInputPayloadLength_def Let_def maxInputPayloadLength_def)
qed

theorem accepted_inputs_well_typed_witness:
  "(case Match whole_triggers demo_trigger (demo_event ''workflow_dispatch'' ''main'' []) of
      Inl _ \<Rightarrow> False
    | Inr (event, matched) \<Rightarrow> matched \<and> map_of (event_Inputs event) ''debug'' = Some ''false'' \<and>
        map_of (InputValues event) ''count'' = Some (NumAny (Some 3)) \<and>
        sum_list (map (\<lambda>(name, v). rune_count name + rune_count v) (event_Inputs event)) \<le> 65535)"
proof -
  let ?event = "demo_event ''workflow_dispatch'' ''main'' []"
  have run: "(case Match whole_triggers demo_trigger ?event of
      Inl _ \<Rightarrow> False
    | Inr (event, matched) \<Rightarrow> matched \<and> map_of (event_Inputs event) ''debug'' = Some ''false'' \<and>
        map_of (InputValues event) ''count'' = Some (NumAny (Some 3)))" by code_simp
  then obtain event' where m: "Match whole_triggers demo_trigger ?event = Inr (event', True)" by (auto split: sum.splits)
  have name: "event_Name ?event = ''workflow_dispatch''" by (simp add: demo_event_def)
  have "map_of demo_trigger ''workflow_dispatch'' \<noteq> None" by code_simp
  then obtain f where "map_of demo_trigger (event_Name ?event) = Some f" unfolding name by blast
  from accepted_inputs_well_typed [OF demo_trigger_valid this disjI1 [OF name] m] run m show ?thesis by simp
qed

end
