(* ===== verification/JobConditions.thy ===== *)
theory JobConditions
  imports JobGraph WorkflowExpressions
begin

text \<open>
  The pass over the job graph with the conditions of the workflow: what
  \<^verbatim>\<open>reconcileWorkflowJobGraphWithDependencies\<close> of \<^verbatim>\<open>src/internal/controller/workflowrun_controller.go\<close> hands to
  \<^verbatim>\<open>EvaluateJobCondition\<close>, with the needs context of \<^verbatim>\<open>src/internal/runner/needs.go\<close>.

  The locale \<open>success_gate\<close> is the contract between the two: when the evaluation says that a job may run although its ancestors
  did not all succeed, the job's condition is not a gated one. The expressions provide it, the pass relies on it.
\<close>

section \<open>The context of a condition\<close>

definition result_name :: "job_result \<Rightarrow> string" where
  "result_name r =
     (case r of Success \<Rightarrow> ''success'' | Failure \<Rightarrow> ''failure'' | Skipped \<Rightarrow> ''skipped'' | Cancelled \<Rightarrow> ''cancelled'' | NoResult \<Rightarrow> [])"

definition ExpressionValues :: "needs_context \<Rightarrow> (string \<times> 'n any) list" where
  "ExpressionValues needs =
     map (\<lambda>(i, need). (i, MapAny [(''result'', StrAny (result_name (need_result need))),
        (''outputs'', MapAny (map (\<lambda>(name, v). (name, StrAny v)) (need_outputs need)))])) needs"

definition condition_context :: "'n Context \<Rightarrow> WorkflowJob \<Rightarrow> expression_status \<Rightarrow> needs_context \<Rightarrow> 'n Context" where
  "condition_context job_context job status needs =
     (if trim_space (If job) \<noteq> []
      then job_context\<lparr>Values := AList.update ''needs'' (MapAny (ExpressionValues needs)) (Values job_context), context_status := Some status\<rparr>
      else \<lparr>availability = \<lparr>contexts = [], statusFunctions = False, hashFiles = False\<rparr>, Values = [], context_status = Some status\<rparr>)"

definition job_condition :: "'n eval_env \<Rightarrow> (plan_error \<Rightarrow> string) \<Rightarrow> 'n Context \<Rightarrow> WorkflowJob \<Rightarrow> expression_status \<Rightarrow> needs_context \<Rightarrow>
    evaluation_error + bool" where
  "job_condition eenv message job_context job status needs =
     (case EvaluateJobCondition eenv (If job) (condition_context job_context job status needs) of
        Inl e \<Rightarrow> Inl (EvaluationFailed (message e))
      | Inr b \<Rightarrow> Inr b)"

definition with_conditions :: "'n eval_env \<Rightarrow> (plan_error \<Rightarrow> string) \<Rightarrow> 'n Context \<Rightarrow> graph_env \<Rightarrow> graph_env" where
  "with_conditions eenv message job_context env = env\<lparr>evaluateCondition := job_condition eenv message job_context\<rparr>"

text \<open>A job whose condition is empty or calls no status function is behind the implicit gate.\<close>

definition gated :: "'n eval_env \<Rightarrow> WorkflowJob \<Rightarrow> bool" where
  "gated eenv job \<longleftrightarrow> trim_space (If job) = [] \<or>
     (case ParseCondition (env_ops eenv) (If job) of Inl _ \<Rightarrow> True | Inr p \<Rightarrow> \<not> UsesStatusFunction p)"

section \<open>The contract of the gate\<close>

locale success_gate =
  fixes env :: graph_env and behind_gate :: "WorkflowJob \<Rightarrow> bool"
  assumes gate_closed: "evaluateCondition env job status needs = Inr True \<Longrightarrow> behind_gate job \<Longrightarrow> status_success status"
    and same_gate: "behind_gate job \<Longrightarrow> If job' = If job \<Longrightarrow> behind_gate job'"
begin

definition admitted :: "WorkflowJob \<Rightarrow> bool" where
  "admitted job \<longleftrightarrow> workflowJobReadyCondition job \<or> workflowJobConcurrencyRegistered job"

definition needs_good :: "job_map \<Rightarrow> WorkflowJob \<Rightarrow> bool" where
  "needs_good m job \<longleftrightarrow> (\<forall>n \<in> set (Needs job). \<forall>d \<in> set (jobs_at m n). workflowJobTerminal d \<and> workflowJobEffectiveResult d = Success)"

definition admits :: "job_map \<Rightarrow> WorkflowJob \<Rightarrow> WorkflowJob \<Rightarrow> bool" where
  "admits m job job' \<longleftrightarrow> (behind_gate job \<longrightarrow> admitted job' \<longrightarrow> admitted job \<or> needs_good m job)"

lemma completed_not_admitted:
  "reason \<noteq> ''ConcurrencySuperseded'' \<Longrightarrow> admitted (completeUnscheduledWorkflowJob now job result reason msg) \<Longrightarrow> admitted job"
  by (auto simp: admitted_def workflowJobReadyCondition_def workflowJobConcurrencyRegistered_def completeUnscheduledWorkflowJob_def
      find_condition_def set_condition_def update_conv' Let_def split: if_splits)

lemma waiting_not_admitted: "admitted (setWorkflowJobWaiting job) \<Longrightarrow> admitted job"
  by (auto simp: admitted_def workflowJobReadyCondition_def workflowJobConcurrencyRegistered_def setWorkflowJobWaiting_def
      find_condition_def set_condition_def update_conv')

lemma cancelling_admitted: "admitted (setWorkflowJobCancellationRequested job b reason msg) = admitted job"
  by (simp add: admitted_def workflowJobReadyCondition_def workflowJobConcurrencyRegistered_def setWorkflowJobCancellationRequested_def
      find_condition_def set_condition_def update_conv')

lemma terminal_effective: "workflowJobTerminal d \<Longrightarrow> workflowJobEffectiveResult d \<noteq> NoResult"
  by (simp add: workflowJobTerminal_def workflowJobEffectiveResult_def Let_def)

lemma success_needs_good:
  assumes "status_success (workflowJobAncestorStatus job m cancelling)" "needs_met pending m job"
  shows "needs_good m job"
proof -
  from assms(1) condition_sees_all_ancestors [of job m cancelling]
  have all: "ancestor m (set (Needs job)) d \<Longrightarrow> workflowJobEffectiveResult d \<in> {Success, NoResult}" for d
    by (auto simp: Let_def)
  show ?thesis unfolding needs_good_def
  proof (intro ballI conjI)
    fix n d assume n: "n \<in> set (Needs job)" "d \<in> set (jobs_at m n)"
    with assms(2) show t: "workflowJobTerminal d" by (simp add: needs_met_def)
    from n have "ancestor m (set (Needs job)) d" by (auto intro: ancestor.intros)
    with all terminal_effective [OF t] show "workflowJobEffectiveResult d = Success" by blast
  qed
qed

lemma needs_good_same: "same_spec i j \<Longrightarrow> needs_good m j = needs_good m i"
  by (simp add: needs_good_def same_spec_def)

lemma needs_good_evolves:
  assumes "needs_good (graph_map deps st) job" "list_all2 evolves (st_jobs st) (st_jobs st')"
  shows "needs_good (graph_map deps st') job"
proof -
  have "xs = ys" if "list_all2 evolves xs ys" "\<forall>d \<in> set xs. workflowJobTerminal d" for xs ys
    using that by (induction rule: list_all2_induct) (auto simp: evolves_def)
  with evolves_at [OF assms(2), of deps] assms(1) show ?thesis unfolding needs_good_def by metis
qed

lemma evaluate_admits:
  assumes "graph_evaluate env run m st job = (st', e)" "needs_met pending m job"
  shows "one_job (admits m job) job (st_jobs st) (st_jobs st')"
proof -
  let ?st = "workflowJobAncestorStatus job m (CancelRequested (Spec run))"
  let ?needs = "workflowNeedsContext job (jobs_at m)"
  have any: "one_job (admits m job) job (st_jobs st) (st_jobs st')" if "\<And>j. admits m job j"
    using graph_evaluate_one [OF assms(1)] that by (rule one_job_mono)
  show ?thesis
  proof (cases "\<not> behind_gate job \<or> admitted job \<or> evaluateCondition env job ?st ?needs = Inr True")
    case True
    with gate_closed [of job ?st ?needs] success_needs_good [OF _ assms(2), of "CancelRequested (Spec run)"]
    show ?thesis by (intro any) (auto simp: admits_def)
  next
    case False
    then have reg: "\<not> workflowJobConcurrencyRegistered job" by (simp add: admitted_def)
    have completed: "one_job (admits m job) job (st_jobs st) (st_jobs st')"
      if "complete_job env st job result reason msg = (st', e)" "reason \<noteq> ''ConcurrencySuperseded''" for result reason msg
      using that(1) unfolding complete_job_def
      by (rule write_job_one) (auto simp: job_marks admits_def dest: completed_not_admitted [OF that(2)])
    show ?thesis
    proof (cases "evaluateCondition env job ?st ?needs")
      case (Inl err)
      with reg assms(1) show ?thesis by (cases err) (auto simp: graph_evaluate_def Let_def intro!: completed)
    next
      case (Inr b)
      with False have "b = False" by simp
      with Inr reg assms(1) show ?thesis by (auto simp: graph_evaluate_def Let_def intro!: completed split: if_splits)
    qed
  qed
qed

lemma visit_admits:
  assumes "graph_job env run pending deps st job = (st', e)"
  shows "one_job (admits (graph_map deps st) job) job (st_jobs st) (st_jobs st')"
proof -
  let ?m = "graph_map deps st"
  consider "st' = st" | "reconcileAssignedWorkflowJobCancellation env ?m st job = (st', e)"
    | "write_job st job (setWorkflowJobWaiting job) = (st', e)"
    | "dependencies_ready pending ?m (Needs job) True = Inr True" "graph_evaluate env run ?m st job = (st', e)"
    using assms unfolding graph_job_def by (auto split: if_splits sum.splits bool.splits)
  then show ?thesis
  proof cases
    case 2
    have "admits ?m job (setWorkflowJobCancellationRequested job b reason msg)" for b reason msg
      by (simp add: admits_def cancelling_admitted)
    with assigned_cancellation_cases [OF 2] show ?thesis by (metis write_job_one one_job_refl same_spec_marks(4))
  next
    case 3
    then show ?thesis by (rule write_job_one) (auto simp: job_marks admits_def dest: waiting_not_admitted)
  next
    case 4
    from dependencies_ready_met [OF 4(1)] have "needs_met pending ?m job" unfolding needs_met_def by blast
    with 4(2) show ?thesis by (rule evaluate_admits)
  qed simp
qed

lemma admits_composes:
  "evolves i j \<Longrightarrow> evolves j k \<Longrightarrow> admits m i j \<Longrightarrow> admits m j k \<Longrightarrow> admits m i k"
  using needs_good_same [of i j m] same_gate [of i j] by (auto simp: admits_def evolves_def same_spec_def)

end


sublocale success_gate \<subseteq> admit: pass_relation env run pending deps admits for run pending deps
proof
  fix st job st' e
  assume "graph_job env run pending deps st job = (st', e)"
  then show "one_job (admits (graph_map deps st) job) job (st_jobs st) (st_jobs st')" by (rule visit_admits)
next
  fix m i j k
  assume "evolves i j" "evolves j k" "admits m i j" "admits m j k"
  then show "admits m i k" by (rule admits_composes)
next
  fix st st' :: job_store and i j
  assume "admits (graph_map deps st) i j" "list_all2 evolves (st_jobs st) (st_jobs st')"
  then show "admits (graph_map deps st') i j" using needs_good_evolves unfolding admits_def by blast
qed (simp add: admits_def)

section \<open>The expressions keep the contract\<close>

lemma condition_gate:
  assumes "job_condition eenv message job_context job status needs = Inr True" "gated eenv job"
  shows "status_success status"
proof (rule ccontr)
  assume "\<not> status_success status"
  with assms show False
    by (auto simp: job_condition_def EvaluateJobCondition_def condition_context_def gated_def split: sum.splits if_splits)
qed

interpretation conditions: success_gate "with_conditions eenv message job_context env" "gated eenv"
  for eenv :: "'n eval_env" and message job_context env
  by unfold_locales (auto simp: with_conditions_def gated_def intro: condition_gate)

text \<open>
  C11. A failed or skipped need keeps a job from starting. In a pass over the graph with the conditions of the
  workflow, a job whose condition is empty or calls no status function is admitted, that is made ready for a Runner or entered into
  its concurrency group, only if every job it needs has finished with success, where a tolerated failure counts as success. This is
  the composition of the parser, the evaluator, the ancestor walk and the pass, whatever the contexts, the gate and the API server do.
\<close>

theorem failed_need_blocks_job:
  assumes "reconcileWorkflowJobGraphWithDependencies (with_conditions eenv message job_context env) run pending deps st = (st', e)"
    and "distinct (map job_name (st_jobs st))" "i < length (st_jobs st)" "gated eenv (st_jobs st ! i)"
    and "\<not> workflowJobReadyCondition (st_jobs st ! i)" "\<not> workflowJobConcurrencyRegistered (st_jobs st ! i)"
    and "workflowJobReadyCondition (st_jobs st' ! i) \<or> workflowJobConcurrencyRegistered (st_jobs st' ! i)"
  shows "\<forall>n \<in> set (Needs (st_jobs st ! i)). \<forall>d \<in> set (jobs_at (graph_map deps st') n). workflowJobEffectiveResult d = Success"
  using conditions.admit.pass_keeps(2) [OF assms(1,2,3)] assms(4-7)
  by (auto simp: conditions.admits_def conditions.admitted_def conditions.needs_good_def)

definition gate_jobs :: "WorkflowJob list" where
  "gate_jobs = [(plain_job ''build'' [])\<lparr>Result := Success\<rparr>, (plain_job ''lint'' [])\<lparr>Result := Failure\<rparr>,
     (plain_job ''test'' [''build''])\<lparr>If := ''needs.build.result''\<rparr>, plain_job ''ship'' [''build'', ''lint'']]"

definition gate_run :: WorkflowRun where
  "gate_run = plain_run\<lparr>Spec := (Spec plain_run)\<lparr>CancelRequested := False\<rparr>\<rparr>"

definition gate_pass :: graph_result where
  "gate_pass = reconcileWorkflowJobGraphWithDependencies
     (with_conditions whole_env (\<lambda>_. []) \<lparr>availability = NewAvailability [''needs''], Values = [], context_status = None\<rparr> demo_env) gate_run [] []
     \<lparr>st_cluster = demo_cluster, st_jobs = gate_jobs\<rparr>"

theorem failed_need_blocks_job_witness:
  "map (\<lambda>j. (Result j, workflowJobReadyCondition j)) (st_jobs (fst gate_pass)) =
     [(Success, False), (Failure, False), (NoResult, True), (Skipped, False)] \<and>
   list_all (\<lambda>n. list_all (\<lambda>d. workflowJobEffectiveResult d = Success) (jobs_at (graph_map [] (fst gate_pass)) n)) (Needs (gate_jobs ! 2))"
proof -
  have run: "map (\<lambda>j. (Result j, workflowJobReadyCondition j)) (st_jobs (fst gate_pass)) =
     [(Success, False), (Failure, False), (NoResult, True), (Skipped, False)]" by code_simp
  let ?st = "\<lparr>st_cluster = demo_cluster, st_jobs = gate_jobs\<rparr>"
  have names: "distinct (map job_name gate_jobs)" by code_simp
  have len: "(2::nat) < length gate_jobs" by code_simp
  have gate: "gated whole_env (gate_jobs ! 2)" by code_simp
  have open_job: "\<not> workflowJobReadyCondition (gate_jobs ! 2)" "\<not> workflowJobConcurrencyRegistered (gate_jobs ! 2)" by code_simp+
  have ready: "workflowJobReadyCondition (st_jobs (fst gate_pass) ! 2)" by code_simp
  note pass = trans [OF gate_pass_def [symmetric] prod.collapse [symmetric]]
  from failed_need_blocks_job [OF pass, of 2] names len gate open_job ready
  have "\<forall>n \<in> set (Needs (gate_jobs ! 2)). \<forall>d \<in> set (jobs_at (graph_map [] (fst gate_pass)) n). workflowJobEffectiveResult d = Success"
    by simp
  with run show ?thesis by (simp add: list_all_iff)
qed

end
