(* ===== verification/CacheStore.thy ===== *)
theory CacheStore
  imports Prelude "HOL-Library.Word" "HOL-Library.Product_Lexorder"
begin

text \<open>
  The cache service, \<^verbatim>\<open>src/internal/cache/store.go\<close> and \<^verbatim>\<open>policy.go\<close>: who may read and write which cache, the entries with
  their upload in blocks, the look-up of keys, and the quotas.

  The state holds the fields of \<^verbatim>\<open>Store\<close> and the directories under its root. A call of the operating system may be refused:
  \<open>faults\<close> says which call on which entry fails, with what message. A file is renamed into place in one
  step, and the temporary file it comes from is the value that is renamed. A method that unlocks the
  mutex in the middle is cut there: \<open>stage_begin\<close>, \<open>receive\<close> and \<open>stage_finish\<close> are the parts of \<^verbatim>\<open>Stage\<close>, and so for the commit.
  The time is one value for each locked part. Sizes are unbounded, as the sums stay far below 64 bits for any limits a disk can meet.
  A Go map is an association list, whose order stands for the order of iteration; the block map of an
  entry is shared between copies of the struct, which \<open>stage_finish\<close> writes out. SHA-256 in hexadecimal is an argument.
\<close>

section \<open>Access\<close>

record Tenant =
  ProjectUID :: string
  RepositoryID :: int

record Access =
  ReadRefs :: "string list"
  WriteRef :: string
  Mode :: string

datatype access_error = AccessIncomplete | ReadRefInvalid

definition ValidMode :: "string \<Rightarrow> bool" where
  "ValidMode mode \<longleftrightarrow> mode \<in> {''read'', ''write'', ''write-only'', ''none''}"

definition ValidateAccess :: "Access \<Rightarrow> access_error + unit" where
  "ValidateAccess a =
     (if \<not> ValidMode (Mode a) \<or> \<not> has_prefix (WriteRef a) ''refs/'' \<or> ReadRefs a = [] then Inl AccessIncomplete
      else guard (list_all (\<lambda>ref. has_prefix ref ''refs/'') (ReadRefs a)) ReadRefInvalid)"

definition Readable :: "Access \<Rightarrow> bool" where
  "Readable a \<longleftrightarrow> Mode a = ''read'' \<or> Mode a = ''write''"

definition Writable :: "Access \<Rightarrow> bool" where
  "Writable a \<longleftrightarrow> Mode a = ''write'' \<or> Mode a = ''write-only''"

definition trusted_events :: "string list" where
  "trusted_events = [''push'', ''workflow_dispatch'', ''repository_dispatch'', ''delete'', ''registry_package'', ''page_build'',
     ''schedule'']"

definition add_unique :: "string \<Rightarrow> string list \<Rightarrow> string list" where
  "add_unique r unique = (if r \<in> set unique then unique else unique @ [r])"

definition ResolveAccess :: "string \<Rightarrow> string \<Rightarrow> string \<Rightarrow> string \<Rightarrow> string \<Rightarrow> Access" where
  "ResolveAccess event ref baseRef defaultBranch mode =
     (let mode =
            (if mode \<noteq> [] then mode
             else if ref = ''refs/heads/'' @ defaultBranch \<and> event \<notin> set trusted_events then ''read'' else ''write'');
          refs = [ref]
            @ (if event = ''pull_request'' \<and> baseRef \<noteq> [] then [''refs/heads/'' @ baseRef] else [])
            @ (if defaultBranch \<noteq> [] then [''refs/heads/'' @ defaultBranch] else [])
      in \<lparr>ReadRefs = fold add_unique refs [], WriteRef = ref, Mode = mode\<rparr>)"

section \<open>State\<close>

record Limits =
  MaxEntryBytes :: int
  MaxRepositoryBytes :: int
  MaxTotalBytes :: int
  Retention :: int
  UploadRetention :: int

definition ValidateLimits :: "Limits \<Rightarrow> bool" where
  "ValidateLimits l \<longleftrightarrow>
     \<not> (MaxEntryBytes l < 1 \<or> MaxRepositoryBytes l < MaxEntryBytes l \<or> MaxTotalBytes l < MaxRepositoryBytes l
        \<or> Retention l \<le> 0 \<or> UploadRetention l \<le> 0)"

text \<open>\<open>Blocks\<close> is \<^verbatim>\<open>None\<close> for a nil map.\<close>

record Entry =
  ID :: int
  Tenant :: Tenant
  Ref :: string
  Key :: string
  Version :: string
  Owner :: string
  CreatedAt :: int
  AccessedAt :: int
  Size :: int
  Uploaded :: bool
  Digest :: string
  Finalized :: bool
  Blocks :: "(string \<times> int) list option"

definition blocks_of :: "Entry \<Rightarrow> (string \<times> int) list" where
  "blocks_of e = (case Blocks e of None \<Rightarrow> [] | Some blocks \<Rightarrow> blocks)"

definition block_size :: "Entry \<Rightarrow> string \<Rightarrow> int" where
  "block_size e block = (case map_of (blocks_of e) block of None \<Rightarrow> 0 | Some n \<Rightarrow> n)"

datatype entry_file = NoJson | BadJson string | Json Entry

record Dir =
  entry_json :: entry_file
  dir_files :: "(string \<times> string) list"

record Store =
  limits :: Limits
  entries :: "(int \<times> Entry) list"
  active :: "int \<Rightarrow> int"
  reserved :: "int \<Rightarrow> int"
  committing :: "int \<Rightarrow> bool"
  disk :: "(int \<times> Dir) list"

datatype cache_error = ErrExists | ErrNotFound | ErrInvalid | ErrLimit | IOError string
  | LimitsInvalid | BadDirectory string | BadMetadata int | BadBlob int

datatype fs_call = RandomRead | MkdirEntry | SaveFile | SaveSync | RemoveJson | SyncDir | RemoveDir | CreateTemp | WriteTemp
  | SyncTemp | RenameBlob | RenameBlock | OpenBlock string | CopyBlock string | RemoveBlock string | OpenBlob | ReadJson
  | StatFile string | RemoveFile string

type_synonym faults = "fs_call \<Rightarrow> int \<Rightarrow> string option"

definition no_faults :: faults where
  "no_faults _ _ = None"

text \<open>A call that the operating system refuses ends the operation; otherwise it goes on.\<close>

definition os_call :: "faults \<Rightarrow> fs_call \<Rightarrow> int \<Rightarrow> Store \<Rightarrow> (Store \<Rightarrow> Store \<times> (cache_error + 'a)) \<Rightarrow> Store \<times> (cache_error + 'a)" where
  "os_call io call eid s k = (case io call eid of Some m \<Rightarrow> (s, Inl (IOError m)) | None \<Rightarrow> k s)"

definition then_do :: "Store \<times> (cache_error + 'a) \<Rightarrow> ('a \<Rightarrow> Store \<Rightarrow> Store \<times> (cache_error + 'b)) \<Rightarrow>
    Store \<times> (cache_error + 'b)" where
  "then_do r k = (case r of (s, Inl e) \<Rightarrow> (s, Inl e) | (s, Inr a) \<Rightarrow> k a s)"

definition on_dir :: "int \<Rightarrow> (Dir \<Rightarrow> Dir) \<Rightarrow> Store \<Rightarrow> Store" where
  "on_dir eid f s = (case map_of (disk s) eid of None \<Rightarrow> s | Some d \<Rightarrow> s\<lparr>disk := AList.update eid (f d) (disk s)\<rparr>)"

definition put_entry :: "Entry \<Rightarrow> Store \<Rightarrow> Store" where
  "put_entry e s = s\<lparr>entries := AList.update (ID e) e (entries s)\<rparr>"

definition dir_missing :: "int \<Rightarrow> Store \<Rightarrow> bool" where
  "dir_missing eid s \<longleftrightarrow> map_of (disk s) eid = None"

definition saveEntry :: "faults \<Rightarrow> Entry \<Rightarrow> Store \<Rightarrow> Store \<times> (cache_error + unit)" where
  "saveEntry io e s =
     (if dir_missing (ID e) s then (s, Inl (IOError ''no such file or directory''))
      else os_call io SaveFile (ID e) s (\<lambda>s.
        os_call io SaveSync (ID e) (on_dir (ID e) (entry_json_update (\<lambda>_. Json e)) s) (\<lambda>s. (s, Inr ()))))"

definition forget :: "int \<Rightarrow> Store \<Rightarrow> Store" where
  "forget eid s = s\<lparr>entries := AList.delete eid (entries s), active := (active s)(eid := 0), reserved := (reserved s)(eid := 0),
     committing := (committing s)(eid := False)\<rparr>"

definition removeEntry :: "faults \<Rightarrow> int \<Rightarrow> Store \<Rightarrow> Store \<times> (cache_error + unit)" where
  "removeEntry io eid s =
     os_call io RemoveJson eid s (\<lambda>s.
     if dir_missing eid s then (s, Inl (IOError ''no such file or directory''))
     else os_call io SyncDir eid (on_dir eid (entry_json_update (\<lambda>_. NoJson)) s) (\<lambda>s.
     os_call io RemoveDir eid (forget eid s) (\<lambda>s. (s\<lparr>disk := AList.delete eid (disk s)\<rparr>, Inr ()))))"

section \<open>Sizes, expiry and quotas\<close>

definition stagedSize :: "Entry \<Rightarrow> int" where
  "stagedSize e = (if Uploaded e then Size e else sum_list (map snd (blocks_of e)))"

definition expired :: "Limits \<Rightarrow> int \<Rightarrow> Entry \<Rightarrow> bool" where
  "expired l now e \<longleftrightarrow> \<not> Finalized e \<and> now - CreatedAt e \<ge> UploadRetention l \<or> Finalized e \<and> now - AccessedAt e \<ge> Retention l"

definition idle :: "Store \<Rightarrow> int \<Rightarrow> bool" where
  "idle s eid \<longleftrightarrow> active s eid = 0 \<and> \<not> committing s eid"

fun cleanup_loop :: "faults \<Rightarrow> int \<Rightarrow> (int \<times> Entry) list \<Rightarrow> Store \<Rightarrow> Store \<times> (cache_error + unit)" where
  "cleanup_loop io now [] s = (s, Inr ())"
| "cleanup_loop io now ((eid, e) # es) s =
     (if expired (limits s) now e \<and> idle s eid then then_do (removeEntry io eid s) (\<lambda>_. cleanup_loop io now es)
      else cleanup_loop io now es s)"

definition cleanupLocked :: "faults \<Rightarrow> int \<Rightarrow> Store \<Rightarrow> Store \<times> (cache_error + unit)" where
  "cleanupLocked io now s = cleanup_loop io now (entries s) s"

definition counted :: "Store \<Rightarrow> int \<times> Entry \<Rightarrow> int" where
  "counted s = (\<lambda>(eid, e). stagedSize e + reserved s eid)"

definition total_bytes :: "Store \<Rightarrow> int" where
  "total_bytes s = sum_list (map (counted s) (entries s))"

definition repository_bytes :: "Tenant \<Rightarrow> Store \<Rightarrow> int" where
  "repository_bytes tenant s = sum_list (map (counted s) (filter (\<lambda>(_, e). Tenant e = tenant) (entries s)))"

definition eviction_candidates :: "int \<Rightarrow> Store \<Rightarrow> Entry list" where
  "eviction_candidates except s =
     sort_key AccessedAt (map snd (filter (\<lambda>(eid, e). Finalized e \<and> eid \<noteq> except \<and> idle s eid) (entries s)))"

record Room =
  room_total :: int
  room_repository :: int
  victims :: "int list"

definition selectEntry :: "Tenant \<Rightarrow> Entry \<Rightarrow> Room \<Rightarrow> Room" where
  "selectEntry tenant e r =
     \<lparr>room_total = room_total r - Size e,
      room_repository = (if Tenant e = tenant then room_repository r - Size e else room_repository r),
      victims = victims r @ [ID e]\<rparr>"

fun free_repository :: "int \<Rightarrow> Tenant \<Rightarrow> int \<Rightarrow> Entry list \<Rightarrow> Room \<Rightarrow> Room" where
  "free_repository max_bytes tenant incoming [] r = r"
| "free_repository max_bytes tenant incoming (e # es) r =
     (if room_repository r + incoming \<le> max_bytes then r
      else free_repository max_bytes tenant incoming es (if Tenant e = tenant then selectEntry tenant e r else r))"

fun free_total :: "int \<Rightarrow> Tenant \<Rightarrow> int \<Rightarrow> Entry list \<Rightarrow> Room \<Rightarrow> Room" where
  "free_total max_bytes tenant incoming [] r = r"
| "free_total max_bytes tenant incoming (e # es) r =
     (if room_total r + incoming \<le> max_bytes then r
      else free_total max_bytes tenant incoming es (if ID e \<notin> set (victims r) then selectEntry tenant e r else r))"

fun remove_all :: "faults \<Rightarrow> int list \<Rightarrow> Store \<Rightarrow> Store \<times> (cache_error + unit)" where
  "remove_all io [] s = (s, Inr ())"
| "remove_all io (eid # ids) s = then_do (removeEntry io eid s) (\<lambda>_. remove_all io ids)"

definition makeRoomLocked :: "faults \<Rightarrow> Tenant \<Rightarrow> int \<Rightarrow> int \<Rightarrow> Store \<Rightarrow> Store \<times> (cache_error + unit)" where
  "makeRoomLocked io tenant incoming except s =
     (let candidates = eviction_candidates except s;
          l = limits s;
          r = free_repository (MaxRepositoryBytes l) tenant incoming candidates
                \<lparr>room_total = total_bytes s, room_repository = repository_bytes tenant s, victims = []\<rparr>
      in if room_repository r + incoming > MaxRepositoryBytes l then (s, Inl ErrLimit)
         else let r = free_total (MaxTotalBytes l) tenant incoming candidates r
              in if room_total r + incoming > MaxTotalBytes l then (s, Inl ErrLimit) else remove_all io (victims r) s)"

section \<open>Creating an entry and finding it by its number\<close>

function utf8_valid :: "string \<Rightarrow> bool" where
  "utf8_valid s = (if s = [] then True else (byte (hd s) \<le> 127 \<or> 1 < rune_size s) \<and> utf8_valid (drop (rune_size s) s))"
  by pat_completeness auto
termination
  by (relation "measure length") (auto simp: rune_size_pos)

declare utf8_valid.simps [simp del]

definition ValidateKey :: "string \<Rightarrow> string \<Rightarrow> cache_error + unit" where
  "ValidateKey key version =
     guard (\<not> (key = [] \<or> \<not> utf8_valid key \<or> rune_count key > 512 \<or> str_contains key '','' \<or> version = [] \<or> length version > 1024))
       ErrInvalid"

definition same_key :: "Tenant \<Rightarrow> string \<Rightarrow> string \<Rightarrow> string \<Rightarrow> Entry \<Rightarrow> bool" where
  "same_key tenant ref key version e \<longleftrightarrow> Tenant e = tenant \<and> Ref e = ref \<and> Key e = key \<and> Version e = version"

text \<open>The eight random bytes are a number in the order of the network; JavaScript numbers hold 53 bits of it.\<close>

definition random_id :: "64 word \<Rightarrow> int" where
  "random_id w = (let i = uint (and w 0x1FFFFFFFFFFFFF) in if i = 0 then 1 else i)"

definition new_entry :: "int \<Rightarrow> int \<Rightarrow> Tenant \<Rightarrow> string \<Rightarrow> string \<Rightarrow> string \<Rightarrow> string \<Rightarrow> Entry" where
  "new_entry now eid tenant ref owner key version =
     \<lparr>ID = eid, Tenant = tenant, Ref = ref, Key = key, Version = version, Owner = owner, CreatedAt = now, AccessedAt = now,
      Size = 0, Uploaded = False, Digest = [], Finalized = False, Blocks = Some []\<rparr>"

definition CreateEntry :: "faults \<Rightarrow> int \<Rightarrow> 64 word \<Rightarrow> Tenant \<Rightarrow> string \<Rightarrow> string \<Rightarrow> string \<Rightarrow> string \<Rightarrow> Store \<Rightarrow>
    Store \<times> (cache_error + Entry)" where
  "CreateEntry io now random tenant ref owner key version s =
     (if ProjectUID tenant = [] \<or> RepositoryID tenant < 1 \<or> \<not> has_prefix ref ''refs/'' \<or> owner = [] then (s, Inl ErrInvalid)
      else case ValidateKey key version of Inl e \<Rightarrow> (s, Inl e) | Inr _ \<Rightarrow>
        then_do (cleanupLocked io now s) (\<lambda>_ s.
          if list_ex (\<lambda>(_, e). same_key tenant ref key version e) (entries s) then (s, Inl ErrExists)
          else let eid = random_id random; e = new_entry now eid tenant ref owner key version
               in os_call io RandomRead eid s (\<lambda>s.
                 if map_of (entries s) eid \<noteq> None then (s, Inl ErrExists)
                 else if \<not> dir_missing eid s then (s, Inl (IOError ''file exists''))
                 else os_call io MkdirEntry eid s (\<lambda>s.
                   then_do (saveEntry io e (s\<lparr>disk := AList.update eid \<lparr>entry_json = NoJson, dir_files = []\<rparr> (disk s)\<rparr>))
                     (\<lambda>_ s. (put_entry e s, Inr e))))))"

definition getLocked :: "Tenant \<Rightarrow> int \<Rightarrow> Store \<Rightarrow> cache_error + Entry" where
  "getLocked tenant eid s =
     (case map_of (entries s) eid of None \<Rightarrow> Inl ErrNotFound
      | Some e \<Rightarrow> if Tenant e \<noteq> tenant then Inl ErrNotFound else Inr e)"

section \<open>Uploading a block\<close>

text \<open>
  \<open>Verify\<close> is the repeated upload of a whole entry that is there already: its bytes are compared with the digest.
\<close>

datatype stage_start = Verify Entry | Receive

definition stage_begin :: "faults \<Rightarrow> Tenant \<Rightarrow> int \<Rightarrow> string \<Rightarrow> int \<Rightarrow> Store \<Rightarrow> Store \<times> (cache_error + stage_start)" where
  "stage_begin io tenant eid block sz s =
     (let l = limits s
      in if length block > 1024 \<or> sz < 0 \<or> sz > MaxEntryBytes l then (s, Inl ErrInvalid)
         else case getLocked tenant eid s of Inl err \<Rightarrow> (s, Inl err) | Inr e \<Rightarrow>
           if committing s eid then (s, Inl ErrExists)
           else if Uploaded e then
             if \<not> Finalized e \<and> block = [] \<and> sz = Size e \<and> Digest e \<noteq> [] then (s, Inr (Verify e)) else (s, Inl ErrExists)
           else if block \<noteq> [] \<and> length (blocks_of e) \<ge> 50000 \<and> map_of (blocks_of e) block = None then (s, Inl ErrLimit)
           else let used = stagedSize e + reserved s eid - (if block \<noteq> [] then block_size e block else 0)
                in if sz > MaxEntryBytes l - used then (s, Inl ErrLimit)
                   else then_do (makeRoomLocked io tenant (sz - block_size e block) eid s) (\<lambda>_ s.
                     (s\<lparr>active := (active s)(eid := active s eid + 1), reserved := (reserved s)(eid := reserved s eid + sz)\<rparr>,
                      Inr Receive)))"

text \<open>The body of a request: its bytes, and the error with which reading it ends, if it does not end well.\<close>

record Body =
  body_bytes :: string
  body_error :: "string option"

text \<open>\<^verbatim>\<open>io.Copy\<close> from \<^verbatim>\<open>io.LimitReader(body, size+1)\<close>\<close>

definition copy_body :: "Body \<Rightarrow> int \<Rightarrow> cache_error + string" where
  "copy_body body sz =
     (if int (length (body_bytes body)) > sz then Inr (take (nat (sz + 1)) (body_bytes body))
      else case body_error body of Some m \<Rightarrow> Inl (IOError m) | None \<Rightarrow> Inr (body_bytes body))"

definition verify_body :: "(string \<Rightarrow> string) \<Rightarrow> Entry \<Rightarrow> Body \<Rightarrow> int \<Rightarrow> cache_error + unit" where
  "verify_body sha256 e body sz =
     and_then (copy_body body sz) (\<lambda>data. guard (int (length data) = sz \<and> sha256 data = Digest e) ErrExists)"

definition receive :: "faults \<Rightarrow> int \<Rightarrow> Body \<Rightarrow> int \<Rightarrow> cache_error + string" where
  "receive io eid body sz =
     (case io CreateTemp eid of Some m \<Rightarrow> Inl (IOError m) | None \<Rightarrow>
        (case io WriteTemp eid of Some m \<Rightarrow> Inl (IOError m) | None \<Rightarrow>
           and_then (copy_body body sz) (\<lambda>data.
             if int (length data) \<noteq> sz then Inl ErrInvalid
             else case io SyncTemp eid of Some m \<Rightarrow> Inl (IOError m) | None \<Rightarrow> Inr data)))"

definition zero_entry :: Entry where
  "zero_entry = \<lparr>ID = 0, Tenant = \<lparr>ProjectUID = [], RepositoryID = 0\<rparr>, Ref = [], Key = [], Version = [], Owner = [], CreatedAt = 0,
     AccessedAt = 0, Size = 0, Uploaded = False, Digest = [], Finalized = False, Blocks = None\<rparr>"

definition entry_at :: "Store \<Rightarrow> int \<Rightarrow> Entry" where
  "entry_at s eid = (case map_of (entries s) eid of None \<Rightarrow> zero_entry | Some e \<Rightarrow> e)"

definition block_file :: "(string \<Rightarrow> string) \<Rightarrow> string \<Rightarrow> string" where
  "block_file sha256 block = ''block-'' @ sha256 block"

definition rename_into :: "int \<Rightarrow> string \<Rightarrow> string \<Rightarrow> Store \<Rightarrow> Store" where
  "rename_into eid name data = on_dir eid (dir_files_update (AList.update name data))"

definition set_block :: "string \<Rightarrow> int \<Rightarrow> Entry \<Rightarrow> Entry" where
  "set_block block sz e = e\<lparr>Blocks := Some (AList.update block sz (blocks_of e))\<rparr>"

text \<open>
  The entry that \<^verbatim>\<open>s.entries[eid]\<close> holds shares its block map with the copy \<^verbatim>\<open>e\<close> unless the map is nil, so the new size of
  a block counts at once: before the error of the rename is looked at, and before the entry is saved.
\<close>

definition share_blocks :: "int \<Rightarrow> Entry \<Rightarrow> Entry \<Rightarrow> Store \<Rightarrow> Store" where
  "share_blocks eid e e' s = (if Blocks e = None then s else s\<lparr>entries := AList.update eid e' (entries s)\<rparr>)"

definition stage_finish :: "faults \<Rightarrow> (string \<Rightarrow> string) \<Rightarrow> int \<Rightarrow> string \<Rightarrow> int \<Rightarrow> cache_error + string \<Rightarrow> Store \<Rightarrow>
    Store \<times> (cache_error + unit)" where
  "stage_finish io sha256 eid block sz received s =
     (let s = s\<lparr>active := (active s)(eid := active s eid - 1), reserved := (reserved s)(eid := reserved s eid - sz)\<rparr>
      in case received of Inl err \<Rightarrow> (s, Inl err) | Inr data \<Rightarrow>
        let e = entry_at s eid
        in if Uploaded e \<or> Finalized e then (s, Inl ErrExists)
           else if block = [] then
             if blocks_of e \<noteq> [] then (s, Inl ErrInvalid)
             else let e' = e\<lparr>Uploaded := True, Digest := sha256 data, Size := sz\<rparr>
                  in os_call io RenameBlob eid s (\<lambda>s.
                    then_do (saveEntry io e' (rename_into eid ''blob'' data s)) (\<lambda>_ s.
                      (s\<lparr>entries := AList.update eid e' (entries s)\<rparr>, Inr ())))
           else let e' = set_block block sz e; s = share_blocks eid e e' s
                in os_call io RenameBlock eid s (\<lambda>s.
                  then_do (saveEntry io e' (rename_into eid (block_file sha256 block) data s)) (\<lambda>_ s.
                    (s\<lparr>entries := AList.update eid e' (entries s)\<rparr>, Inr ()))))"

text \<open>\<^verbatim>\<open>Stage\<close> without another request in between.\<close>

definition Stage :: "faults \<Rightarrow> (string \<Rightarrow> string) \<Rightarrow> Tenant \<Rightarrow> int \<Rightarrow> string \<Rightarrow> int \<Rightarrow> Body \<Rightarrow> Store \<Rightarrow>
    Store \<times> (cache_error + unit)" where
  "Stage io sha256 tenant eid block sz body s =
     then_do (stage_begin io tenant eid block sz s) (\<lambda>start s.
       case start of Verify e \<Rightarrow> (s, verify_body sha256 e body sz)
       | Receive \<Rightarrow> stage_finish io sha256 eid block sz (receive io eid body sz) s)"

definition range_block :: "int \<Rightarrow> string" where
  "range_block offset = ''range:'' @ int_str offset"

definition StageRange :: "faults \<Rightarrow> (string \<Rightarrow> string) \<Rightarrow> Tenant \<Rightarrow> int \<Rightarrow> int \<Rightarrow> int \<Rightarrow> Body \<Rightarrow> Store \<Rightarrow>
    Store \<times> (cache_error + unit)" where
  "StageRange io sha256 tenant eid offset sz body s =
     (if offset < 0 \<or> sz \<le> 0 \<or> offset > MaxEntryBytes (limits s) - sz then (s, Inl ErrInvalid)
      else Stage io sha256 tenant eid (range_block offset) sz body s)"

section \<open>Committing the blocks of an entry\<close>

fun listed_size :: "Entry \<Rightarrow> string list \<Rightarrow> string list \<Rightarrow> int option" where
  "listed_size e seen [] = Some 0"
| "listed_size e seen (block # blocks) =
     (case map_of (blocks_of e) block of
        None \<Rightarrow> None
      | Some n \<Rightarrow> if block \<in> set seen then None else map_option ((+) n) (listed_size e (block # seen) blocks))"

definition start_commit :: "int \<Rightarrow> Store \<Rightarrow> Store" where
  "start_commit eid s = s\<lparr>committing := (committing s)(eid := True)\<rparr>"

definition beginCommitLocked :: "Tenant \<Rightarrow> int \<Rightarrow> string list \<Rightarrow> Store \<Rightarrow> Store \<times> (cache_error + Entry)" where
  "beginCommitLocked tenant eid blocks s =
     (case getLocked tenant eid s of Inl err \<Rightarrow> (s, Inl err) | Inr e \<Rightarrow>
        if Uploaded e then (s, Inr e)
        else if active s eid > 0 \<or> committing s eid \<or> blocks = [] \<or> length blocks > 50000 then (s, Inl ErrInvalid)
        else case listed_size e [] blocks of
               None \<Rightarrow> (s, Inl ErrInvalid)
             | Some sz \<Rightarrow>
                 if sz > MaxEntryBytes (limits s) then (s, Inl ErrLimit)
                 else (start_commit eid s, Inr (e\<lparr>Size := sz\<rparr>)))"

definition block_offset :: "string \<Rightarrow> int option" where
  "block_offset block =
     (if \<not> has_prefix block ''range:'' then None
      else case atoi (trim_prefix block ''range:'') of None \<Rightarrow> None | Some offset \<Rightarrow> if offset < 0 then None else Some offset)"

fun range_loop :: "Entry \<Rightarrow> int \<Rightarrow> int list \<Rightarrow> (int \<times> string list) option" where
  "range_loop e end_at [] = Some (end_at, [])"
| "range_loop e end_at (offset # offsets) =
     (if offset \<noteq> end_at then None
      else map_option (apsnd ((#) (range_block offset))) (range_loop e (end_at + block_size e (range_block offset)) offsets))"

definition beginRangeCommitLocked :: "Tenant \<Rightarrow> int \<Rightarrow> int \<Rightarrow> Store \<Rightarrow> Store \<times> (cache_error + Entry \<times> string list)" where
  "beginRangeCommitLocked tenant eid sz s =
     (case getLocked tenant eid s of Inl err \<Rightarrow> (s, Inl err) | Inr e \<Rightarrow>
        if sz < 0 \<or> sz > MaxEntryBytes (limits s) \<or> Uploaded e \<and> Size e \<noteq> sz then (s, Inl ErrInvalid)
        else if Uploaded e then (s, Inr (e, []))
        else let offsets = map block_offset (map fst (blocks_of e))
             in if None \<in> set offsets then (s, Inl ErrInvalid)
                else case range_loop e 0 (sort (map the offsets)) of
                       None \<Rightarrow> (s, Inl ErrInvalid)
                     | Some (end_at, blocks) \<Rightarrow>
                         if end_at \<noteq> sz then (s, Inl ErrInvalid)
                         else if sz = 0 then
                           if active s eid > 0 \<or> committing s eid then (s, Inl ErrInvalid)
                           else (start_commit eid s, Inr (e, blocks))
                         else then_do (beginCommitLocked tenant eid blocks s) (\<lambda>e s. (s, Inr (e, blocks))))"

definition dir_file :: "Store \<Rightarrow> int \<Rightarrow> string \<Rightarrow> string option" where
  "dir_file s eid name = (case map_of (disk s) eid of None \<Rightarrow> None | Some d \<Rightarrow> map_of (dir_files d) name)"

definition copy_block :: "faults \<Rightarrow> (string \<Rightarrow> string) \<Rightarrow> int \<Rightarrow> string \<Rightarrow> Store \<Rightarrow> cache_error + string" where
  "copy_block io sha256 eid block s =
     (case io (OpenBlock block) eid of Some m \<Rightarrow> Inl (IOError m) | None \<Rightarrow>
        (case dir_file s eid (block_file sha256 block) of
           None \<Rightarrow> Inl (IOError ''no such file or directory'')
         | Some data \<Rightarrow> (case io (CopyBlock block) eid of Some m \<Rightarrow> Inl (IOError m) | None \<Rightarrow> Inr data)))"

fun copy_blocks :: "faults \<Rightarrow> (string \<Rightarrow> string) \<Rightarrow> int \<Rightarrow> string list \<Rightarrow> Store \<Rightarrow> cache_error + string" where
  "copy_blocks io sha256 eid [] s = Inr []"
| "copy_blocks io sha256 eid (block # blocks) s =
     and_then (copy_block io sha256 eid block s) (\<lambda>data. map_sum (\<lambda>err. err) ((@) data) (copy_blocks io sha256 eid blocks s))"

definition publishCommit :: "faults \<Rightarrow> Entry \<Rightarrow> string \<Rightarrow> Store \<Rightarrow> Store \<times> (cache_error + unit)" where
  "publishCommit io e data s =
     os_call io RenameBlob (ID e) s (\<lambda>s.
       let e' = e\<lparr>Uploaded := True\<rparr>
       in then_do (saveEntry io e' (rename_into (ID e) ''blob'' data s)) (\<lambda>_ s. (put_entry e' s, Inr ())))"

definition remove_block :: "(string \<Rightarrow> string) \<Rightarrow> int \<Rightarrow> string \<Rightarrow> Store \<Rightarrow> Store" where
  "remove_block sha256 eid block = on_dir eid (dir_files_update (AList.delete (block_file sha256 block)))"

fun remove_blocks :: "faults \<Rightarrow> (string \<Rightarrow> string) \<Rightarrow> int \<Rightarrow> string list \<Rightarrow> Store \<Rightarrow> Store \<times> (cache_error + unit)" where
  "remove_blocks io sha256 eid [] s = (s, Inr ())"
| "remove_blocks io sha256 eid (block # blocks) s =
     os_call io (RemoveBlock block) eid s (\<lambda>s. remove_blocks io sha256 eid blocks (remove_block sha256 eid block s))"

definition finishCommit :: "int \<Rightarrow> Store \<Rightarrow> Store" where
  "finishCommit eid s = s\<lparr>committing := (committing s)(eid := False)\<rparr>"

definition commit :: "faults \<Rightarrow> (string \<Rightarrow> string) \<Rightarrow> Entry \<Rightarrow> string list \<Rightarrow> Store \<Rightarrow> Store \<times> (cache_error + unit)" where
  "commit io sha256 e blocks s =
     (if Uploaded e then (s, Inr ())
      else apfst (finishCommit (ID e))
        (os_call io CreateTemp (ID e) s (\<lambda>s.
           case copy_blocks io sha256 (ID e) blocks s of Inl err \<Rightarrow> (s, Inl err) | Inr data \<Rightarrow>
             os_call io SyncTemp (ID e) s (\<lambda>s.
               then_do (publishCommit io e data s) (\<lambda>_. remove_blocks io sha256 (ID e) (map fst (blocks_of e)))))))"

definition Commit :: "faults \<Rightarrow> (string \<Rightarrow> string) \<Rightarrow> Tenant \<Rightarrow> int \<Rightarrow> string list \<Rightarrow> Store \<Rightarrow> Store \<times> (cache_error + unit)" where
  "Commit io sha256 tenant eid blocks s =
     then_do (beginCommitLocked tenant eid blocks s) (\<lambda>e. commit io sha256 e blocks)"

definition CommitRanges :: "faults \<Rightarrow> (string \<Rightarrow> string) \<Rightarrow> Tenant \<Rightarrow> int \<Rightarrow> int \<Rightarrow> Store \<Rightarrow> Store \<times> (cache_error + unit)" where
  "CommitRanges io sha256 tenant eid sz s =
     then_do (beginRangeCommitLocked tenant eid sz s) (\<lambda>(e, blocks). commit io sha256 e blocks)"

definition Finalize :: "faults \<Rightarrow> int \<Rightarrow> Tenant \<Rightarrow> string \<Rightarrow> string \<Rightarrow> string \<Rightarrow> string \<Rightarrow> int \<Rightarrow> Store \<Rightarrow>
    Store \<times> (cache_error + Entry)" where
  "Finalize io now tenant ref owner key version sz s =
     (case find (same_key tenant ref key version) (map snd (entries s)) of
        None \<Rightarrow> (s, Inl ErrNotFound)
      | Some e \<Rightarrow>
          if Owner e \<noteq> owner then (s, Inl ErrExists)
          else if \<not> Uploaded e \<or> sz < 0 \<or> Size e \<noteq> sz then (s, Inl ErrInvalid)
          else if Finalized e then (s, Inr e)
          else let e' = e\<lparr>Finalized := True, AccessedAt := now\<rparr>
               in then_do (saveEntry io e' s) (\<lambda>_ s. (put_entry e' s, Inr e')))"

section \<open>Looking entries up\<close>

definition newest_first :: "Entry list \<Rightarrow> Entry list" where
  "newest_first es = sort_key (\<lambda>e. - CreatedAt e) es"

definition ref_candidates :: "Tenant \<Rightarrow> string \<Rightarrow> string \<Rightarrow> Store \<Rightarrow> Entry list" where
  "ref_candidates tenant version ref s =
     newest_first (filter (\<lambda>e. Tenant e = tenant \<and> Ref e = ref \<and> Version e = version \<and> Finalized e) (map snd (entries s)))"

definition find_key :: "Entry list \<Rightarrow> string \<Rightarrow> Entry option" where
  "find_key candidates p =
     (case find (\<lambda>e. Key e = p) candidates of
        Some e \<Rightarrow> Some e
      | None \<Rightarrow> find (\<lambda>e. has_prefix (Key e) p) candidates)"

fun find_keys :: "Entry list \<Rightarrow> string list \<Rightarrow> Entry option" where
  "find_keys candidates [] = None"
| "find_keys candidates (p # ps) = (case find_key candidates p of Some e \<Rightarrow> Some e | None \<Rightarrow> find_keys candidates ps)"

fun find_refs :: "(string \<Rightarrow> Entry list) \<Rightarrow> string list \<Rightarrow> string list \<Rightarrow> Entry option" where
  "find_refs candidates [] ks = None"
| "find_refs candidates (ref # refs) ks =
     (case find_keys (candidates ref) ks of Some e \<Rightarrow> Some e | None \<Rightarrow> find_refs candidates refs ks)"

definition touch :: "faults \<Rightarrow> int \<Rightarrow> Entry \<Rightarrow> Store \<Rightarrow> Store \<times> (cache_error + Entry)" where
  "touch io now e s =
     (let e' = e\<lparr>AccessedAt := now\<rparr> in then_do (saveEntry io e' s) (\<lambda>_ s. (put_entry e' s, Inr e')))"

definition Lookup :: "faults \<Rightarrow> int \<Rightarrow> Tenant \<Rightarrow> string list \<Rightarrow> string \<Rightarrow> string \<Rightarrow> string list \<Rightarrow> Store \<Rightarrow>
    Store \<times> (cache_error + Entry)" where
  "Lookup io now tenant refs key version restore s =
     (case ValidateKey key version of Inl err \<Rightarrow> (s, Inl err) | Inr _ \<Rightarrow>
        if length restore > 10 then (s, Inl ErrInvalid)
        else case first_err (\<lambda>p. case ValidateKey p version of Inl err \<Rightarrow> Some err | Inr _ \<Rightarrow> None) restore of
          Some err \<Rightarrow> (s, Inl err)
        | None \<Rightarrow>
            then_do (cleanupLocked io now s) (\<lambda>_ s.
              case find_refs (\<lambda>ref. ref_candidates tenant version ref s) refs (key # restore) of
                None \<Rightarrow> (s, Inl ErrNotFound)
              | Some e \<Rightarrow> touch io now e s))"

definition ListEntries :: "faults \<Rightarrow> int \<Rightarrow> Tenant \<Rightarrow> string list \<Rightarrow> string \<Rightarrow> Store \<Rightarrow> Store \<times> (cache_error + Entry list)" where
  "ListEntries io now tenant refs p s =
     then_do (cleanupLocked io now s) (\<lambda>_ s.
       (s, Inr (newest_first (filter (\<lambda>e. Tenant e = tenant \<and> Finalized e \<and> Ref e \<in> set refs \<and> has_prefix (Key e) p)
          (map snd (entries s))))))"

definition OpenEntry :: "faults \<Rightarrow> int \<Rightarrow> Tenant \<Rightarrow> int \<Rightarrow> Store \<Rightarrow> Store \<times> (cache_error + string \<times> Entry)" where
  "OpenEntry io now tenant eid s =
     (case getLocked tenant eid s of Inl err \<Rightarrow> (s, Inl err) | Inr e \<Rightarrow>
        if \<not> Finalized e then (s, Inl ErrNotFound)
        else let e' = e\<lparr>AccessedAt := now\<rparr>
             in then_do (saveEntry io e' s) (\<lambda>_ s.
                  let s = s\<lparr>entries := AList.update eid e' (entries s)\<rparr>
                  in os_call io OpenBlob eid s (\<lambda>s.
                    case dir_file s eid ''blob'' of
                      None \<Rightarrow> (s, Inl (IOError ''no such file or directory''))
                    | Some data \<Rightarrow> (s, Inr (data, e')))))"

section \<open>Starting the service\<close>

text \<open>
  The directories under the root with the numbers their names parse to; a name that is no number is \<open>Inl\<close>. The file
  \<open>entry_json\<close> decodes to \<open>Json\<close> of the entry that was saved, whose empty block map is left out and so is nil.
\<close>

definition decoded_entry :: "Entry \<Rightarrow> Entry" where
  "decoded_entry e = (if blocks_of e = [] then e\<lparr>Blocks := None\<rparr> else e)"

fun check_blocks :: "faults \<Rightarrow> (string \<Rightarrow> string) \<Rightarrow> int \<Rightarrow> Dir \<Rightarrow> (string \<times> int) list \<Rightarrow> cache_error + bool" where
  "check_blocks io sha256 eid d [] = Inr True"
| "check_blocks io sha256 eid d ((block, n) # blocks) =
     (case io (StatFile (block_file sha256 block)) eid of Some m \<Rightarrow> Inl (IOError m) | None \<Rightarrow>
        (case map_of (dir_files d) (block_file sha256 block) of
           None \<Rightarrow> Inr False
         | Some data \<Rightarrow> if int (length data) \<noteq> n then Inr False else check_blocks io sha256 eid d blocks))"

definition stale_file :: "(string \<Rightarrow> string) \<Rightarrow> Entry \<Rightarrow> string \<Rightarrow> bool" where
  "stale_file sha256 e name \<longleftrightarrow>
     has_prefix name ''.incoming-''
     \<or> has_prefix name ''block-'' \<and> \<not> (\<not> Uploaded e \<and> name \<in> set (map (\<lambda>(block, _). block_file sha256 block) (blocks_of e)))
     \<or> name = ''blob'' \<and> \<not> Uploaded e"

fun remove_stale :: "faults \<Rightarrow> int \<Rightarrow> (string \<Rightarrow> bool) \<Rightarrow> (string \<times> string) list \<Rightarrow> cache_error + (string \<times> string) list" where
  "remove_stale io eid stale [] = Inr []"
| "remove_stale io eid stale ((name, data) # fs) =
     (if stale name then (case io (RemoveFile name) eid of Some m \<Rightarrow> Inl (IOError m) | None \<Rightarrow> remove_stale io eid stale fs)
      else map_sum (\<lambda>err. err) ((#) (name, data)) (remove_stale io eid stale fs))"

text \<open>What becomes of a directory: an error, its removal, or an entry and the files that stay.\<close>

definition drop_dir :: "faults \<Rightarrow> int \<Rightarrow> cache_error + (Entry \<times> Dir) option" where
  "drop_dir io eid = (case io RemoveDir eid of Some m \<Rightarrow> Inl (IOError m) | None \<Rightarrow> Inr None)"

definition keep_dir :: "faults \<Rightarrow> (string \<Rightarrow> string) \<Rightarrow> int \<Rightarrow> Dir \<Rightarrow> Entry \<Rightarrow> cache_error + (Entry \<times> Dir) option" where
  "keep_dir io sha256 eid d e =
     map_sum (\<lambda>err. err) (\<lambda>fs. Some (e, d\<lparr>dir_files := fs\<rparr>)) (remove_stale io eid (stale_file sha256 e) (dir_files d))"

definition load_dir :: "faults \<Rightarrow> (string \<Rightarrow> string) \<Rightarrow> int \<Rightarrow> Dir \<Rightarrow> cache_error + (Entry \<times> Dir) option" where
  "load_dir io sha256 eid d =
     (case io ReadJson eid of Some m \<Rightarrow> Inl (IOError m) | None \<Rightarrow>
        (case entry_json d of
           NoJson \<Rightarrow> drop_dir io eid
         | BadJson m \<Rightarrow> Inl (IOError m)
         | Json saved \<Rightarrow>
             (let e = decoded_entry saved
              in if ID e \<noteq> eid \<or> ProjectUID (Tenant e) = [] \<or> RepositoryID (Tenant e) < 1 then Inl (BadMetadata eid)
                 else if Uploaded e then
                   if io (StatFile ''blob'') eid = None
                     \<and> (case map_of (dir_files d) ''blob'' of None \<Rightarrow> False | Some data \<Rightarrow> int (length data) = Size e)
                   then keep_dir io sha256 eid d e
                   else Inl (BadBlob eid)
                 else and_then (check_blocks io sha256 eid d (blocks_of e)) (\<lambda>complete.
                   if complete then keep_dir io sha256 eid d e else drop_dir io eid))))"

fun load_dirs :: "faults \<Rightarrow> (string \<Rightarrow> string) \<Rightarrow> (string + int \<times> Dir) list \<Rightarrow> Store \<Rightarrow> cache_error + Store" where
  "load_dirs io sha256 [] s = Inr s"
| "load_dirs io sha256 (Inl name # ds) s = Inl (BadDirectory name)"
| "load_dirs io sha256 (Inr (eid, d) # ds) s =
     (if eid < 1 then Inl (BadDirectory (int_str eid))
      else and_then (load_dir io sha256 eid d) (\<lambda>r. load_dirs io sha256 ds
        (case r of None \<Rightarrow> s
         | Some (e, d) \<Rightarrow> s\<lparr>entries := AList.update eid e (entries s), disk := AList.update eid d (disk s)\<rparr>)))"

definition empty_store :: "Limits \<Rightarrow> Store" where
  "empty_store l = \<lparr>limits = l, entries = [], active = (\<lambda>_. 0), reserved = (\<lambda>_. 0), committing = (\<lambda>_. False), disk = []\<rparr>"

definition NewStore :: "faults \<Rightarrow> (string \<Rightarrow> string) \<Rightarrow> int \<Rightarrow> Limits \<Rightarrow> (string + int \<times> Dir) list \<Rightarrow> cache_error + Store" where
  "NewStore io sha256 now l listing =
     (if \<not> ValidateLimits l then Inl LimitsInvalid
      else and_then (load_dirs io sha256 listing (empty_store l)) (\<lambda>s.
        case cleanupLocked io now s of (s, Inl err) \<Rightarrow> Inl err | (s, Inr _) \<Rightarrow> Inr s))"

section \<open>Basic facts\<close>

lemma then_do_simps [simp]: "then_do (s, Inl e) k = (s, Inl e)" "then_do (s, Inr a) k = k a s"
  by (simp_all add: then_do_def)

lemma then_do_eq_Inr:
  "then_do r k = (s', Inr b) \<longleftrightarrow> (\<exists>a s. r = (s, Inr a) \<and> k a s = (s', Inr b))"
  by (cases r; cases "snd r") (auto simp: then_do_def)

lemma os_call_eq_Inr: "os_call io c eid s k = (s', Inr b) \<longleftrightarrow> io c eid = None \<and> k s = (s', Inr b)"
  by (auto simp: os_call_def split: option.split)

lemmas run_eqs = then_do_eq_Inr os_call_eq_Inr

lemma on_dir_fields [simp]: "limits (on_dir i f s) = limits s" "entries (on_dir i f s) = entries s" "active (on_dir i f s) = active s"
    "reserved (on_dir i f s) = reserved s" "committing (on_dir i f s) = committing s"
  by (simp_all add: on_dir_def split: option.split)

lemma removeEntry_Inr:
  assumes "removeEntry io eid s = (s', Inr ())"
  shows "entries s' = AList.delete eid (entries s)" "limits s' = limits s" "active s' = (active s)(eid := 0)"
    "committing s' = (committing s)(eid := False)" "reserved s' = (reserved s)(eid := 0)"
  using assms by (auto simp: removeEntry_def run_eqs forget_def split: if_splits)

lemma delete_filter: "AList.delete k xs = filter (\<lambda>(i, _). i \<noteq> k) xs"
  by (auto simp: AList.delete_eq case_prod_unfold intro: filter_cong)

section \<open>What the clean-up leaves\<close>

definition live :: "int \<Rightarrow> Store \<Rightarrow> Entry list" where
  "live now s = map snd (filter (\<lambda>(i, e). \<not> (expired (limits s) now e \<and> idle s i)) (entries s))"

definition removable :: "int \<Rightarrow> Store \<Rightarrow> (int \<times> Entry) list \<Rightarrow> int \<Rightarrow> bool" where
  "removable now s es i \<longleftrightarrow> (\<exists>e. (i, e) \<in> set es \<and> expired (limits s) now e \<and> idle s i)"

lemma cleanup_loop_entries:
  assumes "cleanup_loop io now es s = (s', Inr ())" "distinct (map fst es)"
  shows "entries s' = filter (\<lambda>p. \<not> removable now s es (fst p)) (entries s)"
  using assms
proof (induction io now es s rule: cleanup_loop.induct)
  case (2 io now i e es s)
  from 2(4) have fresh: "(i, e') \<notin> set es" for e' by force
  show ?case
  proof (cases "expired (limits s) now e \<and> idle s i")
    case True
    with 2(3) obtain t where t: "removeEntry io i s = (t, Inr ())" and run: "cleanup_loop io now es t = (s', Inr ())"
      by (auto simp: then_do_eq_Inr)
    note f = removeEntry_Inr [OF t]
    have gone: "removable now s ((i, e) # es) j \<longleftrightarrow> i = j \<or> removable now t es j" for j
      using fresh True by (auto simp: removable_def f idle_def)
    show ?thesis
      using 2(1) [OF True run] 2(4) by (auto simp: f delete_filter gone case_prod_unfold intro: filter_cong)
  next
    case False
    then have "removable now s ((i, e) # es) = removable now s es" by (auto simp: removable_def fun_eq_iff)
    with 2(2) [OF False] 2(3,4) False show ?thesis by simp
  qed
qed (simp add: removable_def)

lemma cleanup_entries:
  assumes "cleanupLocked io now s = (s', Inr ())" "distinct (map fst (entries s))"
  shows "map snd (entries s') = live now s"
proof -
  have "removable now s (entries s) (fst p) \<longleftrightarrow> expired (limits s) now (snd p) \<and> idle s (fst p)" if "p \<in> set (entries s)" for p
  proof -
    obtain i e where p: "p = (i, e)" by fastforce
    with that have here: "(i, e) \<in> set (entries s)" by simp
    have "(i, e') \<in> set (entries s) \<longleftrightarrow> e' = e" for e' using eq_key_imp_eq_value [OF assms(2) here] here by blast
    then show ?thesis by (simp add: removable_def p)
  qed
  then have "filter (\<lambda>p. \<not> removable now s (entries s) (fst p)) (entries s) =
      filter (\<lambda>p. \<not> (expired (limits s) now (snd p) \<and> idle s (fst p))) (entries s)"
    by (intro filter_cong) auto
  then show ?thesis
    using cleanup_loop_entries [OF assms(1) [unfolded cleanupLocked_def] assms(2)] by (simp only: live_def case_prod_unfold)
qed

section \<open>The entry a look-up finds\<close>

lemma find_sorted:
  "find P (sort_key f xs) = Some x \<Longrightarrow> P x \<and> x \<in> set xs \<and> (\<forall>y \<in> set xs. P y \<longrightarrow> f x \<le> f y)"
proof -
  have "P x \<and> x \<in> set ys \<and> (\<forall>y \<in> set ys. P y \<longrightarrow> f x \<le> f y)" if "find P ys = Some x" "sorted (map f ys)" for ys
    using that by (induction ys) (auto split: if_splits)
  from this [of "sort_key f xs"] show "find P (sort_key f xs) = Some x \<Longrightarrow> ?thesis" by simp
qed

lemma find_sorted_None: "find P (sort_key f xs) = None \<longleftrightarrow> (\<forall>x \<in> set xs. \<not> P x)"
  by (auto simp: find_None_iff)

definition first_pos :: "('a \<Rightarrow> bool) \<Rightarrow> 'a list \<Rightarrow> nat" where
  "first_pos P xs = length (takeWhile (\<lambda>x. \<not> P x) xs)"

lemma first_pos_Cons [simp]: "first_pos P (x # xs) = (if P x then 0 else Suc (first_pos P xs))"
  by (simp add: first_pos_def)

text \<open>
  The order of preference of a look-up: the place of the ref, the place of the first key that is a prefix, an exact key
  before a prefix of it, the newer before the older.
\<close>

definition key_rank :: "string list \<Rightarrow> Entry \<Rightarrow> nat \<times> nat \<times> int" where
  "key_rank ks e = (first_pos (has_prefix (Key e)) ks, if Key e = ks ! first_pos (has_prefix (Key e)) ks then 0 else 1, - CreatedAt e)"

definition lookup_rank :: "string list \<Rightarrow> string list \<Rightarrow> Entry \<Rightarrow> nat \<times> nat \<times> nat \<times> int" where
  "lookup_rank refs ks e = (first_pos ((=) (Ref e)) refs, key_rank ks e)"

definition key_matches :: "string list \<Rightarrow> Entry \<Rightarrow> bool" where
  "key_matches ks e \<longleftrightarrow> (\<exists>k \<in> set ks. has_prefix (Key e) k)"

definition lookup_match :: "Tenant \<Rightarrow> string list \<Rightarrow> string \<Rightarrow> string list \<Rightarrow> Entry \<Rightarrow> bool" where
  "lookup_match tenant refs version ks e \<longleftrightarrow>
     Tenant e = tenant \<and> Version e = version \<and> Finalized e \<and> Ref e \<in> set refs \<and> key_matches ks e"

lemma find_key_None: "find_key (newest_first es) p = None \<longleftrightarrow> (\<forall>e \<in> set es. \<not> has_prefix (Key e) p)"
  by (auto simp: find_key_def newest_first_def find_sorted_None has_prefix_def split: option.split dest: find_sorted)

lemma find_keys_Some:
  assumes "find_keys (newest_first es) ks = Some e"
  shows "e \<in> set es \<and> key_matches ks e \<and> (\<forall>e' \<in> set es. key_matches ks e' \<longrightarrow> key_rank ks e \<le> key_rank ks e')"
  using assms
proof (induction ks)
  case (Cons k ks)
  show ?case
  proof (cases "find_key (newest_first es) k")
    case None
    then have no: "\<not> has_prefix (Key e') k" if "e' \<in> set es" for e' using that by (simp add: find_key_None)
    with Cons None show ?thesis by (auto simp: key_matches_def key_rank_def less_eq_prod_def)
  next
    case (Some e0)
    with Cons(2) have e0: "find_key (newest_first es) k = Some e" by simp
    show ?thesis
    proof (cases "find (\<lambda>e. Key e = k) (newest_first es)")
      case None
      with e0 have "find (\<lambda>e. has_prefix (Key e) k) (newest_first es) = Some e" by (simp add: find_key_def)
      from find_sorted [OF this [unfolded newest_first_def]] None show ?thesis
        by (auto simp: key_matches_def key_rank_def less_eq_prod_def newest_first_def find_sorted_None)
    next
      case (Some e1)
      with e0 have "find (\<lambda>e. Key e = k) (newest_first es) = Some e" by (simp add: find_key_def)
      from find_sorted [OF this [unfolded newest_first_def]] show ?thesis
        by (auto simp: key_matches_def key_rank_def less_eq_prod_def has_prefix_def)
    qed
  qed
qed simp

lemma find_keys_None: "find_keys (newest_first es) ks = None \<longleftrightarrow> (\<forall>e \<in> set es. \<not> key_matches ks e)"
proof (induction ks)
  case (Cons k ks)
  then show ?case using find_key_None [of es k] by (cases "find_key (newest_first es) k") (auto simp: key_matches_def)
qed (simp add: key_matches_def)

lemma find_refs_Some:
  assumes "find_refs (\<lambda>ref. newest_first (filter (\<lambda>e. Ref e = ref \<and> P e) es)) refs ks = Some e"
  shows "e \<in> set es \<and> P e \<and> Ref e \<in> set refs \<and> key_matches ks e \<and>
    (\<forall>e' \<in> set es. P e' \<longrightarrow> Ref e' \<in> set refs \<longrightarrow> key_matches ks e' \<longrightarrow> lookup_rank refs ks e \<le> lookup_rank refs ks e')"
  using assms
proof (induction refs)
  case (Cons ref refs)
  let ?here = "filter (\<lambda>e. Ref e = ref \<and> P e) es"
  show ?case
  proof (cases "find_keys (newest_first ?here) ks")
    case None
    then have "\<not> key_matches ks e'" if "e' \<in> set es" "P e'" "Ref e' = ref" for e'
      using that by (auto simp: find_keys_None)
    with Cons None show ?thesis by (auto simp: lookup_rank_def less_eq_prod_def)
  next
    case (Some e0)
    with Cons(2) find_keys_Some [OF Some] show ?thesis by (auto simp: lookup_rank_def less_eq_prod_def)
  qed
qed simp

lemma find_refs_None:
  "find_refs (\<lambda>ref. newest_first (filter (\<lambda>e. Ref e = ref \<and> P e) es)) refs ks = None \<longleftrightarrow>
     (\<forall>e \<in> set es. P e \<longrightarrow> Ref e \<in> set refs \<longrightarrow> \<not> key_matches ks e)"
proof (induction refs)
  case (Cons ref refs)
  let ?here = "filter (\<lambda>e. Ref e = ref \<and> P e) es"
  show ?case
  proof (cases "find_keys (newest_first ?here) ks")
    case None
    then have "\<not> key_matches ks e" if "e \<in> set es" "P e" "Ref e = ref" for e using that by (simp add: find_keys_None)
    with None Cons show ?thesis by auto
  next
    case (Some e)
    with find_keys_Some [OF this] show ?thesis by auto
  qed
qed simp

lemma ref_candidates_eq:
  "ref_candidates tenant version ref s =
     newest_first (filter (\<lambda>e. Ref e = ref \<and> (Tenant e = tenant \<and> Version e = version \<and> Finalized e)) (map snd (entries s)))"
  unfolding ref_candidates_def by (rule arg_cong [where f = newest_first], rule filter_cong) auto

lemma touch_result:
  "snd (touch io now e s) = Inr (e\<lparr>AccessedAt := now\<rparr>) \<or> (\<exists>m. snd (touch io now e s) = Inl (IOError m))"
  by (auto simp: touch_def saveEntry_def os_call_def Let_def then_do_def split: option.splits)

definition keys_valid :: "string \<Rightarrow> string \<Rightarrow> string list \<Rightarrow> bool" where
  "keys_valid key version restore \<longleftrightarrow>
     length restore \<le> 10 \<and> list_all (\<lambda>k. ValidateKey k version = Inr ()) (key # restore)"

lemma Lookup_valid:
  assumes "keys_valid key version restore" "cleanupLocked io now s = (t, Inr ())"
  shows "Lookup io now tenant refs key version restore s =
    (case find_refs (\<lambda>ref. ref_candidates tenant version ref t) refs (key # restore) of
       None \<Rightarrow> (t, Inl ErrNotFound) | Some e \<Rightarrow> touch io now e t)"
proof -
  have "first_err (\<lambda>p. case ValidateKey p version of Inl err \<Rightarrow> Some err | Inr _ \<Rightarrow> None) restore = None"
    using assms(1) by (auto simp: keys_valid_def first_err_None list_all_iff)
  with assms show ?thesis by (simp add: Lookup_def keys_valid_def)
qed

section \<open>Properties\<close>

text \<open>
  C19. A look-up of a cache returns the entry the documentation of cache keys promises. Among the entries that have not
  expired, it considers the finalized ones of the same repository and version, on the refs the job may read, whose key
  starts with one of the keys asked for. Of these it returns the first in the order of preference: by ref, then by key, an exact
  key before a longer one, the newest first. It answers that there is none only when there is none.
\<close>

theorem lookup_finds_best:
  fixes tenant :: Tenant and refs :: "string list"
  assumes "distinct (map fst (entries s))" "keys_valid key version restore" "snd (cleanupLocked io now s) = Inr ()"
  defines "wanted \<equiv> filter (lookup_match tenant refs version (key # restore)) (live now s)"
  shows "case snd (Lookup io now tenant refs key version restore s) of
      Inr e \<Rightarrow> \<exists>e0 \<in> set wanted. e = e0\<lparr>AccessedAt := now\<rparr> \<and>
        (\<forall>e' \<in> set wanted. lookup_rank refs (key # restore) e0 \<le> lookup_rank refs (key # restore) e')
    | Inl err \<Rightarrow> if wanted = [] then err = ErrNotFound else \<exists>m. err = IOError m"
proof -
  obtain t where t: "cleanupLocked io now s = (t, Inr ())" using assms(3) by (cases "cleanupLocked io now s") auto
  let ?P = "\<lambda>e. Tenant e = tenant \<and> Version e = version \<and> Finalized e"
  let ?found = "find_refs (\<lambda>ref. newest_first (filter (\<lambda>e. Ref e = ref \<and> ?P e) (live now s))) refs (key # restore)"
  have run: "Lookup io now tenant refs key version restore s =
      (case ?found of None \<Rightarrow> (t, Inl ErrNotFound) | Some e \<Rightarrow> touch io now e t)"
    by (simp add: Lookup_valid [OF assms(2) t] ref_candidates_eq cleanup_entries [OF t assms(1)])
  have wanted: "e \<in> set wanted \<longleftrightarrow> e \<in> set (live now s) \<and> ?P e \<and> Ref e \<in> set refs \<and> key_matches (key # restore) e" for e
    by (auto simp: wanted_def lookup_match_def)
  show ?thesis
  proof (cases ?found)
    case None
    then have "wanted = []" using find_refs_None [THEN iffD1, OF None] wanted by (metis list.set_intros(1) neq_Nil_conv)
    with None run show ?thesis by simp
  next
    case (Some e)
    from find_refs_Some [OF this] have e: "e \<in> set wanted"
      "\<forall>e' \<in> set wanted. lookup_rank refs (key # restore) e \<le> lookup_rank refs (key # restore) e'"
      by (auto simp: wanted)
    then have "wanted \<noteq> []" by auto
    with e Some run touch_result [of io now e t] show ?thesis by auto
  qed
qed

definition sample_tenant :: Tenant where
  "sample_tenant = \<lparr>ProjectUID = ''p'', RepositoryID = 7\<rparr>"

definition sample_limits :: Limits where
  "sample_limits = \<lparr>MaxEntryBytes = 10, MaxRepositoryBytes = 20, MaxTotalBytes = 30, Retention = 1000, UploadRetention = 50\<rparr>"

definition sample_entry :: "int \<Rightarrow> string \<Rightarrow> int \<Rightarrow> Entry" where
  "sample_entry i key created =
     \<lparr>ID = i, Tenant = sample_tenant, Ref = ''refs/heads/main'', Key = key, Version = ''v'', Owner = ''job'', CreatedAt = created,
      AccessedAt = created, Size = 1, Uploaded = True, Digest = [], Finalized = True, Blocks = None\<rparr>"

definition sample_store :: Store where
  "sample_store = (empty_store sample_limits)\<lparr>
     entries := [(1, sample_entry 1 ''npm-1'' 10), (2, sample_entry 2 ''npm-2'' 20), (3, sample_entry 3 ''go-3'' 30)],
     disk := [(1, \<lparr>entry_json = NoJson, dir_files = [(''blob'', ''a'')]\<rparr>), (2, \<lparr>entry_json = NoJson, dir_files = [(''blob'', ''b'')]\<rparr>),
       (3, \<lparr>entry_json = NoJson, dir_files = [(''blob'', ''c'')]\<rparr>)]\<rparr>"

lemma sample_wanted:
  "filter (lookup_match sample_tenant [''refs/heads/dev'', ''refs/heads/main''] ''v'' [''npm-9'', ''npm-'']) (live 100 sample_store) =
     [sample_entry 1 ''npm-1'' 10, sample_entry 2 ''npm-2'' 20]"
  "keys_valid ''npm-9'' ''v'' [''npm-'']" "distinct (map fst (entries sample_store))"
  "snd (cleanupLocked no_faults 100 sample_store) = Inr ()"
  "isl (snd (Lookup no_faults 100 sample_tenant [''refs/heads/dev'', ''refs/heads/main''] ''npm-9'' ''v'' [''npm-''] sample_store)) = False"
  "lookup_rank [''refs/heads/dev'', ''refs/heads/main''] [''npm-9'', ''npm-''] (sample_entry 1 ''npm-1'' 10) \<le>
     lookup_rank [''refs/heads/dev'', ''refs/heads/main''] [''npm-9'', ''npm-''] (sample_entry 2 ''npm-2'' 20) \<longleftrightarrow> False"
  by code_simp+

theorem lookup_finds_best_witness:
  "snd (Lookup no_faults 100 sample_tenant [''refs/heads/dev'', ''refs/heads/main''] ''npm-9'' ''v'' [''npm-''] sample_store)
     = Inr ((sample_entry 2 ''npm-2'' 20)\<lparr>AccessedAt := 100\<rparr>)"
  using lookup_finds_best [OF sample_wanted(3,2,4), where tenant = sample_tenant and refs = "[''refs/heads/dev'', ''refs/heads/main'']"]
    sample_wanted(5,6)
  by (auto simp: sample_wanted(1) split: sum.splits)

end
