(* ===== verification/CacheRoom.thy ===== *)
theory CacheRoom
  imports CacheStore
begin

text \<open>
  What the quotas of the cache rest on, \<^verbatim>\<open>makeRoomLocked\<close> and \<^verbatim>\<open>cleanupLocked\<close> of \<^verbatim>\<open>src/internal/cache/store.go\<close>: the removal of
  entries no request is working on, as the locale \<open>idle_removal\<close>; the two loops that select what is evicted; and the worst
  outcome of the uploads that are under way.
\<close>

section \<open>Removing idle entries\<close>

text \<open>
  What the clean-up and the eviction promise to the rest: they write the metadata of directories, forget entries that no request is
  working on, and remove directories that belong to no entry. A property of the store that survives these three survives them.
\<close>

locale idle_removal =
  fixes R :: "Store \<Rightarrow> bool"
  assumes json_free: "R s \<Longrightarrow> R (on_dir i (entry_json_update (\<lambda>_. j)) s)"
    and dir_free: "R s \<Longrightarrow> i \<notin> fst ` set (entries s) \<Longrightarrow> R (s\<lparr>disk := AList.delete i (disk s)\<rparr>)"
    and drop_idle: "R s \<Longrightarrow> idle s i \<Longrightarrow> R (forget i s)"
    and keyed: "R s \<Longrightarrow> (i, e) \<in> set (entries s) \<Longrightarrow> ID e = i"
begin

lemma save_keeps: "R s \<Longrightarrow> R (fst (saveEntry io e s))"
  by (auto simp: saveEntry_def os_call_def intro: json_free split: option.split)

lemma remove_keeps: "R s \<Longrightarrow> idle s i \<Longrightarrow> R (fst (removeEntry io i s))"
  by (auto simp: removeEntry_def os_call_def idle_def forget_def [symmetric] intro!: json_free drop_idle dir_free split: option.split)
    (auto simp: forget_def delete_filter)

lemma remove_idle: "idle s j \<Longrightarrow> idle (fst (removeEntry io i s)) j"
  by (auto simp: removeEntry_def os_call_def idle_def forget_def split: option.split)

lemma cleanup_loop_keeps: "R s \<Longrightarrow> R (fst (cleanup_loop io now es s))"
proof (induction io now es s rule: cleanup_loop.induct)
  case (2 io now i e es s)
  show ?case
  proof (cases "expired (limits s) now e \<and> idle s i")
    case True
    with 2(3) have "R (fst (removeEntry io i s))" by (simp add: remove_keeps)
    with True 2(1) show ?thesis by (cases "removeEntry io i s"; cases "snd (removeEntry io i s)") auto
  next
    case False
    then show ?thesis using 2(2) [OF False 2(3)] by (simp only: cleanup_loop.simps False if_False)
  qed
qed simp

lemma cleanup_keeps: "R s \<Longrightarrow> R (fst (cleanupLocked io now s))"
  by (simp add: cleanupLocked_def cleanup_loop_keeps)

lemma remove_all_keeps: "R s \<Longrightarrow> \<forall>i \<in> set is. idle s i \<Longrightarrow> R (fst (remove_all io is s))"
proof (induction io "is" s rule: remove_all.induct)
  case (2 io i "is" s)
  then have "R (fst (removeEntry io i s))" "\<forall>j \<in> set is. idle (fst (removeEntry io i s)) j"
    by (simp_all add: remove_keeps remove_idle)
  with 2(1) show ?case by (cases "removeEntry io i s"; cases "snd (removeEntry io i s)") auto
qed simp

end

text \<open>What does not depend on the disk at all is kept by every change of a directory.\<close>

locale disk_blind =
  fixes R :: "Store \<Rightarrow> bool"
  assumes disk_free: "R s \<Longrightarrow> R (s\<lparr>disk := d\<rparr>)"
    and blind_drop: "R s \<Longrightarrow> idle s i \<Longrightarrow> R (forget i s)"
    and blind_keyed: "R s \<Longrightarrow> (i, e) \<in> set (entries s) \<Longrightarrow> ID e = i"
begin

lemma on_dir_keeps: "R s \<Longrightarrow> R (on_dir i f s)"
  by (auto simp: on_dir_def intro: disk_free split: option.split)

end

sublocale disk_blind \<subseteq> idle_removal R
  by unfold_locales (auto intro: on_dir_keeps disk_free blind_drop blind_keyed)

section \<open>Making room\<close>

text \<open>
  The entries without those that were selected, and what they count. The two loops keep that the room they
  compute is what these entries count.
\<close>

definition left_over :: "int list \<Rightarrow> (int \<times> Entry) list \<Rightarrow> (int \<times> Entry) list" where
  "left_over vs xs = filter (\<lambda>p. fst p \<notin> set vs) xs"

definition counts_for :: "Tenant \<Rightarrow> Store \<Rightarrow> int \<times> Entry \<Rightarrow> int" where
  "counts_for tenant s p = (if Tenant (snd p) = tenant then counted s p else 0)"

definition room_exact :: "Tenant \<Rightarrow> Store \<Rightarrow> Room \<Rightarrow> bool" where
  "room_exact tenant s r \<longleftrightarrow>
     room_total r = sum_list (map (counted s) (left_over (victims r) (entries s)))
     \<and> room_repository r = sum_list (map (counts_for tenant s) (left_over (victims r) (entries s)))"

definition evictable :: "Store \<Rightarrow> Entry \<Rightarrow> bool" where
  "evictable s e \<longleftrightarrow> (ID e, e) \<in> set (entries s) \<and> idle s (ID e) \<and> counted s (ID e, e) = Size e \<and> 0 \<le> Size e"

lemma repository_counts: "repository_bytes tenant s = sum_list (map (counts_for tenant s) (entries s))"
proof -
  have "sum_list (map (counted s) (filter (\<lambda>(_, e). Tenant e = tenant) xs)) = sum_list (map (counts_for tenant s) xs)" for xs
    by (induction xs) (auto simp: counts_for_def)
  then show ?thesis by (simp add: repository_bytes_def)
qed

lemma left_over_snoc:
  assumes "distinct (map fst xs)" "(i, e) \<in> set xs" "i \<notin> set vs"
  shows "sum_list (map f (left_over (vs @ [i]) xs)) = sum_list (map f (left_over vs xs)) - (f (i, e) :: int)"
  using assms(1,2)
proof (induction xs)
  case (Cons p xs)
  have same: "left_over (vs @ [i]) ys = left_over vs ys" if "i \<notin> fst ` set ys" for ys
    unfolding left_over_def by (rule filter_cong) (use that in force)+
  show ?case
  proof (cases "p = (i, e)")
    case True
    with Cons(2) same [of xs] show ?thesis by (simp add: left_over_def assms(3))
  next
    case False
    with Cons(3) have here: "(i, e) \<in> set xs" by auto
    then have "i \<in> fst ` set xs" by force
    with Cons(2) have "fst p \<noteq> i" by auto
    with Cons(1,2) here show ?thesis by (simp add: left_over_def)
  qed
qed simp

lemma select_exact:
  assumes "room_exact tenant s r" "distinct (map fst (entries s))" "evictable s e" "ID e \<notin> set (victims r)"
  shows "room_exact tenant s (selectEntry tenant e r)"
  using assms left_over_snoc [OF assms(2) _ assms(4)]
  by (auto simp: room_exact_def selectEntry_def evictable_def counts_for_def)

definition room_ok :: "Tenant \<Rightarrow> Store \<Rightarrow> Room \<Rightarrow> bool" where
  "room_ok tenant s r \<longleftrightarrow> room_exact tenant s r \<and> (\<forall>i \<in> set (victims r). idle s i)"

lemma select_ok:
  assumes "room_ok tenant s r" "distinct (map fst (entries s))" "evictable s e" "ID e \<notin> set (victims r)"
  shows "room_ok tenant s (selectEntry tenant e r)" "room_repository (selectEntry tenant e r) \<le> room_repository r"
  using assms select_exact [of tenant s r e] by (auto simp: room_ok_def evictable_def selectEntry_def)

lemma free_repository_ok:
  assumes "room_ok tenant s r" "distinct (map fst (entries s))" "\<forall>e \<in> set es. evictable s e" "distinct (map ID es)"
    "set (map ID es) \<inter> set (victims r) = {}"
  shows "room_ok tenant s (free_repository m tenant inc es r)"
  using assms
proof (induction m tenant inc es r rule: free_repository.induct)
  case (2 m tenant inc e es r)
  let ?r = "if Tenant e = tenant then selectEntry tenant e r else r"
  have "room_ok tenant s ?r" "set (map ID es) \<inter> set (victims ?r) = {}"
    using 2(2-6) select_ok(1) [of tenant s r e] by (auto simp: selectEntry_def)
  with 2(1,2-6) show ?case by simp
qed simp

lemma free_total_ok:
  assumes "room_ok tenant s r" "distinct (map fst (entries s))" "\<forall>e \<in> set es. evictable s e"
  shows "room_ok tenant s (free_total m tenant inc es r) \<and> room_repository (free_total m tenant inc es r) \<le> room_repository r"
  using assms
proof (induction m tenant inc es r rule: free_total.induct)
  case (2 m tenant inc e es r)
  let ?r = "if ID e \<notin> set (victims r) then selectEntry tenant e r else r"
  have "room_ok tenant s ?r" "room_repository ?r \<le> room_repository r"
    using 2(2-4) select_ok [of tenant s r e] by simp_all
  with 2(1,3,4) show ?case by (cases "room_total r + inc \<le> m") (auto simp: 2(2))
qed simp

lemma remove_all_entries:
  assumes "remove_all io vs s = (s', Inr ())"
  shows "entries s' = left_over vs (entries s) \<and> (\<forall>i. i \<notin> set vs \<longrightarrow> reserved s' i = reserved s i) \<and> limits s' = limits s"
  using assms
proof (induction io vs s rule: remove_all.induct)
  case (2 io i vs s)
  then obtain t where t: "removeEntry io i s = (t, Inr ())" and run: "remove_all io vs t = (s', Inr ())"
    by (auto simp: then_do_eq_Inr)
  from 2(1) [OF run] removeEntry_Inr [OF t] show ?case
    by (auto simp: left_over_def delete_filter case_prod_unfold intro: filter_cong)
qed (simp add: left_over_def)

section \<open>The worst outcome of the uploads under way\<close>

definition uploads_of :: "(int \<times> string \<times> int) list \<Rightarrow> int \<Rightarrow> (string \<times> int) list" where
  "uploads_of us i = map snd (filter (\<lambda>u. fst u = i) us)"

fun peak :: "(string \<times> int) list \<Rightarrow> int \<Rightarrow> string \<Rightarrow> int" where
  "peak [] v b = v"
| "peak ((c, n) # us) v b = (if c = b then max n (peak us v b) else peak us v b)"

fun pledged :: "(string \<times> int) list \<Rightarrow> string \<Rightarrow> int" where
  "pledged [] b = 0"
| "pledged ((c, n) # us) b = (if c = b then n + pledged us b else pledged us b)"

definition names :: "(string \<times> int) list \<Rightarrow> Entry \<Rightarrow> string set" where
  "names us e = fst ` set us \<union> fst ` set (blocks_of e)"

definition worst :: "(string \<times> int) list \<Rightarrow> Entry \<Rightarrow> int" where
  "worst us e = (if Uploaded e then Size e else \<Sum>b \<in> names us e. peak us (block_size e b) b)"

lemma finite_names [simp]: "finite (names us e)"
  by (simp add: names_def)

lemma peak_base: "v \<le> peak us v b"
  by (induction us v b rule: peak.induct) auto

lemma peak_mem: "(b, n) \<in> set us \<Longrightarrow> n \<le> peak us v b"
  by (induction us v b rule: peak.induct) auto

lemma peak_other: "b \<notin> fst ` set us \<Longrightarrow> peak us v b = v"
  by (induction us v b rule: peak.induct) auto

lemma peak_least: "v \<le> m \<Longrightarrow> \<forall>n. (b, n) \<in> set us \<longrightarrow> n \<le> m \<Longrightarrow> peak us v b \<le> m"
  by (induction us v b rule: peak.induct) auto

lemma peak_mono: "v \<le> peak us w b \<Longrightarrow> set vs \<subseteq> set us \<Longrightarrow> peak vs v b \<le> peak us w b"
  by (rule peak_least) (auto intro: peak_mem)

lemma pledged_nonneg: "\<forall>(c, n) \<in> set us. 0 \<le> n \<Longrightarrow> 0 \<le> pledged us b"
  by (induction us) auto

lemma peak_pledged: "\<forall>(c, n) \<in> set us. 0 \<le> n \<Longrightarrow> 0 \<le> v \<Longrightarrow> peak us v b \<le> v + pledged us b"
proof (induction us)
  case (Cons u us)
  with pledged_nonneg [of us b] show ?case by (cases u) auto
qed simp

lemma block_size_nonneg: "\<forall>(b, n) \<in> set (blocks_of e). 0 \<le> n \<Longrightarrow> 0 \<le> block_size e b"
  by (auto simp: block_size_def split: option.split dest: map_of_SomeD)

lemma block_size_outside: "b \<notin> fst ` set (blocks_of e) \<Longrightarrow> block_size e b = 0"
  by (auto simp: block_size_def map_of_eq_None_iff [symmetric])

text \<open>Sums over the blocks may be taken over any larger set of names, so different sums are compared over a common one.\<close>

lemma sum_names:
  assumes "names us e \<subseteq> B" "finite B"
  shows "(\<Sum>b \<in> names us e. peak us (block_size e b) b) = (\<Sum>b \<in> B. peak us (block_size e b) b)"
  by (rule sum.mono_neutral_left) (use assms in \<open>auto simp: names_def peak_other block_size_outside\<close>)

lemma sum_pledged: "fst ` set us \<subseteq> B \<Longrightarrow> finite B \<Longrightarrow> sum_list (map snd us) = (\<Sum>b \<in> B. pledged us b)"
proof (induction us)
  case (Cons u us)
  obtain c n where u: "u = (c, n)" by fastforce
  have "(\<Sum>b \<in> B. pledged (u # us) b) = (\<Sum>b \<in> B. if b = c then n else 0) + (\<Sum>b \<in> B. pledged us b)"
    unfolding sum.distrib [symmetric] by (rule sum.cong) (auto simp: u)
  with Cons u show ?case by (simp add: sum.delta)
qed simp

lemma sum_blocks:
  assumes "distinct (map fst (blocks_of e))" "fst ` set (blocks_of e) \<subseteq> B" "finite B"
  shows "sum_list (map snd (blocks_of e)) = (\<Sum>b \<in> B. block_size e b)"
proof -
  have "sum_list (map snd xs) = (\<Sum>b \<in> B. case map_of xs b of None \<Rightarrow> 0 | Some n \<Rightarrow> n)"
    if "distinct (map fst xs)" "fst ` set xs \<subseteq> B" for xs :: "(string \<times> int) list"
    using that
  proof (induction xs)
    case (Cons x xs)
    obtain c n where x: "x = (c, n)" by fastforce
    from Cons(2) x have "map_of xs c = None" by (simp add: map_of_eq_None_iff)
    then have "(\<Sum>b \<in> B. case map_of (x # xs) b of None \<Rightarrow> 0 | Some n \<Rightarrow> n) =
        (\<Sum>b \<in> B. if b = c then n else 0) + (\<Sum>b \<in> B. case map_of xs b of None \<Rightarrow> 0 | Some n \<Rightarrow> n)"
      unfolding sum.distrib [symmetric] by (intro sum.cong) (auto simp: x)
    with Cons x assms(3) show ?case by (simp add: sum.delta)
  qed simp
  from this [OF assms(1,2)] show ?thesis by (simp add: block_size_def)
qed

definition sizes_ok :: "Entry \<Rightarrow> bool" where
  "sizes_ok e \<longleftrightarrow> 0 \<le> Size e \<and> distinct (map fst (blocks_of e)) \<and> (\<forall>(b, n) \<in> set (blocks_of e). 0 \<le> n)"

definition uploads_nonneg :: "('a \<times> int) list \<Rightarrow> bool" where
  "uploads_nonneg us \<longleftrightarrow> (\<forall>(b, n) \<in> set us. 0 \<le> n)"

lemma block_nonneg: "sizes_ok e \<Longrightarrow> 0 \<le> block_size e b"
  by (simp add: sizes_ok_def block_size_nonneg)

lemma peak_nonneg: "sizes_ok e \<Longrightarrow> 0 \<le> peak us (block_size e b) b"
  using block_nonneg [of e b] peak_base [of "block_size e b" us b] by linarith

lemma staged_sum:
  "sizes_ok e \<Longrightarrow> \<not> Uploaded e \<Longrightarrow> names us e \<subseteq> B \<Longrightarrow> finite B \<Longrightarrow> stagedSize e = (\<Sum>b \<in> B. block_size e b)"
  by (simp add: stagedSize_def sizes_ok_def names_def sum_blocks)

lemma staged_le_worst: "sizes_ok e \<Longrightarrow> stagedSize e \<le> worst us e"
proof (cases "Uploaded e")
  case False
  assume "sizes_ok e"
  with False staged_sum [of e us "names us e"] show ?thesis by (simp add: worst_def sum_mono peak_base)
qed (simp add: worst_def stagedSize_def)

lemma staged_nonneg: "sizes_ok e \<Longrightarrow> 0 \<le> stagedSize e"
  by (force simp: sizes_ok_def stagedSize_def intro!: sum_list_nonneg)

lemma worst_nonneg: "sizes_ok e \<Longrightarrow> 0 \<le> worst us e"
  using staged_nonneg [of e] staged_le_worst [of e us] by linarith

lemma pledged_sum_nonneg: "uploads_nonneg us \<Longrightarrow> 0 \<le> sum_list (map snd us)"
  by (force simp: uploads_nonneg_def intro!: sum_list_nonneg)

lemma worst_le_counted:
  assumes "sizes_ok e" "uploads_nonneg us"
  shows "worst us e \<le> stagedSize e + sum_list (map snd us)"
proof (cases "Uploaded e")
  case True
  then show ?thesis using pledged_sum_nonneg [OF assms(2)] by (simp add: worst_def stagedSize_def)
next
  case False
  have "worst us e \<le> (\<Sum>b \<in> names us e. block_size e b + pledged us b)"
    using False assms by (auto simp: worst_def uploads_nonneg_def intro!: sum_mono peak_pledged block_nonneg)
  also have "\<dots> = stagedSize e + sum_list (map snd us)"
    using staged_sum [OF assms(1) False order_refl] sum_pledged [of us "names us e"] by (simp add: sum.distrib names_def)
  finally show ?thesis .
qed

lemma worst_mono:
  assumes "sizes_ok e" "\<not> Uploaded e" "\<not> Uploaded e'" "finite B" "names us e \<subseteq> B" "names vs e' \<subseteq> B"
    "\<And>b. b \<in> B \<Longrightarrow> peak vs (block_size e' b) b \<le> peak us (block_size e b) b"
  shows "worst vs e' \<le> worst us e"
  using assms by (simp add: worst_def sum_names [of _ _ B] sum_mono)

lemma worst_fewer: "sizes_ok e \<Longrightarrow> set vs \<subseteq> set us \<Longrightarrow> worst vs e \<le> worst us e"
proof (cases "Uploaded e")
  case False
  assume "sizes_ok e" "set vs \<subseteq> set us"
  then show ?thesis using False
    by (intro worst_mono [where B = "names us e"]) (auto simp: names_def intro: peak_mono peak_base)
qed (simp add: worst_def)

lemma worst_start:
  assumes ok: "sizes_ok e" "uploads_nonneg us" "\<not> Uploaded e" "0 \<le> n"
  shows "worst ((b, n) # us) e \<le> max (worst us e) (stagedSize e + sum_list (map snd us) + n - block_size e b)"
proof -
  let ?B = "names ((b, n) # us) e"
  let ?p = "\<lambda>us c. peak us (block_size e c) c"
  have sub: "names us e \<subseteq> ?B" and here: "b \<in> ?B" by (auto simp: names_def)
  have split_b: "(\<Sum>c \<in> ?B. f c) = f b + (\<Sum>c \<in> ?B - {b}. f c)" for f :: "string \<Rightarrow> int"
    using here by (simp add: sum.remove)
  have other: "(\<Sum>c \<in> ?B - {b}. ?p ((b, n) # us) c) = (\<Sum>c \<in> ?B - {b}. ?p us c)" by (rule sum.cong) auto
  have new: "worst ((b, n) # us) e = max n (?p us b) + (\<Sum>c \<in> ?B - {b}. ?p us c)"
    using ok(3) unfolding worst_def split_b other by simp
  have old: "worst us e = ?p us b + (\<Sum>c \<in> ?B - {b}. ?p us c)"
    using ok(3) by (simp add: worst_def sum_names [OF sub] split_b)
  have "(\<Sum>c \<in> ?B - {b}. ?p us c) \<le> (\<Sum>c \<in> ?B - {b}. block_size e c + pledged us c)"
    using ok by (intro sum_mono peak_pledged) (auto simp: uploads_nonneg_def block_nonneg)
  moreover have "stagedSize e + sum_list (map snd us) = (\<Sum>c \<in> ?B. block_size e c + pledged us c)"
    using staged_sum [OF ok(1,3) sub] sum_pledged [of us ?B] sub by (simp add: sum.distrib names_def)
  moreover have "0 \<le> pledged us b" using ok(2) by (intro pledged_nonneg) (simp add: uploads_nonneg_def)
  ultimately show ?thesis using new old by (simp add: split_b max_def)
qed

lemma blocks_set_block [simp]:
  "blocks_of (set_block b n e) = AList.update b n (blocks_of e)" "Uploaded (set_block b n e) = Uploaded e"
  "ID (set_block b n e) = ID e" "Finalized (set_block b n e) = Finalized e" "Size (set_block b n e) = Size e"
  "Tenant (set_block b n e) = Tenant e"
  by (simp_all add: set_block_def blocks_of_def)

lemma block_size_set_block: "block_size (set_block b n e) c = (if c = b then n else block_size e c)"
  by (simp add: block_size_def AList.update_conv)

lemma worst_set_block:
  assumes "sizes_ok e" "\<not> Uploaded e" "(b, n) \<in> set us"
  shows "worst us (set_block b n e) \<le> worst us e"
  using assms
  by (intro worst_mono [where B = "names us e"])
    (force simp: names_def dom_update block_size_set_block intro: peak_mono peak_base peak_mem)+

lemma worst_whole:
  assumes "sizes_ok e" "\<not> Uploaded e" "(b, n) \<in> set us"
  shows "n \<le> worst us e"
proof -
  have "b \<in> names us e" using assms(3) by (force simp: names_def)
  then have "peak us (block_size e b) b \<le> worst us e"
    using assms(1,2) by (simp add: worst_def) (rule member_le_sum, auto simp: peak_nonneg)
  with peak_mem [OF assms(3)] show ?thesis by (meson order_trans)
qed

lemma set_update: "p \<in> set (AList.update k v xs) \<Longrightarrow> p = (k, v) \<or> p \<in> set xs"
  by (induction xs) (auto split: if_splits)

lemma sizes_set_block: "sizes_ok e \<Longrightarrow> 0 \<le> n \<Longrightarrow> sizes_ok (set_block b n e)"
  by (auto simp: sizes_ok_def distinct_update dest!: set_update)

end
