(* ===== verification/CacheQuota.thy ===== *)
theory CacheQuota
  imports CacheRoom
begin

text \<open>
  The cache service under concurrent requests, \<^verbatim>\<open>src/internal/cache/store.go\<close>: the locked parts of the operations as steps of
  a state machine, in which uploads and commits of many clients interleave and calls of the operating system fail. Beside the
  state of the store, the machine records the uploads that are between their two locked parts, and the commits that are under way.
  It has two parameters: \<open>may_fail\<close> holds of the failures of file calls that a step may meet, and \<open>block_names\<close> are the names of blocks that clients use.

  Every reachable state keeps the invariant the quotas rest on, \<open>quota_inv\<close>. While a block is replaced, its old and its new bytes are counted
  both, so the counters of the code may exceed a limit; what does not is the \<open>worst\<close> outcome, in which each block ends with the
  largest of its sizes.
\<close>

section \<open>The machine\<close>

text \<open>
  A commit copies the blocks that are listed one after the other, publishes, and removes the blocks; it may break off at any
  point.
\<close>

datatype commit_phase = Copying string "string list" | Published "string list"

record Service =
  st :: Store
  uploads :: "(int \<times> string \<times> int) list"
  commits :: "(Entry \<times> commit_phase) list"

definition begun :: "(cache_error + Entry \<times> string list) \<Rightarrow> (Entry \<times> commit_phase) list \<Rightarrow> (Entry \<times> commit_phase) list" where
  "begun r cs = (case r of Inl err \<Rightarrow> cs | Inr (e, blocks) \<Rightarrow> if Uploaded e then cs else (e, Copying [] blocks) # cs)"

definition start_upload :: "int \<times> string \<times> int \<Rightarrow> cache_error + stage_start \<Rightarrow> (int \<times> string \<times> int) list \<Rightarrow>
    (int \<times> string \<times> int) list" where
  "start_upload u r us = (if r = Inr Receive then u # us else us)"

inductive cache_step :: "(string \<Rightarrow> string) \<Rightarrow> (faults \<Rightarrow> bool) \<Rightarrow> string set \<Rightarrow> Service \<Rightarrow> Service \<Rightarrow> bool"
    for sha256 :: "string \<Rightarrow> string" and may_fail :: "faults \<Rightarrow> bool" and block_names :: "string set" where
  create: "may_fail io \<Longrightarrow> CreateEntry io now random tenant ref owner key version (st y) = (s, r) \<Longrightarrow> cache_step sha256 may_fail block_names y (y\<lparr>st := s\<rparr>)"
| stage: "may_fail io \<Longrightarrow> block \<in> block_names \<Longrightarrow> stage_begin io tenant i block n (st y) = (s, r) \<Longrightarrow>
    cache_step sha256 may_fail block_names y (y\<lparr>st := s, uploads := start_upload (i, block, n) r (uploads y)\<rparr>)"
| staged: "may_fail io \<Longrightarrow> (i, block, n) \<in> set (uploads y) \<Longrightarrow> stage_finish io sha256 i block n (receive io i body n) (st y) = (s, r) \<Longrightarrow>
    cache_step sha256 may_fail block_names y (y\<lparr>st := s, uploads := remove1 (i, block, n) (uploads y)\<rparr>)"
| begin_commit: "beginCommitLocked tenant i blocks (st y) = (s, r) \<Longrightarrow>
    cache_step sha256 may_fail block_names y (y\<lparr>st := s, commits := begun (map_sum (\<lambda>err. err) (\<lambda>e. (e, blocks)) r) (commits y)\<rparr>)"
| begin_ranges: "beginRangeCommitLocked tenant i n (st y) = (s, r) \<Longrightarrow>
    cache_step sha256 may_fail block_names y (y\<lparr>st := s, commits := begun r (commits y)\<rparr>)"
| copy: "may_fail io \<Longrightarrow> commits y = cs @ (e, Copying data (block # blocks)) # ds \<Longrightarrow> copy_block io sha256 (ID e) block (st y) = Inr piece \<Longrightarrow>
    cache_step sha256 may_fail block_names y (y\<lparr>commits := cs @ (e, Copying (data @ piece) blocks) # ds\<rparr>)"
| publish: "may_fail io \<Longrightarrow> commits y = cs @ (e, Copying data []) # ds \<Longrightarrow> publishCommit io e data (st y) = (s, r) \<Longrightarrow>
    cache_step sha256 may_fail block_names y (y\<lparr>st := s, commits := cs @ (e, Published (if r = Inr () then map fst (blocks_of e) else [])) # ds\<rparr>)"
| remove: "commits y = cs @ (e, Published (block # blocks)) # ds \<Longrightarrow>
    cache_step sha256 may_fail block_names y (y\<lparr>st := remove_block sha256 (ID e) block (st y), commits := cs @ (e, Published blocks) # ds\<rparr>)"
| finish: "commits y = cs @ (e, phase) # ds \<Longrightarrow>
    cache_step sha256 may_fail block_names y (y\<lparr>st := finishCommit (ID e) (st y), commits := cs @ ds\<rparr>)"
| finalize: "may_fail io \<Longrightarrow> Finalize io now tenant ref owner key version n (st y) = (s, r) \<Longrightarrow> cache_step sha256 may_fail block_names y (y\<lparr>st := s\<rparr>)"
| lookup: "may_fail io \<Longrightarrow> Lookup io now tenant refs key version restore (st y) = (s, r) \<Longrightarrow> cache_step sha256 may_fail block_names y (y\<lparr>st := s\<rparr>)"
| list: "may_fail io \<Longrightarrow> ListEntries io now tenant refs p (st y) = (s, r) \<Longrightarrow> cache_step sha256 may_fail block_names y (y\<lparr>st := s\<rparr>)"
| openEntry: "may_fail io \<Longrightarrow> OpenEntry io now tenant i (st y) = (s, r) \<Longrightarrow> cache_step sha256 may_fail block_names y (y\<lparr>st := s\<rparr>)"
| cleanup: "may_fail io \<Longrightarrow> cleanupLocked io now (st y) = (s, r) \<Longrightarrow> cache_step sha256 may_fail block_names y (y\<lparr>st := s\<rparr>)"

definition fresh_service :: "Limits \<Rightarrow> Service" where
  "fresh_service l = \<lparr>st = empty_store l, uploads = [], commits = []\<rparr>"

inductive cache_reachable :: "(string \<Rightarrow> string) \<Rightarrow> (faults \<Rightarrow> bool) \<Rightarrow> string set \<Rightarrow> Limits \<Rightarrow> Service \<Rightarrow> bool"
    for sha256 :: "string \<Rightarrow> string" and may_fail :: "faults \<Rightarrow> bool" and block_names :: "string set" and l :: Limits where
  start: "ValidateLimits l \<Longrightarrow> cache_reachable sha256 may_fail block_names l (fresh_service l)"
| step: "cache_reachable sha256 may_fail block_names l y \<Longrightarrow> cache_step sha256 may_fail block_names y z \<Longrightarrow> cache_reachable sha256 may_fail block_names l z"

section \<open>The invariant\<close>

definition entry_ok :: "int \<Rightarrow> Entry \<Rightarrow> bool" where
  "entry_ok i e \<longleftrightarrow> ID e = i \<and> (Finalized e \<longrightarrow> Uploaded e) \<and> (\<not> Uploaded e \<longrightarrow> Size e = 0) \<and> sizes_ok e"

definition entries_ok :: "Store \<Rightarrow> bool" where
  "entries_ok s \<longleftrightarrow> distinct (map fst (entries s)) \<and> (\<forall>(i, e) \<in> set (entries s). entry_ok i e)"

text \<open>The counters of the code count the uploads under way.\<close>

definition uploads_ok :: "(int \<times> string \<times> int) list \<Rightarrow> Store \<Rightarrow> bool" where
  "uploads_ok us s \<longleftrightarrow>
     (\<forall>i. active s i = int (length (uploads_of us i)) \<and> reserved s i = sum_list (map snd (uploads_of us i)))
     \<and> (\<forall>(i, b, n) \<in> set us. 0 \<le> n \<and> i \<in> fst ` set (entries s))"

text \<open>Nobody changes an entry while its blocks are copied: the copy a commit works on is still the entry.\<close>

definition snapshot_of :: "Store \<Rightarrow> Entry \<Rightarrow> bool" where
  "snapshot_of s e \<longleftrightarrow> (\<exists>e0. map_of (entries s) (ID e) = Some e0 \<and> \<not> Uploaded e0 \<and> \<not> Finalized e \<and> Tenant e = Tenant e0
     \<and> Blocks e = Blocks e0 \<and> 0 \<le> Size e \<and> Size e \<le> stagedSize e0)"

fun commit_ok :: "(int \<times> string \<times> int) list \<Rightarrow> Store \<Rightarrow> Entry \<times> commit_phase \<Rightarrow> bool" where
  "commit_ok us s (e, Copying _ _) \<longleftrightarrow> uploads_of us (ID e) = [] \<and> ID e \<in> fst ` set (entries s) \<and> snapshot_of s e"
| "commit_ok us s (e, Published _) \<longleftrightarrow> uploads_of us (ID e) = [] \<and> ID e \<in> fst ` set (entries s)"

definition commits_ok :: "(int \<times> string \<times> int) list \<Rightarrow> (Entry \<times> commit_phase) list \<Rightarrow> Store \<Rightarrow> bool" where
  "commits_ok us cs s \<longleftrightarrow>
     distinct (map (ID \<circ> fst) cs) \<and> (\<forall>i. committing s i \<longleftrightarrow> i \<in> (ID \<circ> fst) ` set cs) \<and> (\<forall>c \<in> set cs. commit_ok us s c)"

definition outcome :: "(int \<times> string \<times> int) list \<Rightarrow> int \<times> Entry \<Rightarrow> int" where
  "outcome us p = worst (uploads_of us (fst p)) (snd p)"

definition load :: "(int \<times> string \<times> int) list \<Rightarrow> (Tenant \<Rightarrow> bool) \<Rightarrow> Store \<Rightarrow> int" where
  "load us F s = sum_list (map (\<lambda>p. if F (Tenant (snd p)) then outcome us p else 0) (entries s))"

definition within :: "Limits \<Rightarrow> (int \<times> string \<times> int) list \<Rightarrow> Store \<Rightarrow> bool" where
  "within l us s \<longleftrightarrow> load us (\<lambda>_. True) s \<le> MaxTotalBytes l \<and> (\<forall>t. load us ((=) t) s \<le> MaxRepositoryBytes l)
     \<and> (\<forall>p \<in> set (entries s). outcome us p \<le> MaxEntryBytes l)"

definition quota_inv :: "Limits \<Rightarrow> (int \<times> string \<times> int) list \<Rightarrow> (Entry \<times> commit_phase) list \<Rightarrow> Store \<Rightarrow> bool" where
  "quota_inv l us cs s \<longleftrightarrow> limits s = l \<and> ValidateLimits l \<and> entries_ok s \<and> uploads_ok us s \<and> commits_ok us cs s \<and> within l us s"

section \<open>Changes of the entries\<close>

lemma entry_okD: "entries_ok s \<Longrightarrow> map_of (entries s) i = Some e \<Longrightarrow> entry_ok i e"
  by (auto simp: entries_ok_def dest: map_of_SomeD)

lemma outcome_nonneg: "entries_ok s \<Longrightarrow> p \<in> set (entries s) \<Longrightarrow> 0 \<le> outcome us p"
  by (auto simp: entries_ok_def entry_ok_def outcome_def worst_nonneg)

lemma uploads_dom: "uploads_ok us s \<Longrightarrow> u \<in> set us \<Longrightarrow> fst u \<in> fst ` set (entries s)"
  by (cases u) (auto simp: uploads_ok_def)

lemma uploads_of_nonneg: "uploads_ok us s \<Longrightarrow> uploads_nonneg (uploads_of us i)"
  by (fastforce simp: uploads_ok_def uploads_nonneg_def uploads_of_def)

lemma sum_filter_le:
  "(\<And>x. x \<in> set xs \<Longrightarrow> 0 \<le> f x) \<Longrightarrow> sum_list (map f (filter P xs)) \<le> (sum_list (map f xs) :: int)"
  by (induction xs) (auto simp: add_increasing)

lemma load_filter:
  assumes "entries_ok s" "entries t = filter P (entries s)"
  shows "load us F t \<le> load us F s"
  unfolding load_def assms(2) by (rule sum_filter_le) (use outcome_nonneg [OF assms(1)] in auto)

lemma sum_update_le:
  fixes f :: "'a \<times> 'b \<Rightarrow> int"
  assumes "distinct (map fst xs)" "map_of xs k = Some v" "f (k, v') \<le> f (k, v)"
  shows "sum_list (map f (AList.update k v' xs)) \<le> sum_list (map f xs)"
  using assms by (induction xs) (auto split: if_splits)

lemma load_update:
  assumes "entries_ok s" "map_of (entries s) i = Some e" "Tenant e' = Tenant e" "outcome us (i, e') \<le> outcome us (i, e)"
  shows "load us F (s\<lparr>entries := AList.update i e' (entries s)\<rparr>) \<le> load us F s"
  using assms by (auto simp: load_def entries_ok_def intro!: sum_update_le [where v = e])

lemma outcome_fewer:
  assumes "entries_ok s" "set vs \<subseteq> set us" "p \<in> set (entries s)"
  shows "outcome vs p \<le> outcome us p"
proof -
  have "sizes_ok (snd p)" using assms(1,3) by (auto simp: entries_ok_def entry_ok_def)
  moreover have "set (uploads_of vs (fst p)) \<subseteq> set (uploads_of us (fst p))" using assms(2) by (auto simp: uploads_of_def)
  ultimately show ?thesis unfolding outcome_def by (rule worst_fewer)
qed

lemma load_fewer: "entries_ok s \<Longrightarrow> set vs \<subseteq> set us \<Longrightarrow> load vs F s \<le> load us F s"
  unfolding load_def by (rule sum_list_mono) (simp add: outcome_fewer)

lemma within_fewer:
  assumes "entries_ok s" "set vs \<subseteq> set us" "within l us s"
  shows "within l vs s"
  using assms(3) load_fewer [OF assms(1,2)] outcome_fewer [OF assms(1,2)] unfolding within_def by (meson order_trans)

lemma within_update:
  assumes "entries_ok s" "within l us s" "map_of (entries s) i = Some e" "Tenant e' = Tenant e"
    "outcome us (i, e') \<le> outcome us (i, e)"
  shows "within l us (s\<lparr>entries := AList.update i e' (entries s)\<rparr>)"
proof -
  have "(i, e) \<in> set (entries s)" using assms(3) by (rule map_of_SomeD)
  with assms(2,5) have "outcome us (i, e') \<le> MaxEntryBytes l" by (fastforce simp: within_def)
  with assms(2) load_update [OF assms(1,3,4,5)] show ?thesis
    unfolding within_def by (force dest!: set_update intro: order_trans)
qed

lemma commit_ok_transfer:
  assumes "commit_ok us s c" "ID (fst c) \<in> fst ` set (entries t)"
    "\<And>data bs. snd c = Copying data bs \<Longrightarrow> map_of (entries t) (ID (fst c)) = map_of (entries s) (ID (fst c))"
  shows "commit_ok us t c"
  using assms by (induction us s c rule: commit_ok.induct) (simp_all add: snapshot_of_def)

lemma commit_ok_dom: "commit_ok us s c \<Longrightarrow> ID (fst c) \<in> fst ` set (entries s)"
  by (induction us s c rule: commit_ok.induct) simp_all

lemma commit_ok_uploads: "commit_ok us s c \<Longrightarrow> uploads_of us (ID (fst c)) = []"
  by (induction us s c rule: commit_ok.induct) simp_all

text \<open>A change of an entry on which no commit is working, or whose commit has published, keeps the invariant when its worst outcome does not grow.\<close>

lemma quota_update:
  assumes inv: "quota_inv l us cs s" and e: "map_of (entries s) i = Some e" "Tenant e' = Tenant e"
    "outcome us (i, e') \<le> outcome us (i, e)" "entry_ok i e'"
    and free: "\<And>c data bs. (c, Copying data bs) \<in> set cs \<Longrightarrow> ID c \<noteq> i"
  shows "quota_inv l us cs (s\<lparr>entries := AList.update i e' (entries s)\<rparr>)"
proof -
  let ?s = "s\<lparr>entries := AList.update i e' (entries s)\<rparr>"
  from inv have ok: "entries_ok s" "within l us s" "uploads_ok us s" "commits_ok us cs s" by (simp_all add: quota_inv_def)
  have dom: "fst ` set (entries ?s) = fst ` set (entries s)"
    using map_of_SomeD [OF e(1)] by (force simp: dom_update)
  have "entries_ok ?s" using ok(1) e(4) by (auto simp: entries_ok_def distinct_update dest!: set_update)
  moreover have "uploads_ok us ?s" using ok(3) dom by (simp add: uploads_ok_def)
  moreover have "commit_ok us ?s c" if c: "c \<in> set cs" for c
  proof (rule commit_ok_transfer)
    show "commit_ok us s c" using ok(4) c by (simp add: commits_ok_def)
    then show "ID (fst c) \<in> fst ` set (entries ?s)" using dom commit_ok_dom by simp
    show "map_of (entries ?s) (ID (fst c)) = map_of (entries s) (ID (fst c))" if "snd c = Copying data bs" for data bs
    proof -
      have "(fst c, Copying data bs) \<in> set cs" using c that by (metis prod.collapse)
      from free [OF this] show ?thesis by (simp add: AList.update_conv)
    qed
  qed
  then have "commits_ok us cs ?s" using ok(4) by (simp add: commits_ok_def)
  ultimately show ?thesis using inv within_update [OF ok(1,2) e(1-3)] by (simp add: quota_inv_def)
qed

lemma quota_disk: "quota_inv l us cs s \<Longrightarrow> quota_inv l us cs (s\<lparr>disk := d\<rparr>)"
proof -
  have "commit_ok us (s\<lparr>disk := d\<rparr>) c" if "commit_ok us s c" for c
    using that by (rule commit_ok_transfer) (simp_all add: commit_ok_dom [OF that])
  then show "quota_inv l us cs s \<Longrightarrow> ?thesis"
    by (simp add: quota_inv_def entries_ok_def uploads_ok_def commits_ok_def within_def load_def)
qed

lemma quota_forget:
  assumes inv: "quota_inv l us cs s" and "idle s i"
  shows "quota_inv l us cs (forget i s)"
proof -
  from inv have ok: "entries_ok s" "within l us s" "uploads_ok us s" "commits_ok us cs s" by (simp_all add: quota_inv_def)
  have none: "uploads_of us i = []" "i \<notin> (ID \<circ> fst) ` set cs"
    using assms ok by (auto simp: idle_def uploads_ok_def commits_ok_def)
  have es: "entries (forget i s) = filter (\<lambda>(j, _). j \<noteq> i) (entries s)" by (simp add: forget_def delete_filter)
  have upl: "\<forall>u \<in> set us. fst u \<noteq> i" using none(1) by (auto simp: uploads_of_def filter_empty_conv)
  have "entries_ok (forget i s)" using ok(1) by (auto simp: entries_ok_def es distinct_map inj_on_def)
  moreover have "uploads_ok us (forget i s)"
    unfolding uploads_ok_def es
    supply counts = ok(3) [unfolded uploads_ok_def, THEN conjunct1, rule_format]
  proof (intro conjI allI ballI)
    show "active (forget i s) j = int (length (uploads_of us j))" "reserved (forget i s) j = sum_list (map snd (uploads_of us j))" for j
      by (simp_all add: forget_def counts none(1))
    show "case u of (j, b, n) \<Rightarrow> 0 \<le> n \<and> j \<in> fst ` set (filter (\<lambda>(j, _). j \<noteq> i) (entries s))" if u: "u \<in> set us" for u
    proof -
      obtain j b n where jbn: "u = (j, b, n)" by (metis prod_cases3)
      with ok(3) u have "0 \<le> n" "j \<in> fst ` set (entries s)" by (auto simp: uploads_ok_def)
      moreover have "j \<noteq> i" using upl u jbn by auto
      ultimately show ?thesis unfolding jbn by force
    qed
  qed
  moreover have "commit_ok us (forget i s) c" if c: "c \<in> set cs" for c
  proof (rule commit_ok_transfer)
    show c': "commit_ok us s c" using ok(4) c by (simp add: commits_ok_def)
    have ne: "ID (fst c) \<noteq> i" using none(2) c by force
    then show "ID (fst c) \<in> fst ` set (entries (forget i s))" using commit_ok_dom [OF c'] by (force simp: es)
    show "map_of (entries (forget i s)) (ID (fst c)) = map_of (entries s) (ID (fst c))"
      using ne by (simp add: forget_def AList.delete_conv)
  qed
  then have "commits_ok us cs (forget i s)" using ok(4) none(2) by (auto simp: commits_ok_def forget_def)
  moreover have "within l us (forget i s)"
    using ok(2) load_filter [OF ok(1) es] unfolding within_def es by (auto intro: order_trans)
  ultimately show ?thesis using inv by (simp add: quota_inv_def forget_def)
qed

lemma quota_keyed: "quota_inv l us cs s \<Longrightarrow> (i, e) \<in> set (entries s) \<Longrightarrow> ID e = i"
  by (auto simp: quota_inv_def entries_ok_def entry_ok_def)

interpretation quota: disk_blind "quota_inv l us cs" for l us cs
  by unfold_locales (fact quota_disk quota_forget quota_keyed)+

section \<open>What making room achieves\<close>

lemma free_repository_victims: "set (victims (free_repository m tenant inc es r)) \<subseteq> set (victims r) \<union> ID ` set es"
  by (induction m tenant inc es r rule: free_repository.induct) (auto simp: selectEntry_def)

lemma free_total_victims: "set (victims (free_total m tenant inc es r)) \<subseteq> set (victims r) \<union> ID ` set es"
  by (induction m tenant inc es r rule: free_total.induct) (auto simp: selectEntry_def)

lemma candidates_evictable:
  assumes "quota_inv l us cs s"
  shows "\<forall>e \<in> set (eviction_candidates exc s). evictable s e \<and> ID e \<noteq> exc" "distinct (map ID (eviction_candidates exc s))"
proof -
  from assms have ok: "entries_ok s" "uploads_ok us s" by (simp_all add: quota_inv_def)
  have "evictable s e \<and> ID e \<noteq> exc" if "(i, e) \<in> set (entries s)" "Finalized e" "i \<noteq> exc" "idle s i" for i e
  proof -
    have e: "entry_ok i e" using ok(1) that(1) by (auto simp: entries_ok_def)
    have "uploads_of us i = []" using ok(2) that(4) by (simp add: uploads_ok_def idle_def)
    then have "reserved s i = 0" using ok(2) by (simp add: uploads_ok_def)
    with e that show ?thesis by (simp add: evictable_def entry_ok_def counted_def stagedSize_def sizes_ok_def)
  qed
  then show "\<forall>e \<in> set (eviction_candidates exc s). evictable s e \<and> ID e \<noteq> exc"
    by (auto simp: eviction_candidates_def)
  have "map ID (map snd (filter P xs)) = map fst (filter P xs)" if "\<forall>(i, e) \<in> set xs. ID e = i" for P and xs :: "(int \<times> Entry) list"
    using that by (induction xs) auto
  then have "map ID (map snd (filter P (entries s))) = map fst (filter P (entries s))" for P
    using quota_keyed [OF assms] by blast
  moreover have "distinct (map fst (filter P (entries s)))" for P
    using ok(1) by (simp add: entries_ok_def distinct_map_filter)
  ultimately have "distinct (map ID (map snd (filter P (entries s))))" for P by metis
  moreover have "distinct (map ID (sort_key AccessedAt es))" if "distinct (map ID es)" for es
    using that by (simp add: distinct_map)
  ultimately show "distinct (map ID (eviction_candidates exc s))" unfolding eviction_candidates_def by blast
qed

definition room_found :: "Tenant \<Rightarrow> int \<Rightarrow> int \<Rightarrow> Store \<Rightarrow> Room" where
  "room_found tenant inc exc s =
     free_total (MaxTotalBytes (limits s)) tenant inc (eviction_candidates exc s)
       (free_repository (MaxRepositoryBytes (limits s)) tenant inc (eviction_candidates exc s)
          \<lparr>room_total = total_bytes s, room_repository = repository_bytes tenant s, victims = []\<rparr>)"

lemma room_found_ok:
  assumes "quota_inv l us cs s"
  shows "room_ok tenant s (room_found tenant inc exc s)" "exc \<notin> set (victims (room_found tenant inc exc s))"
    "room_repository (room_found tenant inc exc s) \<le>
       room_repository (free_repository (MaxRepositoryBytes (limits s)) tenant inc (eviction_candidates exc s)
          \<lparr>room_total = total_bytes s, room_repository = repository_bytes tenant s, victims = []\<rparr>)"
proof -
  let ?es = "eviction_candidates exc s"
  let ?init = "\<lparr>room_total = total_bytes s, room_repository = repository_bytes tenant s, victims = []\<rparr>"
  let ?r = "free_repository (MaxRepositoryBytes (limits s)) tenant inc ?es ?init"
  have d: "distinct (map fst (entries s))" using assms by (simp add: quota_inv_def entries_ok_def)
  have ev: "\<forall>e \<in> set ?es. evictable s e" using candidates_evictable [OF assms] by blast
  have "room_ok tenant s ?init"
    by (simp add: room_ok_def room_exact_def left_over_def total_bytes_def repository_counts)
  then have r: "room_ok tenant s ?r"
    by (rule free_repository_ok [OF _ d ev]) (simp_all add: candidates_evictable [OF assms])
  from free_total_ok [OF r d ev]
  show "room_ok tenant s (room_found tenant inc exc s)" "room_repository (room_found tenant inc exc s) \<le> room_repository ?r"
    by (simp_all add: room_found_def)
  show "exc \<notin> set (victims (room_found tenant inc exc s))"
    using free_total_victims [of _ tenant inc ?es ?r] free_repository_victims [of _ tenant inc ?es ?init]
      candidates_evictable(1) [OF assms, of exc] by (fastforce simp: room_found_def)
qed

lemma make_room_keeps:
  assumes "quota_inv l us cs s"
  shows "quota_inv l us cs (fst (makeRoomLocked io tenant inc exc s))"
proof -
  have "quota_inv l us cs (fst (remove_all io (victims (room_found tenant inc exc s)) s))"
    using quota.remove_all_keeps [OF assms] room_found_ok(1) [OF assms] by (simp add: room_ok_def)
  with assms show ?thesis by (simp add: makeRoomLocked_def Let_def room_found_def [symmetric])
qed

lemma make_room_result:
  assumes inv: "quota_inv l us cs s" and run: "makeRoomLocked io tenant inc exc s = (s', Inr ())"
  shows "total_bytes s' + inc \<le> MaxTotalBytes l" "repository_bytes tenant s' + inc \<le> MaxRepositoryBytes l"
    "map_of (entries s') exc = map_of (entries s) exc" "quota_inv l us cs s'"
proof -
  let ?r = "room_found tenant inc exc s"
  from inv have l: "limits s = l" by (simp add: quota_inv_def)
  from run have lim: "room_total ?r + inc \<le> MaxTotalBytes (limits s)" "room_repository ?r + inc \<le> MaxRepositoryBytes (limits s)"
    and rem: "remove_all io (victims ?r) s = (s', Inr ())"
    using room_found_ok(3) [OF inv, of tenant inc exc]
    by (auto simp: makeRoomLocked_def Let_def room_found_def [symmetric] split: if_splits)
  from remove_all_entries [OF rem] have es: "entries s' = left_over (victims ?r) (entries s)"
    and res: "\<And>i. i \<notin> set (victims ?r) \<Longrightarrow> reserved s' i = reserved s i" by auto
  have same: "counted s' p = counted s p" "counts_for tenant s' p = counts_for tenant s p" if "p \<in> set (entries s')" for p
    using that by (auto simp: es left_over_def counted_def counts_for_def res case_prod_unfold)
  from room_found_ok(1) [OF inv, of tenant inc exc] have "room_exact tenant s ?r" by (simp add: room_ok_def)
  then have "total_bytes s' = room_total ?r" "repository_bytes tenant s' = room_repository ?r"
    unfolding room_exact_def total_bytes_def repository_counts es [symmetric]
    by (simp_all add: same cong: map_cong)
  with lim show "total_bytes s' + inc \<le> MaxTotalBytes l" "repository_bytes tenant s' + inc \<le> MaxRepositoryBytes l" by (simp_all add: l)
  have "map_of (filter (\<lambda>p. P (fst p)) xs) i = (if P i then map_of xs i else None)" for P and xs :: "(int \<times> Entry) list" and i
    by (induction xs) auto
  from this [of "\<lambda>i. i \<notin> set (victims ?r)" "entries s" exc] show "map_of (entries s') exc = map_of (entries s) exc"
    using room_found_ok(2) [OF inv] by (simp add: es left_over_def)
  show "quota_inv l us cs s'" using make_room_keeps [OF inv, of io tenant inc exc] run by simp
qed

section \<open>Every step keeps the invariant\<close>

lemma uploads_of_Cons [simp]: "uploads_of ((i, u) # us) j = (if i = j then u # uploads_of us j else uploads_of us j)"
  by (simp add: uploads_of_def)

lemma left_over_single: "distinct (map fst xs) \<Longrightarrow> (i, e) \<in> set xs \<Longrightarrow>
    sum_list (map f xs) = f (i, e) + (sum_list (map f (left_over [i] xs)) :: int)"
  using left_over_snoc [of xs i e "[]" f] by (simp add: left_over_def)

lemma outcome_other: "fst p \<noteq> i \<Longrightarrow> outcome ((i, u) # us) p = outcome us p"
  by (auto simp: outcome_def)

lemma outcome_counted: "entries_ok s \<Longrightarrow> uploads_ok us s \<Longrightarrow> p \<in> set (entries s) \<Longrightarrow> outcome us p \<le> counted s p"
  using worst_le_counted [OF _ uploads_of_nonneg, of "snd p" us s "fst p"]
  by (auto simp: entries_ok_def entry_ok_def outcome_def counted_def uploads_ok_def case_prod_unfold)

text \<open>A new upload grows the worst outcome of its entry, and so every load, at most to what the quota check has counted.\<close>

lemma outcome_start:
  assumes "entries_ok s" "uploads_ok us s" "(i, e) \<in> set (entries s)" "\<not> Uploaded e" "0 \<le> n"
  shows "outcome ((i, b, n) # us) (i, e) \<le> max (outcome us (i, e)) (counted s (i, e) + n - block_size e b)"
  using worst_start [OF _ uploads_of_nonneg [OF assms(2), of i] assms(4,5), of b] assms
  by (auto simp: outcome_def counted_def entries_ok_def entry_ok_def uploads_ok_def)

lemma load_start:
  assumes ok: "entries_ok s" "uploads_ok us s" "(i, e) \<in> set (entries s)" "\<not> Uploaded e" "0 \<le> n"
  shows "load ((i, b, n) # us) F s \<le> load us F s \<or>
    F (Tenant e) \<and> load ((i, b, n) # us) F s \<le>
      sum_list (map (\<lambda>p. if F (Tenant (snd p)) then counted s p else 0) (entries s)) + n - block_size e b"
proof -
  let ?us = "(i, b, n) # us"
  let ?h = "\<lambda>us p. if F (Tenant (snd p)) then outcome us p else 0"
  let ?k = "\<lambda>p. if F (Tenant (snd p)) then counted s p else 0"
  let ?rest = "left_over [i] (entries s)"
  have d: "distinct (map fst (entries s))" using ok(1) by (simp add: entries_ok_def)
  note cut = left_over_single [OF d ok(3)]
  have same: "sum_list (map (?h ?us) ?rest) = sum_list (map (?h us) ?rest)"
    by (intro arg_cong [where f = sum_list] map_cong) (auto simp: left_over_def outcome_other)
  have le: "sum_list (map (?h us) ?rest) \<le> sum_list (map ?k ?rest)"
    by (rule sum_list_mono) (use outcome_counted [OF ok(1,2)] in \<open>auto simp: left_over_def\<close>)
  show ?thesis
    using cut [of "?h ?us"] cut [of "?h us"] cut [of ?k] same le outcome_start [OF ok, of b]
    unfolding load_def by (auto simp: max_def split: if_splits)
qed

lemma quota_start:
  assumes inv: "quota_inv l us cs s" and e: "map_of (entries s) i = Some e" "\<not> Uploaded e" "0 \<le> n" "\<not> committing s i"
    and room: "total_bytes s + (n - block_size e b) \<le> MaxTotalBytes l"
      "repository_bytes (Tenant e) s + (n - block_size e b) \<le> MaxRepositoryBytes l"
      "stagedSize e + reserved s i + n - block_size e b \<le> MaxEntryBytes l"
  shows "quota_inv l ((i, b, n) # us) cs
    (s\<lparr>active := (active s)(i := active s i + 1), reserved := (reserved s)(i := reserved s i + n)\<rparr>)"
proof -
  let ?us = "(i, b, n) # us"
  let ?s = "s\<lparr>active := (active s)(i := active s i + 1), reserved := (reserved s)(i := reserved s i + n)\<rparr>"
  from inv have ok: "entries_ok s" "within l us s" "uploads_ok us s" "commits_ok us cs s" by (simp_all add: quota_inv_def)
  note here = map_of_SomeD [OF e(1)]
  note grow = load_start [OF ok(1,3) here e(2,3), of b]
  have "uploads_ok ?us ?s" using ok(3) here e(3) by (force simp: uploads_ok_def)
  moreover have "commit_ok ?us ?s c" if c: "c \<in> set cs" for c
  proof -
    have "ID (fst c) \<noteq> i" "commit_ok us s c" using ok(4) e(4) c by (auto simp: commits_ok_def)
    then show ?thesis by (induction us s c rule: commit_ok.induct) (auto simp: snapshot_of_def)
  qed
  then have "commits_ok ?us cs ?s" using ok(4) by (simp add: commits_ok_def)
  moreover have "within l ?us s"
    unfolding within_def
  proof (intro conjI allI ballI)
    show "load ?us (\<lambda>_. True) s \<le> MaxTotalBytes l"
      using grow [of "\<lambda>_. True"] ok(2) room(1) by (auto simp: within_def total_bytes_def)
    show "load ?us ((=) t) s \<le> MaxRepositoryBytes l" for t
    proof (cases "Tenant e = t")
      case True
      have "(\<lambda>p. if t = Tenant (snd p) then counted s p else 0) = counts_for t s" by (auto simp: counts_for_def fun_eq_iff)
      moreover have "load us ((=) t) s \<le> MaxRepositoryBytes l" using ok(2) by (simp add: within_def)
      ultimately show ?thesis using grow [of "(=) t"] room(2) True by (auto simp: repository_counts)
    next
      case False
      with grow [of "(=) t"] ok(2) show ?thesis by (auto simp: within_def intro: order_trans)
    qed
    show "outcome ?us p \<le> MaxEntryBytes l" if p: "p \<in> set (entries s)" for p
    proof (cases "fst p = i")
      case True
      then have "p = (i, e)" using p e(1) ok(1) by (cases p) (auto simp: entries_ok_def)
      with outcome_start [OF ok(1,3) here e(2,3), of b] ok(2) p room(3) show ?thesis
        by (auto simp: within_def counted_def max_def split: if_splits)
    next
      case False
      with ok(2) p show ?thesis by (simp add: within_def outcome_other)
    qed
  qed
  then have "within l ?us ?s" by (simp add: within_def load_def)
  ultimately show ?thesis using inv ok(1) by (simp add: quota_inv_def entries_ok_def)
qed

lemma save_disk: "\<exists>d. fst (saveEntry io e s) = s\<lparr>disk := d\<rparr>"
proof -
  have "\<exists>d. on_dir i f s = s\<lparr>disk := d\<rparr>" for i f
    by (cases "map_of (disk s) i") (auto simp: on_dir_def intro: exI [of _ "disk s"])
  moreover have "\<exists>d. s = s\<lparr>disk := d\<rparr>" by (rule exI [of _ "disk s"]) simp
  ultimately show ?thesis by (auto simp: saveEntry_def os_call_def split: option.split)
qed

lemma then_save:
  assumes "then_do (saveEntry io e s) k = (s', r)"
  obtains d where "s' = s\<lparr>disk := d\<rparr>" "isl r" | d where "k () (s\<lparr>disk := d\<rparr>) = (s', r)"
proof -
  from save_disk obtain d where d: "fst (saveEntry io e s) = s\<lparr>disk := d\<rparr>" by blast
  show thesis
    by (cases "saveEntry io e s"; cases "snd (saveEntry io e s)") (use d assms that in auto)
qed

lemma rename_disk: "\<exists>d. rename_into i name data s = s\<lparr>disk := d\<rparr>"
  by (cases "map_of (disk s) i") (auto simp: rename_into_def on_dir_def intro: exI [of _ "disk s"])

lemma quota_rename: "quota_inv l us cs s \<Longrightarrow> quota_inv l us cs (rename_into i name data s)"
  by (metis quota_disk rename_disk)

lemma not_copying_uploaded:
  assumes "quota_inv l us cs s" "map_of (entries s) i = Some e" "Uploaded e"
  shows "(c, Copying data bs) \<in> set cs \<Longrightarrow> ID c \<noteq> i"
  using assms by (force simp: quota_inv_def commits_ok_def snapshot_of_def)

lemma not_copying_uploading:
  assumes "quota_inv l us cs s" "(i, b, n) \<in> set us"
  shows "(c, Copying data bs) \<in> set cs \<Longrightarrow> ID c \<noteq> i"
  using assms by (force simp: quota_inv_def commits_ok_def uploads_of_def filter_empty_conv)

subsection \<open>Uploads\<close>

lemma stage_begin_keeps:
  assumes inv: "quota_inv l us cs s" and run: "stage_begin io tenant i b n s = (s', r)"
  shows "quota_inv l (start_upload (i, b, n) r us) cs s'"
proof (cases "r = Inr Receive")
  case True
  with run obtain e t where e: "getLocked tenant i s = Inr e" "\<not> committing s i" "\<not> Uploaded e" "0 \<le> n"
      "n \<le> MaxEntryBytes (limits s) - (stagedSize e + reserved s i - (if b \<noteq> [] then block_size e b else 0))"
    and t: "makeRoomLocked io tenant (n - block_size e b) i s = (t, Inr ())"
    and s': "s' = t\<lparr>active := (active t)(i := active t i + 1), reserved := (reserved t)(i := reserved t i + n)\<rparr>"
    by (auto simp: stage_begin_def Let_def then_do_eq_Inr split: if_splits sum.splits)
  from e(1) have here: "map_of (entries s) i = Some e" "Tenant e = tenant"
    by (auto simp: getLocked_def split: option.splits if_splits)
  note room = make_room_result [OF inv t]
  have "reserved t i = reserved s i" "\<not> committing t i"
    using inv room(4) e(2) by (auto simp: quota_inv_def uploads_ok_def commits_ok_def)
  moreover have "0 \<le> block_size e b" using entry_okD [OF _ here(1)] inv by (auto simp: quota_inv_def entry_ok_def block_nonneg)
  ultimately have "quota_inv l ((i, b, n) # us) cs s'"
    unfolding s' by (intro quota_start [OF room(4)]) (use room here e inv in \<open>auto simp: quota_inv_def split: if_splits\<close>)
  with True show ?thesis by (simp add: start_upload_def)
next
  case False
  with run have "s' = s \<or> (\<exists>inc. s' = fst (makeRoomLocked io tenant inc i s))"
    by (auto simp: stage_begin_def Let_def then_do_def split: if_splits sum.splits prod.splits) (metis fst_conv)+
  with False show ?thesis using inv make_room_keeps [OF inv] by (auto simp: start_upload_def)
qed

definition release :: "int \<Rightarrow> int \<Rightarrow> Store \<Rightarrow> Store" where
  "release i n s = s\<lparr>active := (active s)(i := active s i - 1), reserved := (reserved s)(i := reserved s i - n)\<rparr>"

lemma uploads_remove1:
  assumes "(i, u) \<in> set us"
  shows "length (uploads_of us j) = (if j = i then 1 else 0) + length (uploads_of (remove1 (i, u) us) j)"
    "sum_list (map snd (uploads_of us j)) = (if j = i then snd u else 0) + sum_list (map snd (uploads_of (remove1 (i, u) us) j))"
  using assms by (induction us) (auto simp: uploads_of_def)

lemma quota_release:
  assumes inv: "quota_inv l us cs s" and u: "(i, b, n) \<in> set us"
  shows "quota_inv l (remove1 (i, b, n) us) cs (release i n s)"
proof -
  let ?us = "remove1 (i, b, n) us"
  from inv have ok: "entries_ok s" "within l us s" "uploads_ok us s" "commits_ok us cs s" by (simp_all add: quota_inv_def)
  have counts: "active s j = int (length (uploads_of us j))" "reserved s j = sum_list (map snd (uploads_of us j))" for j
    using ok(3) by (simp_all add: uploads_ok_def)
  have "uploads_ok ?us (release i n s)"
    unfolding uploads_ok_def
  proof (intro conjI allI ballI)
    show "active (release i n s) j = int (length (uploads_of ?us j))" "reserved (release i n s) j = sum_list (map snd (uploads_of ?us j))" for j
      using uploads_remove1 [OF u, of j] by (auto simp: release_def counts split: if_splits)
    show "case v of (j, c, m) \<Rightarrow> 0 \<le> m \<and> j \<in> fst ` set (entries (release i n s))" if "v \<in> set ?us" for v
      using ok(3) set_remove1_subset [THEN subsetD, OF that] by (auto simp: uploads_ok_def release_def)
  qed
  moreover have "commit_ok ?us (release i n s) c" if "c \<in> set cs" for c
  proof -
    have "commit_ok us s c" using ok(4) that by (simp add: commits_ok_def)
    moreover have "uploads_of us (ID (fst c)) = []" using commit_ok_uploads [OF calculation] .
    moreover have "uploads_of ?us (ID (fst c)) = []" using calculation(2) set_remove1_subset [of "(i, b, n)" us]
      by (auto simp: uploads_of_def filter_empty_conv)
    ultimately show ?thesis by (induction us s c rule: commit_ok.induct) (auto simp: snapshot_of_def release_def)
  qed
  then have "commits_ok ?us cs (release i n s)" using ok(4) by (simp add: commits_ok_def release_def)
  moreover have "within l ?us (release i n s)"
    using within_fewer [OF ok(1) set_remove1_subset ok(2)] by (simp add: within_def load_def release_def)
  ultimately show ?thesis using inv by (simp add: quota_inv_def entries_ok_def release_def)
qed

text \<open>What becomes of the entry when an upload ends: nothing, or the whole entry is there, or the block has its new size.\<close>

definition entry_after :: "string \<Rightarrow> int \<Rightarrow> string \<Rightarrow> Entry \<Rightarrow> Entry" where
  "entry_after b n digest e = (if b = [] then e\<lparr>Uploaded := True, Digest := digest, Size := n\<rparr> else set_block b n e)"

lemma stage_finish_state:
  assumes "stage_finish io sha256 i b n received s = (s', r)"
  shows "\<exists>d. s' = (release i n s)\<lparr>disk := d\<rparr> \<or>
    (\<exists>data. \<not> Uploaded (entry_at s i) \<and> s' = (release i n s)\<lparr>disk := d,
       entries := AList.update i (entry_after b n (sha256 data) (entry_at s i)) (entries s)\<rparr>)"
proof -
  let ?s = "release i n s" and ?e = "entry_at s i"
  have same: "\<exists>d. t = t\<lparr>disk := d\<rparr>" for t :: Store by (rule exI [of _ "disk t"]) simp
  have at: "entry_at ?s i = ?e" by (simp add: entry_at_def release_def)
  show ?thesis
  proof (cases received)
    case (Inl err)
    with assms same [of ?s] show ?thesis by (auto simp: stage_finish_def Let_def release_def [symmetric])
  next
    case (Inr data)
    let ?e' = "entry_after b n (sha256 data) ?e"
    let ?t = "?s\<lparr>entries := AList.update i ?e' (entries s)\<rparr>"
    have ends: "\<exists>d. s' = t\<lparr>disk := d\<rparr> \<or> s' = t\<lparr>disk := d, entries := AList.update i ?e' (entries s)\<rparr>"
      if "then_do (saveEntry io ?e' (rename_into i name data t)) (\<lambda>_ s. (s\<lparr>entries := AList.update i ?e' (entries s)\<rparr>, Inr ())) = (s', r)"
        "AList.update i ?e' (entries t) = AList.update i ?e' (entries s)" for name and t :: Store
    proof -
      obtain d where d: "rename_into i name data t = t\<lparr>disk := d\<rparr>" using rename_disk by blast
      from that(1) [unfolded d] show ?thesis by (rule then_save) (use that(2) in auto)
    qed
    consider (none) "s' = ?s" | (whole) "b = []" "\<not> Uploaded ?e"
        "then_do (saveEntry io ?e' (rename_into i ''blob'' data ?s)) (\<lambda>_ s. (s\<lparr>entries := AList.update i ?e' (entries s)\<rparr>, Inr ())) = (s', r)"
      | (refused) "b \<noteq> []" "\<not> Uploaded ?e" "s' = share_blocks i ?e ?e' ?s"
      | (block) "b \<noteq> []" "\<not> Uploaded ?e" "then_do (saveEntry io ?e' (rename_into i (block_file sha256 b) data (share_blocks i ?e ?e' ?s)))
          (\<lambda>_ s. (s\<lparr>entries := AList.update i ?e' (entries s)\<rparr>, Inr ())) = (s', r)"
      using assms Inr at
      by (auto simp: stage_finish_def Let_def release_def [symmetric] entry_after_def os_call_def split: if_splits option.splits)
    then show ?thesis
    proof cases
      case none
      then show ?thesis using same by blast
    next
      case whole
      from ends [OF whole(3)] whole(2) show ?thesis by (auto simp: release_def)
    next
      case refused
      then show ?thesis by (cases "Blocks ?e") (auto simp: share_blocks_def release_def intro!: exI [of _ "disk s"])
    next
      case block
      have "AList.update i ?e' (entries (share_blocks i ?e ?e' ?s)) = AList.update i ?e' (entries s)"
        by (simp add: share_blocks_def release_def)
      from ends [OF block(3) this] obtain d where "s' = (share_blocks i ?e ?e' ?s)\<lparr>disk := d\<rparr> \<or>
          s' = (share_blocks i ?e ?e' ?s)\<lparr>disk := d, entries := AList.update i ?e' (entries s)\<rparr>" by blast
      then have "s' = ?s\<lparr>disk := d\<rparr> \<or> s' = ?s\<lparr>disk := d, entries := AList.update i ?e' (entries s)\<rparr>"
        by (auto simp: share_blocks_def release_def split: if_splits)
      with block(2) show ?thesis by blast
    qed
  qed
qed

lemma stage_finish_keeps:
  assumes inv: "quota_inv l us cs s" and u: "(i, b, n) \<in> set us" and run: "stage_finish io sha256 i b n received s = (s', r)"
  shows "quota_inv l (remove1 (i, b, n) us) cs s'"
proof -
  from inv have ok: "entries_ok s" "uploads_ok us s" by (simp_all add: quota_inv_def)
  with u have "i \<in> fst ` set (entries s)" "0 \<le> n" by (auto simp: uploads_ok_def)
  then obtain e where e: "map_of (entries s) i = Some e" by (metis map_of_eq_None_iff not_None_eq)
  have at: "entry_at s i = e" by (simp add: entry_at_def e)
  have eok: "entry_ok i e" using entry_okD [OF ok(1) e] .
  have mem: "(b, n) \<in> set (uploads_of us i)" using u by (force simp: uploads_of_def)
  have upd: "quota_inv l us cs (s\<lparr>entries := AList.update i (entry_after b n dg e) (entries s)\<rparr>)" if "\<not> Uploaded e" for dg
  proof (rule quota_update [OF inv e])
    show "Tenant (entry_after b n dg e) = Tenant e" by (simp add: entry_after_def)
    show "entry_ok i (entry_after b n dg e)" using eok \<open>0 \<le> n\<close> that
      by (auto simp: entry_ok_def entry_after_def sizes_set_block) (simp add: sizes_ok_def blocks_of_def)
    show "outcome us (i, entry_after b n dg e) \<le> outcome us (i, e)"
      using eok that mem worst_whole [OF _ that mem] worst_set_block [OF _ that mem]
      by (auto simp: outcome_def entry_after_def entry_ok_def) (simp add: worst_def)
    show "ID c \<noteq> i" if "(c, Copying data bs) \<in> set cs" for c data bs using not_copying_uploading [OF inv u that] .
  qed
  have swap: "(release i n s)\<lparr>disk := d, entries := x\<rparr> = (release i n (s\<lparr>entries := x\<rparr>))\<lparr>disk := d\<rparr>" for d x
    by (simp add: release_def)
  from stage_finish_state [OF run, unfolded at swap] show ?thesis
    using quota_disk [OF quota_release [OF inv u]] quota_disk [OF quota_release [OF upd u]] by auto
qed

subsection \<open>Commits\<close>

lemma listed_size_sum:
  assumes "listed_size e seen bs = Some n" "\<forall>(b, m) \<in> set (blocks_of e). 0 \<le> m"
  shows "distinct bs \<and> set bs \<subseteq> fst ` set (blocks_of e) - set seen \<and> n = (\<Sum>b \<in> set bs. block_size e b)"
  using assms(1)
proof (induction e seen bs arbitrary: n rule: listed_size.induct)
  case (2 e seen b bs)
  from 2(2) obtain m k where b: "map_of (blocks_of e) b = Some m" "b \<notin> set seen" and bs: "listed_size e (b # seen) bs = Some k"
    and n: "n = m + k" by (auto split: option.splits if_splits)
  from 2(1) [OF b bs] have IH: "distinct bs" "set bs \<subseteq> fst ` set (blocks_of e) - set (b # seen)" "k = (\<Sum>b \<in> set bs. block_size e b)"
    by auto
  have "b \<in> fst ` set (blocks_of e)" using map_of_SomeD [OF b(1)] by force
  moreover have "block_size e b = m" by (simp add: block_size_def b)
  moreover have "b \<notin> set bs" using IH(2) by auto
  ultimately show ?case using IH b(2) n by auto
qed simp

lemma listed_size_le:
  assumes "listed_size e [] bs = Some n" "sizes_ok e" "\<not> Uploaded e"
  shows "0 \<le> n" "n \<le> stagedSize e"
proof -
  from assms(2) have "\<forall>(b, m) \<in> set (blocks_of e). 0 \<le> m" by (simp add: sizes_ok_def)
  from listed_size_sum [OF assms(1) this] have n: "set bs \<subseteq> names [] e" "n = (\<Sum>b \<in> set bs. block_size e b)"
    by (auto simp: names_def)
  show "0 \<le> n" unfolding n(2) by (rule sum_nonneg) (rule block_nonneg [OF assms(2)])
  have "n \<le> (\<Sum>b \<in> names [] e. block_size e b)"
    unfolding n(2) by (rule sum_mono2 [OF finite_names n(1)]) (rule block_nonneg [OF assms(2)])
  then show "n \<le> stagedSize e" using staged_sum [OF assms(2,3) order_refl, of "[]"] by simp
qed

lemma quota_commit:
  assumes inv: "quota_inv l us cs s" and e: "map_of (entries s) i = Some e" "\<not> Uploaded e" "active s i \<le> 0" "\<not> committing s i"
    and n: "0 \<le> n" "n \<le> stagedSize e"
  shows "quota_inv l us ((e\<lparr>Size := n\<rparr>, Copying [] bs) # cs) (start_commit i s)"
proof -
  from inv have ok: "entries_ok s" "within l us s" "uploads_ok us s" "commits_ok us cs s" by (simp_all add: quota_inv_def)
  have eok: "ID e = i" "Finalized e \<longrightarrow> Uploaded e" using entry_okD [OF ok(1) e(1)] by (auto simp: entry_ok_def)
  have none: "uploads_of us i = []" using ok(3) e(3) by (auto simp: uploads_ok_def)
  have new: "commit_ok us (start_commit i s) (e\<lparr>Size := n\<rparr>, Copying [] bs)"
    using e(1,2) eok none n map_of_SomeD [OF e(1)] by (force simp: snapshot_of_def start_commit_def)
  have "commit_ok us (start_commit i s) c" if "commit_ok us s c" for c
    using that by (rule commit_ok_transfer) (simp_all add: start_commit_def commit_ok_dom [OF that])
  with new ok(4) e(4) eok(1) have "commits_ok us ((e\<lparr>Size := n\<rparr>, Copying [] bs) # cs) (start_commit i s)"
    by (auto simp: commits_ok_def start_commit_def)
  with inv show ?thesis
    by (simp add: quota_inv_def entries_ok_def uploads_ok_def within_def load_def start_commit_def)
qed

lemma getLocked_Inr: "getLocked tenant i s = Inr e \<longleftrightarrow> map_of (entries s) i = Some e \<and> Tenant e = tenant"
  by (auto simp: getLocked_def split: option.split)

text \<open>A commit refuses, finds the entry uploaded, or starts with the size of the blocks that are listed.\<close>

lemma begin_commit_cases:
  assumes run: "beginCommitLocked tenant i bs s = (s', r)"
  obtains (same) "s' = s" "begun (map_sum (\<lambda>err. err) (\<lambda>e. (e, bs)) r) cs = cs"
    | (fresh) e n where "map_of (entries s) i = Some e" "\<not> Uploaded e" "active s i \<le> 0" "\<not> committing s i" "listed_size e [] bs = Some n"
        "s' = start_commit i s" "r = Inr (e\<lparr>Size := n\<rparr>)"
proof (cases "\<exists>e. r = Inr e \<and> \<not> Uploaded e")
  case True
  then obtain e' where r: "r = Inr e'" "\<not> Uploaded e'" by blast
  obtain e where got: "getLocked tenant i s = Inr e" using run r by (cases "getLocked tenant i s") (simp_all add: beginCommitLocked_def)
  have up: "\<not> Uploaded e" using run r by (cases "Uploaded e") (simp_all add: beginCommitLocked_def got)
  have free: "active s i \<le> 0" "\<not> committing s i"
    using run r up by (simp_all add: beginCommitLocked_def got split: if_splits)
  obtain n where n: "listed_size e [] bs = Some n"
    using run r up free by (cases "listed_size e [] bs") (simp_all add: beginCommitLocked_def got split: if_splits)
  have "s' = start_commit i s" "r = Inr (e\<lparr>Size := n\<rparr>)"
    using run r up free n by (simp_all add: beginCommitLocked_def got split: if_splits)
  with got up free n show thesis by (intro fresh) (simp_all add: getLocked_Inr)
next
  case False
  then consider (refused) x where "r = Inl x" | (there) e where "r = Inr e" "Uploaded e" by (cases r) auto
  then show thesis
  proof cases
    case refused
    with run show ?thesis by (intro same) (auto simp: beginCommitLocked_def begun_def split: sum.splits if_splits option.splits)
  next
    case there
    with run show ?thesis by (intro same) (auto simp: beginCommitLocked_def begun_def split: sum.splits if_splits option.splits)
  qed
qed

lemma begin_commit_keeps:
  assumes inv: "quota_inv l us cs s" and run: "beginCommitLocked tenant i bs s = (s', r)"
  shows "quota_inv l us (begun (map_sum (\<lambda>err. err) (\<lambda>e. (e, bs)) r) cs) s'"
  using run
proof (cases rule: begin_commit_cases [where cs = cs])
  case same
  with inv show ?thesis by simp
next
  case (fresh e n)
  have "sizes_ok e" using inv entry_okD [OF _ fresh(1)] by (simp add: quota_inv_def entry_ok_def)
  from quota_commit [OF inv fresh(1-4) listed_size_le [OF fresh(5) this fresh(2)]] fresh(2,6,7) show ?thesis by (simp add: begun_def)
qed

text \<open>A commit of ranges refuses, finds the entry uploaded, commits an empty entry, or is a commit of the blocks it lists.\<close>

lemma begin_ranges_cases:
  assumes run: "beginRangeCommitLocked tenant i n s = (s', r)"
  obtains (same) "s' = s" "begun r cs = cs"
    | (empty) e bs where "getLocked tenant i s = Inr e" "\<not> Uploaded e" "active s i \<le> 0" "\<not> committing s i"
        "s' = start_commit i s" "r = Inr (e, bs)"
        "range_loop e 0 (sort (map the (map block_offset (map fst (blocks_of e))))) = Some (0, bs)"
    | (commit) bs q where "beginCommitLocked tenant i bs s = (s', q)" "r = map_sum (\<lambda>err. err) (\<lambda>e. (e, bs)) q"
proof (cases "getLocked tenant i s")
  case (Inl err)
  with run show thesis by (intro same) (auto simp: beginRangeCommitLocked_def begun_def)
next
  case (Inr e)
  let ?offsets = "map block_offset (map fst (blocks_of e))"
  show thesis
  proof (cases "Uploaded e \<or> n < 0 \<or> n > MaxEntryBytes (limits s) \<or> None \<in> set ?offsets")
    case True
    with run Inr show thesis
      by (intro same) (auto simp: beginRangeCommitLocked_def begun_def Let_def simp del: map_map split: if_splits)
  next
    case False
    show thesis
    proof (cases "range_loop e 0 (sort (map the ?offsets))")
      case None
      with False run Inr show thesis
        by (intro same) (auto simp: beginRangeCommitLocked_def begun_def Let_def simp del: map_map)
    next
      case (Some q)
      obtain z bs where q: "q = (z, bs)" by fastforce
      show thesis
      proof (cases "z \<noteq> n \<or> n = 0")
        case True
        show thesis
        proof (cases "z = n \<and> active s i \<le> 0 \<and> \<not> committing s i")
          case free: True
          with True False run Inr Some q show thesis
            by (intro empty [of e bs]) (auto simp: beginRangeCommitLocked_def Let_def simp del: map_map)
        next
          case busy: False
          with True False run Inr Some q show thesis
            by (intro same) (auto simp: beginRangeCommitLocked_def begun_def Let_def simp del: map_map split: if_splits)
        qed
      next
        case ne: False
        obtain q' where b: "beginCommitLocked tenant i bs s = (s', q')" "r = map_sum (\<lambda>err. err) (\<lambda>e. (e, bs)) q'"
          using False ne run Inr Some q
          by (cases "beginCommitLocked tenant i bs s"; cases "snd (beginCommitLocked tenant i bs s)")
            (simp_all add: beginRangeCommitLocked_def Let_def del: map_map)
        then show thesis by (rule commit)
      qed
    qed
  qed
qed

lemma begin_ranges_keeps:
  assumes inv: "quota_inv l us cs s" and run: "beginRangeCommitLocked tenant i n s = (s', r)"
  shows "quota_inv l us (begun r cs) s'"
  using run
proof (cases rule: begin_ranges_cases [where cs = cs])
  case same
  with inv show ?thesis by simp
next
  case (empty e bs)
  then have here: "map_of (entries s) i = Some e" by (simp add: getLocked_Inr)
  have e: "sizes_ok e" "Size e = 0" using inv entry_okD [OF _ here] empty(2) by (auto simp: quota_inv_def entry_ok_def)
  have "e\<lparr>Size := 0\<rparr> = e" using e(2) by simp
  with quota_commit [OF inv here empty(2-4) order_refl staged_nonneg [OF e(1)], of bs] empty show ?thesis
    by (simp add: begun_def)
next
  case (commit bs q)
  from begin_commit_keeps [OF inv commit(1)] commit(2) show ?thesis by simp
qed

text \<open>The phase of a commit matters only as long as it copies.\<close>

lemma quota_phase:
  assumes "quota_inv l us (cs @ (e, Copying data bs) # ds) s"
  shows "quota_inv l us (cs @ (e, ph) # ds) s"
  using assms by (cases ph) (auto simp: quota_inv_def commits_ok_def)

lemma publish_keeps:
  assumes inv: "quota_inv l us (cs @ (e, Copying data []) # ds) s" and run: "publishCommit io e data s = (s', r)"
  shows "quota_inv l us (cs @ (e, Published bs) # ds) s'"
proof -
  let ?cs = "cs @ (e, Published bs) # ds"
  have inv': "quota_inv l us ?cs s" using quota_phase [OF inv] .
  then have ok: "entries_ok s" by (simp add: quota_inv_def)
  obtain e0 where e0: "map_of (entries s) (ID e) = Some e0" "\<not> Uploaded e0" "Tenant e = Tenant e0" "Blocks e = Blocks e0"
      "0 \<le> Size e" "Size e \<le> stagedSize e0" "\<not> Finalized e"
    using inv by (auto simp: quota_inv_def commits_ok_def snapshot_of_def)
  have "distinct (map (ID \<circ> fst) ?cs)" using inv' by (simp add: quota_inv_def commits_ok_def)
  then have others: "ID (fst c) \<noteq> ID e" if "c \<in> set cs \<union> set ds" for c using that by force
  have sizes: "sizes_ok e0" using entry_okD [OF ok e0(1)] by (simp add: entry_ok_def)
  have put: "quota_inv l us ?cs (put_entry (e\<lparr>Uploaded := True\<rparr>) t)" if "quota_inv l us ?cs t" "entries t = entries s" for t
    unfolding put_entry_def
  proof (rule quota_update [OF that(1)])
    show "map_of (entries t) (ID (e\<lparr>Uploaded := True\<rparr>)) = Some e0" using e0(1) that(2) by simp
    show "outcome us (ID (e\<lparr>Uploaded := True\<rparr>), e\<lparr>Uploaded := True\<rparr>) \<le> outcome us (ID (e\<lparr>Uploaded := True\<rparr>), e0)"
      using e0(6) staged_le_worst [OF sizes] by (simp add: outcome_def) (simp add: worst_def [of _ "e\<lparr>Uploaded := True\<rparr>"], meson order_trans)
    show "entry_ok (ID (e\<lparr>Uploaded := True\<rparr>)) (e\<lparr>Uploaded := True\<rparr>)"
      using sizes e0 by (simp add: entry_ok_def sizes_ok_def blocks_of_def)
    show "ID c \<noteq> ID (e\<lparr>Uploaded := True\<rparr>)" if "(c, Copying x y) \<in> set ?cs" for c x y
      using that others by force
  qed (simp add: e0(3))
  show ?thesis
  proof (cases "io RenameBlob (ID e)")
    case None
    from run have "then_do (saveEntry io (e\<lparr>Uploaded := True\<rparr>) (rename_into (ID e) ''blob'' data s))
        (\<lambda>_ s. (put_entry (e\<lparr>Uploaded := True\<rparr>) s, Inr ())) = (s', r)"
      by (simp add: publishCommit_def os_call_def Let_def None)
    then show ?thesis
    proof (rule then_save)
      obtain d where d: "rename_into (ID e) ''blob'' data s = s\<lparr>disk := d\<rparr>" using rename_disk by blast
      show ?thesis if "s' = (rename_into (ID e) ''blob'' data s)\<lparr>disk := d'\<rparr>" for d'
        using that quota_disk [OF inv'] by (simp add: d)
      show ?thesis if "(\<lambda>_ s. (put_entry (e\<lparr>Uploaded := True\<rparr>) s, Inr ())) () ((rename_into (ID e) ''blob'' data s)\<lparr>disk := d'\<rparr>) = (s', r)" for d'
        using that put [OF quota_disk [OF inv']] by (auto simp: d)
    qed
  next
    case (Some m)
    with run inv' show ?thesis by (simp add: publishCommit_def os_call_def)
  qed
qed

lemma finish_keeps:
  assumes inv: "quota_inv l us (cs @ (e, ph) # ds) s"
  shows "quota_inv l us (cs @ ds) (finishCommit (ID e) s)"
proof -
  have "commit_ok us (finishCommit (ID e) s) c" if "commit_ok us s c" for c
    using that by (rule commit_ok_transfer) (simp_all add: finishCommit_def commit_ok_dom [OF that])
  with inv show ?thesis
    by (auto simp: quota_inv_def entries_ok_def uploads_ok_def within_def load_def finishCommit_def commits_ok_def)
qed

subsection \<open>Entries\<close>

lemma fst_then_do:
  assumes "then_do q k = (s', r)"
  obtains "s' = fst q" "isl r" | a where "q = (fst q, Inr a)" "k a (fst q) = (s', r)"
  using assms by (cases q; cases "snd q") auto

lemma create_entry_keeps:
  assumes inv: "quota_inv l us cs s" and e: "map_of (entries s) (ID e) = None" "\<not> Uploaded e" "\<not> Finalized e" "Size e = 0"
    "blocks_of e = []"
  shows "quota_inv l us cs (put_entry e s)"
proof -
  from inv have ok: "entries_ok s" "within l us s" "uploads_ok us s" "commits_ok us cs s" "ValidateLimits l"
    by (simp_all add: quota_inv_def)
  have es: "entries (put_entry e s) = entries s @ [(ID e, e)]"
  proof -
    have "AList.update k v xs = xs @ [(k, v)]" if "k \<notin> fst ` set xs" for k :: int and v :: Entry and xs
      using that by (induction xs) auto
    with e(1) show ?thesis by (simp add: put_entry_def map_of_eq_None_iff)
  qed
  have fresh: "ID e \<notin> fst ` set (entries s)" using e(1) by (simp add: map_of_eq_None_iff)
  have "fst u \<in> fst ` set (entries s)" if "u \<in> set us" for u
    using uploads_dom [OF ok(3) that] .
  with fresh have "uploads_of us (ID e) = []" by (auto simp: uploads_of_def filter_empty_conv)
  then have out: "outcome us (ID e, e) = 0" using e by (simp add: outcome_def worst_def names_def)
  have "entries_ok (put_entry e s)"
    using ok(1) e fresh by (auto simp: entries_ok_def es entry_ok_def sizes_ok_def)
  moreover have "uploads_ok us (put_entry e s)"
    using ok(3) unfolding uploads_ok_def es by (auto simp: put_entry_def)
  moreover have "commit_ok us (put_entry e s) c" if "commit_ok us s c" for c
  proof (rule commit_ok_transfer [OF that])
    from commit_ok_dom [OF that] show "ID (fst c) \<in> fst ` set (entries (put_entry e s))" by (simp add: es)
    from commit_ok_dom [OF that] fresh show "map_of (entries (put_entry e s)) (ID (fst c)) = map_of (entries s) (ID (fst c))"
      by (auto simp: es map_add_def split: option.split dest: weak_map_of_SomeI)
  qed
  then have "commits_ok us cs (put_entry e s)" using ok(4) by (simp add: commits_ok_def put_entry_def)
  moreover have "0 \<le> MaxEntryBytes l" using ok(5) by (simp add: ValidateLimits_def)
  then have "within l us (put_entry e s)" using ok(2) out by (auto simp: within_def load_def es)
  ultimately show ?thesis using inv by (simp add: quota_inv_def put_entry_def)
qed

lemma create_keeps:
  assumes inv: "quota_inv l us cs s" and run: "CreateEntry io now random tenant ref owner key version s = (s', r)"
  shows "quota_inv l us cs s'"
proof -
  let ?i = "random_id random" and ?e = "new_entry now (random_id random) tenant ref owner key version"
  let ?rest = "\<lambda>s. if list_ex (\<lambda>(_, e). same_key tenant ref key version e) (entries s) then (s, Inl ErrExists)
      else os_call io RandomRead ?i s (\<lambda>s.
        if map_of (entries s) ?i \<noteq> None then (s, Inl ErrExists)
        else if \<not> dir_missing ?i s then (s, Inl (IOError ''file exists''))
        else os_call io MkdirEntry ?i s (\<lambda>s.
          then_do (saveEntry io ?e (s\<lparr>disk := AList.update ?i \<lparr>entry_json = NoJson, dir_files = []\<rparr> (disk s)\<rparr>))
            (\<lambda>_ s. (put_entry ?e s, Inr ?e))))"
  have rest: "quota_inv l us cs s'" if t: "quota_inv l us cs t" and go: "?rest t = (s', r)" for t
  proof (cases "s' = t")
    case False
    with go have fresh: "map_of (entries t) ?i = None"
      and save: "then_do (saveEntry io ?e (t\<lparr>disk := AList.update ?i \<lparr>entry_json = NoJson, dir_files = []\<rparr> (disk t)\<rparr>))
            (\<lambda>_ s. (put_entry ?e s, Inr ?e)) = (s', r)"
      by (auto simp: os_call_def split: if_splits option.splits)
    from save show ?thesis
    proof (rule then_save)
      show ?thesis if "s' = t\<lparr>disk := AList.update ?i \<lparr>entry_json = NoJson, dir_files = []\<rparr> (disk t), disk := d\<rparr>" for d
        using that quota_disk [OF t] by simp
      show ?thesis if "(\<lambda>_ s. (put_entry ?e s, Inr ?e)) ()
          (t\<lparr>disk := AList.update ?i \<lparr>entry_json = NoJson, dir_files = []\<rparr> (disk t), disk := d\<rparr>) = (s', r)" for d
        using that fresh create_entry_keeps [OF quota_disk [OF t], where e = ?e] by (auto simp: new_entry_def blocks_of_def)
    qed
  qed (use t in simp)
  show ?thesis
  proof (cases "ProjectUID tenant = [] \<or> RepositoryID tenant < 1 \<or> \<not> has_prefix ref ''refs/'' \<or> owner = [] \<or> isl (ValidateKey key version)")
    case True
    with run inv show ?thesis by (auto simp: CreateEntry_def split: if_splits sum.splits)
  next
    case False
    then obtain u where "ValidateKey key version = Inr u" by (cases "ValidateKey key version") auto
    with False run have "then_do (cleanupLocked io now s) (\<lambda>_. ?rest) = (s', r)"
      unfolding CreateEntry_def Let_def by simp
    then show ?thesis
      by (rule fst_then_do) (use quota.cleanup_keeps [OF inv] rest in auto)
  qed
qed

text \<open>Changes of a finalized entry leave its size.\<close>

lemma quota_touch:
  assumes inv: "quota_inv l us cs s" and e: "(i, e) \<in> set (entries s)" "Uploaded e"
    and e': "ID e' = ID e" "Tenant e' = Tenant e" "Uploaded e'" "Size e' = Size e" "Blocks e' = Blocks e"
  shows "quota_inv l us cs (s\<lparr>entries := AList.update i e' (entries s)\<rparr>)"
proof -
  have ok: "entries_ok s" using inv by (simp add: quota_inv_def)
  then have here: "map_of (entries s) i = Some e" and eok: "entry_ok i e" using e(1) by (auto simp: entries_ok_def)
  show ?thesis
  proof (rule quota_update [OF inv here e'(2)])
    show "entry_ok i e'" using eok e' by (auto simp: entry_ok_def sizes_ok_def blocks_of_def)
    show "outcome us (i, e') \<le> outcome us (i, e)" using e(2) e' by (simp add: outcome_def worst_def)
  qed (rule not_copying_uploaded [OF inv here e(2)])
qed

lemma save_touch:
  assumes inv: "quota_inv l us cs s" and e: "(i, e) \<in> set (entries s)" "Uploaded e"
    and e': "ID e' = ID e" "Tenant e' = Tenant e" "Uploaded e'" "Size e' = Size e" "Blocks e' = Blocks e"
    and run: "then_do (saveEntry io e' s) k = (s', r)"
    and k: "\<And>t. fst (k () t) = t\<lparr>entries := AList.update i e' (entries t)\<rparr>"
  shows "quota_inv l us cs s'"
  using run
proof (rule then_save)
  show ?thesis if "s' = s\<lparr>disk := d\<rparr>" for d using that quota_disk [OF inv] by simp
  show ?thesis if "k () (s\<lparr>disk := d\<rparr>) = (s', r)" for d
    using that k [of "s\<lparr>disk := d\<rparr>"] quota_touch [OF quota_disk [OF inv] _ e(2) e', of i d] e(1) by simp
qed

lemma finalize_keeps:
  assumes inv: "quota_inv l us cs s" and run: "Finalize io now tenant ref owner key version n s = (s', r)"
  shows "quota_inv l us cs s'"
proof (cases "find (same_key tenant ref key version) (map snd (entries s))")
  case None
  with run inv show ?thesis by (simp add: Finalize_def)
next
  case (Some e)
  then obtain i where e: "(i, e) \<in> set (entries s)" by (auto simp: find_Some_iff) (metis nth_mem prod.collapse)
  then have i: "ID e = i" using quota_keyed [OF inv] by blast
  let ?e = "e\<lparr>Finalized := True, AccessedAt := now\<rparr>"
  show ?thesis
  proof (cases "s' = s")
    case False
    with run Some have up: "Uploaded e" and save: "then_do (saveEntry io ?e s) (\<lambda>_ s. (put_entry ?e s, Inr ?e)) = (s', r)"
      by (auto simp: Finalize_def Let_def split: if_splits)
    show ?thesis by (rule save_touch [OF inv e up _ _ _ _ _ save]) (simp_all add: up put_entry_def i)
  qed (use inv in simp)
qed

lemma find_refs_mem: "find_refs f refs ks = Some e \<Longrightarrow> \<exists>ref. e \<in> set (f ref)"
proof (induction refs)
  case (Cons ref refs)
  have key: "e \<in> set cs" if "find_key cs p = Some e" for cs p
    using that by (auto simp: find_key_def find_Some_iff split: option.splits)
  have "e \<in> set cs" if "find_keys cs ks = Some e" for cs
    using that by (induction ks) (auto split: option.splits intro: key)
  with Cons show ?case by (auto split: option.splits)
qed simp

lemma lookup_keeps:
  assumes inv: "quota_inv l us cs s" and run: "Lookup io now tenant refs key version restore s = (s', r)"
  shows "quota_inv l us cs s'"
proof (cases "s' = s")
  case False
  let ?find = "\<lambda>t. find_refs (\<lambda>ref. ref_candidates tenant version ref t) refs (key # restore)"
  from False run have "then_do (cleanupLocked io now s)
      (\<lambda>_ t. case ?find t of None \<Rightarrow> (t, Inl ErrNotFound) | Some e \<Rightarrow> touch io now e t) = (s', r)"
    by (auto simp: Lookup_def split: sum.splits if_splits option.splits)
  then show ?thesis
  proof (rule fst_then_do)
    let ?t = "fst (cleanupLocked io now s)"
    have t: "quota_inv l us cs ?t" using quota.cleanup_keeps [OF inv] .
    show ?thesis if "s' = ?t" using that t by simp
    show ?thesis if go: "(case ?find ?t of None \<Rightarrow> (?t, Inl ErrNotFound) | Some e \<Rightarrow> touch io now e ?t) = (s', r)"
    proof (cases "?find ?t")
      case (Some e)
      from find_refs_mem [OF this] obtain i where e: "(i, e) \<in> set (entries ?t)" "Finalized e"
        by (auto simp: ref_candidates_def newest_first_def)
      then have i: "ID e = i" and up: "Uploaded e"
        using t by (auto simp: quota_inv_def entries_ok_def entry_ok_def)
      from go Some have save: "then_do (saveEntry io (e\<lparr>AccessedAt := now\<rparr>) ?t)
          (\<lambda>_ s. (put_entry (e\<lparr>AccessedAt := now\<rparr>) s, Inr (e\<lparr>AccessedAt := now\<rparr>))) = (s', r)"
        by (simp add: touch_def Let_def)
      show ?thesis by (rule save_touch [OF t e(1) up _ _ _ _ _ save]) (simp_all add: up put_entry_def i)
    qed (use go t in simp)
  qed
qed (use inv in simp)

lemma open_keeps:
  assumes inv: "quota_inv l us cs s" and run: "OpenEntry io now tenant i s = (s', r)"
  shows "quota_inv l us cs s'"
proof (cases "s' = s")
  case False
  with run obtain e where got: "getLocked tenant i s = Inr e" "Finalized e"
    by (cases "getLocked tenant i s") (auto simp: OpenEntry_def split: if_splits)
  then have e: "(i, e) \<in> set (entries s)" by (auto simp: getLocked_Inr dest: map_of_SomeD)
  have up: "Uploaded e" using inv e got(2) by (auto simp: quota_inv_def entries_ok_def entry_ok_def)
  from run got have save: "then_do (saveEntry io (e\<lparr>AccessedAt := now\<rparr>) s) (\<lambda>_ s.
      let s = s\<lparr>entries := AList.update i (e\<lparr>AccessedAt := now\<rparr>) (entries s)\<rparr>
      in os_call io OpenBlob i s (\<lambda>s. case dir_file s i ''blob'' of
           None \<Rightarrow> (s, Inl (IOError ''no such file or directory''))
         | Some data \<Rightarrow> (s, Inr (data, e\<lparr>AccessedAt := now\<rparr>)))) = (s', r)"
    by (simp add: OpenEntry_def Let_def)
  show ?thesis
    by (rule save_touch [OF inv e up _ _ _ _ _ save]) (simp_all add: up Let_def os_call_def split: option.split)
qed (use inv in simp)

section \<open>Reachable states\<close>

lemma step_keeps:
  assumes "cache_step sha256 may_fail block_names y z" "quota_inv l (uploads y) (commits y) (st y)"
  shows "quota_inv l (uploads z) (commits z) (st z)"
  using assms
proof cases
  case (create io now random tenant ref owner key version s r)
  with assms(2) create_keeps show ?thesis by simp
next
  case (stage io tenant i block n s r)
  with assms(2) stage_begin_keeps show ?thesis by simp
next
  case (staged i block n io s r)
  with assms(2) stage_finish_keeps show ?thesis by simp
next
  case (begin_commit tenant i blocks s r)
  with assms(2) begin_commit_keeps show ?thesis by simp
next
  case (begin_ranges tenant i n s r)
  with assms(2) begin_ranges_keeps show ?thesis by simp
next
  case (copy cs e data block blocks ds io piece)
  with assms(2) quota_phase show ?thesis by simp
next
  case (publish cs e data ds io s r)
  with assms(2) publish_keeps show ?thesis by simp
next
  case (remove cs e block blocks ds)
  from assms(2) have "quota_inv l (uploads y) (cs @ (e, Published blocks) # ds) (st y)"
    using remove(2) by (simp add: quota_inv_def commits_ok_def)
  then show ?thesis using remove(1) quota.on_dir_keeps by (simp add: remove_block_def)
next
  case (finish cs e phase ds)
  with assms(2) finish_keeps show ?thesis by simp
next
  case (finalize io now tenant ref owner key version n s r)
  with assms(2) finalize_keeps show ?thesis by simp
next
  case (lookup io now tenant refs key version restore s r)
  with assms(2) lookup_keeps show ?thesis by simp
next
  case (list io now tenant refs p s r)
  from list(3) have "s = fst (cleanupLocked io now (st y))"
    unfolding ListEntries_def by (rule fst_then_do) simp_all
  with list(1) assms(2) quota.cleanup_keeps show ?thesis by simp
next
  case (openEntry io now tenant i s r)
  with assms(2) open_keeps show ?thesis by simp
next
  case (cleanup io now s r)
  with assms(2) quota.cleanup_keeps [of l "uploads y" "commits y" "st y" io now] show ?thesis by simp
qed

lemma reachable_inv: "cache_reachable sha256 may_fail block_names l y \<Longrightarrow> quota_inv l (uploads y) (commits y) (st y)"
proof (induction rule: cache_reachable.induct)
  case start
  then show ?case
    by (simp add: fresh_service_def empty_store_def quota_inv_def entries_ok_def uploads_ok_def uploads_of_def commits_ok_def
        within_def load_def) (simp add: ValidateLimits_def)
qed (rule step_keeps)

text \<open>A block of three bytes is uploaded to a new entry.\<close>

definition demo_created :: Service where
  "demo_created = (fresh_service sample_limits)\<lparr>st := fst (CreateEntry no_faults 1 5 sample_tenant ''refs/heads/main'' ''job'' ''k'' ''v''
     (st (fresh_service sample_limits)))\<rparr>"

definition demo_begun :: Service where
  "demo_begun = (case stage_begin no_faults sample_tenant 5 ''b'' 3 (st demo_created) of
     (s, r) \<Rightarrow> demo_created\<lparr>st := s, uploads := start_upload (5, ''b'', 3) r (uploads demo_created)\<rparr>)"

definition demo_staged :: Service where
  "demo_staged = demo_begun\<lparr>st := fst (stage_finish no_faults (\<lambda>s. s) 5 ''b'' 3
     (receive no_faults 5 \<lparr>body_bytes = ''xyz'', body_error = None\<rparr> 3) (st demo_begun)), uploads := remove1 (5, ''b'', 3) (uploads demo_begun)\<rparr>"

lemma demo_reachable: "cache_reachable (\<lambda>s. s) ((=) no_faults) {''b''} sample_limits demo_staged"
proof -
  have "ValidateLimits sample_limits" by code_simp
  then have "cache_reachable (\<lambda>s. s) ((=) no_faults) {''b''} sample_limits (fresh_service sample_limits)" by (rule start)
  then have "cache_reachable (\<lambda>s. s) ((=) no_faults) {''b''} sample_limits demo_created"
    unfolding demo_created_def by (rule step) (rule create [OF refl], rule prod.collapse [symmetric])
  then have "cache_reachable (\<lambda>s. s) ((=) no_faults) {''b''} sample_limits demo_begun"
    unfolding demo_begun_def case_prod_unfold by (rule step) (rule stage [OF refl], simp, rule prod.collapse [symmetric])
  moreover have "(5, ''b'', 3) \<in> set (uploads demo_begun)" by code_simp
  ultimately show ?thesis
    unfolding demo_staged_def by (elim step, intro staged [OF refl]) (assumption, rule prod.collapse [symmetric])
qed

section \<open>A rename that fails\<close>










end
