(* ===== verification/CacheFiles.thy ===== *)
theory CacheFiles
  imports CacheQuota
begin

text \<open>
  The quotas of the cache service, \<^verbatim>\<open>src/internal/cache/store.go\<close>, and the files under its root. The size that the store records for an
  entry is the number of bytes in its files, the blob of an uploaded entry and the blocks of one that is still uploaded, as long as no
  rename of a block fails and no two names of blocks have the same digest. Both the recorded sizes and the bytes in these files
  stay within the limits then; the recorded sizes do so in any case.
\<close>

section \<open>The files of an entry\<close>

definition files_at :: "Store \<Rightarrow> int \<Rightarrow> (string \<times> string) list option" where
  "files_at s i = map_option dir_files (map_of (disk s) i)"

definition file_size :: "(string \<times> string) list \<Rightarrow> string \<Rightarrow> int option" where
  "file_size fs name = map_option (\<lambda>data. int (length data)) (map_of fs name)"

definition bytes_of :: "int option \<Rightarrow> int" where
  "bytes_of n = (case n of None \<Rightarrow> 0 | Some n \<Rightarrow> n)"

text \<open>The bytes in the files that hold the data of an entry.\<close>

definition entry_bytes :: "(string \<Rightarrow> string) \<Rightarrow> Store \<Rightarrow> int \<times> Entry \<Rightarrow> int" where
  "entry_bytes sha256 s = (\<lambda>(i, e). case files_at s i of
       None \<Rightarrow> 0
     | Some fs \<Rightarrow>
         if Uploaded e then bytes_of (file_size fs ''blob'')
         else sum_list (map (\<lambda>(b, _). bytes_of (file_size fs (block_file sha256 b))) (blocks_of e)))"

definition data_bytes :: "(string \<Rightarrow> string) \<Rightarrow> (Entry \<Rightarrow> bool) \<Rightarrow> Store \<Rightarrow> int" where
  "data_bytes sha256 P s = sum_list (map (entry_bytes sha256 s) (filter (\<lambda>p. P (snd p)) (entries s)))"

text \<open>
  The files agree with the entry: the blob has the size of an uploaded entry, and of the blocks with a name in \<open>N\<close>, exactly those
  that are recorded have a file, with the recorded size.
\<close>

definition entry_files :: "(string \<Rightarrow> string) \<Rightarrow> string set \<Rightarrow> (string \<times> string) list option \<Rightarrow> Entry \<Rightarrow> bool" where
  "entry_files sha256 N files e \<longleftrightarrow>
     (case files of
        None \<Rightarrow> False
      | Some fs \<Rightarrow>
          if Uploaded e then file_size fs ''blob'' = Some (Size e)
          else Blocks e \<noteq> None \<and> fst ` set (blocks_of e) \<subseteq> N \<and>
            (\<forall>b \<in> N. file_size fs (block_file sha256 b) = map_of (blocks_of e) b))"

text \<open>A commit has copied as much as the blocks before have, and removes blocks of an uploaded entry only.\<close>

fun commit_files :: "string set \<Rightarrow> Store \<Rightarrow> Entry \<times> commit_phase \<Rightarrow> bool" where
  "commit_files N s (e, Copying data bs) \<longleftrightarrow> set bs \<subseteq> N \<and> int (length data) + sum_list (map (block_size e) bs) = Size e"
| "commit_files N s (e, Published bs) \<longleftrightarrow> bs = [] \<or> Uploaded (entry_at s (ID e))"

definition files_inv :: "(string \<Rightarrow> string) \<Rightarrow> string set \<Rightarrow> (int \<times> string \<times> int) list \<Rightarrow> (Entry \<times> commit_phase) list \<Rightarrow> Store \<Rightarrow> bool" where
  "files_inv sha256 N us cs s \<longleftrightarrow>
     (\<forall>(_, b, _) \<in> set us. b \<in> N) \<and> (\<forall>i e. map_of (entries s) i = Some e \<longrightarrow> entry_files sha256 N (files_at s i) e) \<and>
     (\<forall>c \<in> set cs. commit_files N s c)"

definition served :: "(string \<Rightarrow> string) \<Rightarrow> string set \<Rightarrow> Limits \<Rightarrow> (int \<times> string \<times> int) list \<Rightarrow> (Entry \<times> commit_phase) list \<Rightarrow> Store \<Rightarrow> bool" where
  "served sha256 N l us cs s \<longleftrightarrow> quota_inv l us cs s \<and> files_inv sha256 N us cs s"

section \<open>What changes the files\<close>

lemma files_at_simps [simp]:
  "files_at (s\<lparr>entries := es\<rparr>) = files_at s" "files_at (s\<lparr>active := a\<rparr>) = files_at s" "files_at (s\<lparr>reserved := q\<rparr>) = files_at s"
  "files_at (s\<lparr>committing := c\<rparr>) = files_at s" "files_at (forget i s) = files_at s" "files_at (put_entry e s) = files_at s"
  by (simp_all add: files_at_def fun_eq_iff forget_def put_entry_def)

lemma files_on_dir: "files_at (on_dir i f s) = (files_at s)(i := map_option (\<lambda>d. dir_files (f d)) (map_of (disk s) i))"
  by (auto simp: files_at_def on_dir_def fun_eq_iff AList.update_conv' split: option.split)

lemma files_json [simp]: "files_at (on_dir i (entry_json_update j) s) = files_at s"
  by (auto simp: files_on_dir files_at_def fun_eq_iff)

lemma files_rename: "files_at (rename_into i name data s) = (files_at s)(i := map_option (AList.update name data) (files_at s i))"
  by (auto simp: rename_into_def files_on_dir files_at_def fun_eq_iff option.map_comp o_def)

lemma files_remove_block:
  "files_at (remove_block sha256 i b s) = (files_at s)(i := map_option (AList.delete (block_file sha256 b)) (files_at s i))"
  by (auto simp: remove_block_def files_on_dir files_at_def fun_eq_iff option.map_comp o_def)

lemma files_missing: "dir_missing i s \<longleftrightarrow> files_at s i = None"
  by (simp add: dir_missing_def files_at_def)

lemma file_size_update: "file_size (AList.update name data fs) x = (if x = name then Some (int (length data)) else file_size fs x)"
  by (simp add: file_size_def AList.update_conv')

lemma file_size_delete: "file_size (AList.delete name fs) x = (if x = name then None else file_size fs x)"
  by (simp add: file_size_def AList.delete_conv)

lemma block_no_blob [simp]: "block_file sha256 b \<noteq> ''blob''" "''blob'' \<noteq> block_file sha256 b"
  by (simp_all add: block_file_def)

lemma save_files:
  assumes "then_do (saveEntry io e s) k = (s', r)"
  obtains "entries s' = entries s" "files_at s' = files_at s" "isl r"
  | t where "entries t = entries s" "files_at t = files_at s" "files_at s (ID e) \<noteq> None" "k () t = (s', r)"
proof (cases "files_at s (ID e) = None \<or> io SaveFile (ID e) \<noteq> None \<or> io SaveSync (ID e) \<noteq> None")
  case True
  with assms show thesis by (intro that(1)) (auto simp: saveEntry_def os_call_def files_missing split: if_splits option.splits)
next
  case False
  with assms show thesis by (intro that(2) [of "on_dir (ID e) (entry_json_update (\<lambda>_. Json e)) s"]) (auto simp: saveEntry_def os_call_def files_missing)
qed

section \<open>Changes that keep the files right\<close>

lemma files_same:
  assumes "files_inv sha256 N us cs s" "entries t = entries s" "files_at t = files_at s"
  shows "files_inv sha256 N us cs t"
proof -
  have "commit_files N t c = commit_files N s c" for c
    by (cases "snd c"; cases c) (simp_all add: entry_at_def assms(2))
  with assms show ?thesis by (simp add: files_inv_def)
qed

lemma files_other:
  assumes "files_inv sha256 N us cs s" "map_of (entries s) i = None" "entries t = entries s" "files_at t = (files_at s)(i := x)"
  shows "files_inv sha256 N us cs t"
proof -
  have "commit_files N t c = commit_files N s c" for c
    by (cases "snd c"; cases c) (simp_all add: entry_at_def assms(3))
  moreover have "files_at t j = files_at s j" if "map_of (entries s) j = Some e" for j e using assms(2,4) that by auto
  ultimately show ?thesis using assms(1,3) by (auto simp: files_inv_def)
qed

lemma files_put:
  assumes "files_inv sha256 N us cs s" "map_of (entries t) = (map_of (entries s))(i \<mapsto> e)" "files_at t = (files_at s)(i := x)"
    and "entry_files sha256 N x e" "Uploaded (entry_at s i) \<longrightarrow> Uploaded e"
  shows "files_inv sha256 N us cs t"
proof -
  have "commit_files N t c" if "commit_files N s c" for c
    using that assms(2,5) by (cases "snd c"; cases c) (auto simp: entry_at_def)
  with assms show ?thesis by (auto simp: files_inv_def)
qed

lemma files_fewer: "files_inv sha256 N us cs s \<Longrightarrow> set vs \<subseteq> set us \<Longrightarrow> files_inv sha256 N vs cs s"
  by (auto simp: files_inv_def)

lemma served_forget: "served sha256 N l us cs s \<Longrightarrow> idle s i \<Longrightarrow> served sha256 N l us cs (forget i s)"
proof -
  assume s: "served sha256 N l us cs s" and idle: "idle s i"
  have "commit_files N (forget i s) c" if c: "c \<in> set cs" for c
  proof -
    have "ID (fst c) \<noteq> i" using s idle c by (auto simp: served_def quota_inv_def commits_ok_def idle_def)
    moreover have "commit_files N s c" using s c by (simp add: served_def files_inv_def)
    ultimately show ?thesis by (cases "snd c"; cases c) (auto simp: entry_at_def forget_def AList.delete_conv)
  qed
  with s quota_forget [OF _ idle] show ?thesis
    by (auto simp: served_def files_inv_def) (auto simp: forget_def AList.delete_conv split: if_splits)
qed

interpretation files: idle_removal "served sha256 N l us cs" for sha256 N l us cs
proof unfold_locales
  show "served sha256 N l us cs (on_dir i (entry_json_update (\<lambda>_. j)) s)" if "served sha256 N l us cs s" for s i j
    using that quota.on_dir_keeps by (auto simp: served_def intro: files_same)
  show "served sha256 N l us cs (s\<lparr>disk := AList.delete i (disk s)\<rparr>)"
    if "served sha256 N l us cs s" "i \<notin> fst ` set (entries s)" for s i
    using that quota_disk
    by (auto simp: served_def files_at_def AList.delete_conv map_of_eq_None_iff fun_eq_iff intro!: files_other [where i = i and x = None and s = s])
  show "served sha256 N l us cs (forget i s)" if "served sha256 N l us cs s" "idle s i" for s i using that by (rule served_forget)
qed (auto simp: served_def intro: quota_keyed)

lemma served_room:
  assumes "served sha256 N l us cs s"
  shows "served sha256 N l us cs (fst (makeRoomLocked io tenant inc exc s))"
proof -
  have inv: "quota_inv l us cs s" using assms by (simp add: served_def)
  have "served sha256 N l us cs (fst (remove_all io (victims (room_found tenant inc exc s)) s))"
    using files.remove_all_keeps [OF assms] room_found_ok(1) [OF inv] by (simp add: room_ok_def)
  with assms show ?thesis by (simp add: makeRoomLocked_def Let_def room_found_def [symmetric])
qed

section \<open>Every step keeps the files right\<close>

subsection \<open>Uploads\<close>

lemma stage_begin_files:
  assumes s: "served sha256 N l us cs s" and "b \<in> N" and run: "stage_begin io tenant i b n s = (s', r)"
  shows "files_inv sha256 N (start_upload (i, b, n) r us) cs s'"
proof -
  have "s' = s \<or> (\<exists>inc t. t = fst (makeRoomLocked io tenant inc i s) \<and> entries s' = entries t \<and> files_at s' = files_at t)"
    using run by (auto simp: stage_begin_def Let_def then_do_def split: if_splits sum.splits prod.splits) (metis fst_conv)+
  moreover have "files_inv sha256 N us cs s'" if "t = fst (makeRoomLocked io tenant inc i s)" "entries s' = entries t" "files_at s' = files_at t" for inc t
    using served_room [OF s, of io tenant inc i] files_same that by (auto simp: served_def)
  ultimately have "files_inv sha256 N us cs s'" using s by (auto simp: served_def)
  with assms(2) show ?thesis by (auto simp: files_inv_def start_upload_def)
qed

lemma entry_there:
  assumes "served sha256 N l us cs s" "(i, b, n) \<in> set us"
  shows "map_of (entries s) i = Some (entry_at s i)" "entry_files sha256 N (files_at s i) (entry_at s i)" "b \<in> N" "0 \<le> n"
proof -
  have "i \<in> fst ` set (entries s)" "0 \<le> n" using assms by (auto simp: served_def quota_inv_def uploads_ok_def)
  then show e: "map_of (entries s) i = Some (entry_at s i)" and "0 \<le> n"
    by (auto simp: entry_at_def map_of_eq_None_iff split: option.split)
  show "entry_files sha256 N (files_at s i) (entry_at s i)" "b \<in> N" using assms e by (auto simp: served_def files_inv_def)
qed

text \<open>The block whose file is renamed into place is recorded with its size, and no other block has that file.\<close>

lemma block_stored:
  assumes "entry_files sha256 N (Some fs) e" "\<not> Uploaded e" "b \<in> N" "inj_on sha256 N"
  shows "entry_files sha256 N (Some (AList.update (block_file sha256 b) data fs)) (set_block b (int (length data)) e)"
proof -
  have "(block_file sha256 c = block_file sha256 b) = (c = b)" if "c \<in> N" for c
    using assms(3,4) that by (auto simp: block_file_def dest: inj_onD)
  with assms show ?thesis
    by (auto simp: entry_files_def set_block_def blocks_of_def [of "_\<lparr>Blocks := _\<rparr>"] file_size_update AList.update_conv' dest!: set_update)
qed

lemma whole_stored:
  assumes "entry_files sha256 N (Some fs) e" "\<not> Uploaded e"
  shows "entry_files sha256 N (Some (AList.update ''blob'' data fs)) e"
    and "Uploaded e' \<Longrightarrow> Size e' = int (length data) \<Longrightarrow> entry_files sha256 N (Some (AList.update ''blob'' data fs)) e'"
  using assms by (simp_all add: entry_files_def file_size_update)

lemma stage_finish_files:
  assumes s: "served sha256 N l us cs s" and u: "(i, b, n) \<in> set us" and inj: "inj_on sha256 N" and rename: "io RenameBlock i = None"
    and whole: "\<And>data. received = Inr data \<Longrightarrow> int (length data) = n" and run: "stage_finish io sha256 i b n received s = (s', r)"
  shows "files_inv sha256 N us cs s'"
proof -
  let ?s = "release i n s" and ?e = "entry_at s i"
  note e = entry_there [OF s u]
  have rel: "entries ?s = entries s" "files_at ?s = files_at s" "entry_at ?s i = ?e" by (simp_all add: release_def entry_at_def)
  have inv: "files_inv sha256 N us cs ?s" using s rel by (auto simp: served_def intro: files_same)
  have ide: "ID ?e = i" using s entry_okD [OF _ e(1)] by (auto simp: served_def quota_inv_def entry_ok_def)
  let ?w = "\<lambda>data. ?e\<lparr>Uploaded := True, Digest := sha256 data, Size := n\<rparr>"
  consider (none) "s' = ?s" | (whole) data where "received = Inr data" "\<not> Uploaded ?e"
      "then_do (saveEntry io (?w data) (rename_into i ''blob'' data ?s)) (\<lambda>_ s. (s\<lparr>entries := AList.update i (?w data) (entries s)\<rparr>, Inr ())) = (s', r)"
    | (block) data where "received = Inr data" "\<not> Uploaded ?e"
      "then_do (saveEntry io (set_block b n ?e) (rename_into i (block_file sha256 b) data (share_blocks i ?e (set_block b n ?e) ?s)))
        (\<lambda>_ s. (s\<lparr>entries := AList.update i (set_block b n ?e) (entries s)\<rparr>, Inr ())) = (s', r)"
    using run rel rename ide
    by (cases received) (auto simp: stage_finish_def Let_def release_def [symmetric] os_call_def split: if_splits option.splits)
  then show ?thesis
  proof cases
    case none
    with inv show ?thesis by simp
  next
    case whole
    obtain fs where fs: "files_at s i = Some fs" using e(2) by (cases "files_at s i") (simp_all add: entry_files_def)
    have at: "files_at (rename_into i ''blob'' data ?s) = (files_at s)(i := Some (AList.update ''blob'' data fs))"
      by (simp add: files_rename rel fs)
    have ents: "entries (rename_into i ''blob'' data ?s) = entries s" by (simp add: rename_into_def rel)
    note stored = whole_stored [OF e(2) [unfolded fs] whole(2), where data = data]
    from whole(3) show ?thesis
    proof (rule save_files)
      show ?thesis if "entries s' = entries (rename_into i ''blob'' data ?s)" "files_at s' = files_at (rename_into i ''blob'' data ?s)" "isl r"
        using that e(1) by (intro files_put [OF inv _ _ stored(1)]) (auto simp: rel at ents fun_upd_idem)
      show ?thesis if "entries t = entries (rename_into i ''blob'' data ?s)" "files_at t = files_at (rename_into i ''blob'' data ?s)"
        "(\<lambda>_ s. (s\<lparr>entries := AList.update i (?w data) (entries s)\<rparr>, Inr ())) () t = (s', r)" for t
        using that whole assms(5) [OF whole(1)]
        by (intro files_put [OF inv _ _ stored(2) [where e' = "?w data"]]) (auto simp: rel at ents AList.update_conv')
    qed
  next
    case block
    obtain fs where fs: "files_at s i = Some fs" using e(2) by (cases "files_at s i") (simp_all add: entry_files_def)
    let ?t = "rename_into i (block_file sha256 b) data (share_blocks i ?e (set_block b n ?e) ?s)"
    have n: "int (length data) = n" using assms(5) block(1) .
    have "Blocks ?e \<noteq> None" using e(2) block(2) fs by (simp add: entry_files_def)
    then have ents: "map_of (entries ?t) = (map_of (entries s))(i \<mapsto> set_block b n ?e)"
      and at: "files_at ?t = (files_at s)(i := Some (AList.update (block_file sha256 b) data fs))"
      by (auto simp: rename_into_def share_blocks_def rel AList.update_conv' files_rename [unfolded rename_into_def] fs)
    note stored = block_stored [OF e(2) [unfolded fs] block(2) e(3) inj, where data = data, unfolded n]
    have "map_of (entries s') = (map_of (entries s))(i \<mapsto> set_block b n ?e) \<and> files_at s' = files_at ?t"
      using block(3) by (rule save_files) (auto simp: ents AList.update_conv')
    moreover have "Uploaded (entry_at ?s i) \<longrightarrow> Uploaded (set_block b n ?e)" unfolding rel(3) by (simp add: set_block_def)
    ultimately show ?thesis using files_put [OF inv _ _ stored] at rel(1,2) by simp
  qed
qed

subsection \<open>Commits\<close>

lemma listed_exact:
  "listed_size e seen bs = Some n \<Longrightarrow> set bs \<subseteq> fst ` set (blocks_of e) \<and> n = sum_list (map (block_size e) bs)"
proof (induction e seen bs arbitrary: n rule: listed_size.induct)
  case (2 e seen b bs)
  then obtain m k where b: "map_of (blocks_of e) b = Some m" "b \<notin> set seen" and k: "listed_size e (b # seen) bs = Some k" "n = m + k"
    by (auto split: option.splits if_splits)
  from 2(1) [OF b k(1)] map_of_SomeD [OF b(1)] k(2) show ?case by (force simp: block_size_def [of e b] b(1))
qed simp

lemma range_exact: "range_loop e z offsets = Some (z', bs) \<Longrightarrow> z' = z + sum_list (map (block_size e) bs)"
  by (induction e z offsets arbitrary: bs rule: range_loop.induct) (auto split: if_splits)

lemma range_empty:
  "sizes_ok e \<Longrightarrow> range_loop e z offsets = Some (z', bs) \<Longrightarrow> z \<le> z' \<and> (z' = z \<longrightarrow> set bs \<subseteq> {range_block z})"
proof (induction e z offsets arbitrary: bs rule: range_loop.induct)
  case (2 e end_at offset offsets)
  have "0 \<le> block_size e (range_block offset)" using block_nonneg [OF 2(2), of "range_block offset"] .
  with 2 show ?case by (fastforce split: if_splits)
qed simp

lemma size_of_copy [simp]: "block_size (e\<lparr>Size := n\<rparr>) = block_size e"
  by (simp add: block_size_def blocks_of_def fun_eq_iff)

lemma files_begun:
  assumes "files_inv sha256 N us cs s" "commit_files N s (e, Copying [] bs)"
  shows "files_inv sha256 N us ((e, Copying [] bs) # cs) (start_commit i s)"
proof -
  have "files_inv sha256 N us ((e, Copying [] bs) # cs) s" using assms by (simp add: files_inv_def)
  then show ?thesis by (rule files_same) (simp_all add: start_commit_def)
qed

lemma blocks_in:
  assumes "served sha256 N l us cs s" "map_of (entries s) i = Some e" "\<not> Uploaded e"
  shows "fst ` set (blocks_of e) \<subseteq> N" "sizes_ok e" "Size e = 0"
proof -
  have "entry_files sha256 N (files_at s i) e" using assms by (auto simp: served_def files_inv_def)
  with assms(3) show "fst ` set (blocks_of e) \<subseteq> N" by (cases "files_at s i") (simp_all add: entry_files_def)
  show "sizes_ok e" "Size e = 0" using assms entry_okD by (auto simp: served_def quota_inv_def entry_ok_def)
qed

lemma begin_commit_files:
  assumes s: "served sha256 N l us cs s" and run: "beginCommitLocked tenant i bs s = (s', r)"
  shows "files_inv sha256 N us (begun (map_sum (\<lambda>err. err) (\<lambda>e. (e, bs)) r) cs) s'"
  using run
proof (cases rule: begin_commit_cases [where cs = cs])
  case (fresh e n)
  with listed_exact [OF fresh(5)] blocks_in [OF s fresh(1,2)] have "commit_files N s (e\<lparr>Size := n\<rparr>, Copying [] bs)" by auto
  with s fresh files_begun show ?thesis by (simp add: begun_def served_def)
qed (use s in \<open>simp add: served_def\<close>)

lemma begin_ranges_files:
  assumes s: "served sha256 N l us cs s" and zero: "range_block 0 \<in> N" and run: "beginRangeCommitLocked tenant i n s = (s', r)"
  shows "files_inv sha256 N us (begun r cs) s'"
  using run
proof (cases rule: begin_ranges_cases [where cs = cs])
  case (empty e bs)
  then have "map_of (entries s) i = Some e" by (simp add: getLocked_Inr)
  note e = blocks_in [OF s this empty(2)]
  from range_empty [OF e(2) empty(7)] range_exact [OF empty(7)] e(3) zero have "commit_files N s (e, Copying [] bs)" by auto
  with s empty files_begun show ?thesis by (simp add: begun_def served_def)
next
  case (commit bs q)
  from begin_commit_files [OF s commit(1)] commit(2) show ?thesis by simp
qed (use s in \<open>simp add: served_def\<close>)

lemma copy_files:
  assumes s: "served sha256 N l us (cs @ (e, Copying data (b # bs)) # ds) s" and run: "copy_block io sha256 (ID e) b s = Inr piece"
  shows "files_inv sha256 N us (cs @ (e, Copying (data @ piece) bs) # ds) s"
proof -
  from s obtain e0 where e0: "map_of (entries s) (ID e) = Some e0" "\<not> Uploaded e0" "Blocks e = Blocks e0"
    by (auto simp: served_def quota_inv_def commits_ok_def snapshot_of_def)
  have inv: "files_inv sha256 N us (cs @ (e, Copying data (b # bs)) # ds) s" using s by (simp add: served_def)
  obtain fs where fs: "files_at s (ID e) = Some fs" "map_of fs (block_file sha256 b) = Some piece"
    using run by (auto simp: copy_block_def dir_file_def files_at_def split: option.splits)
  have "entry_files sha256 N (files_at s (ID e)) e0" "b \<in> N" using inv e0(1) by (simp_all add: files_inv_def)
  then have "file_size fs (block_file sha256 b) = map_of (blocks_of e) b" using e0(2,3) fs(1) by (simp add: entry_files_def blocks_of_def)
  then have "map_of (blocks_of e) b = Some (int (length piece))" using fs(2) by (simp add: file_size_def)
  then have "block_size e b = int (length piece)" by (simp add: block_size_def)
  with inv show ?thesis by (auto simp: files_inv_def)
qed

lemma publish_files:
  assumes s: "served sha256 N l us (cs @ (e, Copying data []) # ds) s" and run: "publishCommit io e data s = (s', r)"
  shows "files_inv sha256 N us (cs @ (e, Published (if r = Inr () then bs else [])) # ds) s'"
proof -
  let ?cs = "cs @ (e, Published []) # ds" and ?e = "e\<lparr>Uploaded := True\<rparr>" and ?t = "rename_into (ID e) ''blob'' data s"
  from s obtain e0 where e0: "map_of (entries s) (ID e) = Some e0" "\<not> Uploaded e0"
    by (auto simp: served_def quota_inv_def commits_ok_def snapshot_of_def)
  have inv: "files_inv sha256 N us ?cs s" and size: "int (length data) = Size e" using s by (auto simp: served_def files_inv_def)
  have at_e: "entry_at s (ID e) = e0" by (simp add: entry_at_def e0)
  have e0_files: "entry_files sha256 N (files_at s (ID e)) e0" using inv e0(1) by (simp add: files_inv_def)
  then obtain fs where fs: "files_at s (ID e) = Some fs" by (cases "files_at s (ID e)") (simp_all add: entry_files_def)
  note stored = whole_stored [OF e0_files [unfolded fs] e0(2), where data = data]
  have t: "entries ?t = entries s" "files_at ?t = (files_at s)(ID e := Some (AList.update ''blob'' data fs))"
    by (simp_all add: rename_into_def files_rename [unfolded rename_into_def] fs)
  have "files_inv sha256 N us ?cs s' \<and> (r = Inr () \<longrightarrow> Uploaded (entry_at s' (ID e)))"
  proof (cases "io RenameBlob (ID e)")
    case None
    from run have "then_do (saveEntry io ?e ?t) (\<lambda>_ s. (put_entry ?e s, Inr ())) = (s', r)"
      by (simp add: publishCommit_def os_call_def Let_def None)
    then show ?thesis
    proof (rule save_files)
      assume same: "entries s' = entries ?t" "files_at s' = files_at ?t" "isl r"
      have "files_inv sha256 N us ?cs s'"
        using same(1,2) e0 by (intro files_put [OF inv _ _ stored(1)]) (auto simp: t at_e fun_upd_idem)
      with same(3) show ?thesis by auto
    next
      fix u assume u: "entries u = entries ?t" "files_at u = files_at ?t" "(\<lambda>_ s. (put_entry ?e s, Inr ())) () u = (s', r)"
      have "files_inv sha256 N us ?cs s'"
        using u size by (intro files_put [OF inv _ _ stored(2) [where e' = ?e]]) (auto simp: t put_entry_def AList.update_conv')
      moreover have "Uploaded (entry_at s' (ID e))" using u by (auto simp: entry_at_def put_entry_def AList.update_conv')
      ultimately show ?thesis by simp
    qed
  next
    case (Some m)
    with run inv show ?thesis by (auto simp: publishCommit_def os_call_def)
  qed
  then show ?thesis by (auto simp: files_inv_def)
qed

lemma remove_files:
  assumes s: "served sha256 N l us (cs @ (e, Published (b # bs)) # ds) s"
  shows "files_inv sha256 N us (cs @ (e, Published bs) # ds) (remove_block sha256 (ID e) b s)"
proof -
  let ?i = "ID e" and ?cs = "cs @ (e, Published bs) # ds"
  have inv: "files_inv sha256 N us ?cs s" and up: "Uploaded (entry_at s ?i)" using s by (auto simp: served_def files_inv_def)
  have "?i \<in> fst ` set (entries s)" using s by (simp add: served_def quota_inv_def commits_ok_def)
  then have here: "map_of (entries s) ?i = Some (entry_at s ?i)" by (auto simp: entry_at_def map_of_eq_None_iff split: option.split)
  then have "entry_files sha256 N (files_at s ?i) (entry_at s ?i)" using inv by (simp add: files_inv_def)
  then have "entry_files sha256 N (map_option (AList.delete (block_file sha256 b)) (files_at s ?i)) (entry_at s ?i)"
    using up by (cases "files_at s ?i") (simp_all add: entry_files_def file_size_delete)
  with here show ?thesis by (intro files_put [OF inv]) (auto simp: files_remove_block [unfolded remove_block_def] remove_block_def fun_upd_idem)
qed

lemma finish_files: "files_inv sha256 N us (cs @ c # ds) s \<Longrightarrow> files_inv sha256 N us (cs @ ds) (finishCommit i s)"
  by (rule files_same [where s = s]) (auto simp: files_inv_def finishCommit_def)

subsection \<open>Entries\<close>

lemma create_files:
  assumes s: "served sha256 N l us cs s" and run: "CreateEntry io now random tenant ref owner key version s = (s', r)"
  shows "files_inv sha256 N us cs s'"
proof -
  let ?i = "random_id random" and ?e = "new_entry now (random_id random) tenant ref owner key version"
  let ?t = "fst (cleanupLocked io now s)"
  let ?u = "?t\<lparr>disk := AList.update ?i \<lparr>entry_json = NoJson, dir_files = []\<rparr> (disk ?t)\<rparr>"
  have inv: "files_inv sha256 N us cs ?t" using files.cleanup_keeps [OF s] by (simp add: served_def)
  consider (same) "s' = s" | (cleaned) "s' = ?t"
    | (made) "map_of (entries ?t) ?i = None" "then_do (saveEntry io ?e ?u) (\<lambda>_ s. (put_entry ?e s, Inr ?e)) = (s', r)"
    using run unfolding CreateEntry_def Let_def
    by (cases "cleanupLocked io now s"; cases "snd (cleanupLocked io now s)")
      (auto simp: os_call_def split: if_splits sum.splits option.splits)
  then show ?thesis
  proof cases
    case made
    have at: "files_at ?u = (files_at ?t)(?i := Some [])" by (simp add: files_at_def fun_eq_iff AList.update_conv')
    have new: "entry_files sha256 N (Some []) ?e" by (simp add: entry_files_def new_entry_def blocks_of_def file_size_def)
    from made(2) show ?thesis
    proof (rule save_files)
      show ?thesis if "entries s' = entries ?u" "files_at s' = files_at ?u" using that made(1) at by (intro files_other [OF inv]) simp_all
      show ?thesis if "entries t = entries ?u" "files_at t = files_at ?u" "(\<lambda>_ s. (put_entry ?e s, Inr ?e)) () t = (s', r)" for t
        using that made(1) at by (intro files_put [OF inv _ _ new]) (auto simp: put_entry_def AList.update_conv' entry_at_def zero_entry_def new_entry_def)
    qed
  qed (use s inv in \<open>simp_all add: served_def\<close>)
qed

lemma touch_files:
  assumes s: "served sha256 N l us cs s" and e: "(i, e) \<in> set (entries s)" "Uploaded e" and e': "Uploaded e'" "Size e' = Size e"
    and run: "then_do (saveEntry io e' s) k = (s', r)"
    and k: "\<And>t. entries (fst (k () t)) = AList.update i e' (entries t) \<and> files_at (fst (k () t)) = files_at t"
  shows "files_inv sha256 N us cs s'"
proof -
  have inv: "files_inv sha256 N us cs s" and ok: "entries_ok s" using s by (simp_all add: served_def quota_inv_def)
  then have "map_of (entries s) i = Some e" using e(1) by (simp add: entries_ok_def)
  then have "entry_files sha256 N (files_at s i) e" using inv by (simp add: files_inv_def)
  then have new: "entry_files sha256 N (files_at s i) e'" using e(2) e' by (cases "files_at s i") (simp_all add: entry_files_def)
  from run show ?thesis
  proof (rule save_files)
    show ?thesis if "entries s' = entries s" "files_at s' = files_at s" using that by (rule files_same [OF inv])
    show ?thesis if "entries t = entries s" "files_at t = files_at s" "k () t = (s', r)" for t
      using that k [of t] e' by (intro files_put [OF inv _ _ new]) (simp_all add: AList.update_conv' fun_eq_iff)
  qed
qed

lemma finalize_files:
  assumes s: "served sha256 N l us cs s" and run: "Finalize io now tenant ref owner key version n s = (s', r)"
  shows "files_inv sha256 N us cs s'"
proof (cases "s' = s")
  case False
  with run obtain e where found: "find (same_key tenant ref key version) (map snd (entries s)) = Some e"
    by (cases "find (same_key tenant ref key version) (map snd (entries s))") (auto simp: Finalize_def)
  then obtain i where e: "(i, e) \<in> set (entries s)" by (auto simp: find_Some_iff) (metis nth_mem prod.collapse)
  then have i: "ID e = i" using s quota_keyed by (auto simp: served_def)
  let ?e = "e\<lparr>Finalized := True, AccessedAt := now\<rparr>"
  from run found False have up: "Uploaded e" and save: "then_do (saveEntry io ?e s) (\<lambda>_ s. (put_entry ?e s, Inr ?e)) = (s', r)"
    by (auto simp: Finalize_def Let_def split: if_splits)
  show ?thesis by (rule touch_files [OF s e up _ _ save]) (simp_all add: up put_entry_def i)
qed (use s in \<open>simp add: served_def\<close>)

lemma lookup_files:
  assumes s: "served sha256 N l us cs s" and run: "Lookup io now tenant refs key version restore s = (s', r)"
  shows "files_inv sha256 N us cs s'"
proof (cases "s' = s")
  case False
  let ?find = "\<lambda>t. find_refs (\<lambda>ref. ref_candidates tenant version ref t) refs (key # restore)" and ?t = "fst (cleanupLocked io now s)"
  have t: "served sha256 N l us cs ?t" using files.cleanup_keeps [OF s] .
  from False run have "then_do (cleanupLocked io now s)
      (\<lambda>_ t. case ?find t of None \<Rightarrow> (t, Inl ErrNotFound) | Some e \<Rightarrow> touch io now e t) = (s', r)"
    by (auto simp: Lookup_def split: sum.splits if_splits option.splits)
  then consider (cleaned) "s' = ?t" | (found) e where "?find ?t = Some e" "touch io now e ?t = (s', r)"
    by (rule fst_then_do) (auto split: option.splits)
  then show ?thesis
  proof cases
    case found
    from find_refs_mem [OF found(1)] obtain i where e: "(i, e) \<in> set (entries ?t)" "Finalized e"
      by (auto simp: ref_candidates_def newest_first_def)
    then have i: "ID e = i" and up: "Uploaded e"
      using t by (auto simp: served_def quota_inv_def entries_ok_def entry_ok_def)
    show ?thesis
      by (rule touch_files [OF t e(1) up _ _ found(2) [unfolded touch_def Let_def]]) (simp_all add: up put_entry_def i)
  qed (use t in \<open>simp add: served_def\<close>)
qed (use s in \<open>simp add: served_def\<close>)

lemma open_files:
  assumes s: "served sha256 N l us cs s" and run: "OpenEntry io now tenant i s = (s', r)"
  shows "files_inv sha256 N us cs s'"
proof (cases "s' = s")
  case False
  with run obtain e where got: "getLocked tenant i s = Inr e" "Finalized e"
    by (cases "getLocked tenant i s") (auto simp: OpenEntry_def split: if_splits)
  then have e: "(i, e) \<in> set (entries s)" by (auto simp: getLocked_Inr dest: map_of_SomeD)
  have up: "Uploaded e" using s e got(2) by (auto simp: served_def quota_inv_def entries_ok_def entry_ok_def)
  from run got have save: "then_do (saveEntry io (e\<lparr>AccessedAt := now\<rparr>) s) (\<lambda>_ s.
      let s = s\<lparr>entries := AList.update i (e\<lparr>AccessedAt := now\<rparr>) (entries s)\<rparr>
      in os_call io OpenBlob i s (\<lambda>s. case dir_file s i ''blob'' of
           None \<Rightarrow> (s, Inl (IOError ''no such file or directory''))
         | Some data \<Rightarrow> (s, Inr (data, e\<lparr>AccessedAt := now\<rparr>)))) = (s', r)"
    by (simp add: OpenEntry_def Let_def)
  show ?thesis
    by (rule touch_files [OF s e up _ _ save]) (simp_all add: up Let_def os_call_def split: option.split)
qed (use s in \<open>simp add: served_def\<close>)

section \<open>Reachable states\<close>

definition renames_succeed :: "(faults \<Rightarrow> bool) \<Rightarrow> bool" where
  "renames_succeed may_fail \<longleftrightarrow> (\<forall>io i. may_fail io \<longrightarrow> io RenameBlock i = None)"

lemma received_size: "receive io i body n = Inr data \<Longrightarrow> int (length data) = n"
  by (auto simp: receive_def and_then_eq_Inr split: option.splits if_splits)

lemma step_files:
  assumes step: "cache_step sha256 may_fail block_names y z" and s: "served sha256 N l (uploads y) (commits y) (st y)"
    and names: "block_names \<subseteq> N" "range_block 0 \<in> N" "inj_on sha256 N" and renames: "renames_succeed may_fail"
  shows "files_inv sha256 N (uploads z) (commits z) (st z)"
  using step
proof cases
  case (create io now random tenant ref owner key version s r)
  with create_files [OF s] show ?thesis by simp
next
  case (stage io block tenant i n s r)
  with stage_begin_files [OF s] names(1) show ?thesis by auto
next
  case (staged io i block n body s r)
  have "io RenameBlock i = None" using renames staged(2) by (simp add: renames_succeed_def)
  from stage_finish_files [OF s staged(3) names(3) this received_size staged(4)] show ?thesis
    using files_fewer [OF _ set_remove1_subset] staged(1) by auto
next
  case (begin_commit tenant i blocks s r)
  with begin_commit_files [OF s] show ?thesis by simp
next
  case (begin_ranges tenant i n s r)
  with begin_ranges_files [OF s names(2)] show ?thesis by simp
next
  case (copy io cs e data block blocks ds piece)
  with copy_files s show ?thesis by simp
next
  case (publish io cs e data ds s r)
  with publish_files s show ?thesis by simp
next
  case (remove cs e block blocks ds)
  with remove_files s show ?thesis by simp
next
  case (finish cs e phase ds)
  with finish_files [of sha256 N "uploads y" cs "(e, phase)" ds "st y" "ID e"] s show ?thesis by (simp add: served_def)
next
  case (finalize io now tenant ref owner key version n s r)
  with finalize_files [OF s] show ?thesis by simp
next
  case (lookup io now tenant refs key version restore s r)
  with lookup_files [OF s] show ?thesis by simp
next
  case (list io now tenant refs p s r)
  from list(3) have "s = fst (cleanupLocked io now (st y))"
    unfolding ListEntries_def by (rule fst_then_do) simp_all
  with list(1) files.cleanup_keeps [OF s] show ?thesis by (simp add: served_def)
next
  case (openEntry io now tenant i s r)
  with open_files [OF s] show ?thesis by simp
next
  case (cleanup io now s r)
  with files.cleanup_keeps [OF s, of io now] show ?thesis by (simp add: served_def)
qed

lemma reachable_files:
  assumes "block_names \<subseteq> N" "range_block 0 \<in> N" "inj_on sha256 N" "renames_succeed may_fail"
  shows "cache_reachable sha256 may_fail block_names l y \<Longrightarrow> files_inv sha256 N (uploads y) (commits y) (st y)"
proof (induction rule: cache_reachable.induct)
  case start
  then show ?case by (simp add: files_inv_def fresh_service_def empty_store_def)
next
  case (step y z)
  with step_files [OF step(2) _ assms] reachable_inv [OF step(1)] show ?case by (simp add: served_def)
qed

section \<open>The quotas\<close>

text \<open>The sizes the store records for the entries with a property.\<close>

definition recorded_bytes :: "(Entry \<Rightarrow> bool) \<Rightarrow> Store \<Rightarrow> int" where
  "recorded_bytes P s = sum_list (map stagedSize (filter P (map snd (entries s))))"

lemma stored_le_load:
  assumes "entries_ok s"
  shows "recorded_bytes (\<lambda>e. F (Tenant e)) s \<le> load us F s"
proof -
  have "sum_list (map stagedSize (filter (\<lambda>e. F (Tenant e)) (map snd xs))) =
      sum_list (map (\<lambda>p. if F (Tenant (snd p)) then stagedSize (snd p) else 0) xs)" for xs :: "(int \<times> Entry) list"
    by (induction xs) auto
  moreover have "sum_list (map (\<lambda>p. if F (Tenant (snd p)) then stagedSize (snd p) else 0) (entries s)) \<le> load us F s"
    unfolding load_def
    by (rule sum_list_mono) (use assms in \<open>auto simp: entries_ok_def entry_ok_def outcome_def staged_le_worst\<close>)
  ultimately show ?thesis by (simp add: recorded_bytes_def)
qed

text \<open>In a state whose files are right, the bytes in the files of an entry are the size that is recorded.\<close>

lemma entry_bytes_recorded:
  assumes "files_inv sha256 N us cs s" "entries_ok s" "(i, e) \<in> set (entries s)"
  shows "entry_bytes sha256 s (i, e) = stagedSize e"
proof -
  from assms(2,3) have "map_of (entries s) i = Some e" and ok: "sizes_ok e" by (auto simp: entries_ok_def entry_ok_def)
  then have right: "entry_files sha256 N (files_at s i) e" using assms(1) by (simp add: files_inv_def)
  then obtain fs where fs: "files_at s i = Some fs" by (cases "files_at s i") (simp_all add: entry_files_def)
  show ?thesis
  proof (cases "Uploaded e")
    case True
    with right fs show ?thesis by (simp add: entry_bytes_def entry_files_def stagedSize_def bytes_of_def)
  next
    case False
    have "distinct (map fst (blocks_of e))" using ok by (simp add: sizes_ok_def)
    with False right fs have "file_size fs (block_file sha256 b) = Some n" if "(b, n) \<in> set (blocks_of e)" for b n
      using that by (force simp: entry_files_def)
    then have "map (\<lambda>(b, _). bytes_of (file_size fs (block_file sha256 b))) (blocks_of e) = map snd (blocks_of e)"
      by (intro map_cong) (auto simp: bytes_of_def)
    with False fs show ?thesis unfolding entry_bytes_def stagedSize_def by (simp only: prod.case option.case if_False)
  qed
qed

lemma data_bytes_recorded:
  assumes "files_inv sha256 N us cs s" "entries_ok s"
  shows "data_bytes sha256 P s = recorded_bytes P s"
proof -
  have "map (entry_bytes sha256 s) (filter (\<lambda>p. P (snd p)) (entries s)) = map (stagedSize \<circ> snd) (filter (\<lambda>p. P (snd p)) (entries s))"
    by (rule map_cong) (auto simp: entry_bytes_recorded [OF assms])
  moreover have "filter P (map snd (entries s)) = map snd (filter (\<lambda>p. P (snd p)) (entries s))" by (simp add: filter_map o_def)
  ultimately show ?thesis unfolding data_bytes_def recorded_bytes_def by (simp only: map_map)
qed

lemma recorded_within:
  assumes "cache_reachable sha256 may_fail block_names l y"
  shows "recorded_bytes (\<lambda>_. True) (st y) \<le> MaxTotalBytes l" "recorded_bytes (\<lambda>e. Tenant e = tenant) (st y) \<le> MaxRepositoryBytes l"
    "list_all (\<lambda>(_, e). stagedSize e \<le> MaxEntryBytes l) (entries (st y))" "entries_ok (st y)"
proof -
  from reachable_inv [OF assms] show ok: "entries_ok (st y)" by (simp add: quota_inv_def)
  from reachable_inv [OF assms] have lim: "within l (uploads y) (st y)" by (simp add: quota_inv_def)
  have "stagedSize e \<le> outcome (uploads y) (i, e)" if "(i, e) \<in> set (entries (st y))" for i e
    using ok that by (auto simp: entries_ok_def entry_ok_def outcome_def staged_le_worst)
  with lim show "list_all (\<lambda>(_, e). stagedSize e \<le> MaxEntryBytes l) (entries (st y))"
    unfolding within_def list_all_iff by fastforce
  from lim stored_le_load [OF ok, of "\<lambda>_. True" "uploads y"] stored_le_load [OF ok, of "(=) tenant" "uploads y"]
  show "recorded_bytes (\<lambda>_. True) (st y) \<le> MaxTotalBytes l" "recorded_bytes (\<lambda>e. Tenant e = tenant) (st y) \<le> MaxRepositoryBytes l"
    unfolding within_def by (auto simp: eq_commute intro: order_trans)
qed

text \<open>
  C10. The quotas of the cache hold at every moment. From an empty store, however the uploads, commits, look-ups and clean-ups of many
  clients interleave, and whichever calls of the operating system fail, the sizes that the store records for all entries together
  stay within the total limit, those of each repository within the limit of a repository, and the size of each entry within the
  limit of an entry. This includes blocks that are uploaded a second time with another size while the first upload is still under way.
  Where no rename of a block fails and no two of the block names in use have the same digest, the same holds for the bytes in the files
  with the data of the entries: the blob of an entry that is uploaded, the blocks of one that is not. Temporary files, the blocks that a
  commit is still removing beside its blob, and a directory whose removal failed are no such files.
\<close>

theorem quotas_hold:
  assumes "cache_reachable sha256 may_fail block_names l y"
  shows "recorded_bytes (\<lambda>_. True) (st y) \<le> MaxTotalBytes l
    \<and> recorded_bytes (\<lambda>e. Tenant e = tenant) (st y) \<le> MaxRepositoryBytes l
    \<and> list_all (\<lambda>(_, e). stagedSize e \<le> MaxEntryBytes l) (entries (st y))
    \<and> (renames_succeed may_fail \<and> inj_on sha256 (insert (range_block 0) block_names) \<longrightarrow>
        data_bytes sha256 (\<lambda>_. True) (st y) \<le> MaxTotalBytes l
        \<and> data_bytes sha256 (\<lambda>e. Tenant e = tenant) (st y) \<le> MaxRepositoryBytes l
        \<and> list_all (\<lambda>p. entry_bytes sha256 (st y) p \<le> MaxEntryBytes l) (entries (st y)))"
proof -
  note recorded = recorded_within(1) [OF assms] recorded_within(2) [OF assms, of tenant] recorded_within(3,4) [OF assms]
  moreover have "data_bytes sha256 (\<lambda>_. True) (st y) \<le> MaxTotalBytes l
        \<and> data_bytes sha256 (\<lambda>e. Tenant e = tenant) (st y) \<le> MaxRepositoryBytes l
        \<and> list_all (\<lambda>p. entry_bytes sha256 (st y) p \<le> MaxEntryBytes l) (entries (st y))"
    if "renames_succeed may_fail" "inj_on sha256 (insert (range_block 0) block_names)"
  proof -
    have files: "files_inv sha256 (insert (range_block 0) block_names) (uploads y) (commits y) (st y)"
      by (rule reachable_files [OF _ _ that(2,1) assms]) auto
    have "entry_bytes sha256 (st y) p \<le> MaxEntryBytes l" if p: "p \<in> set (entries (st y))" for p
      using entry_bytes_recorded [OF files recorded(4), of "fst p" "snd p"] recorded(3) p by (force simp: list_all_iff)
    with recorded(1,2) show ?thesis by (simp add: data_bytes_recorded [OF files recorded(4)] list_all_iff)
  qed
  ultimately show ?thesis by blast
qed

theorem quotas_hold_witness:
  "recorded_bytes (\<lambda>e. Tenant e = sample_tenant) (st demo_staged) \<le> 20 \<and> recorded_bytes (\<lambda>_. True) (st demo_staged) = 3 \<and>
   data_bytes (\<lambda>s. s) (\<lambda>_. True) (st demo_staged) \<le> 30 \<and> data_bytes (\<lambda>s. s) (\<lambda>_. True) (st demo_staged) = 3"
proof -
  have "recorded_bytes (\<lambda>_. True) (st demo_staged) = 3" "data_bytes (\<lambda>s. s) (\<lambda>_. True) (st demo_staged) = 3" by code_simp+
  moreover have "renames_succeed ((=) no_faults)" by (auto simp: renames_succeed_def no_faults_def)
  moreover have "inj_on (\<lambda>s. s) (insert (range_block 0) {''b''})" by simp
  ultimately show ?thesis using quotas_hold [OF demo_reachable, of sample_tenant] by (simp add: sample_limits_def)
qed

end
