(* ===== verification/RunnerClaim.thy ===== *)
theory RunnerClaim
  imports JobGraph "HOL-Library.Product_Lexorder"
begin

text \<open>
  The assignment of queued jobs to Runners, \<^verbatim>\<open>src/internal/controller/runner_controller.go\<close>: which job a Runner picks
  (\<^verbatim>\<open>claimWorkflowJob\<close>, \<^verbatim>\<open>matrixJobState\<close>), how the claim is written to the API server, and how a Runner finds, keeps and gives
  up the job it is assigned (\<^verbatim>\<open>assignedWorkflowJob\<close>, \<^verbatim>\<open>releaseRunnerClaim\<close>, \<^verbatim>\<open>updateRunnerStatus\<close>).

  The second part is a state machine: the objects of the API server with their resource versions, and for each Runner the point
  of its reconciliation, where the reconciliations of different Runners, the other controllers and crashes
  interleave between any two API calls. A cached copy may be stale: it is any version of the object, and
  only a write against the current version succeeds. As the controller runtime guarantees, one Runner is not reconciled twice at
  the same time. Not part of the model are the re-creation of a Runner under its old name and a write whose
  answer is lost.
\<close>

section \<open>Objects\<close>

record QueueJob =
  wj :: WorkflowJob
  RunsOn :: "string list"
  job_created :: int
  project_label :: string
  job_deleting :: bool

record Runner =
  runner_name :: string
  runner_uid :: string
  runner_deleting :: bool
  runner_labels :: "string list"
  WorkflowJobRef :: "string option"
  runner_conditions :: conditions

section \<open>Which job is claimed\<close>

definition runnerLabelsMatch :: "string list \<Rightarrow> string list \<Rightarrow> bool" where
  "runnerLabelsMatch available requested = list_all (\<lambda>label. label \<in> set available) requested"

definition matrixJobGroup :: "QueueJob \<Rightarrow> WorkflowJobMatrix \<Rightarrow> string" where
  "matrixJobGroup job matrix =
     (if job_run_label (wj job) = [] then WorkflowRunRef (wj job) else job_run_label (wj job)) @ CHR 0x00 # LogicalJobID matrix"

definition in_group :: "string \<Rightarrow> QueueJob \<Rightarrow> bool" where
  "in_group g job = (case Matrix (wj job) of None \<Rightarrow> False | Some matrix \<Rightarrow> matrixJobGroup job matrix = g)"

definition matrix_active :: "QueueJob list \<Rightarrow> string \<Rightarrow> int" where
  "matrix_active js g =
     int (length (filter (\<lambda>job. in_group g job \<and> RunnerRef (wj job) \<noteq> None \<and> \<not> workflowJobTerminal (wj job)) js))"

definition matrix_failed :: "QueueJob list \<Rightarrow> string \<Rightarrow> bool" where
  "matrix_failed js g = list_ex (\<lambda>job. in_group g job \<and> workflowJobFailureTriggersMatrixFailFast (wj job)) js"

definition matrixJobState :: "'e + QueueJob list \<Rightarrow> 'e + (string \<Rightarrow> int) \<times> (string \<Rightarrow> bool)" where
  "matrixJobState listed = (case listed of Inl e \<Rightarrow> Inl e | Inr js \<Rightarrow> Inr (matrix_active js, matrix_failed js))"

datatype verdict = Skip | Recreated | Eligible

definition judge_job :: "Runner \<Rightarrow> string \<Rightarrow> (string \<Rightarrow> int) \<Rightarrow> (string \<Rightarrow> bool) \<Rightarrow> QueueJob \<Rightarrow> verdict" where
  "judge_job runner project_uid active failed job =
     (if job_deleting job \<or> workflowJobTerminal (wj job) \<or> \<not> workflowJobReady (wj job) then Skip
      else if project_label job \<noteq> project_uid then Recreated
      else if \<not> runnerLabelsMatch (runner_labels runner) (RunsOn job) then Skip
      else case Matrix (wj job) of
          None \<Rightarrow> Eligible
        | Some matrix \<Rightarrow>
            if failed (matrixJobGroup job matrix) then Skip
            else if MaxParallel matrix > 0 \<and> active (matrixJobGroup job matrix) \<ge> MaxParallel matrix then Skip
            else Eligible)"

text \<open>
  The loop over the queue: the jobs of an earlier project of the same name are failed on the way, and a run that cannot be read ends it.
  \<open>planned\<close> is the answer about a run, which the code asks for once per run.
\<close>

fun claim_scan :: "(string \<Rightarrow> 'e + bool) \<Rightarrow> (QueueJob \<Rightarrow> verdict) \<Rightarrow> (nat \<times> QueueJob) list \<Rightarrow>
    (nat \<times> QueueJob) list \<times> ('e + QueueJob list)" where
  "claim_scan planned judge [] = ([], Inr [])"
| "claim_scan planned judge ((version, job) # queue) =
     (case judge job of
        Skip \<Rightarrow> claim_scan planned judge queue
      | Recreated \<Rightarrow> (case claim_scan planned judge queue of (failing, r) \<Rightarrow> ((version, job) # failing, r))
      | Eligible \<Rightarrow>
          (case planned (WorkflowRunRef (wj job)) of
             Inl e \<Rightarrow> ([], Inl e)
           | Inr is_planned \<Rightarrow>
               (case claim_scan planned judge queue of (failing, r) \<Rightarrow>
                  (failing, map_sum id (\<lambda>candidates. if is_planned then job # candidates else candidates) r))))"

definition claim_key :: "QueueJob \<Rightarrow> int \<times> string" where
  "claim_key job = (job_created job, job_name (wj job))"

definition claim_candidate :: "Runner \<Rightarrow> string \<Rightarrow> (string \<Rightarrow> 'e + bool) \<Rightarrow> (nat \<times> QueueJob) list \<Rightarrow> 'e + QueueJob list \<Rightarrow>
    (nat \<times> QueueJob) list \<times> ('e + QueueJob option)" where
  "claim_candidate runner project_uid planned queue listed =
     (case (if list_ex (\<lambda>(_, job). Matrix (wj job) \<noteq> None) queue then matrixJobState listed else Inr (\<lambda>_. 0, \<lambda>_. False)) of
        Inl e \<Rightarrow> ([], Inl e)
      | Inr (active, failed) \<Rightarrow>
          (case claim_scan planned (judge_job runner project_uid active failed) queue of (failing, r) \<Rightarrow>
             (failing, map_sum id (\<lambda>candidates. case sort_key claim_key candidates of [] \<Rightarrow> None | job # _ \<Rightarrow> Some job) r)))"

section \<open>Status writes\<close>

definition set_ready :: "conditions \<Rightarrow> condition_status \<Rightarrow> string \<Rightarrow> string \<Rightarrow> string option \<Rightarrow> conditions" where
  "set_ready cs ready reason message ref =
     (let cs = set_condition cs ''Ready'' ready reason message
      in if ref = None then set_condition cs ''Busy'' ConditionFalse ''Idle'' ''Runner is not assigned a WorkflowJob''
         else set_condition cs ''Busy'' ConditionTrue ''JobAssigned'' ''Runner is assigned a WorkflowJob'')"

definition runner_status :: "Runner \<Rightarrow> condition_status \<Rightarrow> string \<Rightarrow> string \<Rightarrow> string option \<Rightarrow> Runner" where
  "runner_status runner ready reason message ref =
     runner\<lparr>WorkflowJobRef := ref, runner_conditions := set_ready (runner_conditions runner) ready reason message ref\<rparr>"

definition operational :: "Runner \<Rightarrow> string option \<Rightarrow> Runner" where
  "operational runner ref = runner_status runner ConditionTrue ''Ready'' ''Runner is operational'' ref"

definition setWorkflowJobAssigned :: "WorkflowJob \<Rightarrow> WorkflowJob option" where
  "setWorkflowJobAssigned job =
     (case RunnerRef job of
        None \<Rightarrow> None
      | Some name \<Rightarrow>
          let scheduled = find_condition (job_conditions job) ''Scheduled'';
              cs = set_condition (job_conditions job) ''Assigned'' ConditionTrue ''RunnerAssigned''
                (''WorkflowJob is assigned to Runner '' @ CHR 0x22 # name @ [CHR 0x22])
          in Some (job\<lparr>job_conditions :=
               (if (case scheduled of None \<Rightarrow> True | Some c \<Rightarrow> Reason c = ''RunnerAssigned'')
                then set_condition cs ''Scheduled'' ConditionFalse ''PodPending'' ''Waiting for the workflow Pod to be scheduled to a node''
                else cs)\<rparr>))"

definition completed_job :: "WorkflowJob \<Rightarrow> job_result \<Rightarrow> int \<Rightarrow> string \<Rightarrow> string \<Rightarrow> WorkflowJob option" where
  "completed_job job result now reason message =
     map_option (\<lambda>job. job\<lparr>Result := result, job_completion := Some now,
         job_conditions := set_condition (job_conditions job) ''Succeeded'' ConditionFalse reason message\<rparr>)
       (setWorkflowJobAssigned job)"

definition failed_queued_job :: "WorkflowJob \<Rightarrow> int \<Rightarrow> string \<Rightarrow> string \<Rightarrow> WorkflowJob" where
  "failed_queued_job job now reason message =
     job\<lparr>Result := Failure, job_completion := Some now,
       job_conditions := set_condition (set_condition (job_conditions job) ''Scheduled'' ConditionFalse reason message)
         ''Succeeded'' ConditionFalse reason message\<rparr>"

section \<open>The objects and the Runners' reconciliations\<close>

type_synonym 'a objects = "string \<rightharpoonup> nat \<times> 'a"

text \<open>
  Where the reconciliation of a Runner stands: nothing under way; a job to claim read at a version; with the Runner read as well; with
  the Runner's reference written; after a refused assignment; about to drop the reference that a copy of the Runner holds.
\<close>

datatype claim_state =
    Idle
  | Picked nat QueueJob
  | RunnerRead nat QueueJob nat Runner
  | Reserved nat QueueJob
  | Releasing string
  | Clearing nat Runner

record world =
  w_jobs :: "QueueJob objects"
  w_runners :: "Runner objects"
  w_next :: nat
  w_proc :: "string \<Rightarrow> claim_state"

text \<open>A write against a resource version: refused unless it is the current one.\<close>

definition put_object :: "nat \<Rightarrow> 'a objects \<Rightarrow> string \<Rightarrow> nat \<Rightarrow> 'a \<Rightarrow> 'a objects option" where
  "put_object fresh m name version x =
     (case m name of
        None \<Rightarrow> None
      | Some (current_version, _) \<Rightarrow> if current_version = version then Some (m(name \<mapsto> (fresh, x))) else None)"

definition put_runner :: "world \<Rightarrow> string \<Rightarrow> nat \<Rightarrow> Runner \<Rightarrow> world option" where
  "put_runner w r version x =
     map_option (\<lambda>m. w\<lparr>w_runners := m, w_next := Suc (w_next w)\<rparr>) (put_object (w_next w) (w_runners w) r version x)"

definition put_job :: "world \<Rightarrow> string \<Rightarrow> nat \<Rightarrow> QueueJob \<Rightarrow> world option" where
  "put_job w n version x =
     map_option (\<lambda>m. w\<lparr>w_jobs := m, w_next := Suc (w_next w)\<rparr>) (put_object (w_next w) (w_jobs w) n version x)"

definition set_proc :: "world \<Rightarrow> string \<Rightarrow> claim_state \<Rightarrow> world" where
  "set_proc w r p = w\<lparr>w_proc := (w_proc w)(r := p)\<rparr>"

text \<open>A copy that a cache may hold: an object of some version, with the content of that version.\<close>

definition is_copy :: "nat \<Rightarrow> 'a objects \<Rightarrow> string \<Rightarrow> nat \<times> 'a \<Rightarrow> bool" where
  "is_copy fresh m name copy \<longleftrightarrow>
     fst copy < fresh \<and> (case m name of None \<Rightarrow> True | Some (version, x) \<Rightarrow> version = fst copy \<longrightarrow> x = snd copy)"

definition job_of :: "QueueJob \<Rightarrow> string" where
  "job_of job = job_name (wj job)"

section \<open>The steps of a claim\<close>

definition pick_job :: "world \<Rightarrow> string \<Rightarrow> QueueJob \<Rightarrow> world" where
  "pick_job w r candidate =
     (case w_jobs w (job_of candidate) of
        None \<Rightarrow> w
      | Some (version, fresh) \<Rightarrow>
          if job_uid (wj fresh) \<noteq> job_uid (wj candidate) \<or> job_deleting fresh \<or> workflowJobTerminal (wj fresh) \<or>
             \<not> workflowJobReady (wj fresh) \<or> RunnerRef (wj fresh) \<noteq> None
          then w else set_proc w r (Picked version fresh))"

definition read_runner :: "world \<Rightarrow> string \<Rightarrow> string \<Rightarrow> world" where
  "read_runner w r uid =
     (case w_proc w r of
        Picked jv job \<Rightarrow>
          (case w_runners w r of
             None \<Rightarrow> set_proc w r Idle
           | Some (rv, runner) \<Rightarrow>
               if runner_uid runner \<noteq> uid \<or> runner_deleting runner \<or> WorkflowJobRef runner \<noteq> None then set_proc w r Idle
               else set_proc w r (RunnerRead jv job rv runner))
      | _ \<Rightarrow> w)"

definition reserve_runner :: "world \<Rightarrow> string \<Rightarrow> world" where
  "reserve_runner w r =
     (case w_proc w r of
        RunnerRead jv job rv runner \<Rightarrow>
          (case put_runner w r rv (operational runner (Some (job_of job))) of
             None \<Rightarrow> set_proc w r Idle
           | Some w' \<Rightarrow> set_proc w' r (Reserved jv job))
      | _ \<Rightarrow> w)"

definition assignWorkflowJob :: "world \<Rightarrow> string \<Rightarrow> world" where
  "assignWorkflowJob w r =
     (case w_proc w r of
        Reserved jv job \<Rightarrow>
          (case setWorkflowJobAssigned ((wj job)\<lparr>RunnerRef := Some r\<rparr>) of
             None \<Rightarrow> set_proc w r (Releasing (job_of job))
           | Some assigned \<Rightarrow>
               (case put_job w (job_of job) jv (job\<lparr>wj := assigned\<rparr>) of
                  None \<Rightarrow> set_proc w r (Releasing (job_of job))
                | Some w' \<Rightarrow> set_proc w' r Idle))
      | _ \<Rightarrow> w)"

definition releaseRunnerClaim :: "world \<Rightarrow> string \<Rightarrow> string \<Rightarrow> world" where
  "releaseRunnerClaim w r uid =
     (case w_proc w r of
        Releasing name \<Rightarrow>
          (case w_runners w r of
             None \<Rightarrow> set_proc w r Idle
           | Some (rv, runner) \<Rightarrow>
               if runner_uid runner \<noteq> uid \<or> WorkflowJobRef runner \<noteq> Some name then set_proc w r Idle
               else set_proc w r (Clearing rv runner))
      | _ \<Rightarrow> w)"

definition clear_reference :: "world \<Rightarrow> string \<Rightarrow> world" where
  "clear_reference w r =
     (case w_proc w r of
        Clearing rv runner \<Rightarrow> set_proc (case put_runner w r rv (operational runner None) of None \<Rightarrow> w | Some w' \<Rightarrow> w') r Idle
      | _ \<Rightarrow> w)"

definition failQueuedWorkflowJob :: "world \<Rightarrow> nat \<times> QueueJob \<Rightarrow> int \<Rightarrow> string \<Rightarrow> string \<Rightarrow> world option" where
  "failQueuedWorkflowJob w copy now reason message =
     put_job w (job_of (snd copy)) (fst copy) ((snd copy)\<lparr>wj := failed_queued_job (wj (snd copy)) now reason message\<rparr>)"

fun fail_recreated :: "world \<Rightarrow> (nat \<times> QueueJob) list \<Rightarrow> int \<Rightarrow> string \<Rightarrow> world \<times> bool" where
  "fail_recreated w [] now message = (w, True)"
| "fail_recreated w (copy # copies) now message =
     (case failQueuedWorkflowJob w copy now ''ProjectRecreated'' message of
        None \<Rightarrow> (w, False)
      | Some w' \<Rightarrow> fail_recreated w' copies now message)"

text \<open>The whole claim without interference: each step does nothing unless the one before it succeeded.\<close>

definition claimWorkflowJob :: "Runner \<Rightarrow> string \<Rightarrow> (string \<Rightarrow> 'e + bool) \<Rightarrow> (nat \<times> QueueJob) list \<Rightarrow> 'e + QueueJob list \<Rightarrow>
    int \<Rightarrow> string \<Rightarrow> world \<Rightarrow> world" where
  "claimWorkflowJob runner project_uid planned queue listed now message w =
     (case claim_candidate runner project_uid planned queue listed of (failing, r) \<Rightarrow>
        let (w, all_failed) = fail_recreated w failing now message; name = runner_name runner; uid = runner_uid runner
        in if \<not> all_failed then w
           else case r of
               Inl _ \<Rightarrow> w
             | Inr None \<Rightarrow> w
             | Inr (Some candidate) \<Rightarrow>
                 clear_reference (releaseRunnerClaim (assignWorkflowJob (reserve_runner (read_runner
                   (pick_job w name candidate) name uid) name) name) name uid) name)"

section \<open>The assigned job of a Runner\<close>

text \<open>
  With a reference in the copy of the Runner: its job is read; it is kept when it is this Runner's and not finished,
  and otherwise the reference is to be dropped.
\<close>

definition keeps_reference :: "world \<Rightarrow> string \<Rightarrow> string \<Rightarrow> bool" where
  "keeps_reference w r name \<longleftrightarrow>
     (case w_jobs w name of
        None \<Rightarrow> False
      | Some (_, job) \<Rightarrow> \<not> workflowJobTerminal (wj job) \<and> RunnerRef (wj job) = Some r)"

definition check_reference :: "world \<Rightarrow> string \<Rightarrow> nat \<times> Runner \<Rightarrow> world" where
  "check_reference w r copy =
     (case WorkflowJobRef (snd copy) of
        None \<Rightarrow> w
      | Some name \<Rightarrow> if keeps_reference w r name then w else set_proc w r (Clearing (fst copy) (snd copy)))"

text \<open>Without one: a job in the cache that names this Runner and is not finished there is taken up again.\<close>

definition adopt_job :: "world \<Rightarrow> string \<Rightarrow> nat \<times> Runner \<Rightarrow> QueueJob \<Rightarrow> world" where
  "adopt_job w r copy job =
     (if WorkflowJobRef (snd copy) = None \<and> RunnerRef (wj job) = Some r \<and> \<not> workflowJobTerminal (wj job)
      then (case put_runner w r (fst copy) (operational (snd copy) (Some (job_of job))) of None \<Rightarrow> w | Some w' \<Rightarrow> w')
      else w)"

text \<open>The end of a job by its Runner: the result is written against the version that was read, then the reference is dropped.\<close>

definition finish_job :: "world \<Rightarrow> string \<Rightarrow> nat \<times> Runner \<Rightarrow> nat \<times> QueueJob \<Rightarrow> job_result \<Rightarrow> int \<Rightarrow> string \<Rightarrow> string \<Rightarrow> world" where
  "finish_job w r copy job result now reason message =
     (if WorkflowJobRef (snd copy) = Some (job_of (snd job)) \<and> RunnerRef (wj (snd job)) = Some r \<and> result \<noteq> NoResult then
        (case completed_job (wj (snd job)) result now reason message of
           None \<Rightarrow> w
         | Some done_job \<Rightarrow>
             (case put_job w (job_of (snd job)) (fst job) ((snd job)\<lparr>wj := done_job\<rparr>) of
                None \<Rightarrow> w
              | Some w' \<Rightarrow> set_proc w' r (Clearing (fst copy) (snd copy))))
      else w)"

section \<open>Interleavings\<close>

text \<open>
  An action is one API call of a reconciliation with the code up to the next one, a crash, or a write of another controller. The other
  controllers write jobs without touching their Runner and never reopen a finished job; they write Runners without
  touching their reference.
\<close>

datatype claim_action =
    PickJob string QueueJob
  | ReadRunner string string
  | ReserveRunner string
  | AssignJob string
  | ReleaseClaim string string
  | ClearReference string
  | CheckReference string "nat \<times> Runner"
  | AdoptJob string "nat \<times> Runner" QueueJob
  | FinishJob string "nat \<times> Runner" "nat \<times> QueueJob" job_result int string string
  | Crash string
  | JobWritten QueueJob
  | JobCreated QueueJob
  | JobDeleted string
  | RunnerWritten string Runner

definition runner_copy :: "world \<Rightarrow> string \<Rightarrow> nat \<times> Runner \<Rightarrow> bool" where
  "runner_copy w r copy = is_copy (w_next w) (w_runners w) r copy"

definition job_copy :: "world \<Rightarrow> nat \<times> QueueJob \<Rightarrow> bool" where
  "job_copy w copy = is_copy (w_next w) (w_jobs w) (job_of (snd copy)) copy"

fun claim_allowed :: "claim_action \<Rightarrow> world \<Rightarrow> bool" where
  "claim_allowed (PickJob r _) w = (w_proc w r = Idle)"
| "claim_allowed (CheckReference r copy) w = (w_proc w r = Idle \<and> runner_copy w r copy)"
| "claim_allowed (AdoptJob r copy _) w = (w_proc w r = Idle \<and> runner_copy w r copy)"
| "claim_allowed (FinishJob r copy job _ _ _ _) w = (w_proc w r = Idle \<and> runner_copy w r copy \<and> job_copy w job)"
| "claim_allowed (JobWritten job) w =
     (case w_jobs w (job_of job) of
        None \<Rightarrow> False
      | Some (_, current_job) \<Rightarrow> RunnerRef (wj job) = RunnerRef (wj current_job) \<and>
          (\<not> workflowJobTerminal (wj current_job) \<or> workflowJobTerminal (wj job)))"
| "claim_allowed (JobCreated job) w = (w_jobs w (job_of job) = None \<and> RunnerRef (wj job) = None)"
| "claim_allowed (RunnerWritten r runner) w =
     (case w_runners w r of None \<Rightarrow> False | Some (_, current_runner) \<Rightarrow> WorkflowJobRef runner = WorkflowJobRef current_runner)"
| "claim_allowed _ w = True"

fun claim_act :: "claim_action \<Rightarrow> world \<Rightarrow> world" where
  "claim_act (PickJob r candidate) w = pick_job w r candidate"
| "claim_act (ReadRunner r uid) w = read_runner w r uid"
| "claim_act (ReserveRunner r) w = reserve_runner w r"
| "claim_act (AssignJob r) w = assignWorkflowJob w r"
| "claim_act (ReleaseClaim r uid) w = releaseRunnerClaim w r uid"
| "claim_act (ClearReference r) w = clear_reference w r"
| "claim_act (CheckReference r copy) w = check_reference w r copy"
| "claim_act (AdoptJob r copy job) w = adopt_job w r copy job"
| "claim_act (FinishJob r copy job result now reason message) w = finish_job w r copy job result now reason message"
| "claim_act (Crash r) w = set_proc w r Idle"
| "claim_act (JobWritten job) w = w\<lparr>w_jobs := (w_jobs w)(job_of job \<mapsto> (w_next w, job)), w_next := Suc (w_next w)\<rparr>"
| "claim_act (JobCreated job) w = w\<lparr>w_jobs := (w_jobs w)(job_of job \<mapsto> (w_next w, job)), w_next := Suc (w_next w)\<rparr>"
| "claim_act (JobDeleted name) w = w\<lparr>w_jobs := (w_jobs w)(name := None)\<rparr>"
| "claim_act (RunnerWritten r runner) w = w\<lparr>w_runners := (w_runners w)(r \<mapsto> (w_next w, runner)), w_next := Suc (w_next w)\<rparr>"

definition initial_world :: "world \<Rightarrow> bool" where
  "initial_world w \<longleftrightarrow>
     (\<forall>n v job. w_jobs w n = Some (v, job) \<longrightarrow> v < w_next w \<and> job_of job = n \<and> RunnerRef (wj job) = None) \<and>
     (\<forall>r v runner. w_runners w r = Some (v, runner) \<longrightarrow> v < w_next w) \<and> w_proc w = (\<lambda>_. Idle)"

inductive claim_reachable :: "world \<Rightarrow> bool" where
  start: "initial_world w \<Longrightarrow> claim_reachable w"
| act: "claim_reachable w \<Longrightarrow> claim_allowed a w \<Longrightarrow> claim_reachable (claim_act a w)"

section \<open>The invariant\<close>

definition versions_fresh :: "world \<Rightarrow> bool" where
  "versions_fresh w \<longleftrightarrow>
     (\<forall>n v job. w_jobs w n = Some (v, job) \<longrightarrow> v < w_next w \<and> job_of job = n) \<and>
     (\<forall>r v runner. w_runners w r = Some (v, runner) \<longrightarrow> v < w_next w)"

definition references :: "world \<Rightarrow> string \<Rightarrow> string \<Rightarrow> bool" where
  "references w r name \<longleftrightarrow> (case w_runners w r of None \<Rightarrow> False | Some (_, runner) \<Rightarrow> WorkflowJobRef runner = Some name)"

fun proc_ok :: "world \<Rightarrow> string \<Rightarrow> claim_state \<Rightarrow> bool" where
  "proc_ok w r Idle = True"
| "proc_ok w r (Picked v job) = (job_copy w (v, job) \<and> RunnerRef (wj job) = None)"
| "proc_ok w r (RunnerRead v job rv runner) =
     (job_copy w (v, job) \<and> RunnerRef (wj job) = None \<and> runner_copy w r (rv, runner) \<and> WorkflowJobRef runner = None)"
| "proc_ok w r (Reserved v job) =
     (job_copy w (v, job) \<and> RunnerRef (wj job) = None \<and> references w r (job_of job) \<and> (\<forall>n. \<not> keeps_reference w r n))"
| "proc_ok w r (Releasing name) = (\<forall>n. \<not> keeps_reference w r n)"
| "proc_ok w r (Clearing rv runner) =
     (runner_copy w r (rv, runner) \<and> (\<forall>n. keeps_reference w r n \<longrightarrow> WorkflowJobRef runner \<noteq> Some n))"

definition claim_inv :: "world \<Rightarrow> bool" where
  "claim_inv w \<longleftrightarrow> versions_fresh w \<and> (\<forall>r. proc_ok w r (w_proc w r)) \<and> (\<forall>r n. keeps_reference w r n \<longrightarrow> references w r n)"

lemma is_copy_write: "is_copy fresh m n c \<Longrightarrow> is_copy (Suc fresh) (m(k \<mapsto> (fresh, x))) n c"
  by (auto simp: is_copy_def split: option.splits prod.splits)

lemma is_copy_other: "is_copy fresh m n c \<Longrightarrow> is_copy (Suc fresh) m n c"
  by (auto simp: is_copy_def split: option.splits prod.splits)

lemma is_copy_delete: "is_copy fresh m n c \<Longrightarrow> is_copy fresh (m(k := None)) n c"
  by (auto simp: is_copy_def)

lemma is_copy_current: "m n = Some (v, x) \<Longrightarrow> v < fresh \<Longrightarrow> is_copy fresh m n (v, x)"
  by (simp add: is_copy_def)

lemma put_runner_Some:
  assumes "put_runner w r v x = Some w'"
  obtains y where "w_runners w r = Some (v, y)" "w' = w\<lparr>w_runners := (w_runners w)(r \<mapsto> (w_next w, x)), w_next := Suc (w_next w)\<rparr>"
  using assms by (auto simp: put_runner_def put_object_def split: option.splits if_splits)

lemma put_job_Some:
  assumes "put_job w n v x = Some w'"
  obtains y where "w_jobs w n = Some (v, y)" "w' = w\<lparr>w_jobs := (w_jobs w)(n \<mapsto> (w_next w, x)), w_next := Suc (w_next w)\<rparr>"
  using assms by (auto simp: put_job_def put_object_def split: option.splits if_splits)

text \<open>What a point of a reconciliation relies on survives the writes of the others.\<close>

lemma proc_ok_mono:
  assumes "proc_ok w r p"
    and "\<And>c. job_copy w c \<Longrightarrow> job_copy w' c" "\<And>c. runner_copy w r c \<Longrightarrow> runner_copy w' r c"
    and "\<And>n. keeps_reference w' r n \<Longrightarrow> keeps_reference w r n"
    and "\<And>v job. p = Reserved v job \<Longrightarrow> references w r (job_of job) \<Longrightarrow> references w' r (job_of job)"
  shows "proc_ok w' r p"
  using assms by (cases p) auto

lemma set_proc_views [simp]:
  "keeps_reference (set_proc w r p) = keeps_reference w" "references (set_proc w r p) = references w"
  "job_copy (set_proc w r p) = job_copy w" "runner_copy (set_proc w r p) = runner_copy w"
  "versions_fresh (set_proc w r p) = versions_fresh w" "w_proc (set_proc w r p) = (w_proc w)(r := p)"
  "w_jobs (set_proc w r p) = w_jobs w"
  by (auto simp: set_proc_def keeps_reference_def references_def job_copy_def runner_copy_def versions_fresh_def fun_eq_iff)

lemma proc_ok_set_proc [simp]: "proc_ok (set_proc w q s) r p = proc_ok w r p"
  by (cases p) simp_all

lemma claim_inv_set_proc: "claim_inv w \<Longrightarrow> proc_ok w r p \<Longrightarrow> claim_inv (set_proc w r p)"
  by (auto simp: claim_inv_def)

abbreviation job_written :: "world \<Rightarrow> string \<Rightarrow> QueueJob \<Rightarrow> world" where
  "job_written w n x \<equiv> w\<lparr>w_jobs := (w_jobs w)(n \<mapsto> (w_next w, x)), w_next := Suc (w_next w)\<rparr>"

abbreviation runner_written :: "world \<Rightarrow> string \<Rightarrow> Runner \<Rightarrow> world" where
  "runner_written w r x \<equiv> w\<lparr>w_runners := (w_runners w)(r \<mapsto> (w_next w, x)), w_next := Suc (w_next w)\<rparr>"

lemma job_written_views:
  "keeps_reference (job_written w n x) r m \<longleftrightarrow>
     (if m = n then \<not> workflowJobTerminal (wj x) \<and> RunnerRef (wj x) = Some r else keeps_reference w r m)"
  "references (job_written w n x) = references w"
  "job_copy w c \<Longrightarrow> job_copy (job_written w n x) c" "runner_copy w r' c' \<Longrightarrow> runner_copy (job_written w n x) r' c'"
  "versions_fresh w \<Longrightarrow> job_of x = n \<Longrightarrow> versions_fresh (job_written w n x)"
  by (auto simp: keeps_reference_def references_def job_copy_def runner_copy_def versions_fresh_def fun_eq_iff less_Suc_eq
      intro: is_copy_write is_copy_other)

lemma runner_written_views:
  "keeps_reference (runner_written w r x) = keeps_reference w"
  "references (runner_written w r x) q m \<longleftrightarrow> (if q = r then WorkflowJobRef x = Some m else references w q m)"
  "job_copy w c \<Longrightarrow> job_copy (runner_written w r x) c" "runner_copy w r' c' \<Longrightarrow> runner_copy (runner_written w r x) r' c'"
  "versions_fresh w \<Longrightarrow> versions_fresh (runner_written w r x)"
  by (auto simp: keeps_reference_def references_def job_copy_def runner_copy_def versions_fresh_def fun_eq_iff less_Suc_eq
      intro: is_copy_write is_copy_other)

lemma claim_inv_job_written:
  assumes inv: "claim_inv w" and "job_of x = n"
    and keeps: "\<And>r. \<not> workflowJobTerminal (wj x) \<Longrightarrow> RunnerRef (wj x) = Some r \<Longrightarrow> keeps_reference w r n"
  shows "claim_inv (job_written w n x)"
proof -
  have less: "keeps_reference (job_written w n x) r m \<Longrightarrow> keeps_reference w r m" for r m
    using keeps [of r] by (auto simp: job_written_views split: if_splits)
  from inv have ok: "proc_ok w r (w_proc w r)" for r by (simp add: claim_inv_def)
  have "proc_ok (job_written w n x) r (w_proc w r)" for r
    using ok by (rule proc_ok_mono [OF _ job_written_views(3,4) less]) (simp_all only: job_written_views(2))
  moreover have "references (job_written w n x) r m" if "keeps_reference (job_written w n x) r m" for r m
    using inv less [OF that] unfolding claim_inv_def job_written_views(2) by blast
  moreover have "versions_fresh (job_written w n x)"
    using inv by (intro job_written_views(5) assms(2)) (simp add: claim_inv_def)
  ultimately show ?thesis unfolding claim_inv_def by simp
qed

lemma claim_inv_job_deleted:
  assumes inv: "claim_inv w"
  shows "claim_inv (w\<lparr>w_jobs := (w_jobs w)(n := None)\<rparr>)" (is "claim_inv ?w")
proof -
  have less: "keeps_reference ?w r m \<Longrightarrow> keeps_reference w r m" for r m
    by (auto simp: keeps_reference_def split: if_splits)
  have views: "references ?w = references w" "job_copy w c \<Longrightarrow> job_copy ?w c" "runner_copy w r' c' \<Longrightarrow> runner_copy ?w r' c'"
    "versions_fresh w \<Longrightarrow> versions_fresh ?w" for c r' c'
    by (auto simp: references_def job_copy_def runner_copy_def versions_fresh_def fun_eq_iff intro: is_copy_delete split: if_splits)
  from inv have ok: "proc_ok w r (w_proc w r)" for r by (simp add: claim_inv_def)
  have "proc_ok ?w r (w_proc w r)" for r
    using ok by (rule proc_ok_mono [OF _ views(2,3) less]) (simp_all only: views(1))
  moreover have "references ?w r m" if "keeps_reference ?w r m" for r m
    using inv less [OF that] unfolding claim_inv_def views(1) by blast
  moreover have "versions_fresh ?w" using inv by (intro views(4)) (simp add: claim_inv_def)
  ultimately show ?thesis unfolding claim_inv_def by simp
qed

lemma claim_inv_runner_written:
  assumes inv: "claim_inv w" and refs: "\<And>n. keeps_reference w r n \<Longrightarrow> WorkflowJobRef x = Some n"
    and reserved: "\<And>v job. w_proc w r = Reserved v job \<Longrightarrow> WorkflowJobRef x = Some (job_of job)"
  shows "claim_inv (runner_written w r x)"
proof -
  from inv have ok: "proc_ok w q (w_proc w q)" for q by (simp add: claim_inv_def)
  have same: "keeps_reference (runner_written w r x) q m \<Longrightarrow> keeps_reference w q m" for q m
    by (simp only: runner_written_views(1))
  have "proc_ok (runner_written w r x) q (w_proc w q)" for q
    using ok by (rule proc_ok_mono [OF _ runner_written_views(3,4) same]) (use reserved in \<open>auto simp: runner_written_views(2)\<close>)
  moreover have "references (runner_written w r x) q m" if "keeps_reference (runner_written w r x) q m" for q m
    using inv refs same [OF that] by (cases "q = r") (auto simp: claim_inv_def runner_written_views(2))
  moreover have "versions_fresh (runner_written w r x)" using inv by (intro runner_written_views(5)) (simp add: claim_inv_def)
  ultimately show ?thesis unfolding claim_inv_def by simp
qed

text \<open>A write against the version of a copy replaces what the copy shows.\<close>

lemma put_runner_copy:
  assumes "put_runner w r v x = Some w'" "runner_copy w r (v, y)"
  shows "w_runners w r = Some (v, y)" "w' = runner_written w r x"
  using assms by (auto elim!: put_runner_Some simp: runner_copy_def is_copy_def)

lemma put_job_copy:
  assumes "put_job w (job_of y) v x = Some w'" "job_copy w (v, y)"
  shows "w_jobs w (job_of y) = Some (v, y)" "w' = job_written w (job_of y) x"
  using assms by (auto elim!: put_job_Some simp: job_copy_def is_copy_def)

lemma idle_reference:
  assumes "claim_inv w" "w_runners w r = Some (v, y)" "WorkflowJobRef y = None"
  shows "\<not> keeps_reference w r n"
proof
  assume "keeps_reference w r n"
  with assms(1) have "references w r n" by (simp add: claim_inv_def)
  with assms(2,3) show False by (simp add: references_def)
qed

section \<open>Every action keeps it\<close>

lemma current_versions:
  assumes "claim_inv w"
  shows "w_jobs w n = Some (v, job) \<Longrightarrow> v < w_next w \<and> job_of job = n" "w_runners w r = Some (v, runner) \<Longrightarrow> v < w_next w"
    "proc_ok w r (w_proc w r)"
  using assms unfolding claim_inv_def versions_fresh_def by blast+

lemma pick_inv:
  assumes "claim_inv w"
  shows "claim_inv (pick_job w r candidate)"
  using assms current_versions(1) [OF assms]
  by (auto simp: pick_job_def job_copy_def is_copy_current intro!: claim_inv_set_proc split: option.splits)

lemma read_inv:
  assumes "claim_inv w"
  shows "claim_inv (read_runner w r uid)"
proof -
  note current_versions(2,3) [OF assms, of r]
  with assms show ?thesis
    by (auto simp: read_runner_def runner_copy_def is_copy_current intro!: claim_inv_set_proc split: claim_state.splits option.splits)
qed

lemma reserve_inv:
  assumes "claim_inv w"
  shows "claim_inv (reserve_runner w r)"
proof (cases "w_proc w r")
  case (RunnerRead jv job rv runner)
  from assms have ok: "proc_ok w r (w_proc w r)" by (simp add: claim_inv_def)
  show ?thesis
  proof (cases "put_runner w r rv (operational runner (Some (job_of job)))")
    case None
    with assms RunnerRead show ?thesis by (simp add: reserve_runner_def claim_inv_set_proc)
  next
    case (Some w')
    note put = put_runner_copy [OF Some, of runner]
    from ok RunnerRead have copies: "runner_copy w r (rv, runner)" "job_copy w (jv, job)" "WorkflowJobRef runner = None" "RunnerRef (wj job) = None"
      by simp_all
    have none: "\<not> keeps_reference w r n" for n using idle_reference [OF assms put(1) [OF copies(1)] copies(3)] .
    have "claim_inv w'" unfolding put(2) [OF copies(1)]
      using assms RunnerRead none by (intro claim_inv_runner_written) auto
    moreover have "proc_ok w' r (Reserved jv job)"
      unfolding put(2) [OF copies(1)]
      using copies none by (simp add: runner_written_views operational_def runner_status_def)
    ultimately show ?thesis using RunnerRead Some by (simp add: reserve_runner_def claim_inv_set_proc)
  qed
qed (use assms in \<open>simp_all add: reserve_runner_def\<close>)

lemma assign_inv:
  assumes "claim_inv w"
  shows "claim_inv (assignWorkflowJob w r)"
proof (cases "w_proc w r")
  case (Reserved jv job)
  from assms have ok: "proc_ok w r (Reserved jv job)" by (metis Reserved claim_inv_def)
  then have rel: "claim_inv (set_proc w r (Releasing (job_of job)))" using assms by (simp add: claim_inv_set_proc)
  obtain assigned where a: "setWorkflowJobAssigned ((wj job)\<lparr>RunnerRef := Some r\<rparr>) = Some assigned"
    "RunnerRef assigned = Some r" "job_name assigned = job_name (wj job)"
    by (simp add: setWorkflowJobAssigned_def Let_def)
  show ?thesis
  proof (cases "put_job w (job_of job) jv (job\<lparr>wj := assigned\<rparr>)")
    case None
    with a rel Reserved show ?thesis by (simp add: assignWorkflowJob_def)
  next
    case (Some w')
    from ok have copy: "job_copy w (jv, job)" by simp
    note put = put_job_copy [OF Some copy]
    have name: "job_of (job\<lparr>wj := assigned\<rparr>) = job_of job" using a(3) by (simp add: job_of_def)
    have other: "keeps_reference w' q m \<Longrightarrow> q \<noteq> r \<Longrightarrow> keeps_reference w q m" for q m
      using a(2) unfolding put(2) by (auto simp: job_written_views split: if_splits)
    have "proc_ok w' q (w_proc w q)" if "q \<noteq> r" for q
    proof -
      from assms have "proc_ok w q (w_proc w q)" by (simp add: claim_inv_def)
      then show ?thesis unfolding put(2)
        by (rule proc_ok_mono [OF _ job_written_views(3,4) other [unfolded put(2), OF _ that]]) (simp_all only: job_written_views(2))
    qed
    moreover have "references w' q m" if "keeps_reference w' q m" for q m
    proof (cases "q = r")
      case True
      with that ok assms show ?thesis unfolding put(2)
        by (auto simp: claim_inv_def job_written_views(1,2) split: if_splits)
    next
      case False
      with other that assms show ?thesis unfolding put(2) by (auto simp: claim_inv_def job_written_views(2))
    qed
    moreover have "versions_fresh w'"
      using assms job_written_views(5) [OF _ name, of w] unfolding put(2) by (simp add: claim_inv_def)
    moreover have "w_proc w' = w_proc w" unfolding put(2) by simp
    ultimately have "claim_inv (set_proc w' r Idle)" by (auto simp: claim_inv_def)
    with a Some Reserved show ?thesis by (simp add: assignWorkflowJob_def)
  qed
qed (use assms in \<open>simp_all add: assignWorkflowJob_def\<close>)

lemma release_claim_inv:
  assumes "claim_inv w"
  shows "claim_inv (releaseRunnerClaim w r uid)"
proof -
  note current_versions(2,3) [OF assms, of r]
  with assms show ?thesis
    by (auto simp: releaseRunnerClaim_def runner_copy_def is_copy_current intro!: claim_inv_set_proc split: claim_state.splits option.splits)
qed

lemma clear_inv:
  assumes "claim_inv w"
  shows "claim_inv (clear_reference w r)"
proof (cases "w_proc w r")
  case (Clearing rv runner)
  from assms have ok: "proc_ok w r (Clearing rv runner)" by (metis Clearing claim_inv_def)
  show ?thesis
  proof (cases "put_runner w r rv (operational runner None)")
    case None
    with Clearing assms show ?thesis by (simp add: clear_reference_def claim_inv_set_proc)
  next
    case (Some w')
    from ok have copy: "runner_copy w r (rv, runner)" by simp
    note put = put_runner_copy [OF Some copy]
    have none: "\<not> keeps_reference w r n" for n
    proof
      assume keeps: "keeps_reference w r n"
      with assms have "references w r n" by (simp add: claim_inv_def)
      with put(1) keeps ok show False by (simp add: references_def)
    qed
    have "claim_inv w'" unfolding put(2) using assms Clearing none by (intro claim_inv_runner_written) auto
    with Clearing Some show ?thesis by (simp add: clear_reference_def claim_inv_set_proc)
  qed
qed (use assms in \<open>simp_all add: clear_reference_def\<close>)

lemma check_inv:
  assumes "claim_inv w" "runner_copy w r copy"
  shows "claim_inv (check_reference w r copy)"
  using assms by (auto simp: check_reference_def intro!: claim_inv_set_proc split: option.splits)

lemma adopt_inv:
  assumes "claim_inv w" "runner_copy w r copy" "w_proc w r = Idle"
  shows "claim_inv (adopt_job w r copy job)"
proof (cases "put_runner w r (fst copy) (operational (snd copy) (Some (job_of job)))")
  case (Some w')
  note put = put_runner_copy [OF Some, of "snd copy"]
  show ?thesis
  proof (cases "WorkflowJobRef (snd copy) = None")
    case True
    with put assms idle_reference [OF assms(1), of r "fst copy" "snd copy"] have "claim_inv w'"
      by (auto intro!: claim_inv_runner_written)
    with Some assms(1) show ?thesis by (simp add: adopt_job_def)
  qed (use assms in \<open>auto simp: adopt_job_def\<close>)
qed (use assms in \<open>simp add: adopt_job_def\<close>)

lemma finish_inv:
  assumes "claim_inv w" "runner_copy w r copy" "job_copy w job"
  shows "claim_inv (finish_job w r copy job result now reason message)"
proof (cases "WorkflowJobRef (snd copy) = Some (job_of (snd job)) \<and> RunnerRef (wj (snd job)) = Some r \<and> result \<noteq> NoResult")
  case True
  then obtain d where d: "completed_job (wj (snd job)) result now reason message = Some d" "Result d = result" "RunnerRef d = Some r"
    "job_name d = job_name (wj (snd job))"
    by (auto simp: completed_job_def setWorkflowJobAssigned_def Let_def)
  with True have terminal: "workflowJobTerminal d" by (simp add: workflowJobTerminal_def workflowJobResult_def)
  show ?thesis
  proof (cases "put_job w (job_of (snd job)) (fst job) ((snd job)\<lparr>wj := d\<rparr>)")
    case None
    with True d assms(1) show ?thesis by (simp add: finish_job_def)
  next
    case (Some w')
    note put = put_job_copy [OF Some, unfolded prod.collapse, OF assms(3)]
    have name: "job_of ((snd job)\<lparr>wj := d\<rparr>) = job_of (snd job)" using d(4) by (simp add: job_of_def)
    have "claim_inv w'" unfolding put(2) using assms(1) name terminal by (intro claim_inv_job_written) auto
    moreover have "proc_ok w' r (Clearing (fst copy) (snd copy))"
      using assms(2) True terminal unfolding put(2) by (auto simp: job_written_views)
    ultimately show ?thesis using True d Some by (simp add: finish_job_def claim_inv_set_proc)
  qed
qed (use assms in \<open>auto simp: finish_job_def\<close>)

lemma claim_act_inv:
  assumes "claim_inv w" "claim_allowed a w"
  shows "claim_inv (claim_act a w)"
proof (cases a)
  case (JobWritten job)
  with assms show ?thesis
    by (auto simp: keeps_reference_def intro!: claim_inv_job_written split: option.splits)
next
  case (JobCreated job)
  with assms show ?thesis by (auto intro!: claim_inv_job_written)
next
  case (RunnerWritten r runner)
  with assms(2) obtain v x where x: "w_runners w r = Some (v, x)" "WorkflowJobRef runner = WorkflowJobRef x"
    by (auto split: option.splits)
  have same: "references w r m \<longleftrightarrow> WorkflowJobRef runner = Some m" for m using x by (simp add: references_def)
  have "WorkflowJobRef runner = Some m" if "keeps_reference w r m" for m
  proof -
    from assms(1) that have "references w r m" unfolding claim_inv_def by blast
    with same show ?thesis by simp
  qed
  moreover have "WorkflowJobRef runner = Some (job_of job)" if "w_proc w r = Reserved v job" for v job
    using current_versions(3) [OF assms(1), of r] that same by simp
  ultimately show ?thesis using assms(1) RunnerWritten by (simp add: claim_inv_runner_written)
qed (use assms in \<open>simp_all add: pick_inv read_inv reserve_inv assign_inv release_claim_inv clear_inv check_inv adopt_inv finish_inv
    claim_inv_set_proc claim_inv_job_written claim_inv_job_deleted\<close>)

lemma reachable_claim_inv: "claim_reachable w \<Longrightarrow> claim_inv w"
proof (induction rule: claim_reachable.induct)
  case (start w)
  then show ?case
    by (fastforce simp: initial_world_def claim_inv_def versions_fresh_def keeps_reference_def split: option.splits)
next
  case (act w a)
  then show ?case by (simp add: claim_act_inv)
qed

lemma assigned_stays:
  assumes "claim_inv w" "claim_allowed a w" "w_jobs w n = Some (v, job)" "RunnerRef (wj job) = Some r"
    and "w_jobs (claim_act a w) n = Some (v', job')"
  shows "RunnerRef (wj job') = Some r"
proof -
  have same: ?thesis if "w_jobs (claim_act a w) = w_jobs w" using assms(3-5) that by simp
  have runner: "w_jobs w' = w_jobs w" if "put_runner w q rv x = Some w'" for q rv x w' using that by (elim put_runner_Some) simp
  show ?thesis
  proof (cases a)
    case (AssignJob q)
    show ?thesis
    proof (cases "w_proc w q")
      case (Reserved jv copy)
      with current_versions(3) [OF assms(1), of q] have copy: "job_copy w (jv, copy)" "RunnerRef (wj copy) = None" by simp_all
      have "w_jobs w' n = w_jobs w n" if "put_job w (job_of copy) jv x = Some w'" for x w'
        using put_job_copy [OF that copy(1)] copy(2) assms(3,4) by (cases "n = job_of copy") auto
      with assms(3,4,5) Reserved AssignJob show ?thesis
        by (auto simp: assignWorkflowJob_def set_proc_def split: option.splits)
    qed (use same AssignJob in \<open>simp_all add: assignWorkflowJob_def\<close>)
  next
    case (FinishJob q copy jc result now reason message)
    with assms(2) have jc: "job_copy w (fst jc, snd jc)" by simp
    have kept: "RunnerRef d = RunnerRef (wj (snd jc))" if "completed_job (wj (snd jc)) result now reason message = Some d" for d
      using that by (auto simp: completed_job_def setWorkflowJobAssigned_def Let_def split: option.splits)
    have written: "RunnerRef (wj y) = Some r"
      if "put_job w (job_of (snd jc)) (fst jc) ((snd jc)\<lparr>wj := d\<rparr>) = Some w'" "RunnerRef d = RunnerRef (wj (snd jc))" "w_jobs w' n = Some (u, y)"
      for d w' u y
      using put_job_copy [OF that(1) jc] that(2,3) assms(3,4) by (cases "n = job_of (snd jc)") auto
    consider "w_jobs (claim_act a w) = w_jobs w"
      | d w' where "completed_job (wj (snd jc)) result now reason message = Some d"
        "put_job w (job_of (snd jc)) (fst jc) ((snd jc)\<lparr>wj := d\<rparr>) = Some w'" "w_jobs (claim_act a w) = w_jobs w'"
    proof (cases "completed_job (wj (snd jc)) result now reason message")
      case None
      with that(1) FinishJob show ?thesis by (simp add: finish_job_def)
    next
      case (Some d)
      with that FinishJob show ?thesis
        by (cases "put_job w (job_of (snd jc)) (fst jc) ((snd jc)\<lparr>wj := d\<rparr>)";
            cases "WorkflowJobRef (snd copy) = Some (job_of (snd jc)) \<and> RunnerRef (wj (snd jc)) = Some q \<and> result \<noteq> NoResult")
          (auto simp: finish_job_def)
    qed
    then show ?thesis
    proof cases
      case (2 d w')
      from written [OF 2(2) kept [OF 2(1)]] assms(5) 2(3) show ?thesis by simp
    qed (rule same)
  qed (use assms same runner in \<open>auto simp: pick_job_def read_runner_def reserve_runner_def releaseRunnerClaim_def clear_reference_def
      check_reference_def adopt_job_def set_proc_def split: option.splits claim_state.splits if_splits\<close>)
qed

text \<open>
  C5. A job runs on one Runner, and a Runner runs one job. However the reconciliations of the Runners interleave with each
  other, with the other controllers, with stale caches and crashes: an unfinished job that is assigned to a Runner is the only unfinished
  job of that Runner, the Runner refers to it, and no step ever moves it to another Runner.
\<close>

theorem exclusive_assignment:
  assumes "claim_reachable w" "keeps_reference w r n"
  shows "references w r n \<and> (\<forall>m. keeps_reference w r m \<longrightarrow> m = n) \<and>
    (\<forall>a. claim_allowed a w \<longrightarrow>
      (case w_jobs (claim_act a w) n of None \<Rightarrow> True | Some (_, job) \<Rightarrow> RunnerRef (wj job) = Some r))"
proof -
  note inv = reachable_claim_inv [OF assms(1)]
  have refs: "keeps_reference w r m \<Longrightarrow> references w r m" for m using inv by (simp add: claim_inv_def)
  have "m = n" if "keeps_reference w r m" for m
    using refs [OF that] refs [OF assms(2)] by (auto simp: references_def split: option.splits)
  moreover have "RunnerRef (wj job') = Some r" if "claim_allowed a w" "w_jobs (claim_act a w) n = Some (v', job')" for a v' job'
    using assms(2) assigned_stays [OF inv that(1) _ _ that(2)] by (auto simp: keeps_reference_def split: option.splits)
  ultimately show ?thesis using refs [OF assms(2)] by (auto split: option.splits)
qed

fun run_claims :: "claim_action list \<Rightarrow> world \<Rightarrow> world option" where
  "run_claims [] w = Some w"
| "run_claims (a # as) w = (if claim_allowed a w then run_claims as (claim_act a w) else None)"

lemma run_claims_reachable: "claim_reachable w \<Longrightarrow> run_claims as w = Some w' \<Longrightarrow> claim_reachable w'"
  by (induction as arbitrary: w) (auto split: if_splits intro: claim_reachable.act)

text \<open>Two Runners race for one job; the second one is refused and lets go.\<close>

definition race_job :: QueueJob where
  "race_job = \<lparr>wj = plain_job ''build'' [], RunsOn = [''linux''], job_created = 5, project_label = ''p1'', job_deleting = False\<rparr>"

definition race_runner :: "string \<Rightarrow> Runner" where
  "race_runner name = \<lparr>runner_name = name, runner_uid = name, runner_deleting = False, runner_labels = [''linux'', ''big''],
     WorkflowJobRef = None, runner_conditions = []\<rparr>"

definition race_start :: world where
  "race_start = \<lparr>w_jobs = [''build'' \<mapsto> (0, race_job)], w_runners = [''r1'' \<mapsto> (1, race_runner ''r1''), ''r2'' \<mapsto> (2, race_runner ''r2'')],
     w_next = 3, w_proc = (\<lambda>_. Idle)\<rparr>"

definition race :: "claim_action list" where
  "race = [PickJob ''r1'' race_job, PickJob ''r2'' race_job, ReadRunner ''r1'' ''r1'', ReadRunner ''r2'' ''r2'', ReserveRunner ''r2'',
     ReserveRunner ''r1'', AssignJob ''r1'', AssignJob ''r2'', ReleaseClaim ''r2'' ''r2'', ClearReference ''r2'']"

definition race_end :: world where
  "race_end = (case run_claims race race_start of None \<Rightarrow> race_start | Some w \<Rightarrow> w)"

theorem exclusive_assignment_witness:
  "keeps_reference race_end ''r1'' ''build'' \<and> references race_end ''r1'' ''build'' \<and> \<not> references race_end ''r2'' ''build''"
proof -
  have keeps: "keeps_reference race_end ''r1'' ''build''" by code_simp
  have "run_claims race race_start \<noteq> None" by code_simp
  then have "run_claims race race_start = Some race_end" by (auto simp: race_end_def)
  moreover have "claim_reachable race_start"
    by (rule claim_reachable.start) (auto simp: initial_world_def race_start_def race_job_def job_of_def plain_job_def split: if_splits)
  ultimately have "claim_reachable race_end" by (rule run_claims_reachable [rotated])
  from exclusive_assignment [OF this keeps] have "references race_end ''r1'' ''build''" ..
  moreover have "\<not> references race_end ''r2'' ''build''" by code_simp
  ultimately show ?thesis using keeps by simp
qed

section \<open>The order of the claims\<close>

text \<open>What makes a queued job claimable: the Runner has its labels, its run is planned, and its matrix has room and no failure.\<close>

definition claimable :: "Runner \<Rightarrow> string \<Rightarrow> (string \<Rightarrow> 'e + bool) \<Rightarrow> 'e + QueueJob list \<Rightarrow> QueueJob \<Rightarrow> bool" where
  "claimable runner project_uid planned listed job \<longleftrightarrow>
     \<not> job_deleting job \<and> \<not> workflowJobTerminal (wj job) \<and> workflowJobReady (wj job) \<and> project_label job = project_uid \<and>
     set (RunsOn job) \<subseteq> set (runner_labels runner) \<and> planned (WorkflowRunRef (wj job)) = Inr True \<and>
     (case Matrix (wj job) of
        None \<Rightarrow> True
      | Some matrix \<Rightarrow>
          (case listed of
             Inl _ \<Rightarrow> False
           | Inr js \<Rightarrow>
               let members = filter (in_group (matrixJobGroup job matrix)) js
               in list_all (\<lambda>j. \<not> workflowJobFailureTriggersMatrixFailFast (wj j)) members \<and>
                  (MaxParallel matrix \<le> 0 \<or>
                   int (length (filter (\<lambda>j. RunnerRef (wj j) \<noteq> None \<and> \<not> workflowJobTerminal (wj j)) members)) < MaxParallel matrix)))"

lemma map_sum_eq_Inr: "map_sum id f r = Inr y \<longleftrightarrow> (\<exists>x. r = Inr x \<and> y = f x)"
  by (cases r) auto

lemma claim_scan_candidates:
  "claim_scan planned judge queue = (failing, Inr candidates) \<Longrightarrow>
   candidates = filter (\<lambda>job. judge job = Eligible \<and> planned (WorkflowRunRef (wj job)) = Inr True) (map snd queue)"
proof (induction queue arbitrary: failing candidates)
  case (Cons entry queue)
  obtain v job where entry: "entry = (v, job)" by (cases entry)
  obtain failing' r where rest: "claim_scan planned judge queue = (failing', r)" by (cases "claim_scan planned judge queue")
  with Cons.prems entry Cons.IH show ?case
    by (cases "judge job"; cases r; cases "planned (WorkflowRunRef (wj job))") (auto split: if_splits)
qed simp

lemma judged_eligible:
  assumes "(if list_ex (\<lambda>(_, job). Matrix (wj job) \<noteq> None) queue then matrixJobState listed else Inr (\<lambda>_. 0, \<lambda>_. False)) = Inr (active, failed)"
    and "job \<in> set (map snd queue)"
  shows "judge_job runner project_uid active failed job = Eligible \<and> planned (WorkflowRunRef (wj job)) = Inr True \<longleftrightarrow>
    claimable runner project_uid planned listed job"
proof (cases "Matrix (wj job)")
  case None
  then show ?thesis by (auto simp: judge_job_def claimable_def runnerLabelsMatch_def list_all_iff)
next
  case (Some matrix)
  with assms(2) have "list_ex (\<lambda>(_, job). Matrix (wj job) \<noteq> None) queue" by (force simp: list_ex_iff)
  with assms(1) obtain js where "listed = Inr js" "active = matrix_active js" "failed = matrix_failed js"
    by (auto simp: matrixJobState_def split: sum.splits)
  with Some show ?thesis
    by (auto simp: judge_job_def claimable_def runnerLabelsMatch_def list_all_iff list_ex_iff matrix_active_def matrix_failed_def Let_def
        filter_filter conj_ac split: if_splits)
qed

text \<open>
  C18. A Runner claims the oldest job it may run. Among the queued jobs that are ready, of its project, planned, covered by its labels
  and admitted by their matrix, it picks one with the earliest creation time, and by name among equals; it
  picks none only if there is none.
\<close>

theorem claims_oldest_claimable:
  assumes "claim_candidate runner project_uid planned queue listed = (failing, Inr claimed)"
  shows "case (claimed, filter (claimable runner project_uid planned listed) (map snd queue)) of
      (None, others) \<Rightarrow> others = []
    | (Some job, others) \<Rightarrow> job \<in> set others \<and> (\<forall>other \<in> set others. (job_created job, job_name (wj job)) \<le> (job_created other, job_name (wj other)))"
proof -
  let ?others = "filter (claimable runner project_uid planned listed) (map snd queue)"
  from assms obtain active failed candidates where
    state: "(if list_ex (\<lambda>(_, job). Matrix (wj job) \<noteq> None) queue then matrixJobState listed else Inr (\<lambda>_. 0, \<lambda>_. False)) = Inr (active, failed)"
    and scan: "claim_scan planned (judge_job runner project_uid active failed) queue = (failing, Inr candidates)"
    and claimed: "claimed = (case sort_key claim_key candidates of [] \<Rightarrow> None | job # _ \<Rightarrow> Some job)"
    unfolding claim_candidate_def by (auto simp: map_sum_eq_Inr split: sum.splits prod.splits)
  have same: "candidates = ?others"
    unfolding claim_scan_candidates [OF scan] by (rule filter_cong [OF refl judged_eligible [OF state]])
  show ?thesis
  proof (cases "sort_key claim_key candidates")
    case Nil
    then have "candidates = []" by (metis set_sort set_empty)
    with claimed same show ?thesis by simp
  next
    case (Cons job rest)
    have "sorted (map claim_key (job # rest))" using sorted_sort_key [of claim_key candidates] Cons by simp
    then have "\<forall>other \<in> set (job # rest). claim_key job \<le> claim_key other" by simp
    moreover have "set ?others = set (job # rest)" unfolding Cons [symmetric] set_sort same ..
    ultimately show ?thesis using claimed Cons unfolding claim_key_def by simp
  qed
qed

definition queue_job :: "string \<Rightarrow> int \<Rightarrow> string list \<Rightarrow> QueueJob" where
  "queue_job name created labels = race_job\<lparr>wj := plain_job name [], job_created := created, RunsOn := labels\<rparr>"

definition demo_queue :: "(nat \<times> QueueJob) list" where
  "demo_queue = [(1, queue_job ''late'' 9 [''linux'']), (2, queue_job ''gpu'' 1 [''gpu'']), (3, queue_job ''second'' 4 [''big'', ''linux'']),
     (4, queue_job ''first'' 4 [''linux''])]"

theorem claims_oldest_claimable_witness:
  "claim_candidate (race_runner ''r1'') ''p1'' (\<lambda>_. Inr True :: unit + bool) demo_queue (Inr []) = ([], Inr (Some (queue_job ''first'' 4 [''linux'']))) \<and>
   queue_job ''first'' 4 [''linux''] \<in> set (filter (claimable (race_runner ''r1'') ''p1'' (\<lambda>_. Inr True :: unit + bool) (Inr [])) (map snd demo_queue))"
proof -
  have run: "claim_candidate (race_runner ''r1'') ''p1'' (\<lambda>_. Inr True :: unit + bool) demo_queue (Inr []) =
      ([], Inr (Some (queue_job ''first'' 4 [''linux''])))" by code_simp
  with claims_oldest_claimable [OF run] show ?thesis by simp
qed

end
