(* ===== verification/JobResult.thy ===== *)
theory JobResult
  imports RunnerClaim
begin

text \<open>
  How a job ends, \<^verbatim>\<open>src/internal/runner/result.go\<close> and \<^verbatim>\<open>src/internal/controller/runner_controller.go\<close>: the result document a runner
  leaves behind, the deadline of the native Job, and the status a WorkflowJob gets from what is seen of its native Job
  and Pod.

  Times are integers of nanoseconds, and an unset time is \<open>None\<close>. The answers of the API server are arguments: an error, or the
  object. JSON is an argument; a document that does not decode completely, with unknown fields or with trailing values is an
  error there. A map of outputs is an association list.
\<close>

section \<open>The result document\<close>

record RunnerResult =
  res_version :: int
  Conclusion :: string
  res_outputs :: "(string \<times> string) list"

datatype result_error = UnsupportedVersion int | InvalidConclusion string | UnexpectedConclusion | TooManyOutputs nat
  | InvalidOutputName string | ResultEmpty | ResultTooLong | ResultMalformed string

definition ResultVersion :: int where "ResultVersion = 2"
definition MaxResultBytes :: nat where "MaxResultBytes = 4 * 1024"
definition MaxJobOutputs :: nat where "MaxJobOutputs = 100"
definition MaxJobOutputNameLength :: nat where "MaxJobOutputNameLength = 256"

definition name_start :: "char \<Rightarrow> bool" where
  "name_start c \<longleftrightarrow> ascii_upper c \<or> ascii_lower c \<or> c = CHR ''_''"

definition jobOutputName :: "string \<Rightarrow> bool" where
  "jobOutputName s \<longleftrightarrow> s \<noteq> [] \<and> name_start (hd s) \<and> list_all (\<lambda>c. name_start c \<or> ascii_digit c \<or> c = CHR ''-'') (tl s)"

definition conclusions :: "string list" where
  "conclusions = [''success'', ''failure'', ''cancelled'', ''timed_out'']"

definition bad_output_name :: "string \<Rightarrow> bool" where
  "bad_output_name name \<longleftrightarrow> length name > MaxJobOutputNameLength \<or> \<not> jobOutputName name"

definition validateResult :: "RunnerResult \<Rightarrow> result_error + unit" where
  "validateResult result =
     (if res_version result < 1 \<or> res_version result > ResultVersion then Inl (UnsupportedVersion (res_version result))
      else if res_version result \<ge> 2 \<and> Conclusion result \<notin> set conclusions then Inl (InvalidConclusion (Conclusion result))
      else if res_version result < 2 \<and> Conclusion result \<noteq> [] then Inl UnexpectedConclusion
      else if length (res_outputs result) > MaxJobOutputs then Inl (TooManyOutputs (length (res_outputs result)))
      else case find bad_output_name (map fst (res_outputs result)) of
             Some name \<Rightarrow> Inl (InvalidOutputName name)
           | None \<Rightarrow> Inr ())"

definition EncodeResult :: "(RunnerResult \<Rightarrow> string) \<Rightarrow> RunnerResult \<Rightarrow> result_error + string" where
  "EncodeResult marshal result =
     and_then (validateResult result) (\<lambda>_.
       let data = marshal result in if length data > MaxResultBytes then Inl ResultTooLong else Inr data)"

definition DecodeResult :: "(string \<Rightarrow> string + RunnerResult) \<Rightarrow> string \<Rightarrow> result_error + RunnerResult" where
  "DecodeResult unmarshal data =
     (if data = [] then Inl ResultEmpty
      else if length data > MaxResultBytes then Inl ResultTooLong
      else case unmarshal data of
             Inl m \<Rightarrow> Inl (ResultMalformed m)
           | Inr result \<Rightarrow> and_then (validateResult result) (\<lambda>_. Inr result))"

definition resultConclusion :: "int \<Rightarrow> string \<Rightarrow> string" where
  "resultConclusion version conclusion = (if version \<ge> 2 then conclusion else [])"

text \<open>The document a runner reports; when the outputs do not fit, it has none, and success has become failure.\<close>

definition newResult :: "(RunnerResult \<Rightarrow> string) \<Rightarrow> (string \<times> string) list \<Rightarrow> string \<Rightarrow> int \<Rightarrow> RunnerResult \<times> result_error option" where
  "newResult marshal outs conclusion version =
     (let result = \<lparr>res_version = version, Conclusion = resultConclusion version conclusion, res_outputs = outs\<rparr>
      in case EncodeResult marshal result of
           Inr _ \<Rightarrow> (result, None)
         | Inl err \<Rightarrow>
             (let fallback = if conclusion = ''success'' then ''failure'' else conclusion
              in (\<lparr>res_version = version, Conclusion = resultConclusion version fallback, res_outputs = []\<rparr>, Some err)))"

section \<open>The native Job and its Pod\<close>

record JobCondition =
  jc_type :: string
  jc_true :: bool
  jc_reason :: string

record BatchJob =
  nj_uid :: string
  nj_owner :: "string option"
  nj_conditions :: "JobCondition list"
  ActiveDeadlineSeconds :: "int option"
  nj_start :: "int option"
  nj_completion :: "int option"
  result_version_annotation :: string
  deadline_annotation :: string

text \<open>
  An owner is the UID of the controlling object, if there is one. A state of the container that is not there is \<open>None\<close>; in a state that is there, the start time may be unset.\<close>

record ContainerStatus =
  cs_running :: "int option option"
  cs_terminated :: "(int option \<times> string) option"

record WorkflowPod =
  pod_owner :: "string option"
  pod_phase :: string
  pod_conditions :: "(string \<times> condition) list"
  containers :: "(string \<times> ContainerStatus) list"

fun jobResult_loop :: "JobCondition list \<Rightarrow> condition_status" where
  "jobResult_loop [] = ConditionUnknown"
| "jobResult_loop (c # cs) =
     (if \<not> jc_true c then jobResult_loop cs
      else if jc_type c = ''Complete'' then ConditionTrue
      else if jc_type c = ''Failed'' then ConditionFalse
      else jobResult_loop cs)"

definition jobResult :: "BatchJob \<Rightarrow> condition_status" where
  "jobResult job = jobResult_loop (nj_conditions job)"

definition jobTerminal :: "BatchJob \<Rightarrow> bool" where
  "jobTerminal job \<longleftrightarrow> jobResult job \<noteq> ConditionUnknown"

definition nativeJobTimedOut :: "BatchJob \<Rightarrow> bool" where
  "nativeJobTimedOut job \<longleftrightarrow>
     list_ex (\<lambda>c. jc_true c \<and> jc_type c = ''Failed'' \<and> jc_reason c = ''DeadlineExceeded'') (nj_conditions job)"

definition completionTime :: "int \<Rightarrow> BatchJob \<Rightarrow> int" where
  "completionTime now job = (case nj_completion job of None \<Rightarrow> now | Some t \<Rightarrow> t)"

definition runnerResultExpected :: "string \<Rightarrow> bool" where
  "runnerResultExpected version = (case atoi version of None \<Rightarrow> False | Some v \<Rightarrow> v \<ge> 1 \<and> v \<le> ResultVersion)"

definition runnerContainerStartTime :: "ContainerStatus option \<Rightarrow> int option" where
  "runnerContainerStartTime status =
     (case status of
        None \<Rightarrow> None
      | Some cs \<Rightarrow>
          (case cs_running cs of
             Some (Some t) \<Rightarrow> Some t
           | _ \<Rightarrow> (case cs_terminated cs of Some (Some t, _) \<Rightarrow> Some t | _ \<Rightarrow> None)))"

text \<open>The result, and whether it is invalid.\<close>

definition decodeRunnerResult :: "(string \<Rightarrow> string + RunnerResult) \<Rightarrow> BatchJob \<Rightarrow> ContainerStatus option \<Rightarrow> RunnerResult option \<times> bool" where
  "decodeRunnerResult unmarshal job status =
     (case status of
        None \<Rightarrow> (None, True)
      | Some cs \<Rightarrow>
          (case cs_terminated cs of
             None \<Rightarrow> (None, True)
           | Some (_, msg) \<Rightarrow>
               (case DecodeResult unmarshal msg of
                  Inl _ \<Rightarrow> (None, True)
                | Inr result \<Rightarrow>
                    if atoi (result_version_annotation job) = Some (res_version result) then (Some result, False) else (None, True))))"

section \<open>The deadline\<close>

definition second :: int where "second = 10 ^ 9"
definition minute :: int where "minute = 60 * second"
definition nativeJobStartDeadline :: int where "nativeJobStartDeadline = 24 * 60 * minute"
definition CleanupTimeout :: int where "CleanupTimeout = 5 * minute"
definition jobStartTimeout :: int where "jobStartTimeout = 5 * minute"
definition installationTokenStartMargin :: int where "installationTokenStartMargin = 5 * minute"
definition defaultJobTimeout :: int where "defaultJobTimeout = 360 * minute"
definition defaultMaxJobTimeout :: int where "defaultMaxJobTimeout = 360 * minute"

definition configuredMaxJobTimeout :: "int \<Rightarrow> int" where
  "configuredMaxJobTimeout v = (if v = 0 then defaultMaxJobTimeout else v)"

definition effectiveJobTimeout :: "int \<Rightarrow> int \<Rightarrow> int" where
  "effectiveJobTimeout max_timeout timeout_seconds =
     (let timeout = timeout_seconds * second;
          timeout = (if timeout = 0 then defaultJobTimeout else timeout)
      in if timeout > configuredMaxJobTimeout max_timeout then configuredMaxJobTimeout max_timeout else timeout)"

definition elapsed_seconds :: "int \<Rightarrow> int \<Rightarrow> int" where
  "elapsed_seconds job_start_time runner_start =
     (let elapsed = (if runner_start - job_start_time < 0 then 0 else runner_start - job_start_time)
      in elapsed div second + (if elapsed mod second \<noteq> 0 then 1 else 0))"

definition artifactTokenLifetime :: "int \<Rightarrow> int \<Rightarrow> int \<Rightarrow> int" where
  "artifactTokenLifetime max_timeout timeout_seconds startup_deadline =
     (let allowance = startup_deadline + CleanupTimeout; timeout = effectiveJobTimeout max_timeout timeout_seconds
      in if timeout > (2 ^ 63 - 1) - allowance then 2 ^ 63 - 1 else timeout + allowance)"

text \<open>The phase and the seconds of the deadline a native Job should have, and the patch if it has another one.\<close>

definition wanted_deadline :: "int \<Rightarrow> BatchJob \<Rightarrow> int \<Rightarrow> int option \<Rightarrow> string \<times> int" where
  "wanted_deadline timeout job started runner_start =
     (case runner_start of
        Some t \<Rightarrow> (''execution'', elapsed_seconds started t + timeout div second + CleanupTimeout div second)
      | None \<Rightarrow>
          (''startup'',
           let d = nativeJobStartDeadline div second
           in case ActiveDeadlineSeconds job of
                Some s \<Rightarrow> if deadline_annotation job = ''startup'' \<and> s < d then s else d
              | None \<Rightarrow> d))"

definition reconcileNativeJobDeadline :: "int \<Rightarrow> BatchJob \<Rightarrow> int option \<Rightarrow> BatchJob option" where
  "reconcileNativeJobDeadline timeout job runner_start =
     (case nj_start job of
        None \<Rightarrow> None
      | Some started \<Rightarrow>
          (case wanted_deadline timeout job started runner_start of (phase, secs) \<Rightarrow>
             if ActiveDeadlineSeconds job = Some secs \<and> deadline_annotation job = phase then None
             else Some (job\<lparr>ActiveDeadlineSeconds := Some secs, deadline_annotation := phase\<rparr>)))"

definition credentialBoundedJobStartDeadline :: "int \<Rightarrow> int option list \<Rightarrow> int" where
  "credentialBoundedJobStartDeadline now expirations =
     fold (\<lambda>e d. case e of None \<Rightarrow> d | Some t \<Rightarrow> min (t - now - installationTokenStartMargin) d) expirations nativeJobStartDeadline"

section \<open>The status of the WorkflowJob\<close>

definition setWorkflowJobPodScheduled :: "WorkflowJob \<Rightarrow> WorkflowPod option \<Rightarrow> WorkflowJob" where
  "setWorkflowJobPodScheduled job pod =
     (case pod of
        None \<Rightarrow> job
      | Some p \<Rightarrow>
          (case map_of (pod_conditions p) ''PodScheduled'' of
             None \<Rightarrow> job
           | Some c \<Rightarrow>
               job\<lparr>job_conditions := set_condition (job_conditions job) ''Scheduled'' (Status c)
                 (if Status c = ConditionTrue then ''PodScheduled'' else ''PodPending'')
                 (if Status c = ConditionTrue then ''The workflow Pod is scheduled to a node''
                  else if Message c = [] then ''Waiting for the workflow Pod to be scheduled to a node'' else Message c)\<rparr>))"

definition succeeded :: "condition_status \<Rightarrow> string \<Rightarrow> string \<Rightarrow> WorkflowJob \<Rightarrow> WorkflowJob" where
  "succeeded status reason message job = job\<lparr>job_conditions := set_condition (job_conditions job) ''Succeeded'' status reason message\<rparr>"

definition ended :: "job_result \<Rightarrow> int \<Rightarrow> WorkflowJob \<Rightarrow> WorkflowJob" where
  "ended result t job = job\<lparr>Result := result, job_completion := Some t\<rparr>"

definition with_outputs :: "RunnerResult option \<Rightarrow> bool \<Rightarrow> WorkflowJob \<Rightarrow> WorkflowJob" where
  "with_outputs res invalid job = (case res of Some r \<Rightarrow> if invalid then job else job\<lparr>Outputs := res_outputs r\<rparr> | None \<Rightarrow> job)"

definition reported :: "RunnerResult option \<Rightarrow> bool \<Rightarrow> string" where
  "reported res invalid = (case res of Some r \<Rightarrow> if invalid then [] else Conclusion r | None \<Rightarrow> [])"

text \<open>The switch over what was reported and what became of the native Job.\<close>

definition concluded :: "int \<Rightarrow> BatchJob \<Rightarrow> int option \<Rightarrow> RunnerResult option \<Rightarrow> bool \<Rightarrow> WorkflowJob \<Rightarrow> WorkflowJob" where
  "concluded now native runner_start res invalid job =
     (let c = reported res invalid; t = completionTime now native; out = with_outputs res invalid
      in if c = ''timed_out'' then
           succeeded ConditionFalse ''JobTimedOut'' ''The workflow job exceeded its execution timeout'' (out (ended Failure t job))
         else if c = ''success'' then
           succeeded ConditionTrue ''JobSucceeded'' ''The workflow job succeeded'' (out (ended Success t job))
         else if c = ''failure'' then
           succeeded ConditionFalse ''JobFailed'' ''The workflow job failed'' (out (ended Failure t job))
         else if nativeJobTimedOut native then
           (if deadline_annotation native = ''startup'' \<and> runner_start = None then
              succeeded ConditionFalse ''JobStartFailed'' ''The runner container did not start before the startup deadline''
                (out (ended Failure t job))
            else succeeded ConditionFalse ''JobTimedOut'' ''The workflow job exceeded its execution timeout'' (out (ended Failure t job)))
         else if c = ''cancelled'' then
           succeeded ConditionFalse ''JobCancelled'' ''The workflow job was cancelled'' (out (ended Cancelled t job))
         else if jobResult native = ConditionTrue then
           (if invalid \<or> res = None \<or> Conclusion (the res) \<noteq> [] \<and> Conclusion (the res) \<noteq> ''success'' then
              succeeded ConditionFalse ''JobResultInvalid'' ''The workflow job completed without valid output metadata''
                (ended Success t job)
            else succeeded ConditionTrue ''JobSucceeded'' ''The workflow job succeeded'' (out (ended Success t job)))
         else if jobResult native = ConditionFalse then
           succeeded ConditionFalse ''JobFailed'' ''The workflow job failed'' (out (ended Failure t job))
         else if job_start job \<noteq> None then
           succeeded ConditionUnknown ''JobRunning'' ''The workflow job is running'' job
         else
           succeeded ConditionUnknown ''JobPending'' ''The workflow job is waiting for the runner container to start'' job)"

definition status_of_native :: "int \<Rightarrow> WorkflowJob \<Rightarrow> BatchJob \<Rightarrow> WorkflowPod option \<Rightarrow> int option \<Rightarrow> RunnerResult option \<Rightarrow> bool \<Rightarrow>
    WorkflowJob option" where
  "status_of_native now job native pod runner_start res invalid =
     map_option (\<lambda>job.
         let job = (case runner_start of None \<Rightarrow> job | Some t \<Rightarrow> job\<lparr>job_start := Some t\<rparr>)
         in concluded now native runner_start res invalid (setWorkflowJobPodScheduled job pod))
       (setWorkflowJobAssigned job)"

section \<open>Cancellation and launch\<close>

definition workflowJobCancellationCondition :: "WorkflowJob \<Rightarrow> (string \<times> string) option" where
  "workflowJobCancellationCondition job =
     (case find_condition (job_conditions job) ''CancellationRequested'' of
        None \<Rightarrow> None
      | Some c \<Rightarrow>
          if Status c \<noteq> ConditionTrue then None
          else Some (if Reason c = [] then ''CancellationRequested'' else Reason c,
                     if Message c = [] then ''WorkflowJob or WorkflowRun cancellation was requested'' else Message c))"

definition workflowJobLaunched :: "WorkflowJob \<Rightarrow> bool" where
  "workflowJobLaunched job \<longleftrightarrow> job_start job \<noteq> None
     \<or> (case find_condition (job_conditions job) ''Succeeded'' of
          None \<Rightarrow> False
        | Some c \<Rightarrow> Status c = ConditionUnknown \<and> (Reason c = ''JobPending'' \<or> Reason c = ''JobRunning''))"

definition active_pods :: "WorkflowPod list \<Rightarrow> bool" where
  "active_pods ps \<longleftrightarrow> list_ex (\<lambda>p. pod_phase p \<noteq> ''Succeeded'' \<and> pod_phase p \<noteq> ''Failed'') ps"

definition owned_pod :: "BatchJob \<Rightarrow> WorkflowPod list \<Rightarrow> WorkflowPod option" where
  "owned_pod native ps = find (\<lambda>p. pod_owner p = Some (nj_uid native)) ps"

section \<open>The results of needed jobs\<close>

text \<open>A \<^verbatim>\<open>Need\<close> is the one the planner builds; any text that is not a result is \<^verbatim>\<open>NoResult\<close>.\<close>

record needsContext =
  nc_version :: int
  nc_needs :: "(string \<times> Need) list"

datatype needs_error = NeedsVersion int | NoNeeds | TooManyNeeds nat | InvalidNeedJob string | InvalidNeedResult string
  | InvalidNeedOutput string string | NeedOutputTooLong string string | NeedsTooLong | NeedsEmpty | NeedsMalformed string

definition needsContextVersion :: int where "needsContextVersion = 1"
definition maxNeedsContextBytes :: nat where "maxNeedsContextBytes = 900000"
definition maxNeeds :: nat where "maxNeeds = 1000"
definition maxJobOutputValueLength :: nat where "maxJobOutputValueLength = 4096"

definition check_need_output :: "string \<Rightarrow> string \<times> string \<Rightarrow> needs_error option" where
  "check_need_output job_id = (\<lambda>(name, val).
     if bad_output_name name then Some (InvalidNeedOutput job_id name)
     else if length val > maxJobOutputValueLength then Some (NeedOutputTooLong name job_id)
     else None)"

definition check_need :: "string \<times> Need \<Rightarrow> needs_error option" where
  "check_need = (\<lambda>(job_id, need).
     if bad_output_name job_id then Some (InvalidNeedJob job_id)
     else if need_result need = NoResult then Some (InvalidNeedResult job_id)
     else first_err (check_need_output job_id) (need_outputs need))"

definition validateNeedsContext :: "needsContext \<Rightarrow> needs_error option" where
  "validateNeedsContext ctx =
     (if nc_version ctx \<noteq> needsContextVersion then Some (NeedsVersion (nc_version ctx))
      else if nc_needs ctx = [] then Some NoNeeds
      else if length (nc_needs ctx) > maxNeeds then Some (TooManyNeeds (length (nc_needs ctx)))
      else first_err check_need (nc_needs ctx))"

text \<open>The size of the content; the count ends early when an output takes it over the limit.\<close>

fun outputs_bytes :: "(string \<times> string) list \<Rightarrow> nat \<Rightarrow> nat + nat" where
  "outputs_bytes [] n = Inr n"
| "outputs_bytes ((name, val) # outs) n =
     (let n = n + length name + length val
      in if n > maxNeedsContextBytes then Inl n else outputs_bytes outs n)"

fun result_bytes :: "job_result \<Rightarrow> nat" where
  "result_bytes NoResult = 0"
| "result_bytes Success = length ''success''"
| "result_bytes Failure = length ''failure''"
| "result_bytes Skipped = length ''skipped''"
| "result_bytes Cancelled = length ''cancelled''"

fun needs_bytes :: "(string \<times> Need) list \<Rightarrow> nat \<Rightarrow> nat" where
  "needs_bytes [] n = n"
| "needs_bytes ((job_id, need) # needs) n =
     (case outputs_bytes (need_outputs need) (n + length job_id + result_bytes (need_result need)) of
        Inl over \<Rightarrow> over
      | Inr n \<Rightarrow> needs_bytes needs n)"

definition needsContextContentBytes :: "(string \<times> Need) list \<Rightarrow> nat" where
  "needsContextContentBytes needs = needs_bytes needs 0"

definition EncodeNeedsContext :: "(needsContext \<Rightarrow> string) \<Rightarrow> (string \<times> Need) list \<Rightarrow> needs_error + string" where
  "EncodeNeedsContext marshal needs =
     (let ctx = \<lparr>nc_version = needsContextVersion, nc_needs = needs\<rparr>
      in case validateNeedsContext ctx of
           Some e \<Rightarrow> Inl e
         | None \<Rightarrow>
             if needsContextContentBytes needs > maxNeedsContextBytes then Inl NeedsTooLong
             else if length (marshal ctx) > maxNeedsContextBytes then Inl NeedsTooLong
             else Inr (marshal ctx))"

definition DecodeNeedsContext :: "(string \<Rightarrow> string + needsContext) \<Rightarrow> string \<Rightarrow> needs_error + (string \<times> Need) list" where
  "DecodeNeedsContext unmarshal data =
     (if data = [] then Inl NeedsEmpty
      else if length data > maxNeedsContextBytes then Inl NeedsTooLong
      else case unmarshal data of
             Inl m \<Rightarrow> Inl (NeedsMalformed m)
           | Inr ctx \<Rightarrow> (case validateNeedsContext ctx of Some e \<Rightarrow> Inl e | None \<Rightarrow> Inr (nc_needs ctx)))"

end
