(* ===== verification/JobPod.thy ===== *)
theory JobPod
  imports JobResult
begin

text \<open>
  The native Job a Runner creates for a WorkflowJob, \<^verbatim>\<open>buildJob\<close> of \<^verbatim>\<open>src/internal/controller/runner_controller.go\<close>, with the values of
  the Project that its Pod mounts (\<^verbatim>\<open>src/internal/controller/project_values.go\<close>) and the names of the objects that
  belong to a job (\<^verbatim>\<open>childName\<close>).

  The objects of Kubernetes have the fields the code sets. A quantity is an integer, and the SHA-256 digest of a name, in base 32, is an argument.
\<close>

section \<open>Names\<close>

fun sanitize :: "string \<Rightarrow> bool \<Rightarrow> string" where
  "sanitize [] last_dash = []"
| "sanitize (c # cs) last_dash =
     (if ascii_lower c \<or> ascii_digit c then c # sanitize cs False
      else if last_dash then sanitize cs True
      else CHR ''-'' # sanitize cs True)"

definition is_dash :: "char \<Rightarrow> bool" where "is_dash c \<longleftrightarrow> c = CHR ''-''"

definition sanitizeName :: "string \<Rightarrow> string" where
  "sanitizeName val = trim_func is_dash (sanitize (to_lower val) False)"

definition resourceNameMaxLength :: nat where "resourceNameMaxLength = 63"

definition childName :: "(string \<Rightarrow> string) \<Rightarrow> string \<Rightarrow> string \<Rightarrow> string" where
  "childName digest parent child =
     (let suffix = to_lower (digest (parent @ CHR 0x00 # child));
          pre = sanitizeName (parent @ ''-'' @ child);
          max_prefix = resourceNameMaxLength - length suffix - 1;
          pre = (if length pre > max_prefix then trim_func is_dash (take max_prefix pre) else pre);
          pre = (if pre = [] then ''job'' else pre)
      in pre @ ''-'' @ suffix)"

section \<open>Objects\<close>

datatype env_source = Literal string | SecretKey string string

record EnvVar =
  env_name :: string
  env_source :: env_source

record VolumeMount =
  mount_name :: string
  MountPath :: string
  ReadOnly :: bool

text \<open>The size limit of an empty directory, and the mode of the files of a secret, where the code sets them.\<close>

datatype volume_source =
    ConfigMapVolume string
  | SecretVolume string int
  | EmptyDirVolume "int option"
  | ProjectedSecrets "string list" int
  | ProjectedConfigMaps "string list" int

type_synonym volume = "string \<times> volume_source"

type_synonym resource_list = "(string \<times> int) list"

record Resources =
  res_limits :: resource_list
  res_requests :: resource_list

record StartupProbe =
  probe_command :: "string list"
  FailureThreshold :: int
  PeriodSeconds :: int
  ProbeTimeout :: int

record Container =
  container_name :: string
  Image :: string
  ImagePullPolicy :: string
  Args :: "string list"
  container_env :: "EnvVar list"
  container_resources :: Resources
  Privileged :: "bool option"
  AllowPrivilegeEscalation :: "bool option"
  DropCapabilities :: "string list"
  container_non_root :: "bool option"
  RunAsUser :: "int option"
  restart_always :: bool
  TerminationMessagePath :: string
  Probe :: "StartupProbe option"
  VolumeMounts :: "VolumeMount list"

record PodSpec =
  PodResources :: "Resources option"
  TerminationGracePeriodSeconds :: "int option"
  AutomountServiceAccountToken :: "bool option"
  ImagePullSecrets :: "string list"
  RestartPolicy :: string
  FSGroup :: "int option"
  pod_non_root :: "bool option"
  Seccomp :: string
  InitContainers :: "Container list"
  Containers :: "Container list"
  Volumes :: "volume list"

record BuiltJob =
  built_job :: BatchJob
  built_labels :: "(string \<times> string) list"
  built_annotations :: "(string \<times> string) list"
  job_annotations :: "(string \<times> string) list"
  BackoffLimit :: int
  Template :: PodSpec

section \<open>The configuration of a Runner and the values of a Project\<close>

record RunnerContainerSpec =
  rc_image :: string
  rc_pull_policy :: string
  rc_env :: "EnvVar list"
  rc_resources :: "Resources option"

record RunnerDockerSpec =
  dk_image :: string
  dk_env :: "EnvVar list"
  dk_resources :: "Resources option"

record RunnerExecutionSpec =
  ex_resources :: "Resources option"
  ex_pull_secrets :: "string list"
  ex_grace :: "int option"
  ex_runner :: RunnerContainerSpec
  ex_docker :: "RunnerDockerSpec option"

record ProjectRepositoryValues =
  pr_name :: string
  pr_secrets :: "string option"
  pr_variables :: "string option"

record ProjectValues =
  pv_uid :: string
  pv_secrets :: "string option"
  pv_variables :: "string option"
  pv_repositories :: "ProjectRepositoryValues list"

type_synonym value_sources = "string list \<times> string list"

definition append_sources :: "string option \<Rightarrow> string option \<Rightarrow> value_sources \<Rightarrow> value_sources" where
  "append_sources secrets variables sources =
     (fst sources @ (case secrets of None \<Rightarrow> [] | Some s \<Rightarrow> [s]), snd sources @ (case variables of None \<Rightarrow> [] | Some v \<Rightarrow> [v]))"

definition allProjectValueSources :: "ProjectValues \<Rightarrow> value_sources" where
  "allProjectValueSources proj =
     fold (\<lambda>repository. append_sources (pr_secrets repository) (pr_variables repository)) (pv_repositories proj)
       (append_sources (pv_secrets proj) (pv_variables proj) ([], []))"

text \<open>\<open>repository\<close> is the owner and the name of the repository of the run, if it has one.\<close>

definition workflowRunValueSources :: "ProjectValues \<Rightarrow> (string \<times> string) option \<Rightarrow> value_sources" where
  "workflowRunValueSources proj repository =
     (let sources = append_sources (pv_secrets proj) (pv_variables proj) ([], [])
      in case repository of
           None \<Rightarrow> sources
         | Some (owner, name) \<Rightarrow>
             (case find (\<lambda>v. equal_fold (pr_name v) (owner @ ''/'' @ name)) (pv_repositories proj) of
                None \<Rightarrow> sources
              | Some v \<Rightarrow> append_sources (pr_secrets v) (pr_variables v) sources))"

definition workflowRunUsesProjectSecrets :: "WorkflowRun \<Rightarrow> bool" where
  "workflowRunUsesProjectSecrets run =
     (case fork_pull_request (Spec run) of None \<Rightarrow> True | Some fork \<Rightarrow> SendSecrets fork)"

section \<open>The Pod\<close>

definition setEnvironmentVariables :: "EnvVar list \<Rightarrow> EnvVar list \<Rightarrow> EnvVar list" where
  "setEnvironmentVariables environment variables =
     filter (\<lambda>v. env_name v \<notin> env_name ` set variables) environment @ variables"

definition runnerResources :: "Resources option \<Rightarrow> Resources" where
  "runnerResources r = (case r of None \<Rightarrow> \<lparr>res_limits = [], res_requests = []\<rparr> | Some r \<Rightarrow> r)"

definition resourceListPreserved :: "resource_list \<Rightarrow> resource_list \<Rightarrow> bool" where
  "resourceListPreserved expected actual = list_all (\<lambda>(name, quantity). map_of actual name = Some quantity) expected"

definition podResourceRequirementsPreserved :: "Resources option \<Rightarrow> Resources option \<Rightarrow> bool" where
  "podResourceRequirementsPreserved expected actual =
     (case expected of
        None \<Rightarrow> True
      | Some e \<Rightarrow>
          (case actual of
             None \<Rightarrow> False
           | Some a \<Rightarrow> resourceListPreserved (res_limits e) (res_limits a) \<and> resourceListPreserved (res_requests e) (res_requests a)))"

definition add_volume :: "string \<Rightarrow> volume_source \<Rightarrow> PodSpec \<Rightarrow> PodSpec" where
  "add_volume name source pod = pod\<lparr>Volumes := Volumes pod @ [(name, source)]\<rparr>"

definition first_container :: "(Container \<Rightarrow> Container) \<Rightarrow> PodSpec \<Rightarrow> PodSpec" where
  "first_container f pod = pod\<lparr>Containers := (case Containers pod of [] \<Rightarrow> [] | c # cs \<Rightarrow> f c # cs)\<rparr>"

definition mounting :: "string \<Rightarrow> string \<Rightarrow> string list \<Rightarrow> Container \<Rightarrow> Container" where
  "mounting name path arguments c =
     c\<lparr>VolumeMounts := VolumeMounts c @ [\<lparr>mount_name = name, MountPath = path, ReadOnly = True\<rparr>], Args := Args c @ arguments\<rparr>"

definition set_env :: "EnvVar list \<Rightarrow> Container \<Rightarrow> Container" where
  "set_env variables c = c\<lparr>container_env := setEnvironmentVariables (container_env c) variables\<rparr>"

definition env_literal :: "string \<Rightarrow> string \<Rightarrow> EnvVar" where
  "env_literal name val = \<lparr>env_name = name, env_source = Literal val\<rparr>"

definition from_secret :: "string \<Rightarrow> string \<Rightarrow> string \<Rightarrow> EnvVar" where
  "from_secret name secret key = \<lparr>env_name = name, env_source = SecretKey secret key\<rparr>"

definition group_readable :: int where "group_readable = 288"

definition configureProjectValues :: "ProjectValues \<Rightarrow> (string \<times> string) option \<Rightarrow> WorkflowRun \<Rightarrow> PodSpec \<Rightarrow> PodSpec" where
  "configureProjectValues proj repository run pod =
     (let (secrets, variables) = workflowRunValueSources proj repository;
          context = ''/var/run/open-actions/context'';
          pod =
            (if workflowRunUsesProjectSecrets run \<and> secrets \<noteq> [] then
               first_container (mounting ''open-actions-secrets'' (context @ ''/secrets'') [''--secrets-directory='' @ context @ ''/secrets''])
                 (add_volume ''open-actions-secrets'' (ProjectedSecrets secrets group_readable) pod)
             else pod)
      in if variables \<noteq> [] then
           first_container (mounting ''open-actions-variables'' (context @ ''/variables'') [''--variables-directory='' @ context @ ''/variables''])
             (add_volume ''open-actions-variables'' (ProjectedConfigMaps variables group_readable) pod)
         else pod)"

definition dockerHost :: string where "dockerHost = ''unix:///var/run/open-actions-docker/docker.sock''"

definition docker_container :: "RunnerDockerSpec \<Rightarrow> Container" where
  "docker_container docker =
     \<lparr>container_name = ''docker'', Image = dk_image docker, ImagePullPolicy = [],
      Args = [''dockerd'', ''--host='' @ dockerHost, ''--group=65532''],
      container_env = setEnvironmentVariables (dk_env docker) [env_literal ''DOCKER_HOST'' dockerHost, env_literal ''DOCKER_TLS_CERTDIR'' []],
      container_resources = runnerResources (dk_resources docker), Privileged = Some True, AllowPrivilegeEscalation = None,
      DropCapabilities = [], container_non_root = Some False, RunAsUser = Some 0, restart_always = True, TerminationMessagePath = [],
      Probe = Some \<lparr>probe_command = [''docker'', ''info''], FailureThreshold = 60, PeriodSeconds = 1, ProbeTimeout = 5\<rparr>,
      VolumeMounts = [\<lparr>mount_name = ''open-actions-docker-socket'', MountPath = ''/var/run/open-actions-docker'', ReadOnly = False\<rparr>,
        \<lparr>mount_name = ''open-actions-docker-storage'', MountPath = ''/var/lib/docker'', ReadOnly = False\<rparr>,
        \<lparr>mount_name = ''open-actions-workspace'', MountPath = ''/workspace'', ReadOnly = False\<rparr>]\<rparr>"

definition configureDockerExecution :: "RunnerDockerSpec \<Rightarrow> PodSpec \<Rightarrow> PodSpec" where
  "configureDockerExecution docker pod =
     (let storage = (case dk_resources docker of None \<Rightarrow> None | Some r \<Rightarrow> map_of (res_limits r) ''ephemeral-storage'');
          pod = first_container (\<lambda>c. set_env [env_literal ''DOCKER_HOST'' dockerHost]
            c\<lparr>VolumeMounts := VolumeMounts c @
              [\<lparr>mount_name = ''open-actions-docker-socket'', MountPath = ''/var/run/open-actions-docker'', ReadOnly = False\<rparr>]\<rparr>) pod;
          pod = add_volume ''open-actions-docker-storage'' (EmptyDirVolume storage)
            (add_volume ''open-actions-docker-socket'' (EmptyDirVolume None) pod)
      in pod\<lparr>InitContainers := InitContainers pod @ [docker_container docker]\<rparr>)"

section \<open>The native Job\<close>

text \<open>What the controller is configured with, and what the WorkflowJob asks for.\<close>

record RunnerConfig =
  MaxJobTimeout :: int
  CacheEnabled :: bool
  ArtifactResultsURL :: string
  ArtifactMaxRetentionDays :: int

record JobPlanned =
  jp_label :: string
  jp_display_name :: string
  jp_result_version :: string
  jp_timeout_seconds :: int
  jp_project_label :: string
  jp_archive :: "string option"

definition nativeJobLabels :: "WorkflowJob \<Rightarrow> JobPlanned \<Rightarrow> WorkflowRun \<Rightarrow> ProjectValues \<Rightarrow> Runner \<Rightarrow> (string \<times> string) list" where
  "nativeJobLabels job planned run proj runner =
     [(''actions.kelos.dev/project-uid'', pv_uid proj), (''actions.kelos.dev/runner-uid'', runner_uid runner),
      (''actions.kelos.dev/workflow-run-uid'', run_uid run), (''actions.kelos.dev/workflow-job-uid'', job_uid job),
      (''actions.kelos.dev/workflow-job'', jp_label planned)]"

definition job_annotation_list :: "WorkflowJob \<Rightarrow> JobPlanned \<Rightarrow> Runner \<Rightarrow> (string \<times> string) list" where
  "job_annotation_list job planned runner =
     [(''actions.kelos.dev/workflow-job-id'', JobID job), (''actions.kelos.dev/runner-name'', runner_name runner)]
     @ (if jp_result_version planned = [] then [] else [(''actions.kelos.dev/runner-result-version'', jp_result_version planned)])
     @ (if jp_display_name planned = [] then [] else [(''actions.kelos.dev/workflow-job-display-name'', jp_display_name planned)])"

definition runner_container :: "(string \<Rightarrow> string \<Rightarrow> string) \<Rightarrow> WorkflowJob \<Rightarrow> Runner \<Rightarrow> RunnerContainerSpec \<Rightarrow> Container" where
  "runner_container child job runner spec =
     \<lparr>container_name = ''runner'', Image = rc_image spec, ImagePullPolicy = rc_pull_policy spec,
      Args = [''--job-file=/var/run/open-actions/job.json'', ''--result-file=/dev/termination-log'', ''--workspace=/workspace/repository''],
      container_env = setEnvironmentVariables (rc_env spec)
        [env_literal ''RUNNER_NAME'' (runner_name runner),
         from_secret ''OPEN_ACTIONS_GITHUB_TOKEN'' (child (job_name job) ''auth'') ''job-token'',
         from_secret ''OPEN_ACTIONS_ACTION_TOKEN'' (child (job_name job) ''auth'') ''action-token''],
      container_resources = runnerResources (rc_resources spec), Privileged = None, AllowPrivilegeEscalation = Some False,
      DropCapabilities = [''ALL''], container_non_root = None, RunAsUser = None, restart_always = False,
      TerminationMessagePath = ''/dev/termination-log'', Probe = None,
      VolumeMounts = [\<lparr>mount_name = ''open-actions-job'', MountPath = ''/var/run/open-actions'', ReadOnly = True\<rparr>,
        \<lparr>mount_name = ''open-actions-workspace'', MountPath = ''/workspace'', ReadOnly = False\<rparr>]\<rparr>"

definition pod_base :: "(string \<Rightarrow> string \<Rightarrow> string) \<Rightarrow> WorkflowJob \<Rightarrow> Runner \<Rightarrow> RunnerExecutionSpec \<Rightarrow> PodSpec" where
  "pod_base child job runner spec =
     \<lparr>PodResources = ex_resources spec, TerminationGracePeriodSeconds = ex_grace spec, AutomountServiceAccountToken = Some False,
      ImagePullSecrets = ex_pull_secrets spec, RestartPolicy = ''Never'', FSGroup = Some 65532, pod_non_root = Some True,
      Seccomp = ''RuntimeDefault'', InitContainers = [], Containers = [runner_container child job runner (ex_runner spec)],
      Volumes = [(''open-actions-job'', ConfigMapVolume (child (job_name job) ''plan'')), (''open-actions-workspace'', EmptyDirVolume None)]\<rparr>"

definition mount_event :: "WorkflowRun \<Rightarrow> PodSpec \<Rightarrow> PodSpec" where
  "mount_event run pod =
     (case map_of (run_annotations run) ''actions.kelos.dev/github-event-snapshot'' of
        None \<Rightarrow> pod
      | Some snapshot \<Rightarrow>
          if snapshot = [] then pod
          else first_container (mounting ''open-actions-event'' ''/var/run/open-actions/event'' [''--event-file=/var/run/open-actions/event/event.json''])
                 (add_volume ''open-actions-event'' (SecretVolume snapshot group_readable) pod))"

definition mount_needs :: "(string \<Rightarrow> string \<Rightarrow> string) \<Rightarrow> WorkflowJob \<Rightarrow> PodSpec \<Rightarrow> PodSpec" where
  "mount_needs child job pod =
     (if Needs job = [] then pod
      else first_container (mounting ''open-actions-needs'' ''/var/run/open-actions/needs'' [''--needs-file=/var/run/open-actions/needs/needs.json''])
             (add_volume ''open-actions-needs'' (ConfigMapVolume (child (job_name job) ''needs'')) pod))"

definition configure_services :: "RunnerConfig \<Rightarrow> (string \<Rightarrow> string \<Rightarrow> string) \<Rightarrow> WorkflowJob \<Rightarrow> PodSpec \<Rightarrow> PodSpec" where
  "configure_services conf child job pod =
     (let url = ArtifactResultsURL conf;
          pod = (if url = [] then pod
            else first_container (set_env
              [from_secret ''ACTIONS_RUNTIME_TOKEN'' (child (job_name job) ''auth'') ''artifact-token'', env_literal ''ACTIONS_RESULTS_URL'' url,
               env_literal ''OPEN_ACTIONS_LOG_URL'' url, env_literal ''GITHUB_RETENTION_DAYS'' (int_str (ArtifactMaxRetentionDays conf))]) pod)
      in if CacheEnabled conf \<and> url \<noteq> [] then
           first_container (set_env [env_literal ''ACTIONS_CACHE_SERVICE_V2'' ''true'', env_literal ''ACTIONS_CACHE_URL'' (trim_suffix url ''/'' @ ''/'')]) pod
         else pod)"

definition build_pod :: "RunnerConfig \<Rightarrow> (string \<Rightarrow> string \<Rightarrow> string) \<Rightarrow> WorkflowJob \<Rightarrow> WorkflowRun \<Rightarrow> ProjectValues \<Rightarrow> (string \<times> string) option \<Rightarrow>
    Runner \<Rightarrow> RunnerExecutionSpec \<Rightarrow> PodSpec" where
  "build_pod conf child job run proj repository runner spec =
     (let pod = pod_base child job runner spec;
          pod = (case ex_docker spec of None \<Rightarrow> pod | Some docker \<Rightarrow> configureDockerExecution docker pod)
      in configure_services conf child job
           (configureProjectValues proj repository run (mount_needs child job (mount_event run pod))))"

definition buildJob :: "RunnerConfig \<Rightarrow> (string \<Rightarrow> string \<Rightarrow> string) \<Rightarrow> WorkflowJob \<Rightarrow> JobPlanned \<Rightarrow> WorkflowRun \<Rightarrow> ProjectValues \<Rightarrow>
    (string \<times> string) option \<Rightarrow> Runner \<Rightarrow> RunnerExecutionSpec \<Rightarrow> int \<Rightarrow> BuiltJob" where
  "buildJob conf child job planned run proj repository runner spec startup_deadline =
     (let annotations = job_annotation_list job planned runner
      in \<lparr>built_job = \<lparr>nj_uid = [], nj_owner = Some (job_uid job), nj_conditions = [], ActiveDeadlineSeconds = Some (startup_deadline div second),
            nj_start = None, nj_completion = None, result_version_annotation = jp_result_version planned, deadline_annotation = ''startup''\<rparr>,
          built_labels = nativeJobLabels job planned run proj runner,
          built_annotations = annotations,
          job_annotations = annotations @ [(''actions.kelos.dev/job-deadline'', ''startup'')],
          BackoffLimit = 0,
          Template = build_pod conf child job run proj repository runner spec\<rparr>)"

section \<open>The secrets a Pod gets\<close>

fun source_secrets :: "env_source \<Rightarrow> string set" where
  "source_secrets (Literal v) = {}"
| "source_secrets (SecretKey name key) = {name}"

definition env_secrets :: "EnvVar list \<Rightarrow> string set" where
  "env_secrets vs = (\<Union>v \<in> set vs. source_secrets (env_source v))"

fun volume_secrets :: "volume_source \<Rightarrow> string set" where
  "volume_secrets (SecretVolume name mode) = {name}"
| "volume_secrets (ProjectedSecrets names mode) = set names"
| "volume_secrets _ = {}"

definition pod_secrets :: "PodSpec \<Rightarrow> string set" where
  "pod_secrets pod = set (ImagePullSecrets pod) \<union> (\<Union>c \<in> set (InitContainers pod @ Containers pod). env_secrets (container_env c)) \<union> (\<Union>(name, source) \<in> set (Volumes pod). volume_secrets source)"

text \<open>The secrets the administrator configured for the Runner.\<close>

definition runner_secrets :: "RunnerExecutionSpec \<Rightarrow> string set" where
  "runner_secrets spec = set (ex_pull_secrets spec) \<union> env_secrets (rc_env (ex_runner spec)) \<union> (case ex_docker spec of None \<Rightarrow> {} | Some docker \<Rightarrow> env_secrets (dk_env docker))"

definition event_secrets :: "WorkflowRun \<Rightarrow> string set" where
  "event_secrets run = (case map_of (run_annotations run) ''actions.kelos.dev/github-event-snapshot'' of
     None \<Rightarrow> {} | Some snapshot \<Rightarrow> if snapshot = [] then {} else {snapshot})"

lemma env_secrets_simps [simp]:
  "env_secrets [] = {}" "env_secrets (v # vs) = source_secrets (env_source v) \<union> env_secrets vs" "env_secrets (vs @ ws) = env_secrets vs \<union> env_secrets ws"
  by (auto simp: env_secrets_def)

lemma env_source_simps [simp]: "source_secrets (env_source (env_literal n v)) = {}" "source_secrets (env_source (from_secret n s k)) = {s}"
  by (simp_all add: env_literal_def from_secret_def)

lemma set_environment_secrets: "env_secrets (setEnvironmentVariables vs ws) \<subseteq> env_secrets vs \<union> env_secrets ws"
  "env_secrets ws \<subseteq> env_secrets (setEnvironmentVariables vs ws)"
  by (auto simp: setEnvironmentVariables_def env_secrets_def)

lemma add_volume_secrets [simp]: "pod_secrets (add_volume name source pod) = pod_secrets pod \<union> volume_secrets source"
  by (auto simp: pod_secrets_def add_volume_def)

lemma first_container_secrets:
  assumes "\<And>c. env_secrets (container_env (f c)) \<subseteq> env_secrets (container_env c) \<union> S"
  shows "pod_secrets (first_container f pod) \<subseteq> pod_secrets pod \<union> S"
proof (cases "Containers pod")
  case Nil
  then show ?thesis by (auto simp: pod_secrets_def first_container_def)
next
  case (Cons c cs)
  with assms [of c] show ?thesis by (auto simp: pod_secrets_def first_container_def)
qed

lemma mounting_secrets [simp]: "pod_secrets (first_container (mounting n p as) pod) = pod_secrets pod"
  by (cases "Containers pod") (simp_all add: pod_secrets_def first_container_def mounting_def)

lemma set_env_pod_secrets: "pod_secrets (first_container (set_env vs) pod) \<subseteq> pod_secrets pod \<union> env_secrets vs"
  by (rule first_container_secrets) (simp add: set_env_def set_environment_secrets)

lemma project_values_secrets:
  "pod_secrets (configureProjectValues proj repository run pod) =
     pod_secrets pod \<union> (if workflowRunUsesProjectSecrets run then set (fst (workflowRunValueSources proj repository)) else {})"
  by (auto simp: configureProjectValues_def Let_def split: prod.splits)

lemma mount_secrets:
  "pod_secrets (mount_event run pod) = pod_secrets pod \<union> event_secrets run" "pod_secrets (mount_needs child job pod) = pod_secrets pod"
  by (auto simp: mount_event_def event_secrets_def mount_needs_def split: option.splits)

lemma services_secrets:
  "pod_secrets (configure_services conf child job pod) \<subseteq> pod_secrets pod \<union> {child (job_name job) ''auth''}"
  "(\<Union>(name, source) \<in> set (Volumes pod). volume_secrets source) \<subseteq> pod_secrets (configure_services conf child job pod)"
proof -
  show "pod_secrets (configure_services conf child job pod) \<subseteq> pod_secrets pod \<union> {child (job_name job) ''auth''}"
    using set_env_pod_secrets
    by (auto simp: configure_services_def Let_def dest!: set_mp [OF set_env_pod_secrets])
  show "(\<Union>(name, source) \<in> set (Volumes pod). volume_secrets source) \<subseteq> pod_secrets (configure_services conf child job pod)"
    by (auto simp: configure_services_def Let_def pod_secrets_def first_container_def)
qed

lemma project_values_mounted:
  "(if workflowRunUsesProjectSecrets run then set (fst (workflowRunValueSources proj repository)) else {}) \<subseteq>
     (\<Union>(name, source) \<in> set (Volumes (configureProjectValues proj repository run pod)). volume_secrets source)"
  by (auto simp: configureProjectValues_def first_container_def mounting_def add_volume_def Let_def split: prod.splits)

lemma docker_secrets: "pod_secrets (configureDockerExecution docker pod) \<subseteq> pod_secrets pod \<union> env_secrets (dk_env docker)"
proof -
  let ?f = "\<lambda>c. set_env [env_literal ''DOCKER_HOST'' dockerHost]
    c\<lparr>VolumeMounts := VolumeMounts c @ [\<lparr>mount_name = ''open-actions-docker-socket'', MountPath = ''/var/run/open-actions-docker'', ReadOnly = False\<rparr>]\<rparr>"
  have "pod_secrets (p\<lparr>InitContainers := InitContainers p @ [docker_container docker]\<rparr>) = pod_secrets p \<union> env_secrets (container_env (docker_container docker))" for p
    by (auto simp: pod_secrets_def)
  moreover have "env_secrets (container_env (docker_container docker)) \<subseteq> env_secrets (dk_env docker)"
    using set_environment_secrets(1) [of "dk_env docker"] by (force simp: docker_container_def)
  moreover have "pod_secrets (first_container ?f pod) \<subseteq> pod_secrets pod \<union> {}"
    by (rule first_container_secrets) (use set_environment_secrets(1) in \<open>force simp: set_env_def\<close>)
  ultimately show ?thesis by (auto simp: configureDockerExecution_def Let_def)
qed

lemma base_secrets: "pod_secrets (pod_base child job runner spec) \<subseteq> set (ex_pull_secrets spec) \<union> env_secrets (rc_env (ex_runner spec)) \<union> {child (job_name job) ''auth''}"
  using set_environment_secrets(1) [of "rc_env (ex_runner spec)"] by (force simp: pod_base_def runner_container_def pod_secrets_def)

text \<open>
  C9. The secrets of a Project reach the Pod of a job exactly when the run may have them: those of the Project and of the repository of the run, unless the
  run is of the pull request of a fork that gets no secrets, which has none of them. All else the Pod refers to is the secret of the job
  itself, the snapshot of the event and what the administrator configured for the Runner.
\<close>

theorem pod_gets_only_allowed_secrets:
  "let allowed = (if workflowRunUsesProjectSecrets run then set (fst (workflowRunValueSources proj repository)) else {});
       pod = Template (buildJob conf child job planned run proj repository runner spec deadline)
   in allowed \<subseteq> pod_secrets pod \<and>
      pod_secrets pod \<subseteq> allowed \<union> {child (job_name job) ''auth''} \<union> event_secrets run \<union> runner_secrets spec"
proof -
  let ?allowed = "if workflowRunUsesProjectSecrets run then set (fst (workflowRunValueSources proj repository)) else {}"
  let ?base = "case ex_docker spec of None \<Rightarrow> pod_base child job runner spec | Some docker \<Rightarrow> configureDockerExecution docker (pod_base child job runner spec)"
  let ?pod = "configureProjectValues proj repository run (mount_needs child job (mount_event run ?base))"
  have build: "Template (buildJob conf child job planned run proj repository runner spec deadline) = configure_services conf child job ?pod"
    by (simp add: buildJob_def build_pod_def Let_def)
  have "pod_secrets ?base \<subseteq> runner_secrets spec \<union> {child (job_name job) ''auth''}"
    using base_secrets [of child job runner spec] docker_secrets [where pod = "pod_base child job runner spec"]
    by (fastforce simp: runner_secrets_def split: option.splits)
  then have "pod_secrets ?pod \<subseteq> ?allowed \<union> {child (job_name job) ''auth''} \<union> event_secrets run \<union> runner_secrets spec"
    by (auto simp: project_values_secrets mount_secrets)
  with services_secrets(1) [of conf child job ?pod]
  have "pod_secrets (configure_services conf child job ?pod) \<subseteq> ?allowed \<union> {child (job_name job) ''auth''} \<union> event_secrets run \<union> runner_secrets spec"
    by blast
  moreover have "?allowed \<subseteq> pod_secrets (configure_services conf child job ?pod)"
    using project_values_mounted services_secrets(2) by (rule order_trans)
  ultimately show ?thesis unfolding build Let_def by blast
qed

end
