(* ===== verification/JobPlan.thy ===== *)
theory JobPlan
  imports ExprParser CacheStore
begin

text \<open>
  The plan of a job, \<^verbatim>\<open>src/internal/runner/runner.go\<close>: the document the controller writes for a WorkflowJob and the
  runner process executes, with the checks both make on it (\<^verbatim>\<open>DecodePlan\<close>), and whether a job needs the token
  for the download of actions (\<^verbatim>\<open>src/internal/runner/action.go\<close>).

  JSON and the parsing of URLs are arguments. The document of the event, which only the process reads, is not a part of the plan here.
\<close>

section \<open>The plan\<close>

record PlanRun =
  run_id :: int
  run_number :: int
  run_attempt :: int
  run_actor :: string

record PlanRepository =
  repo_id :: int
  repo_owner :: string
  repo_name :: string
  ServerURL :: string
  APIURL :: string
  ActionCloneBaseURL :: string

record PlanRevision =
  rev_sha :: string
  rev_head_sha :: string
  rev_base_sha :: string
  rev_merge_base_sha :: string
  rev_ref :: string
  rev_ref_name :: string

record 'n PlanStep =
  step_id :: string
  step_name :: string
  step_uses :: string
  step_run :: string
  step_directory :: string
  step_with :: "(string \<times> string) list"
  step_env :: "(string \<times> string) list"
  step_if :: string
  step_continue :: "'n any"

record 'n Plan =
  plan_version :: int
  CacheMode :: string
  plan_run :: PlanRun
  plan_repository :: PlanRepository
  plan_event :: string
  DeliveryID :: string
  plan_revision :: PlanRevision
  plan_inputs :: "(string \<times> 'n any) list"
  plan_workflow_name :: string
  plan_workflow_path :: string
  plan_job_id :: string
  has_matrix :: bool
  has_strategy :: bool
  plan_env :: "(string \<times> string) list"
  plan_outputs :: "(string \<times> string) list"
  GitHubTokenPermissions :: "(string \<times> string) list option"
  TimeoutSeconds :: int
  CleanupTimeoutSeconds :: int
  plan_steps :: "'n PlanStep list"

section \<open>Checks\<close>

datatype plan_error = PlanMalformed string | PlanVersionUnsupported int | PlanIncomplete | PlanRevisionIncomplete | PlanTimeoutIncomplete
  | PlanRunIncomplete | PlanCacheMode | PlanPermissionsIncomplete | PlanContextIncomplete

definition minimumPlanVersion :: int where "minimumPlanVersion = 1"
definition PlanVersion :: int where "PlanVersion = 10"

definition validGitHubTokenPermissions :: "(string \<times> string) list option \<Rightarrow> bool" where
  "validGitHubTokenPermissions permissions =
     (case permissions of
        None \<Rightarrow> False
      | Some ps \<Rightarrow> list_all (\<lambda>(name, level).
          name \<in> {''actions'', ''checks'', ''contents'', ''issues'', ''packages'', ''pull_requests'', ''statuses''} \<and>
          (level = ''read'' \<or> level = ''write'')) ps)"

definition validGitSHA :: "string \<Rightarrow> bool" where
  "validGitSHA s \<longleftrightarrow> length s = 40 \<and> list_all (\<lambda>c. ascii_digit c \<or> 97 \<le> byte c \<and> byte c \<le> 102) s"

fun valid_input :: "'n any \<Rightarrow> bool" where
  "valid_input (StrAny _) = True"
| "valid_input (BoolAny _) = True"
| "valid_input (NumAny _) = True"
| "valid_input _ = False"

definition validInputValues :: "(string \<times> 'n any) list \<Rightarrow> bool" where
  "validInputValues inputs = list_all (\<lambda>(_, v). valid_input v) inputs"

definition validEventDeliveryID :: "string \<Rightarrow> string \<Rightarrow> bool" where
  "validEventDeliveryID event delivery \<longleftrightarrow> (event \<in> {''workflow_dispatch'', ''schedule'', ''workflow_call''}) = (delivery = [])"

definition maxDurationSeconds :: int where "maxDurationSeconds = (2 ^ 63 - 1) div 10 ^ 9"

definition plan_incomplete :: "'n Plan \<Rightarrow> bool" where
  "plan_incomplete plan \<longleftrightarrow>
     (let r = plan_repository plan; v = plan_revision plan
      in repo_id r < 1 \<or> repo_owner r = [] \<or> repo_name r = [] \<or> ServerURL r = [] \<or> APIURL r = [] \<or> ActionCloneBaseURL r = [] \<or> plan_event plan = []
         \<or> \<not> validEventDeliveryID (plan_event plan) (DeliveryID plan) \<or> \<not> validInputValues (plan_inputs plan) \<or> rev_sha v = [] \<or> rev_ref v = []
         \<or> rev_ref_name v = [] \<or> plan_workflow_name plan = [] \<or> plan_job_id plan = [] \<or> plan_steps plan = [])"

definition pull_request_incomplete :: "PlanRevision \<Rightarrow> bool" where
  "pull_request_incomplete v \<longleftrightarrow>
     (let has_integration = rev_base_sha v \<noteq> [] \<or> rev_merge_base_sha v \<noteq> [];
          invalid_head = rev_head_sha v \<noteq> [] \<and> \<not> validGitSHA (rev_head_sha v);
          incomplete = has_integration \<and>
            (\<not> validGitSHA (rev_head_sha v) \<or> \<not> validGitSHA (rev_base_sha v) \<or> \<not> validGitSHA (rev_merge_base_sha v))
      in \<not> validGitSHA (rev_sha v) \<or> invalid_head \<or> incomplete)"

definition validatePlan :: "'n Plan \<Rightarrow> plan_error option" where
  "validatePlan plan =
     (if plan_version plan < minimumPlanVersion \<or> plan_version plan > PlanVersion then Some (PlanVersionUnsupported (plan_version plan))
      else if plan_incomplete plan then Some PlanIncomplete
      else if plan_version plan \<ge> 5 \<and> plan_event plan = ''pull_request'' \<and> pull_request_incomplete (plan_revision plan) then Some PlanRevisionIncomplete
      else if plan_version plan \<ge> 6 \<and> (TimeoutSeconds plan < 1 \<or> TimeoutSeconds plan > maxDurationSeconds \<or> CleanupTimeoutSeconds plan < 1
          \<or> CleanupTimeoutSeconds plan > maxDurationSeconds) then Some PlanTimeoutIncomplete
      else if plan_version plan \<ge> 7 \<and> (run_id (plan_run plan) < 1 \<or> run_number (plan_run plan) < 1 \<or> run_attempt (plan_run plan) < 1
          \<or> run_actor (plan_run plan) = []) then Some PlanRunIncomplete
      else if CacheMode plan \<noteq> [] \<and> \<not> ValidMode (CacheMode plan) then Some PlanCacheMode
      else if plan_version plan \<ge> 8 \<and> \<not> validGitHubTokenPermissions (GitHubTokenPermissions plan) then Some PlanPermissionsIncomplete
      else if plan_version plan \<ge> 9 \<and> (plan_workflow_path plan = [] \<or> has_matrix plan \<noteq> has_strategy plan) then Some PlanContextIncomplete
      else None)"

definition DecodePlan :: "(string \<Rightarrow> string + 'n Plan) \<Rightarrow> string \<Rightarrow> plan_error + 'n Plan" where
  "DecodePlan unmarshal data =
     (case unmarshal data of
        Inl m \<Rightarrow> Inl (PlanMalformed m)
      | Inr plan \<Rightarrow> (case validatePlan plan of Some e \<Rightarrow> Inl e | None \<Rightarrow> Inr plan))"

definition resultVersionForPlan :: "int \<Rightarrow> int" where
  "resultVersionForPlan version = (if version \<ge> 6 then 2 else 1)"

section \<open>The token for actions\<close>

text \<open>\<open>url\<close> gives the scheme and the host of a URL.\<close>

definition actionTokenForClone :: "(string \<Rightarrow> (string \<times> string) option) \<Rightarrow> 'n Plan \<Rightarrow> string \<Rightarrow> string" where
  "actionTokenForClone url plan token =
     (case (url (ServerURL (plan_repository plan)), url (ActionCloneBaseURL (plan_repository plan))) of
        (Some (scheme, host), Some (clone_scheme, clone_host)) \<Rightarrow>
          if \<not> equal_fold scheme clone_scheme \<or> \<not> equal_fold host clone_host then [] else token
      | _ \<Rightarrow> [])"

fun action_required :: "(string \<Rightarrow> (string \<times> string) option) \<Rightarrow> 'n Plan \<Rightarrow> 'n PlanStep list \<Rightarrow> bool" where
  "action_required url plan [] = False"
| "action_required url plan (step # steps) =
     (if step_uses step \<noteq> [] then actionTokenForClone url plan ''required'' \<noteq> [] else action_required url plan steps)"

definition ActionTokenRequired :: "(string \<Rightarrow> (string \<times> string) option) \<Rightarrow> 'n Plan \<Rightarrow> bool" where
  "ActionTokenRequired url plan = action_required url plan (plan_steps plan)"

end
