(* ===== verification/JobExecution.thy ===== *)
theory JobExecution
  imports JobPod JobPlan
begin

text \<open>
  What a Runner does with its job, \<^verbatim>\<open>src/internal/controller/runner_controller.go\<close>: it looks at the native Job, cancels or fails the
  WorkflowJob, and otherwise creates the native Job with the tokens it needs.

  An action takes the WorkflowJob the reconciliation holds and returns the requests it sent, each with its answer, the WorkflowJob
  it then holds, and a value or an error. The answers of the API server and of GitHub are arguments,
  one for each call. A request is listed also when it was refused. Reads are not listed.
\<close>

section \<open>Actions\<close>

datatype api_error = NotFound string | AlreadyExists string | Failed string

text \<open>An error of the API server or another service, or \<^verbatim>\<open>runnerExecutionConfigurationError\<close> with its reason.\<close>

datatype failure = Api api_error | Misconfigured string string

fun api_text :: "api_error \<Rightarrow> string" where
  "api_text (NotFound m) = m"
| "api_text (AlreadyExists m) = m"
| "api_text (Failed m) = m"

fun error_text :: "failure \<Rightarrow> string" where
  "error_text (Api e) = api_text e"
| "error_text (Misconfigured reason m) = m"

text \<open>An error with more text around it, which \<^verbatim>\<open>errors.As\<close> sees through; and several errors joined.\<close>

fun wrap :: "string \<Rightarrow> api_error \<Rightarrow> api_error" where
  "wrap pre (NotFound m) = NotFound (pre @ m)"
| "wrap pre (AlreadyExists m) = AlreadyExists (pre @ m)"
| "wrap pre (Failed m) = Failed (pre @ m)"

fun add_text :: "api_error \<Rightarrow> string \<Rightarrow> api_error" where
  "add_text (NotFound m) text = NotFound (m @ text)"
| "add_text (AlreadyExists m) text = AlreadyExists (m @ text)"
| "add_text (Failed m) text = Failed (m @ text)"

fun joined :: "failure \<Rightarrow> failure \<Rightarrow> failure" where
  "joined (Api e) e' = Api (add_text e (CHR 0x0A # error_text e'))"
| "joined (Misconfigured reason m) e' = Misconfigured reason (m @ CHR 0x0A # error_text e')"

datatype request =
    WriteJob WorkflowJob
  | PatchDeadline BatchJob
  | DeleteNative
  | IssueToken string
  | RevokeToken string
  | StoreSecret string string string
  | DeleteSecret
  | PatchArchive bool
  | TryNative BuiltJob
  | CreateNative BuiltJob
  | WriteRunner Runner
  | PutFinalizer bool

type_synonym trace = "(request \<times> api_error option) list"
type_synonym ('s, 'a) action = "'s \<Rightarrow> trace \<times> 's \<times> (failure + 'a)"
type_synonym 'a act = "(WorkflowJob, 'a) action"

definition ret :: "'a \<Rightarrow> ('s, 'a) action" where "ret x = (\<lambda>held. ([], held, Inr x))"
definition stop :: "api_error \<Rightarrow> ('s, 'a) action" where "stop e = (\<lambda>held. ([], held, Inl (Api e)))"
definition give_up :: "failure \<Rightarrow> ('s, 'a) action" where "give_up e = (\<lambda>held. ([], held, Inl e))"
definition answer :: "api_error + 'a \<Rightarrow> ('s, 'a) action" where "answer r = (\<lambda>held. ([], held, map_sum Api id r))"
definition holding :: "('s \<Rightarrow> ('s, 'a) action) \<Rightarrow> ('s, 'a) action" where "holding f = (\<lambda>held. f held held)"

definition and_do :: "('s, 'a) action \<Rightarrow> ('a \<Rightarrow> ('s, 'b) action) \<Rightarrow> ('s, 'b) action" where
  "and_do m k = (\<lambda>held.
     case m held of
       (es, held', Inl e) \<Rightarrow> (es, held', Inl e)
     | (es, held', Inr x) \<Rightarrow> (case k x held' of (es', r) \<Rightarrow> (es @ es', r)))"

text \<open>The error as a value.\<close>

definition attempt :: "('s, 'a) action \<Rightarrow> ('s, failure + 'a) action" where
  "attempt m = (\<lambda>held. case m held of (es, held', r) \<Rightarrow> (es, held', Inr r))"

definition send :: "request \<Rightarrow> api_error option \<Rightarrow> ('s, unit) action" where
  "send req ans = (\<lambda>held. ([(req, ans)], held, case ans of None \<Rightarrow> Inr () | Some e \<Rightarrow> Inl (Api e)))"

definition unless_gone :: "('s, unit) action \<Rightarrow> ('s, unit) action" where
  "unless_gone m = and_do (attempt m) (\<lambda>r. case r of Inl (Api (NotFound _)) \<Rightarrow> ret () | Inl e \<Rightarrow> give_up e | Inr _ \<Rightarrow> ret ())"

text \<open>What follows is done also after an error, and both errors are reported.\<close>

definition failing_after :: "failure \<Rightarrow> unit act \<Rightarrow> 'a act" where
  "failing_after e m = and_do (attempt m) (\<lambda>r. give_up (case r of Inl e' \<Rightarrow> joined e e' | Inr _ \<Rightarrow> e))"

text \<open>The status of the WorkflowJob is written only if it changed.\<close>

definition no_runner :: "WorkflowJob \<Rightarrow> api_error" where
  "no_runner job = Failed (''WorkflowJob '' @ CHR 0x22 # job_name job @ CHR 0x22 # '' has no assigned Runner'')"

definition put_status :: "(WorkflowJob \<Rightarrow> WorkflowJob option) \<Rightarrow> api_error option \<Rightarrow> unit act" where
  "put_status f ans = (\<lambda>job.
     case f job of
       None \<Rightarrow> ([], job, Inl (Api (no_runner job)))
     | Some job' \<Rightarrow> if job' = job then ([], job', Inr ()) else send (WriteJob job') ans job')"

section \<open>The secret of a job\<close>

record SecretView =
  got_secret :: "api_error + bool \<times> string \<times> string"
  has_github :: bool
  secret_revoked :: "string \<Rightarrow> api_error option"
  secret_deleted :: "api_error option"

definition revoke_all :: "(string \<Rightarrow> api_error option) \<Rightarrow> string list \<Rightarrow> unit act" where
  "revoke_all revoked tokens = (\<lambda>job.
     (map (\<lambda>t. (RevokeToken t, revoked t)) tokens, job,
      if list_all (\<lambda>t. revoked t = None) tokens then Inr () else Inl (Api (Failed ''revoke installation tokens''))))"

definition cleanupAuthSecret :: "SecretView \<Rightarrow> unit act" where
  "cleanupAuthSecret view =
     (case got_secret view of
        Inl (NotFound _) \<Rightarrow> ret ()
      | Inl e \<Rightarrow> stop e
      | Inr (controlled, job_token, action_token) \<Rightarrow>
          if \<not> controlled then stop (Failed ''authentication Secret is not controlled by WorkflowJob'')
          else and_do (if has_github view then revoke_all (secret_revoked view) (filter (\<lambda>t. t \<noteq> []) [job_token, action_token]) else ret ())
                 (\<lambda>_. unless_gone (send DeleteSecret (secret_deleted view))))"

record StoreView =
  secret_created :: "api_error option"
  existing_secret :: "api_error + bool \<times> (string \<times> string \<times> string)"
  secret_patched :: "api_error option"

definition ensureAuthSecret :: "StoreView \<Rightarrow> string \<Rightarrow> string \<Rightarrow> string \<Rightarrow> unit act" where
  "ensureAuthSecret view job_token action_token artifact_token =
     and_do (attempt (send (StoreSecret job_token action_token artifact_token) (secret_created view))) (\<lambda>r.
       case r of
         Inr _ \<Rightarrow> ret ()
       | Inl (Api (AlreadyExists _)) \<Rightarrow>
           and_do (answer (existing_secret view)) (\<lambda>(controlled, data).
             if \<not> controlled then stop (Failed ''authentication Secret is not controlled by WorkflowJob'')
             else if data = (job_token, action_token, artifact_token) then ret ()
             else send (StoreSecret job_token action_token artifact_token) (secret_patched view))
       | Inl e \<Rightarrow> give_up e)"

section \<open>Ending a job\<close>

record CompleteView =
  complete_updated :: "api_error option"
  complete_secret :: SecretView

definition completeAssignedWorkflowJob :: "int \<Rightarrow> CompleteView \<Rightarrow> job_result \<Rightarrow> string \<Rightarrow> string \<Rightarrow> unit act" where
  "completeAssignedWorkflowJob now view result reason message =
     and_do (put_status (\<lambda>job. completed_job job result now reason message) (complete_updated view))
       (\<lambda>_. cleanupAuthSecret (complete_secret view))"

definition failAssignedWorkflowJob :: "int \<Rightarrow> CompleteView \<Rightarrow> string \<Rightarrow> string \<Rightarrow> unit act" where
  "failAssignedWorkflowJob now view = completeAssignedWorkflowJob now view Failure"

text \<open>\<open>since\<close> is when the condition \<^verbatim>\<open>Assigned\<close> became true.\<close>

definition failExpiredPreStart :: "int \<Rightarrow> int \<Rightarrow> CompleteView \<Rightarrow> string \<Rightarrow> bool act" where
  "failExpiredPreStart now since view message =
     holding (\<lambda>job.
       if find_condition (job_conditions job) ''Assigned'' = None \<or> now - since < jobStartTimeout then ret False
       else and_do (failAssignedWorkflowJob now view ''JobStartFailed'' (''WorkflowJob did not start within 5m0s: '' @ message)) (\<lambda>_. ret True))"

definition getNativeJob :: "api_error + BatchJob \<Rightarrow> api_error + BatchJob \<Rightarrow> api_error + BatchJob" where
  "getNativeJob cached direct = (case cached of Inl (NotFound _) \<Rightarrow> direct | r \<Rightarrow> r)"

definition not_controlled :: api_error where
  "not_controlled = Failed ''native Job is not controlled by WorkflowJob''"

record CancelView =
  cancel_cached :: "api_error + BatchJob"
  cancel_live :: "api_error + BatchJob"
  cancel_deleted :: "api_error option"
  cancel_complete :: CompleteView
  cancel_secret :: SecretView

definition cancelWorkflowJob :: "int \<Rightarrow> CancelView \<Rightarrow> string \<times> string \<Rightarrow> unit act" where
  "cancelWorkflowJob now view c =
     holding (\<lambda>job.
       and_do (case getNativeJob (cancel_cached view) (cancel_live view) of
                 Inl (NotFound _) \<Rightarrow> ret ()
               | Inl e \<Rightarrow> stop e
               | Inr native \<Rightarrow>
                   if nj_owner native \<noteq> Some (job_uid job) then stop not_controlled
                   else unless_gone (send DeleteNative (cancel_deleted view)))
         (\<lambda>_. and_do (attempt (completeAssignedWorkflowJob now (cancel_complete view) Cancelled (fst c) (snd c))) (\<lambda>r.
            case r of Inl (Api (NotFound _)) \<Rightarrow> cleanupAuthSecret (cancel_secret view) | Inl e \<Rightarrow> give_up e | Inr _ \<Rightarrow> ret ())))"

section \<open>Looking at the native Job\<close>

record NativeView =
  native_cached :: "api_error + BatchJob"
  native_live :: "api_error + BatchJob"
  pods_listed :: "api_error + WorkflowPod list"
  deadline_patched :: "api_error option"
  status_updated :: "api_error option"
  native_secret :: SecretView

definition pod_needed :: "WorkflowJob \<Rightarrow> bool \<Rightarrow> bool" where
  "pod_needed job terminal \<longleftrightarrow> terminal \<or> job_start job = None
     \<or> (case find_condition (job_conditions job) ''Scheduled'' of None \<Rightarrow> True | Some c \<Rightarrow> Status c \<noteq> ConditionTrue)"

definition runner_status_of :: "WorkflowPod option \<Rightarrow> ContainerStatus option" where
  "runner_status_of pod = (case pod of None \<Rightarrow> None | Some p \<Rightarrow> map_of (containers p) ''runner'')"

definition runner_start_of :: "WorkflowJob \<Rightarrow> WorkflowPod option \<Rightarrow> int option" where
  "runner_start_of job pod =
     (case runnerContainerStartTime (runner_status_of pod) of None \<Rightarrow> job_start job | Some t \<Rightarrow> Some t)"

definition execution_result :: "(string \<Rightarrow> string + RunnerResult) \<Rightarrow> BatchJob \<Rightarrow> WorkflowPod option \<Rightarrow> RunnerResult option \<times> bool" where
  "execution_result unmarshal native pod =
     (if \<not> jobTerminal native then (None, False)
      else if runnerResultExpected (result_version_annotation native) then decodeRunnerResult unmarshal native (runner_status_of pod)
      else (Some \<lparr>res_version = ResultVersion, Conclusion = [], res_outputs = []\<rparr>, False))"

definition updateWorkflowJobStatus :: "int \<Rightarrow> api_error option \<Rightarrow> BatchJob \<Rightarrow> WorkflowPod option \<Rightarrow> int option \<Rightarrow>
    RunnerResult option \<times> bool \<Rightarrow> unit act" where
  "updateWorkflowJobStatus now ans native pod start = (\<lambda>(res, invalid).
     put_status (\<lambda>job. status_of_native now job native pod start res invalid) ans)"

definition observe_controlled :: "(string \<Rightarrow> string + RunnerResult) \<Rightarrow> int \<Rightarrow> int \<Rightarrow> NativeView \<Rightarrow> BatchJob \<Rightarrow> unit act" where
  "observe_controlled unmarshal timeout now view native =
     holding (\<lambda>job.
       let terminal = jobTerminal native in
       and_do (if pod_needed job terminal then answer (map_sum id (owned_pod native) (pods_listed view)) else ret None) (\<lambda>pod.
         let start = runner_start_of job pod in
         and_do (if terminal then ret native
                 else case reconcileNativeJobDeadline timeout native start of
                        None \<Rightarrow> ret native
                      | Some native' \<Rightarrow> and_do (send (PatchDeadline native') (deadline_patched view)) (\<lambda>_. ret native')) (\<lambda>native.
           and_do (updateWorkflowJobStatus now (status_updated view) native pod start (execution_result unmarshal native pod)) (\<lambda>_.
             if terminal then cleanupAuthSecret (native_secret view) else ret ()))))"

text \<open>Whether the native Job was found, whether it has ended, and the error.\<close>

definition observeNativeJob :: "(string \<Rightarrow> string + RunnerResult) \<Rightarrow> int \<Rightarrow> int \<Rightarrow> NativeView \<Rightarrow> (bool \<times> bool \<times> failure option) act" where
  "observeNativeJob unmarshal timeout now view =
     holding (\<lambda>job.
       case getNativeJob (native_cached view) (native_live view) of
         Inl (NotFound _) \<Rightarrow> ret (False, False, None)
       | Inl e \<Rightarrow> ret (False, False, Some (Api e))
       | Inr native \<Rightarrow>
           if nj_owner native \<noteq> Some (job_uid job) then ret (False, False, Some (Api not_controlled))
           else and_do (attempt (observe_controlled unmarshal timeout now view native)) (\<lambda>r.
                  ret (True, jobTerminal native, case r of Inl e \<Rightarrow> Some e | Inr _ \<Rightarrow> None)))"

section \<open>The values of a Project\<close>

definition MaxSecretCount :: nat where "MaxSecretCount = 100"
definition MaxVariableCount :: nat where "MaxVariableCount = 500"
definition MaxValueBytes :: nat where "MaxValueBytes = 48 * 1024"

definition value_name_start :: "char \<Rightarrow> bool" where
  "value_name_start c \<longleftrightarrow> ascii_upper c \<or> c = CHR ''_''"

definition ValidateName :: "string \<Rightarrow> bool" where
  "ValidateName name \<longleftrightarrow>
     \<not> (length name > 255
        \<or> \<not> (name \<noteq> [] \<and> value_name_start (hd name) \<and> list_all (\<lambda>c. value_name_start c \<or> ascii_digit c) (tl name))
        \<or> has_prefix name ''GITHUB_'')"

definition check_secret :: "string \<Rightarrow> string \<times> string \<Rightarrow> api_error option" where
  "check_secret secret = (\<lambda>(name, val).
     if \<not> ValidateName name then Some (Failed (secret @ '': key '' @ name))
     else if length val > MaxValueBytes then Some (Failed (secret @ '': key '' @ name @ '' exceeds 49152 bytes''))
     else if \<not> utf8_valid val then Some (Failed (secret @ '': key '' @ name @ '' must contain valid UTF-8''))
     else None)"

definition validateProjectSecretSource :: "(string \<Rightarrow> api_error + (string \<times> string) list) \<Rightarrow> string \<Rightarrow> api_error option" where
  "validateProjectSecretSource secrets name =
     (case secrets name of
        Inl e \<Rightarrow> Some (wrap (''get Secret '' @ name @ '': '') e)
      | Inr data \<Rightarrow>
          if length data > MaxSecretCount then Some (Failed (name @ '' contains more than 100 values''))
          else first_err (check_secret name) (sort_key fst data))"

definition validateProjectSecretValues :: "(string \<Rightarrow> api_error + (string \<times> string) list) \<Rightarrow> string list \<Rightarrow> api_error option" where
  "validateProjectSecretValues secrets sources = first_err (validateProjectSecretSource secrets) sources"

definition check_variable :: "string \<Rightarrow> string \<times> string \<Rightarrow> api_error option" where
  "check_variable config = (\<lambda>(name, val).
     if \<not> ValidateName name then Some (Failed (config @ '': key '' @ name))
     else if length val > MaxValueBytes then Some (Failed (config @ '': key '' @ name @ '' exceeds 49152 bytes''))
     else None)"

text \<open>The data of a ConfigMap, and whether it has binary data.\<close>

definition validateProjectVariableSource :: "(string \<Rightarrow> api_error + (string \<times> string) list \<times> bool) \<Rightarrow> string \<Rightarrow> api_error option" where
  "validateProjectVariableSource configs name =
     (case configs name of
        Inl e \<Rightarrow> Some (wrap (''get ConfigMap '' @ name @ '': '') e)
      | Inr (data, binary) \<Rightarrow>
          if length data > MaxVariableCount then Some (Failed (name @ '' contains more than 500 values''))
          else if binary then Some (Failed (name @ '' must not contain binary data''))
          else first_err (check_variable name) (sort_key fst data))"

definition validateProjectVariableValues :: "(string \<Rightarrow> api_error + (string \<times> string) list \<times> bool) \<Rightarrow> string list \<Rightarrow> api_error option" where
  "validateProjectVariableValues configs sources = first_err (validateProjectVariableSource configs) sources"

definition secretValue :: "api_error + (string \<times> string) list \<Rightarrow> string \<Rightarrow> api_error + string" where
  "secretValue got key =
     (case got of
        Inl e \<Rightarrow> Inl (wrap ''get Secret: '' e)
      | Inr data \<Rightarrow>
          (case map_of data key of
             None \<Rightarrow> Inl (Failed (''Secret does not contain non-empty key '' @ key))
           | Some v \<Rightarrow> if v = [] then Inl (Failed (''Secret does not contain non-empty key '' @ key)) else Inr v))"

text \<open>The secret of the snapshot of the event: whether the run owns it, whether it is immutable, and its document.\<close>

record Snapshot =
  snapshot_owned :: bool
  snapshot_immutable :: bool
  snapshot_data :: "string option"

definition maxSnapshotBytes :: nat where "maxSnapshotBytes = 900000"

definition decodeSnapshot :: "(string \<Rightarrow> bool) \<Rightarrow> string \<Rightarrow> bool" where
  "decodeSnapshot is_object data \<longleftrightarrow> length data \<le> maxSnapshotBytes \<and> is_object data"

definition validateEventSnapshot :: "(string \<Rightarrow> bool) \<Rightarrow> WorkflowRun \<Rightarrow> (string \<Rightarrow> api_error + Snapshot) \<Rightarrow> unit act" where
  "validateEventSnapshot is_object run snapshots =
     (case map_of (run_annotations run) ''actions.kelos.dev/github-event-snapshot'' of
        None \<Rightarrow> ret ()
      | Some name \<Rightarrow>
          if name = [] then ret ()
          else case snapshots name of
                 Inl e \<Rightarrow> stop (wrap ''get GitHub event snapshot Secret: '' e)
               | Inr s \<Rightarrow>
                   (case snapshot_data s of
                      Some data \<Rightarrow>
                        if \<not> snapshot_owned s \<or> \<not> snapshot_immutable s \<or> \<not> decodeSnapshot is_object data
                        then stop (Failed ''GitHub event snapshot Secret is invalid'') else ret ()
                    | None \<Rightarrow> stop (Failed ''GitHub event snapshot Secret is invalid'')))"

section \<open>Cancellation\<close>

text \<open>The WorkflowJob and the WorkflowRun as the API server has them: the UID, and whether the object is being deleted.\<close>

record RequestedView =
  current_job :: "api_error + string \<times> bool \<times> WorkflowJob"
  current_run :: "api_error + string \<times> bool"
  cancel_view :: CancelView

definition deletion_requested :: "string \<times> string" where
  "deletion_requested = (''CancellationRequested'', ''WorkflowJob or WorkflowRun deletion was requested before execution started'')"

definition workflowJobCancellationRequested :: "string \<Rightarrow> string \<Rightarrow> RequestedView \<Rightarrow> api_error + (string \<times> string) option" where
  "workflowJobCancellationRequested uid r_uid view =
     (case current_job view of
        Inl (NotFound _) \<Rightarrow> Inr (Some deletion_requested)
      | Inl err \<Rightarrow> Inl err
      | Inr (u, deleting, job) \<Rightarrow>
          if u \<noteq> uid then Inl (Failed ''WorkflowJob was recreated before execution started'')
          else if deleting then Inr (Some deletion_requested)
          else case workflowJobCancellationCondition job of
                 Some c \<Rightarrow> Inr (Some c)
               | None \<Rightarrow>
                   (case current_run view of
                      Inl (NotFound _) \<Rightarrow> Inr (Some deletion_requested)
                    | Inl err \<Rightarrow> Inl err
                    | Inr (ru, run_deleting) \<Rightarrow>
                        if ru \<noteq> r_uid then Inl (Failed ''WorkflowRun was recreated before execution started'')
                        else if run_deleting then Inr (Some deletion_requested)
                        else Inr None))"

section \<open>Creating the native Job\<close>

text \<open>An error of the creation: what it is for \<^verbatim>\<open>apierrors\<close>, its message and the fields of its causes.\<close>

record CreateError =
  ce_error :: api_error
  bad_request :: bool
  ce_invalid :: bool
  ce_message :: string
  ce_fields :: "string list"

definition podLevelResourcesValidationReason :: "CreateError \<Rightarrow> string" where
  "podLevelResourcesValidationReason e =
     (if \<not> bad_request e \<and> \<not> ce_invalid e then []
      else if \<not> (bad_request e \<and> str_contains (ce_message e) ''spec.template.spec.resources''
          \<or> list_ex (\<lambda>f. has_prefix f ''spec.template.spec.resources'') (ce_fields e)) then []
      else if bad_request e then ''PodLevelResourcesUnsupported''
      else ''PodLevelResourcesInvalid'')"

text \<open>What the API server answers to the trial and to the creation, and the resources the trial returned.\<close>

record CreateView =
  native_tried :: "CreateError option"
  tried_resources :: "Resources option"
  native_created :: "api_error option"

definition createNativeJob :: "CreateView \<Rightarrow> BuiltJob \<Rightarrow> unit act" where
  "createNativeJob view built =
     (let create = send (CreateNative built) (map_option (wrap ''create native Job: '') (native_created view))
      in if PodResources (Template built) = None then create
         else and_do (attempt (send (TryNative built) (map_option ce_error (native_tried view)))) (\<lambda>_.
           case native_tried view of
             Some e \<Rightarrow>
               let err = wrap ''validate native Job with Pod-level resources: '' (ce_error e)
               in give_up (if podLevelResourcesValidationReason e = [] then Api err
                           else Misconfigured (podLevelResourcesValidationReason e) (api_text err))
           | None \<Rightarrow>
               if \<not> podResourceRequirementsPreserved (PodResources (Template built)) (tried_resources view) then
                 give_up (Misconfigured ''PodLevelResourcesUnsupported'' ''validate native Job with Pod-level resources: API server dropped spec.template.spec.resources'')
               else create))"

section \<open>Execution\<close>

text \<open>The source of the run: \<^verbatim>\<open>run.Spec.Source.GitHub\<close>. The references of a pull request are its head and base.\<close>

record JobSource =
  src_owner :: string
  src_name :: string
  src_id :: int
  src_event :: string
  src_ref :: string
  src_refs :: "string \<times> string"
  src_pull_request :: "(string \<times> string) option"

definition githubSourcePullRequestRefs :: "JobSource \<Rightarrow> string \<times> string" where
  "githubSourcePullRequestRefs source =
     (case src_pull_request source of
        Some refs \<Rightarrow> if src_event source = ''pull_request_target'' then refs else src_refs source
      | None \<Rightarrow> src_refs source)"

text \<open>The claims of the token for the services.\<close>

record RuntimeClaims =
  cl_project_uid :: string
  cl_repository :: int
  cl_root_run :: string
  cl_run :: string
  cl_attempt :: int
  cl_job :: string
  cl_cache :: "Access option"

datatype token_error = ApiStatus int string | TokenError api_error

text \<open>What the reconciliation has: its configuration, the decoders, the Runner and its Project, and what was planned for the job.\<close>

record 'n ExecEnv =
  conf :: RunnerConfig
  child_name :: "string \<Rightarrow> string \<Rightarrow> string"
  decode_result :: "string \<Rightarrow> string + RunnerResult"
  decode_plan :: "string \<Rightarrow> string + 'n Plan"
  decode_needs :: "string \<Rightarrow> string + needsContext"
  event_object :: "string \<Rightarrow> bool"
  url_parts :: "string \<Rightarrow> (string \<times> string) option"
  the_runner :: Runner
  execution :: RunnerExecutionSpec
  project_name :: string
  the_project :: ProjectValues
  key_name :: string
  planned :: JobPlanned

text \<open>The answers of the calls of one execution, in the order of the code.\<close>

record ExecView =
  exec_now :: int
  got_run :: "api_error + WorkflowRun \<times> JobSource"
  controlled_by_run :: bool
  first_look :: NativeView
  first_request :: RequestedView
  fail_view :: CompleteView
  active_listed :: "api_error + WorkflowPod list"
  got_plan :: "api_error + bool \<times> string"
  got_needs :: "api_error + bool \<times> bool \<times> string"
  snapshots :: "string \<Rightarrow> api_error + Snapshot"
  secrets_of :: "string \<Rightarrow> api_error + (string \<times> string) list"
  configs_of :: "string \<Rightarrow> api_error + (string \<times> string) list \<times> bool"
  got_key :: "api_error + (string \<times> string) list"
  got_job_token :: "(string \<times> string) list \<Rightarrow> token_error + string \<times> int option"
  got_action_token :: "bool \<Rightarrow> api_error + string \<times> int option"
  token_revoked :: "string \<Rightarrow> api_error option"
  second_request :: RequestedView
  got_repository :: "api_error + int \<times> string"
  codec :: "(int \<Rightarrow> RuntimeClaims \<Rightarrow> api_error + string) option"
  archive_patched :: "api_error option"
  secret_stored :: StoreView
  job_built :: "api_error option"
  late_secret :: SecretView
  third_request :: RequestedView
  creation :: CreateView
  second_look :: NativeView
  created_updated :: "api_error option"

definition timeout_of :: "'n ExecEnv \<Rightarrow> int" where
  "timeout_of env = effectiveJobTimeout (MaxJobTimeout (conf env)) (jp_timeout_seconds (planned env))"

definition fail_job :: "ExecView \<Rightarrow> string \<Rightarrow> string \<Rightarrow> bool act" where
  "fail_job view reason message = and_do (failAssignedWorkflowJob (exec_now view) (fail_view view) reason message) (\<lambda>_. ret True)"

definition revoke_installations :: "ExecView \<Rightarrow> string list \<Rightarrow> unit act" where
  "revoke_installations view tokens = and_do (attempt (revoke_all (token_revoked view) tokens)) (\<lambda>_. ret ())"

definition stop_revoking :: "ExecView \<Rightarrow> string list \<Rightarrow> failure \<Rightarrow> 'a act" where
  "stop_revoking view tokens e = and_do (revoke_installations view tokens) (\<lambda>_. give_up e)"

text \<open>The question whether the job is to be cancelled, before the tokens are in the secret.\<close>

definition unless_cancelled :: "ExecView \<Rightarrow> RequestedView \<Rightarrow> WorkflowRun \<Rightarrow> string list \<Rightarrow> bool act \<Rightarrow> bool act" where
  "unless_cancelled view request run tokens k =
     holding (\<lambda>job.
       case workflowJobCancellationRequested (job_uid job) (run_uid run) request of
         Inl e \<Rightarrow> stop_revoking view tokens (Api e)
       | Inr (Some c) \<Rightarrow>
           and_do (revoke_installations view tokens) (\<lambda>_. and_do (cancelWorkflowJob (exec_now view) (cancel_view request) c) (\<lambda>_. ret True))
       | Inr None \<Rightarrow> k)"

definition with_run :: "'n ExecEnv \<Rightarrow> ExecView \<Rightarrow> (WorkflowRun \<Rightarrow> JobSource \<Rightarrow> bool act) \<Rightarrow> bool act" where
  "with_run env view k =
     and_do (answer (got_run view)) (\<lambda>(run, source).
       if ProjectRef (Spec run) \<noteq> project_name env then stop (Failed ''WorkflowJob belongs to another Project'')
       else if \<not> controlled_by_run view then stop (Failed ''WorkflowJob is not controlled by WorkflowRun'')
       else k run source)"

definition unless_launched :: "'n ExecEnv \<Rightarrow> ExecView \<Rightarrow> WorkflowRun \<Rightarrow> bool act \<Rightarrow> bool act" where
  "unless_launched env view run k =
     and_do (observeNativeJob (decode_result env) (timeout_of env) (exec_now view) (first_look view)) (\<lambda>(found, terminal, err).
       case err of
         Some e \<Rightarrow> give_up e
       | None \<Rightarrow>
           if terminal then ret True
           else unless_cancelled view (first_request view) run []
             (if found then ret False
              else if jp_project_label (planned env) \<noteq> pv_uid (the_project env) then
                fail_job view ''ProjectRecreated'' (''Project '' @ CHR 0x22 # project_name env @ CHR 0x22 # '' was recreated before execution started'')
              else holding (\<lambda>job.
                if workflowJobLaunched job then
                  and_do (answer (active_listed view)) (\<lambda>ps.
                    if active_pods ps then ret False
                    else fail_job view ''ExecutionStateLost'' ''The native Job disappeared after creation'')
                else k)))"

definition with_plan :: "'n ExecEnv \<Rightarrow> ExecView \<Rightarrow> ('n Plan \<Rightarrow> bool act) \<Rightarrow> bool act" where
  "with_plan env view k =
     (case got_plan view of
        Inl (NotFound _) \<Rightarrow> fail_job view ''PlanUnavailable'' ''Job plan ConfigMap is missing''
      | Inl e \<Rightarrow> stop (wrap ''get job plan ConfigMap: '' e)
      | Inr (controlled, data) \<Rightarrow>
          if \<not> controlled then stop (Failed ''job plan ConfigMap is not controlled by WorkflowJob'')
          else holding (\<lambda>job.
            let decode = (case DecodePlan (decode_plan env) data of
                            Inl _ \<Rightarrow> fail_job view ''PlanUnavailable'' ''Job plan ConfigMap is invalid''
                          | Inr plan \<Rightarrow> k plan)
            in if Needs job = [] then decode
               else case got_needs view of
                      Inl (NotFound _) \<Rightarrow> fail_job view ''PlanUnavailable'' ''Needs context ConfigMap is missing''
                    | Inl e \<Rightarrow> stop (wrap ''get needs context ConfigMap: '' e)
                    | Inr (needs_controlled, immutable, needs_data) \<Rightarrow>
                        if \<not> needs_controlled then stop (Failed ''needs context ConfigMap is not controlled by WorkflowJob'')
                        else if \<not> immutable then fail_job view ''PlanUnavailable'' ''Needs context ConfigMap is not immutable''
                        else case DecodeNeedsContext (decode_needs env) needs_data of
                               Inl _ \<Rightarrow> fail_job view ''PlanUnavailable'' ''Needs context ConfigMap is invalid''
                             | Inr _ \<Rightarrow> decode))"

definition with_values :: "'n ExecEnv \<Rightarrow> ExecView \<Rightarrow> WorkflowRun \<Rightarrow> JobSource \<Rightarrow> bool act \<Rightarrow> bool act" where
  "with_values env view run source k =
     and_do (validateEventSnapshot (event_object env) run (snapshots view)) (\<lambda>_.
       let (secrets, variables) = workflowRunValueSources (the_project env) (Some (src_owner source, src_name source))
       in case (if workflowRunUsesProjectSecrets run then validateProjectSecretValues (secrets_of view) secrets else None) of
            Some e \<Rightarrow> stop e
          | None \<Rightarrow>
              (case validateProjectVariableValues (configs_of view) variables of
                 Some e \<Rightarrow> stop e
               | None \<Rightarrow> (case secretValue (got_key view) (key_name env) of Inl e \<Rightarrow> stop e | Inr _ \<Rightarrow> k)))"

definition job_permissions :: "'n Plan \<Rightarrow> (string \<times> string) list" where
  "job_permissions plan = (case GitHubTokenPermissions plan of None \<Rightarrow> [(''contents'', ''read'')] | Some ps \<Rightarrow> ps)"

definition handleJobTokenCreationError :: "ExecView \<Rightarrow> token_error \<Rightarrow> bool act" where
  "handleJobTokenCreationError view err =
     (case err of
        ApiStatus status m \<Rightarrow>
          if status \<noteq> 422 then stop (Failed (''create GitHub token: '' @ m))
          else fail_job view ''GitHubTokenPermissionsRejected'' (''Creating the GitHub token failed: '' @ m)
      | TokenError e \<Rightarrow> stop (wrap ''create GitHub token: '' e))"

text \<open>The token for actions is for the repository only when the run is of a fork that gets no secrets, and for all repositories otherwise.\<close>

definition action_token_scoped :: "WorkflowRun \<Rightarrow> bool" where
  "action_token_scoped run = (case fork_pull_request (Spec run) of None \<Rightarrow> False | Some fork \<Rightarrow> \<not> SendSecrets fork)"

text \<open>What the tokens are used for, unless they expire too soon.\<close>

definition start_tokens :: "ExecView \<Rightarrow> (string \<Rightarrow> string option \<Rightarrow> int \<Rightarrow> bool act) \<Rightarrow> string \<Rightarrow> string option \<Rightarrow> int option list \<Rightarrow> bool act" where
  "start_tokens view k job_token action expirations =
     (let deadline = credentialBoundedJobStartDeadline (exec_now view) expirations
      in if deadline < second then
           and_do (revoke_installations view (job_token # (case action of None \<Rightarrow> [] | Some t \<Rightarrow> [t]))) (\<lambda>_. fail_job view ''JobStartFailed''
             ''GitHub installation credentials expire too soon for the runner container to start'')
         else k job_token action deadline)"

definition with_action_token :: "'n ExecEnv \<Rightarrow> ExecView \<Rightarrow> WorkflowRun \<Rightarrow> 'n Plan \<Rightarrow> (string \<Rightarrow> string option \<Rightarrow> int \<Rightarrow> bool act) \<Rightarrow>
    string \<Rightarrow> int option \<Rightarrow> bool act" where
  "with_action_token env view run plan k job_token job_expires =
     (if \<not> ActionTokenRequired (url_parts env) plan then start_tokens view k job_token None [job_expires]
      else case got_action_token view (action_token_scoped run) of
             Inl e \<Rightarrow> stop_revoking view [job_token] (Api (wrap ''create action download token: '' e))
           | Inr (action_token, action_expires) \<Rightarrow>
               and_do (send (IssueToken action_token) None)
                 (\<lambda>_. start_tokens view k job_token (Some action_token) [job_expires, action_expires]))"

definition with_tokens :: "'n ExecEnv \<Rightarrow> ExecView \<Rightarrow> WorkflowRun \<Rightarrow> 'n Plan \<Rightarrow> (string \<Rightarrow> string option \<Rightarrow> int \<Rightarrow> bool act) \<Rightarrow> bool act" where
  "with_tokens env view run plan k =
     (case got_job_token view (job_permissions plan) of
        Inl e \<Rightarrow> handleJobTokenCreationError view e
      | Inr (job_token, job_expires) \<Rightarrow>
          and_do (send (IssueToken job_token) None) (\<lambda>_. with_action_token env view run plan k job_token job_expires))"

definition cache_access :: "ExecView \<Rightarrow> JobSource \<Rightarrow> 'n Plan \<Rightarrow> api_error + Access" where
  "cache_access view source plan =
     (case got_repository view of
        Inl e \<Rightarrow> Inl (wrap ''resolve cache scopes: '' e)
      | Inr (i, default_branch) \<Rightarrow>
          if i \<noteq> src_id source \<or> default_branch = [] then Inl (Failed ''resolve cache scopes: repository identity or default branch is invalid'')
          else Inr (ResolveAccess (src_event source) (src_ref source) (snd (githubSourcePullRequestRefs source)) default_branch (CacheMode plan)))"

definition claims_of :: "'n ExecEnv \<Rightarrow> WorkflowRun \<Rightarrow> JobSource \<Rightarrow> Access option \<Rightarrow> WorkflowJob \<Rightarrow> RuntimeClaims" where
  "claims_of env run source access job =
     \<lparr>cl_project_uid = pv_uid (the_project env), cl_repository = src_id source,
      cl_root_run = (case map_of (run_labels run) ''actions.kelos.dev/workflow-run-root-uid'' of None \<Rightarrow> run_uid run | Some r \<Rightarrow> if r = [] then run_uid run else r),
      cl_run = run_uid run, cl_attempt = (case Rerun (Spec run) of None \<Rightarrow> 1 | Some rr \<Rightarrow> Attempt rr), cl_job = job_uid job, cl_cache = access\<rparr>"

definition with_services :: "'n ExecEnv \<Rightarrow> ExecView \<Rightarrow> WorkflowRun \<Rightarrow> JobSource \<Rightarrow> 'n Plan \<Rightarrow> int \<Rightarrow> string list \<Rightarrow>
    (string \<Rightarrow> Access option \<Rightarrow> bool act) \<Rightarrow> bool act" where
  "with_services env view run source plan deadline tokens k =
     (if ArtifactResultsURL (conf env) = [] then k [] None
      else case codec view of
             None \<Rightarrow> stop_revoking view tokens (Api (Failed ''artifact token codec is not configured''))
           | Some new_token \<Rightarrow>
               (case (if CacheEnabled (conf env) then map_sum id Some (cache_access view source plan) else Inr None) of
                  Inl e \<Rightarrow> stop_revoking view tokens (Api e)
                | Inr access \<Rightarrow>
                    holding (\<lambda>job.
                      case new_token (artifactTokenLifetime (MaxJobTimeout (conf env)) (jp_timeout_seconds (planned env)) deadline)
                             (claims_of env run source access job) of
                        Inl e \<Rightarrow> stop_revoking view tokens (Api (wrap ''create artifact token: '' e))
                      | Inr token \<Rightarrow> k token access)))"

definition with_archive :: "'n ExecEnv \<Rightarrow> ExecView \<Rightarrow> string list \<Rightarrow> bool act \<Rightarrow> bool act" where
  "with_archive env view tokens k =
     (let archive = ArtifactResultsURL (conf env) \<noteq> [];
          annotation = (case jp_archive (planned env) of None \<Rightarrow> [] | Some a \<Rightarrow> a)
      in if annotation = (if archive then ''true'' else []) then k
         else and_do (attempt (send (PatchArchive archive) (archive_patched view))) (\<lambda>r.
           case r of
             Inl e \<Rightarrow> stop_revoking view tokens (Api (Failed (''configure log archive: '' @ error_text e)))
           | Inr _ \<Rightarrow> k))"

definition with_cache_mode :: "Access option \<Rightarrow> BuiltJob \<Rightarrow> BuiltJob" where
  "with_cache_mode access built =
     (case access of
        None \<Rightarrow> built
      | Some a \<Rightarrow> built\<lparr>Template := first_container (set_env [env_literal ''ACTIONS_CACHE_MODE'' (Mode a)]) (Template built)\<rparr>)"

definition start_native :: "'n ExecEnv \<Rightarrow> ExecView \<Rightarrow> BuiltJob \<Rightarrow> bool act" where
  "start_native env view built =
     and_do (attempt (createNativeJob (creation view) built)) (\<lambda>r.
       case r of
         Inl (Api (AlreadyExists _)) \<Rightarrow>
           and_do (observeNativeJob (decode_result env) (timeout_of env) (exec_now view) (second_look view)) (\<lambda>(found, terminal, err).
             case err of Some e \<Rightarrow> give_up e | None \<Rightarrow> ret terminal)
       | Inl e \<Rightarrow> failing_after e (cleanupAuthSecret (late_secret view))
       | Inr _ \<Rightarrow>
           and_do (updateWorkflowJobStatus (exec_now view) (created_updated view) (built_job built) None None (None, False)) (\<lambda>_. ret False))"

definition launch :: "'n ExecEnv \<Rightarrow> ExecView \<Rightarrow> WorkflowRun \<Rightarrow> JobSource \<Rightarrow> int \<Rightarrow> Access option \<Rightarrow> bool act" where
  "launch env view run source deadline access =
     holding (\<lambda>job.
       let cleanup = cleanupAuthSecret (late_secret view) in
       case job_built view of
         Some e \<Rightarrow> failing_after (Api e) cleanup
       | None \<Rightarrow>
           (case workflowJobCancellationRequested (job_uid job) (run_uid run) (third_request view) of
              Inl e \<Rightarrow> failing_after (Api e) cleanup
            | Inr (Some c) \<Rightarrow> and_do (cancelWorkflowJob (exec_now view) (cancel_view (third_request view)) c) (\<lambda>_. ret True)
            | Inr None \<Rightarrow>
                start_native env view (with_cache_mode access
                  (buildJob (conf env) (child_name env) job (planned env) run (the_project env) (Some (src_owner source, src_name source))
                    (the_runner env) (execution env) deadline))))"

definition store_and_launch :: "'n ExecEnv \<Rightarrow> ExecView \<Rightarrow> WorkflowRun \<Rightarrow> JobSource \<Rightarrow> string \<Rightarrow> string option \<Rightarrow> int \<Rightarrow> string \<Rightarrow>
    Access option \<Rightarrow> bool act" where
  "store_and_launch env view run source job_token action deadline artifact_token access =
     and_do (attempt (ensureAuthSecret (secret_stored view) job_token (case action of None \<Rightarrow> [] | Some t \<Rightarrow> t) artifact_token)) (\<lambda>r.
       case r of
         Inl e \<Rightarrow> stop_revoking view (job_token # (case action of None \<Rightarrow> [] | Some t \<Rightarrow> [t])) e
       | Inr _ \<Rightarrow> launch env view run source deadline access)"

text \<open>With the tokens: the second question for a cancellation, the token for the services, the annotation, the secret and the native Job.\<close>

definition prepare :: "'n ExecEnv \<Rightarrow> ExecView \<Rightarrow> WorkflowRun \<Rightarrow> JobSource \<Rightarrow> 'n Plan \<Rightarrow> string \<Rightarrow> string option \<Rightarrow> int \<Rightarrow> bool act" where
  "prepare env view run source plan job_token action deadline =
     (let tokens = job_token # (case action of None \<Rightarrow> [] | Some t \<Rightarrow> [t])
      in unless_cancelled view (second_request view) run tokens
           (with_services env view run source plan deadline tokens (\<lambda>artifact_token access.
              with_archive env view tokens (store_and_launch env view run source job_token action deadline artifact_token access))))"

definition executeWorkflowJob :: "'n ExecEnv \<Rightarrow> ExecView \<Rightarrow> bool act" where
  "executeWorkflowJob env view =
     with_run env view (\<lambda>run source.
       unless_launched env view run
         (with_plan env view (\<lambda>plan.
            with_values env view run source
              (with_tokens env view run plan (prepare env view run source plan)))))"

end
