(* ===== verification/RunnerReconcile.thy ===== *)
theory RunnerReconcile
  imports JobExecution RunOutcome
begin

text \<open>
  One reconciliation of a Runner, \<^verbatim>\<open>Reconcile\<close> of \<^verbatim>\<open>src/internal/controller/runner_controller.go\<close>, composed of the actions on its job. The
  reconciliation holds the Runner and the WorkflowJob it is assigned. What the claim of a queued job came to
  is an answer here; its steps are those of the theory of claims.
\<close>

section \<open>The Runner\<close>

record Held =
  held_runner :: Runner
  held_job :: "WorkflowJob option"

definition on_job :: "'a act \<Rightarrow> (Held, 'a) action" where
  "on_job m = (\<lambda>h.
     case held_job h of
       None \<Rightarrow> ([], h, Inl (Api (Failed ''no WorkflowJob'')))
     | Some job \<Rightarrow> (case m job of (es, job', r) \<Rightarrow> (es, h\<lparr>held_job := Some job'\<rparr>, r)))"

definition updateRunnerStatus :: "api_error option \<Rightarrow> condition_status \<Rightarrow> string \<Rightarrow> string \<Rightarrow> string option \<Rightarrow> (Held, unit) action" where
  "updateRunnerStatus ans ready reason message ref = (\<lambda>h.
     let runner = runner_status (held_runner h) ready reason message ref; h' = h\<lparr>held_runner := runner\<rparr>
     in if runner = held_runner h then ([], h', Inr ()) else send (WriteRunner runner) ans h')"

definition release_runner :: "api_error option \<Rightarrow> (Held, unit) action" where
  "release_runner ans = updateRunnerStatus ans ConditionTrue ''Ready'' ''Runner is operational'' None"

section \<open>The assigned job\<close>

datatype claim_outcome = ClaimLost | ClaimFailed api_error | NothingClaimed | ClaimMade

record ReconcileView =
  rec_now :: int
  got_runner :: "api_error + Runner \<times> bool"
  finalizer_updated :: "api_error option"
  got_assigned :: "api_error + WorkflowJob"
  assigned_secret :: SecretView
  jobs_listed :: "api_error + WorkflowJob list"
  reference_written :: "api_error option"
  assigned_patched :: "api_error option"
  assigned_since :: int
  look :: NativeView
  expire_view :: CompleteView
  seen_cancel :: CancelView
  ready_current :: bool
  block_view :: CompleteView
  got_project :: "api_error + (condition_status \<times> string) option"
  claim_result :: claim_outcome
  exec_view :: ExecView
  runner_written :: "api_error option"

definition give_up_reference :: "ReconcileView \<Rightarrow> (Held, unit) action" where
  "give_up_reference v = release_runner (reference_written v)"

definition assignedWorkflowJob :: "ReconcileView \<Rightarrow> (Held, unit) action" where
  "assignedWorkflowJob v =
     holding (\<lambda>h.
       case WorkflowJobRef (held_runner h) of
         Some _ \<Rightarrow>
           (case got_assigned v of
              Inl (NotFound _) \<Rightarrow> give_up_reference v
            | Inl e \<Rightarrow> stop e
            | Inr job \<Rightarrow>
                if workflowJobTerminal job then
                  and_do (\<lambda>h. case cleanupAuthSecret (assigned_secret v) job of (es, _, r) \<Rightarrow> (es, h, r)) (\<lambda>_. give_up_reference v)
                else if RunnerRef job \<noteq> Some (runner_name (held_runner h)) then give_up_reference v
                else (\<lambda>h. ret () (h\<lparr>held_job := Some job\<rparr>)))
       | None \<Rightarrow>
           and_do (answer (jobs_listed v)) (\<lambda>js.
             case find (\<lambda>job. RunnerRef job = Some (runner_name (held_runner h)) \<and> \<not> workflowJobTerminal job) js of
               None \<Rightarrow> ret ()
             | Some job \<Rightarrow>
                 and_do (updateRunnerStatus (reference_written v) ConditionTrue ''Ready'' ''Runner is operational'' (Some (job_name job)))
                   (\<lambda>_ h. ret () (h\<lparr>held_job := Some job\<rparr>))))"

definition updateWorkflowJobAssigned :: "ReconcileView \<Rightarrow> unit act" where
  "updateWorkflowJobAssigned v = put_status setWorkflowJobAssigned (assigned_patched v)"

section \<open>Reconciliation\<close>

definition runnerExecutionConfigurationIssue :: "RunnerExecutionSpec \<Rightarrow> bool \<Rightarrow> Runner \<Rightarrow> (string \<times> string) option" where
  "runnerExecutionConfigurationIssue spec is_current runner =
     (if rc_image (ex_runner spec) = [] then
        Some (''ConfigurationInvalid'', ''Runner '' @ CHR 0x22 # runner_name runner @ CHR 0x22 # '' requires spec.execution.runner.image'')
      else case find_condition (runner_conditions runner) ''Ready'' of
             None \<Rightarrow> None
           | Some c \<Rightarrow>
               if Status c \<noteq> ConditionFalse \<or> \<not> is_current then None
               else if Reason c \<noteq> ''PodLevelResourcesInvalid'' \<and> Reason c \<noteq> ''PodLevelResourcesUnsupported'' then None
               else Some (Reason c, Message c))"

definition finish :: "(Held, unit) action \<Rightarrow> requeue \<Rightarrow> (Held, requeue) action" where
  "finish m r = and_do m (\<lambda>_. ret r)"

text \<open>The Runner is operational and has no job any more.\<close>

definition free_runner :: "ReconcileView \<Rightarrow> (Held, requeue) action" where
  "free_runner v = finish (release_runner (runner_written v)) Requeue"

definition blockRunnerForExecutionConfiguration :: "ReconcileView \<Rightarrow> string \<Rightarrow> string \<Rightarrow> (Held, unit) action" where
  "blockRunnerForExecutionConfiguration v reason message =
     holding (\<lambda>h.
       and_do (if held_job h = None then ret () else on_job (failAssignedWorkflowJob (rec_now v) (block_view v) reason message))
         (\<lambda>_. updateRunnerStatus (runner_written v) ConditionFalse reason message None))"

definition expire :: "ReconcileView \<Rightarrow> string \<Rightarrow> (Held, bool) action" where
  "expire v message = on_job (failExpiredPreStart (rec_now v) (assigned_since v) (expire_view v) message)"

definition cancel_assigned :: "ReconcileView \<Rightarrow> (Held, requeue) action \<Rightarrow> (Held, requeue) action" where
  "cancel_assigned v k =
     holding (\<lambda>h.
       case (case held_job h of None \<Rightarrow> None | Some job \<Rightarrow> workflowJobCancellationCondition job) of
         Some c \<Rightarrow> and_do (on_job (cancelWorkflowJob (rec_now v) (seen_cancel v) c)) (\<lambda>_. free_runner v)
       | None \<Rightarrow> k)"

definition look_at_job :: "'n ExecEnv \<Rightarrow> ReconcileView \<Rightarrow> (Held, requeue) action \<Rightarrow> (Held, requeue) action" where
  "look_at_job env v k =
     holding (\<lambda>h.
       if held_job h = None then k
       else and_do (on_job (updateWorkflowJobAssigned v)) (\<lambda>_.
         and_do (on_job (observeNativeJob (decode_result env) (timeout_of env) (rec_now v) (look v))) (\<lambda>(found, terminal, err).
           case err of
             Some e \<Rightarrow>
               if found then give_up e
               else and_do (expire v (error_text e)) (\<lambda>expired. if expired then free_runner v else give_up e)
           | None \<Rightarrow>
               if found then
                 (if terminal then free_runner v else cancel_assigned v (ret (RequeueAfter (5 * second))))
               else cancel_assigned v k)))"

text \<open>The Project is not there or not configured: the job waits for it, at most until its start is overdue.\<close>

definition without_project :: "ReconcileView \<Rightarrow> string \<Rightarrow> string \<Rightarrow> (Held, requeue) action" where
  "without_project v reason message =
     holding (\<lambda>h.
       and_do (if held_job h = None then ret False else expire v message) (\<lambda>expired.
         finish (updateRunnerStatus (runner_written v) ConditionFalse reason message
           (if expired then None else WorkflowJobRef (held_runner h))) (RequeueAfter (30 * second))))"

definition with_project :: "'n ExecEnv \<Rightarrow> ReconcileView \<Rightarrow> (Held, requeue) action \<Rightarrow> (Held, requeue) action" where
  "with_project env v k =
     (let quoted = CHR 0x22 # project_name env @ [CHR 0x22] in
      case got_project v of
        Inl e \<Rightarrow> without_project v ''ProjectUnavailable'' (''Get Project '' @ quoted @ '': '' @ api_text e)
      | Inr None \<Rightarrow> without_project v ''ProjectNotConfigured'' (''Project '' @ quoted @ '' is not configured'')
      | Inr (Some (status, message)) \<Rightarrow>
          if status = ConditionTrue then k
          else without_project v ''ProjectNotConfigured'' (if message = [] then ''Project '' @ quoted @ '' is not configured'' else message))"

definition claim_job :: "ReconcileView \<Rightarrow> (Held, requeue) action" where
  "claim_job v =
     (case claim_result v of
        ClaimLost \<Rightarrow> ret Requeue
      | ClaimFailed e \<Rightarrow> stop e
      | NothingClaimed \<Rightarrow> finish (release_runner (runner_written v)) (RequeueAfter (30 * second))
      | ClaimMade \<Rightarrow> ret Requeue)"

definition execute_job :: "'n ExecEnv \<Rightarrow> ReconcileView \<Rightarrow> (Held, requeue) action" where
  "execute_job env v =
     and_do (attempt (on_job (executeWorkflowJob env (exec_view v)))) (\<lambda>r.
       case r of
         Inl (Misconfigured reason message) \<Rightarrow>
           finish (blockRunnerForExecutionConfiguration v reason message) (RequeueAfter (30 * second))
       | Inl e \<Rightarrow> and_do (expire v (error_text e)) (\<lambda>expired. if expired then free_runner v else give_up e)
       | Inr terminal \<Rightarrow> if terminal then free_runner v else ret (RequeueAfter (5 * second)))"

definition reconcile_present :: "'n ExecEnv \<Rightarrow> ReconcileView \<Rightarrow> bool \<Rightarrow> (Held, requeue) action" where
  "reconcile_present env v finalizer =
     holding (\<lambda>h.
       let deleting = runner_deleting (held_runner h) in
       if \<not> deleting \<and> \<not> finalizer then finish (send (PutFinalizer True) (finalizer_updated v)) Requeue
       else if deleting \<and> \<not> finalizer then ret Done
       else and_do (assignedWorkflowJob v) (\<lambda>_. holding (\<lambda>h.
         if deleting \<and> held_job h = None then finish (send (PutFinalizer False) (finalizer_updated v)) Done
         else look_at_job env v (holding (\<lambda>h.
           case runnerExecutionConfigurationIssue (execution env) (ready_current v) (held_runner h) of
             Some (reason, message) \<Rightarrow> finish (blockRunnerForExecutionConfiguration v reason message) (RequeueAfter (30 * second))
           | None \<Rightarrow> with_project env v (if held_job h = None then claim_job v else execute_job env v))))))"

definition reconcileRunner :: "'n ExecEnv \<Rightarrow> ReconcileView \<Rightarrow> trace \<times> Held option \<times> (failure + requeue)" where
  "reconcileRunner env v =
     (case got_runner v of
        Inl (NotFound _) \<Rightarrow> ([], None, Inr Done)
      | Inl e \<Rightarrow> ([], None, Inl (Api e))
      | Inr (runner, finalizer) \<Rightarrow>
          (case reconcile_present env v finalizer \<lparr>held_runner = runner, held_job = None\<rparr> of
             (es, h, r) \<Rightarrow> (es, Some h, r)))"

end
