(* ===== verification/JobSafety.thy ===== *)
theory JobSafety
  imports RunnerReconcile
begin

section \<open>Actions\<close>

lemma and_do_eq_Inr:
  "and_do m k h = (es, h', Inr y) \<longleftrightarrow>
     (\<exists>es1 h1 x es2. m h = (es1, h1, Inr x) \<and> k x h1 = (es2, h', Inr y) \<and> es = es1 @ es2)"
  by (auto simp: and_do_def split: prod.splits sum.splits)

lemma ret_eq [simp]: "ret x h = (es, h', r) \<longleftrightarrow> es = [] \<and> h' = h \<and> r = Inr x"
  by (auto simp: ret_def)

lemma stop_eq [simp]: "stop e h = (es, h', r) \<longleftrightarrow> es = [] \<and> h' = h \<and> r = Inl (Api e)"
  by (auto simp: stop_def)

lemma give_up_eq [simp]: "give_up e h = (es, h', r) \<longleftrightarrow> es = [] \<and> h' = h \<and> r = Inl e"
  by (auto simp: give_up_def)

lemma answer_eq [simp]: "answer a h = (es, h', r) \<longleftrightarrow> es = [] \<and> h' = h \<and> r = map_sum Api id a"
  by (auto simp: answer_def)

lemma attempt_eq: "attempt m h = (es, h', r) \<longleftrightarrow> (\<exists>a. m h = (es, h', a) \<and> r = Inr a)"
  by (auto simp: attempt_def split: prod.splits)

lemma send_eq: "send req ans h = (es, h', r) \<longleftrightarrow> es = [(req, ans)] \<and> h' = h \<and> r = (case ans of None \<Rightarrow> Inr () | Some e \<Rightarrow> Inl (Api e))"
  by (auto simp: send_def)

lemma holding_eq [simp]: "holding f h = f h h"
  by (simp add: holding_def)

text \<open>An action that leaves the held object alone.\<close>

definition keeps :: "('s, 'a) action \<Rightarrow> bool" where
  "keeps m \<longleftrightarrow> (\<forall>h. fst (snd (m h)) = h)"

named_theorems keeps_intros

lemma keeps_ret [keeps_intros]: "keeps (ret x)" by (simp add: keeps_def ret_def)
lemma keeps_stop [keeps_intros]: "keeps (stop x)" by (simp add: keeps_def stop_def)
lemma keeps_give_up [keeps_intros]: "keeps (give_up x)" by (simp add: keeps_def give_up_def)
lemma keeps_answer [keeps_intros]: "keeps (answer x)" by (simp add: keeps_def answer_def)
lemma keeps_send [keeps_intros]: "keeps (send r a)" by (simp add: keeps_def send_def)
lemma keeps_revoke_all [keeps_intros]: "keeps (revoke_all f ts)" by (simp add: keeps_def revoke_all_def)

lemma keeps_and_do [keeps_intros]: "keeps m \<Longrightarrow> (\<And>x. keeps (k x)) \<Longrightarrow> keeps (and_do m k)"
  by (simp add: keeps_def and_do_def split: prod.splits sum.splits) (metis prod.sel)

lemma keeps_attempt [keeps_intros]: "keeps m \<Longrightarrow> keeps (attempt m)"
  unfolding keeps_def attempt_def by (auto split: prod.splits) (metis prod.sel)

lemma keeps_unless_gone [keeps_intros]: "keeps m \<Longrightarrow> keeps (unless_gone m)"
  unfolding unless_gone_def by (intro keeps_intros) (auto intro: keeps_intros split: sum.splits failure.splits api_error.splits)

lemma keeps_cleanup [keeps_intros]: "keeps (cleanupAuthSecret view)"
  unfolding cleanupAuthSecret_def
  by (auto split: sum.splits failure.splits api_error.splits prod.splits intro!: keeps_intros)

lemma keepsD: "keeps m \<Longrightarrow> m h = (es, h', r) \<Longrightarrow> h' = h"
  unfolding keeps_def by (metis prod.sel)

section \<open>What a look at the native Job does to the WorkflowJob\<close>

lemma put_status_eq_Inr: "put_status f ans job = (es, job', Inr u) \<Longrightarrow> f job = Some job' \<and> (job' = job \<or> (WriteJob job', None) \<in> set es)"
  by (auto simp: put_status_def send_def split: option.splits if_splits)

lemma setWorkflowJobAssigned_fields:
  "setWorkflowJobAssigned job = Some job' \<Longrightarrow> Result job' = Result job \<and> job_completion job' = job_completion job \<and> Outputs job' = Outputs job
     \<and> job_start job' = job_start job \<and> RunnerRef job' = RunnerRef job \<and> ContinueOnError job' = ContinueOnError job \<and> job_uid job' = job_uid job"
  by (auto simp: setWorkflowJobAssigned_def Let_def split: option.splits)

lemma setWorkflowJobPodScheduled_fields:
  "Result (setWorkflowJobPodScheduled job pod) = Result job" "job_completion (setWorkflowJobPodScheduled job pod) = job_completion job"
  "Outputs (setWorkflowJobPodScheduled job pod) = Outputs job" "job_start (setWorkflowJobPodScheduled job pod) = job_start job"
  by (auto simp: setWorkflowJobPodScheduled_def split: option.splits)

text \<open>The result of a native Job that has ended: the report of the runner goes first, then the deadline.\<close>

definition native_verdict :: "BatchJob \<Rightarrow> string \<Rightarrow> job_result" where
  "native_verdict native conclusion =
     (if conclusion = ''success'' then Success
      else if conclusion \<in> {''failure'', ''timed_out''} \<or> nativeJobTimedOut native then Failure
      else if conclusion = ''cancelled'' then Cancelled
      else if jobResult native = ConditionTrue then Success
      else Failure)"

lemma deadline_terminal: "nativeJobTimedOut native \<Longrightarrow> jobTerminal native"
proof -
  have "list_ex (\<lambda>c. jc_true c \<and> jc_type c = ''Failed'' \<and> jc_reason c = ''DeadlineExceeded'') cs \<Longrightarrow> jobResult_loop cs \<noteq> ConditionUnknown" for cs
    by (induction cs rule: jobResult_loop.induct) auto
  then show "nativeJobTimedOut native \<Longrightarrow> jobTerminal native" by (simp add: nativeJobTimedOut_def jobTerminal_def jobResult_def)
qed

lemma succeeded_fields [simp]:
  "Result (succeeded s r m job) = Result job" "job_completion (succeeded s r m job) = job_completion job" "Outputs (succeeded s r m job) = Outputs job"
  by (simp_all add: succeeded_def)

lemma ended_fields [simp]:
  "Result (ended result t job) = result" "job_completion (ended result t job) = Some t" "Outputs (ended result t job) = Outputs job"
  by (simp_all add: ended_def)

lemma with_outputs_fields [simp]:
  "Result (with_outputs res invalid job) = Result job" "job_completion (with_outputs res invalid job) = job_completion job"
  by (simp_all add: with_outputs_def split: option.splits)

definition known_conclusion :: "RunnerResult option \<Rightarrow> bool" where
  "known_conclusion res \<longleftrightarrow> (case res of None \<Rightarrow> True | Some r \<Rightarrow> Conclusion r \<in> {[], ''success'', ''failure'', ''cancelled'', ''timed_out''})"

lemma concluded_terminal:
  assumes "jobTerminal native"
  shows "Result (concluded now native start res invalid job) = native_verdict native (reported res invalid)"
    and "job_completion (concluded now native start res invalid job) = Some (completionTime now native)"
    and "known_conclusion res \<Longrightarrow> Outputs (concluded now native start res invalid job) = Outputs (with_outputs res invalid job)"
proof -
  consider (t) "jobResult native = ConditionTrue" | (f) "jobResult native = ConditionFalse"
    using assms by (cases "jobResult native") (auto simp: jobTerminal_def)
  note cs = this
  have ended: "jobResult native \<noteq> ConditionUnknown" using assms by (simp add: jobTerminal_def)
  show "Result (concluded now native start res invalid job) = native_verdict native (reported res invalid)"
  proof -
    have *: "reported res invalid = c \<Longrightarrow> Result (concluded now native start res invalid job) = native_verdict native c" for c
      using ended unfolding concluded_def native_verdict_def Let_def
      by (cases "jobResult native"; cases "c = ''timed_out''"; cases "c = ''success''"; cases "c = ''failure''"; cases "nativeJobTimedOut native"; cases "c = ''cancelled''") auto
    then show ?thesis by simp
  qed
  show "job_completion (concluded now native start res invalid job) = Some (completionTime now native)"
    using cs by cases (simp_all add: concluded_def Let_def)
  show "Outputs (concluded now native start res invalid job) = Outputs (with_outputs res invalid job)" if "known_conclusion res"
  proof (cases res)
    case None
    with cs show ?thesis by cases (simp_all add: concluded_def with_outputs_def reported_def Let_def)
  next
    case (Some r)
    with cs that show ?thesis
      by cases (cases invalid; auto simp: concluded_def with_outputs_def reported_def known_conclusion_def Let_def ended_def)+
  qed
qed

lemma reported_known: "known_conclusion (fst (execution_result unmarshal native pod))"
proof -
  have "Conclusion r \<in> {[], ''success'', ''failure'', ''cancelled'', ''timed_out''}"
    if "validateResult r = Inr ()" for r
    using that by (auto simp: validateResult_def conclusions_def split: if_splits option.splits)
  then show ?thesis
    by (auto simp: known_conclusion_def execution_result_def decodeRunnerResult_def DecodeResult_def res_simps
        split: option.splits prod.splits sum.splits if_splits)
qed

lemma wanted_deadline_native: "reconcileNativeJobDeadline timeout native start = Some native' \<Longrightarrow>
    jobResult native' = jobResult native \<and> nativeJobTimedOut native' = nativeJobTimedOut native"
  by (auto simp: reconcileNativeJobDeadline_def jobResult_def nativeJobTimedOut_def split: option.splits prod.splits if_splits)

lemma concluded_running:
  assumes "\<not> jobTerminal native"
  shows "Result (concluded now native start None False job) = Result job"
    and "job_completion (concluded now native start None False job) = job_completion job"
    and "Outputs (concluded now native start None False job) = Outputs job"
    and "workflowJobTerminal (concluded now native start None False job) \<longleftrightarrow> Result job \<noteq> NoResult"
  using assms deadline_terminal [of native]
  by (auto simp: concluded_def reported_def jobTerminal_def succeeded_def workflowJobTerminal_def workflowJobResult_def
      find_condition_def set_condition_def update_conv Let_def)

lemma status_of_native_fields:
  assumes "status_of_native now job native pod start res invalid = Some job'"
  obtains j where "job' = concluded now native start res invalid j" "Result j = Result job" "job_completion j = job_completion job"
    "Outputs j = Outputs job"
proof -
  from assms obtain j0 where j0: "setWorkflowJobAssigned job = Some j0"
    and job': "job' = (let j = (case start of None \<Rightarrow> j0 | Some t \<Rightarrow> j0\<lparr>job_start := Some t\<rparr>)
      in concluded now native start res invalid (setWorkflowJobPodScheduled j pod))"
    by (auto simp: status_of_native_def)
  show ?thesis
    by (rule that [OF job' [unfolded Let_def]])
      (use setWorkflowJobAssigned_fields [OF j0] in \<open>simp_all add: setWorkflowJobPodScheduled_fields split: option.splits\<close>)
qed

lemma secret_cleanup_keeps: "cleanupAuthSecret view job = (es, job', r) \<Longrightarrow> job' = job"
  by (rule keepsD [OF keeps_cleanup])

lemma observe_controlled_writes:
  assumes "observe_controlled unmarshal timeout now view native job = (es, job', Inr ())"
  obtains native' pod start where "jobResult native' = jobResult native" "nativeJobTimedOut native' = nativeJobTimedOut native"
    "jobTerminal native \<Longrightarrow> native' = native \<and> map_sum id (owned_pod native) (pods_listed view) = Inr pod"
    "status_of_native now job native' pod start (fst (execution_result unmarshal native' pod)) (snd (execution_result unmarshal native' pod)) = Some job'"
    "job' = job \<or> (WriteJob job', None) \<in> set es"
proof -
  let ?terminal = "jobTerminal native"
  from assms obtain es1 j1 pod es2 j2 native' es3 j3 u es4 where
    pod: "(if pod_needed job ?terminal then answer (map_sum id (owned_pod native) (pods_listed view)) else ret None) job = (es1, j1, Inr pod)"
    and native': "(if ?terminal then ret native
       else case reconcileNativeJobDeadline timeout native (runner_start_of job pod) of None \<Rightarrow> ret native
            | Some n \<Rightarrow> and_do (send (PatchDeadline n) (deadline_patched view)) (\<lambda>_. ret n)) j1 = (es2, j2, Inr native')"
    and upd: "updateWorkflowJobStatus now (status_updated view) native' pod (runner_start_of job pod) (execution_result unmarshal native' pod) j2
       = (es3, j3, Inr u)"
    and last: "(if ?terminal then cleanupAuthSecret (native_secret view) else ret ()) j3 = (es4, job', Inr ())"
    and es: "set es3 \<subseteq> set es"
    unfolding observe_controlled_def holding_eq Let_def and_do_eq_Inr by fastforce
  have j1: "j1 = job" using pod by (auto split: if_splits)
  have j2: "j2 = j1" using native' by (auto simp: and_do_eq_Inr send_eq split: if_splits option.splits)
  have j3: "job' = j3" using last by (auto dest: secret_cleanup_keeps split: if_splits)
  have same: "jobResult native' = jobResult native \<and> nativeJobTimedOut native' = nativeJobTimedOut native"
    using native' by (auto simp: and_do_eq_Inr send_eq dest: wanted_deadline_native split: if_splits option.splits)
  have terminal: "?terminal \<Longrightarrow> native' = native \<and> map_sum id (owned_pod native) (pods_listed view) = Inr pod"
    using native' pod by (cases "pods_listed view") (auto simp: pod_needed_def)
  from upd have "status_of_native now job native' pod (runner_start_of job pod) (fst (execution_result unmarshal native' pod))
      (snd (execution_result unmarshal native' pod)) = Some job' \<and> (job' = job \<or> (WriteJob job', None) \<in> set es3)"
    unfolding updateWorkflowJobStatus_def j1 j2 j3 by (auto split: prod.splits dest: put_status_eq_Inr)
  with same terminal es that show thesis by blast
qed

lemma observed_job:
  assumes "getNativeJob (native_cached view) (native_live view) = Inr native"
    and "observeNativeJob unmarshal timeout now view job = (es, job', Inr (True, terminal, None))"
  obtains native' pod start j where "terminal = jobTerminal native" "jobTerminal native' = jobTerminal native"
    "jobTerminal native \<Longrightarrow> native' = native \<and> map_sum id (owned_pod native) (pods_listed view) = Inr pod"
    "job' = concluded now native' start (fst (execution_result unmarshal native' pod)) (snd (execution_result unmarshal native' pod)) j"
    "Result j = Result job" "job_completion j = job_completion job" "Outputs j = Outputs job" "job' = job \<or> (WriteJob job', None) \<in> set es"
proof -
  from assms have terminal: "terminal = jobTerminal native"
    and "\<exists>r. observe_controlled unmarshal timeout now view native job = (es, job', r) \<and> (case r of Inl e \<Rightarrow> Some e | Inr _ \<Rightarrow> None) = None"
    by (auto simp: observeNativeJob_def and_do_eq_Inr attempt_eq split: if_splits)
  moreover have "(case r of Inl e \<Rightarrow> Some e | Inr _ \<Rightarrow> None) = None \<Longrightarrow> r = Inr ()" for r :: "failure + unit"
    by (cases r) simp_all
  ultimately have ok: "observe_controlled unmarshal timeout now view native job = (es, job', Inr ())" by blast
  obtain native' pod start where
    same: "jobResult native' = jobResult native" "nativeJobTimedOut native' = nativeJobTimedOut native"
    and exact: "jobTerminal native \<Longrightarrow> native' = native \<and> map_sum id (owned_pod native) (pods_listed view) = Inr pod"
    and status: "status_of_native now job native' pod start (fst (execution_result unmarshal native' pod)) (snd (execution_result unmarshal native' pod)) = Some job'"
    and written: "job' = job \<or> (WriteJob job', None) \<in> set es"
    by (rule observe_controlled_writes [OF ok]) (rule that)
  have again: "jobTerminal native' = jobTerminal native" using same by (simp add: jobTerminal_def)
  obtain j where "job' = concluded now native' start (fst (execution_result unmarshal native' pod)) (snd (execution_result unmarshal native' pod)) j"
    "Result j = Result job" "job_completion j = job_completion job" "Outputs j = Outputs job"
    by (rule status_of_native_fields [OF status]) (rule that)
  from terminal again exact this written show thesis by (rule that)
qed

text \<open>
  C13. A WorkflowJob ends exactly when its native Job has ended, and gets its result, completion time and outputs from it: a report of the
  runner decides, then the deadline, then the state of the native Job; outputs come only from a valid result document of the expected
  version. While the native Job runs, the result and the outputs stay as they are.
\<close>

theorem job_ends_with_native_job:
  assumes "getNativeJob (native_cached view) (native_live view) = Inr native" and "pods_listed view = Inr ps"
    and "observeNativeJob unmarshal timeout now view job = (es, job', Inr (True, terminal, None))"
  shows "(terminal \<longleftrightarrow> jobTerminal native) \<and>
    (case execution_result unmarshal native (owned_pod native ps) of (res, invalid) \<Rightarrow>
       if terminal then
         Result job' = native_verdict native (reported res invalid) \<and> job_completion job' = Some (completionTime now native) \<and>
         Outputs job' = (case res of None \<Rightarrow> Outputs job | Some r \<Rightarrow> if invalid then Outputs job else res_outputs r)
       else
         Result job' = Result job \<and> job_completion job' = job_completion job \<and> Outputs job' = Outputs job \<and>
         (workflowJobTerminal job' \<longleftrightarrow> Result job \<noteq> NoResult))"
proof (rule observed_job [OF assms(1,3)])
  fix native' pod start j
  assume terminal: "terminal = jobTerminal native" "jobTerminal native' = jobTerminal native"
    and exact: "jobTerminal native \<Longrightarrow> native' = native \<and> map_sum id (owned_pod native) (pods_listed view) = Inr pod"
    and job': "job' = concluded now native' start (fst (execution_result unmarshal native' pod)) (snd (execution_result unmarshal native' pod)) j"
    and j: "Result j = Result job" "job_completion j = job_completion job" "Outputs j = Outputs job"
  show ?thesis
  proof (cases "jobTerminal native")
    case True
    with exact assms(2) have "native' = native" "pod = owned_pod native ps" by auto
    with True show ?thesis
      using job' j terminal concluded_terminal [OF True] reported_known [of unmarshal native pod]
      by (auto simp: with_outputs_def split: prod.splits option.splits)
  next
    case False
    then have no: "\<not> jobTerminal native'" using terminal by simp
    then have "execution_result unmarshal native' pod = (None, False)" by (simp add: execution_result_def)
    with concluded_running [OF no] job' j terminal False show ?thesis by (simp split: prod.splits)
  qed
qed

text \<open>
  A job whose native Job completed but left no valid result document counts as successful: its condition is false with the reason
  JobResultInvalid, yet its result is success, so the jobs that need it and the run go on, with the outputs it had before.
\<close>

lemma missing_result_counts_as_success:
  assumes "getNativeJob (native_cached view) (native_live view) = Inr native" and "pods_listed view = Inr ps"
    and "observeNativeJob unmarshal timeout now view job = (es, job', Inr (True, terminal, None))"
    and "jobResult native = ConditionTrue" and "\<not> nativeJobTimedOut native"
    and "snd (execution_result unmarshal native (owned_pod native ps))"
  shows "workflowJobEffectiveResult job' = Success \<and> Outputs job' = Outputs job \<and>
    find_condition (job_conditions job') ''Succeeded'' =
      Some \<lparr>Status = ConditionFalse, Reason = ''JobResultInvalid'', Message = ''The workflow job completed without valid output metadata''\<rparr>"
proof (rule observed_job [OF assms(1,3)])
  fix native' pod start j
  assume exact: "jobTerminal native \<Longrightarrow> native' = native \<and> map_sum id (owned_pod native) (pods_listed view) = Inr pod"
    and job': "job' = concluded now native' start (fst (execution_result unmarshal native' pod)) (snd (execution_result unmarshal native' pod)) j"
    and j: "Outputs j = Outputs job"
  from assms(4) have "jobTerminal native" by (simp add: jobTerminal_def)
  with exact job' assms(2,6) have "job' = concluded now native start (fst (execution_result unmarshal native pod)) True j" by simp
  moreover have "reported (fst (execution_result unmarshal native pod)) True = []" by (simp add: reported_def split: option.splits)
  ultimately have "job' = succeeded ConditionFalse ''JobResultInvalid'' ''The workflow job completed without valid output metadata''
      (ended Success (completionTime now native) j)"
    using assms(4,5) by (simp only: concluded_def Let_def simp_thms if_True if_False) simp
  with j show ?thesis
    by (simp add: succeeded_def ended_def workflowJobEffectiveResult_def workflowJobResult_def find_condition_def set_condition_def update_conv)
qed

section \<open>The deadline\<close>

lemma elapsed_seconds_bounds:
  "max t started - started \<le> elapsed_seconds started t * second" "elapsed_seconds started t * second < max t started - started + second"
proof -
  let ?e = "max t started - started"
  have e: "(if t - started < 0 then 0 else t - started) = ?e" by (simp add: max_def)
  have split: "?e div second * second + ?e mod second = ?e" by (rule div_mult_mod_eq)
  have "0 \<le> ?e mod second" "?e mod second < second" by (simp_all add: second_def)
  moreover have "elapsed_seconds started t * second = ?e div second * second + (if ?e mod second \<noteq> 0 then second else 0)"
    unfolding elapsed_seconds_def Let_def e by (simp add: distrib_right)
  ultimately show "?e \<le> elapsed_seconds started t * second" "elapsed_seconds started t * second < ?e + second"
    using split by (simp_all only: split: if_split) linarith+
qed

text \<open>
  C23. A job gets the time it was planned for. Once the runner container has started, the deadline of the native Job is the start of the container plus
  the timeout in whole seconds plus the time for the cleanup, rounded up by less than a second, however late the container started; before that
  the deadline is the one for the start, and an earlier one that the credentials forced is never put off. A deadline that was set is not set again.
\<close>

theorem deadline_leaves_the_timeout:
  assumes "nj_start native = Some started" and "reconcileNativeJobDeadline timeout native start = Some native'"
  shows "reconcileNativeJobDeadline timeout native' start = None \<and>
    (case (ActiveDeadlineSeconds native', start) of
       (Some d, Some t) \<Rightarrow>
         max t started + timeout div second * second + CleanupTimeout \<le> started + d * second \<and>
         started + d * second < max t started + timeout div second * second + CleanupTimeout + second
     | (Some d, None) \<Rightarrow>
         d * second = nativeJobStartDeadline \<and>
         (deadline_annotation native = ''startup'' \<longrightarrow> (case ActiveDeadlineSeconds native of None \<Rightarrow> True | Some s \<Rightarrow> d \<le> s))
     | (None, _) \<Rightarrow> False)"
proof (cases start)
  case None
  then show ?thesis
    using assms by (auto simp: reconcileNativeJobDeadline_def wanted_deadline_def Let_def nativeJobStartDeadline_def second_def minute_def
        split: option.splits if_splits)
next
  case (Some t)
  have d: "ActiveDeadlineSeconds native' = Some (elapsed_seconds started t + timeout div second + CleanupTimeout div second)"
    "nj_start native' = Some started" "deadline_annotation native' = ''execution''"
    using assms Some by (auto simp: reconcileNativeJobDeadline_def wanted_deadline_def split: if_splits)
  have "CleanupTimeout div second * second = CleanupTimeout" by (simp add: CleanupTimeout_def minute_def second_def)
  then have "(elapsed_seconds started t + timeout div second + CleanupTimeout div second) * second =
      elapsed_seconds started t * second + timeout div second * second + CleanupTimeout" by (simp add: distrib_right)
  with elapsed_seconds_bounds [where t = t and started = started] d Some show ?thesis
    by (auto simp: reconcileNativeJobDeadline_def wanted_deadline_def)
qed

section \<open>What is sent, and when\<close>

text \<open>An action that never sends a request of a kind.\<close>

definition never :: "(request \<Rightarrow> bool) \<Rightarrow> ('s, 'a) action \<Rightarrow> bool" where
  "never P m \<longleftrightarrow> (\<forall>h. \<forall>x \<in> set (fst (m h)). \<not> P (fst x))"

named_theorems never_intros

lemma never_ret [never_intros]: "never P (ret x)" by (simp add: never_def ret_def)
lemma never_stop [never_intros]: "never P (stop x)" by (simp add: never_def stop_def)
lemma never_give_up [never_intros]: "never P (give_up x)" by (simp add: never_def give_up_def)
lemma never_answer [never_intros]: "never P (answer x)" by (simp add: never_def answer_def)
lemma never_send [never_intros]: "\<not> P r \<Longrightarrow> never P (send r a)" by (simp add: never_def send_def)
lemma never_revoke_all [never_intros]: "(\<And>t. \<not> P (RevokeToken t)) \<Longrightarrow> never P (revoke_all f ts)" by (auto simp: never_def revoke_all_def)
lemma never_holding [never_intros]: "(\<And>h. never P (f h)) \<Longrightarrow> never P (holding f)" by (simp add: never_def holding_def)
lemma never_put_status [never_intros]: "(\<And>j. \<not> P (WriteJob j)) \<Longrightarrow> never P (put_status f a)"
  by (auto simp: never_def put_status_def send_def split: option.splits)

lemma never_and_do [never_intros]: "never P m \<Longrightarrow> (\<And>x. never P (k x)) \<Longrightarrow> never P (and_do m k)"
  unfolding never_def and_do_def by (auto split: prod.splits sum.splits) (metis fst_conv)+

lemma never_attempt [never_intros]: "never P m \<Longrightarrow> never P (attempt m)"
  unfolding never_def attempt_def by (auto split: prod.splits) (metis fst_conv)

lemma never_unless_gone [never_intros]: "never P m \<Longrightarrow> never P (unless_gone m)"
  unfolding unless_gone_def by (intro never_intros) (auto intro: never_intros split: sum.splits failure.splits api_error.splits)

lemma never_failing_after [never_intros]: "never P m \<Longrightarrow> never P (failing_after e m)"
  unfolding failing_after_def by (intro never_intros)

lemma sent_either:
  "x \<in> set (fst (and_do m k h)) \<Longrightarrow> x \<in> set (fst (m h)) \<or> (\<exists>y h'. snd (m h) = (h', Inr y) \<and> x \<in> set (fst (k y h')))"
  by (auto simp: and_do_def split: prod.splits sum.splits)

text \<open>A request that is not sent at first is sent by what follows.\<close>

lemma sent_after:
  assumes "never P m" and "x \<in> set (fst (and_do m k h))" and "P (fst x)"
  obtains y h' where "snd (m h) = (h', Inr y)" "x \<in> set (fst (k y h'))"
proof -
  obtain es h' r where m: "m h = (es, h', r)" by (cases "m h")
  have "x \<notin> set es" using assms(1,3) m unfolding never_def by (metis fst_conv)
  with assms(2) m that show thesis by (cases r) (auto simp: and_do_def split: prod.splits)
qed

locale job_request =
  fixes P :: "request \<Rightarrow> bool"
  assumes about_job: "\<not> P (WriteJob j)" "\<not> P (PatchDeadline n)" "\<not> P DeleteNative" "\<not> P DeleteSecret" "\<not> P (RevokeToken t)"
begin

lemma never_cleanup [never_intros]: "never P (cleanupAuthSecret v)"
  unfolding cleanupAuthSecret_def by (auto intro!: never_intros about_job split: sum.splits failure.splits api_error.splits)

lemma never_complete [never_intros]: "never P (completeAssignedWorkflowJob now v res reason m)"
  unfolding completeAssignedWorkflowJob_def by (intro never_intros never_cleanup about_job)

lemma never_fail [never_intros]: "never P (fail_job view reason m)"
  unfolding fail_job_def failAssignedWorkflowJob_def by (intro never_intros never_complete)

lemma never_cancel [never_intros]: "never P (cancelWorkflowJob now v c)"
  unfolding cancelWorkflowJob_def
  by (intro never_intros) (auto intro!: never_intros never_complete never_cleanup about_job split: sum.splits failure.splits api_error.splits)

lemma never_observe [never_intros]: "never P (observeNativeJob unmarshal timeout now v)"
proof -
  have "never P (observe_controlled unmarshal timeout now v native)" for native
    unfolding observe_controlled_def updateWorkflowJobStatus_def Let_def
    by (intro never_intros) (auto intro!: never_intros never_cleanup about_job split: option.splits prod.splits)
  then show ?thesis
    unfolding observeNativeJob_def by (intro never_intros) (auto intro!: never_intros split: sum.splits failure.splits api_error.splits)
qed

lemma never_revoke [never_intros]: "never P (revoke_installations v ts)"
  unfolding revoke_installations_def by (intro never_intros about_job)

lemma never_stop_revoking [never_intros]: "never P (stop_revoking v ts e)"
  unfolding stop_revoking_def by (intro never_intros never_revoke)

text \<open>The way to the native Job: a request about something else is sent by what follows a stage.\<close>


lemma sent_unless_cancelled:
  assumes "x \<in> set (fst (unless_cancelled view request run tokens k job))" and "P (fst x)"
  shows "workflowJobCancellationRequested (job_uid job) (run_uid run) request = Inr None \<and> x \<in> set (fst (k job))"
proof -
  have "never P (and_do (revoke_installations view tokens) (\<lambda>_. and_do (cancelWorkflowJob (exec_now view) (cancel_view request) c) (\<lambda>_. ret True)))" for c
    by (intro never_intros never_revoke never_cancel)
  with assms never_stop_revoking [of view tokens] show ?thesis
    unfolding unless_cancelled_def by (auto simp: never_def split: sum.splits option.splits)
qed

lemma sent_with_run:
  assumes "x \<in> set (fst (with_run env view k job))" and "P (fst x)"
  obtains run source where "got_run view = Inr (run, source)" "ProjectRef (Spec run) = project_name env" "controlled_by_run view"
    "x \<in> set (fst (k run source job))"
proof -
  obtain y h' where y: "snd (answer (got_run view) job) = (h', Inr y)"
    and x: "x \<in> set (fst ((case y of (run, source) \<Rightarrow>
       if ProjectRef (Spec run) \<noteq> project_name env then stop (Failed ''WorkflowJob belongs to another Project'')
       else if \<not> controlled_by_run view then stop (Failed ''WorkflowJob is not controlled by WorkflowRun'')
       else k run source) h'))"
    using sent_after [where P = P, OF never_answer assms(1) [unfolded with_run_def] assms(2)] by blast
  from y x that show thesis by (cases y; cases "got_run view") (auto simp: answer_def stop_def give_up_def give_up_def split: if_splits)
qed

lemma sent_unless_launched:
  assumes "x \<in> set (fst (unless_launched env view run k job))" and "P (fst x)"
  shows "(\<exists>m. getNativeJob (native_cached (first_look view)) (native_live (first_look view)) = Inl (NotFound m)) \<and>
    workflowJobCancellationRequested (job_uid job) (run_uid run) (first_request view) = Inr None \<and>
    jp_project_label (planned env) = pv_uid (the_project env) \<and> \<not> workflowJobLaunched job \<and> x \<in> set (fst (k job))"
proof -
  from sent_after [where P = P, OF never_observe assms(1) [unfolded unless_launched_def] assms(2)] obtain y h' where
    y: "snd (observeNativeJob (decode_result env) (timeout_of env) (exec_now view) (first_look view) job) = (h', Inr y)"
    and x: "x \<in> set (fst ((\<lambda>(found, terminal, err).
      case err of
        Some e \<Rightarrow> give_up e
      | None \<Rightarrow>
          if terminal then ret True
          else unless_cancelled view (first_request view) run []
            (if found then ret False
             else if jp_project_label (planned env) \<noteq> pv_uid (the_project env) then
               fail_job view ''ProjectRecreated'' (''Project '' @ CHR 0x22 # project_name env @ CHR 0x22 # '' was recreated before execution started'')
             else holding (\<lambda>job.
               if workflowJobLaunched job then
                 and_do (answer (active_listed view)) (\<lambda>ps.
                   if active_pods ps then ret False
                   else fail_job view ''ExecutionStateLost'' ''The native Job disappeared after creation'')
               else k))) y h'))" by blast
  obtain found terminal err where y': "y = (found, terminal, err)" by (cases y) auto
  have never: "never P (if active_pods ps then ret False else fail_job view r m)" for ps r m
    by (auto intro: never_intros never_fail)
  have "never P (and_do (answer (active_listed view)) (\<lambda>ps. if active_pods ps then ret False else fail_job view r m))" for r m
    by (intro never_intros never)
  with never_fail x y' assms(2) have found: "\<not> found" "err = None"
    and rest: "workflowJobCancellationRequested (job_uid h') (run_uid run) (first_request view) = Inr None"
      "jp_project_label (planned env) = pv_uid (the_project env)" "\<not> workflowJobLaunched h'" "x \<in> set (fst (k h'))"
    by (auto simp: never_def ret_def stop_def give_up_def split: option.splits if_splits dest!: sent_unless_cancelled)
  from y y' found have "h' = job \<and> (\<exists>m. getNativeJob (native_cached (first_look view)) (native_live (first_look view)) = Inl (NotFound m))"
    by (auto simp: observeNativeJob_def and_do_def attempt_def ret_def split: sum.splits failure.splits api_error.splits prod.splits if_splits)
  with rest show ?thesis by auto
qed

lemma stop_revoking_silent: "x \<in> set (fst (stop_revoking v ts e h)) \<Longrightarrow> P (fst x) \<Longrightarrow> False"
  using never_stop_revoking unfolding never_def by blast

lemma sent_with_plan:
  assumes "x \<in> set (fst (with_plan env view k job))" and "P (fst x)"
  obtains data plan where "got_plan view = Inr (True, data)" "DecodePlan (decode_plan env) data = Inr plan" "x \<in> set (fst (k plan job))"
    "Needs job = [] \<or> (\<exists>d needs. got_needs view = Inr (True, True, d) \<and> DecodeNeedsContext (decode_needs env) d = Inr needs)"
proof -
  have "\<exists>data plan. got_plan view = Inr (True, data) \<and> DecodePlan (decode_plan env) data = Inr plan \<and> x \<in> set (fst (k plan job)) \<and>
      (Needs job = [] \<or> (\<exists>d needs. got_needs view = Inr (True, True, d) \<and> DecodeNeedsContext (decode_needs env) d = Inr needs))"
    using assms never_fail [of view] unfolding with_plan_def
    by (auto simp: never_def stop_def Let_def split: sum.splits failure.splits api_error.splits if_splits prod.splits)
  with that show thesis by blast
qed

lemma never_snapshot: "never P (validateEventSnapshot obj run snaps)"
  unfolding validateEventSnapshot_def Let_def by (auto intro!: never_intros split: option.splits sum.splits)

lemma sent_with_values:
  assumes "x \<in> set (fst (with_values env view run source k job))" and "P (fst x)"
  shows "x \<in> set (fst (k job))"
proof -
  have snap: "snd (validateEventSnapshot obj run snaps job) = (h', Inr y) \<Longrightarrow> h' = job" for obj snaps h' y
    unfolding validateEventSnapshot_def by (auto simp: ret_def stop_def give_up_def split: option.splits sum.splits if_splits)
  obtain secrets variables where sources: "workflowRunValueSources (the_project env) (Some (src_owner source, src_name source)) = (secrets, variables)"
    by (cases "workflowRunValueSources (the_project env) (Some (src_owner source, src_name source))")
  show ?thesis
  proof (rule sent_after [where P = P, OF never_snapshot assms(1) [unfolded with_values_def] assms(2)])
    fix u h'
    assume "snd (validateEventSnapshot (event_object env) run (snapshots view) job) = (h', Inr u)"
    then have "h' = job" by (rule snap)
    moreover assume "x \<in> set (fst ((let (secrets, variables) = workflowRunValueSources (the_project env) (Some (src_owner source, src_name source))
      in case (if workflowRunUsesProjectSecrets run then validateProjectSecretValues (secrets_of view) secrets else None) of
           Some e \<Rightarrow> stop e
         | None \<Rightarrow>
             (case validateProjectVariableValues (configs_of view) variables of
                Some e \<Rightarrow> stop e
              | None \<Rightarrow> (case secretValue (got_key view) (key_name env) of Inl e \<Rightarrow> stop e | Inr _ \<Rightarrow> k))) h'))"
    ultimately show ?thesis
      unfolding sources Let_def prod.case by (auto simp: stop_def give_up_def split: option.splits sum.splits)
  qed
qed

lemma credentialBounded:
  "credentialBoundedJobStartDeadline now exps \<le> nativeJobStartDeadline"
  "Some t \<in> set exps \<Longrightarrow> credentialBoundedJobStartDeadline now exps \<le> t - now - installationTokenStartMargin"
proof -
  let ?f = "\<lambda>e d. case e of None \<Rightarrow> d | Some t \<Rightarrow> min (t - now - installationTokenStartMargin) d"
  have one: "?f e d \<le> d" for e d by (auto split: option.splits)
  have le: "fold ?f es d \<le> d" for es d
  proof (induction es arbitrary: d)
    case (Cons e es)
    have "fold ?f es (?f e d) \<le> ?f e d" by (rule Cons.IH)
    then show ?case unfolding fold_Cons comp_apply by (rule order_trans) (rule one)
  qed simp
  have "Some t \<in> set es \<Longrightarrow> fold ?f es d \<le> t - now - installationTokenStartMargin" for es d
    by (induction es arbitrary: d) (auto intro: order_trans [OF le])
  then show "credentialBoundedJobStartDeadline now exps \<le> nativeJobStartDeadline"
    "Some t \<in> set exps \<Longrightarrow> credentialBoundedJobStartDeadline now exps \<le> t - now - installationTokenStartMargin"
    using le unfolding credentialBoundedJobStartDeadline_def by blast+
qed

end

locale late_request = job_request +
  assumes late: "\<not> P (PatchArchive a)" "\<not> P (StoreSecret j b c)"
begin

lemma sent_with_services:
  assumes "x \<in> set (fst (with_services env view run source plan deadline tokens k job))" and "P (fst x)"
  obtains token access where "x \<in> set (fst (k token access job))"
proof -
  have "\<exists>token access. x \<in> set (fst (k token access job))"
    using assms(1) unfolding with_services_def
    by (auto split: option.splits sum.splits if_splits dest: stop_revoking_silent [OF _ assms(2)])
  with that show thesis by blast
qed

lemma sent_with_archive:
  assumes "x \<in> set (fst (with_archive env view tokens k job))" and "P (fst x)"
  shows "x \<in> set (fst (k job))"
proof -
  have never: "never P (attempt (send (PatchArchive a) b))" for a b by (intro never_intros late)
  have kept: "snd (attempt (send (PatchArchive a) b) job) = (h', Inr y) \<Longrightarrow> h' = job" for a b h' y
    by (auto simp: attempt_def send_def)
  let ?archive = "ArtifactResultsURL (conf env) \<noteq> []"
  let ?after = "\<lambda>r. case r of Inl e \<Rightarrow> stop_revoking view tokens (Api (Failed (''configure log archive: '' @ error_text e))) | Inr _ \<Rightarrow> k"
  show ?thesis
  proof (cases "(case jp_archive (planned env) of None \<Rightarrow> [] | Some a \<Rightarrow> a) = (if ?archive then ''true'' else [])")
    case True
    with assms(1) show ?thesis by (simp add: with_archive_def Let_def)
  next
    case False
    with assms(1) have "x \<in> set (fst (and_do (attempt (send (PatchArchive ?archive) (archive_patched view))) ?after job))"
      by (simp only: with_archive_def Let_def if_False)
    then show ?thesis
    proof (rule sent_after [where P = P, OF never _ assms(2)])
      fix y h'
      assume "snd (attempt (send (PatchArchive ?archive) (archive_patched view)) job) = (h', Inr y)" "x \<in> set (fst (?after y h'))"
      then show ?thesis using kept by (cases y) (auto dest: stop_revoking_silent [OF _ assms(2)])
    qed
  qed
qed

lemma never_ensure: "never P (ensureAuthSecret view j a art)"
  unfolding ensureAuthSecret_def
  by (intro never_intros late) (auto intro!: never_intros late split: sum.splits failure.splits api_error.splits)

end

locale last_request = late_request +
  assumes issue: "\<not> P (IssueToken t)"
begin

lemma sent_with_tokens:
  assumes "x \<in> set (fst (with_tokens env view run plan k job))" and "P (fst x)"
  obtains token expires action deadline where "got_job_token view (job_permissions plan) = Inr (token, expires)" "second \<le> deadline"
    "deadline \<le> nativeJobStartDeadline" "case expires of None \<Rightarrow> True | Some t \<Rightarrow> exec_now view + deadline + installationTokenStartMargin \<le> t"
    "x \<in> set (fst (k token action deadline job))"
proof -
  have never: "never P (handleJobTokenCreationError view e)" for e
    unfolding handleJobTokenCreationError_def by (auto intro: never_intros never_fail split: token_error.splits)
  have stop: "never P (and_do (revoke_installations view ts) (\<lambda>_. fail_job view r m))" for ts r m
    by (intro never_intros never_revoke never_fail)
  obtain token expires where job_token: "got_job_token view (job_permissions plan) = Inr (token, expires)"
    using assms never by (auto simp: with_tokens_def never_def split: sum.splits)
  let ?deadline = "credentialBoundedJobStartDeadline (exec_now view)"
  have start: "second \<le> ?deadline exps \<and> x \<in> set (fst (k token action (?deadline exps) job))"
    if "x \<in> set (fst (start_tokens view k token action exps job))" for action exps
    using that stop assms(2) by (auto simp: start_tokens_def never_def Let_def split: if_splits)
  have sent: "x \<in> set (fst (k' job))" if "x \<in> set (fst (and_do (send (IssueToken t) None) (\<lambda>_. k') job))" for t k'
    using that issue assms(2) by (auto simp: and_do_def send_def split: prod.splits)
  have go: "x \<in> set (fst (with_action_token env view run plan k token expires job))"
    using assms(1) unfolding with_tokens_def job_token sum.case prod.case by (rule sent)
  have "\<exists>action exps. exps \<noteq> [] \<and> hd exps = expires \<and> x \<in> set (fst (start_tokens view k token action exps job))"
  proof (cases "ActionTokenRequired (url_parts env) plan \<longrightarrow> (\<exists>e. got_action_token view (action_token_scoped run) = Inl e)")
    case True
    with go have "x \<in> set (fst (start_tokens view k token None [expires] job))"
      unfolding with_action_token_def by (auto dest: stop_revoking_silent [OF _ assms(2)] split: if_splits)
    then show ?thesis by (intro exI [of _ None] exI [of _ "[expires]"]) simp
  next
    case False
    then obtain t e where "ActionTokenRequired (url_parts env) plan" "got_action_token view (action_token_scoped run) = Inr (t, e)"
      by (cases "got_action_token view (action_token_scoped run)") auto
    with go have "x \<in> set (fst (start_tokens view k token (Some t) [expires, e] job))"
      unfolding with_action_token_def by (auto dest: sent)
    then show ?thesis by (intro exI [of _ "Some t"] exI [of _ "[expires, e]"]) simp
  qed
  then obtain action exps where e: "exps \<noteq> []" "hd exps = expires" "second \<le> ?deadline exps"
    "x \<in> set (fst (k token action (?deadline exps) job))" using start by blast
  have "expires \<in> set exps" using e(1,2) by (cases exps) auto
  have "case expires of None \<Rightarrow> True | Some t \<Rightarrow> exec_now view + ?deadline exps + installationTokenStartMargin \<le> t"
  proof (cases expires)
    case (Some t)
    with \<open>expires \<in> set exps\<close> have "?deadline exps \<le> t - exec_now view - installationTokenStartMargin" by (intro credentialBounded(2)) simp
    with Some show ?thesis by simp
  qed simp
  with job_token e credentialBounded(1) show thesis by (intro that)
qed

end

section \<open>When a native Job is created\<close>

fun is_create :: "request \<Rightarrow> bool" where
  "is_create (CreateNative b) = True"
| "is_create _ = False"

interpretation creation: last_request is_create
  by unfold_locales simp_all

lemma created_by_start:
  assumes "x \<in> set (fst (start_native env view built job))" and "is_create (fst x)"
  shows "fst x = CreateNative built"
proof -
  let ?after = "\<lambda>r. case r of
      Inl (Api (AlreadyExists _)) \<Rightarrow> and_do (observeNativeJob (decode_result env) (timeout_of env) (exec_now view) (second_look view))
        (\<lambda>(found, terminal, err). case err of Some e \<Rightarrow> give_up e | None \<Rightarrow> ret terminal)
    | Inl e \<Rightarrow> failing_after e (cleanupAuthSecret (late_secret view))
    | Inr _ \<Rightarrow> and_do (updateWorkflowJobStatus (exec_now view) (created_updated view) (built_job built) None None (None, False)) (\<lambda>_. ret False)"
  have "never is_create (?after r)" for r
    unfolding updateWorkflowJobStatus_def
    by (auto intro!: never_intros creation.never_observe creation.never_cleanup creation.about_job split: sum.splits failure.splits api_error.splits option.splits)
  then have "x \<notin> set (fst (?after r h))" for r h using assms(2) unfolding never_def by blast
  then have "x \<in> set (fst (attempt (createNativeJob (creation view) built) job))"
    using sent_either [OF assms(1) [unfolded start_native_def]] by blast
  then have "x \<in> set (fst (createNativeJob (creation view) built job))" by (auto simp: attempt_def split: prod.splits)
  with assms(2) show ?thesis
    unfolding createNativeJob_def Let_def
    by (auto simp: and_do_def attempt_def send_def answer_def stop_def give_up_def give_up_def split: option.splits if_splits sum.splits prod.splits)
qed

lemma created_by_launch:
  assumes "x \<in> set (fst (launch env view run source deadline access job))" and "is_create (fst x)"
  obtains built where "fst x = CreateNative built" "ActiveDeadlineSeconds (built_job built) = Some (deadline div second)"
    "workflowJobCancellationRequested (job_uid job) (run_uid run) (third_request view) = Inr None"
proof -
  let ?built = "with_cache_mode access (buildJob (conf env) (child_name env) job (planned env) run (the_project env)
    (Some (src_owner source, src_name source)) (the_runner env) (execution env) deadline)"
  have deadline: "ActiveDeadlineSeconds (built_job ?built) = Some (deadline div second)"
    by (simp add: with_cache_mode_def buildJob_def Let_def split: option.splits)
  have cleanup: "x \<notin> set (fst ((failing_after e (cleanupAuthSecret s) :: bool act) job))" for e s
  proof -
    have "never is_create (failing_after e (cleanupAuthSecret s) :: bool act)" by (intro never_intros creation.never_cleanup)
    with assms(2) show ?thesis unfolding never_def by blast
  qed
  have cancelled: "x \<notin> set (fst (and_do (cancelWorkflowJob n v c) (\<lambda>_. ret True) job))" for n v c
  proof -
    have "never is_create (and_do (cancelWorkflowJob n v c) (\<lambda>_. ret True))" by (intro never_intros creation.never_cancel)
    with assms(2) show ?thesis unfolding never_def by blast
  qed
  have "workflowJobCancellationRequested (job_uid job) (run_uid run) (third_request view) = Inr None \<and> x \<in> set (fst (start_native env view ?built job))"
    using assms(1) cleanup cancelled unfolding launch_def holding_eq Let_def
    by (auto split: option.splits sum.splits)
  with created_by_start assms(2) deadline that show thesis by blast
qed

lemma created_by_prepare:
  assumes "(CreateNative built, ans) \<in> set (fst (prepare env view run source plan token action deadline job))"
  shows "ActiveDeadlineSeconds (built_job built) = Some (deadline div second) \<and>
    workflowJobCancellationRequested (job_uid job) (run_uid run) (second_request view) = Inr None \<and>
    workflowJobCancellationRequested (job_uid job) (run_uid run) (third_request view) = Inr None"
proof -
  let ?x = "(CreateNative built, ans)"
  have P: "is_create (fst ?x)" by simp
  let ?tokens = "token # (case action of None \<Rightarrow> [] | Some t \<Rightarrow> [t])"
  note second = creation.sent_unless_cancelled [OF assms [unfolded prepare_def Let_def] P]
  then obtain art access where
    "?x \<in> set (fst (with_archive env view ?tokens (store_and_launch env view run source token action deadline art access) job))"
    using creation.sent_with_services [OF _ P] by blast
  then have x: "?x \<in> set (fst (store_and_launch env view run source token action deadline art access job))"
    by (rule creation.sent_with_archive [OF _ P])
  have ensure: "keeps (attempt (ensureAuthSecret v j a t))" for v j a t
    unfolding ensureAuthSecret_def
    by (intro keeps_intros) (auto intro!: keeps_intros split: sum.splits failure.splits api_error.splits)
  have "?x \<in> set (fst (launch env view run source deadline access job))"
  proof (rule sent_after [where P = is_create, OF never_attempt [OF creation.never_ensure] x [unfolded store_and_launch_def] P])
    fix y h'
    assume "snd (attempt (ensureAuthSecret (secret_stored view) token (case action of None \<Rightarrow> [] | Some t \<Rightarrow> t) art) job) = (h', Inr y)"
      and after: "?x \<in> set (fst ((case y of Inl e \<Rightarrow> stop_revoking view ?tokens e | Inr _ \<Rightarrow> launch env view run source deadline access) h'))"
    then have "h' = job" using ensure unfolding keeps_def by (metis fst_conv)
    with after show ?thesis by (cases y) (auto dest: creation.stop_revoking_silent [OF _ P])
  qed
  from created_by_launch [OF this P] second show ?thesis by auto
qed

lemma start_room:
  assumes "second \<le> deadline" and "deadline \<le> nativeJobStartDeadline"
    and "case expires of None \<Rightarrow> True | Some t \<Rightarrow> now + deadline + installationTokenStartMargin \<le> t"
  shows "1 \<le> deadline div second" and "deadline div second * second \<le> nativeJobStartDeadline"
    and "case expires of None \<Rightarrow> True | Some t \<Rightarrow> now + deadline div second * second + 5 * minute \<le> t"
proof -
  have le: "deadline div second * second \<le> deadline" by (simp add: second_def)
  show "1 \<le> deadline div second" using assms(1) by (simp add: second_def pos_imp_zdiv_pos_iff)
  show "deadline div second * second \<le> nativeJobStartDeadline" using le assms(2) by (rule order_trans)
  show "case expires of None \<Rightarrow> True | Some t \<Rightarrow> now + deadline div second * second + 5 * minute \<le> t"
  proof (cases expires)
    case (Some t)
    with assms(3) have "now + deadline + installationTokenStartMargin \<le> t" by simp
    with le Some show ?thesis unfolding installationTokenStartMargin_def by simp
  qed simp
qed

text \<open>
  C8. A native Job is created only when all is in order: the job was not seen to run and was not started before, it belongs to this Project, three
  questions for a cancellation, the last one right before the creation, were answered with none, its plan is valid, and its deadline for the
  start leaves the GitHub token of the job valid for five more minutes.
\<close>

theorem native_job_created_when_safe:
  assumes "executeWorkflowJob env view job = (es, job', r)" and "(CreateNative built, ans) \<in> set es"
  shows "\<exists>run source data plan token expires d.
    got_run view = Inr (run, source) \<and> ProjectRef (Spec run) = project_name env \<and> jp_project_label (planned env) = pv_uid (the_project env) \<and>
    (\<exists>m. getNativeJob (native_cached (first_look view)) (native_live (first_look view)) = Inl (NotFound m)) \<and> \<not> workflowJobLaunched job \<and>
    workflowJobCancellationRequested (job_uid job) (run_uid run) (first_request view) = Inr None \<and>
    workflowJobCancellationRequested (job_uid job) (run_uid run) (second_request view) = Inr None \<and>
    workflowJobCancellationRequested (job_uid job) (run_uid run) (third_request view) = Inr None \<and>
    got_plan view = Inr (True, data) \<and> DecodePlan (decode_plan env) data = Inr plan \<and>
    got_job_token view (job_permissions plan) = Inr (token, expires) \<and>
    ActiveDeadlineSeconds (built_job built) = Some d \<and> 1 \<le> d \<and> d * second \<le> nativeJobStartDeadline \<and>
    (case expires of None \<Rightarrow> True | Some t \<Rightarrow> exec_now view + d * second + 5 * minute \<le> t)"
proof -
  let ?x = "(CreateNative built, ans)"
  have P: "is_create (fst ?x)" by simp
  have "?x \<in> set (fst (executeWorkflowJob env view job))" using assms by simp
  then obtain run source where run: "got_run view = Inr (run, source)" "ProjectRef (Spec run) = project_name env"
    and x: "?x \<in> set (fst (unless_launched env view run (with_plan env view (\<lambda>plan.
       with_values env view run source (with_tokens env view run plan (prepare env view run source plan)))) job))"
    unfolding executeWorkflowJob_def by (rule creation.sent_with_run [OF _ P])
  note launched = creation.sent_unless_launched [OF x P]
  obtain m where absent: "getNativeJob (native_cached (first_look view)) (native_live (first_look view)) = Inl (NotFound m)"
    using launched by blast
  from launched have label: "jp_project_label (planned env) = pv_uid (the_project env)" "\<not> workflowJobLaunched job"
    "workflowJobCancellationRequested (job_uid job) (run_uid run) (first_request view) = Inr None" by simp_all
  from launched obtain data plan where plan: "got_plan view = Inr (True, data)" "DecodePlan (decode_plan env) data = Inr plan"
    and x: "?x \<in> set (fst (with_values env view run source (with_tokens env view run plan (prepare env view run source plan)) job))"
    using creation.sent_with_plan [OF _ P] by blast
  obtain token expires action deadline where
    token: "got_job_token view (job_permissions plan) = Inr (token, expires)"
    and deadline: "second \<le> deadline" "deadline \<le> nativeJobStartDeadline"
      "case expires of None \<Rightarrow> True | Some t \<Rightarrow> exec_now view + deadline + installationTokenStartMargin \<le> t"
    and x: "?x \<in> set (fst (prepare env view run source plan token action deadline job))"
    by (rule creation.sent_with_tokens [OF creation.sent_with_values [OF x P] P]) (rule that)
  from created_by_prepare [OF x] have built: "ActiveDeadlineSeconds (built_job built) = Some (deadline div second)"
    and requests: "workflowJobCancellationRequested (job_uid job) (run_uid run) (second_request view) = Inr None"
      "workflowJobCancellationRequested (job_uid job) (run_uid run) (third_request view) = Inr None" by simp_all
  let ?d = "deadline div second"
  note room = start_room [OF deadline]
  show ?thesis
  proof (intro exI conjI)
    show "got_run view = Inr (run, source)" by (rule run)
    show "got_job_token view (job_permissions plan) = Inr (token, expires)" by (rule token)
    show "ActiveDeadlineSeconds (built_job built) = Some (deadline div second)" by (rule built)
    show "got_plan view = Inr (True, data)" by (rule plan)
  qed (fact run absent label requests plan room)+
qed

section \<open>What becomes of the tokens\<close>

text \<open>
  What the requests of an execution leave in the secret of the job: \<open>None\<close> until it is stored, and after it is deleted. The store
  is a creation, or a patch of a secret that was there; \<open>existing_secret\<close> is that one.
\<close>

type_synonym secret = "string \<times> string \<times> string"

fun secret_after :: "StoreView \<Rightarrow> request \<times> api_error option \<Rightarrow> secret option \<Rightarrow> secret option" where
  "secret_after v (StoreSecret j a art, None) held = Some (j, a, art)"
| "secret_after v (StoreSecret j a art, Some (AlreadyExists m)) held = (case existing_secret v of Inr (True, d) \<Rightarrow> Some d | _ \<Rightarrow> held)"
| "secret_after v (DeleteSecret, None) held = None"
| "secret_after v (DeleteSecret, Some (NotFound m)) held = None"
| "secret_after v e held = held"

fun holds_token :: "string \<Rightarrow> secret option \<Rightarrow> bool" where
  "holds_token t None \<longleftrightarrow> False"
| "holds_token t (Some (j, a, art)) \<longleftrightarrow> t = j \<or> t = a"

definition in_secret :: "ExecView \<Rightarrow> string \<Rightarrow> trace \<Rightarrow> bool" where
  "in_secret view t es \<longleftrightarrow> holds_token t (fold (secret_after (secret_stored view)) es None)"

definition ever_in_secret :: "ExecView \<Rightarrow> string \<Rightarrow> trace \<Rightarrow> bool" where
  "ever_in_secret view t es \<longleftrightarrow> list_ex (\<lambda>n. in_secret view t (take n es)) [0..<Suc (length es)]"

text \<open>
  A token is settled at the end of an execution: one that was in the secret at any moment is there still, or GitHub confirmed its
  revocation; for one that never got there the revocation was asked for.
\<close>

definition settled :: "ExecView \<Rightarrow> string \<Rightarrow> trace \<Rightarrow> bool" where
  "settled view t es \<longleftrightarrow>
     (if ever_in_secret view t es then in_secret view t es \<or> (RevokeToken t, None) \<in> set es
      else list_ex (\<lambda>(req, ans). req = RevokeToken t) es)"

text \<open>A read of the secret after the store answers what was stored, or fails. The client for GitHub that issued the tokens is there to revoke them.\<close>

definition reads_back :: "trace \<Rightarrow> SecretView \<Rightarrow> bool" where
  "reads_back es v \<longleftrightarrow> has_github v \<and>
     list_all (\<lambda>(req, ans). case req of
        StoreSecret j a art \<Rightarrow> (case got_secret v of Inl _ \<Rightarrow> True | Inr (_, j', a') \<Rightarrow> j' = j \<and> a' = a)
      | _ \<Rightarrow> True) es"

definition late_reads :: "ExecView \<Rightarrow> SecretView list" where
  "late_reads view =
     [late_secret view, native_secret (second_look view), cancel_secret (cancel_view (third_request view)),
      complete_secret (cancel_complete (cancel_view (third_request view)))]"

subsection \<open>Once the secret has a token\<close>

text \<open>An action that loses no token the secret holds.\<close>

definition careful :: "StoreView \<Rightarrow> string \<Rightarrow> ('s, 'a) action \<Rightarrow> bool" where
  "careful v t m \<longleftrightarrow> (\<forall>h held. holds_token t held \<longrightarrow>
     holds_token t (fold (secret_after v) (fst (m h)) held) \<or> (RevokeToken t, None) \<in> set (fst (m h)))"

named_theorems careful_intros

fun about_secret :: "request \<Rightarrow> bool" where
  "about_secret (StoreSecret j a art) = True"
| "about_secret DeleteSecret = True"
| "about_secret _ = False"

lemma secret_untouched: "list_all (\<lambda>x. \<not> about_secret (fst x)) es \<Longrightarrow> fold (secret_after v) es held = held"
proof (induction es arbitrary: held)
  case (Cons x es)
  then have "secret_after v x held = held" by (cases x; cases "fst x") auto
  with Cons show ?case by simp
qed simp

lemma careful_never: "never about_secret m \<Longrightarrow> careful v t m"
  unfolding never_def careful_def by (auto simp: secret_untouched list_all_iff)

lemma careful_and_do [careful_intros]:
  assumes "careful v t m" and "\<And>x. careful v t (k x)"
  shows "careful v t (and_do m k)"
  unfolding careful_def
proof (intro allI impI)
  fix h held
  assume held: "holds_token t held"
  obtain es h' r where m: "m h = (es, h', r)" by (cases "m h")
  with assms(1) held have first: "holds_token t (fold (secret_after v) es held) \<or> (RevokeToken t, None) \<in> set es"
    unfolding careful_def by (metis fst_conv)
  show "holds_token t (fold (secret_after v) (fst (and_do m k h)) held) \<or> (RevokeToken t, None) \<in> set (fst (and_do m k h))"
  proof (cases r)
    case (Inl e)
    with m first show ?thesis by (simp add: and_do_def)
  next
    case (Inr y)
    obtain es' r' where k: "k y h' = (es', r')" by (cases "k y h'")
    with m Inr have "fst (and_do m k h) = es @ es'" by (simp add: and_do_def)
    with first k assms(2) [of y] show ?thesis unfolding careful_def by (auto, metis fst_conv)
  qed
qed

lemma careful_attempt [careful_intros]: "careful v t m \<Longrightarrow> careful v t (attempt m)"
  unfolding careful_def attempt_def by (auto split: prod.splits) (metis fst_conv)+

lemma careful_holding [careful_intros]: "(\<And>h. careful v t (f h)) \<Longrightarrow> careful v t (holding f)"
  by (simp add: careful_def)

lemmas careful_silent [careful_intros] = careful_never [OF never_ret] careful_never [OF never_stop] careful_never [OF never_give_up]

lemma careful_failing_after [careful_intros]: "careful v t m \<Longrightarrow> careful v t (failing_after e m)"
  unfolding failing_after_def by (intro careful_intros)

text \<open>The clean-up deletes the secret only after GitHub confirmed that every token in it is revoked.\<close>

definition reads_token :: "string \<Rightarrow> SecretView \<Rightarrow> bool" where
  "reads_token t v \<longleftrightarrow> has_github v \<and> (case got_secret v of Inl _ \<Rightarrow> True | Inr (_, j, a) \<Rightarrow> t = j \<or> t = a)"

lemma careful_cleanup [careful_intros]:
  assumes "reads_token t s" and "t \<noteq> []"
  shows "careful v t (cleanupAuthSecret s)"
proof (cases "got_secret s")
  case (Inl e)
  then show ?thesis unfolding cleanupAuthSecret_def by (cases e) (auto intro: careful_intros)
next
  case (Inr secret)
  obtain controlled j a where secret: "secret = (controlled, j, a)" by (cases secret) auto
  let ?revoke = "revoke_all (secret_revoked s) (filter (\<lambda>t. t \<noteq> []) [j, a])"
  have held: "t \<in> set (filter (\<lambda>t. t \<noteq> []) [j, a])" "has_github s" using assms Inr secret by (auto simp: reads_token_def)
  have "careful v t (and_do ?revoke k)" for k :: "unit \<Rightarrow> unit act"
    unfolding careful_def
  proof (intro allI impI)
    fix h :: WorkflowJob and held
    assume "holds_token t held"
    let ?ok = "list_all (\<lambda>t. secret_revoked s t = None) (filter (\<lambda>t. t \<noteq> []) [j, a])"
    show "holds_token t (fold (secret_after v) (fst (and_do ?revoke k h)) held) \<or> (RevokeToken t, None) \<in> set (fst (and_do ?revoke k h))"
    proof (cases ?ok)
      case True
      with held(1) have "(RevokeToken t, None) \<in> set (fst (?revoke h))" by (auto simp: revoke_all_def list_all_iff)
      then show ?thesis by (auto simp: and_do_def split: prod.splits sum.splits)
    next
      case False
      then have "and_do ?revoke k h = (fst (?revoke h), h, Inl (Api (Failed ''revoke installation tokens'')))"
        by (simp only: and_do_def revoke_all_def if_False prod.case sum.case fst_conv)
      moreover have "list_all (\<lambda>x. \<not> about_secret (fst x)) (fst (?revoke h))" by (auto simp: revoke_all_def list_all_iff)
      ultimately show ?thesis using \<open>holds_token t held\<close> by (simp add: secret_untouched)
    qed
  qed
  with Inr secret held(2) show ?thesis
    unfolding cleanupAuthSecret_def by (auto intro: careful_intros)
qed

lemma careful_put_status [careful_intros]: "careful v t (put_status f a)"
  by (rule careful_never) (intro never_intros, simp)

lemma careful_send [careful_intros]: "\<not> about_secret req \<Longrightarrow> careful v t (send req a)"
  by (intro careful_never never_intros)

lemma careful_answer [careful_intros]: "careful v t (answer a)"
  by (intro careful_never never_intros)

lemma careful_unless_gone [careful_intros]: "careful v t m \<Longrightarrow> careful v t (unless_gone m)"
  unfolding unless_gone_def by (intro careful_intros) (auto intro: careful_intros split: sum.splits failure.splits api_error.splits)

lemma careful_complete [careful_intros]:
  "reads_token t (complete_secret c) \<Longrightarrow> t \<noteq> [] \<Longrightarrow> careful v t (completeAssignedWorkflowJob now c res reason m)"
  unfolding completeAssignedWorkflowJob_def by (intro careful_intros)

lemma careful_cancel [careful_intros]:
  assumes "reads_token t (complete_secret (cancel_complete c))" and "reads_token t (cancel_secret c)" and "t \<noteq> []"
  shows "careful v t (cancelWorkflowJob now c reason)"
  unfolding cancelWorkflowJob_def
  by (intro careful_intros assms) (auto intro!: careful_intros assms split: sum.splits failure.splits api_error.splits)

lemma careful_observe [careful_intros]:
  assumes "reads_token t (native_secret seen)" and "t \<noteq> []"
  shows "careful v t (observeNativeJob unmarshal timeout now seen)"
proof -
  have "careful v t (observe_controlled unmarshal timeout now seen native)" for native
    unfolding observe_controlled_def updateWorkflowJobStatus_def Let_def
    by (intro careful_intros) (auto intro!: careful_intros assms split: option.splits prod.splits)
  then show ?thesis
    unfolding observeNativeJob_def by (intro careful_intros) (auto intro!: careful_intros split: sum.splits failure.splits api_error.splits)
qed

lemma careful_launch:
  assumes "\<And>s. s \<in> set (late_reads view) \<Longrightarrow> reads_token t s" and "t \<noteq> []"
  shows "careful v t (launch env view run source deadline access)"
proof -
  have reads: "reads_token t (late_secret view)" "reads_token t (native_secret (second_look view))"
    "reads_token t (cancel_secret (cancel_view (third_request view)))"
    "reads_token t (complete_secret (cancel_complete (cancel_view (third_request view))))"
    using assms(1) by (simp_all add: late_reads_def)
  have create: "careful v t (createNativeJob w built)" for w built
    unfolding createNativeJob_def Let_def by (auto intro!: careful_intros split: option.splits)
  have "careful v t (start_native env view built)" for built
    unfolding start_native_def updateWorkflowJobStatus_def
    by (intro careful_intros create)
      (auto intro!: careful_intros reads assms(2) split: sum.splits failure.splits api_error.splits option.splits)
  then show ?thesis
    unfolding launch_def Let_def
    by (intro careful_intros) (auto intro!: careful_intros reads assms(2) split: option.splits sum.splits)
qed

subsection \<open>Before the secret has a token\<close>

fun is_store :: "request \<Rightarrow> bool" where
  "is_store (StoreSecret j a art) = True"
| "is_store _ = False"

lemma nothing_stored: "list_all (\<lambda>x. \<not> is_store (fst x)) es \<Longrightarrow> fold (secret_after v) es None = None"
proof (induction es)
  case (Cons x es)
  then have "secret_after v x None = None" by (cases "(v, x, None :: secret option)" rule: secret_after.cases) auto
  with Cons show ?case by simp
qed simp

lemma ever_iff: "ever_in_secret view t es \<longleftrightarrow> (\<exists>n. in_secret view t (take n es))"
proof -
  have "take n es = take (min n (length es)) es" for n by (simp add: min_def)
  then show ?thesis unfolding ever_in_secret_def list_ex_iff by (metis atLeastLessThan_iff less_Suc_eq_le min.cobounded2 set_upt zero_le)
qed

lemma ever_after_unstored:
  assumes "list_all (\<lambda>x. \<not> is_store (fst x)) es"
  shows "in_secret view t (es @ es') = in_secret view t es'" and "ever_in_secret view t (es @ es') = ever_in_secret view t es'"
proof -
  have taken: "list_all (\<lambda>x. \<not> is_store (fst x)) (take n es)" for n
    using assms by (auto simp: list_all_iff dest: in_set_takeD)
  show "in_secret view t (es @ es') = in_secret view t es'" for es'
    using assms by (simp add: in_secret_def nothing_stored)
  then have "in_secret view t (take n (es @ es')) = in_secret view t (take (n - length es) es')" for n
    using taken [of n] by (cases "n \<le> length es") (simp_all add: in_secret_def nothing_stored)
  then show "ever_in_secret view t (es @ es') = ever_in_secret view t es'"
    unfolding ever_iff by (metis diff_add_inverse2)
qed

lemma settled_after: "list_all (\<lambda>x. \<not> is_store (fst x)) es \<Longrightarrow> settled view t es' \<Longrightarrow> settled view t (es @ es')"
  by (auto simp: settled_def ever_after_unstored split: if_splits)

lemma settled_unstored:
  assumes "list_all (\<lambda>x. \<not> is_store (fst x)) es" and "(RevokeToken t, b) \<in> set es"
  shows "settled view t es"
proof -
  have "\<not> ever_in_secret view t (es @ [])"
    unfolding ever_after_unstored(2) [OF assms(1)] by (simp add: ever_in_secret_def in_secret_def)
  with assms(2) show ?thesis by (auto simp: settled_def list_ex_iff)
qed

text \<open>From the moment the secret holds a token, careful actions keep it settled.\<close>

lemma settled_stored:
  assumes "in_secret view t es" and "careful (secret_stored view) t m"
  shows "settled view t (es @ fst (m h))"
proof -
  have "holds_token t (fold (secret_after (secret_stored view)) (fst (m h)) (fold (secret_after (secret_stored view)) es None)) \<or>
      (RevokeToken t, None) \<in> set (fst (m h))"
    using assms unfolding in_secret_def careful_def by blast
  then have "in_secret view t (es @ fst (m h)) \<or> (RevokeToken t, None) \<in> set (es @ fst (m h))" by (auto simp: in_secret_def)
  moreover have "ever_in_secret view t (es @ fst (m h))"
    unfolding ever_iff by (rule exI [of _ "length es"]) (simp add: assms(1))
  ultimately show ?thesis by (simp add: settled_def)
qed

interpretation store: job_request is_store
  by unfold_locales simp_all

lemma unstored: "never is_store m \<Longrightarrow> list_all (\<lambda>x. \<not> is_store (fst x)) (fst (m h))"
  by (auto simp: never_def list_all_iff)

lemma settled_revoked:
  assumes "t \<in> set ts" and "\<And>y. never is_store (k y)"
  shows "settled view t (fst (and_do (revoke_installations v ts) k h))"
proof (rule settled_unstored)
  have "never is_store (and_do (revoke_installations v ts) k)" by (intro never_intros store.never_revoke assms(2))
  then show "list_all (\<lambda>x. \<not> is_store (fst x)) (fst (and_do (revoke_installations v ts) k h))" by (rule unstored)
  show "(RevokeToken t, token_revoked v t) \<in> set (fst (and_do (revoke_installations v ts) k h))"
    using assms(1) by (auto simp: revoke_installations_def and_do_def attempt_def revoke_all_def ret_def split: prod.splits)
qed

lemma settled_stop_revoking: "t \<in> set ts \<Longrightarrow> settled view t (fst (stop_revoking v ts e h))"
  unfolding stop_revoking_def by (rule settled_revoked) (auto intro: never_intros)

subsection \<open>The store\<close>

lemma stored_secret:
  assumes "ensureAuthSecret v j a art h = (es, h', Inr ())"
  shows "fold (secret_after v) es None = Some (j, a, art)"
  using assms unfolding ensureAuthSecret_def
  by (cases "secret_created v"; cases "existing_secret v")
    (auto simp: and_do_def attempt_def send_def ret_def stop_def give_up_def answer_def split: api_error.splits option.splits if_splits prod.splits)

text \<open>The tokens of an earlier execution that are still in the secret are overwritten: no one asks GitHub to revoke them.\<close>

lemma old_tokens_are_overwritten:
  assumes "secret_created v = Some (AlreadyExists m)" and "existing_secret v = Inr (True, old)" and "old \<noteq> (j, a, art)" and "secret_patched v = None"
  shows "ensureAuthSecret v j a art h = ([(StoreSecret j a art, Some (AlreadyExists m)), (StoreSecret j a art, None)], h, Inr ())"
  using assms by (simp add: ensureAuthSecret_def and_do_def attempt_def send_def answer_def)

lemma refused_shape:
  assumes "ensureAuthSecret v j a art h = (es, h', Inl e)"
  shows "(\<exists>x. es = [x]) \<or> (\<exists>m d e2. existing_secret v = Inr (True, d) \<and>
    es = [(StoreSecret j a art, Some (AlreadyExists m)), (StoreSecret j a art, Some e2)])"
  using assms unfolding ensureAuthSecret_def
  by (cases "secret_created v"; cases "existing_secret v"; cases "secret_patched v")
    (auto simp: and_do_def attempt_def send_def ret_def stop_def give_up_def answer_def split: api_error.splits if_splits)

lemma refused_store:
  assumes "ensureAuthSecret v j a art h = (es, h', Inl e)"
  shows "fold (secret_after v) (take n es) None \<in> {None, fold (secret_after v) es None}"
  using refused_shape [OF assms]
proof
  assume "\<exists>x. es = [x]"
  then show ?thesis by (cases n) auto
next
  assume "\<exists>m d e2. existing_secret v = Inr (True, d) \<and>
    es = [(StoreSecret j a art, Some (AlreadyExists m)), (StoreSecret j a art, Some e2)]"
  then obtain m d e2 where d: "existing_secret v = Inr (True, d)"
    and es: "es = [(StoreSecret j a art, Some (AlreadyExists m)), (StoreSecret j a art, Some e2)]" by blast
  have "secret_after v (StoreSecret j a art, Some e2) (Some d) = Some d" using d by (cases e2; cases d) auto
  with d es show ?thesis by (cases n; cases "n - 1") auto
qed

lemma store_sent: "\<exists>ans. (StoreSecret j a art, ans) \<in> set (fst (ensureAuthSecret v j a art h))"
  unfolding ensureAuthSecret_def and_do_def attempt_def send_def by (auto split: prod.splits sum.splits)

lemma settled_refused:
  assumes "ensureAuthSecret (secret_stored view) j a art h = (es, h', Inl e)" and "t \<in> set ts"
  shows "settled view t (es @ fst ((stop_revoking view ts e' :: 'a act) h'))"
proof -
  let ?es' = "fst ((stop_revoking view ts e' :: 'a act) h')" and ?fold = "\<lambda>es. fold (secret_after (secret_stored view)) es None"
  have quiet: "list_all (\<lambda>x. \<not> about_secret (fst x)) ?es'" and asked: "(RevokeToken t, token_revoked view t) \<in> set ?es'"
    using assms(2) by (auto simp: stop_revoking_def revoke_installations_def and_do_def attempt_def revoke_all_def ret_def give_up_def list_all_iff)
  then have "list_all (\<lambda>x. \<not> about_secret (fst x)) (take n ?es')" for n by (auto simp: list_all_iff dest: in_set_takeD)
  then have "?fold (take n (es @ ?es')) = ?fold (take n es)" "?fold (es @ ?es') = ?fold es" for n
    using quiet by (simp_all add: secret_untouched)
  with refused_store [OF assms(1)] have "?fold (take n (es @ ?es')) \<in> {None, ?fold (es @ ?es')}" for n by metis
  then have "ever_in_secret view t (es @ ?es') \<Longrightarrow> in_secret view t (es @ ?es')"
    unfolding ever_iff in_secret_def by (metis holds_token.simps(1) insertE singletonD)
  with asked show ?thesis by (auto simp: settled_def list_ex_iff)
qed

text \<open>What is settled if the reads of the secret are right.\<close>

definition kept :: "ExecView \<Rightarrow> string \<Rightarrow> trace \<Rightarrow> bool" where
  "kept view t es \<longleftrightarrow> (list_all (reads_back es) (late_reads view) \<longrightarrow> settled view t es)"

lemma keptI: "settled view t es \<Longrightarrow> kept view t es"
  by (simp add: kept_def)

lemma reads_back_append: "reads_back (es @ es') s \<Longrightarrow> reads_back es s \<and> reads_back es' s"
  by (auto simp: reads_back_def)

lemma reads_backD:
  assumes "reads_back es s" and "(StoreSecret j a art, ans) \<in> set es" and "t = j \<or> t = a"
  shows "reads_token t s"
proof -
  have "has_github s" "case got_secret s of Inl _ \<Rightarrow> True | Inr (_, j', a') \<Rightarrow> j' = j \<and> a' = a"
    using assms(1,2) unfolding reads_back_def list_all_iff by fastforce+
  with assms(3) show ?thesis by (auto simp: reads_token_def split: sum.splits prod.splits)
qed

lemma kept_after: "list_all (\<lambda>x. \<not> is_store (fst x)) es \<Longrightarrow> kept view t es' \<Longrightarrow> kept view t (es @ es')"
  unfolding kept_def by (auto simp: list_all_iff dest!: reads_back_append intro!: settled_after)

lemma kept_and_do:
  assumes "never is_store m" and "\<And>y h'. snd (m h) = (h', Inr y) \<Longrightarrow> kept view t (fst (k y h'))"
    and "\<And>e h'. snd (m h) \<noteq> (h', Inl e)"
  shows "kept view t (fst (and_do m k h))"
proof -
  obtain es h' r where m: "m h = (es, h', r)" by (cases "m h")
  with assms(3) obtain y where "r = Inr y" by (cases r) auto
  with m assms(2) [of h' y] kept_after [OF unstored [OF assms(1)], of view t "fst (k y h')" h] show ?thesis
    by (cases "k y h'") (simp add: and_do_def)
qed

lemma kept_stop_revoking: "t \<in> set ts \<Longrightarrow> kept view t (fst (stop_revoking v ts e h))"
  by (intro keptI settled_stop_revoking)

lemma kept_revoked: "t \<in> set ts \<Longrightarrow> (\<And>y. never is_store (k y)) \<Longrightarrow> kept view t (fst (and_do (revoke_installations v ts) k h))"
  by (intro keptI settled_revoked)

lemma kept_unless_cancelled:
  "t \<in> set ts \<Longrightarrow> kept view t (fst (k job)) \<Longrightarrow> kept view t (fst (unless_cancelled v request run ts k job))"
  unfolding unless_cancelled_def
  by (auto intro!: kept_stop_revoking kept_revoked never_intros store.never_cancel split: sum.splits option.splits)

lemma kept_with_services:
  "t \<in> set ts \<Longrightarrow> (\<And>art access. kept view t (fst (k art access job))) \<Longrightarrow>
   kept view t (fst (with_services env v run source plan deadline ts k job))"
  unfolding with_services_def by (auto simp: kept_stop_revoking split: sum.splits option.splits)

lemma kept_with_archive:
  assumes "t \<in> set ts" and "\<And>h. kept view t (fst (k h))"
  shows "kept view t (fst (with_archive env v ts k job))"
proof -
  have "kept view t (fst (and_do (attempt (send (PatchArchive x) a)) (\<lambda>r. case r of Inl e \<Rightarrow> stop_revoking v ts (f e) | Inr _ \<Rightarrow> k) job))" for x a f
  proof (rule kept_and_do)
    show "never is_store (attempt (send (PatchArchive x) a))" by (intro never_intros) simp
  qed (auto intro: kept_stop_revoking assms simp: attempt_def split: sum.splits prod.splits)
  then show ?thesis unfolding with_archive_def Let_def by (simp add: assms(2))
qed

lemma kept_store:
  assumes "t \<in> set (token # (case action of None \<Rightarrow> [] | Some t \<Rightarrow> [t]))" and "t \<noteq> []"
  shows "kept view t (fst (store_and_launch env view run source token action deadline art access h))"
proof -
  let ?ts = "token # (case action of None \<Rightarrow> [] | Some t \<Rightarrow> [t])" and ?a = "case action of None \<Rightarrow> [] | Some t \<Rightarrow> t"
  obtain es h' r where ensure: "ensureAuthSecret (secret_stored view) token ?a art h = (es, h', r)"
    by (cases "ensureAuthSecret (secret_stored view) token ?a art h")
  show ?thesis
  proof (cases r)
    case (Inl e)
    then have "fst (store_and_launch env view run source token action deadline art access h) = es @ fst ((stop_revoking view ?ts e :: bool act) h')"
      unfolding store_and_launch_def and_do_def attempt_def ensure by (simp split: prod.split)
    then show ?thesis by (simp only:) (rule keptI, rule settled_refused [OF ensure [unfolded Inl] assms(1)])
  next
    case (Inr u)
    then have trace: "fst (store_and_launch env view run source token action deadline art access h) = es @ fst (launch env view run source deadline access h')"
      unfolding store_and_launch_def and_do_def attempt_def ensure by (simp split: prod.split)
    obtain ans where sent: "(StoreSecret token ?a art, ans) \<in> set es" using store_sent [of token ?a art "secret_stored view" h] ensure by auto
    have held: "t = token \<or> t = ?a" using assms(1) by (auto split: option.splits)
    have "in_secret view t es" using stored_secret [of "secret_stored view"] ensure Inr held by (simp add: in_secret_def)
    moreover have "reads_token t s"
      if "list_all (reads_back (es @ fst (launch env view run source deadline access h'))) (late_reads view)" "s \<in> set (late_reads view)" for s
      using that reads_backD [OF _ sent held] reads_back_append by (metis list_all_iff)
    ultimately show ?thesis
      unfolding kept_def trace by (blast intro: settled_stored careful_launch [OF _ assms(2)])
  qed
qed

lemma kept_prepare:
  assumes "t = token \<or> Some t = action" and "t \<noteq> []"
  shows "kept view t (fst (prepare env view run source plan token action deadline job))"
proof -
  let ?ts = "token # (case action of None \<Rightarrow> [] | Some t \<Rightarrow> [t])"
  have t: "t \<in> set ?ts" using assms(1) by (auto split: option.splits)
  show ?thesis
    unfolding prepare_def Let_def
    by (intro kept_unless_cancelled kept_with_services kept_with_archive t kept_store [OF t assms(2)])
qed

subsection \<open>The issue\<close>

fun is_issue :: "request \<Rightarrow> bool" where
  "is_issue (IssueToken t) = True"
| "is_issue _ = False"

interpretation issue: late_request is_issue
  by unfold_locales simp_all

lemma prepare_issues_nothing: "(IssueToken t, a) \<notin> set (fst (prepare env view run source plan token action deadline job))"
proof
  let ?x = "(IssueToken t, a)"
  have P: "is_issue (fst ?x)" by simp
  let ?ts = "token # (case action of None \<Rightarrow> [] | Some t \<Rightarrow> [t])"
  assume "?x \<in> set (fst (prepare env view run source plan token action deadline job))"
  then have "?x \<in> set (fst (with_services env view run source plan deadline ?ts (\<lambda>art access.
      with_archive env view ?ts (store_and_launch env view run source token action deadline art access)) job))"
    unfolding prepare_def Let_def by (rule conjunct2 [OF issue.sent_unless_cancelled [OF _ P]])
  then obtain art access where
    "?x \<in> set (fst (with_archive env view ?ts (store_and_launch env view run source token action deadline art access) job))"
    by (rule issue.sent_with_services [OF _ P])
  then have x: "?x \<in> set (fst (store_and_launch env view run source token action deadline art access job))"
    by (rule issue.sent_with_archive [OF _ P])
  have create: "never is_issue (createNativeJob v b)" for v b
    unfolding createNativeJob_def Let_def by (auto intro!: never_intros split: option.splits)
  have start: "never is_issue (start_native env view b)" for b
    unfolding start_native_def updateWorkflowJobStatus_def
    by (intro never_intros create)
      (auto intro!: never_intros issue.never_observe issue.never_cleanup split: sum.splits failure.splits api_error.splits option.splits)
  have "never is_issue (launch env view run source deadline access)"
    unfolding launch_def Let_def
    by (intro never_intros) (auto intro!: never_intros issue.never_cleanup issue.never_cancel start split: option.splits sum.splits)
  then have "never is_issue (store_and_launch env view run source token action deadline art access)"
    unfolding store_and_launch_def
    by (intro never_intros issue.never_ensure) (auto intro!: issue.never_stop_revoking split: sum.splits)
  with x P show False unfolding never_def by blast
qed

lemma kept_start:
  assumes "t = token \<or> Some t = action" and "t \<noteq> []"
  shows "kept view t (fst (start_tokens view (prepare env view run source plan) token action exps job))"
  using assms unfolding start_tokens_def Let_def
  by (auto intro!: kept_revoked kept_prepare store.never_fail)

text \<open>An action after which every token issued in it is settled.\<close>

definition safe :: "ExecView \<Rightarrow> string \<Rightarrow> (WorkflowJob, 'a) action \<Rightarrow> bool" where
  "safe view t m \<longleftrightarrow> (\<forall>h a. (IssueToken t, a) \<in> set (fst (m h)) \<longrightarrow> kept view t (fst (m h)))"

fun commits :: "request \<Rightarrow> bool" where
  "commits (IssueToken t) = True"
| "commits (StoreSecret j a art) = True"
| "commits _ = False"

interpretation early: job_request commits
  by unfold_locales simp_all

lemma safe_never: "never is_issue m \<Longrightarrow> safe view t m"
  unfolding safe_def never_def by (metis fst_conv is_issue.simps(1))

lemma safe_uncommitted: "never commits m \<Longrightarrow> safe view t m"
  unfolding safe_def never_def by (metis fst_conv commits.simps(1))

lemma safe_and_do:
  assumes "never commits m" and "\<And>x. safe view t (k x)"
  shows "safe view t (and_do m k)"
  unfolding safe_def
proof (intro allI impI)
  fix h a
  assume sent: "(IssueToken t, a) \<in> set (fst (and_do m k h))"
  obtain es h' r where m: "m h = (es, h', r)" by (cases "m h")
  have "list_all (\<lambda>x. \<not> commits (fst x)) es" using assms(1) m unfolding never_def list_all_iff by (metis fst_conv)
  then have quiet: "list_all (\<lambda>x. \<not> is_store (fst x)) es" "(IssueToken t, a) \<notin> set es"
    by (auto simp: list_all_iff elim!: is_store.elims(2))
  show "kept view t (fst (and_do m k h))"
  proof (cases r)
    case (Inl e)
    with sent m quiet(2) show ?thesis by (simp add: and_do_def)
  next
    case (Inr y)
    obtain es' r' where k: "k y h' = (es', r')" by (cases "k y h'")
    with m Inr have trace: "fst (and_do m k h) = es @ es'" by (simp add: and_do_def)
    have "kept view t es'" using sent trace quiet(2) assms(2) [of y] k unfolding safe_def by (metis Un_iff fst_conv set_append)
    then show ?thesis unfolding trace by (rule kept_after [OF quiet(1)])
  qed
qed

lemma safe_with_tokens:
  assumes "t \<noteq> []"
  shows "safe view t (with_tokens env view run plan (prepare env view run source plan))"
proof -
  let ?k = "prepare env view run source plan"
  have send: "kept view t (fst (and_do (send (IssueToken t') None) (\<lambda>_. k) h))" if "kept view t (fst (k h))" for t' h and k :: "bool act"
  proof (rule kept_and_do)
    show "never is_store (send (IssueToken t') None)" by (intro never_intros) simp
  qed (use that in \<open>auto simp: send_def\<close>)
  have token: "kept view t (fst (with_action_token env view run plan ?k t expires h))" for expires h
    unfolding with_action_token_def
    by (auto intro!: kept_start kept_stop_revoking send assms split: sum.splits)
  have started: "(IssueToken t, a) \<notin> set (fst (start_tokens view ?k token action exps h))" for a token action exps h
  proof -
    have "never is_issue (and_do (revoke_installations view ts) (\<lambda>_. fail_job view r m))" for ts r m
      by (intro never_intros issue.never_revoke issue.never_fail)
    then have "(IssueToken t, a) \<notin> set (fst (and_do (revoke_installations view ts) (\<lambda>_. fail_job view r m) h))" for ts r m
      unfolding never_def by (metis fst_conv is_issue.simps(1))
    then show ?thesis by (simp add: start_tokens_def Let_def prepare_issues_nothing)
  qed
  have action: "kept view t (fst (with_action_token env view run plan ?k token expires h))"
    if "(IssueToken t, a) \<in> set (fst (with_action_token env view run plan ?k token expires h))" for token expires h a
    using that unfolding with_action_token_def
    by (auto intro!: kept_start send assms simp: started split: sum.splits if_splits
        dest: issue.stop_revoking_silent sent_either) (auto simp: send_def started intro!: kept_start send assms dest!: sent_either)
  have both: "kept view t (fst (and_do (send (IssueToken token) None) (\<lambda>_. with_action_token env view run plan ?k token expires) h))"
    if "(IssueToken t, a) \<in> set (fst (and_do (send (IssueToken token) None) (\<lambda>_. with_action_token env view run plan ?k token expires) h))" for token expires h a
  proof (rule send)
    have "t = token \<or> (IssueToken t, a) \<in> set (fst (with_action_token env view run plan ?k token expires h))"
      using that by (auto dest!: sent_either simp: send_def)
    then show "kept view t (fst (with_action_token env view run plan ?k token expires h))" using token action by blast
  qed
  have "never is_issue (handleJobTokenCreationError view e)" for e
    unfolding handleJobTokenCreationError_def by (auto intro!: never_intros issue.never_fail split: token_error.splits)
  then show ?thesis
    unfolding with_tokens_def
    by (auto intro: safe_never split: sum.splits) (auto simp: safe_def intro: both)
qed

lemma safe_holding: "(\<And>h. safe view t (f h)) \<Longrightarrow> safe view t (holding f)"
  by (simp add: safe_def)

lemma safe_unless_cancelled: "safe view t k \<Longrightarrow> safe view t (unless_cancelled v request run ts k)"
  unfolding unless_cancelled_def
  by (rule safe_holding)
    (auto intro!: safe_never never_intros issue.never_stop_revoking issue.never_revoke issue.never_cancel split: sum.splits option.splits)

lemma safe_with_plan: "(\<And>plan. safe view t (k plan)) \<Longrightarrow> safe view t (with_plan env v k)"
  unfolding with_plan_def Let_def
  by (auto intro!: safe_holding safe_never [OF issue.never_fail] safe_never [OF never_stop] split: sum.splits failure.splits api_error.splits)

lemma safe_with_values: "safe view t k \<Longrightarrow> safe view t (with_values env v run source k)"
  unfolding with_values_def Let_def
  by (intro safe_and_do early.never_snapshot)
    (auto intro: safe_never [OF never_stop] split: option.splits sum.splits prod.splits)

lemma safe_unless_launched: "safe view t k \<Longrightarrow> safe view t (unless_launched env v run k)"
  unfolding unless_launched_def
  by (intro safe_and_do early.never_observe)
    (auto intro!: safe_unless_cancelled safe_holding safe_and_do never_answer safe_never [OF issue.never_fail] safe_never [OF never_stop] safe_never [OF never_give_up]
      safe_never [OF never_ret] split: option.splits)

lemma safe_execution:
  assumes "t \<noteq> []"
  shows "safe view t (executeWorkflowJob env view)"
proof -
  have "safe view t (case y of (run, source) \<Rightarrow>
      if ProjectRef (Spec run) \<noteq> project_name env then stop (Failed ''WorkflowJob belongs to another Project'')
      else if \<not> controlled_by_run view then stop (Failed ''WorkflowJob is not controlled by WorkflowRun'')
      else unless_launched env view run (with_plan env view (\<lambda>plan.
        with_values env view run source (with_tokens env view run plan (prepare env view run source plan)))))" for y
    by (auto intro!: safe_unless_launched safe_with_plan safe_with_values safe_with_tokens assms intro: safe_never [OF never_stop] split: prod.splits)
  then show ?thesis
    unfolding executeWorkflowJob_def with_run_def by (intro safe_and_do never_answer)
qed

text \<open>
  C6. No GitHub token of an execution is lost, on any path and with any errors of GitHub and the API server. Take a token that GitHub issued
  to the execution. If it was in the secret of the job at any moment, then at the end it is in the secret still, from which it is revoked
  when the job ends, or GitHub has confirmed its revocation: the secret is deleted only after that. If it never got into the secret, the
  execution asked GitHub to revoke it; that answer is not looked at, so a token refused then lives on until it expires. Assumed is that the reads
  of the secret after the store answer what was stored, or fail: the client of the controller reads Secrets from the API server, and no one
  else writes that secret. Tokens are not empty, as the GitHub client checks.
\<close>

theorem no_token_is_lost:
  assumes "executeWorkflowJob env view job = (es, job', r)" and "(IssueToken t, a) \<in> set es" and "t \<noteq> []"
    and "list_all (reads_back es) (late_reads view)"
  shows "if ever_in_secret view t es then in_secret view t es \<or> (RevokeToken t, None) \<in> set es
    else list_ex (\<lambda>(req, ans). req = RevokeToken t) es"
  using assms safe_execution [OF assms(3), of view env] unfolding safe_def kept_def settled_def by (metis fst_conv)

section \<open>Witnesses\<close>

text \<open>A job whose native Job completed and left a result document.\<close>

definition demo_secret :: SecretView where
  "demo_secret = \<lparr>got_secret = Inl (NotFound []), has_github = True, secret_revoked = (\<lambda>_. None), secret_deleted = None\<rparr>"

definition demo_complete :: CompleteView where
  "demo_complete = \<lparr>complete_updated = None, complete_secret = demo_secret\<rparr>"

definition demo_job :: WorkflowJob where
  "demo_job = \<lparr>job_name = ''j'', job_uid = ''ju'', job_run_label = ''r'', WorkflowRunRef = ''r'', JobID = ''build'', Needs = [], If = [], ContinueOnError = False,
     job_concurrency_policy = None, Matrix = None, Result = NoResult, RunnerRef = Some ''w'', job_start = None, job_completion = None, Outputs = [],
     job_concurrency = None, job_conditions = []\<rparr>"

definition demo_native :: BatchJob where
  "demo_native = \<lparr>nj_uid = ''n'', nj_owner = Some ''ju'', nj_conditions = [\<lparr>jc_type = ''Complete'', jc_true = True, jc_reason = []\<rparr>],
     ActiveDeadlineSeconds = Some 60, nj_start = Some 0, nj_completion = Some 7, result_version_annotation = ''2'', deadline_annotation = ''execution''\<rparr>"

definition demo_pod :: WorkflowPod where
  "demo_pod = \<lparr>pod_owner = Some ''n'', pod_phase = ''Succeeded'', pod_conditions = [],
     containers = [(''runner'', \<lparr>cs_running = None, cs_terminated = Some (Some 1, ''doc'')\<rparr>)]\<rparr>"

definition demo_decode :: "string \<Rightarrow> string + RunnerResult" where
  "demo_decode data = (if data = ''doc'' then Inr \<lparr>res_version = 2, Conclusion = ''success'', res_outputs = [(''digest'', ''ab'')]\<rparr> else Inl [])"

definition demo_look :: "api_error + BatchJob \<Rightarrow> WorkflowPod list \<Rightarrow> NativeView" where
  "demo_look native ps = \<lparr>native_cached = native, native_live = native, pods_listed = Inr ps, deadline_patched = None, status_updated = None,
     native_secret = demo_secret\<rparr>"

definition demo_cancel :: CancelView where
  "demo_cancel = \<lparr>cancel_cached = Inl (NotFound []), cancel_live = Inl (NotFound []), cancel_deleted = None, cancel_complete = demo_complete,
     cancel_secret = demo_secret\<rparr>"

definition demo_request :: RequestedView where
  "demo_request = \<lparr>current_job = Inr (''ju'', False, demo_job), current_run = Inr (''ru'', False), cancel_view = demo_cancel\<rparr>"

definition demo_spec :: WorkflowRunSpec where
  "demo_spec = \<lparr>ProjectRef = ''p'', Source = None, WorkflowPath = ''ci.yml'', fork_pull_request = None, Approval = None, CancelRequested = False, Rerun = None,
     TTLSecondsAfterFinished = None\<rparr>"

definition exec_demo_run :: WorkflowRun where
  "exec_demo_run = \<lparr>run_name = ''r'', run_namespace = ''ns'', run_uid = ''ru'', run_created = 0, run_labels = [], run_annotations = [], Spec = demo_spec,
     run_concurrency = None, ConcurrencyGroup = [], WorkflowName = [], Jobs = None, run_start = None, run_completion = None, run_conditions = []\<rparr>"

definition demo_source :: JobSource where
  "demo_source = \<lparr>src_owner = ''o'', src_name = ''n'', src_id = 1, src_event = ''push'', src_ref = ''refs/heads/main'', src_refs = ([], []), src_pull_request = None\<rparr>"

definition demo_step :: "nat PlanStep" where
  "demo_step = \<lparr>step_id = [], step_name = [], step_uses = ''actions/checkout'', step_run = [], step_directory = [], step_with = [], step_env = [], step_if = [],
     step_continue = NilAny\<rparr>"

definition demo_plan :: "nat Plan" where
  "demo_plan = \<lparr>plan_version = 4, CacheMode = [], plan_run = \<lparr>run_id = 1, run_number = 1, run_attempt = 1, run_actor = ''a''\<rparr>,
     plan_repository = \<lparr>repo_id = 1, repo_owner = ''o'', repo_name = ''n'', ServerURL = ''s'', APIURL = ''a'', ActionCloneBaseURL = ''s''\<rparr>,
     plan_event = ''push'', DeliveryID = ''d'',
     plan_revision = \<lparr>rev_sha = ''h'', rev_head_sha = [], rev_base_sha = [], rev_merge_base_sha = [], rev_ref = ''refs/heads/main'', rev_ref_name = ''main''\<rparr>,
     plan_inputs = [], plan_workflow_name = ''CI'', plan_workflow_path = ''ci.yml'', plan_job_id = ''build'', has_matrix = False, has_strategy = False,
     plan_env = [], plan_outputs = [], GitHubTokenPermissions = None, TimeoutSeconds = 60, CleanupTimeoutSeconds = 60, plan_steps = [demo_step]\<rparr>"

definition demo_runner :: Runner where
  "demo_runner = \<lparr>runner_name = ''w'', runner_uid = ''wu'', runner_deleting = False, runner_labels = [], WorkflowJobRef = Some ''j'', runner_conditions = []\<rparr>"

definition exec_demo_env :: "nat ExecEnv" where
  "exec_demo_env = \<lparr>conf = \<lparr>MaxJobTimeout = 0, CacheEnabled = False, ArtifactResultsURL = [], ArtifactMaxRetentionDays = 7\<rparr>, child_name = (\<lambda>a b. a @ b),
     decode_result = demo_decode, decode_plan = (\<lambda>_. Inr demo_plan), decode_needs = (\<lambda>_. Inl []), event_object = (\<lambda>_. True),
     url_parts = (\<lambda>u. Some (''https'', u)), the_runner = demo_runner,
     execution = \<lparr>ex_resources = None, ex_pull_secrets = [], ex_grace = None,
       ex_runner = \<lparr>rc_image = ''i'', rc_pull_policy = [], rc_env = [], rc_resources = None\<rparr>, ex_docker = None\<rparr>,
     project_name = ''p'', the_project = \<lparr>pv_uid = ''pu'', pv_secrets = None, pv_variables = None, pv_repositories = []\<rparr>, key_name = ''key'',
     planned = \<lparr>jp_label = ''build'', jp_display_name = [], jp_result_version = ''2'', jp_timeout_seconds = 60, jp_project_label = ''pu'', jp_archive = None\<rparr>\<rparr>"

definition demo_exec :: "api_error option \<Rightarrow> ExecView" where
  "demo_exec native_error = \<lparr>exec_now = 0, got_run = Inr (exec_demo_run, demo_source), controlled_by_run = True, first_look = demo_look (Inl (NotFound [])) [],
     first_request = demo_request, fail_view = demo_complete, active_listed = Inr [], got_plan = Inr (True, ''plan''), got_needs = Inl (Failed []),
     snapshots = (\<lambda>_. Inl (Failed [])), secrets_of = (\<lambda>_. Inr []), configs_of = (\<lambda>_. Inr ([], False)), got_key = Inr [(''key'', ''k'')],
     got_job_token = (\<lambda>_. Inr (''t1'', Some (60 * minute))), got_action_token = (\<lambda>_. Inr (''t2'', None)), token_revoked = (\<lambda>_. None),
     second_request = demo_request, got_repository = Inl (Failed []), codec = None, archive_patched = None,
     secret_stored = \<lparr>secret_created = None, existing_secret = Inl (Failed []), secret_patched = None\<rparr>, job_built = None, late_secret = demo_secret,
     third_request = demo_request, creation = \<lparr>native_tried = None, tried_resources = None, native_created = native_error\<rparr>,
     second_look = demo_look (Inl (NotFound [])) [], created_updated = None\<rparr>"

lemma demo_observed: "snd (snd (observeNativeJob demo_decode minute 9 (demo_look (Inr demo_native) [demo_pod]) demo_job)) = Inr (True, True, None)"
  by code_simp

lemma run_eq: "snd (snd x) = r \<Longrightarrow> x = (fst x, fst (snd x), r)"
  by (metis prod.collapse)

theorem job_ends_with_native_job_witness:
  "Result (fst (snd (observeNativeJob demo_decode minute 9 (demo_look (Inr demo_native) [demo_pod]) demo_job))) = Success \<and>
   Outputs (fst (snd (observeNativeJob demo_decode minute 9 (demo_look (Inr demo_native) [demo_pod]) demo_job))) = [(''digest'', ''ab'')]"
proof -
  have native: "getNativeJob (native_cached (demo_look (Inr demo_native) [demo_pod])) (native_live (demo_look (Inr demo_native) [demo_pod])) = Inr demo_native"
    "pods_listed (demo_look (Inr demo_native) [demo_pod]) = Inr [demo_pod]"
    by (simp_all add: demo_look_def getNativeJob_def)
  have ended: "jobTerminal demo_native" "execution_result demo_decode demo_native (owned_pod demo_native [demo_pod]) =
      (Some \<lparr>res_version = 2, Conclusion = ''success'', res_outputs = [(''digest'', ''ab'')]\<rparr>, False)"
    by code_simp+
  have "Result (fst (snd (observeNativeJob demo_decode minute 9 (demo_look (Inr demo_native) [demo_pod]) demo_job))) = native_verdict demo_native ''success'' \<and>
      Outputs (fst (snd (observeNativeJob demo_decode minute 9 (demo_look (Inr demo_native) [demo_pod]) demo_job))) = [(''digest'', ''ab'')]"
    using job_ends_with_native_job [OF native run_eq [OF demo_observed]] ended by (simp add: reported_def)
  then show ?thesis by (simp add: native_verdict_def)
qed

theorem deadline_leaves_the_timeout_witness:
  "reconcileNativeJobDeadline (90 * second) demo_native (Some (3 * second + 1)) =
     Some (demo_native\<lparr>ActiveDeadlineSeconds := Some 394\<rparr>) \<and>
   3 * second + 1 + 90 * second + CleanupTimeout \<le> 0 + 394 * second"
proof -
  have started: "nj_start demo_native = Some 0" by (simp add: demo_native_def)
  have set: "reconcileNativeJobDeadline (90 * second) demo_native (Some (3 * second + 1)) = Some (demo_native\<lparr>ActiveDeadlineSeconds := Some 394\<rparr>)"
    by code_simp
  with deadline_leaves_the_timeout [OF started set] show ?thesis by (simp add: second_def)
qed

theorem native_job_created_when_safe_witness:
  "\<exists>built d. (CreateNative built, None) \<in> set (fst (executeWorkflowJob exec_demo_env (demo_exec None) demo_job)) \<and>
     ActiveDeadlineSeconds (built_job built) = Some d \<and> 1 \<le> d \<and> d * second \<le> nativeJobStartDeadline"
proof -
  let ?es = "fst (executeWorkflowJob exec_demo_env (demo_exec None) demo_job)"
  have "list_ex (\<lambda>(req, ans). is_create req \<and> ans = None) ?es" by code_simp
  then obtain built where created: "(CreateNative built, None) \<in> set ?es"
    unfolding list_ex_iff by (auto elim: is_create.elims)
  with native_job_created_when_safe [OF run_eq [OF refl] created] show ?thesis by blast
qed

text \<open>The creation of the native Job fails, and in the clean-up GitHub does not revoke the first of the two tokens: the secret stays.\<close>

definition demo_failing :: ExecView where
  "demo_failing = (demo_exec (Some (Failed ''quota'')))\<lparr>late_secret := demo_secret\<lparr>got_secret := Inr (True, ''t1'', ''t2''),
     secret_revoked := (\<lambda>t. if t = ''t1'' then Some (Failed ''unavailable'') else None)\<rparr>\<rparr>"

theorem no_token_is_lost_witness:
  "in_secret demo_failing ''t1'' (fst (executeWorkflowJob exec_demo_env demo_failing demo_job))"
proof -
  let ?es = "fst (executeWorkflowJob exec_demo_env demo_failing demo_job)"
  have "list_ex (\<lambda>(req, ans). req = IssueToken ''t1'' \<and> ans = None) ?es" by code_simp
  then have issued: "(IssueToken ''t1'', None) \<in> set ?es" unfolding list_ex_iff by auto
  have reads: "list_all (reads_back ?es) (late_reads demo_failing)" by code_simp
  have "ever_in_secret demo_failing ''t1'' ?es" "list_all (\<lambda>(req, ans). req = RevokeToken ''t1'' \<longrightarrow> ans \<noteq> None) ?es" by code_simp+
  then show ?thesis
    using no_token_is_lost [OF run_eq [OF refl] issued _ reads] by (auto simp: list_all_iff)
qed

end
