(* ===== verification/RunnerSafety.thy ===== *)
theory RunnerSafety
  imports JobSafety
begin

text \<open>
  A Runner keeps its job until the job has ended: the reconciliation of a Runner drops its reference only after it has ended the WorkflowJob.
\<close>

section \<open>What the held job can become\<close>

definition stays :: "('s \<Rightarrow> bool) \<Rightarrow> ('s, 'a) action \<Rightarrow> bool" where
  "stays I m \<longleftrightarrow> (\<forall>h. I h \<longrightarrow> I (fst (snd (m h))))"

named_theorems stays_intros

lemma stays_keeps: "keeps m \<Longrightarrow> stays I m"
  by (simp add: stays_def keeps_def)

lemma stays_and_do [stays_intros]: "stays I m \<Longrightarrow> (\<And>x. stays I (k x)) \<Longrightarrow> stays I (and_do m k)"
  unfolding stays_def and_do_def by (auto split: prod.splits sum.splits) (metis fst_conv snd_conv)+

lemma stays_attempt [stays_intros]: "stays I m \<Longrightarrow> stays I (attempt m)"
  unfolding stays_def attempt_def by (auto split: prod.splits)

lemma stays_holding [stays_intros]: "(\<And>h. stays I (f h)) \<Longrightarrow> stays I (holding f)"
  by (simp add: stays_def)

lemma stays_put_status [stays_intros]: "(\<And>j j'. I j \<Longrightarrow> f j = Some j' \<Longrightarrow> I j') \<Longrightarrow> stays I (put_status f a)"
  by (auto simp: stays_def put_status_def send_def split: option.splits)

lemma staysD: "stays I m \<Longrightarrow> I h \<Longrightarrow> m h = (es, h', r) \<Longrightarrow> I h'"
  unfolding stays_def by (metis fst_conv snd_conv)

text \<open>The job has not been given up for not having started.\<close>

definition unexpired :: "WorkflowJob \<Rightarrow> bool" where
  "unexpired job \<longleftrightarrow> Result job \<noteq> Failure
     \<or> (case find_condition (job_conditions job) ''Succeeded'' of None \<Rightarrow> True | Some c \<Rightarrow> Message c = [] \<or> hd (Message c) \<noteq> CHR ''W'')"

lemma running_unexpired: "\<not> workflowJobTerminal job \<Longrightarrow> unexpired job"
  by (auto simp: unexpired_def workflowJobTerminal_def workflowJobResult_def)

lemma find_set_condition [simp]: "find_condition (set_condition cs t s r m) t = Some \<lparr>Status = s, Reason = r, Message = m\<rparr>"
  by (simp add: find_condition_def set_condition_def update_conv)

lemma concluded_message:
  "\<exists>c. find_condition (job_conditions (concluded now native start res invalid job)) ''Succeeded'' = Some c \<and> Message c \<noteq> [] \<and> hd (Message c) = CHR ''T''"
  unfolding concluded_def Let_def succeeded_def by simp

lemma stays_update [stays_intros]: "stays unexpired (updateWorkflowJobStatus now ans native pod start res)"
  unfolding updateWorkflowJobStatus_def
proof (simp split: prod.split, intro allI impI stays_put_status)
  fix r i j j'
  assume "status_of_native now j native pod start r i = Some j'"
  then obtain j0 where "j' = concluded now native start r i j0" by (rule status_of_native_fields)
  with concluded_message [of now native start r i j0] show "unexpired j'" by (auto simp: unexpired_def)
qed

lemma completed_fields:
  assumes "completed_job job result now reason message = Some job'"
  shows "Result job' = result" "find_condition (job_conditions job') ''Succeeded'' = Some \<lparr>Status = ConditionFalse, Reason = reason, Message = message\<rparr>"
  using assms by (auto simp: completed_job_def)

lemma stays_complete [stays_intros]:
  assumes "result = Cancelled \<or> message = [] \<or> hd message \<noteq> CHR ''W''"
  shows "stays unexpired (completeAssignedWorkflowJob now view result reason message)"
  unfolding completeAssignedWorkflowJob_def
  by (intro stays_intros stays_keeps [OF keeps_cleanup])
    (use assms in \<open>auto simp: unexpired_def dest: completed_fields\<close>)

lemma stays_unless_gone [stays_intros]: "keeps m \<Longrightarrow> stays I (unless_gone m)"
  by (rule stays_keeps) (rule keeps_unless_gone)

section \<open>The end of a job\<close>

text \<open>The held job has ended, and the API server took the end, or the job is gone.\<close>

definition ended_by :: "trace \<Rightarrow> WorkflowJob \<Rightarrow> bool" where
  "ended_by es job \<longleftrightarrow> workflowJobTerminal job \<and> ((WriteJob job, None) \<in> set es \<or> (\<exists>m. (WriteJob job, Some (NotFound m)) \<in> set es))"

lemma ended_by_mono: "ended_by es job \<Longrightarrow> set es \<subseteq> set es' \<Longrightarrow> ended_by es' job"
  unfolding ended_by_def by blast

text \<open>Errors that are not the configuration's.\<close>

definition plain :: "('s, 'a) action \<Rightarrow> bool" where
  "plain m \<longleftrightarrow> (\<forall>h e. snd (snd (m h)) = Inl e \<longrightarrow> (\<exists>a. e = Api a))"

named_theorems plain_intros

lemma plain_ret [plain_intros]: "plain (ret x)" by (simp add: plain_def ret_def)
lemma plain_stop [plain_intros]: "plain (stop x)" by (simp add: plain_def stop_def)
lemma plain_give_up [plain_intros]: "plain (give_up (Api a))" by (simp add: plain_def give_up_def)
lemma plain_answer [plain_intros]: "plain (answer x)" by (cases x) (simp_all add: plain_def answer_def)
lemma plain_send [plain_intros]: "plain (send r a)" by (cases a) (simp_all add: plain_def send_def)
lemma plain_attempt [plain_intros]: "plain (attempt m)" by (simp add: plain_def attempt_def split: prod.splits)
lemma plain_holding [plain_intros]: "(\<And>h. plain (f h)) \<Longrightarrow> plain (holding f)" by (simp add: plain_def)
lemma plain_revoke_all [plain_intros]: "plain (revoke_all f ts)" by (simp add: plain_def revoke_all_def)
lemma plain_put_status [plain_intros]: "plain (put_status f a)"
  by (cases a) (auto simp: plain_def put_status_def send_def split: option.splits)

lemma plain_and_do [plain_intros]: "plain m \<Longrightarrow> (\<And>x. plain (k x)) \<Longrightarrow> plain (and_do m k)"
  unfolding plain_def and_do_def by (auto split: prod.splits sum.splits) (metis snd_conv)+

lemma plain_after_attempt: "plain m \<Longrightarrow> (\<And>a. plain (k (Inl (Api a)))) \<Longrightarrow> (\<And>x. plain (k (Inr x))) \<Longrightarrow> plain (and_do (attempt m) k)"
  unfolding plain_def and_do_def attempt_def
  by (auto split: prod.splits sum.splits) (metis snd_conv sum.exhaust)

lemma plain_unless_gone [plain_intros]: "plain m \<Longrightarrow> plain (unless_gone m)"
  unfolding unless_gone_def
  by (erule plain_after_attempt) (auto intro!: plain_intros split: api_error.splits)

lemma plain_cleanup [plain_intros]: "plain (cleanupAuthSecret v)"
  unfolding cleanupAuthSecret_def by (auto intro!: plain_intros split: sum.splits api_error.splits)

lemma plain_complete [plain_intros]: "plain (completeAssignedWorkflowJob now v res reason m)"
  unfolding completeAssignedWorkflowJob_def by (intro plain_intros)

lemma plain_cancel [plain_intros]: "plain (cancelWorkflowJob now v c)"
proof -
  have last: "plain (and_do (attempt (completeAssignedWorkflowJob now (cancel_complete v) Cancelled (fst c) (snd c))) (\<lambda>r.
      case r of Inl (Api (NotFound _)) \<Rightarrow> cleanupAuthSecret (cancel_secret v) | Inl e \<Rightarrow> give_up e | Inr _ \<Rightarrow> ret ()))"
    by (rule plain_after_attempt [OF plain_complete]) (auto intro!: plain_intros split: api_error.splits)
  show ?thesis
    unfolding cancelWorkflowJob_def
    by (rule plain_holding, rule plain_and_do [OF _ last]) (auto intro!: plain_intros split: sum.splits api_error.splits)
qed

lemma plain_observe_controlled: "plain (observe_controlled unmarshal timeout now v native)"
  unfolding observe_controlled_def updateWorkflowJobStatus_def Let_def
  by (intro plain_intros) (auto intro!: plain_intros split: option.splits prod.splits)

section \<open>Soundness of an execution\<close>

text \<open>
  What an action promises of a job that has not ended: if it returns true, the job has ended; an error of the configuration leaves it
  running; and it is never given up for not having started.
\<close>

definition sound :: "bool act \<Rightarrow> bool" where
  "sound m \<longleftrightarrow> (\<forall>job es job' r. \<not> workflowJobTerminal job \<longrightarrow> m job = (es, job', r) \<longrightarrow>
     (r = Inr True \<longrightarrow> ended_by es job') \<and> (\<forall>a b. r = Inl (Misconfigured a b) \<longrightarrow> \<not> workflowJobTerminal job') \<and> unexpired job')"

named_theorems sound_intros

lemma sound_ret_False [sound_intros]: "sound (ret False)"
  by (simp add: sound_def running_unexpired)

lemma sound_stop [sound_intros]: "sound (stop e)"
  by (simp add: sound_def running_unexpired)

lemma sound_give_up [sound_intros]: "sound (give_up e)"
  by (auto simp: sound_def running_unexpired)

lemma sound_holding [sound_intros]: "(\<And>h. sound (f h)) \<Longrightarrow> sound (holding f)"
  by (simp add: sound_def)

lemma sound_after [sound_intros]:
  assumes "keeps m" and "\<And>x. sound (k x)"
  shows "sound (and_do m k)"
  unfolding sound_def
proof (intro allI impI)
  fix job es job' r
  assume job: "\<not> workflowJobTerminal job" and run: "and_do m k job = (es, job', r)"
  obtain es1 h1 a where m: "m job = (es1, h1, a)" by (cases "m job")
  from keepsD [OF assms(1) m] have h1: "h1 = job" .
  show "(r = Inr True \<longrightarrow> ended_by es job') \<and> (\<forall>a b. r = Inl (Misconfigured a b) \<longrightarrow> \<not> workflowJobTerminal job') \<and> unexpired job'"
  proof (cases a)
    case (Inl e)
    with run m h1 job show ?thesis by (auto simp: and_do_def running_unexpired)
  next
    case (Inr x)
    obtain es2 where k: "k x job = (es2, job', r)" and es: "es = es1 @ es2"
      using run m h1 Inr by (auto simp: and_do_def split: prod.splits)
    from assms(2) job k have "(r = Inr True \<longrightarrow> ended_by es2 job') \<and> (\<forall>a b. r = Inl (Misconfigured a b) \<longrightarrow> \<not> workflowJobTerminal job') \<and> unexpired job'"
      unfolding sound_def by blast
    with es show ?thesis by (auto intro: ended_by_mono)
  qed
qed

lemma completed_job_ends:
  assumes "\<not> workflowJobTerminal job" and "result \<noteq> NoResult"
    and "put_status (\<lambda>job. completed_job job result now reason message) ans job = (es, job', r)"
  shows "r = Inr () \<Longrightarrow> ended_by es job'" and "r = Inl (Api (NotFound m)) \<Longrightarrow> ended_by es job'"
proof -
  have t: "workflowJobTerminal j" if "completed_job job result now reason message = Some j" for j
    using completed_fields(1) [OF that] assms(2) by (simp add: workflowJobTerminal_def workflowJobResult_def)
  then show "r = Inr () \<Longrightarrow> ended_by es job'" "r = Inl (Api (NotFound m)) \<Longrightarrow> ended_by es job'"
    using assms(1,3) by (auto simp: put_status_def send_def ended_by_def no_runner_def split: option.splits if_splits)
qed

lemma complete_ends:
  assumes "\<not> workflowJobTerminal job" and "result \<noteq> NoResult"
    and "completeAssignedWorkflowJob now view result reason message job = (es, job', r)"
  shows "r = Inr () \<or> (\<exists>m. r = Inl (Api (NotFound m))) \<Longrightarrow> ended_by es job'"
proof -
  assume r: "r = Inr () \<or> (\<exists>m. r = Inl (Api (NotFound m)))"
  obtain es1 j1 a where put: "put_status (\<lambda>job. completed_job job result now reason message) (complete_updated view) job = (es1, j1, a)"
    by (cases "put_status (\<lambda>job. completed_job job result now reason message) (complete_updated view) job")
  show ?thesis
  proof (cases a)
    case (Inl e)
    with put assms(3) have "es = es1 \<and> job' = j1 \<and> r = a" by (simp add: completeAssignedWorkflowJob_def and_do_def)
    with r completed_job_ends(2) [OF assms(1,2) put] Inl show ?thesis by auto
  next
    case (Inr u)
    with put assms(3) obtain es2 where "cleanupAuthSecret (complete_secret view) j1 = (es2, job', r)" "es = es1 @ es2"
      by (auto simp: completeAssignedWorkflowJob_def and_do_def split: prod.splits)
    moreover from this(1) have "job' = j1" by (rule secret_cleanup_keeps)
    moreover have "ended_by es1 j1" by (rule completed_job_ends(1) [OF assms(1,2) put]) (simp add: Inr)
    ultimately show ?thesis by (auto intro: ended_by_mono)
  qed
qed

lemma sound_fail [sound_intros]:
  assumes "message = [] \<or> hd message \<noteq> CHR ''W''"
  shows "sound (fail_job view reason message)"
  unfolding sound_def
proof (intro allI impI)
  fix job es job' r
  assume job: "\<not> workflowJobTerminal job" and run: "fail_job view reason message job = (es, job', r)"
  obtain a where complete: "completeAssignedWorkflowJob (exec_now view) (fail_view view) Failure reason message job = (es, job', a)"
    and r: "r = map_sum id (\<lambda>_. True) a"
    using run by (auto simp: fail_job_def failAssignedWorkflowJob_def and_do_def ret_def split: prod.splits sum.splits)
  have "unexpired job'" by (rule staysD [OF stays_complete running_unexpired [OF job] complete]) (use assms in simp)
  moreover have "a \<noteq> Inl (Misconfigured x y)" for x y
    using plain_complete [of "exec_now view" "fail_view view" Failure reason message] complete unfolding plain_def by (metis failure.distinct(1) snd_conv)
  ultimately show "(r = Inr True \<longrightarrow> ended_by es job') \<and> (\<forall>a b. r = Inl (Misconfigured a b) \<longrightarrow> \<not> workflowJobTerminal job') \<and> unexpired job'"
    using complete_ends [OF job _ complete] r by (cases a) auto
qed

lemma cancel_ends:
  assumes "\<not> workflowJobTerminal job" and "cancelWorkflowJob now view c job = (es, job', Inr u)"
  shows "ended_by es job'"
proof -
  let ?last = "\<lambda>r. case r of Inl (Api (NotFound _)) \<Rightarrow> cleanupAuthSecret (cancel_secret view) | Inl e \<Rightarrow> give_up e | Inr _ \<Rightarrow> ret ()"
  let ?del = "case getNativeJob (cancel_cached view) (cancel_live view) of
      Inl (NotFound _) \<Rightarrow> ret ()
    | Inl e \<Rightarrow> stop e
    | Inr native \<Rightarrow> if nj_owner native \<noteq> Some (job_uid job) then stop not_controlled else unless_gone (send DeleteNative (cancel_deleted view))"
  have del: "keeps ?del" by (auto intro!: keeps_intros split: sum.splits api_error.splits)
  have run: "and_do ?del (\<lambda>_. and_do (attempt (completeAssignedWorkflowJob now (cancel_complete view) Cancelled (fst c) (snd c))) ?last) job =
      (es, job', Inr u)"
    using assms(2) by (simp only: cancelWorkflowJob_def holding_eq)
  obtain es1 j1 u1 es2 where del_run: "?del job = (es1, j1, Inr u1)"
    and rest: "and_do (attempt (completeAssignedWorkflowJob now (cancel_complete view) Cancelled (fst c) (snd c))) ?last j1 = (es2, job', Inr u)"
    and es: "es = es1 @ es2"
    using and_do_eq_Inr [THEN iffD1, OF run] by (elim exE conjE) (rule that)
  have j1: "j1 = job" by (rule keepsD [OF del del_run])
  from rest obtain es3 j3 a es4 where complete: "completeAssignedWorkflowJob now (cancel_complete view) Cancelled (fst c) (snd c) job = (es3, j3, a)"
    and last: "?last a j3 = (es4, job', Inr u)" and es2: "es2 = es3 @ es4"
    unfolding j1 and_do_eq_Inr attempt_eq by auto
  from last have "(a = Inr () \<or> (\<exists>m. a = Inl (Api (NotFound m)))) \<and> job' = j3"
    by (auto dest: secret_cleanup_keeps split: sum.splits failure.splits api_error.splits)
  then have "ended_by es3 job'" using complete_ends [OF assms(1) _ complete] by auto
  then show ?thesis by (rule ended_by_mono) (auto simp: es es2)
qed

lemma stays_cancel: "stays unexpired (cancelWorkflowJob now view c)"
  unfolding cancelWorkflowJob_def
  by (intro stays_intros) (auto intro!: stays_intros stays_keeps keeps_intros split: sum.splits failure.splits api_error.splits)

lemma sound_cancel [sound_intros]: "sound (and_do (cancelWorkflowJob now view c) (\<lambda>_. ret True))"
  unfolding sound_def
proof (intro allI impI)
  fix job es job' r
  assume job: "\<not> workflowJobTerminal job" and run: "and_do (cancelWorkflowJob now view c) (\<lambda>_. ret True) job = (es, job', r)"
  obtain a where cancel: "cancelWorkflowJob now view c job = (es, job', a)" and r: "r = map_sum id (\<lambda>_. True) a"
    using run by (auto simp: and_do_def ret_def split: prod.splits sum.splits)
  have "unexpired job'" by (rule staysD [OF stays_cancel running_unexpired [OF job] cancel])
  moreover have "a \<noteq> Inl (Misconfigured x y)" for x y
    using plain_cancel [of now view c] cancel unfolding plain_def by (metis failure.distinct(1) snd_conv)
  ultimately show "(r = Inr True \<longrightarrow> ended_by es job') \<and> (\<forall>a b. r = Inl (Misconfigured a b) \<longrightarrow> \<not> workflowJobTerminal job') \<and> unexpired job'"
    using cancel_ends [OF job] cancel r by (cases a) auto
qed

lemma keeps_revoke_installations [keeps_intros]: "keeps (revoke_installations v ts)"
  unfolding revoke_installations_def by (intro keeps_intros)

lemma sound_stop_revoking [sound_intros]: "sound (stop_revoking v ts e)"
  unfolding stop_revoking_def by (intro sound_intros keeps_intros)

lemma keeps_failing_after: "keeps m \<Longrightarrow> keeps (failing_after e m)"
  unfolding failing_after_def by (intro keeps_intros)

lemma sound_failing_after [sound_intros]: "keeps m \<Longrightarrow> sound (failing_after e m)"
  unfolding failing_after_def by (intro sound_intros keeps_intros)

lemma sound_unless_cancelled [sound_intros]: "sound k \<Longrightarrow> sound (unless_cancelled v request run ts k)"
  unfolding unless_cancelled_def
  by (rule sound_holding) (auto intro!: sound_intros keeps_intros split: sum.splits option.splits)

lemma running_no_result: "\<not> workflowJobTerminal job \<Longrightarrow> Result job = NoResult"
  by (auto simp: workflowJobTerminal_def workflowJobResult_def split: if_splits)

lemma native_verdict_result: "native_verdict native c \<noteq> NoResult"
  by (simp add: native_verdict_def)

lemma stays_observe_controlled: "stays unexpired (observe_controlled unmarshal timeout now view native)"
  unfolding observe_controlled_def Let_def
  by (intro stays_intros)
    (auto intro!: stays_intros stays_keeps keeps_intros split: option.splits)

lemma observe_ends:
  assumes "\<not> workflowJobTerminal job" and "observeNativeJob unmarshal timeout now view job = (es, job', r)"
  obtains found terminal err where "r = Inr (found, terminal, err)" "err = None \<Longrightarrow> terminal \<Longrightarrow> ended_by es job'"
    "err = None \<Longrightarrow> \<not> terminal \<Longrightarrow> \<not> workflowJobTerminal job'" "\<not> found \<Longrightarrow> job' = job \<and> \<not> terminal" "unexpired job'" "\<forall>f. err = Some f \<longrightarrow> (\<exists>a. f = Api a)"
proof (cases "getNativeJob (native_cached view) (native_live view)")
  case (Inl e)
  then have "job' = job \<and> r = Inr (False, False, case e of NotFound _ \<Rightarrow> None | _ \<Rightarrow> Some (Api e))"
    using assms(2) by (auto simp: observeNativeJob_def split: api_error.splits)
  with assms(1) show thesis by (intro that) (auto simp: running_unexpired split: api_error.splits)
next
  case (Inr native)
  show thesis
  proof (cases "nj_owner native = Some (job_uid job)")
    case False
    with Inr assms(2) have "job' = job \<and> r = Inr (False, False, Some (Api not_controlled))" by (simp add: observeNativeJob_def)
    with assms(1) show thesis by (intro that) (auto simp: running_unexpired)
  next
    case True
    obtain x where run: "observe_controlled unmarshal timeout now view native job = (es, job', x)"
      and r: "r = Inr (True, jobTerminal native, case x of Inl e \<Rightarrow> Some e | Inr _ \<Rightarrow> None)"
      using assms(2) Inr True by (auto simp: observeNativeJob_def and_do_def attempt_def split: prod.splits)
    let ?err = "case x of Inl e \<Rightarrow> Some e | Inr _ \<Rightarrow> None"
    have api: "\<forall>f. ?err = Some f \<longrightarrow> (\<exists>a. f = Api a)"
      using plain_observe_controlled [of unmarshal timeout now view native] run unfolding plain_def
      by (cases x) (auto, metis snd_conv)
    have un: "unexpired job'" by (rule staysD [OF stays_observe_controlled running_unexpired [OF assms(1)] run])
    have ends: "if jobTerminal native then ended_by es job' else \<not> workflowJobTerminal job'" if err: "?err = None"
    proof (rule observed_job [OF Inr])
      show "observeNativeJob unmarshal timeout now view job = (es, job', Inr (True, jobTerminal native, None))" using assms(2) r err by simp
      fix native' pod start j
      assume t: "jobTerminal native' = jobTerminal native"
        and job': "job' = concluded now native' start (fst (execution_result unmarshal native' pod)) (snd (execution_result unmarshal native' pod)) j"
        and j: "Result j = Result job" and written: "job' = job \<or> (WriteJob job', None) \<in> set es"
      show ?thesis
      proof (cases "jobTerminal native")
        case True
        with t concluded_terminal(1) [of native'] have "Result job' \<noteq> NoResult" unfolding job' by (simp add: native_verdict_result)
        then have "workflowJobTerminal job'" by (simp add: workflowJobTerminal_def workflowJobResult_def)
        with True written assms(1) show ?thesis by (auto simp: ended_by_def)
      next
        case False
        then have "execution_result unmarshal native' pod = (None, False)" using t by (simp add: execution_result_def)
        with False t job' j concluded_running(4) [of native' now start j] running_no_result [OF assms(1)] show ?thesis by simp
      qed
    qed
    show thesis by (rule that [OF r]) (use ends un api in auto)
  qed
qed

lemma sound_after_observe [sound_intros]:
  assumes "\<And>found. sound (k found)"
  shows "sound (and_do (observeNativeJob unmarshal timeout now view) (\<lambda>(found, terminal, err).
    case err of Some e \<Rightarrow> give_up e | None \<Rightarrow> if terminal then ret True else k found))"
  unfolding sound_def
proof (intro allI impI)
  let ?k = "\<lambda>(found, terminal, err). case err of Some e \<Rightarrow> give_up e | None \<Rightarrow> if terminal then ret True else k found"
  fix job es job' r
  assume job: "\<not> workflowJobTerminal job" and run: "and_do (observeNativeJob unmarshal timeout now view) ?k job = (es, job', r)"
  obtain es1 j1 x where look: "observeNativeJob unmarshal timeout now view job = (es1, j1, x)"
    by (cases "observeNativeJob unmarshal timeout now view job")
  show "(r = Inr True \<longrightarrow> ended_by es job') \<and> (\<forall>a b. r = Inl (Misconfigured a b) \<longrightarrow> \<not> workflowJobTerminal job') \<and> unexpired job'"
  proof (rule observe_ends [OF job look])
    fix found terminal err
    assume x: "x = Inr (found, terminal, err)" and t: "err = None \<Longrightarrow> terminal \<Longrightarrow> ended_by es1 j1"
      and running: "err = None \<Longrightarrow> \<not> terminal \<Longrightarrow> \<not> workflowJobTerminal j1" and un: "unexpired j1"
      and api: "\<forall>f. err = Some f \<longrightarrow> (\<exists>a. f = Api a)"
    obtain es2 where k: "?k (found, terminal, err) j1 = (es2, job', r)" and es: "es = es1 @ es2"
      using run look x by (auto simp: and_do_def split: prod.splits)
    show ?thesis
    proof (cases err)
      case (Some e)
      with k un api show ?thesis by auto
    next
      case None
      show ?thesis
      proof (cases terminal)
        case True
        with None k t un es show ?thesis by auto
      next
        case False
        with None k have "k found j1 = (es2, job', r)" by simp
        with assms [of found] running [OF None False]
        have "(r = Inr True \<longrightarrow> ended_by es2 job') \<and> (\<forall>a b. r = Inl (Misconfigured a b) \<longrightarrow> \<not> workflowJobTerminal job') \<and> unexpired job'"
          unfolding sound_def by blast
        with es show ?thesis by (auto intro: ended_by_mono)
      qed
    qed
  qed
qed

lemma sound_unfinished: "plain m \<Longrightarrow> stays unexpired m \<Longrightarrow> sound (and_do m (\<lambda>_. ret False))"
  unfolding sound_def plain_def stays_def and_do_def ret_def
  by (auto split: prod.splits sum.splits dest!: running_unexpired) (metis fst_conv snd_conv failure.distinct(1))+

lemma keeps_create [keeps_intros]: "keeps (createNativeJob v built)"
  unfolding createNativeJob_def Let_def by (auto intro!: keeps_intros split: option.splits)

lemma keeps_ensure [keeps_intros]: "keeps (ensureAuthSecret v j a t)"
  unfolding ensureAuthSecret_def
  by (intro keeps_intros) (auto intro!: keeps_intros split: sum.splits failure.splits api_error.splits)

lemma keeps_snapshot [keeps_intros]: "keeps (validateEventSnapshot obj run snaps)"
  unfolding validateEventSnapshot_def by (auto intro!: keeps_intros split: option.splits sum.splits)

lemma plain_update: "plain (updateWorkflowJobStatus now a n p s r)"
  unfolding updateWorkflowJobStatus_def by (auto intro: plain_intros split: prod.splits)

lemma sound_start_native [sound_intros]: "sound (start_native env view built)"
proof -
  have second: "sound (and_do (observeNativeJob u t n v) (\<lambda>(found, terminal, err). case err of Some e \<Rightarrow> give_up e | None \<Rightarrow> ret terminal))" for u t n v
  proof -
    have eq: "(\<lambda>(found, terminal, err). case err of Some e \<Rightarrow> give_up e | None \<Rightarrow> ret terminal) =
      (\<lambda>(found, terminal, err). case err of Some e \<Rightarrow> give_up e | None \<Rightarrow> if terminal then ret True else (ret False :: bool act))"
      by (auto simp: fun_eq_iff split: option.splits)
    show ?thesis unfolding eq by (rule sound_after_observe) (rule sound_ret_False)
  qed
  show ?thesis
    unfolding start_native_def
    by (rule sound_after [OF keeps_attempt [OF keeps_create]])
      (auto intro!: second sound_failing_after keeps_cleanup sound_unfinished plain_update stays_update split: sum.splits failure.splits api_error.splits)
qed

lemma sound_launch [sound_intros]: "sound (launch env view run source deadline access)"
  unfolding launch_def Let_def
  by (rule sound_holding) (auto intro!: sound_intros keeps_cleanup split: option.splits sum.splits)

lemma sound_store_and_launch [sound_intros]: "sound (store_and_launch env view run source j a d t access)"
  unfolding store_and_launch_def
  by (rule sound_after [OF keeps_attempt [OF keeps_ensure]]) (auto intro!: sound_intros split: sum.splits)

lemma sound_with_archive [sound_intros]: "sound k \<Longrightarrow> sound (with_archive env view ts k)"
  unfolding with_archive_def Let_def
  by (auto intro!: sound_intros keeps_intros split: sum.splits)

lemma sound_with_services [sound_intros]: "(\<And>t a. sound (k t a)) \<Longrightarrow> sound (with_services env view run source plan d ts k)"
  unfolding with_services_def by (auto intro!: sound_intros split: option.splits sum.splits)

lemma sound_prepare [sound_intros]: "sound (prepare env view run source plan j a d)"
  unfolding prepare_def Let_def by (intro sound_intros)

lemma sound_with_tokens [sound_intros]: "(\<And>j a d. sound (k j a d)) \<Longrightarrow> sound (with_tokens env view run plan k)"
  unfolding with_tokens_def with_action_token_def start_tokens_def handleJobTokenCreationError_def Let_def
  by (auto intro!: sound_intros keeps_intros split: sum.splits option.splits token_error.splits)

lemma sound_with_values [sound_intros]: "sound k \<Longrightarrow> sound (with_values env view run source k)"
  unfolding with_values_def Let_def
  by (auto intro!: sound_intros keeps_intros split: sum.splits option.splits prod.splits)

lemma sound_with_plan [sound_intros]: "(\<And>p. sound (k p)) \<Longrightarrow> sound (with_plan env view k)"
  unfolding with_plan_def Let_def
  by (auto intro!: sound_intros split: sum.splits api_error.splits)

lemma sound_unless_launched [sound_intros]: "sound k \<Longrightarrow> sound (unless_launched env view run k)"
  unfolding unless_launched_def
  by (auto intro!: sound_after_observe sound_intros keeps_intros)

lemma sound_execute: "sound (executeWorkflowJob env view)"
  unfolding executeWorkflowJob_def with_run_def
  by (auto intro!: sound_after keeps_answer sound_intros split: prod.splits)


section \<open>The Runner and its job\<close>

fun is_runner_write :: "request \<Rightarrow> bool" where
  "is_runner_write (WriteRunner x) = True"
| "is_runner_write _ = False"

interpretation runner_write: last_request is_runner_write
  by unfold_locales simp_all

text \<open>The Runner gives up its job in a trace.\<close>

definition lets_go :: "trace \<Rightarrow> bool" where
  "lets_go es \<longleftrightarrow> (\<exists>x ans. (WriteRunner x, ans) \<in> set es \<and> WorkflowJobRef x = None)"

lemma never_lets_go: "never is_runner_write m \<Longrightarrow> \<not> lets_go (fst (m h))"
  unfolding never_def lets_go_def by force

text \<open>After the trace \<open>es\<close>, what the action does includes giving up the job only if the held job has ended.\<close>

definition guarded :: "trace \<Rightarrow> Held \<Rightarrow> (Held, 'a) action \<Rightarrow> bool" where
  "guarded es h m \<longleftrightarrow> (\<forall>es' h' r. m h = (es', h', r) \<longrightarrow> lets_go es' \<longrightarrow> (\<exists>job. held_job h' = Some job \<and> ended_by (es @ es') job))"

lemma guarded_ret [simp]: "guarded es h (ret x)" "guarded es h (give_up e)" "guarded es h (stop e')"
  by (auto simp: guarded_def lets_go_def)

lemma guarded_holding [simp]: "guarded es h (holding f) \<longleftrightarrow> guarded es h (f h)"
  by (simp add: guarded_def)

lemma kept_job: "(finish (updateRunnerStatus ans ready reason message ref) r) h = (es, h', x) \<Longrightarrow>
    held_job h' = held_job h \<and> (ref \<noteq> None \<longrightarrow> \<not> lets_go es)"
  by (auto simp: finish_def updateRunnerStatus_def and_do_def send_def Let_def lets_go_def runner_status_def split: prod.splits sum.splits if_splits option.splits)

lemma guarded_ended:
  assumes "held_job h = Some job" and "ended_by es job"
  shows "guarded es h (finish (updateRunnerStatus ans ready reason message ref) r)"
proof -
  have "ended_by (es @ es') job" for es' by (rule ended_by_mono [OF assms(2)]) simp
  then show ?thesis unfolding guarded_def using assms(1) kept_job [of ans ready reason message ref r h] by (metis (no_types, lifting))
qed

lemma guarded_kept: "ref \<noteq> None \<Longrightarrow> guarded es h (finish (updateRunnerStatus ans ready reason message ref) r)"
  unfolding guarded_def by (auto dest!: kept_job)

lemma lets_go_append [simp]: "lets_go (es @ es') \<longleftrightarrow> lets_go es \<or> lets_go es'"
  by (auto simp: lets_go_def)

text \<open>An action on the job, and then what depends on its value.\<close>

lemma guarded_on_job:
  assumes "held_job h = Some job" and "never is_runner_write m"
    and "\<And>es1 job1 x. m job = (es1, job1, Inr x) \<Longrightarrow> guarded (es @ es1) (h\<lparr>held_job := Some job1\<rparr>) (k x)"
  shows "guarded es h (and_do (on_job m) k)"
proof -
  obtain es1 job1 r where m: "m job = (es1, job1, r)" by (cases "m job")
  have quiet: "\<not> lets_go es1" using never_lets_go [OF assms(2), of job] m by simp
  show ?thesis
  proof (cases r)
    case (Inl e)
    with m assms(1) quiet show ?thesis by (auto simp: guarded_def and_do_def on_job_def)
  next
    case (Inr x)
    with assms(3) m have "guarded (es @ es1) (h\<lparr>held_job := Some job1\<rparr>) (k x)" by simp
    with m assms(1) quiet Inr show ?thesis by (auto simp: guarded_def and_do_def on_job_def split: prod.splits)
  qed
qed

lemma guarded_attempt_on_job:
  assumes "held_job h = Some job" and "never is_runner_write m"
    and "\<And>es1 job1 r. m job = (es1, job1, r) \<Longrightarrow> guarded (es @ es1) (h\<lparr>held_job := Some job1\<rparr>) (k r)"
  shows "guarded es h (and_do (attempt (on_job m)) k)"
proof -
  have "attempt (on_job m) h = on_job (attempt m) h" using assms(1) by (auto simp: attempt_def on_job_def split: prod.splits)
  then have "and_do (attempt (on_job m)) k h = and_do (on_job (attempt m)) k h" by (simp add: and_do_def)
  moreover have "guarded es h (and_do (on_job (attempt m)) k)"
    by (rule guarded_on_job [OF assms(1) never_attempt [OF assms(2)]]) (use assms(3) in \<open>auto simp: attempt_eq\<close>)
  ultimately show ?thesis by (simp add: guarded_def)
qed

lemma runner_write_never [never_intros]:
  "never is_runner_write (completeAssignedWorkflowJob now v res reason m)" "never is_runner_write (failExpiredPreStart now since w msg)"
  "never is_runner_write (cancelWorkflowJob now c d)" "never is_runner_write (observeNativeJob u t now n)"
  unfolding failExpiredPreStart_def failAssignedWorkflowJob_def
  by (auto intro!: never_intros runner_write.never_complete runner_write.never_cancel runner_write.never_observe)

lemma never_create: "never is_runner_write (createNativeJob v b)"
  unfolding createNativeJob_def Let_def by (auto intro!: never_intros split: option.splits)

lemma never_start: "never is_runner_write (start_native env view b)"
  unfolding start_native_def updateWorkflowJobStatus_def
  by (intro never_intros never_create)
    (auto intro!: never_intros runner_write.never_cleanup split: sum.splits failure.splits api_error.splits option.splits)

lemma never_launch: "never is_runner_write (launch env view run source deadline access)"
  unfolding launch_def Let_def
  by (auto intro!: never_intros runner_write.never_cleanup never_start split: option.splits sum.splits)

lemma never_unless_cancelled: "never is_runner_write k \<Longrightarrow> never is_runner_write (unless_cancelled v request run ts k)"
  unfolding unless_cancelled_def
  by (auto intro!: never_intros runner_write.never_stop_revoking runner_write.never_revoke split: sum.splits option.splits)

lemma never_store: "never is_runner_write (store_and_launch env view run source j a d t access)"
  unfolding store_and_launch_def
  by (auto intro!: never_intros runner_write.never_stop_revoking runner_write.never_ensure never_launch split: sum.splits)

lemma never_with_archive: "never is_runner_write k \<Longrightarrow> never is_runner_write (with_archive env view ts k)"
  unfolding with_archive_def Let_def
  by (auto intro!: never_intros runner_write.never_stop_revoking split: sum.splits)

lemma never_with_services: "(\<And>t a. never is_runner_write (k t a)) \<Longrightarrow> never is_runner_write (with_services env view run source plan d ts k)"
  unfolding with_services_def
  by (auto intro!: never_intros runner_write.never_stop_revoking split: option.splits sum.splits)

lemma never_prepare: "never is_runner_write (prepare env view run source plan j a d)"
  unfolding prepare_def Let_def
  by (intro never_unless_cancelled never_with_services never_with_archive never_store)

lemma never_with_tokens: "never is_runner_write (with_tokens env view run plan (prepare env view run source plan))"
  unfolding with_tokens_def with_action_token_def start_tokens_def handleJobTokenCreationError_def Let_def
  by (auto intro!: never_intros runner_write.never_stop_revoking runner_write.never_revoke runner_write.never_fail never_prepare
      split: sum.splits option.splits token_error.splits)

lemma never_with_values: "never is_runner_write k \<Longrightarrow> never is_runner_write (with_values env view run source k)"
  unfolding with_values_def Let_def
  by (auto intro!: never_intros runner_write.never_snapshot split: sum.splits option.splits prod.splits)

lemma never_with_plan: "(\<And>p. never is_runner_write (k p)) \<Longrightarrow> never is_runner_write (with_plan env view k)"
  unfolding with_plan_def Let_def
  by (auto intro!: never_intros runner_write.never_fail split: sum.splits api_error.splits)

lemma never_unless_launched: "never is_runner_write k \<Longrightarrow> never is_runner_write (unless_launched env view run k)"
  unfolding unless_launched_def
  by (auto intro!: never_intros never_unless_cancelled runner_write.never_fail split: option.splits)

lemma never_execute: "never is_runner_write (executeWorkflowJob env view)"
  unfolding executeWorkflowJob_def with_run_def
  by (auto intro!: never_intros never_unless_launched never_with_plan never_with_values never_with_tokens split: prod.splits)

lemma failed_job_ends:
  assumes "unexpired job" and "failExpiredPreStart now since view message job = (es, job', Inr True)"
  shows "ended_by es job'"
proof -
  let ?text = "''WorkflowJob did not start within 5m0s: '' @ message"
  from assms(2) have "failAssignedWorkflowJob now view ''JobStartFailed'' ?text job = (es, job', Inr ())"
    by (auto simp: failExpiredPreStart_def and_do_eq_Inr split: if_splits)
  then obtain es1 j1 es2 where put: "put_status (\<lambda>job. completed_job job Failure now ''JobStartFailed'' ?text) (complete_updated view) job = (es1, j1, Inr ())"
    and cleanup: "cleanupAuthSecret (complete_secret view) j1 = (es2, job', Inr ())" and es: "es = es1 @ es2"
    by (auto simp: failAssignedWorkflowJob_def completeAssignedWorkflowJob_def and_do_eq_Inr)
  from cleanup have j1: "job' = j1" by (rule secret_cleanup_keeps)
  from put_status_eq_Inr [OF put] have done_job: "completed_job job Failure now ''JobStartFailed'' ?text = Some j1"
    and written: "j1 = job \<or> (WriteJob j1, None) \<in> set es1" by auto
  note fields = completed_fields [OF done_job]
  have "j1 \<noteq> job" using fields assms(1) by (auto simp: unexpired_def)
  with written fields(1) show ?thesis by (auto simp: ended_by_def j1 es workflowJobTerminal_def workflowJobResult_def)
qed

lemma guarded_expire:
  assumes "held_job h = Some job" and "unexpired job" and "k True = finish (updateRunnerStatus ans ready reason message ref) x"
    and "\<And>es1 job1. guarded (es @ es1) (h\<lparr>held_job := Some job1\<rparr>) (k False)"
  shows "guarded es h (and_do (expire v text) k)"
  unfolding expire_def
proof (rule guarded_on_job [OF assms(1)])
  fix es1 job1 b
  assume run: "failExpiredPreStart (rec_now v) (assigned_since v) (expire_view v) text job = (es1, job1, Inr b)"
  show "guarded (es @ es1) (h\<lparr>held_job := Some job1\<rparr>) (k b)"
  proof (cases b)
    case True
    have "ended_by es1 job1" by (rule failed_job_ends [OF assms(2)]) (use run True in simp)
    then have "ended_by (es @ es1) job1" by (rule ended_by_mono) simp
    then have "guarded (es @ es1) (h\<lparr>held_job := Some job1\<rparr>) (finish (updateRunnerStatus ans ready reason message ref) x)"
      by (rule guarded_ended [rotated]) simp
    with True assms(3) show ?thesis by simp
  next
    case False
    then show ?thesis using assms(4) by simp
  qed
qed (rule never_intros)

lemma and_do_assoc: "and_do (and_do a b) c = and_do a (\<lambda>x. and_do (b x) c)"
  by (auto simp: and_do_def fun_eq_iff split: prod.splits sum.splits)

lemma guarded_block:
  assumes "held_job h = Some job" and "\<not> workflowJobTerminal job"
  shows "guarded es h (finish (blockRunnerForExecutionConfiguration v reason message) r)"
proof -
  let ?m = "failAssignedWorkflowJob (rec_now v) (block_view v) reason message"
  have "guarded es h (and_do (on_job ?m) (\<lambda>_. finish (updateRunnerStatus (runner_written v) ConditionFalse reason message None) r))"
  proof (rule guarded_on_job [OF assms(1)])
    fix es1 job1 x
    assume "?m job = (es1, job1, Inr x)"
    then have "completeAssignedWorkflowJob (rec_now v) (block_view v) Failure reason message job = (es1, job1, Inr ())"
      by (simp add: failAssignedWorkflowJob_def)
    then have "ended_by es1 job1" by (rule complete_ends [OF assms(2), rotated]) simp_all
    then have "ended_by (es @ es1) job1" by (rule ended_by_mono) simp
    then show "guarded (es @ es1) (h\<lparr>held_job := Some job1\<rparr>) (finish (updateRunnerStatus (runner_written v) ConditionFalse reason message None) r)"
      by (rule guarded_ended [rotated]) simp
  qed (simp add: failAssignedWorkflowJob_def never_intros)
  then show ?thesis
    using assms(1) by (simp add: guarded_def finish_def blockRunnerForExecutionConfiguration_def and_do_assoc [symmetric]) (simp add: and_do_def)
qed

lemma guarded_without_project:
  assumes "held_job h = Some job" and "\<not> workflowJobTerminal job" and "WorkflowJobRef (held_runner h) \<noteq> None"
  shows "guarded es h (without_project v reason message)"
proof -
  have "guarded es h (and_do (expire v message) (\<lambda>expired. finish (updateRunnerStatus (runner_written v) ConditionFalse reason message
      (if expired then None else WorkflowJobRef (held_runner h))) (RequeueAfter (30 * second))))"
    by (rule guarded_expire [OF assms(1) running_unexpired [OF assms(2)]]) (simp, simp add: guarded_kept assms(3))
  with assms(1) show ?thesis unfolding without_project_def by simp
qed

lemma guarded_execute:
  assumes "held_job h = Some job" and "\<not> workflowJobTerminal job"
  shows "guarded es h (execute_job env v)"
  unfolding execute_job_def
proof (rule guarded_attempt_on_job [OF assms(1) never_execute])
  fix es1 job1 r
  assume run: "executeWorkflowJob env (exec_view v) job = (es1, job1, r)"
  let ?h = "h\<lparr>held_job := Some job1\<rparr>"
  from sound_execute [of env "exec_view v"] assms(2) run
  have sound: "r = Inr True \<Longrightarrow> ended_by es1 job1" "\<And>a b. r = Inl (Misconfigured a b) \<Longrightarrow> \<not> workflowJobTerminal job1" "unexpired job1"
    unfolding sound_def by blast+
  show "guarded (es @ es1) ?h (case r of
      Inl (Misconfigured reason message) \<Rightarrow> finish (blockRunnerForExecutionConfiguration v reason message) (RequeueAfter (30 * second))
    | Inl e \<Rightarrow> and_do (expire v (error_text e)) (\<lambda>expired. if expired then free_runner v else give_up e)
    | Inr terminal \<Rightarrow> if terminal then free_runner v else ret (RequeueAfter (5 * second)))"
  proof (cases r)
    case (Inr terminal)
    show ?thesis
    proof (cases terminal)
      case True
      with Inr sound(1) have "ended_by es1 job1" by simp
      then have "ended_by (es @ es1) job1" by (rule ended_by_mono) simp
      then have "guarded (es @ es1) ?h (free_runner v)"
        unfolding free_runner_def release_runner_def by (rule guarded_ended [rotated]) simp
      with Inr True show ?thesis by simp
    qed (simp add: Inr)
  next
    case (Inl e)
    show ?thesis
    proof (cases e)
      case (Api a)
      have "guarded (es @ es1) ?h (and_do (expire v (error_text (Api a))) (\<lambda>expired. if expired then free_runner v else give_up (Api a)))"
        by (rule guarded_expire [where job = job1, OF _ sound(3)]) (simp, simp add: free_runner_def release_runner_def, simp)
      with Inl Api show ?thesis by simp
    next
      case (Misconfigured reason message)
      with Inl sound(2) have "\<not> workflowJobTerminal job1" by simp
      with Inl Misconfigured show ?thesis by (simp add: guarded_block)
    qed
  qed
qed

lemma guarded_cancel:
  assumes "held_job h = Some job" and "\<not> workflowJobTerminal job" and "guarded es h k"
  shows "guarded es h (cancel_assigned v k)"
proof (cases "workflowJobCancellationCondition job")
  case None
  with assms show ?thesis by (simp add: cancel_assigned_def)
next
  case (Some c)
  have "guarded es h (and_do (on_job (cancelWorkflowJob (rec_now v) (seen_cancel v) c)) (\<lambda>_. free_runner v))"
  proof (rule guarded_on_job [OF assms(1)])
    fix es1 job1 x
    assume "cancelWorkflowJob (rec_now v) (seen_cancel v) c job = (es1, job1, Inr x)"
    then have "ended_by es1 job1" by (rule cancel_ends [OF assms(2)])
    then have "ended_by (es @ es1) job1" by (rule ended_by_mono) simp
    then show "guarded (es @ es1) (h\<lparr>held_job := Some job1\<rparr>) (free_runner v)"
      unfolding free_runner_def release_runner_def by (rule guarded_ended [rotated]) simp
  qed (rule never_intros)
  with Some assms(1) show ?thesis by (simp add: cancel_assigned_def)
qed

lemma find_set_other: "t \<noteq> t' \<Longrightarrow> find_condition (set_condition cs t s r m) t' = find_condition cs t'"
  by (simp add: find_condition_def set_condition_def update_conv)

lemma assigned_running:
  assumes "setWorkflowJobAssigned job = Some job'" and "\<not> workflowJobTerminal job"
  shows "\<not> workflowJobTerminal job'"
proof -
  have "find_condition (job_conditions job') ''Succeeded'' = find_condition (job_conditions job) ''Succeeded''"
    using assms(1) by (auto simp: setWorkflowJobAssigned_def Let_def find_set_other split: option.splits)
  moreover have "Result job' = Result job" using setWorkflowJobAssigned_fields [OF assms(1)] by simp
  ultimately have "workflowJobResult job' = workflowJobResult job" by (simp add: workflowJobResult_def)
  with assms(2) show ?thesis by (simp add: workflowJobTerminal_def)
qed

lemma guarded_look:
  assumes "held_job h = Some job" and "\<not> workflowJobTerminal job"
    and k: "\<And>es1 job1. \<not> workflowJobTerminal job1 \<Longrightarrow> guarded es1 (h\<lparr>held_job := Some job1\<rparr>) k"
  shows "guarded es h (look_at_job env v k)"
proof -
  let ?after = "\<lambda>(found, terminal, err).
    case err of
      Some e \<Rightarrow> if found then give_up e else and_do (expire v (error_text e)) (\<lambda>expired. if expired then free_runner v else give_up e)
    | None \<Rightarrow> if found then (if terminal then free_runner v else cancel_assigned v (ret (RequeueAfter (5 * second)))) else cancel_assigned v k"
  let ?look = "observeNativeJob (decode_result env) (timeout_of env) (rec_now v) (look v)"
  have second: "guarded es2 (h\<lparr>held_job := Some job2\<rparr>) (and_do (on_job ?look) ?after)" if running: "\<not> workflowJobTerminal job2" for es2 job2
  proof (rule guarded_on_job)
    fix es3 job3 y
    assume look: "?look job2 = (es3, job3, Inr y)"
    have upd: "h\<lparr>held_job := Some job2, held_job := Some job3\<rparr> = h\<lparr>held_job := Some job3\<rparr>" by simp
    show "guarded (es2 @ es3) (h\<lparr>held_job := Some job2, held_job := Some job3\<rparr>) (?after y)"
      unfolding upd
    proof (rule observe_ends [OF running look])
      fix found terminal err
      assume y: "Inr y = (Inr (found, terminal, err) :: failure + _)" and ended: "err = None \<Longrightarrow> terminal \<Longrightarrow> ended_by es3 job3"
        and remains: "err = None \<Longrightarrow> \<not> terminal \<Longrightarrow> \<not> workflowJobTerminal job3" and absent: "\<not> found \<Longrightarrow> job3 = job2 \<and> \<not> terminal"
        and un: "unexpired job3"
      let ?h = "h\<lparr>held_job := Some job3\<rparr>"
      have expired: "guarded (es2 @ es3) ?h (and_do (expire v msg) (\<lambda>expired. if expired then free_runner v else give_up e))" for msg e
        by (rule guarded_expire [where job = job3, OF _ un]) (simp, simp add: free_runner_def release_runner_def, simp)
      have free: "guarded (es2 @ es3) ?h (free_runner v)" if "err = None" "terminal"
        unfolding free_runner_def release_runner_def
        by (rule guarded_ended [where job = job3]) (simp, rule ended_by_mono [OF ended [OF that]], simp)
      have cancelled: "guarded (es2 @ es3) ?h (cancel_assigned v k')" if "err = None" "\<not> terminal" "guarded (es2 @ es3) ?h k'" for k'
        by (rule guarded_cancel [where job = job3, OF _ remains [OF that(1,2)] that(3)]) simp
      have k': "guarded (es2 @ es3) ?h k" if "err = None" "\<not> terminal" by (rule k [OF remains [OF that]])
      from y show "guarded (es2 @ es3) ?h (?after y)"
        using expired free cancelled k' absent by (cases err) auto
    qed
  qed (simp, rule never_intros)
  have "guarded es h (and_do (on_job (updateWorkflowJobAssigned v)) (\<lambda>_. and_do (on_job ?look) ?after))"
  proof (rule guarded_on_job [OF assms(1)])
    fix es1 job1 x
    assume "updateWorkflowJobAssigned v job = (es1, job1, Inr x)"
    then have "setWorkflowJobAssigned job = Some job1" by (auto simp: updateWorkflowJobAssigned_def dest: put_status_eq_Inr)
    then show "guarded (es @ es1) (h\<lparr>held_job := Some job1\<rparr>) (and_do (on_job ?look) ?after)"
      by (rule second [OF assigned_running [OF _ assms(2)]])
  qed (simp add: updateWorkflowJobAssigned_def never_intros)
  with assms(1) show ?thesis by (simp add: look_at_job_def)
qed

text \<open>
  C7. A Runner lets go of its job only when the job has ended. When a reconciliation of a Runner that has an unfinished job writes the status of the
  Runner without the reference to the job, then it has given the job a result, which the API server took, or the job is gone.
\<close>

theorem runner_keeps_unfinished_job:
  assumes "reconcileRunner env v = (es, Some h, r)" and "got_runner v = Inr (runner, finalizer)" and "WorkflowJobRef runner = Some n"
    and "got_assigned v = Inr job" and "\<not> workflowJobTerminal job" and "RunnerRef job = Some (runner_name runner)"
    and "(WriteRunner runner', ans) \<in> set es" and "WorkflowJobRef runner' = None"
  shows "\<exists>job'. held_job h = Some job' \<and> workflowJobTerminal job' \<and>
    ((WriteJob job', None) \<in> set es \<or> (\<exists>m. (WriteJob job', Some (NotFound m)) \<in> set es))"
proof -
  let ?h = "\<lparr>held_runner = runner, held_job = None\<rparr>"
  let ?k = "holding (\<lambda>h. case runnerExecutionConfigurationIssue (execution env) (ready_current v) (held_runner h) of
      Some (reason, message) \<Rightarrow> finish (blockRunnerForExecutionConfiguration v reason message) (RequeueAfter (30 * second))
    | None \<Rightarrow> with_project env v (if held_job h = None then claim_job v else execute_job env v))"
  have k: "guarded es1 (?h\<lparr>held_job := Some job1\<rparr>) ?k" if "\<not> workflowJobTerminal job1" for es1 job1
    using that assms(3) guarded_without_project [where h = "?h\<lparr>held_job := Some job1\<rparr>" and job = job1 and v = v and es = es1]
    by (auto simp: with_project_def guarded_execute guarded_block Let_def split: option.splits sum.splits)
  have taken: "assignedWorkflowJob v ?h = ([], ?h\<lparr>held_job := Some job\<rparr>, Inr ())"
    using assms(3-6) by (simp add: assignedWorkflowJob_def ret_def)
  have "guarded [] (?h\<lparr>held_job := Some job\<rparr>) (look_at_job env v ?k)"
    by (rule guarded_look [where job = job, OF _ assms(5)]) (simp, use k in simp)
  then have "guarded [] ?h (reconcile_present env v finalizer)"
    using taken by (auto simp: reconcile_present_def guarded_def finish_def and_do_def send_def ret_def lets_go_def Let_def split: prod.splits option.splits)
  moreover have "reconcile_present env v finalizer ?h = (es, h, r)"
    using assms(1,2) by (auto simp: reconcileRunner_def split: prod.splits)
  moreover have "lets_go es" using assms(7,8) by (auto simp: lets_go_def)
  ultimately show ?thesis by (auto simp: guarded_def ended_by_def)
qed

section \<open>Witness\<close>

definition demo_reconcile :: ReconcileView where
  "demo_reconcile = \<lparr>rec_now = 9, got_runner = Inr (demo_runner, True), finalizer_updated = None, got_assigned = Inr demo_job, assigned_secret = demo_secret,
     jobs_listed = Inr [], reference_written = None, assigned_patched = None, assigned_since = 0, look = demo_look (Inr demo_native) [demo_pod],
     expire_view = demo_complete, seen_cancel = demo_cancel, ready_current = True, block_view = demo_complete, got_project = Inr None,
     claim_result = NothingClaimed, exec_view = demo_exec None, runner_written = None\<rparr>"

theorem runner_keeps_unfinished_job_witness:
  "\<exists>job. (WriteJob job, None) \<in> set (fst (reconcileRunner exec_demo_env demo_reconcile)) \<and> workflowJobTerminal job"
proof -
  let ?es = "fst (reconcileRunner exec_demo_env demo_reconcile)"
  have got: "got_runner demo_reconcile = Inr (demo_runner, True)" "WorkflowJobRef demo_runner = Some ''j''" "got_assigned demo_reconcile = Inr demo_job"
    "RunnerRef demo_job = Some (runner_name demo_runner)"
    by (simp_all add: demo_reconcile_def demo_runner_def demo_job_def)
  have running: "\<not> workflowJobTerminal demo_job" by code_simp
  have freed: "list_ex (\<lambda>(req, ans). case req of WriteRunner x \<Rightarrow> WorkflowJobRef x = None | _ \<Rightarrow> False) ?es" by code_simp
  have taken: "list_all (\<lambda>(req, ans). ans = None) ?es" by code_simp
  have held: "fst (snd (reconcileRunner exec_demo_env demo_reconcile)) \<noteq> None" by code_simp
  from freed obtain x ans where x: "(WriteRunner x, ans) \<in> set ?es" "WorkflowJobRef x = None"
    unfolding list_ex_iff by (auto split: request.splits)
  obtain h r where run: "reconcileRunner exec_demo_env demo_reconcile = (?es, Some h, r)"
    using held by (metis option.exhaust prod.collapse)
  from runner_keeps_unfinished_job [OF run got(1-3) running got(4) x] taken show ?thesis
    unfolding list_all_iff by fastforce
qed

end
